(* ===== verification/Coa_Prelude.thy ===== *)
theory Coa_Prelude
  imports Main "HOL-Library.Multiset"
begin

text \<open>
  The vocabulary every other theory of the development shares.

  \<^item> decimal printing as Python's \<open>str\<close> does it on integers, and \<open>str.join\<close>;
  \<^item> a scanner for parentheses, with which the rendering theories say that a piece of SQL
    text is balanced, or shows no blank outside its own parentheses;
  \<^item> facts about lists and multisets that the semantics of the generated queries needs
    (filters that split a list, index lists, permutations);
  \<^item> the collections \<open>coa_simps\<close>, \<open>scan_simps\<close> and \<open>gspec_intros\<close> the component
    theories add to.
\<close>

named_theorems coa_simps \<open>unfolding rules for the constructors of the intermediate representation\<close>
named_theorems scan_simps \<open>how the parenthesis scanner reads rendered text\<close>
named_theorems gspec_intros \<open>one rule per primitive of the generator monad\<close>


section \<open>Decimal printing\<close>

definition digit_char :: "nat \<Rightarrow> char" where
  "digit_char n = ''0123456789'' ! n"

fun str_nat :: "nat \<Rightarrow> string" where
  "str_nat n = (if n < 10 then [digit_char n] else str_nat (n div 10) @ [digit_char (n mod 10)])"

declare str_nat.simps [simp del]

definition str_int :: "int \<Rightarrow> string" where
  "str_int i = (if i < 0 then ''-'' @ str_nat (nat (- i)) else str_nat (nat i))"

fun join_with :: "string \<Rightarrow> string list \<Rightarrow> string" where
  "join_with sep [] = []"
| "join_with sep [x] = x"
| "join_with sep (x # y # ys) = x @ sep @ join_with sep (y # ys)"

lemma digit_char_cases:
  assumes "n < 10"
  shows "digit_char n \<in> set ''0123456789''"
  using assms by (simp only: digit_char_def) (rule nth_mem, simp)

lemma digit_char_inj: "m < 10 \<Longrightarrow> n < 10 \<Longrightarrow> digit_char m = digit_char n \<Longrightarrow> m = n"
  unfolding digit_char_def by (subst (asm) nth_eq_iff_index_eq) simp_all

lemma str_nat_nonempty [simp]: "str_nat n \<noteq> []"
  by (subst str_nat.simps) simp

lemma str_nat_digits: "set (str_nat n) \<subseteq> set ''0123456789''"
proof (induction n rule: str_nat.induct)
  case (1 n)
  show ?case
  proof (cases "n < 10")
    case True
    then show ?thesis using digit_char_cases [of n] by (subst str_nat.simps) simp
  next
    case False
    with "1.IH" have "set (str_nat (n div 10)) \<subseteq> set ''0123456789''" by simp
    moreover have "digit_char (n mod 10) \<in> set ''0123456789''" by (rule digit_char_cases) simp
    ultimately show ?thesis using False by (subst str_nat.simps) simp
  qed
qed

lemma str_nat_inj: "str_nat m = str_nat n \<Longrightarrow> m = n"
proof (induction m arbitrary: n rule: str_nat.induct)
  case (1 m)
  have digit: "m mod 10 = n mod 10" "butlast (str_nat m) = butlast (str_nat n)"
  proof -
    have last: "last (str_nat k) = digit_char (k mod 10)" for k
      by (subst str_nat.simps) simp
    show "m mod 10 = n mod 10"
      using last [of m] last [of n] "1.prems" by (intro digit_char_inj) auto
    show "butlast (str_nat m) = butlast (str_nat n)" using "1.prems" by simp
  qed
  have butlast: "butlast (str_nat k) = (if k < 10 then [] else str_nat (k div 10))" for k
    by (subst str_nat.simps) (simp add: butlast_append)
  show ?case
  proof (cases "m < 10")
    case True
    with digit(2) butlast [of m] butlast [of n] have "n < 10"
      using str_nat_nonempty [of "n div 10"] by (metis (full_types))
    with True digit(1) show ?thesis by simp
  next
    case False
    with digit(2) butlast [of m] butlast [of n] have "\<not> n < 10" "str_nat (m div 10) = str_nat (n div 10)"
      using str_nat_nonempty [of "m div 10"] by metis+
    with "1.IH" [OF False] have "m div 10 = n div 10" by blast
    with digit(1) show ?thesis by (metis div_mult_mod_eq)
  qed
qed

lemma str_nat_eq [simp]: "str_nat m = str_nat n \<longleftrightarrow> m = n"
  using str_nat_inj by blast


section \<open>Errors as sums\<close>

definition ebind :: "'e + 'a \<Rightarrow> ('a \<Rightarrow> 'e + 'b) \<Rightarrow> 'e + 'b" where
  "ebind m f = (case m of Inl e \<Rightarrow> Inl e | Inr x \<Rightarrow> f x)"

fun esequence :: "('e + 'a) list \<Rightarrow> 'e + 'a list" where
  "esequence [] = Inr []"
| "esequence (m # ms) = ebind m (\<lambda>x. ebind (esequence ms) (\<lambda>xs. Inr (x # xs)))"

lemma ebind_simps [simp]: "ebind (Inl e) f = Inl e" "ebind (Inr x) f = f x"
  by (simp_all add: ebind_def)

lemma ebind_Inr [simp]: "ebind m f = Inr y \<longleftrightarrow> (\<exists>x. m = Inr x \<and> f x = Inr y)"
  by (cases m) auto

lemma ebind_Inl: "ebind m f = Inl e \<longleftrightarrow> m = Inl e \<or> (\<exists>x. m = Inr x \<and> f x = Inl e)"
  by (cases m) auto

lemma esequence_Inr: "esequence ms = Inr xs \<longleftrightarrow> ms = map Inr xs"
  by (induction ms arbitrary: xs) auto

lemma esequence_ok: "(\<And>m. m \<in> set ms \<Longrightarrow> \<exists>x. m = Inr x) \<Longrightarrow> \<exists>xs. esequence ms = Inr xs"
  by (induction ms) (auto simp: ebind_def split: sum.splits)


section \<open>Counters\<close>

text \<open>
  A \<open>collections.Counter\<close> is an association list in insertion order; \<open>bump_count\<close> is
  \<open>counts[k] += 1\<close>, \<open>count_of\<close> the read that defaults to 0.
\<close>

type_synonym 'k counter = "('k \<times> nat) list"

definition count_of :: "'k counter \<Rightarrow> 'k \<Rightarrow> nat" where
  "count_of c k = (case map_of c k of None \<Rightarrow> 0 | Some n \<Rightarrow> n)"

fun bump_count :: "'k \<Rightarrow> 'k counter \<Rightarrow> 'k counter" where
  "bump_count k [] = [(k, 1)]"
| "bump_count k ((k', n) # c) = (if k = k' then (k', Suc n) # c else (k', n) # bump_count k c)"

lemma count_of_bump [simp]:
  "count_of (bump_count k c) j = (if j = k then Suc (count_of c k) else count_of c j)"
  by (induction k c rule: bump_count.induct) (auto simp: count_of_def)

lemma sum_bump [simp]: "sum_list (map snd (bump_count k c)) = Suc (sum_list (map snd c))"
  by (induction k c rule: bump_count.induct) auto


section \<open>Parentheses in rendered text\<close>

text \<open>
  \<open>scan strict d s\<close> reads \<open>s\<close> from nesting depth \<open>d\<close> and gives the depth it ends in, or
  \<open>None\<close> when a bracket closes that was never opened.  With \<open>strict\<close> a blank at depth 0 is
  refused too: every infix or prefix operator of the generated SQL is set off by blanks, so
  text that passes the strict scan exposes no operator to its surroundings.
\<close>

fun scan :: "bool \<Rightarrow> nat \<Rightarrow> string \<Rightarrow> nat option" where
  "scan strict d [] = Some d"
| "scan strict d (c # cs) =
     (if c = CHR ''('' then scan strict (Suc d) cs
      else if c = CHR '')'' then (if d = 0 then None else scan strict (d - 1) cs)
      else if strict \<and> d = 0 \<and> c = CHR '' '' then None
      else scan strict d cs)"

definition balanced :: "string \<Rightarrow> bool" where
  "balanced s \<longleftrightarrow> scan False 0 s = Some 0"

definition closed_text :: "string \<Rightarrow> bool" where
  "closed_text s \<longleftrightarrow> scan True 0 s = Some 0"

lemma scan_append [scan_simps]:
  "scan st d (xs @ ys) = (case scan st d xs of None \<Rightarrow> None | Some e \<Rightarrow> scan st e ys)"
  by (induction st d xs rule: scan.induct) auto

lemma scan_deeper: "scan False d s = Some e \<Longrightarrow> scan st (Suc d) s = Some (Suc e)"
  by (induction "False" d s arbitrary: e rule: scan.induct) (auto split: if_splits)

lemma scan_deeper_n: "scan False d s = Some e \<Longrightarrow> scan st (d + Suc n) s = Some (e + Suc n)"
proof (induction n)
  case 0
  then show ?case by (simp add: scan_deeper)
next
  case (Suc n)
  have "scan False (d + Suc n) s = Some (e + Suc n)"
    using Suc.prems by (induction n) (auto dest: scan_deeper)
  then show ?case using scan_deeper by fastforce
qed

lemma scan_strict: "scan True d s = Some e \<Longrightarrow> scan False d s = Some e"
  by (induction "True" d s arbitrary: e rule: scan.induct) (auto split: if_splits)

lemma closed_balanced: "closed_text s \<Longrightarrow> balanced s"
  by (simp add: closed_text_def balanced_def scan_strict)

lemma balanced_scan [scan_simps]: "balanced s \<Longrightarrow> scan False d s = Some d"
  unfolding balanced_def by (cases d) (use scan_deeper_n [of 0 s 0] in auto)

lemma balanced_scan_Suc [scan_simps]: "balanced s \<Longrightarrow> scan st (Suc d) s = Some (Suc d)"
  unfolding balanced_def using scan_deeper_n [of 0 s 0] by auto

lemma closed_scan [scan_simps]: "closed_text s \<Longrightarrow> scan st d s = Some d"
proof (cases d)
  case 0
  assume "closed_text s"
  with 0 show ?thesis
    by (cases st) (auto simp: closed_text_def dest: scan_strict)
next
  case (Suc n)
  assume "closed_text s"
  then have "balanced s" by (rule closed_balanced)
  with Suc show ?thesis by (simp add: balanced_scan_Suc)
qed

lemma balancedI: "scan False 0 s = Some 0 \<Longrightarrow> balanced s"
  by (simp add: balanced_def)

lemma closedI: "scan True 0 s = Some 0 \<Longrightarrow> closed_text s"
  by (simp add: closed_text_def)

lemma closed_paren: "balanced s \<Longrightarrow> closed_text (''('' @ s @ '')'')"
  by (simp add: closed_text_def scan_append balanced_scan_Suc)

lemma balanced_Nil [simp]: "balanced []"
  by (simp add: balanced_def)

lemma balanced_append: "balanced s \<Longrightarrow> balanced t \<Longrightarrow> balanced (s @ t)"
  by (simp add: balanced_def scan_append)

lemma closed_append: "closed_text s \<Longrightarrow> closed_text t \<Longrightarrow> closed_text (s @ t)"
  by (simp add: closed_text_def scan_append)

lemma plain_closed:
  assumes "set s \<inter> {CHR ''('', CHR '')'', CHR '' ''} = {}"
  shows "closed_text s"
proof -
  have "scan True d s = Some d" for d
    using assms by (induction s) auto
  then show ?thesis by (simp add: closed_text_def)
qed

lemma str_nat_closed [simp]: "closed_text (str_nat n)"
  by (rule plain_closed) (use str_nat_digits [of n] in auto)

lemma str_int_closed [simp]: "closed_text (str_int i)"
proof -
  have "closed_text (''-'' @ str_nat n)" for n
    by (rule closed_append, simp add: closed_text_def, rule str_nat_closed)
  then show ?thesis by (simp add: str_int_def)
qed

lemma join_balanced: "(\<And>x. x \<in> set xs \<Longrightarrow> balanced x) \<Longrightarrow> balanced sep \<Longrightarrow> balanced (join_with sep xs)"
  by (induction sep xs rule: join_with.induct) (auto intro!: balanced_append)


section \<open>Lists and multisets\<close>

lemma filter_split3:
  assumes "\<And>x. x \<in> set xs \<Longrightarrow> (p x \<and> \<not> q x \<and> \<not> r x) \<or> (\<not> p x \<and> q x \<and> \<not> r x) \<or> (\<not> p x \<and> \<not> q x \<and> r x)"
  shows "mset (filter p xs) + (mset (filter q xs) + mset (filter r xs)) = mset xs"
  using assms by (induction xs) fastforce+

lemma filter_split2:
  "mset (filter p xs) + mset (filter (\<lambda>x. \<not> p x) xs) = mset xs"
  by (induction xs) auto

lemma map_nth_upt [simp]: "map (\<lambda>i. xs ! i) [0..<length xs] = xs"
  by (rule map_nth)

lemma map_eq_nthI:
  assumes "length ys = length xs" and "\<And>i. i < length xs \<Longrightarrow> f (xs ! i) = ys ! i"
  shows "map f xs = ys"
  using assms by (simp add: list_eq_iff_nth_eq)

lemma mset_eq_filter: "mset xs = mset ys \<Longrightarrow> mset (filter p xs) = mset (filter p ys)"
  by (metis mset_filter)

lemma mset_eq_map: "mset xs = mset ys \<Longrightarrow> mset (map f xs) = mset (map f ys)"
  by (metis mset_map)

lemma map_zip_fst_nth: "map fst (zip xs ys) = take (length ys) xs"
  by (simp add: map_fst_zip_take min_def)

lemma distinct_map_of_zip_nth:
  "distinct xs \<Longrightarrow> length xs = length ys \<Longrightarrow> i < length xs \<Longrightarrow> map_of (zip xs ys) (xs ! i) = Some (ys ! i)"
  by (simp add: map_of_zip_nth)

end
