(* ===== verification/Coa_Types.thy ===== *)
theory Coa_Types
  imports Coa_Prelude
begin

text \<open>
  \<open>eqgen/core/types.py\<close> and \<open>eqgen/core/catalog.py\<close>: the twelve column types, their
  families and properties, columns and base tables.

  A frozen dataclass of the \<open>SqlType\<close> hierarchy is its class (a \<open>type_kind\<close>, one per concrete
  subclass) with its precision and scale; \<open>isinstance\<close> tests against a family are
  predicates on the kind.
\<close>


section \<open>Types\<close>

datatype type_kind =
    INTEGER | NUMERIC | DOUBLE | VARCHAR | CHAR_T | TEXT
  | BOOLEAN | DATE | TIMESTAMP | JSONB | UUID | INT4RANGE

datatype type_property = ORDERABLE | GROUPABLE | AGGREGATABLE

datatype sql_type = SqlType (kind_of: type_kind) (precision_of: "int option") (scale_of: "int option")

abbreviation IntegerType :: sql_type where
  "IntegerType \<equiv> SqlType INTEGER None None"

fun get_scale :: "sql_type \<Rightarrow> int option" where
  "get_scale (SqlType k p s) = (if k = INTEGER then Some 0 else s)"

fun get_precision :: "sql_type \<Rightarrow> int option" where
  "get_precision (SqlType k p s) = p"

definition get_properties :: "sql_type \<Rightarrow> type_property set" where
  "get_properties t =
     (if kind_of t = JSONB \<or> kind_of t = INT4RANGE then {GROUPABLE}
      else {ORDERABLE, GROUPABLE, AGGREGATABLE})"

text \<open>\<open>isinstance\<close> against the families: \<open>IntegerType\<close> is a \<open>NumericType\<close>, \<open>CharType\<close> and
  \<open>TextType\<close> are \<open>VarcharType\<close>s.\<close>

definition is_numeric :: "sql_type \<Rightarrow> bool" where
  "is_numeric t \<longleftrightarrow> kind_of t = NUMERIC \<or> kind_of t = INTEGER"

definition is_varchar :: "sql_type \<Rightarrow> bool" where
  "is_varchar t \<longleftrightarrow> kind_of t = VARCHAR \<or> kind_of t = CHAR_T \<or> kind_of t = TEXT"

definition is_double :: "sql_type \<Rightarrow> bool" where
  "is_double t \<longleftrightarrow> kind_of t = DOUBLE"

definition is_boolean :: "sql_type \<Rightarrow> bool" where
  "is_boolean t \<longleftrightarrow> kind_of t = BOOLEAN"

text \<open>The eligibility test of every rewrite that splits rows on a whole-number key.\<close>

definition integer_keyed :: "sql_type \<Rightarrow> bool" where
  "integer_keyed t \<longleftrightarrow> is_numeric t \<and> (get_scale t = None \<or> get_scale t = Some 0)"

lemma groupable_all [simp]: "GROUPABLE \<in> get_properties t"
  by (simp add: get_properties_def)

lemma integer_keyed_not_double: "integer_keyed t \<Longrightarrow> \<not> is_double t"
  by (auto simp: integer_keyed_def is_numeric_def is_double_def)


section \<open>Names, columns, tables\<close>

text \<open>\<open>Named\<close> pairs an output name with its type; a signature is a list of them.\<close>

type_synonym named = "string \<times> sql_type"
type_synonym signature = "named list"

datatype column = Column (col_name: string) (col_type: sql_type) (col_position: int) (col_nullable: bool)

datatype table = Table (tab_name: string) (tab_columns: "column list") (tab_schema: "string option")

definition get_sql_name :: "table \<Rightarrow> bool \<Rightarrow> string" where
  "get_sql_name t use_schema_name =
     (case tab_schema t of
        Some schema \<Rightarrow> if use_schema_name then schema @ ''.'' @ tab_name t else tab_name t
      | None \<Rightarrow> tab_name t)"

definition table_signature :: "table \<Rightarrow> signature" where
  "table_signature t = map (\<lambda>c. (col_name c, col_type c)) (tab_columns t)"

definition column_names :: "table \<Rightarrow> string list" where
  "column_names t = map col_name (tab_columns t)"

lemma fst_table_signature [simp]: "map fst (table_signature t) = column_names t"
  by (simp add: table_signature_def column_names_def o_def)

lemma length_table_signature [simp]: "length (table_signature t) = length (tab_columns t)"
  by (simp add: table_signature_def)

lemma length_column_names [simp]: "length (column_names t) = length (tab_columns t)"
  by (simp add: column_names_def)

text \<open>
  The catalogs the generator is used with: column names are distinct and none of them is in
  the \<open>eq_\<close> name space, which the rewrites draw their synthesized columns from.
\<close>

definition table_ok :: "table \<Rightarrow> bool" where
  "table_ok t \<longleftrightarrow> distinct (column_names t) \<and> (\<forall>c \<in> set (column_names t). take 3 c \<noteq> ''eq_'')"

lemma table_ok_distinct: "table_ok t \<Longrightarrow> distinct (column_names t)"
  by (simp add: table_ok_def)

lemma table_ok_fresh: "table_ok t \<Longrightarrow> take 3 c = ''eq_'' \<Longrightarrow> c \<notin> set (column_names t)"
  by (auto simp: table_ok_def)

end
