(* ===== verification/Coa_Expr.thy ===== *)
theory Coa_Expr
  imports Coa_Types
begin

text \<open>
  \<open>eqgen/ir/expr.py\<close>: the expression nodes of the intermediate representation, their types,
  and the constructors the builders call.  One constructor per node class; the fields are
  the dataclass fields in their order.
\<close>


section \<open>Nodes\<close>

datatype aggregate_function = AggMIN | AggMAX | AggANY_VALUE

datatype value_codec = HEX | BASE64 | JSON_PACK

datatype window_function = WinMIN | WinMAX | WinFIRST_VALUE | WinLAST_VALUE | WinROW_NUMBER

datatype window_frame = ROWS | RANGE

datatype expr =
    ColumnRef string sql_type "string option"
  | IntLiteral int
  | BooleanLiteral bool
  | RawExpr string sql_type
  | TypedNull sql_type
  | GeneratedPredicate string
  | Comparison string expr expr
  | BoolOp string expr expr
  | NotE expr
  | IsNull expr bool
  | Mod expr int
  | Case expr expr expr sql_type
  | AggregateCall aggregate_function expr sql_type
  | ValueCodecRoundTrip value_codec expr sql_type
  | WindowCall window_function "expr option" "expr list" "expr list" "window_frame option" sql_type

fun data_type :: "expr \<Rightarrow> sql_type" where
  "data_type (ColumnRef n t a) = t"
| "data_type (IntLiteral v) = SqlType INTEGER None None"
| "data_type (BooleanLiteral v) = SqlType BOOLEAN None None"
| "data_type (RawExpr s t) = t"
| "data_type (TypedNull t) = t"
| "data_type (GeneratedPredicate s) = SqlType BOOLEAN None None"
| "data_type (Comparison op l r) = SqlType BOOLEAN None None"
| "data_type (BoolOp op l r) = SqlType BOOLEAN None None"
| "data_type (NotE e) = SqlType BOOLEAN None None"
| "data_type (IsNull e n) = SqlType BOOLEAN None None"
| "data_type (Mod e n) = data_type e"
| "data_type (Case c t e ty) = ty"
| "data_type (AggregateCall f a ty) = ty"
| "data_type (ValueCodecRoundTrip c a ty) = ty"
| "data_type (WindowCall f a p ob fr ty) = ty"


section \<open>Constructors\<close>

definition col :: "string \<Rightarrow> sql_type \<Rightarrow> expr" where
  "col name ty = ColumnRef name ty None"

definition qualified_col :: "string \<Rightarrow> string \<Rightarrow> sql_type \<Rightarrow> expr" where
  "qualified_col relation_alias name ty = ColumnRef name ty (Some relation_alias)"

definition int_lit :: "int \<Rightarrow> expr" where
  "int_lit v = IntLiteral v"

definition typed_null :: "sql_type \<Rightarrow> expr" where
  "typed_null ty = TypedNull ty"

text \<open>\<open>GeneratedPredicate\<close> asserts that its text is not blank (\<open>value.strip()\<close>); the plugin
  boundary only wraps text that is truthy, and \<open>nonblank\<close> is the assertion.\<close>

definition nonblank :: "string \<Rightarrow> bool" where
  "nonblank s \<longleftrightarrow> (\<exists>c \<in> set s. c \<notin> {CHR '' '', CHR 0x09, CHR 0x0A, CHR 0x0B, CHR 0x0C, CHR 0x0D})"

definition generated_predicate :: "string \<Rightarrow> expr" where
  "generated_predicate v = GeneratedPredicate v"

definition eq :: "expr \<Rightarrow> expr \<Rightarrow> expr" where
  "eq l r = Comparison ''='' l r"

definition ne :: "expr \<Rightarrow> expr \<Rightarrow> expr" where
  "ne l r = Comparison ''<>'' l r"

definition ge :: "expr \<Rightarrow> expr \<Rightarrow> expr" where
  "ge l r = Comparison ''>='' l r"

definition mod_e :: "expr \<Rightarrow> int \<Rightarrow> expr" where
  "mod_e e n = Mod e n"

definition and_e :: "expr \<Rightarrow> expr \<Rightarrow> expr" where
  "and_e l r = BoolOp ''AND'' l r"

definition or_e :: "expr \<Rightarrow> expr \<Rightarrow> expr" where
  "or_e l r = BoolOp ''OR'' l r"

definition not_e :: "expr \<Rightarrow> expr" where
  "not_e e = NotE e"

definition is_null :: "expr \<Rightarrow> expr" where
  "is_null e = IsNull e False"

definition is_not_null :: "expr \<Rightarrow> expr" where
  "is_not_null e = IsNull e True"

definition case_when :: "expr \<Rightarrow> expr \<Rightarrow> expr \<Rightarrow> sql_type \<Rightarrow> expr" where
  "case_when c t e ty = Case c t e ty"

definition any_value :: "expr \<Rightarrow> sql_type \<Rightarrow> expr" where
  "any_value a ty = AggregateCall AggANY_VALUE a ty"

definition value_codec_roundtrip :: "value_codec \<Rightarrow> expr \<Rightarrow> sql_type \<Rightarrow> expr" where
  "value_codec_roundtrip c a ty = ValueCodecRoundTrip c a ty"

definition conjoin :: "expr option \<Rightarrow> expr \<Rightarrow> expr" where
  "conjoin existing extra = (case existing of None \<Rightarrow> extra | Some e \<Rightarrow> and_e e extra)"

definition determined_true :: "expr \<Rightarrow> expr" where
  "determined_true p = or_e (or_e p (not_e p)) (is_null p)"

definition determined_false :: "expr \<Rightarrow> expr" where
  "determined_false p = and_e (and_e p (not_e p)) (is_not_null p)"

definition window_over ::
  "window_function \<Rightarrow> expr option \<Rightarrow> expr list \<Rightarrow> sql_type \<Rightarrow> expr list \<Rightarrow> window_frame option \<Rightarrow> expr" where
  "window_over f a partition_by ty order_by frame_spec = WindowCall f a partition_by order_by frame_spec ty"

definition row_number :: "expr list \<Rightarrow> expr" where
  "row_number order_by = WindowCall WinROW_NUMBER None [] order_by None IntegerType"

lemmas expr_constructors [coa_simps] =
  col_def qualified_col_def int_lit_def typed_null_def generated_predicate_def eq_def ne_def ge_def
  mod_e_def and_e_def or_e_def not_e_def is_null_def is_not_null_def case_when_def any_value_def
  value_codec_roundtrip_def conjoin_def window_over_def row_number_def

end
