(* ===== verification/Coa_Ast.thy ===== *)
theory Coa_Ast
  imports Coa_Expr
begin

text \<open>
  \<open>eqgen/equivalence/ast.py\<close>, \<open>objects.py\<close>, \<open>actions.py\<close>, \<open>keys.py\<close> and
  \<open>capabilities.py\<close>: the nodes a rewrite is built from, the setup steps a relation carries,
  and the structural operations on them (children, signature, reference text, the one-line
  and the indented description).

  Python nodes have an identity, which the emitter and the complexity walk key on
  (\<open>id(node)\<close>); the first field of every constructor is that identity, a number drawn fresh
  when the node is constructed.  The six \<open>CREATE \<dots> AS\<close> classes differ in nothing but their
  keyword, label and kind, so they share one constructor and a \<open>create_class\<close>.
\<close>


section \<open>Keys, projections, object kinds\<close>

datatype key_scope = IDENTITY | GROUPED

datatype key_spec = KeySpec (key_column: string) (key_scope_of: key_scope) (key_physical: bool)

datatype proj_item = ProjectionItem (pi_alias: string) (pi_expr: expr) (pi_type: sql_type)

datatype object_kind =
  OK_TABLE | OK_TEMPORARY_TABLE | OK_UNLOGGED_TABLE | OK_VIEW | OK_TEMPORARY_VIEW | OK_MATERIALIZED_VIEW

datatype create_class =
    CreateView | CreateTemporaryView | CreateMaterializedView
  | CreateTable | CreateTemporaryTable | CreateUnloggedTable

fun create_keyword :: "create_class \<Rightarrow> string" where
  "create_keyword CreateView = ''VIEW''"
| "create_keyword CreateTemporaryView = ''TEMPORARY VIEW''"
| "create_keyword CreateMaterializedView = ''MATERIALIZED VIEW''"
| "create_keyword CreateTable = ''TABLE''"
| "create_keyword CreateTemporaryTable = ''TEMPORARY TABLE''"
| "create_keyword CreateUnloggedTable = ''UNLOGGED TABLE''"

fun create_label :: "create_class \<Rightarrow> string" where
  "create_label CreateView = ''view''"
| "create_label CreateTemporaryView = ''view''"
| "create_label CreateMaterializedView = ''view''"
| "create_label CreateTable = ''table''"
| "create_label CreateTemporaryTable = ''table''"
| "create_label CreateUnloggedTable = ''table''"

fun create_kind :: "create_class \<Rightarrow> object_kind" where
  "create_kind CreateView = OK_VIEW"
| "create_kind CreateTemporaryView = OK_TEMPORARY_VIEW"
| "create_kind CreateMaterializedView = OK_MATERIALIZED_VIEW"
| "create_kind CreateTable = OK_TABLE"
| "create_kind CreateTemporaryTable = OK_TEMPORARY_TABLE"
| "create_kind CreateUnloggedTable = OK_UNLOGGED_TABLE"


section \<open>Nodes and setup steps\<close>

datatype eqnode =
    BaseTableSource nat table
  | SelectQuery nat (sq_source: eqnode) "proj_item list option" "expr option" bool
      "expr list option" "expr option" "expr list option"
  | UnionAllQuery nat "eqnode list"
  | ExceptAllQuery nat eqnode eqnode
  | IntersectAllQuery nat eqnode eqnode
  | JoinQuery nat eqnode eqnode "expr option" string "proj_item list" string string "expr option"
  | CteQuery nat eqnode string "expr option" "bool option"
  | LateralReprojectQuery nat eqnode string string
  | CreateFromQuery nat create_class eqnode "setup_step list" setup_step
  | DeleteReinsertTable nat eqnode table "expr option" "setup_step list" setup_step
  | NoopUpdateTable nat eqnode "(string \<times> expr) list" "expr option" "setup_step list" setup_step
  | TagPruneDeleteTable nat eqnode "proj_item list" string int "setup_step list" setup_step
  | InsertExtrasExpansion nat eqnode "setup_step list" setup_step
and setup_step =
    TableObject string string "eqnode option" string
  | ViewObject string string "eqnode option" string
  | DeleteStep string "expr option"
  | InsertStep string "string list" string "expr option" "string list option" "eqnode option"
  | UpdateStep string "(string \<times> expr) list" "expr option"

text \<open>\<open>SelectQuery(source, projection, predicate)\<close> with every keyword argument at its default.\<close>

abbreviation plain_select :: "nat \<Rightarrow> eqnode \<Rightarrow> proj_item list option \<Rightarrow> expr option \<Rightarrow> eqnode" where
  "plain_select i source projection predicate \<equiv>
     SelectQuery i source projection predicate False None None None"

fun node_id :: "eqnode \<Rightarrow> nat" where
  "node_id (BaseTableSource i t) = i"
| "node_id (SelectQuery i s p w d g q ob) = i"
| "node_id (UnionAllQuery i bs) = i"
| "node_id (ExceptAllQuery i l r) = i"
| "node_id (IntersectAllQuery i l r) = i"
| "node_id (JoinQuery i l r c j p la ra w) = i"
| "node_id (CteQuery i s n w m) = i"
| "node_id (LateralReprojectQuery i s sa la) = i"
| "node_id (CreateFromQuery i c q st e) = i"
| "node_id (DeleteReinsertTable i q t p st e) = i"
| "node_id (NoopUpdateTable i q a p st e) = i"
| "node_id (TagPruneDeleteTable i c its tg k st e) = i"
| "node_id (InsertExtrasExpansion i c st e) = i"

fun children :: "eqnode \<Rightarrow> eqnode list" where
  "children (BaseTableSource i t) = []"
| "children (SelectQuery i s p w d g q ob) = [s]"
| "children (UnionAllQuery i bs) = bs"
| "children (ExceptAllQuery i l r) = [l, r]"
| "children (IntersectAllQuery i l r) = [l, r]"
| "children (JoinQuery i l r c j p la ra w) = [l, r]"
| "children (CteQuery i s n w m) = [s]"
| "children (LateralReprojectQuery i s sa la) = [s]"
| "children (CreateFromQuery i c q st e) = [q]"
| "children (DeleteReinsertTable i q t p st e) = [q]"
| "children (NoopUpdateTable i q a p st e) = [q]"
| "children (TagPruneDeleteTable i c its tg k st e) = [c]"
| "children (InsertExtrasExpansion i c st e) = [c]"

lemma children_size:
  assumes "c \<in> set (children n)"
  shows "size c < size n"
proof (cases "\<exists>i bs. n = UnionAllQuery i bs")
  case True
  then obtain i bs where n: "n = UnionAllQuery i bs" by blast
  with assms have "size c \<le> size_list size bs" by (simp add: size_list_estimation')
  with n show ?thesis by simp
next
  case False
  with assms show ?thesis by (cases n) auto
qed

text \<open>The class tests: a relation, a query, something that can follow \<open>FROM\<close>.\<close>

fun is_query :: "eqnode \<Rightarrow> bool" where
  "is_query (SelectQuery i s p w d g q ob) = True"
| "is_query (UnionAllQuery i bs) = True"
| "is_query (ExceptAllQuery i l r) = True"
| "is_query (IntersectAllQuery i l r) = True"
| "is_query (JoinQuery i l r c j p la ra w) = True"
| "is_query (CteQuery i s n w m) = True"
| "is_query (LateralReprojectQuery i s sa la) = True"
| "is_query n = False"

fun is_relation :: "eqnode \<Rightarrow> bool" where
  "is_relation (CreateFromQuery i c q st e) = True"
| "is_relation (DeleteReinsertTable i q t p st e) = True"
| "is_relation (NoopUpdateTable i q a p st e) = True"
| "is_relation (TagPruneDeleteTable i c its tg k st e) = True"
| "is_relation (InsertExtrasExpansion i c st e) = True"
| "is_relation n = False"

fun is_base :: "eqnode \<Rightarrow> bool" where
  "is_base (BaseTableSource i t) = True"
| "is_base n = False"

definition is_source :: "eqnode \<Rightarrow> bool" where
  "is_source n \<longleftrightarrow> is_base n \<or> is_relation n"

lemma node_trichotomy: "is_base n \<or> is_query n \<or> is_relation n"
  by (cases n) simp_all


section \<open>Steps, names, signatures\<close>

fun steps_of :: "eqnode \<Rightarrow> setup_step list" where
  "steps_of (CreateFromQuery i c q st e) = st"
| "steps_of (DeleteReinsertTable i q t p st e) = st"
| "steps_of (NoopUpdateTable i q a p st e) = st"
| "steps_of (TagPruneDeleteTable i c its tg k st e) = st"
| "steps_of (InsertExtrasExpansion i c st e) = st"
| "steps_of n = []"

fun exposed_of :: "eqnode \<Rightarrow> setup_step option" where
  "exposed_of (CreateFromQuery i c q st e) = Some e"
| "exposed_of (DeleteReinsertTable i q t p st e) = Some e"
| "exposed_of (NoopUpdateTable i q a p st e) = Some e"
| "exposed_of (TagPruneDeleteTable i c its tg k st e) = Some e"
| "exposed_of (InsertExtrasExpansion i c st e) = Some e"
| "exposed_of n = None"

text \<open>The name of a step that is an \<open>Object\<close>; an action introduces none.\<close>

fun object_name :: "setup_step \<Rightarrow> string option" where
  "object_name (TableObject n k q d) = Some n"
| "object_name (ViewObject n k q d) = Some n"
| "object_name s = None"

definition materialized_name :: "eqnode \<Rightarrow> string option" where
  "materialized_name n = Option.bind (exposed_of n) object_name"

text \<open>\<open>ref_sql\<close>: a query has none, and asking for it is the \<open>TypeError\<close> of the source.\<close>

definition ref_sql :: "eqnode \<Rightarrow> string option" where
  "ref_sql n = (case n of BaseTableSource i t \<Rightarrow> Some (get_sql_name t True) | _ \<Rightarrow> materialized_name n)"

definition item_signature :: "proj_item list \<Rightarrow> signature" where
  "item_signature items = map (\<lambda>it. (pi_alias it, pi_type it)) items"

function get_signature :: "eqnode \<Rightarrow> signature" where
  "get_signature (BaseTableSource i t) = table_signature t"
| "get_signature (SelectQuery i s p w d g q ob) =
     (case p of None \<Rightarrow> get_signature s | Some items \<Rightarrow> item_signature items)"
| "get_signature (UnionAllQuery i bs) = (case bs of [] \<Rightarrow> [] | b # _ \<Rightarrow> get_signature b)"
| "get_signature (ExceptAllQuery i l r) = get_signature l"
| "get_signature (IntersectAllQuery i l r) = get_signature l"
| "get_signature (JoinQuery i l r c j p la ra w) = item_signature p"
| "get_signature (CteQuery i s n w m) = get_signature s"
| "get_signature (LateralReprojectQuery i s sa la) = get_signature s"
| "get_signature (CreateFromQuery i c q st e) = get_signature q"
| "get_signature (DeleteReinsertTable i q t p st e) = get_signature q"
| "get_signature (NoopUpdateTable i q a p st e) = get_signature q"
| "get_signature (TagPruneDeleteTable i c its tg k st e) = item_signature its"
| "get_signature (InsertExtrasExpansion i c st e) = get_signature c"
  by pat_completeness auto
termination
  by (relation "measure size") auto

lemma fst_item_signature [simp]: "map fst (item_signature items) = map pi_alias items"
  by (simp add: item_signature_def o_def)


section \<open>Describing a built tree\<close>

fun class_name :: "eqnode \<Rightarrow> string" where
  "class_name (BaseTableSource i t) = ''BaseTableSource''"
| "class_name (SelectQuery i s p w d g q ob) = ''SelectQuery''"
| "class_name (UnionAllQuery i bs) = ''UnionAllQuery''"
| "class_name (ExceptAllQuery i l r) = ''ExceptAllQuery''"
| "class_name (IntersectAllQuery i l r) = ''IntersectAllQuery''"
| "class_name (JoinQuery i l r c j p la ra w) = ''JoinQuery''"
| "class_name (CteQuery i s n w m) = ''CteQuery''"
| "class_name (LateralReprojectQuery i s sa la) = ''LateralReprojectQuery''"
| "class_name (CreateFromQuery i c q st e) =
     (case c of CreateView \<Rightarrow> ''CreateView'' | CreateTemporaryView \<Rightarrow> ''CreateTemporaryView''
      | CreateMaterializedView \<Rightarrow> ''CreateMaterializedView'' | CreateTable \<Rightarrow> ''CreateTable''
      | CreateTemporaryTable \<Rightarrow> ''CreateTemporaryTable'' | CreateUnloggedTable \<Rightarrow> ''CreateUnloggedTable'')"
| "class_name (DeleteReinsertTable i q t p st e) = ''DeleteReinsertTable''"
| "class_name (NoopUpdateTable i q a p st e) = ''NoopUpdateTable''"
| "class_name (TagPruneDeleteTable i c its tg k st e) = ''TagPruneDeleteTable''"
| "class_name (InsertExtrasExpansion i c st e) = ''InsertExtrasExpansion''"

definition label_of :: "eqnode \<Rightarrow> string" where
  "label_of n =
     (case n of
        BaseTableSource i t \<Rightarrow> class_name n @ '' '' @ get_sql_name t False
      | _ \<Rightarrow> (case materialized_name n of Some m \<Rightarrow> class_name n @ '' '' @ m | None \<Rightarrow> class_name n))"

function render_tree :: "eqnode \<Rightarrow> string \<Rightarrow> string list" where
  "render_tree n indent =
     (indent @ label_of n) # concat (map (\<lambda>c. render_tree c (indent @ ''  '')) (children n))"
  by pat_completeness auto
termination
  by (relation "measure (\<lambda>(n, indent). size n)") (auto dest: children_size)

declare render_tree.simps [simp del]

text \<open>The height of the tree and the number of its nodes.\<close>

function height :: "eqnode \<Rightarrow> nat" where
  "height n = Suc (Max (insert 0 (set (map height (children n)))))"
  by pat_completeness auto
termination
  by (relation "measure size") (auto dest: children_size)

function node_count :: "eqnode \<Rightarrow> nat" where
  "node_count n = Suc (sum_list (map node_count (children n)))"
  by pat_completeness auto
termination
  by (relation "measure size") (auto dest: children_size)

declare height.simps [simp del] node_count.simps [simp del]

lemma node_count_unfold: "sum_list (map node_count (children n)) < node_count n"
  by (simp add: node_count.simps [of n])

lemma height_positive [simp]: "0 < height n"
  by (subst height.simps) simp

lemma height_child: "c \<in> set (children n) \<Longrightarrow> height c < height n"
  by (subst (2) height.simps) (simp add: less_Suc_eq_le)

lemma level_height:
  "l + height n - 1 = Max (insert l ((\<lambda>c. Suc l + height c - 1) ` set (children n)))"
proof -
  have "Max (insert l ((\<lambda>c. Suc l + height c - 1) ` set (children n)))
      = Max ((\<lambda>k. l + k) ` insert 0 (height ` set (children n)))"
    by (simp add: image_image)
  also have "\<dots> = l + Max (insert 0 (height ` set (children n)))"
    by (rule mono_Max_commute [symmetric]) (auto simp: mono_def)
  finally show ?thesis by (simp add: height.simps [of n])
qed

text \<open>\<open>describe_shape\<close> walks a stack of nodes with their levels; a node reached twice is counted twice.\<close>

function shape_walk :: "(eqnode \<times> nat) list \<Rightarrow> string counter \<Rightarrow> nat \<Rightarrow> string counter \<times> nat" where
  "shape_walk [] counts depth = (counts, depth)"
| "shape_walk ((n, level) # stack) counts depth =
     shape_walk (rev (map (\<lambda>c. (c, Suc level)) (children n)) @ stack)
       (bump_count (class_name n) counts) (max depth level)"
  by pat_completeness auto
termination
  by (relation "measure (\<lambda>(stack, counts, depth). sum_list (map (node_count \<circ> fst) stack))")
    (simp_all add: node_count_unfold o_def flip: rev_map)

lemma shape_walk_total:
  "sum_list (map snd (fst (shape_walk stack counts depth))) =
     sum_list (map snd counts) + sum_list (map (node_count \<circ> fst) stack)"
proof (induction stack counts depth rule: shape_walk.induct)
  case (2 n level stack counts depth)
  then show ?case by (simp add: node_count.simps [of n] o_def flip: rev_map)
qed simp

lemma shape_walk_depth:
  "snd (shape_walk stack counts depth) = Max (insert depth ((\<lambda>(n, l). l + height n - 1) ` set stack))"
proof (induction stack counts depth rule: shape_walk.induct)
  case (2 n level stack counts depth)
  let ?kids = "(\<lambda>c. Suc level + height c - 1) ` set (children n)"
  let ?rest = "(\<lambda>(n, l). l + height n - 1) ` set stack"
  have "snd (shape_walk ((n, level) # stack) counts depth) = Max (insert (max depth level) (?kids \<union> ?rest))"
    using 2 by (simp add: image_Un image_image)
  also have "\<dots> = Max ({depth} \<union> insert level ?kids \<union> ?rest)"
    by (cases "?kids \<union> ?rest = {}") (simp_all add: max.assoc Un_assoc insert_commute Un_commute)
  also have "{depth} \<union> insert level ?kids \<union> ?rest = insert depth ?rest \<union> insert level ?kids"
    by blast
  also have "Max \<dots> = max (Max (insert depth ?rest)) (Max (insert level ?kids))"
    by (rule Max_Un) simp_all
  also have "Max (insert level ?kids) = level + height n - 1" by (rule level_height [symmetric])
  also have "max (Max (insert depth ?rest)) (level + height n - 1)
      = Max (insert (level + height n - 1) (insert depth ?rest))"
    by (subst Max_insert) (simp_all add: max.commute)
  also have "insert (level + height n - 1) (insert depth ?rest)
      = insert depth ((\<lambda>(n, l). l + height n - 1) ` set ((n, level) # stack))"
    by auto
  finally show ?case .
qed simp

definition describe_counts :: "eqnode \<Rightarrow> string counter \<times> nat" where
  "describe_counts n = shape_walk [(n, 1)] [] 0"

end
