(* ===== verification/Coa_Constraints.thy ===== *)
theory Coa_Constraints
  imports Coa_Ast
begin

text \<open>
  \<open>eqgen/builder/constraint_set.py\<close> and \<open>eqgen/equivalence/constraints.py\<close>: what a builder asks
  a child for.  A constraint is one constructor per class; a \<open>ConstraintSet\<close> is the dictionary
  keyed by class, kept as the list of its values in insertion order with one value per class.
  Constructing a set merges two constraints of one class, and the merge of two column
  rewrites may raise.
\<close>


section \<open>Errors of a generation run\<close>

datatype gen_error =
    MergeConflict          \<comment> \<open>\<open>ValueError\<close> of \<open>ColumnRewriteConstraint.merge_constraint\<close>\<close>
  | MissingConstraint      \<comment> \<open>\<open>ValueError\<close> of \<open>ConstraintSet.get_constraint\<close>\<close>
  | ConstraintViolation    \<comment> \<open>\<open>ConstraintViolationError\<close> of \<open>_run_builder\<close>\<close>
  | DeadlineExceeded       \<comment> \<open>\<open>GenerationDeadlineExceeded\<close>\<close>
  | EmptyPopulation        \<comment> \<open>\<open>IndexError\<close> of \<open>random.choices\<close> / \<open>random.choice\<close>\<close>
  | NoPositiveWeight       \<comment> \<open>\<open>ValueError\<close> of \<open>random.choices\<close>\<close>
  | AssertionFailed        \<comment> \<open>an \<open>assert\<close> of the source\<close>
  | AttributeMissing       \<comment> \<open>\<open>AttributeError\<close>: a relation's attribute read from something else\<close>
  | GenerationFailed       \<comment> \<open>\<open>ValueError\<close> of \<open>EquivalenceGenerator.generate\<close>\<close>
  | NoExposedName          \<comment> \<open>\<open>ValueError\<close> of \<open>generate_forks\<close>\<close>
  | OutOfFuel              \<comment> \<open>the recursion bound of the model; shown unreachable\<close>


section \<open>Constraints\<close>

datatype constraint_type =
    RowFilterC | AcceptsDmlC | SingleSourceC | ColumnRewriteC | TagChannelC | KeyChannelC | ExposedNameC

datatype constraint =
    RowFilterConstraint expr
  | AcceptsDmlConstraint
  | SingleSourceConstraint
  | ColumnRewriteConstraint "proj_item list"
  | TagChannelConstraint string int
  | KeyChannelConstraint key_spec
  | ExposedNameConstraint string

fun type_of_constraint :: "constraint \<Rightarrow> constraint_type" where
  "type_of_constraint (RowFilterConstraint p) = RowFilterC"
| "type_of_constraint AcceptsDmlConstraint = AcceptsDmlC"
| "type_of_constraint SingleSourceConstraint = SingleSourceC"
| "type_of_constraint (ColumnRewriteConstraint p) = ColumnRewriteC"
| "type_of_constraint (TagChannelConstraint c k) = TagChannelC"
| "type_of_constraint (KeyChannelConstraint k) = KeyChannelC"
| "type_of_constraint (ExposedNameConstraint n) = ExposedNameC"

text \<open>\<open>merge_constraint\<close> is only called on two constraints of one class.\<close>

fun merge_constraint :: "constraint \<Rightarrow> constraint \<Rightarrow> gen_error + constraint" where
  "merge_constraint (RowFilterConstraint p) (RowFilterConstraint q) =
     Inr (RowFilterConstraint (conjoin (Some p) q))"
| "merge_constraint (ColumnRewriteConstraint p) (ColumnRewriteConstraint q) =
     (if set (map pi_alias p) \<inter> set (map pi_alias q) \<noteq> {} then Inl MergeConflict
      else Inr (ColumnRewriteConstraint (p @ q)))"
| "merge_constraint c other = Inr c"

fun meets_constraint :: "constraint \<Rightarrow> eqnode \<Rightarrow> bool" where
  "meets_constraint (ColumnRewriteConstraint p) node =
     (map fst (get_signature node) = map pi_alias p)"
| "meets_constraint (ExposedNameConstraint n) node =
     (\<not> is_relation node \<or> materialized_name node = Some n)"
| "meets_constraint c node = True"


section \<open>Constraint sets\<close>

type_synonym constraint_set = "constraint list"

fun add_constraint :: "constraint_set \<Rightarrow> constraint \<Rightarrow> gen_error + constraint_set" where
  "add_constraint [] c = Inr [c]"
| "add_constraint (d # ds) c =
     (if type_of_constraint d = type_of_constraint c
      then ebind (merge_constraint d c) (\<lambda>m. Inr (m # ds))
      else ebind (add_constraint ds c) (\<lambda>ds'. Inr (d # ds')))"

fun extend_constraints :: "constraint_set \<Rightarrow> constraint option list \<Rightarrow> gen_error + constraint_set" where
  "extend_constraints cs [] = Inr cs"
| "extend_constraints cs (None # xs) = extend_constraints cs xs"
| "extend_constraints cs (Some c # xs) = ebind (add_constraint cs c) (\<lambda>cs'. extend_constraints cs' xs)"

definition make_constraint_set :: "constraint option list \<Rightarrow> gen_error + constraint_set" where
  "make_constraint_set xs = extend_constraints [] xs"

definition constraint_types :: "constraint_set \<Rightarrow> constraint_type list" where
  "constraint_types cs = map type_of_constraint cs"

definition get_optional_constraint :: "constraint_set \<Rightarrow> constraint_type \<Rightarrow> constraint option" where
  "get_optional_constraint cs t = find (\<lambda>c. type_of_constraint c = t) cs"

text \<open>The payloads the builders read.\<close>

definition current_filter :: "constraint_set \<Rightarrow> expr option" where
  "current_filter cs =
     (case get_optional_constraint cs RowFilterC of Some (RowFilterConstraint p) \<Rightarrow> Some p | _ \<Rightarrow> None)"

definition exposed_name :: "constraint_set \<Rightarrow> string option" where
  "exposed_name cs =
     (case get_optional_constraint cs ExposedNameC of Some (ExposedNameConstraint n) \<Rightarrow> Some n | _ \<Rightarrow> None)"

definition column_rewrite :: "constraint_set \<Rightarrow> proj_item list option" where
  "column_rewrite cs =
     (case get_optional_constraint cs ColumnRewriteC of Some (ColumnRewriteConstraint p) \<Rightarrow> Some p | _ \<Rightarrow> None)"

definition tag_channel :: "constraint_set \<Rightarrow> (string \<times> int) option" where
  "tag_channel cs =
     (case get_optional_constraint cs TagChannelC of Some (TagChannelConstraint c k) \<Rightarrow> Some (c, k) | _ \<Rightarrow> None)"

definition key_channel :: "constraint_set \<Rightarrow> key_spec option" where
  "key_channel cs =
     (case get_optional_constraint cs KeyChannelC of Some (KeyChannelConstraint k) \<Rightarrow> Some k | _ \<Rightarrow> None)"

lemmas payload_defs = current_filter_def exposed_name_def column_rewrite_def tag_channel_def key_channel_def


section \<open>Laws\<close>

text \<open>A set built by \<open>make_constraint_set\<close> has one constraint per class.\<close>

lemma merge_type: "merge_constraint d c = Inr m \<Longrightarrow> type_of_constraint m = type_of_constraint d"
  by (cases "(d, c)" rule: merge_constraint.cases) (auto split: if_splits)

lemma add_types:
  "add_constraint cs c = Inr cs' \<Longrightarrow>
     constraint_types cs' =
       (if type_of_constraint c \<in> set (constraint_types cs) then constraint_types cs
        else constraint_types cs @ [type_of_constraint c])"
  by (induction cs c arbitrary: cs' rule: add_constraint.induct)
    (auto simp: constraint_types_def dest: merge_type split: if_splits)

lemma extend_distinct:
  "extend_constraints cs xs = Inr cs' \<Longrightarrow> distinct (constraint_types cs) \<Longrightarrow> distinct (constraint_types cs')"
  by (induction cs xs arbitrary: cs' rule: extend_constraints.induct) (auto dest: add_types)

lemma get_optional_type:
  "get_optional_constraint cs t = Some c \<Longrightarrow> type_of_constraint c = t \<and> c \<in> set cs"
  by (auto simp: get_optional_constraint_def find_Some_iff)

lemma get_optional_None: "get_optional_constraint cs t = None \<longleftrightarrow> t \<notin> set (constraint_types cs)"
  by (auto simp: get_optional_constraint_def constraint_types_def find_None_iff)

lemma payload_None:
  "RowFilterC \<notin> set (constraint_types cs) \<Longrightarrow> current_filter cs = None"
  "ExposedNameC \<notin> set (constraint_types cs) \<Longrightarrow> exposed_name cs = None"
  "ColumnRewriteC \<notin> set (constraint_types cs) \<Longrightarrow> column_rewrite cs = None"
  "TagChannelC \<notin> set (constraint_types cs) \<Longrightarrow> tag_channel cs = None"
  "KeyChannelC \<notin> set (constraint_types cs) \<Longrightarrow> key_channel cs = None"
  by (simp_all add: payload_defs flip: get_optional_None)

lemma payload_Some:
  "RowFilterC \<in> set (constraint_types cs) \<Longrightarrow> \<exists>p. current_filter cs = Some p"
  "ColumnRewriteC \<in> set (constraint_types cs) \<Longrightarrow> \<exists>p. column_rewrite cs = Some p"
  "TagChannelC \<in> set (constraint_types cs) \<Longrightarrow> \<exists>p. tag_channel cs = Some p"
  "KeyChannelC \<in> set (constraint_types cs) \<Longrightarrow> \<exists>p. key_channel cs = Some p"
  "ExposedNameC \<in> set (constraint_types cs) \<Longrightarrow> \<exists>p. exposed_name cs = Some p"
proof -
  have *: "t \<in> set (constraint_types cs) \<Longrightarrow> \<exists>c. get_optional_constraint cs t = Some c \<and> type_of_constraint c = t" for t
    using get_optional_None [of cs t] get_optional_type by fastforce
  show "RowFilterC \<in> set (constraint_types cs) \<Longrightarrow> \<exists>p. current_filter cs = Some p"
    using * [of RowFilterC] by (auto simp: payload_defs elim!: type_of_constraint.elims)
  show "ColumnRewriteC \<in> set (constraint_types cs) \<Longrightarrow> \<exists>p. column_rewrite cs = Some p"
    using * [of ColumnRewriteC] by (auto simp: payload_defs elim!: type_of_constraint.elims)
  show "TagChannelC \<in> set (constraint_types cs) \<Longrightarrow> \<exists>p. tag_channel cs = Some p"
    using * [of TagChannelC] by (auto simp: payload_defs elim!: type_of_constraint.elims)
  show "KeyChannelC \<in> set (constraint_types cs) \<Longrightarrow> \<exists>p. key_channel cs = Some p"
    using * [of KeyChannelC] by (auto simp: payload_defs elim!: type_of_constraint.elims)
  show "ExposedNameC \<in> set (constraint_types cs) \<Longrightarrow> \<exists>p. exposed_name cs = Some p"
    using * [of ExposedNameC] by (auto simp: payload_defs elim!: type_of_constraint.elims)
qed

end
