(* ===== verification/Coa_Gen.thy ===== *)
theory Coa_Gen
  imports Complex_Main Coa_Constraints
begin

text \<open>
  The state a generation run threads: \<open>eqgen/builder/context.py\<close>,
  \<open>eqgen/equivalence/context.py\<close>, \<open>eqgen/equivalence/config.py\<close> and the draws of
  \<open>eqgen/config/weighted.py\<close>.

  A step of the generator maps the state to an error or to a value and the next state.  The
  \<open>random\<close> module is a stream of integer draws and a stream of \<open>- log(1 - random())\<close> draws,
  read at one shared position; a theorem about every stream is a theorem about every seed.
  The clock of \<open>check_deadline\<close> is a stream of answers to "has the deadline passed?".
\<close>


section \<open>Configuration\<close>

type_synonym 'a choices = "('a \<times> int) list"

datatype key_selection = FIRST | RANDOM

datatype frame_choice = FRAME_NONE | FRAME_ROWS | FRAME_RANGE

datatype win_choice = CHOOSE_MIN | CHOOSE_MAX | CHOOSE_FIRST_VALUE | CHOOSE_LAST_VALUE

datatype join_choice = INNER | LEFT_OUTER | RIGHT_OUTER | FULL_OUTER

fun join_value :: "join_choice \<Rightarrow> string" where
  "join_value INNER = ''INNER''"
| "join_value LEFT_OUTER = ''LEFT OUTER''"
| "join_value RIGHT_OUTER = ''RIGHT OUTER''"
| "join_value FULL_OUTER = ''FULL OUTER''"

record eq_config =
  max_depth :: nat
  max_nodes :: nat
  max_attempts :: nat
  builder_weights :: "(string \<times> int) list"
  root_builder_weights :: "(string \<times> int) list"
  key_selection_weights :: "key_selection choices"
  join_type_weights :: "join_choice choices"
  window_function_weights :: "win_choice choices"
  window_frame_weights :: "frame_choice choices"
  big_table_rowcount_weights :: "int choices"

text \<open>A plugin: its name, and \<open>boolean_predicate(table, seed)\<close>, deterministic by its contract.\<close>

record predicate_source =
  source_name :: string
  boolean_predicate :: "table \<Rightarrow> nat \<Rightarrow> string option"

record context_env =
  config :: eq_config
  base_table :: table
  the_predicate_source :: "predicate_source option"
  deadline_passed :: "nat \<Rightarrow> bool"


section \<open>State and steps\<close>

record rng =
  int_draw :: "nat \<Rightarrow> nat"
  exp_draw :: "nat \<Rightarrow> rat"

record gen_state =
  counters :: "string counter"
  depth :: nat
  node_total :: nat
  nodes_attempted :: nat
  stream :: rng
  position :: nat
  next_id :: nat
  clock :: nat
  predicate_origin :: "string counter"
  chosen :: "string counter"

type_synonym 'a gen = "gen_state \<Rightarrow> gen_error + ('a \<times> gen_state)"

definition greturn :: "'a \<Rightarrow> 'a gen" where
  "greturn a = (\<lambda>s. Inr (a, s))"

definition graise :: "gen_error \<Rightarrow> 'a gen" where
  "graise e = (\<lambda>s. Inl e)"

definition gbind :: "'a gen \<Rightarrow> ('a \<Rightarrow> 'b gen) \<Rightarrow> 'b gen" where
  "gbind m f = (\<lambda>s. case m s of Inl e \<Rightarrow> Inl e | Inr (a, s') \<Rightarrow> f a s')"

text \<open>\<open>x = m; if x is None: return None; \<dots>\<close>\<close>

definition obind :: "'a option gen \<Rightarrow> ('a \<Rightarrow> 'b option gen) \<Rightarrow> 'b option gen" where
  "obind m f = gbind m (\<lambda>x. case x of None \<Rightarrow> greturn None | Some a \<Rightarrow> f a)"

definition gread :: "(gen_state \<Rightarrow> 'a) \<Rightarrow> 'a gen" where
  "gread f = (\<lambda>s. Inr (f s, s))"

definition gmodify :: "(gen_state \<Rightarrow> gen_state) \<Rightarrow> unit gen" where
  "gmodify f = (\<lambda>s. Inr ((), f s))"

definition glift :: "gen_error + 'a \<Rightarrow> 'a gen" where
  "glift r = (\<lambda>s. case r of Inl e \<Rightarrow> Inl e | Inr a \<Rightarrow> Inr (a, s))"

definition gassert :: "bool \<Rightarrow> unit gen" where
  "gassert b = (if b then greturn () else graise AssertionFailed)"

fun gmap :: "('a \<Rightarrow> 'b gen) \<Rightarrow> 'a list \<Rightarrow> 'b list gen" where
  "gmap f [] = greturn []"
| "gmap f (x # xs) = gbind (f x) (\<lambda>y. gbind (gmap f xs) (\<lambda>ys. greturn (y # ys)))"

text \<open>\<open>for x in xs: y = f(x); if y is None: return None; out.append(y)\<close>\<close>

fun gmap_some :: "('a \<Rightarrow> 'b option gen) \<Rightarrow> 'a list \<Rightarrow> 'b list option gen" where
  "gmap_some f [] = greturn (Some [])"
| "gmap_some f (x # xs) = obind (f x) (\<lambda>y. obind (gmap_some f xs) (\<lambda>ys. greturn (Some (y # ys))))"


section \<open>Node identities and names\<close>

definition new_id :: "nat gen" where
  "new_id = gbind (gread next_id) (\<lambda>i. gbind (gmodify (\<lambda>s. s\<lparr>next_id := Suc i\<rparr>)) (\<lambda>_. greturn i))"

definition generate_object_name :: "string \<Rightarrow> string gen" where
  "generate_object_name prefix =
     gbind (gread (\<lambda>s. Suc (count_of (counters s) prefix))) (\<lambda>count.
     gbind (gmodify (\<lambda>s. s\<lparr>counters := bump_count prefix (counters s)\<rparr>)) (\<lambda>_.
     greturn (prefix @ ''_'' @ str_nat count)))"

definition generate_column_name :: "string \<Rightarrow> string gen" where
  "generate_column_name prefix = generate_object_name prefix"

definition mint :: "context_env \<Rightarrow> string \<Rightarrow> string gen" where
  "mint env kind = generate_object_name (tab_name (base_table env) @ ''_'' @ kind)"


section \<open>Draws\<close>

definition draw :: "nat gen" where
  "draw = gbind (gread (\<lambda>s. int_draw (stream s) (position s))) (\<lambda>n.
          gbind (gmodify (\<lambda>s. s\<lparr>position := Suc (position s)\<rparr>)) (\<lambda>_. greturn n))"

definition draw_exp :: "rat gen" where
  "draw_exp = gbind (gread (\<lambda>s. exp_draw (stream s) (position s))) (\<lambda>x.
              gbind (gmodify (\<lambda>s. s\<lparr>position := Suc (position s)\<rparr>)) (\<lambda>_. greturn x))"

text \<open>\<open>random.choice(xs)\<close> and \<open>random.randrange(n)\<close>.\<close>

definition random_choice :: "'a list \<Rightarrow> 'a gen" where
  "random_choice xs =
     (if xs = [] then graise EmptyPopulation
      else gbind draw (\<lambda>n. greturn (xs ! (n mod length xs))))"

definition randrange :: "nat \<Rightarrow> nat gen" where
  "randrange n = gbind draw (\<lambda>k. greturn (k mod n))"

text \<open>
  \<open>random.choices(values, weights, k=1)[0]\<close>: a point below the total, and the first value
  whose cumulated weight passes it (\<open>bisect_right\<close> bounded by the last index).
\<close>

fun accumulate :: "int \<Rightarrow> int list \<Rightarrow> int list" where
  "accumulate a [] = []"
| "accumulate a (w # ws) = (a + w) # accumulate (a + w) ws"

definition choice_index :: "int list \<Rightarrow> int \<Rightarrow> nat" where
  "choice_index weights point = length (takeWhile (\<lambda>c. c \<le> point) (butlast (accumulate 0 weights)))"

definition choose_one :: "'a choices \<Rightarrow> 'a gen" where
  "choose_one options =
     (if options = [] then graise EmptyPopulation
      else let total = sum_list (map snd options)
           in if total \<le> 0 then graise NoPositiveWeight
              else gbind draw (\<lambda>n.
                greturn (fst (options ! choice_index (map snd options) (int n mod total)))))"

text \<open>
  \<open>weighted_shuffle\<close>: drop what has no positive weight, draw a key \<open>-log(1-u)/w\<close> for each of
  the rest, sort by key (a stable sort).
\<close>

fun draw_keys :: "('a \<times> int) list \<Rightarrow> (rat \<times> 'a) list gen" where
  "draw_keys [] = greturn []"
| "draw_keys ((x, w) # xs) =
     gbind draw_exp (\<lambda>e. gbind (draw_keys xs) (\<lambda>ks. greturn ((e / rat_of_int w, x) # ks)))"

definition weighted_shuffle :: "'a list \<Rightarrow> ('a \<Rightarrow> int) \<Rightarrow> 'a list gen" where
  "weighted_shuffle items weight_fn =
     (let eligible = filter (\<lambda>p. snd p > 0) (map (\<lambda>x. (x, weight_fn x)) items)
      in if eligible = [] then greturn []
         else gbind (draw_keys eligible) (\<lambda>keyed. greturn (map snd (sort_key fst keyed))))"


section \<open>Deadline\<close>

definition check_deadline :: "context_env \<Rightarrow> unit gen" where
  "check_deadline env =
     gbind (gread clock) (\<lambda>t.
     gbind (gmodify (\<lambda>s. s\<lparr>clock := Suc t\<rparr>)) (\<lambda>_.
     if deadline_passed env t then graise DeadlineExceeded else greturn ()))"


section \<open>Specifications of steps\<close>

text \<open>
  \<open>gspec d E m Q\<close>: run at builder depth \<open>d\<close>, the step \<open>m\<close> either stops with an error in \<open>E\<close>,
  or comes back to depth \<open>d\<close> with a value in \<open>Q\<close>.
\<close>

definition gspec :: "nat \<Rightarrow> (gen_error \<Rightarrow> bool) \<Rightarrow> 'a gen \<Rightarrow> ('a \<Rightarrow> bool) \<Rightarrow> bool" where
  "gspec d E m Q \<longleftrightarrow>
     (\<forall>s. depth s = d \<longrightarrow>
        (case m s of Inl e \<Rightarrow> E e | Inr (a, s') \<Rightarrow> depth s' = d \<and> Q a))"

lemma gspec_weaken: "gspec d E m Q \<Longrightarrow> (\<And>a. Q a \<Longrightarrow> Q' a) \<Longrightarrow> gspec d E m Q'"
  unfolding gspec_def
proof (intro allI impI)
  fix s :: gen_state
  assume step: "\<forall>s. depth s = d \<longrightarrow> (case m s of Inl e \<Rightarrow> E e | Inr (a, s') \<Rightarrow> depth s' = d \<and> Q a)"
    and weaker: "\<And>a. Q a \<Longrightarrow> Q' a" and "depth s = d"
  then have "case m s of Inl e \<Rightarrow> E e | Inr (a, s') \<Rightarrow> depth s' = d \<and> Q a" by blast
  with weaker show "case m s of Inl e \<Rightarrow> E e | Inr (a, s') \<Rightarrow> depth s' = d \<and> Q' a"
    by (cases "m s") auto
qed

lemma gspec_return [gspec_intros]: "Q a \<Longrightarrow> gspec d E (greturn a) Q"
  by (simp add: gspec_def greturn_def)

lemma gspec_raise [gspec_intros]: "E e \<Longrightarrow> gspec d E (graise e) Q"
  by (simp add: gspec_def graise_def)

lemma gspec_bind:
  assumes "gspec d E m R" and "\<And>a. R a \<Longrightarrow> gspec d E (f a) Q"
  shows "gspec d E (gbind m f) Q"
  unfolding gspec_def
proof (intro allI impI)
  fix s :: gen_state
  assume d: "depth s = d"
  show "case gbind m f s of Inl e \<Rightarrow> E e | Inr (a, s') \<Rightarrow> depth s' = d \<and> Q a"
  proof (cases "m s")
    case (Inl e)
    with assms(1) d show ?thesis by (auto simp: gspec_def gbind_def split: sum.splits)
  next
    case (Inr p)
    obtain a s' where p: "p = (a, s')" by (cases p)
    with assms(1) d Inr have "depth s' = d" "R a" by (force simp: gspec_def)+
    with assms(2) show ?thesis by (simp add: gbind_def Inr p gspec_def)
  qed
qed

lemma gspec_obind:
  assumes "gspec d E m (\<lambda>x. \<forall>a. x = Some a \<longrightarrow> R a)" and "\<And>a. R a \<Longrightarrow> gspec d E (f a) Q" and "Q None"
  shows "gspec d E (obind m f) Q"
  unfolding obind_def
  by (rule gspec_bind [OF assms(1)]) (auto split: option.splits intro: assms(2,3) gspec_intros)

lemma gspec_read [gspec_intros]: "(\<And>s. Q (f s)) \<Longrightarrow> gspec d E (gread f) Q"
  by (simp add: gspec_def gread_def)

lemma gspec_modify [gspec_intros]: "(\<And>s. depth (f s) = depth s) \<Longrightarrow> Q () \<Longrightarrow> gspec d E (gmodify f) Q"
  by (simp add: gspec_def gmodify_def)

lemma gspec_lift [gspec_intros]:
  "(\<And>e. r = Inl e \<Longrightarrow> E e) \<Longrightarrow> (\<And>a. r = Inr a \<Longrightarrow> Q a) \<Longrightarrow> gspec d E (glift r) Q"
  by (cases r) (simp_all add: gspec_def glift_def)

lemma gspec_assert [gspec_intros]: "b \<Longrightarrow> Q () \<Longrightarrow> gspec d E (gassert b) Q"
  by (simp add: gassert_def gspec_intros)

lemma gspec_map:
  assumes "\<And>x. x \<in> set xs \<Longrightarrow> gspec d E (f x) (R x)"
  shows "gspec d E (gmap f xs) (\<lambda>ys. list_all2 R xs ys)"
  using assms
proof (induction xs)
  case Nil
  then show ?case by (simp add: gspec_intros)
next
  case (Cons x xs)
  show ?case
    by (simp, rule gspec_bind [where R = "R x"], simp add: Cons.prems,
        rule gspec_bind [where R = "list_all2 R xs"], simp add: Cons, rule gspec_return, simp)
qed

lemma gspec_map_some:
  assumes "\<And>x. x \<in> set xs \<Longrightarrow> gspec d E (f x) (\<lambda>y. \<forall>a. y = Some a \<longrightarrow> R x a)"
  shows "gspec d E (gmap_some f xs) (\<lambda>r. \<forall>ys. r = Some ys \<longrightarrow> list_all2 R xs ys)"
  using assms
proof (induction xs)
  case Nil
  then show ?case by (simp add: gspec_intros)
next
  case (Cons x xs)
  show ?case
    by (simp, rule gspec_obind [where R = "R x"], simp add: Cons.prems,
        rule gspec_obind [where R = "list_all2 R xs"], simp add: Cons, rule gspec_return, simp_all)
qed

lemma gspec_new_id [gspec_intros]: "(\<And>i. Q i) \<Longrightarrow> gspec d E new_id Q"
  unfolding new_id_def by (intro gspec_bind [where R = "\<lambda>_. True"] gspec_intros) simp_all

lemma gspec_object_name [gspec_intros]:
  "(\<And>n. Q (prefix @ ''_'' @ str_nat n)) \<Longrightarrow> gspec d E (generate_object_name prefix) Q"
  unfolding generate_object_name_def
  by (intro gspec_bind [where R = "\<lambda>_. True"] gspec_intros) simp_all

lemma gspec_column_name [gspec_intros]:
  "(\<And>n. Q (prefix @ ''_'' @ str_nat n)) \<Longrightarrow> gspec d E (generate_column_name prefix) Q"
  unfolding generate_column_name_def by (rule gspec_object_name)

lemma gspec_mint [gspec_intros]: "(\<And>n. Q n) \<Longrightarrow> gspec d E (mint env kind) Q"
  unfolding mint_def by (rule gspec_object_name)

lemma gspec_draw [gspec_intros]: "(\<And>n. Q n) \<Longrightarrow> gspec d E draw Q"
  unfolding draw_def by (intro gspec_bind [where R = "\<lambda>_. True"] gspec_intros) simp_all

lemma gspec_draw_exp [gspec_intros]: "(\<And>n. Q n) \<Longrightarrow> gspec d E draw_exp Q"
  unfolding draw_exp_def by (intro gspec_bind [where R = "\<lambda>_. True"] gspec_intros) simp_all

lemma gspec_choice:
  assumes "xs \<noteq> []" "\<And>x. x \<in> set xs \<Longrightarrow> Q x"
  shows "gspec d E (random_choice xs) Q"
  unfolding random_choice_def using assms
  by (auto intro!: gspec_bind [where R = "\<lambda>_. True"] gspec_intros)

lemma gspec_randrange [gspec_intros]: "(\<And>n. Q n) \<Longrightarrow> gspec d E (randrange k) Q"
  unfolding randrange_def by (intro gspec_bind [where R = "\<lambda>_. True"] gspec_intros) simp_all

lemma gspec_deadline [gspec_intros]:
  "(\<And>t. deadline_passed env t \<Longrightarrow> E DeadlineExceeded) \<Longrightarrow> Q () \<Longrightarrow> gspec d E (check_deadline env) Q"
  unfolding check_deadline_def
  by (intro gspec_bind [where R = "\<lambda>_. True"]) (auto intro!: gspec_intros)

end
