(* ===== verification/Coa_Framework.thy ===== *)
theory Coa_Framework
  imports Coa_Gen
begin

text \<open>
  The builder framework: \<open>eqgen/builder/builder.py\<close>, \<open>weighted_factory.py\<close>, \<open>interfaces.py\<close>, the
  \<open>_enter_builder\<close> of \<open>context.py\<close>, and the weight lookups of \<open>eqgen/equivalence/factory.py\<close>.

  A \<open>NodeBuilder\<close> is a record of its class name, its result type, the constraint types it requires
  and supports, whether it is a leaf, and its \<open>_build\<close>.  A builder reaches the factory only through
  \<open>build_subtree\<close>, which is therefore the first argument of \<open>b_build\<close>; the factory closes the knot
  by recursion on a fuel that bounds the nesting of \<open>build_subtree\<close> calls.
\<close>


section \<open>Result types\<close>

text \<open>The concrete classes, and the abstract types a builder asks the factory for.\<close>

datatype node_class =
    C_BaseTableSource | C_SelectQuery | C_UnionAllQuery | C_ExceptAllQuery | C_IntersectAllQuery
  | C_JoinQuery | C_CteQuery | C_LateralReprojectQuery | C_CreateFromQuery create_class
  | C_DeleteReinsertTable | C_NoopUpdateTable | C_TagPruneDeleteTable | C_InsertExtrasExpansion

datatype req_kind = WantSource | WantRelation | WantQuery

fun class_of :: "eqnode \<Rightarrow> node_class" where
  "class_of (BaseTableSource i t) = C_BaseTableSource"
| "class_of (SelectQuery i s p w d g q ob) = C_SelectQuery"
| "class_of (UnionAllQuery i bs) = C_UnionAllQuery"
| "class_of (ExceptAllQuery i l r) = C_ExceptAllQuery"
| "class_of (IntersectAllQuery i l r) = C_IntersectAllQuery"
| "class_of (JoinQuery i l r c j p la ra w) = C_JoinQuery"
| "class_of (CteQuery i s n w m) = C_CteQuery"
| "class_of (LateralReprojectQuery i s sa la) = C_LateralReprojectQuery"
| "class_of (CreateFromQuery i c q st e) = C_CreateFromQuery c"
| "class_of (DeleteReinsertTable i q t p st e) = C_DeleteReinsertTable"
| "class_of (NoopUpdateTable i q a p st e) = C_NoopUpdateTable"
| "class_of (TagPruneDeleteTable i c its tg k st e) = C_TagPruneDeleteTable"
| "class_of (InsertExtrasExpansion i c st e) = C_InsertExtrasExpansion"

definition query_class :: "node_class \<Rightarrow> bool" where
  "query_class c \<longleftrightarrow> c \<in> {C_SelectQuery, C_UnionAllQuery, C_ExceptAllQuery, C_IntersectAllQuery,
     C_JoinQuery, C_CteQuery, C_LateralReprojectQuery}"

text \<open>\<open>issubclass(rt, type)\<close> and \<open>isinstance(result, type)\<close>.\<close>

fun subclass_of :: "node_class \<Rightarrow> req_kind \<Rightarrow> bool" where
  "subclass_of c WantQuery = query_class c"
| "subclass_of c WantRelation = (\<not> query_class c \<and> c \<noteq> C_BaseTableSource)"
| "subclass_of c WantSource = (\<not> query_class c)"

definition is_instance :: "eqnode \<Rightarrow> req_kind \<Rightarrow> bool" where
  "is_instance n k = subclass_of (class_of n) k"

lemma is_instance_simps [simp]:
  "is_instance n WantQuery = is_query n"
  "is_instance n WantRelation = is_relation n"
  "is_instance n WantSource = is_source n"
  by (cases n; simp add: is_instance_def query_class_def is_source_def)+


section \<open>Builders\<close>

type_synonym request = "req_kind \<Rightarrow> constraint_set \<Rightarrow> eqnode option gen"

type_synonym build_fn = "request \<Rightarrow> context_env \<Rightarrow> constraint_set \<Rightarrow> eqnode option gen"

record builder =
  b_name :: string
  b_result :: node_class
  b_required :: "constraint_type list"
  b_supported :: "constraint_type list"
  b_leaf :: bool
  b_build :: build_fn


section \<open>Which builders are eligible\<close>

definition leaf_only :: "eq_config \<Rightarrow> gen_state \<Rightarrow> bool" where
  "leaf_only cfg s \<longleftrightarrow>
     max_depth cfg \<le> Suc (depth s)
     \<or> (0 < max_nodes cfg \<and> max_nodes cfg \<le> node_total s)
     \<or> (0 < max_attempts cfg \<and> max_attempts cfg \<le> nodes_attempted s)"

definition routes :: "req_kind \<Rightarrow> constraint_type set \<Rightarrow> builder \<Rightarrow> bool" where
  "routes k types b \<longleftrightarrow>
     types \<subseteq> set (b_supported b) \<and> subclass_of (b_result b) k \<and> set (b_required b) \<subseteq> types"

definition filter_builders ::
  "builder list \<Rightarrow> eq_config \<Rightarrow> req_kind \<Rightarrow> constraint_set \<Rightarrow> gen_state \<Rightarrow> builder list option" where
  "filter_builders builders cfg k cs s =
     (if max_depth cfg \<le> depth s then None
      else let supported = filter (\<lambda>b. routes k (set (constraint_types cs)) b \<and> (leaf_only cfg s \<longrightarrow> b_leaf b)) builders
           in if supported = [] then None else Some supported)"


section \<open>Weights\<close>

definition active_weights :: "eq_config \<Rightarrow> nat \<Rightarrow> (string \<times> int) list" where
  "active_weights cfg d =
     (if d = 0 \<and> root_builder_weights cfg \<noteq> [] then root_builder_weights cfg else builder_weights cfg)"

definition builder_weight :: "eq_config \<Rightarrow> nat \<Rightarrow> builder \<Rightarrow> int" where
  "builder_weight cfg d b = (case map_of (active_weights cfg d) (b_name b) of None \<Rightarrow> 1 | Some w \<Rightarrow> w)"


section \<open>Running builders\<close>

definition run_builder :: "builder \<Rightarrow> request \<Rightarrow> context_env \<Rightarrow> constraint_set \<Rightarrow> eqnode option gen" where
  "run_builder b sub env cs =
     obind (b_build b sub env cs) (\<lambda>n.
     gbind (gassert (class_of n = b_result b)) (\<lambda>_.
     if list_all (\<lambda>c. meets_constraint c n) cs then greturn (Some n) else graise ConstraintViolation))"

text \<open>\<open>_enter_builder\<close>: one level deeper; \<open>commit\<close> bumps both counters, and a block left without a
  commit restores the node count it found.\<close>

definition enter_builder :: "nat gen" where
  "enter_builder =
     gbind (gread node_total) (\<lambda>saved.
     gbind (gmodify (\<lambda>s. s\<lparr>depth := Suc (depth s)\<rparr>)) (\<lambda>_. greturn saved))"

definition commit_builder :: "string \<Rightarrow> unit gen" where
  "commit_builder name =
     gmodify (\<lambda>s. s\<lparr>node_total := Suc (node_total s), nodes_attempted := Suc (nodes_attempted s),
                    chosen := bump_count name (chosen s), depth := depth s - 1\<rparr>)"

definition abandon_builder :: "nat \<Rightarrow> unit gen" where
  "abandon_builder saved = gmodify (\<lambda>s. s\<lparr>depth := depth s - 1, node_total := saved\<rparr>)"

fun try_builders ::
  "request \<Rightarrow> context_env \<Rightarrow> constraint_set \<Rightarrow> builder list \<Rightarrow> eqnode option gen" where
  "try_builders sub env cs [] = greturn None"
| "try_builders sub env cs (b # bs) =
     gbind enter_builder (\<lambda>saved.
     gbind (run_builder b sub env cs) (\<lambda>result.
     case result of
       Some n \<Rightarrow> gbind (commit_builder (b_name b)) (\<lambda>_. greturn (Some n))
     | None \<Rightarrow> gbind (abandon_builder saved) (\<lambda>_. try_builders sub env cs bs)))"

definition dispatch ::
  "builder list \<Rightarrow> request \<Rightarrow> context_env \<Rightarrow> req_kind \<Rightarrow> constraint_set \<Rightarrow> eqnode option gen" where
  "dispatch builders sub env k cs =
     gbind (gread (filter_builders builders (config env) k cs)) (\<lambda>eligible.
     case eligible of
       None \<Rightarrow> greturn None
     | Some bs \<Rightarrow>
         gbind (gread depth) (\<lambda>d.
         gbind (weighted_shuffle bs (builder_weight (config env) d)) (\<lambda>ordered.
         try_builders sub env cs ordered)))"

primrec build_subtree :: "builder list \<Rightarrow> nat \<Rightarrow> context_env \<Rightarrow> request" where
  "build_subtree builders 0 env = (\<lambda>k cs. graise OutOfFuel)"
| "build_subtree builders (Suc fuel) env = (\<lambda>k cs.
     gbind (check_deadline env) (\<lambda>_.
     obind (dispatch builders (build_subtree builders fuel env) env k cs) (\<lambda>n.
     gbind (gassert (is_instance n k)) (\<lambda>_. greturn (Some n)))))"


section \<open>Laws of the dispatch\<close>

lemma gspec_draw_keys: "gspec d E (draw_keys xs) (\<lambda>ks. map snd ks = map fst xs)"
proof (induction xs rule: draw_keys.induct)
  case 1
  then show ?case by (simp add: gspec_intros)
next
  case (2 x w xs)
  show ?case
    by (simp, rule gspec_bind [where R = "\<lambda>_. True"], simp add: gspec_intros,
        rule gspec_bind [OF 2], rule gspec_return, simp)
qed

text \<open>The shuffle returns exactly the items of positive weight, in some order.\<close>

lemma gspec_shuffle:
  "gspec d E (weighted_shuffle xs w) (\<lambda>ys. mset ys = mset (filter (\<lambda>x. 0 < w x) xs))"
proof -
  have fst: "map fst (filter (\<lambda>p. 0 < snd p) (map (\<lambda>x. (x, w x)) xs)) = filter (\<lambda>x. 0 < w x) xs"
    by (induction xs) auto
  have keyed: "mset (map snd (sort_key fst ks)) = mset (filter (\<lambda>x. 0 < w x) xs)"
    if "map snd ks = filter (\<lambda>x. 0 < w x) xs" for ks :: "(rat \<times> 'a) list"
    by (simp add: that [symmetric])
  show ?thesis
  proof (cases "filter (\<lambda>p. 0 < snd p) (map (\<lambda>x. (x, w x)) xs) = []")
    case True
    with fst have "filter (\<lambda>x. 0 < w x) xs = []" by simp
    with True show ?thesis by (simp add: weighted_shuffle_def gspec_intros)
  next
    case False
    then show ?thesis
      unfolding weighted_shuffle_def Let_def if_not_P [OF False]
      by (intro gspec_bind [OF gspec_draw_keys] gspec_return keyed) (simp add: fst)
  qed
qed

lemma gspec_enter:
  assumes "\<And>saved (s :: gen_state). depth s = Suc d \<Longrightarrow>
      (case f saved s of Inl e \<Rightarrow> E e | Inr (a, s') \<Rightarrow> depth s' = d \<and> Q a)"
  shows "gspec d E (gbind enter_builder f) Q"
  using assms by (simp add: gspec_def gbind_def enter_builder_def gread_def gmodify_def greturn_def)

text \<open>
  Trying builders: if every builder, run one level deeper, meets \<open>Q\<close> on the nodes it returns,
  then so does the list of them.
\<close>

lemma gspec_try:
  assumes "\<And>b. b \<in> set bs \<Longrightarrow> gspec (Suc d) E (run_builder b sub env cs) (\<lambda>r. \<forall>n. r = Some n \<longrightarrow> Q n)"
  shows "gspec d E (try_builders sub env cs bs) (\<lambda>r. \<forall>n. r = Some n \<longrightarrow> Q n)"
  using assms
proof (induction bs)
  case Nil
  then show ?case by (simp add: gspec_intros)
next
  case (Cons b bs)
  let ?Q = "\<lambda>r. \<forall>n. r = Some n \<longrightarrow> Q n"
  have rest: "gspec d E (try_builders sub env cs bs) ?Q" using Cons by simp
  show ?case
    unfolding try_builders.simps
  proof (rule gspec_enter)
    fix saved and s :: gen_state
    assume s: "depth s = Suc d"
    have b: "case run_builder b sub env cs s of Inl e \<Rightarrow> E e | Inr (a, s') \<Rightarrow> depth s' = Suc d \<and> ?Q a"
      using Cons.prems [of b] s by (simp add: gspec_def)
    show "case gbind (run_builder b sub env cs) (\<lambda>result.
             case result of Some n \<Rightarrow> gbind (commit_builder (b_name b)) (\<lambda>_. greturn (Some n))
             | None \<Rightarrow> gbind (abandon_builder saved) (\<lambda>_. try_builders sub env cs bs)) s
          of Inl e \<Rightarrow> E e | Inr (a, s') \<Rightarrow> depth s' = d \<and> ?Q a"
    proof (cases "run_builder b sub env cs s")
      case (Inl e)
      with b show ?thesis by (simp add: gbind_def)
    next
      case (Inr p)
      obtain r s' where p: "p = (r, s')" by (cases p)
      show ?thesis
      proof (cases r)
        case None
        with rest b Inr p show ?thesis
          by (auto simp: gbind_def gspec_def abandon_builder_def gmodify_def)
      next
        case (Some n)
        with b Inr p show ?thesis
          by (simp add: gbind_def commit_builder_def gmodify_def greturn_def)
      qed
    qed
  qed
qed

lemma gspec_run:
  assumes "gspec d E (b_build b sub env cs)
      (\<lambda>r. \<forall>n. r = Some n \<longrightarrow> class_of n = b_result b \<and> list_all (\<lambda>c. meets_constraint c n) cs \<and> Q n)"
  shows "gspec d E (run_builder b sub env cs) (\<lambda>r. \<forall>n. r = Some n \<longrightarrow> class_of n = b_result b \<and> Q n)"
  unfolding run_builder_def
  by (rule gspec_obind [OF assms])
    (auto intro!: gspec_bind [where R = "\<lambda>_. True"] gspec_intros)

text \<open>
  The rule the generator rests on: what every routed builder guarantees one level deeper, the
  dispatch guarantees here.
\<close>

lemma gspec_dispatch:
  assumes "\<And>b. b \<in> set builders \<Longrightarrow> routes k (set (constraint_types cs)) b \<Longrightarrow> d < max_depth (config env) \<Longrightarrow>
      gspec (Suc d) E (b_build b sub env cs)
        (\<lambda>r. \<forall>n. r = Some n \<longrightarrow> class_of n = b_result b \<and> list_all (\<lambda>c. meets_constraint c n) cs \<and> Q n)"
  shows "gspec d E (dispatch builders sub env k cs) (\<lambda>r. \<forall>n. r = Some n \<longrightarrow> is_instance n k \<and> Q n)"
    (is "gspec d E _ ?Q")
  unfolding gspec_def
proof (intro allI impI)
  fix s :: gen_state
  assume d: "depth s = d"
  show "case dispatch builders sub env k cs s of Inl e \<Rightarrow> E e | Inr (a, s') \<Rightarrow> depth s' = d \<and> ?Q a"
  proof (cases "filter_builders builders (config env) k cs s")
    case None
    with d show ?thesis by (simp add: dispatch_def gbind_def gread_def greturn_def)
  next
    case (Some bs)
    then have bs: "\<And>b. b \<in> set bs \<Longrightarrow> b \<in> set builders \<and> routes k (set (constraint_types cs)) b"
      and deep: "d < max_depth (config env)"
      using d by (auto simp: filter_builders_def Let_def split: if_splits)
    let ?next = "gbind (weighted_shuffle bs (builder_weight (config env) d)) (try_builders sub env cs)"
    have "gspec d E ?next ?Q"
    proof (rule gspec_bind [OF gspec_shuffle])
      fix ys
      assume "mset ys = mset (filter (\<lambda>b. 0 < builder_weight (config env) d b) bs)"
      then have ys: "set ys \<subseteq> set bs" by (metis filter_is_subset set_mset_mset)
      show "gspec d E (try_builders sub env cs ys) ?Q"
      proof (rule gspec_try)
        fix b
        assume "b \<in> set ys"
        with ys bs have b: "b \<in> set builders" "routes k (set (constraint_types cs)) b" by blast+
        show "gspec (Suc d) E (run_builder b sub env cs) ?Q"
          by (rule gspec_weaken [OF gspec_run [OF assms [OF b deep]]])
            (use b(2) in \<open>auto simp: routes_def is_instance_def\<close>)
      qed
    qed
    moreover have "dispatch builders sub env k cs s = ?next s"
      using Some d by (simp add: dispatch_def gbind_def gread_def)
    ultimately show ?thesis using d by (simp add: gspec_def)
  qed
qed

lemma gspec_subtree_Suc:
  assumes "\<And>t. deadline_passed env t \<Longrightarrow> E DeadlineExceeded"
    and "gspec d E (dispatch builders (build_subtree builders fuel env) env k cs)
           (\<lambda>r. \<forall>n. r = Some n \<longrightarrow> is_instance n k \<and> Q n)"
  shows "gspec d E (build_subtree builders (Suc fuel) env k cs) (\<lambda>r. \<forall>n. r = Some n \<longrightarrow> is_instance n k \<and> Q n)"
  unfolding build_subtree.simps
  by (rule gspec_bind [where R = "\<lambda>_. True"], rule gspec_deadline, erule assms(1), simp, rule gspec_obind [OF assms(2)])
    (auto intro!: gspec_bind [where R = "\<lambda>_. True"] gspec_intros)

text \<open>At or below the depth limit nothing is dispatched, whatever the fuel.\<close>

lemma gspec_dispatch_deep:
  assumes "max_depth (config env) \<le> d"
  shows "gspec d E (dispatch builders sub env k cs) (\<lambda>r. r = None)"
  using assms
  by (simp add: gspec_def dispatch_def gbind_def gread_def greturn_def filter_builders_def)

end
