(* ===== verification/Coa_Nodes.thy ===== *)
theory Coa_Nodes
  imports Coa_Framework
begin

text \<open>
  Constructing nodes, and the helpers every rewrite inherits: the constructors and \<open>build\<close>
  class methods of \<open>eqgen/equivalence/ast.py\<close>, and \<open>eqgen/equivalence/builders/base.py\<close>.

  A constructor call draws a fresh identity; a \<open>build\<close> also takes a name, which is the one it was
  given when that is truthy (\<open>exposed_name or namer.mint(label)\<close>) and a minted one otherwise.
\<close>

definition gsome :: "'a gen \<Rightarrow> 'a option gen" where
  "gsome m = gbind m (\<lambda>x. greturn (Some x))"

lemma gspec_some: "gspec d E m Q \<Longrightarrow> gspec d E (gsome m) (\<lambda>r. \<forall>a. r = Some a \<longrightarrow> Q a)"
  unfolding gsome_def by (rule gspec_bind, assumption) (auto intro: gspec_return)


section \<open>Query nodes\<close>

definition mk_base :: "table \<Rightarrow> eqnode gen" where
  "mk_base t = gbind new_id (\<lambda>i. greturn (BaseTableSource i t))"

definition mk_select_full ::
  "eqnode \<Rightarrow> proj_item list option \<Rightarrow> expr option \<Rightarrow> bool \<Rightarrow> expr list option \<Rightarrow> expr option
     \<Rightarrow> expr list option \<Rightarrow> eqnode gen" where
  "mk_select_full source projection predicate is_distinct group_by qualify order_by =
     gbind new_id (\<lambda>i. greturn (SelectQuery i source projection predicate is_distinct group_by qualify order_by))"

definition mk_select :: "eqnode \<Rightarrow> proj_item list option \<Rightarrow> expr option \<Rightarrow> eqnode gen" where
  "mk_select source projection predicate = mk_select_full source projection predicate False None None None"

definition mk_union :: "eqnode list \<Rightarrow> eqnode gen" where
  "mk_union branches =
     gbind (gassert (2 \<le> length branches)) (\<lambda>_. gbind new_id (\<lambda>i. greturn (UnionAllQuery i branches)))"

definition mk_except :: "eqnode \<Rightarrow> eqnode \<Rightarrow> eqnode gen" where
  "mk_except l r = gbind new_id (\<lambda>i. greturn (ExceptAllQuery i l r))"

definition mk_intersect :: "eqnode \<Rightarrow> eqnode \<Rightarrow> eqnode gen" where
  "mk_intersect l r = gbind new_id (\<lambda>i. greturn (IntersectAllQuery i l r))"

definition mk_join ::
  "eqnode \<Rightarrow> eqnode \<Rightarrow> expr option \<Rightarrow> string \<Rightarrow> proj_item list \<Rightarrow> string \<Rightarrow> string \<Rightarrow> expr option
     \<Rightarrow> eqnode gen" where
  "mk_join l r condition join_type projection la ra predicate =
     gbind new_id (\<lambda>i. greturn (JoinQuery i l r condition join_type projection la ra predicate))"

definition mk_cte :: "eqnode \<Rightarrow> string \<Rightarrow> expr option \<Rightarrow> bool option \<Rightarrow> eqnode gen" where
  "mk_cte source name predicate materialize =
     gbind new_id (\<lambda>i. greturn (CteQuery i source name predicate materialize))"

definition mk_lateral :: "eqnode \<Rightarrow> eqnode gen" where
  "mk_lateral source = gbind new_id (\<lambda>i. greturn (LateralReprojectQuery i source ''s'' ''l''))"


section \<open>Relation nodes\<close>

definition take_name :: "context_env \<Rightarrow> string option \<Rightarrow> string \<Rightarrow> string gen" where
  "take_name env given label =
     (case given of
        Some nm \<Rightarrow> if nm = [] then mint env label else greturn nm
      | None \<Rightarrow> mint env label)"

fun contains_text :: "string \<Rightarrow> string \<Rightarrow> bool" where
  "contains_text pat [] = (pat = [])"
| "contains_text pat (c # cs) = (take (length pat) (c # cs) = pat \<or> contains_text pat cs)"

definition created_object :: "string \<Rightarrow> string \<Rightarrow> eqnode \<Rightarrow> setup_step" where
  "created_object nm keyword query =
     (if contains_text ''VIEW'' keyword then ViewObject nm keyword (Some query) ''''
      else TableObject nm keyword (Some query) '''')"

definition create_as :: "context_env \<Rightarrow> create_class \<Rightarrow> eqnode \<Rightarrow> string option \<Rightarrow> eqnode gen" where
  "create_as env cls query given =
     gbind (take_name env given (create_label cls)) (\<lambda>nm.
     let created = created_object nm (create_keyword cls) query
     in gbind new_id (\<lambda>i. greturn (CreateFromQuery i cls query [created] created)))"

definition delete_reinsert_build ::
  "context_env \<Rightarrow> eqnode \<Rightarrow> table \<Rightarrow> expr option \<Rightarrow> string option \<Rightarrow> eqnode gen" where
  "delete_reinsert_build env query tbl delete_predicate given =
     gbind (take_name env given ''table'') (\<lambda>nm.
     let created = TableObject nm ''TABLE'' (Some query) '''';
         columns = map fst (get_signature query);
         steps = [created,
                  DeleteStep nm delete_predicate,
                  InsertStep nm columns (get_sql_name tbl True) delete_predicate None None]
     in gbind new_id (\<lambda>i. greturn (DeleteReinsertTable i query tbl delete_predicate steps created)))"

definition noop_update_build ::
  "context_env \<Rightarrow> eqnode \<Rightarrow> (string \<times> expr) list \<Rightarrow> expr option \<Rightarrow> string option \<Rightarrow> eqnode gen" where
  "noop_update_build env query assignments update_predicate given =
     gbind (take_name env given ''table'') (\<lambda>nm.
     let created = TableObject nm ''TABLE'' (Some query) '''';
         steps = [created, UpdateStep nm assignments update_predicate]
     in gbind new_id (\<lambda>i. greturn (NoopUpdateTable i query assignments update_predicate steps created)))"

text \<open>\<open>child.materialized_name\<close> and \<open>child.exposed\<close>, attributes only a relation has.\<close>

definition child_name :: "eqnode \<Rightarrow> string gen" where
  "child_name child = (case materialized_name child of None \<Rightarrow> graise AttributeMissing | Some nm \<Rightarrow> greturn nm)"

definition child_exposed :: "eqnode \<Rightarrow> setup_step gen" where
  "child_exposed child = (case exposed_of child of None \<Rightarrow> graise AttributeMissing | Some e \<Rightarrow> greturn e)"

definition tag_prune_delete_build ::
  "context_env \<Rightarrow> eqnode \<Rightarrow> proj_item list \<Rightarrow> string \<Rightarrow> int \<Rightarrow> string option \<Rightarrow> eqnode gen" where
  "tag_prune_delete_build env child base_items tag_col keep_value given =
     gbind (child_name child) (\<lambda>target.
     let delete = DeleteStep target (Some (ne (col tag_col IntegerType) (int_lit keep_value)))
     in gbind (take_name env given ''view'') (\<lambda>nm.
        gbind (mk_select child (Some base_items) None) (\<lambda>query.
        let view = ViewObject nm ''VIEW'' (Some query) ''''
        in gbind new_id (\<lambda>i.
           greturn (TagPruneDeleteTable i child base_items tag_col keep_value [delete, view] view)))))"

definition insert_extras_build :: "eqnode \<Rightarrow> setup_step \<Rightarrow> eqnode gen" where
  "insert_extras_build child ins_step =
     gbind (child_exposed child) (\<lambda>e.
     gbind new_id (\<lambda>i. greturn (InsertExtrasExpansion i child [ins_step] e)))"


section \<open>Helpers of the base class\<close>

definition ask :: "request \<Rightarrow> req_kind \<Rightarrow> constraint option list \<Rightarrow> eqnode option gen" where
  "ask sub k constraints = gbind (glift (make_constraint_set constraints)) (sub k)"

definition dispatch_source :: "request \<Rightarrow> constraint_set option \<Rightarrow> eqnode option gen" where
  "dispatch_source sub ocs =
     ask sub WantSource (case ocs of None \<Rightarrow> [] | Some cs \<Rightarrow> [get_optional_constraint cs SingleSourceC])"

definition passthrough_items :: "context_env \<Rightarrow> proj_item list" where
  "passthrough_items env =
     map (\<lambda>c. ProjectionItem (col_name c) (col (col_name c) (col_type c)) (col_type c)) (tab_columns (base_table env))"

definition select_key :: "context_env \<Rightarrow> 'a list \<Rightarrow> 'a gen" where
  "select_key env candidates =
     gbind (choose_one (key_selection_weights (config env))) (\<lambda>strategy.
     if strategy = RANDOM \<and> 1 < length candidates then random_choice candidates
     else (case candidates of [] \<Rightarrow> graise EmptyPopulation | c # cs \<Rightarrow> greturn c))"

record keyed_relation =
  kr_relation :: eqnode
  kr_key :: key_spec
  kr_items :: "proj_item list"

definition materialize_row_key :: "request \<Rightarrow> context_env \<Rightarrow> string \<Rightarrow> keyed_relation option gen" where
  "materialize_row_key sub env key_name =
     (let base_items = passthrough_items env in
      case base_items of
        [] \<Rightarrow> greturn None
      | item # items \<Rightarrow>
          let order_by = col (pi_alias item) (pi_type item);
              key_item = ProjectionItem key_name (row_number [order_by]) IntegerType
          in gbind (ask sub WantRelation
                      [Some (ColumnRewriteConstraint (base_items @ [key_item])), Some AcceptsDmlConstraint])
               (\<lambda>keyed. case keyed of
                  Some rel \<Rightarrow>
                    if is_relation rel
                    then greturn (Some \<lparr>kr_relation = rel, kr_key = KeySpec key_name IDENTITY False, kr_items = base_items\<rparr>)
                    else greturn None
                | None \<Rightarrow> greturn None))"

definition note_origin :: "string \<Rightarrow> unit gen" where
  "note_origin who = gmodify (\<lambda>s. s\<lparr>predicate_origin := bump_count who (predicate_origin s)\<rparr>)"

definition generated_predicate_for :: "context_env \<Rightarrow> expr option gen" where
  "generated_predicate_for env =
     (case the_predicate_source env of
        None \<Rightarrow> gbind (note_origin ''none-configured'') (\<lambda>_. greturn None)
      | Some source \<Rightarrow>
          gbind (randrange 2147483648) (\<lambda>seed.
          case boolean_predicate source (base_table env) seed of
            None \<Rightarrow> gbind (note_origin (source_name source @ ''-declined'')) (\<lambda>_. greturn None)
          | Some txt \<Rightarrow>
              if txt = [] then gbind (note_origin (source_name source @ ''-declined'')) (\<lambda>_. greturn None)
              else gbind (note_origin (source_name source)) (\<lambda>_.
                   gbind (gassert (nonblank txt)) (\<lambda>_. greturn (Some (generated_predicate txt))))))"

text \<open>
  \<open>ColumnRewriteQueryBuilder._build\<close>: one call of the rewriter per column, in column order, then
  the source; declines when no column was rewritten.
\<close>

definition column_rewrite_build ::
  "(context_env \<Rightarrow> (string \<Rightarrow> sql_type \<Rightarrow> expr option gen) gen) \<Rightarrow> build_fn" where
  "column_rewrite_build column_rewriter sub env cs =
     gbind (column_rewriter env) (\<lambda>rewrite.
     gbind (gmap (\<lambda>c.
        gbind (rewrite (col_name c) (col_type c)) (\<lambda>rewritten.
        greturn (case rewritten of
            None \<Rightarrow> (ProjectionItem (col_name c) (col (col_name c) (col_type c)) (col_type c), False)
          | Some e \<Rightarrow> (ProjectionItem (col_name c) e (col_type c), True))))
        (tab_columns (base_table env))) (\<lambda>items.
     if \<not> list_ex snd items then greturn None
     else obind (dispatch_source sub None) (\<lambda>source.
          gsome (mk_select source (Some (map fst items)) None))))"

end
