(* ===== verification/Coa_Rewrites.thy ===== *)
theory Coa_Rewrites
  imports Coa_Nodes
begin

text \<open>
  The portable rewrites of \<open>eqgen/equivalence/builders/\<close> that produce a query or materialize one:
  \<open>sources\<close>, \<open>creates\<close>, \<open>selects\<close>, \<open>partitioning\<close>, \<open>eet\<close>, \<open>window\<close> and \<open>roundtrips\<close>.
  One definition per \<open>_build\<close>, in the order of the source; the classes that differ only in a
  constant share one definition with that constant as an argument.
\<close>


section \<open>sources.py\<close>

definition build_base_table_source :: build_fn where
  "build_base_table_source sub env cs = gsome (mk_base (base_table env))"


section \<open>creates.py\<close>

definition query_constraints :: "constraint_set \<Rightarrow> constraint option list" where
  "query_constraints cs = [get_optional_constraint cs RowFilterC, get_optional_constraint cs ColumnRewriteC]"

definition wrap_query :: "context_env \<Rightarrow> create_class \<Rightarrow> eqnode \<Rightarrow> string option \<Rightarrow> eqnode gen" where
  "wrap_query env cls query given =
     (if cls = CreateMaterializedView
      then gbind (create_as env CreateTable query None) (\<lambda>body.
           gbind (mk_select body None None) (\<lambda>reread.
           create_as env CreateMaterializedView reread given))
      else create_as env cls query given)"

definition build_create :: "create_class \<Rightarrow> build_fn" where
  "build_create cls sub env cs =
     obind (ask sub WantQuery (query_constraints cs)) (\<lambda>query.
     gsome (wrap_query env cls query (exposed_name cs)))"


section \<open>selects.py\<close>

definition build_select_star :: build_fn where
  "build_select_star sub env cs =
     obind (dispatch_source sub (Some cs)) (\<lambda>source.
     gsome (mk_select source None (current_filter cs)))"

definition build_explicit_projection :: build_fn where
  "build_explicit_projection sub env cs =
     (if passthrough_items env = [] then greturn None
      else obind (dispatch_source sub (Some cs)) (\<lambda>source.
           gsome (mk_select source (Some (passthrough_items env)) (current_filter cs))))"

text \<open>\<open>CteQueryBuilder\<close> and its two hinted siblings: the name suffix and the hint differ.\<close>

definition build_cte :: "string \<Rightarrow> bool option \<Rightarrow> build_fn" where
  "build_cte suffix materialize sub env cs =
     obind (dispatch_source sub (Some cs)) (\<lambda>source.
     gbind (generate_object_name (tab_name (base_table env) @ suffix)) (\<lambda>nm.
     gsome (mk_cte source nm (current_filter cs) materialize)))"

definition build_lateral :: build_fn where
  "build_lateral sub env cs =
     obind (dispatch_source sub None) (\<lambda>source.
     if get_signature source = [] then greturn None else gsome (mk_lateral source))"

definition build_add_drop_column :: build_fn where
  "build_add_drop_column sub env cs =
     (if passthrough_items env = [] then greturn None
      else obind (dispatch_source sub None) (\<lambda>source.
           gbind (generate_column_name ''eq_tmp_col'') (\<lambda>extra_name.
           let extra = ProjectionItem extra_name (typed_null IntegerType) IntegerType in
           gbind (mk_select source (Some (passthrough_items env @ [extra])) None) (\<lambda>query.
           gbind (create_as env CreateView query None) (\<lambda>wider.
           gsome (mk_select wider (Some (passthrough_items env)) None))))))"

definition first_column :: "proj_item list \<Rightarrow> expr" where
  "first_column items = col (pi_alias (hd items)) (pi_type (hd items))"

definition build_qualify :: build_fn where
  "build_qualify sub env cs =
     (let items = passthrough_items env in
      if items = [] then greturn None
      else obind (dispatch_source sub None) (\<lambda>source.
           let keep_all = ge (row_number [first_column items]) (int_lit 1)
           in gsome (mk_select_full source (Some items) None False None (Some keep_all) None)))"

definition build_ordered_scan :: build_fn where
  "build_ordered_scan sub env cs =
     (let items = passthrough_items env in
      if items = [] then greturn None
      else obind (dispatch_source sub None) (\<lambda>source.
           gsome (mk_select_full source (Some items) None False None None (Some [first_column items]))))"

definition build_distinct_as_group_by :: build_fn where
  "build_distinct_as_group_by sub env cs =
     gbind (generate_column_name ''eq_dg'') (\<lambda>key_name.
     obind (materialize_row_key sub env key_name) (\<lambda>keyed.
     if kr_items keyed = [] then greturn None
     else let group_keys = map (\<lambda>it. col (pi_alias it) (pi_type it)) (kr_items keyed) @ [col key_name IntegerType]
          in gsome (mk_select_full (kr_relation keyed) (Some (kr_items keyed)) None False (Some group_keys) None None)))"

definition build_projection :: build_fn where
  "build_projection sub env cs =
     obind (dispatch_source sub (Some cs)) (\<lambda>source.
     case column_rewrite cs of
       None \<Rightarrow> graise MissingConstraint
     | Some projection \<Rightarrow> gsome (mk_select source (Some projection) (current_filter cs)))"


section \<open>partitioning.py\<close>

definition empty_predicate :: expr where
  "empty_predicate = eq (int_lit 1) (int_lit 0)"

definition rank_moduli :: "nat list" where
  "rank_moduli = [2, 3, 4]"

definition pick_integer_key :: "context_env \<Rightarrow> (string \<times> sql_type) option gen" where
  "pick_integer_key env =
     (let eligible = filter (\<lambda>(nm, ty). integer_keyed ty)
                       (map (\<lambda>c. (col_name c, col_type c)) (tab_columns (base_table env)))
      in if eligible = [] then greturn None
         else gbind (select_key env eligible) (\<lambda>k. greturn (Some k)))"

definition branch :: "request \<Rightarrow> constraint_set \<Rightarrow> expr \<Rightarrow> eqnode option gen" where
  "branch sub cs predicate =
     ask sub WantRelation [Some (RowFilterConstraint (conjoin (current_filter cs) predicate))]"

definition build_partition_union :: build_fn where
  "build_partition_union sub env cs =
     obind (pick_integer_key env) (\<lambda>(nm, ty).
     let key_ref = col nm ty;
         even = eq (mod_e key_ref 2) (int_lit 0);
         odd = or_e (ne (mod_e key_ref 2) (int_lit 0)) (is_null key_ref)
     in obind (gmap_some (branch sub cs) [even, odd]) (\<lambda>branches. gsome (mk_union branches)))"

definition build_tlp_union :: build_fn where
  "build_tlp_union sub env cs =
     obind (generated_predicate_for env) (\<lambda>p.
     obind (gmap_some (branch sub cs) [p, not_e p, is_null p]) (\<lambda>branches. gsome (mk_union branches)))"

definition build_rank_mod_union :: build_fn where
  "build_rank_mod_union sub env cs =
     gbind (random_choice rank_moduli) (\<lambda>modulus.
     gbind (generate_column_name ''eq_rank'') (\<lambda>rank_name.
     obind (materialize_row_key sub env rank_name) (\<lambda>keyed.
     if kr_items keyed = [] then greturn None
     else let rank_ref = col rank_name IntegerType in
          gbind (gmap (\<lambda>residue.
             gbind (mk_select (kr_relation keyed) (Some (kr_items keyed))
                      (Some (eq (mod_e rank_ref (int modulus)) (int_lit (int residue))))) (\<lambda>query.
             create_as env CreateView query None)) [0..<modulus]) (\<lambda>branches.
          gsome (mk_union branches)))))"

text \<open>The three set-algebra round trips ask for both sides before looking at either.\<close>

definition two_sides :: "request \<Rightarrow> constraint option list \<Rightarrow> (eqnode \<Rightarrow> eqnode \<Rightarrow> eqnode gen) \<Rightarrow> eqnode option gen" where
  "two_sides sub right_constraints combine =
     gbind (ask sub WantRelation []) (\<lambda>left.
     gbind (ask sub WantRelation right_constraints) (\<lambda>right.
     case (left, right) of (Some l, Some r) \<Rightarrow> gsome (combine l r) | _ \<Rightarrow> greturn None))"

definition build_union_empty :: build_fn where
  "build_union_empty sub env cs =
     two_sides sub [Some (RowFilterConstraint empty_predicate)] (\<lambda>l r. mk_union [l, r])"

definition build_except_empty :: build_fn where
  "build_except_empty sub env cs =
     two_sides sub [Some (RowFilterConstraint empty_predicate)] mk_except"

definition build_intersect_self :: build_fn where
  "build_intersect_self sub env cs = two_sides sub [] mk_intersect"

definition all_groupable :: "proj_item list \<Rightarrow> bool" where
  "all_groupable items = list_all (\<lambda>it. GROUPABLE \<in> get_properties (pi_type it)) items"

definition build_distinct_union_duplicate :: build_fn where
  "build_distinct_union_duplicate sub env cs =
     (let items = passthrough_items env in
      if items = [] then greturn None
      else if \<not> all_groupable items then greturn None
      else gbind (generate_column_name ''eq_dd'') (\<lambda>key_name.
           obind (materialize_row_key sub env key_name) (\<lambda>keyed.
           if kr_items keyed = [] then greturn None
           else gbind (mk_union [kr_relation keyed, kr_relation keyed]) (\<lambda>both.
                gbind (create_as env CreateTable both None) (\<lambda>doubled.
                gbind (mk_select_full doubled None None True None None None) (\<lambda>once.
                gbind (create_as env CreateTable once None) (\<lambda>deduped.
                gsome (mk_select deduped (Some (kr_items keyed)) None))))))))"


section \<open>eet.py\<close>

definition free_predicate :: "context_env \<Rightarrow> expr option gen" where
  "free_predicate env =
     gbind (generated_predicate_for env) (\<lambda>generated.
     case generated of
       Some p \<Rightarrow> greturn (Some p)
     | None \<Rightarrow>
         if tab_columns (base_table env) = [] then greturn None
         else gbind (note_origin ''builtin-fallback'') (\<lambda>_.
              gbind (select_key env (tab_columns (base_table env))) (\<lambda>c.
              let reference = col (col_name c) (col_type c) in
              greturn (Some (if ORDERABLE \<in> get_properties (col_type c) then ge reference reference
                             else is_null reference)))))"

definition eet_rewriter :: "context_env \<Rightarrow> (string \<Rightarrow> sql_type \<Rightarrow> expr option gen) gen" where
  "eet_rewriter env =
     gbind (free_predicate env) (\<lambda>first.
     case first of
       None \<Rightarrow> greturn (\<lambda>nm ty. greturn None)
     | Some _ \<Rightarrow> greturn (\<lambda>nm ty.
         obind (free_predicate env) (\<lambda>p.
         greturn (Some (case_when (determined_true p) (col nm ty) (typed_null ty) ty)))))"

definition build_eet_case :: build_fn where
  "build_eet_case = column_rewrite_build eet_rewriter"

definition build_eet_filter :: build_fn where
  "build_eet_filter sub env cs =
     obind (free_predicate env) (\<lambda>p.
     obind (dispatch_source sub (Some cs)) (\<lambda>source.
     gsome (mk_select source None (Some (conjoin (current_filter cs) (determined_true p))))))"


section \<open>window.py\<close>

fun window_choice :: "win_choice \<Rightarrow> window_function" where
  "window_choice CHOOSE_MIN = WinMIN"
| "window_choice CHOOSE_MAX = WinMAX"
| "window_choice CHOOSE_FIRST_VALUE = WinFIRST_VALUE"
| "window_choice CHOOSE_LAST_VALUE = WinLAST_VALUE"

definition needs_order :: "window_function \<Rightarrow> bool" where
  "needs_order f \<longleftrightarrow> f = WinFIRST_VALUE \<or> f = WinLAST_VALUE"

fun frame_for :: "frame_choice \<Rightarrow> window_frame option" where
  "frame_for FRAME_ROWS = Some ROWS"
| "frame_for FRAME_RANGE = Some RANGE"
| "frame_for FRAME_NONE = None"

definition window_eligible :: "sql_type \<Rightarrow> window_function \<Rightarrow> bool \<Rightarrow> bool" where
  "window_eligible ty f ordered =
     (let properties = get_properties ty;
          aggregate = (f = WinMIN \<or> f = WinMAX)
      in if GROUPABLE \<notin> properties then False
         else if ordered \<and> ORDERABLE \<notin> properties then False
         else if aggregate \<and> AGGREGATABLE \<notin> properties then False
         else if aggregate \<and> is_boolean ty then False
         else \<not> is_double ty)"

definition window_rewriter :: "context_env \<Rightarrow> (string \<Rightarrow> sql_type \<Rightarrow> expr option gen) gen" where
  "window_rewriter env =
     gbind (choose_one (window_function_weights (config env))) (\<lambda>choice.
     gbind (choose_one (window_frame_weights (config env))) (\<lambda>framed.
     let f = window_choice choice; fr = frame_for framed; ordered = (needs_order f \<or> fr \<noteq> None)
     in greturn (\<lambda>nm ty.
          if \<not> window_eligible ty f ordered then greturn None
          else let c = col nm ty
               in greturn (Some (window_over f (Some c) [c] ty (if ordered then [c] else []) fr)))))"

definition build_window_rewrite :: build_fn where
  "build_window_rewrite = column_rewrite_build window_rewriter"


section \<open>roundtrips.py\<close>

definition codec_eligible :: "sql_type \<Rightarrow> bool" where
  "codec_eligible ty = is_varchar ty"

definition codec_roundtrip :: "value_codec \<Rightarrow> string \<Rightarrow> sql_type \<Rightarrow> expr" where
  "codec_roundtrip c nm ty =
     case_when (is_null (col nm ty)) (typed_null ty) (value_codec_roundtrip c (col nm ty) ty) ty"

type_synonym codec_plan = "string \<rightharpoonup> value_codec"

fun uniform_plan :: "value_codec \<Rightarrow> column list \<Rightarrow> codec_plan \<Rightarrow> codec_plan" where
  "uniform_plan c [] plan = plan"
| "uniform_plan c (k # ks) plan =
     uniform_plan c ks (if codec_eligible (col_type k) then plan(col_name k \<mapsto> c) else plan)"

fun per_column_plan :: "value_codec list \<Rightarrow> column list \<Rightarrow> codec_plan \<Rightarrow> codec_plan gen" where
  "per_column_plan specs [] plan = greturn plan"
| "per_column_plan specs (k # ks) plan =
     (let candidates = filter (\<lambda>c. codec_eligible (col_type k)) specs
      in if candidates = [] then per_column_plan specs ks plan
         else gbind (random_choice candidates) (\<lambda>c. per_column_plan specs ks (plan(col_name k \<mapsto> c))))"

datatype codec_assignment = UniformAssignment value_codec | PerColumnAssignment "value_codec list"

fun assignment_plan :: "codec_assignment \<Rightarrow> context_env \<Rightarrow> codec_plan gen" where
  "assignment_plan (UniformAssignment c) env =
     greturn (uniform_plan c (tab_columns (base_table env)) Map.empty)"
| "assignment_plan (PerColumnAssignment specs) env =
     per_column_plan specs (tab_columns (base_table env)) Map.empty"

definition codec_rewriter ::
  "codec_assignment \<Rightarrow> context_env \<Rightarrow> (string \<Rightarrow> sql_type \<Rightarrow> expr option gen) gen" where
  "codec_rewriter assignment env =
     gbind (assignment_plan assignment env) (\<lambda>plan.
     greturn (\<lambda>nm ty. greturn (case plan nm of None \<Rightarrow> None | Some c \<Rightarrow> Some (codec_roundtrip c nm ty))))"

definition build_codec :: "codec_assignment \<Rightarrow> build_fn" where
  "build_codec assignment = column_rewrite_build (codec_rewriter assignment)"

end
