(* ===== verification/Coa_Rewrites_Keyed.thy ===== *)
theory Coa_Rewrites_Keyed
  imports Coa_Rewrites
begin

text \<open>
  The portable rewrites that write to a table, join on a synthesized key, or copy rows and collapse
  the copies: \<open>dml_tables\<close>, \<open>joins\<close> and \<open>expansion\<close> of \<open>eqgen/equivalence/builders/\<close>; then
  \<open>PORTABLE_BUILDERS\<close> of \<open>eqgen/equivalence/factory.py\<close>.
\<close>


section \<open>dml\_tables.py\<close>

definition mutation_predicate :: "context_env \<Rightarrow> expr option gen" where
  "mutation_predicate env =
     gbind (generated_predicate_for env) (\<lambda>generated.
     case generated of
       Some p \<Rightarrow> greturn (Some p)
     | None \<Rightarrow> obind (pick_integer_key env) (\<lambda>(nm, ty).
                 greturn (Some (eq (mod_e (col nm ty) 2) (int_lit 1)))))"

definition build_delete_reinsert :: build_fn where
  "build_delete_reinsert sub env cs =
     obind (ask sub WantQuery []) (\<lambda>query.
     gbind (mutation_predicate env) (\<lambda>predicate.
     gsome (delete_reinsert_build env query (base_table env) predicate (exposed_name cs))))"

definition build_noop_update :: build_fn where
  "build_noop_update sub env cs =
     obind (ask sub WantQuery []) (\<lambda>query.
     if get_signature query = [] then greturn None
     else let assignments = map (\<lambda>(alias, target). (alias, col alias target)) (get_signature query) in
          gbind (mutation_predicate env) (\<lambda>predicate.
          gsome (noop_update_build env query assignments predicate (exposed_name cs))))"


section \<open>joins.py\<close>

definition qualified_items :: "string \<Rightarrow> proj_item list \<Rightarrow> proj_item list" where
  "qualified_items alias items =
     map (\<lambda>it. ProjectionItem (pi_alias it) (qualified_col alias (pi_alias it) (pi_type it)) (pi_type it)) items"

definition key_equality :: "string \<Rightarrow> expr" where
  "key_equality key = eq (qualified_col ''l'' key IntegerType) (qualified_col ''r'' key IntegerType)"

definition int_item :: "string \<Rightarrow> proj_item" where
  "int_item nm = ProjectionItem nm (col nm IntegerType) IntegerType"

definition build_left_join_empty :: build_fn where
  "build_left_join_empty sub env cs =
     (if passthrough_items env = [] then greturn None
      else two_sides sub [Some (RowFilterConstraint empty_predicate)] (\<lambda>l r.
             mk_join l r (Some (eq (int_lit 1) (int_lit 1))) ''LEFT OUTER''
               (qualified_items ''l'' (passthrough_items env)) ''l'' ''r'' None))"

definition build_semi_join :: build_fn where
  "build_semi_join sub env cs =
     gbind (generate_column_name ''eq_sj'') (\<lambda>uid.
     obind (materialize_row_key sub env uid) (\<lambda>keyed.
     if kr_items keyed = [] then greturn None
     else gbind (mk_select (kr_relation keyed) (Some [int_item uid]) None) (\<lambda>flags.
          gbind (create_as env CreateTable flags None) (\<lambda>flag_table.
          gsome (mk_join (kr_relation keyed) flag_table (Some (key_equality uid)) ''SEMI''
                   (qualified_items ''l'' (kr_items keyed)) ''l'' ''r'' None)))))"

definition build_flag_join :: build_fn where
  "build_flag_join sub env cs =
     gbind (generate_column_name ''eq_uid'') (\<lambda>uid.
     gbind (generate_column_name ''eq_flag'') (\<lambda>flag.
     obind (materialize_row_key sub env uid) (\<lambda>keyed.
     gbind (mk_select (kr_relation keyed)
              (Some [int_item uid, ProjectionItem flag (int_lit 1) IntegerType]) None) (\<lambda>flags.
     gbind (create_as env CreateTable flags None) (\<lambda>flag_table.
     gbind (choose_one (join_type_weights (config env))) (\<lambda>join_type.
     gsome (mk_join (kr_relation keyed) flag_table (Some (key_equality uid)) (join_value join_type)
              (qualified_items ''l'' (kr_items keyed)) ''l'' ''r''
              (Some (eq (qualified_col ''r'' flag IntegerType) (int_lit 1))))))))))"

definition build_sequence_join :: build_fn where
  "build_sequence_join sub env cs =
     gbind (generate_column_name ''eq_seq'') (\<lambda>key.
     obind (materialize_row_key sub env key) (\<lambda>keyed.
     if length (kr_items keyed) < 2 then greturn None
     else let split = length (kr_items keyed) div 2;
              left_cols = take split (kr_items keyed);
              right_cols = drop split (kr_items keyed)
          in gbind (mk_select (kr_relation keyed) (Some (left_cols @ [int_item key])) None) (\<lambda>left_query.
             gbind (create_as env CreateView left_query None) (\<lambda>left.
             gbind (mk_select (kr_relation keyed) (Some (right_cols @ [int_item key])) None) (\<lambda>right_query.
             gbind (create_as env CreateView right_query None) (\<lambda>right.
             gsome (mk_join left right (Some (key_equality key)) ''FULL OUTER''
                      (qualified_items ''l'' left_cols @ qualified_items ''r'' right_cols) ''l'' ''r'' None)))))))"

definition build_cross_join :: build_fn where
  "build_cross_join sub env cs =
     gbind (generate_column_name ''eq_xj'') (\<lambda>uid.
     obind (materialize_row_key sub env uid) (\<lambda>keyed.
     if kr_items keyed = [] then greturn None
     else gbind (mk_select (kr_relation keyed) (Some [int_item uid]) None) (\<lambda>flags.
          gbind (create_as env CreateTable flags None) (\<lambda>flag_table.
          gsome (mk_join (kr_relation keyed) flag_table None ''CROSS''
                   (qualified_items ''l'' (kr_items keyed)) ''l'' ''r'' (Some (key_equality uid)))))))"


section \<open>expansion.py\<close>

definition keep_mark :: int where "keep_mark = 1"

definition throwaway_mark :: int where "throwaway_mark = 0"

definition build_reduced :: "bool \<Rightarrow> request \<Rightarrow> context_env \<Rightarrow> (eqnode \<times> proj_item list \<times> string) option gen" where
  "build_reduced requires_dml sub env =
     (let base_items = passthrough_items env in
      if base_items = [] then greturn None
      else gbind (generate_column_name ''eq_tag'') (\<lambda>tag_col.
           obind (ask sub WantRelation
                    (Some (TagChannelConstraint tag_col keep_mark)
                     # (if requires_dml then [Some AcceptsDmlConstraint] else []))) (\<lambda>child.
           greturn (Some (child, base_items, tag_col)))))"

definition build_keyed :: "request \<Rightarrow> context_env \<Rightarrow> (eqnode \<times> proj_item list \<times> string) option gen" where
  "build_keyed sub env =
     (let base_items = passthrough_items env in
      if base_items = [] then greturn None
      else gbind (generate_column_name ''eq_key'') (\<lambda>key_col.
           obind (ask sub WantRelation [Some (KeyChannelConstraint (KeySpec key_col IDENTITY False))]) (\<lambda>child.
           greturn (Some (child, base_items, key_col)))))"

text \<open>Each base column read back, and the mark rewritten to throwaway.\<close>

definition throw_items :: "proj_item list \<Rightarrow> string \<Rightarrow> proj_item list" where
  "throw_items base_items tag_col =
     map (\<lambda>it. ProjectionItem (pi_alias it) (col (pi_alias it) (pi_type it)) (pi_type it)) base_items
     @ [ProjectionItem tag_col (int_lit throwaway_mark) IntegerType]"

definition build_tag_explode :: build_fn where
  "build_tag_explode sub env cs =
     (let base_items = passthrough_items env in
      case tag_channel cs of
        None \<Rightarrow> greturn None
      | Some (tag_col, keep_value) \<Rightarrow>
          if base_items = [] then greturn None
          else let keep_items = base_items @ [ProjectionItem tag_col (int_lit keep_value) IntegerType] in
            obind (ask sub WantRelation [Some (ColumnRewriteConstraint keep_items), Some AcceptsDmlConstraint]) (\<lambda>keep.
            gbind (mk_select keep (Some (throw_items base_items tag_col)) None) (\<lambda>thrown.
            gbind (create_as env CreateTable thrown None) (\<lambda>throw.
            gbind (choose_one (big_table_rowcount_weights (config env))) (\<lambda>rowcount.
            let branches = keep # replicate (nat (rowcount - 1)) throw in
            if length branches = 1
            then gbind (mk_select keep None None) (\<lambda>reread. gsome (create_as env CreateTable reread None))
            else gbind (mk_union branches) (\<lambda>union_query. gsome (create_as env CreateTable union_query None)))))))"

definition build_tag_insert_extras :: build_fn where
  "build_tag_insert_extras sub env cs =
     (let base_items = passthrough_items env in
      case tag_channel cs of
        None \<Rightarrow> greturn None
      | Some (tag_col, keep_value) \<Rightarrow>
          if base_items = [] then greturn None
          else obind (ask sub WantRelation [Some (TagChannelConstraint tag_col keep_value), Some AcceptsDmlConstraint]) (\<lambda>child.
               gbind (child_name child) (\<lambda>target.
               gbind (mk_select child (Some (throw_items base_items tag_col))
                        (Some (eq (col tag_col IntegerType) (int_lit keep_value)))) (\<lambda>query.
               gsome (insert_extras_build child (InsertStep target [] '''' None None (Some query)))))))"

definition build_tag_prune_delete :: build_fn where
  "build_tag_prune_delete sub env cs =
     obind (build_reduced True sub env) (\<lambda>(child, base_items, tag_col).
     gsome (tag_prune_delete_build env child base_items tag_col keep_mark (exposed_name cs)))"

definition build_tag_prune_filter :: build_fn where
  "build_tag_prune_filter sub env cs =
     obind (build_reduced False sub env) (\<lambda>(child, base_items, tag_col).
     gbind (mk_select child (Some base_items) (Some (eq (col tag_col IntegerType) (int_lit keep_mark)))) (\<lambda>query.
     gsome (create_as env CreateView query (exposed_name cs))))"

definition build_key_explode :: build_fn where
  "build_key_explode sub env cs =
     (case key_channel cs of
        None \<Rightarrow> greturn None
      | Some key \<Rightarrow>
          obind (materialize_row_key sub env (key_column key)) (\<lambda>keyed.
          gbind (choose_one (big_table_rowcount_weights (config env))) (\<lambda>rowcount.
          gbind (mk_union (replicate (nat rowcount) (kr_relation keyed))) (\<lambda>copies.
          gsome (create_as env CreateTable copies None)))))"

definition build_key_insert_extras :: build_fn where
  "build_key_insert_extras sub env cs =
     (case key_channel cs of
        None \<Rightarrow> greturn None
      | Some key \<Rightarrow>
          obind (ask sub WantRelation [Some (KeyChannelConstraint key)]) (\<lambda>child.
          gbind (child_name child) (\<lambda>target.
          gbind (mk_select child None None) (\<lambda>query.
          gsome (insert_extras_build child (InsertStep target [] '''' None None (Some query)))))))"

text \<open>The last two steps of the three reducers that collapse in one view and drop the key in another.\<close>

definition drop_key_view ::
  "context_env \<Rightarrow> constraint_set \<Rightarrow> proj_item list \<Rightarrow> eqnode \<Rightarrow> eqnode option gen" where
  "drop_key_view env cs base_items collapsing =
     gbind (create_as env CreateView collapsing None) (\<lambda>collapsed.
     gbind (mk_select collapsed (Some base_items) None) (\<lambda>outer.
     gsome (create_as env CreateView outer (exposed_name cs))))"

definition build_key_distinct :: build_fn where
  "build_key_distinct sub env cs =
     (if passthrough_items env = [] then greturn None
      else if \<not> all_groupable (passthrough_items env) then greturn None
      else obind (build_keyed sub env) (\<lambda>(expansion, base_items, key_name).
           gbind (mk_select_full expansion (Some (int_item key_name # base_items)) None True None None None)
             (drop_key_view env cs base_items)))"

definition build_key_group :: build_fn where
  "build_key_group sub env cs =
     (if passthrough_items env = [] then greturn None
      else obind (build_keyed sub env) (\<lambda>(expansion, base_items, key_name).
           let aggregated = map (\<lambda>it. ProjectionItem (pi_alias it)
                 (any_value (col (pi_alias it) (pi_type it)) (pi_type it)) (pi_type it)) base_items in
           gbind (mk_select_full expansion (Some aggregated) None False (Some [col key_name IntegerType]) None None) (\<lambda>query.
           gsome (create_as env CreateView query (exposed_name cs)))))"

definition build_key_window :: build_fn where
  "build_key_window sub env cs =
     (if passthrough_items env = [] then greturn None
      else if \<not> list_all (\<lambda>it. AGGREGATABLE \<in> get_properties (pi_type it) \<and> GROUPABLE \<in> get_properties (pi_type it))
                 (passthrough_items env) then greturn None
      else obind (build_keyed sub env) (\<lambda>(expansion, base_items, key_name).
           let key_expr = col key_name IntegerType;
               windowed = map (\<lambda>it. ProjectionItem (pi_alias it)
                 (window_over WinMAX (Some (col (pi_alias it) (pi_type it))) [key_expr] (pi_type it) [] None)
                 (pi_type it)) base_items in
           gbind (mk_select_full expansion (Some (int_item key_name # windowed)) None True None None None)
             (drop_key_view env cs base_items)))"

definition build_key_qualify :: build_fn where
  "build_key_qualify sub env cs =
     obind (build_keyed sub env) (\<lambda>(expansion, base_items, key_name).
     let key_expr = col key_name IntegerType;
         rn = window_over WinROW_NUMBER None [key_expr] IntegerType [key_expr] None;
         keep_one = eq rn (int_lit 1) in
     gbind (mk_select_full expansion (Some (int_item key_name # base_items)) None False None (Some keep_one) None)
       (drop_key_view env cs base_items))"


section \<open>factory.py\<close>

definition read_only_supported :: "constraint_type list" where
  "read_only_supported = [RowFilterC, ColumnRewriteC, ExposedNameC]"

definition dml_supported :: "constraint_type list" where
  "dml_supported = [RowFilterC, ColumnRewriteC, AcceptsDmlC, ExposedNameC]"

definition builder_of ::
  "string \<Rightarrow> node_class \<Rightarrow> constraint_type list \<Rightarrow> constraint_type list \<Rightarrow> build_fn \<Rightarrow> builder" where
  "builder_of nm result required supported build =
     \<lparr>b_name = nm, b_result = result, b_required = required, b_supported = supported, b_leaf = False, b_build = build\<rparr>"

definition create_builders :: "builder list" where
  "create_builders =
    [builder_of ''CreateViewBuilder'' (C_CreateFromQuery CreateView) [] read_only_supported (build_create CreateView),
     builder_of ''CreateTableBuilder'' (C_CreateFromQuery CreateTable) [] dml_supported (build_create CreateTable),
     builder_of ''CreateTemporaryViewBuilder'' (C_CreateFromQuery CreateTemporaryView) [] read_only_supported
       (build_create CreateTemporaryView),
     builder_of ''CreateTemporaryTableBuilder'' (C_CreateFromQuery CreateTemporaryTable) [] dml_supported
       (build_create CreateTemporaryTable),
     builder_of ''CreateMaterializedViewBuilder'' (C_CreateFromQuery CreateMaterializedView) [] read_only_supported
       (build_create CreateMaterializedView),
     builder_of ''DeleteReinsertTableBuilder'' C_DeleteReinsertTable [] [AcceptsDmlC, ExposedNameC] build_delete_reinsert,
     builder_of ''NoopUpdateTableBuilder'' C_NoopUpdateTable [] [AcceptsDmlC, ExposedNameC] build_noop_update]"

definition query_builders :: "builder list" where
  "query_builders =
    [builder_of ''SelectStarQueryBuilder'' C_SelectQuery [] [RowFilterC, SingleSourceC] build_select_star,
     builder_of ''ExplicitProjectionQueryBuilder'' C_SelectQuery [] [RowFilterC, SingleSourceC] build_explicit_projection,
     builder_of ''CteQueryBuilder'' C_CteQuery [] [RowFilterC, SingleSourceC] (build_cte ''_cte'' None),
     builder_of ''LateralReprojectQueryBuilder'' C_LateralReprojectQuery [] [] build_lateral,
     builder_of ''MaterializedCteQueryBuilder'' C_CteQuery [] [RowFilterC, SingleSourceC] (build_cte ''_mcte'' (Some True)),
     builder_of ''NotMaterializedCteQueryBuilder'' C_CteQuery [] [RowFilterC, SingleSourceC] (build_cte ''_nmcte'' (Some False)),
     builder_of ''AddDropColumnQueryBuilder'' C_SelectQuery [] [] build_add_drop_column,
     builder_of ''ProjectionQueryBuilder'' C_SelectQuery [ColumnRewriteC] [ColumnRewriteC, RowFilterC, SingleSourceC] build_projection,
     builder_of ''QualifyQueryBuilder'' C_SelectQuery [] [] build_qualify,
     builder_of ''OrderedScanQueryBuilder'' C_SelectQuery [] [] build_ordered_scan,
     builder_of ''PartitionUnionQueryBuilder'' C_UnionAllQuery [] [RowFilterC] build_partition_union,
     builder_of ''TlpPartitionUnionQueryBuilder'' C_UnionAllQuery [] [RowFilterC] build_tlp_union,
     builder_of ''RankModUnionQueryBuilder'' C_UnionAllQuery [] [] build_rank_mod_union,
     builder_of ''UnionEmptyRoundTripBuilder'' C_UnionAllQuery [] [] build_union_empty,
     builder_of ''ExceptEmptyRoundTripBuilder'' C_ExceptAllQuery [] [] build_except_empty,
     builder_of ''IntersectSelfRoundTripBuilder'' C_IntersectAllQuery [] [] build_intersect_self,
     builder_of ''HexCodecRoundTripBuilder'' C_SelectQuery [] [] (build_codec (UniformAssignment HEX)),
     builder_of ''Base64CodecRoundTripBuilder'' C_SelectQuery [] [] (build_codec (UniformAssignment BASE64)),
     builder_of ''JsonPackCodecRoundTripBuilder'' C_SelectQuery [] [] (build_codec (UniformAssignment JSON_PACK)),
     builder_of ''MixedCodecRoundTripBuilder'' C_SelectQuery [] [] (build_codec (PerColumnAssignment [HEX, JSON_PACK])),
     builder_of ''EetCaseColumnQueryBuilder'' C_SelectQuery [] [] build_eet_case,
     builder_of ''EetDeterminedFilterQueryBuilder'' C_SelectQuery [] [RowFilterC, SingleSourceC] build_eet_filter,
     builder_of ''WindowRewriteQueryBuilder'' C_SelectQuery [] [] build_window_rewrite,
     builder_of ''FlagTableJoinQueryBuilder'' C_JoinQuery [] [] build_flag_join,
     builder_of ''SequenceOuterJoinQueryBuilder'' C_JoinQuery [] [] build_sequence_join,
     builder_of ''LeftJoinEmptyQueryBuilder'' C_JoinQuery [] [] build_left_join_empty,
     builder_of ''SemiJoinFlagRoundTripBuilder'' C_JoinQuery [] [] build_semi_join,
     builder_of ''CrossJoinFilterAsInnerBuilder'' C_JoinQuery [] [] build_cross_join,
     builder_of ''DistinctAsGroupByQueryBuilder'' C_SelectQuery [] [] build_distinct_as_group_by,
     builder_of ''DistinctUnionDuplicateQueryBuilder'' C_SelectQuery [] [] build_distinct_union_duplicate]"

definition expansion_builders :: "builder list" where
  "expansion_builders =
    [builder_of ''KeyDistinctReduceBuilder'' (C_CreateFromQuery CreateView) [] [ExposedNameC] build_key_distinct,
     builder_of ''KeyGroupAggregateReduceBuilder'' (C_CreateFromQuery CreateView) [] [ExposedNameC] build_key_group,
     builder_of ''KeyWindowAggregateReduceBuilder'' (C_CreateFromQuery CreateView) [] [ExposedNameC] build_key_window,
     builder_of ''KeyQualifyDedupReduceBuilder'' (C_CreateFromQuery CreateView) [] [ExposedNameC] build_key_qualify,
     builder_of ''KeyExplodeExpansionBuilder'' (C_CreateFromQuery CreateTable) [KeyChannelC] [KeyChannelC, AcceptsDmlC] build_key_explode,
     builder_of ''KeyInsertExtrasExpansionBuilder'' C_InsertExtrasExpansion [KeyChannelC] [KeyChannelC, AcceptsDmlC] build_key_insert_extras,
     builder_of ''TagPruneDeleteReduceBuilder'' C_TagPruneDeleteTable [] [ExposedNameC] build_tag_prune_delete,
     builder_of ''TagPruneFilterReduceBuilder'' (C_CreateFromQuery CreateView) [] [ExposedNameC] build_tag_prune_filter,
     builder_of ''TagExplodeExpansionBuilder'' (C_CreateFromQuery CreateTable) [TagChannelC] [TagChannelC, AcceptsDmlC] build_tag_explode,
     builder_of ''TagInsertExtrasExpansionBuilder'' C_InsertExtrasExpansion [TagChannelC] [TagChannelC, AcceptsDmlC] build_tag_insert_extras]"

definition leaf_builder :: builder where
  "leaf_builder =
     \<lparr>b_name = ''BaseTableSourceBuilder'', b_result = C_BaseTableSource, b_required = [], b_supported = [SingleSourceC],
      b_leaf = True, b_build = build_base_table_source\<rparr>"

definition PORTABLE_BUILDERS :: "builder list" where
  "PORTABLE_BUILDERS = create_builders @ query_builders @ expansion_builders @ [leaf_builder]"

end
