(* ===== verification/Coa_Semantics.thy ===== *)
theory Coa_Semantics
  imports Coa_Rewrites_Keyed
begin

text \<open>
  What the generated queries mean: the abstract specification every rewrite is checked against.

  The engine under test is a parameter, the record \<open>engine\<close>; \<open>engine_ok\<close> states what the SQL
  standard and the engines' documentation promise of it and nothing more.  Everything an engine may
  choose is left to it: the order in which a scan returns rows (and a view is scanned anew by every
  reader, \<open>en_scan\<close> is indexed by the path of readers), the row a tie in \<open>ROW_NUMBER\<close> favours, the
  sign of \<open>MOD\<close>, the value \<open>ANY_VALUE\<close> and the window functions pick, the verdict of a generated predicate.

  A query evaluates to a list of rows, or to \<open>None\<close> where the engine would reject it: an unknown or
  ambiguous column, a window function or an aggregate in the wrong place, \<open>MOD\<close> of something that is
  not a whole number, set operands of different width, a write to something that is not a table.
\<close>


section \<open>Values and engines\<close>

datatype sqlval = SNull | SBool bool | SInt int | SStr string | SDouble nat | SOther string

type_synonym row = "sqlval list"
type_synonym scope = "(string \<times> string) list"

record engine =
  en_pred :: "string \<Rightarrow> (string \<times> sqlval) list \<Rightarrow> bool option"
  en_raw :: "string \<Rightarrow> (string \<times> sqlval) list \<Rightarrow> sqlval"
  en_cmp :: "string \<Rightarrow> sqlval \<Rightarrow> sqlval \<Rightarrow> bool"
  en_mod :: "int \<Rightarrow> int \<Rightarrow> int"
  en_codec :: "value_codec \<Rightarrow> sqlval \<Rightarrow> sqlval"
  en_same :: "sqlval \<Rightarrow> sqlval \<Rightarrow> bool"
  en_agg :: "aggregate_function \<Rightarrow> sqlval list \<Rightarrow> sqlval"
  en_win :: "window_function \<Rightarrow> window_frame option \<Rightarrow> sqlval list list \<Rightarrow> sqlval list \<Rightarrow> nat \<Rightarrow> sqlval"
  en_rank :: "sqlval list list \<Rightarrow> nat list"
  en_scan :: "nat list \<Rightarrow> row list \<Rightarrow> row list"

definition is_dbl :: "sqlval \<Rightarrow> bool" where
  "is_dbl v = (case v of SDouble _ \<Rightarrow> True | _ \<Rightarrow> False)"

text \<open>
  \<^item> \<open>=\<close> and \<open>>=\<close> are exact on integers, and \<open><>\<close> is the negation of \<open>=\<close>;
  \<^item> \<open>MOD\<close> is congruent to its argument, with whichever sign, and non-negative on non-negatives;
  \<^item> the value codecs are lossless on text;
  \<^item> \<open>DISTINCT\<close>, \<open>GROUP BY\<close> and \<open>PARTITION BY\<close> compare with an equivalence that is exact except
    on floating point (\<open>-0.0\<close> and \<open>0.0\<close>);
  \<^item> an aggregate or a window function returns one of the values it was given;
  \<^item> the row numbers of a partition of \<open>n\<close> rows are \<open>1..n\<close>;
  \<^item> a scan returns the stored rows, in any order.
\<close>

definition engine_ok :: "engine \<Rightarrow> bool" where
  "engine_ok E \<longleftrightarrow>
     (\<forall>a b. en_cmp E ''='' (SInt a) (SInt b) \<longleftrightarrow> a = b) \<and>
     (\<forall>a b. en_cmp E ''>='' (SInt a) (SInt b) \<longleftrightarrow> b \<le> a) \<and>
     (\<forall>u v. en_cmp E ''<>'' u v \<longleftrightarrow> \<not> en_cmp E ''='' u v) \<and>
     (\<forall>i n. 0 < n \<longrightarrow> en_mod E i n mod n = i mod n \<and> (0 \<le> i \<longrightarrow> en_mod E i n = i mod n)) \<and>
     (\<forall>c s. en_codec E c (SStr s) = SStr s) \<and>
     equivp (en_same E) \<and>
     (\<forall>u v. \<not> (is_dbl u \<and> is_dbl v) \<longrightarrow> (en_same E u v \<longleftrightarrow> u = v)) \<and>
     (\<forall>f vs. vs \<noteq> [] \<longrightarrow> en_agg E f vs \<in> set vs) \<and>
     (\<forall>f fr ks vs i. f \<noteq> WinROW_NUMBER \<longrightarrow> i < length vs \<longrightarrow> en_win E f fr ks vs i \<in> set vs) \<and>
     (\<forall>ks. mset (en_rank E ks) = mset [1..<Suc (length ks)]) \<and>
     (\<forall>p rows. mset (en_scan E p rows) = mset rows)"


section \<open>Expressions\<close>

text \<open>A column reference resolves to the one scope entry it matches.\<close>

definition resolve :: "scope \<Rightarrow> string option \<Rightarrow> string \<Rightarrow> nat option" where
  "resolve sc q nm =
     (case filter (\<lambda>i. snd (sc ! i) = nm \<and> (q = None \<or> q = Some (fst (sc ! i)))) [0..<length sc] of
        [i] \<Rightarrow> Some i
      | _ \<Rightarrow> None)"

fun sql_not :: "sqlval \<Rightarrow> sqlval option" where
  "sql_not SNull = Some SNull"
| "sql_not (SBool b) = Some (SBool (\<not> b))"
| "sql_not v = None"

fun sql_and :: "sqlval \<Rightarrow> sqlval \<Rightarrow> sqlval option" where
  "sql_and (SBool a) (SBool b) = Some (SBool (a \<and> b))"
| "sql_and SNull (SBool b) = Some (if b then SNull else SBool False)"
| "sql_and (SBool a) SNull = Some (if a then SNull else SBool False)"
| "sql_and SNull SNull = Some SNull"
| "sql_and u v = None"

fun sql_or :: "sqlval \<Rightarrow> sqlval \<Rightarrow> sqlval option" where
  "sql_or (SBool a) (SBool b) = Some (SBool (a \<or> b))"
| "sql_or SNull (SBool b) = Some (if b then SBool True else SNull)"
| "sql_or (SBool a) SNull = Some (if a then SBool True else SNull)"
| "sql_or SNull SNull = Some SNull"
| "sql_or u v = None"

definition sql_cmp :: "engine \<Rightarrow> string \<Rightarrow> sqlval \<Rightarrow> sqlval \<Rightarrow> sqlval" where
  "sql_cmp E op u v = (if u = SNull \<or> v = SNull then SNull else SBool (en_cmp E op u v))"

definition truth_of :: "bool option \<Rightarrow> sqlval" where
  "truth_of b = (case b of None \<Rightarrow> SNull | Some x \<Rightarrow> SBool x)"

definition same_vals :: "engine \<Rightarrow> sqlval list \<Rightarrow> sqlval list \<Rightarrow> bool" where
  "same_vals E us vs \<longleftrightarrow> list_all2 (en_same E) us vs"

definition row_env :: "scope \<Rightarrow> row \<Rightarrow> (string \<times> sqlval) list" where
  "row_env sc r = zip (map snd sc) r"

text \<open>
  \<open>eval E sc rows e i\<close> is the value of \<open>e\<close> on row \<open>i\<close> of \<open>rows\<close>; only a window function looks at
  the other rows.  An aggregate has no value here: it is evaluated per group below.
\<close>

fun eval :: "engine \<Rightarrow> scope \<Rightarrow> row list \<Rightarrow> expr \<Rightarrow> nat \<Rightarrow> sqlval option" where
  "eval E sc rows (ColumnRef nm ty q) i = map_option (\<lambda>k. rows ! i ! k) (resolve sc q nm)"
| "eval E sc rows (IntLiteral v) i = Some (SInt v)"
| "eval E sc rows (BooleanLiteral b) i = Some (SBool b)"
| "eval E sc rows (RawExpr s ty) i = Some (en_raw E s (row_env sc (rows ! i)))"
| "eval E sc rows (TypedNull ty) i = Some SNull"
| "eval E sc rows (GeneratedPredicate s) i = Some (truth_of (en_pred E s (row_env sc (rows ! i))))"
| "eval E sc rows (Comparison op l r) i =
     Option.bind (eval E sc rows l i) (\<lambda>u. map_option (sql_cmp E op u) (eval E sc rows r i))"
| "eval E sc rows (BoolOp op l r) i =
     Option.bind (eval E sc rows l i) (\<lambda>u. Option.bind (eval E sc rows r i) (\<lambda>v.
       if op = ''AND'' then sql_and u v else if op = ''OR'' then sql_or u v else None))"
| "eval E sc rows (NotE e) i = Option.bind (eval E sc rows e i) sql_not"
| "eval E sc rows (IsNull e n) i = map_option (\<lambda>v. SBool ((v = SNull) \<noteq> n)) (eval E sc rows e i)"
| "eval E sc rows (Mod e n) i =
     Option.bind (eval E sc rows e i) (\<lambda>v. case v of
       SNull \<Rightarrow> Some SNull | SInt k \<Rightarrow> Some (SInt (en_mod E k n)) | _ \<Rightarrow> None)"
| "eval E sc rows (Case c t e ty) i =
     Option.bind (eval E sc rows c i) (\<lambda>v.
       if v = SBool True then eval E sc rows t i
       else if v = SBool False \<or> v = SNull then eval E sc rows e i else None)"
| "eval E sc rows (AggregateCall f a ty) i = None"
| "eval E sc rows (ValueCodecRoundTrip c a ty) i =
     map_option (\<lambda>v. if v = SNull then SNull else en_codec E c v) (eval E sc rows a i)"
| "eval E sc rows (WindowCall f arg pb ob fr ty) i =
     Option.bind (those (map (\<lambda>j. those (map (\<lambda>k. eval E sc rows k j) pb)) [0..<length rows])) (\<lambda>pk.
     Option.bind (those (map (\<lambda>j. those (map (\<lambda>k. eval E sc rows k j) ob)) [0..<length rows])) (\<lambda>okeys.
     let part = filter (\<lambda>j. same_vals E (pk ! i) (pk ! j)) [0..<length rows];
         pos = length (filter (\<lambda>j. j < i) part)
     in if f = WinROW_NUMBER then Some (SInt (int (en_rank E (map (\<lambda>j. okeys ! j) part) ! pos)))
        else case arg of
               None \<Rightarrow> None
             | Some a \<Rightarrow>
                 map_option (\<lambda>vs. en_win E f fr (map (\<lambda>j. okeys ! j) part) (map (\<lambda>j. vs ! j) part) pos)
                   (those (map (\<lambda>j. eval E sc rows a j) [0..<length rows]))))"

text \<open>Row-local expressions: no window function, no aggregate.\<close>

fun scalar :: "expr \<Rightarrow> bool" where
  "scalar (Comparison op l r) = (scalar l \<and> scalar r)"
| "scalar (BoolOp op l r) = (scalar l \<and> scalar r)"
| "scalar (NotE e) = scalar e"
| "scalar (IsNull e n) = scalar e"
| "scalar (Mod e n) = scalar e"
| "scalar (Case c t e ty) = (scalar c \<and> scalar t \<and> scalar e)"
| "scalar (AggregateCall f a ty) = False"
| "scalar (ValueCodecRoundTrip c a ty) = scalar a"
| "scalar (WindowCall f arg pb ob fr ty) = False"
| "scalar e = True"

definition eval_row :: "engine \<Rightarrow> scope \<Rightarrow> row \<Rightarrow> expr \<Rightarrow> sqlval option" where
  "eval_row E sc r e = eval E sc [r] e 0"

lemma eval_scalar: "scalar e \<Longrightarrow> eval E sc rows e i = eval_row E sc (rows ! i) e"
  by (induction e) (simp_all add: eval_row_def cong: if_cong)

text \<open>A condition keeps a row when it is true, and is rejected when it is not a truth value.\<close>

fun accepts :: "sqlval \<Rightarrow> bool option" where
  "accepts SNull = Some False"
| "accepts (SBool b) = Some b"
| "accepts v = None"

definition condition :: "engine \<Rightarrow> scope \<Rightarrow> expr \<Rightarrow> row \<Rightarrow> bool option" where
  "condition E sc e r = (if scalar e then Option.bind (eval_row E sc r e) accepts else None)"


section \<open>Clauses\<close>

definition map_opt :: "('a \<Rightarrow> 'b option) \<Rightarrow> 'a list \<Rightarrow> 'b list option" where
  "map_opt f xs = those (map f xs)"

text \<open>\<open>keep_where\<close> keeps the rows a list of verdicts accepts.\<close>

definition keep_where :: "bool list \<Rightarrow> 'a list \<Rightarrow> 'a list" where
  "keep_where bs xs = map fst (filter snd (zip xs bs))"

definition where_rows :: "engine \<Rightarrow> scope \<Rightarrow> expr option \<Rightarrow> row list \<Rightarrow> row list option" where
  "where_rows E sc w rows =
     (case w of None \<Rightarrow> Some rows
      | Some e \<Rightarrow> map_option (\<lambda>bs. keep_where bs rows) (map_opt (condition E sc e) rows))"

definition project_rows :: "engine \<Rightarrow> scope \<Rightarrow> proj_item list \<Rightarrow> row list \<Rightarrow> row list option" where
  "project_rows E sc items rows =
     map_opt (\<lambda>i. map_opt (\<lambda>it. eval E sc rows (pi_expr it) i) items) [0..<length rows]"

text \<open>The first row of each class of rows that count as the same.\<close>

fun distinct_rows :: "engine \<Rightarrow> row list \<Rightarrow> row list" where
  "distinct_rows E [] = []"
| "distinct_rows E (r # rs) = r # filter (\<lambda>s. \<not> same_vals E r s) (distinct_rows E rs)"

fun group_indices :: "engine \<Rightarrow> sqlval list list \<Rightarrow> nat list \<Rightarrow> nat list list" where
  "group_indices E keys [] = []"
| "group_indices E keys (i # is) =
     (i # filter (\<lambda>j. same_vals E (keys ! i) (keys ! j)) is)
     # group_indices E keys (filter (\<lambda>j. \<not> same_vals E (keys ! i) (keys ! j)) is)"

text \<open>A grouped item is an aggregate over the group, or one of the keys.\<close>

definition group_item :: "engine \<Rightarrow> scope \<Rightarrow> row list \<Rightarrow> expr list \<Rightarrow> nat list \<Rightarrow> expr \<Rightarrow> sqlval option" where
  "group_item E sc rows keys members e =
     (case e of
        AggregateCall f a ty \<Rightarrow> map_option (en_agg E f) (map_opt (eval E sc rows a) members)
      | _ \<Rightarrow> if e \<in> set keys then eval E sc rows e (hd members) else None)"

definition group_rows :: "engine \<Rightarrow> scope \<Rightarrow> proj_item list \<Rightarrow> expr list \<Rightarrow> row list \<Rightarrow> row list option" where
  "group_rows E sc items keys rows =
     Option.bind (map_opt (\<lambda>i. map_opt (\<lambda>k. eval E sc rows k i) keys) [0..<length rows]) (\<lambda>vals.
     map_opt (\<lambda>members. map_opt (\<lambda>it. group_item E sc rows keys members (pi_expr it)) items)
       (group_indices E vals [0..<length rows]))"

text \<open>\<open>QUALIFY\<close> sees the rows of the \<open>FROM\<close>, window functions included.\<close>

definition qualify_rows :: "engine \<Rightarrow> scope \<Rightarrow> expr option \<Rightarrow> row list \<Rightarrow> row list \<Rightarrow> row list option" where
  "qualify_rows E sc q rows out =
     (case q of None \<Rightarrow> Some out
      | Some e \<Rightarrow> map_option (\<lambda>bs. keep_where bs out)
                  (map_opt (\<lambda>i. Option.bind (eval E sc rows e i) accepts) [0..<length rows]))"

definition select_rows ::
  "engine \<Rightarrow> scope \<Rightarrow> row list \<Rightarrow> proj_item list option \<Rightarrow> expr option \<Rightarrow> bool \<Rightarrow> expr list option
     \<Rightarrow> expr option \<Rightarrow> expr list option \<Rightarrow> row list option" where
  "select_rows E sc src projection w is_distinct group_by qualify order_by =
     Option.bind (where_rows E sc w src) (\<lambda>rows.
     Option.bind (case group_by of
         Some keys \<Rightarrow> (case projection of
             Some items \<Rightarrow> if qualify = None then group_rows E sc items keys rows else None
           | None \<Rightarrow> None)
       | None \<Rightarrow> Option.bind
           (case projection of Some items \<Rightarrow> project_rows E sc items rows | None \<Rightarrow> Some rows)
           (qualify_rows E sc qualify rows)) (\<lambda>out.
     Option.bind (case order_by of
         None \<Rightarrow> Some []
       | Some keys \<Rightarrow> map_opt (\<lambda>i. map_opt (\<lambda>k. eval E sc rows k i) keys) [0..<length rows]) (\<lambda>_.
     Some (if is_distinct then distinct_rows E out else out))))"


section \<open>Joins\<close>

definition nulls :: "nat \<Rightarrow> row" where
  "nulls n = replicate n SNull"

definition left_padded :: "(row \<Rightarrow> row \<Rightarrow> bool) \<Rightarrow> nat \<Rightarrow> row list \<Rightarrow> row list \<Rightarrow> row list" where
  "left_padded m width L R =
     concat (map (\<lambda>l. case filter (m l) R of [] \<Rightarrow> [l @ nulls width] | rs \<Rightarrow> map (append l) rs) L)"

definition right_padded :: "(row \<Rightarrow> row \<Rightarrow> bool) \<Rightarrow> nat \<Rightarrow> row list \<Rightarrow> row list \<Rightarrow> row list" where
  "right_padded m width L R =
     concat (map (\<lambda>r. case filter (\<lambda>l. m l r) L of [] \<Rightarrow> [nulls width @ r] | ls \<Rightarrow> map (\<lambda>l. l @ r) ls) R)"

definition matching :: "(row \<Rightarrow> row \<Rightarrow> bool) \<Rightarrow> row list \<Rightarrow> row list \<Rightarrow> row list" where
  "matching m L R = concat (map (\<lambda>l. map (append l) (filter (m l) R)) L)"

definition join_rows ::
  "string \<Rightarrow> (row \<Rightarrow> row \<Rightarrow> bool) \<Rightarrow> nat \<Rightarrow> nat \<Rightarrow> row list \<Rightarrow> row list \<Rightarrow> row list option" where
  "join_rows jt m lwidth rwidth L R =
     (if jt = ''INNER'' then Some (matching m L R)
      else if jt = ''LEFT OUTER'' then Some (left_padded m rwidth L R)
      else if jt = ''RIGHT OUTER'' then Some (right_padded m lwidth L R)
      else if jt = ''FULL OUTER'' then
        Some (left_padded m rwidth L R
              @ map (\<lambda>r. nulls lwidth @ r) (filter (\<lambda>r. \<forall>l \<in> set L. \<not> m l r) R))
      else if jt = ''CROSS'' then Some (matching (\<lambda>l r. True) L R)
      else if jt = ''SEMI'' then Some (filter (\<lambda>l. \<exists>r \<in> set R. m l r) L)
      else if jt = ''ANTI'' then Some (filter (\<lambda>l. \<forall>r \<in> set R. \<not> m l r) L)
      else None)"

definition one_sided :: "string \<Rightarrow> bool" where
  "one_sided jt \<longleftrightarrow> jt = ''SEMI'' \<or> jt = ''ANTI''"

text \<open>The \<open>ON\<close> condition over a pair of rows; a \<open>CROSS\<close> join has none, every other join needs one.\<close>

definition on_verdicts ::
  "engine \<Rightarrow> scope \<Rightarrow> string \<Rightarrow> expr option \<Rightarrow> row list \<Rightarrow> row list \<Rightarrow> (row \<Rightarrow> row \<Rightarrow> bool) option" where
  "on_verdicts E sc jt cond L R =
     (if jt = ''CROSS'' then Some (\<lambda>l r. True)
      else case cond of
        None \<Rightarrow> None
      | Some e \<Rightarrow>
          if list_all (\<lambda>l. list_all (\<lambda>r. condition E sc e (l @ r) \<noteq> None) R) L
          then Some (\<lambda>l r. condition E sc e (l @ r) = Some True) else None)"

definition join_query_rows ::
  "engine \<Rightarrow> string list \<Rightarrow> string list \<Rightarrow> row list \<Rightarrow> row list \<Rightarrow> expr option \<Rightarrow> string \<Rightarrow> proj_item list
     \<Rightarrow> string \<Rightarrow> string \<Rightarrow> expr option \<Rightarrow> row list option" where
  "join_query_rows E lnames rnames L R cond jt projection la ra w =
     (let sc = map (Pair la) lnames @ map (Pair ra) rnames;
          out_sc = (if one_sided jt then map (Pair la) lnames else sc)
      in Option.bind (on_verdicts E sc jt cond L R) (\<lambda>m.
         Option.bind (join_rows jt m (length lnames) (length rnames) L R) (\<lambda>rows.
         Option.bind (where_rows E out_sc w rows) (\<lambda>kept.
         project_rows E out_sc projection kept))))"


section \<open>Set operations\<close>

text \<open>Each right row cancels (or licenses) one left row it counts as the same as.\<close>

fun take_match :: "engine \<Rightarrow> row \<Rightarrow> row list \<Rightarrow> row list option" where
  "take_match E l [] = None"
| "take_match E l (r # rs) = (if same_vals E l r then Some rs else map_option (Cons r) (take_match E l rs))"

fun except_all :: "engine \<Rightarrow> row list \<Rightarrow> row list \<Rightarrow> row list" where
  "except_all E [] R = []"
| "except_all E (l # L) R =
     (case take_match E l R of None \<Rightarrow> l # except_all E L R | Some R' \<Rightarrow> except_all E L R')"

fun intersect_all :: "engine \<Rightarrow> row list \<Rightarrow> row list \<Rightarrow> row list" where
  "intersect_all E [] R = []"
| "intersect_all E (l # L) R =
     (case take_match E l R of None \<Rightarrow> intersect_all E L R | Some R' \<Rightarrow> l # intersect_all E L R')"


section \<open>Writes\<close>

definition delete_rows :: "engine \<Rightarrow> scope \<Rightarrow> expr option \<Rightarrow> row list \<Rightarrow> row list option" where
  "delete_rows E sc w rows =
     (case w of None \<Rightarrow> Some []
      | Some e \<Rightarrow> map_option (\<lambda>bs. keep_where (map Not bs) rows) (map_opt (condition E sc e) rows))"

definition position :: "string list \<Rightarrow> string \<Rightarrow> nat option" where
  "position names nm = resolve (map (Pair []) names) None nm"

text \<open>\<open>INSERT INTO \<dots> SELECT c1, \<dots> FROM base [WHERE p]\<close>.\<close>

definition reinsert_rows :: "engine \<Rightarrow> string list \<Rightarrow> string list \<Rightarrow> expr option \<Rightarrow> row list \<Rightarrow> row list option" where
  "reinsert_rows E columns base_names w rows =
     Option.bind (where_rows E (map (Pair []) base_names) w rows) (\<lambda>kept.
     Option.bind (map_opt (position base_names) columns) (\<lambda>ks.
     Some (map (\<lambda>r. map (\<lambda>k. r ! k) ks) kept)))"

definition assign_row :: "engine \<Rightarrow> string list \<Rightarrow> (string \<times> expr) list \<Rightarrow> row \<Rightarrow> row option" where
  "assign_row E names assignments r =
     map_option (\<lambda>updates. fold (\<lambda>(k, v) acc. acc[k := v]) updates r)
       (map_opt (\<lambda>(nm, e). Option.bind (position names nm) (\<lambda>k.
          map_option (Pair k) (if scalar e then eval_row E (map (Pair []) names) r e else None))) assignments)"

definition update_rows ::
  "engine \<Rightarrow> string list \<Rightarrow> (string \<times> expr) list \<Rightarrow> expr option \<Rightarrow> row list \<Rightarrow> row list option" where
  "update_rows E names assignments w rows =
     map_opt (\<lambda>r. Option.bind
       (case w of None \<Rightarrow> Some True | Some e \<Rightarrow> condition E (map (Pair []) names) e r) (\<lambda>hit.
       if hit then assign_row E names assignments r else Some r)) rows"


section \<open>Nodes\<close>

definition names_of :: "eqnode \<Rightarrow> string list" where
  "names_of n = map fst (get_signature n)"

definition scope_of :: "eqnode \<Rightarrow> scope" where
  "scope_of n = map (Pair []) (names_of n)"

definition stored_class :: "create_class \<Rightarrow> bool" where
  "stored_class c \<longleftrightarrow> c \<in> {CreateMaterializedView, CreateTable, CreateTemporaryTable, CreateUnloggedTable}"

definition table_class :: "create_class \<Rightarrow> bool" where
  "table_class c \<longleftrightarrow> c \<in> {CreateTable, CreateTemporaryTable, CreateUnloggedTable}"

text \<open>What a \<open>DELETE\<close>, \<open>INSERT\<close> or \<open>UPDATE\<close> may name: a table, whose rows are written down once.\<close>

fun writable :: "eqnode \<Rightarrow> bool" where
  "writable (CreateFromQuery i c q st e) = table_class c"
| "writable (DeleteReinsertTable i q t p st e) = True"
| "writable (NoopUpdateTable i q a p st e) = True"
| "writable (InsertExtrasExpansion i c st e) = writable c"
| "writable n = False"

fun insert_query :: "setup_step list \<Rightarrow> eqnode option" where
  "insert_query [InsertStep target cols ref pred clist q] = q"
| "insert_query st = None"

text \<open>The view of a pruned table reads the table through its own query.\<close>

fun reader_path :: "setup_step list \<Rightarrow> nat list \<Rightarrow> nat list" where
  "reader_path [DeleteStep target pred, ViewObject nm k (Some q) d] path = node_id q # path"
| "reader_path st path = path"

lemma insert_query_size: "insert_query st = Some q \<Longrightarrow> size q < Suc (size_list size st)"
  by (induction st rule: insert_query.induct) auto

text \<open>
  \<open>den E B path n\<close>: the rows of node \<open>n\<close> over base rows \<open>B\<close>, read along \<open>path\<close>, the identities
  of the nodes reading it.  A view's query runs once per reader, so the path grows through it; a
  table, or a materialized view, is filled once, so its path starts over at its own identity.
\<close>

function (sequential) den :: "engine \<Rightarrow> row list \<Rightarrow> nat list \<Rightarrow> eqnode \<Rightarrow> row list option" where
  "den E B path (BaseTableSource i t) = Some B"
| "den E B path (SelectQuery i s projection w is_distinct group_by qualify order_by) =
     Option.bind (den E B (i # path) s) (\<lambda>rows.
     select_rows E (scope_of s) (en_scan E (i # path) rows) projection w is_distinct group_by qualify order_by)"
| "den E B path (UnionAllQuery i bs) =
     (if list_all (\<lambda>b. length (names_of b) = length (names_of (hd bs))) bs
      then map_option concat (those (map (\<lambda>(k, b).
             map_option (en_scan E (k # i # path)) (den E B (k # i # path) b)) (zip [0..<length bs] bs)))
      else None)"
| "den E B path (ExceptAllQuery i l r) =
     (if length (names_of l) = length (names_of r) then
        Option.bind (den E B (0 # i # path) l) (\<lambda>L. Option.bind (den E B (1 # i # path) r) (\<lambda>R.
        Some (except_all E (en_scan E (0 # i # path) L) (en_scan E (1 # i # path) R))))
      else None)"
| "den E B path (IntersectAllQuery i l r) =
     (if length (names_of l) = length (names_of r) then
        Option.bind (den E B (0 # i # path) l) (\<lambda>L. Option.bind (den E B (1 # i # path) r) (\<lambda>R.
        Some (intersect_all E (en_scan E (0 # i # path) L) (en_scan E (1 # i # path) R))))
      else None)"
| "den E B path (JoinQuery i l r cond join_type projection la ra w) =
     Option.bind (den E B (0 # i # path) l) (\<lambda>L. Option.bind (den E B (1 # i # path) r) (\<lambda>R.
     join_query_rows E (names_of l) (names_of r) (en_scan E (0 # i # path) L) (en_scan E (1 # i # path) R)
       cond join_type projection la ra w))"
| "den E B path (CteQuery i s nm w materialize) =
     Option.bind (den E B (i # path) s) (\<lambda>rows. where_rows E (scope_of s) w (en_scan E (i # path) rows))"
| "den E B path (LateralReprojectQuery i s sa la) =
     Option.bind (den E B (i # path) s) (\<lambda>rows.
     Option.bind (map_opt (\<lambda>nm. resolve (map (Pair sa) (names_of s)) (Some sa) nm) (names_of s)) (\<lambda>ks.
     Some (map (\<lambda>r. map (\<lambda>k. r ! k) ks) (en_scan E (i # path) rows))))"
| "den E B path (CreateFromQuery i c q st e) = den E B (if stored_class c then [i] else i # path) q"
| "den E B path (DeleteReinsertTable i q t p st e) =
     Option.bind (den E B [i] q) (\<lambda>rows.
     Option.bind (delete_rows E (scope_of q) p rows) (\<lambda>kept.
     map_option (append kept) (reinsert_rows E (names_of q) (column_names t) p (en_scan E [i] B))))"
| "den E B path (NoopUpdateTable i q assignments p st e) =
     Option.bind (den E B [i] q) (update_rows E (names_of q) assignments p)"
| "den E B path (TagPruneDeleteTable i c items tag keep st e) =
     (if writable c then
        Option.bind (den E B (i # path) c) (\<lambda>rows.
        Option.bind (delete_rows E (scope_of c) (Some (ne (col tag IntegerType) (int_lit keep))) rows) (\<lambda>kept.
        project_rows E (scope_of c) items (en_scan E (reader_path st (i # path)) kept)))
      else None)"
| "den E B path (InsertExtrasExpansion i c st e) =
     (case insert_query st of
        None \<Rightarrow> None
      | Some q \<Rightarrow>
          if writable c \<and> length (names_of q) = length (names_of c) then
            Option.bind (den E B [i] c) (\<lambda>rows. map_option (append rows) (den E B [i] q))
          else None)"
  by pat_completeness auto
termination
  by (relation "measure (\<lambda>(E, B, path, n). size n)")
    (auto dest!: set_zip_rightD insert_query_size simp: less_Suc_eq_le size_list_estimation')

text \<open>A table has the same rows for every reader.\<close>

lemma writable_once: "writable n \<Longrightarrow> den E B p n = den E B p' n"
  by (induction n rule: writable.induct) (auto simp: table_class_def stored_class_def split: option.split)

end
