(* ===== verification/Coa_Contract.thy ===== *)
theory Coa_Contract
  imports Coa_Semantics
begin

text \<open>
  What a request promises and what a child must deliver.

  \<^item> \<open>env_ok\<close>: the tables, configurations and plugins the generator is used with;
  \<^item> \<open>request_ok\<close>: the constraint sets the rewrites ask for;
  \<^item> \<open>post\<close>: the contract of a returned node, over every engine and every base rows: its signature,
    what it can be written to, the name it took, the shape of its setup steps, and its rows;
  \<^item> one rule per primitive of the generator monad, so that a builder's proof is a walk down its code;
  \<^item> the locale \<open>subtree_provider\<close>: the interface a builder sees of the factory.
\<close>


section \<open>Lists of options\<close>

lemma map_opt_Nil [simp]: "map_opt f [] = Some []"
  by (simp add: map_opt_def)

lemma map_opt_Cons [simp]:
  "map_opt f (x # xs) = Option.bind (f x) (\<lambda>y. map_option (Cons y) (map_opt f xs))"
  by (cases "f x") (simp_all add: map_opt_def)

lemma map_opt_total: "(\<And>x. x \<in> set xs \<Longrightarrow> f x = Some (g x)) \<Longrightarrow> map_opt f xs = Some (map g xs)"
  by (induction xs) auto

lemma map_opt_Some: "map_opt f xs = Some ys \<longleftrightarrow> list_all2 (\<lambda>x y. f x = Some y) xs ys"
proof (induction xs arbitrary: ys)
  case (Cons x xs)
  then show ?case by (cases ys) (auto simp: bind_eq_Some_conv)
qed auto

lemma map_opt_length: "map_opt f xs = Some ys \<Longrightarrow> length ys = length xs"
  by (auto simp: map_opt_Some dest: list_all2_lengthD)

lemma map_opt_cong [fundef_cong]:
  "xs = ys \<Longrightarrow> (\<And>x. x \<in> set ys \<Longrightarrow> f x = g x) \<Longrightarrow> map_opt f xs = map_opt g ys"
  by (simp add: map_opt_def cong: map_cong)

lemma map_opt_append: "map_opt f (xs @ ys) =
    Option.bind (map_opt f xs) (\<lambda>us. map_option (append us) (map_opt f ys))"
proof (induction xs)
  case Nil
  then show ?case by (cases "map_opt f ys") auto
next
  case (Cons x xs)
  then show ?case by (cases "f x"; cases "map_opt f xs"; cases "map_opt f ys") auto
qed

lemma those_map_opt: "those (map f xs) = map_opt f xs"
  by (simp add: map_opt_def)

lemma keep_where_filter: "keep_where (map p xs) xs = filter p xs"
  by (induction xs) (auto simp: keep_where_def)

lemma map_opt_index: "map_opt (\<lambda>i. f (xs ! i)) [0..<length xs] = map_opt f xs"
proof -
  have "map (\<lambda>i. f (xs ! i)) [0..<length xs] = map f xs" by (rule nth_equalityI) auto
  then show ?thesis by (simp add: map_opt_def)
qed


section \<open>Typed rows\<close>

definition value_ok :: "sql_type \<Rightarrow> sqlval \<Rightarrow> bool" where
  "value_ok ty v \<longleftrightarrow>
     (integer_keyed ty \<longrightarrow> v = SNull \<or> (\<exists>i. v = SInt i)) \<and>
     (is_varchar ty \<longrightarrow> v = SNull \<or> (\<exists>s. v = SStr s)) \<and>
     (is_dbl v \<longrightarrow> is_double ty)"

definition row_ok :: "table \<Rightarrow> row \<Rightarrow> bool" where
  "row_ok t r \<longleftrightarrow> list_all2 (\<lambda>c v. value_ok (col_type c) v) (tab_columns t) r"

lemma row_ok_length: "row_ok t r \<Longrightarrow> length r = length (tab_columns t)"
  by (auto simp: row_ok_def dest: list_all2_lengthD)

lemma row_ok_value: "row_ok t r \<Longrightarrow> k < length (tab_columns t) \<Longrightarrow> value_ok (col_type (tab_columns t ! k)) (r ! k)"
  by (auto simp: row_ok_def list_all2_conv_all_nth)

abbreviation base_scope :: "table \<Rightarrow> scope" where
  "base_scope t \<equiv> map (Pair []) (column_names t)"

definition base_rows_ok :: "table \<Rightarrow> row list \<Rightarrow> bool" where
  "base_rows_ok t B \<longleftrightarrow> (\<forall>r \<in> set B. row_ok t r)"

lemma base_rows_perm: "base_rows_ok t B \<Longrightarrow> mset rows = mset B \<Longrightarrow> base_rows_ok t rows"
  by (metis base_rows_ok_def set_mset_mset)

text \<open>A predicate over the base columns: row-local, and a truth value on every typed row.\<close>

definition pred_ok :: "table \<Rightarrow> expr \<Rightarrow> bool" where
  "pred_ok t e \<longleftrightarrow>
     scalar e \<and> (\<forall>E r. engine_ok E \<longrightarrow> row_ok t r \<longrightarrow> condition E (base_scope t) e r \<noteq> None)"

text \<open>A projection over the base columns that every engine can evaluate on any typed rows.\<close>

definition items_ok :: "table \<Rightarrow> proj_item list \<Rightarrow> bool" where
  "items_ok t items \<longleftrightarrow>
     (\<forall>E rows. engine_ok E \<longrightarrow> base_rows_ok t rows \<longrightarrow> project_rows E (base_scope t) items rows \<noteq> None)"


section \<open>Environments\<close>

definition options_ok :: "'a choices \<Rightarrow> bool" where
  "options_ok opts \<longleftrightarrow> (\<forall>p \<in> set opts. 0 \<le> snd p) \<and> 0 < sum_list (map snd opts)"

definition config_ok :: "eq_config \<Rightarrow> bool" where
  "config_ok cfg \<longleftrightarrow>
     options_ok (key_selection_weights cfg) \<and> options_ok (join_type_weights cfg) \<and>
     options_ok (window_function_weights cfg) \<and> options_ok (window_frame_weights cfg) \<and>
     options_ok (big_table_rowcount_weights cfg) \<and>
     (\<forall>(n, w) \<in> set (big_table_rowcount_weights cfg). 0 < w \<longrightarrow> 2 \<le> n)"

definition source_ok :: "table \<Rightarrow> predicate_source \<Rightarrow> bool" where
  "source_ok t src \<longleftrightarrow> (\<forall>seed txt. boolean_predicate src t seed = Some txt \<longrightarrow> txt \<noteq> [] \<longrightarrow> nonblank txt)"

definition env_ok :: "context_env \<Rightarrow> bool" where
  "env_ok env \<longleftrightarrow>
     table_ok (base_table env) \<and> config_ok (config env) \<and>
     (\<forall>src. the_predicate_source env = Some src \<longrightarrow> source_ok (base_table env) src)"


section \<open>Requests\<close>

definition request_ok :: "table \<Rightarrow> constraint_set \<Rightarrow> bool" where
  "request_ok t cs \<longleftrightarrow>
     (\<forall>p. current_filter cs = Some p \<longrightarrow> pred_ok t p) \<and>
     (\<forall>items. column_rewrite cs = Some items \<longrightarrow> items_ok t items) \<and>
     (\<forall>c k. tag_channel cs = Some (c, k) \<longrightarrow> c \<notin> set (column_names t) \<and> k \<noteq> throwaway_mark) \<and>
     (\<forall>ks. key_channel cs = Some ks \<longrightarrow> key_column ks \<notin> set (column_names t)) \<and>
     (column_rewrite cs \<noteq> None \<longrightarrow> tag_channel cs = None \<and> key_channel cs = None) \<and>
     exposed_name cs \<noteq> Some [] \<and>
     distinct (constraint_types cs)"

text \<open>The base rows the request's filter leaves.\<close>

definition wanted :: "engine \<Rightarrow> table \<Rightarrow> constraint_set \<Rightarrow> row list \<Rightarrow> row list" where
  "wanted E t cs B =
     (case current_filter cs of None \<Rightarrow> B
      | Some e \<Rightarrow> filter (\<lambda>r. condition E (base_scope t) e r = Some True) B)"


section \<open>The contract of a node\<close>

text \<open>Rows with a key: each base row once, followed by a positive number no other row has.\<close>

definition keyed_rows :: "row list \<Rightarrow> row list \<Rightarrow> bool" where
  "keyed_rows B rows \<longleftrightarrow>
     mset (map butlast rows) = mset B \<and> distinct (map last rows) \<and>
     (\<forall>r \<in> set rows. \<exists>b k. r = b @ [SInt k] \<and> 0 < k)"

text \<open>Rows with a mark: those marked to keep are the base rows.\<close>

definition tagged_rows :: "int \<Rightarrow> row list \<Rightarrow> row list \<Rightarrow> bool" where
  "tagged_rows keep B rows \<longleftrightarrow>
     mset (map butlast (filter (\<lambda>r. last r = SInt keep) rows)) = mset B \<and>
     (\<forall>r \<in> set rows. \<exists>b k. r = b @ [SInt k] \<and> b \<in> set B)"

definition expected_signature :: "table \<Rightarrow> constraint_set \<Rightarrow> signature" where
  "expected_signature t cs =
     (case tag_channel cs of
        Some (c, k) \<Rightarrow> table_signature t @ [(c, IntegerType)]
      | None \<Rightarrow> (case key_channel cs of
          Some ks \<Rightarrow> table_signature t @ [(key_column ks, IntegerType)]
        | None \<Rightarrow> (case column_rewrite cs of
            Some items \<Rightarrow> item_signature items
          | None \<Rightarrow> table_signature t)))"

text \<open>Rows for a request without a channel: the wanted base rows, or their projection on the requested items.\<close>

definition fills :: "engine \<Rightarrow> table \<Rightarrow> constraint_set \<Rightarrow> row list \<Rightarrow> row list \<Rightarrow> bool" where
  "fills E t cs B rows \<longleftrightarrow>
     (case column_rewrite cs of
        None \<Rightarrow> mset rows = mset (wanted E t cs B)
      | Some items \<Rightarrow> \<exists>src out. mset src = mset (wanted E t cs B) \<and>
                        project_rows E (base_scope t) items src = Some out \<and> mset rows = mset out)"

lemma fills_perm: "fills E t cs B rows \<Longrightarrow> mset rows' = mset rows \<Longrightarrow> fills E t cs B rows'"
  by (simp add: fills_def split: option.splits)

definition content :: "table \<Rightarrow> constraint_set \<Rightarrow> eqnode \<Rightarrow> engine \<Rightarrow> row list \<Rightarrow> bool" where
  "content t cs n E B \<longleftrightarrow>
     (\<forall>path. \<exists>rows. den E B path n = Some rows \<and>
        (case tag_channel cs of
           Some (c, k) \<Rightarrow> tagged_rows k B rows
         | None \<Rightarrow> (case key_channel cs of
             Some ks \<Rightarrow> \<exists>core. keyed_rows B core \<and> set rows = set core
           | None \<Rightarrow> fills E t cs B rows)))"

text \<open>The steps a relation carries say what its fields say.\<close>

fun shaped :: "eqnode \<Rightarrow> bool" where
  "shaped (CreateFromQuery i c q st e) =
     (\<exists>nm. e = created_object nm (create_keyword c) q \<and> st = [e])"
| "shaped (DeleteReinsertTable i q t p st e) =
     (\<exists>nm. e = TableObject nm ''TABLE'' (Some q) '''' \<and>
        st = [e, DeleteStep nm p, InsertStep nm (names_of q) (get_sql_name t True) p None None])"
| "shaped (NoopUpdateTable i q assignments p st e) =
     (\<exists>nm. e = TableObject nm ''TABLE'' (Some q) '''' \<and> st = [e, UpdateStep nm assignments p])"
| "shaped (TagPruneDeleteTable i c items tag keep st e) =
     (\<exists>nm target j. materialized_name c = Some target \<and>
        e = ViewObject nm ''VIEW'' (Some (plain_select j c (Some items) None)) '''' \<and>
        st = [DeleteStep target (Some (ne (col tag IntegerType) (int_lit keep))), e])"
| "shaped (InsertExtrasExpansion i c st e) =
     (\<exists>target j projection w. materialized_name c = Some target \<and> exposed_of c = Some e \<and>
        st = [InsertStep target [] '''' None None (Some (plain_select j c projection w))])"
| "shaped n = True"

function well_formed :: "eqnode \<Rightarrow> bool" where
  "well_formed n = (shaped n \<and> (\<forall>c \<in> set (children n). well_formed c))"
  by pat_completeness auto
termination
  by (relation "measure size") (auto dest: children_size)

declare well_formed.simps [simp del]

definition named_ok :: "constraint_set \<Rightarrow> eqnode \<Rightarrow> bool" where
  "named_ok cs n \<longleftrightarrow>
     (is_relation n \<longrightarrow> materialized_name n \<noteq> None \<and>
        (\<forall>nm. exposed_name cs = Some nm \<longrightarrow> materialized_name n = Some nm))"

definition post :: "table \<Rightarrow> constraint_set \<Rightarrow> eqnode \<Rightarrow> bool" where
  "post t cs n \<longleftrightarrow>
     get_signature n = expected_signature t cs \<and>
     (AcceptsDmlC \<in> set (constraint_types cs) \<or> tag_channel cs \<noteq> None \<or> key_channel cs \<noteq> None \<longrightarrow> writable n) \<and>
     named_ok cs n \<and> well_formed n \<and>
     (\<forall>E B. engine_ok E \<longrightarrow> base_rows_ok t B \<longrightarrow> content t cs n E B)"

text \<open>The contract includes what \<open>_run_builder\<close> checks.\<close>

lemma payload_in_set:
  "distinct (constraint_types cs) \<Longrightarrow> c \<in> set cs \<Longrightarrow> get_optional_constraint cs (type_of_constraint c) = Some c"
proof (induction cs)
  case (Cons d cs)
  then show ?case
    by (auto simp: get_optional_constraint_def constraint_types_def image_iff)
qed simp

lemma post_meets:
  assumes "post t cs n" "request_ok t cs"
  shows "list_all (\<lambda>c. meets_constraint c n) cs"
  unfolding list_all_iff
proof
  fix c
  assume c: "c \<in> set cs"
  have "distinct (constraint_types cs)" using assms(2) by (simp add: request_ok_def)
  note found = payload_in_set [OF this c]
  show "meets_constraint c n"
  proof (cases c)
    case (ColumnRewriteConstraint items)
    with found assms show ?thesis
      by (auto simp: post_def expected_signature_def column_rewrite_def request_ok_def)
  next
    case (ExposedNameConstraint nm)
    with found assms show ?thesis by (auto simp: post_def named_ok_def exposed_name_def)
  qed simp_all
qed

end
