(* ===== verification/Coa_Steps.thy ===== *)
theory Coa_Steps
  imports Coa_Contract
begin

text \<open>
  Walking a builder's code: monad laws that put it in the form \<open>step; rest\<close>, and one rule per
  step.  Then the locale \<open>subtree_provider\<close>, the factory as a builder sees it, with the rules for
  the requests a builder makes of it.
\<close>


section \<open>Monad laws\<close>

named_theorems gen_norm \<open>normal form of generator code: right-nested binds of primitive steps\<close>

lemma gbind_assoc [gen_norm]: "gbind (gbind m f) g = gbind m (\<lambda>x. gbind (f x) g)"
  by (rule ext) (simp add: gbind_def split: sum.splits prod.splits)

lemma gbind_return [gen_norm]: "gbind (greturn a) f = f a"
  by (rule ext) (simp add: gbind_def greturn_def)

lemma obind_some [gen_norm]: "obind (gsome m) f = gbind m f"
  by (simp add: obind_def gsome_def gbind_assoc gbind_return)

lemma obind_return [gen_norm]: "obind (greturn (Some a)) f = f a" "obind (greturn None) f = greturn None"
  by (simp_all add: obind_def gbind_return)

lemma obind_gbind [gen_norm]: "obind (gbind m f) g = gbind m (\<lambda>x. obind (f x) g)"
  by (simp add: obind_def gbind_assoc)

lemma obind_obind [gen_norm]: "obind (obind m f) g = obind m (\<lambda>x. obind (f x) g)"
  by (rule ext) (simp add: obind_def gbind_def greturn_def split: sum.splits prod.splits option.splits)

lemma gsome_bind [gen_norm]: "gsome (gbind m f) = gbind m (\<lambda>x. gsome (f x))"
  by (simp add: gsome_def gbind_assoc)

lemma gsome_return [gen_norm]: "gsome (greturn a) = greturn (Some a)"
  by (simp add: gsome_def gbind_return)

lemmas mk_defs [gen_norm] =
  mk_base_def mk_select_def mk_select_full_def mk_union_def mk_except_def mk_intersect_def mk_join_def
  mk_cte_def mk_lateral_def create_as_def delete_reinsert_build_def noop_update_build_def
  tag_prune_delete_build_def insert_extras_build_def generate_column_name_def Let_def


section \<open>Rules for the steps\<close>

named_theorems wp \<open>weakest preconditions: one rule per step of a builder\<close>

lemma wp_return [wp]: "Q a \<Longrightarrow> gspec d E (greturn a) Q"
  by (rule gspec_return)

lemma wp_new_id [wp]: "(\<And>i. gspec d E (f i) Q) \<Longrightarrow> gspec d E (gbind new_id f) Q"
  by (rule gspec_bind [where R = "\<lambda>_. True"]) (simp_all add: gspec_intros)

lemma wp_name [wp]:
  "(\<And>n. gspec d E (f (prefix @ ''_'' @ str_nat n)) Q) \<Longrightarrow> gspec d E (gbind (generate_object_name prefix) f) Q"
  by (rule gspec_bind [where R = "\<lambda>x. \<exists>n. x = prefix @ ''_'' @ str_nat n"]) (auto simp: gspec_intros)

lemma wp_take_name [wp]:
  assumes "\<And>nm. (given \<noteq> None \<Longrightarrow> given \<noteq> Some [] \<Longrightarrow> given = Some nm) \<Longrightarrow> gspec d E (f nm) Q"
  shows "gspec d E (gbind (take_name env given label) f) Q"
proof (cases "given = None \<or> given = Some []")
  case True
  then have "take_name env given label = mint env label" by (auto simp: take_name_def)
  with True show ?thesis
    by (simp, intro gspec_bind [where R = "\<lambda>_. True"] assms) (auto simp: gspec_intros)
next
  case False
  then obtain nm where nm: "given = Some nm" "nm \<noteq> []" by auto
  then have "take_name env given label = greturn nm" by (simp add: take_name_def)
  with nm show ?thesis by (simp add: gbind_return assms)
qed

lemma wp_assert [wp]: "b \<Longrightarrow> gspec d E (f ()) Q \<Longrightarrow> gspec d E (gbind (gassert b) f) Q"
  by (simp add: gassert_def gbind_return)

lemma wp_child_name [wp]:
  "materialized_name c \<noteq> None \<Longrightarrow> (\<And>nm. materialized_name c = Some nm \<Longrightarrow> gspec d E (f nm) Q) \<Longrightarrow>
     gspec d E (gbind (child_name c) f) Q"
  by (auto simp: child_name_def gbind_return)

lemma wp_child_exposed [wp]:
  "materialized_name c \<noteq> None \<Longrightarrow> (\<And>e. exposed_of c = Some e \<Longrightarrow> gspec d E (f e) Q) \<Longrightarrow>
     gspec d E (gbind (child_exposed c) f) Q"
  by (auto simp: child_exposed_def materialized_name_def gbind_return split: Option.bind_splits)

lemma wp_note [wp]: "gspec d E (f ()) Q \<Longrightarrow> gspec d E (gbind (note_origin who) f) Q"
  unfolding note_origin_def by (rule gspec_bind [where R = "\<lambda>_. True"]) (auto intro: gspec_modify)

lemma wp_randrange [wp]: "(\<And>n. gspec d E (f n) Q) \<Longrightarrow> gspec d E (gbind (randrange k) f) Q"
  by (rule gspec_bind [where R = "\<lambda>_. True"]) (simp_all add: gspec_intros)

lemma wp_random_choice [wp]:
  "xs \<noteq> [] \<Longrightarrow> (\<And>x. x \<in> set xs \<Longrightarrow> gspec d E (f x) Q) \<Longrightarrow> gspec d E (gbind (random_choice xs) f) Q"
  by (rule gspec_bind [where R = "\<lambda>x. x \<in> set xs"]) (simp_all add: gspec_choice)


section \<open>Weighted choices\<close>

lemma accumulate_length [simp]: "length (accumulate a ws) = length ws"
  by (induction a ws rule: accumulate.induct) auto

lemma accumulate_nth: "k < length ws \<Longrightarrow> accumulate a ws ! k = a + sum_list (take (Suc k) ws)"
proof (induction a ws arbitrary: k rule: accumulate.induct)
  case (2 a w ws)
  then show ?case by (cases k) auto
qed simp

text \<open>The option picked is one of positive weight.\<close>

lemma choice_index_positive:
  assumes nonneg: "\<forall>w \<in> set ws. 0 \<le> w" and point: "0 \<le> point" "point < sum_list ws"
  shows "choice_index ws point < length ws \<and> 0 < ws ! choice_index ws point"
proof -
  let ?cs = "accumulate 0 ws"
  define k where "k = choice_index ws point"
  have ws: "ws \<noteq> []" using point by auto
  have "k \<le> length (butlast ?cs)"
    unfolding k_def choice_index_def by (rule length_takeWhile_le)
  then have "k \<le> length ws - 1" by simp
  moreover have "0 < length ws" using ws by simp
  ultimately have k: "k < length ws" by linarith
  have here: "point < ?cs ! k"
  proof (cases "k < length (butlast ?cs)")
    case True
    then have "\<not> butlast ?cs ! k \<le> point"
      unfolding k_def choice_index_def by (rule nth_length_takeWhile)
    with True show ?thesis by (simp add: nth_butlast)
  next
    case False
    with k have "Suc k = length ws" by simp
    with k point show ?thesis by (simp add: accumulate_nth)
  qed
  have before: "k = 0 \<or> ?cs ! (k - 1) \<le> point"
  proof (cases k)
    case (Suc j)
    then have "butlast ?cs ! j \<in> set (takeWhile (\<lambda>c. c \<le> point) (butlast ?cs))"
      unfolding k_def choice_index_def by (metis lessI nth_mem takeWhile_nth)
    then have "butlast ?cs ! j \<le> point" by (rule conjunct2 [OF set_takeWhileD])
    with Suc k show ?thesis by (simp add: nth_butlast)
  qed simp
  have "0 < ws ! k"
  proof (cases k)
    case 0
    with here k point show ?thesis by (simp add: accumulate_nth take_Suc_conv_app_nth)
  next
    case (Suc j)
    from k have "sum_list (take (Suc k) ws) = sum_list (take k ws) + ws ! k"
      by (simp add: take_Suc_conv_app_nth)
    moreover have "sum_list (take k ws) \<le> point" using before k Suc by (simp add: accumulate_nth)
    moreover have "point < sum_list (take (Suc k) ws)" using here k by (simp add: accumulate_nth)
    ultimately show ?thesis by linarith
  qed
  with k show ?thesis by (simp add: k_def)
qed

lemma gspec_choose:
  assumes "options_ok opts" and "\<And>x w. (x, w) \<in> set opts \<Longrightarrow> 0 < w \<Longrightarrow> Q x"
  shows "gspec d E (choose_one opts) Q"
proof -
  have pos: "0 < sum_list (map snd opts)" using assms(1) by (simp add: options_ok_def)
  then have "opts \<noteq> []" by auto
  moreover have "Q (fst (opts ! choice_index (map snd opts) (int n mod sum_list (map snd opts))))" for n
  proof -
    let ?k = "choice_index (map snd opts) (int n mod sum_list (map snd opts))"
    have "?k < length opts \<and> 0 < snd (opts ! ?k)"
      using choice_index_positive [of "map snd opts" "int n mod sum_list (map snd opts)"] assms(1) pos
      by (auto simp: options_ok_def)
    then show ?thesis using assms(2) [of "fst (opts ! ?k)" "snd (opts ! ?k)"] by simp
  qed
  ultimately show ?thesis
    using pos unfolding choose_one_def
    by (auto simp: Let_def intro!: gspec_bind [where R = "\<lambda>_. True"] gspec_intros)
qed

lemma wp_choose [wp]:
  assumes "options_ok opts" and "\<And>x w. (x, w) \<in> set opts \<Longrightarrow> 0 < w \<Longrightarrow> gspec d E (f x) Q"
  shows "gspec d E (gbind (choose_one opts) f) Q"
  by (rule gspec_bind [OF gspec_choose [OF assms(1), where Q = "\<lambda>x. \<exists>w. (x, w) \<in> set opts \<and> 0 < w"]])
    (auto intro: assms(2))

lemma gspec_select_key:
  assumes "options_ok (key_selection_weights (config env))" "xs \<noteq> []"
  shows "gspec d E (select_key env xs) (\<lambda>x. x \<in> set xs)"
  unfolding select_key_def using assms
  by (intro wp_choose) (auto intro: gspec_choice gspec_intros split: list.splits)

lemma wp_select_key [wp]:
  "options_ok (key_selection_weights (config env)) \<Longrightarrow> xs \<noteq> [] \<Longrightarrow> (\<And>x. x \<in> set xs \<Longrightarrow> gspec d E (f x) Q) \<Longrightarrow>
     gspec d E (gbind (select_key env xs) f) Q"
  by (rule gspec_bind [OF gspec_select_key])


section \<open>The factory as a builder sees it\<close>

locale subtree_provider =
  fixes sub :: request and d :: nat and E :: "gen_error \<Rightarrow> bool" and env :: context_env
  assumes served:
    "env_ok env \<Longrightarrow> request_ok (base_table env) cs \<Longrightarrow>
       gspec d E (sub k cs) (\<lambda>r. \<forall>n. r = Some n \<longrightarrow> is_instance n k \<and> post (base_table env) cs n)"
begin

lemma ask_spec:
  assumes "env_ok env" "make_constraint_set xs = Inr cs" "request_ok (base_table env) cs"
  shows "gspec d E (ask sub k xs) (\<lambda>r. \<forall>n. r = Some n \<longrightarrow> is_instance n k \<and> post (base_table env) cs n)"
  unfolding ask_def using assms
  by (intro gspec_bind [where R = "\<lambda>x. x = cs"] gspec_lift) (auto intro: served)

lemma wp_ask:
  assumes "env_ok env" "make_constraint_set xs = Inr cs" "request_ok (base_table env) cs" "Q None"
    and "\<And>n. is_instance n k \<Longrightarrow> post (base_table env) cs n \<Longrightarrow> gspec d E (f n) Q"
  shows "gspec d E (obind (ask sub k xs) f) Q"
  by (rule gspec_obind [OF gspec_weaken [OF ask_spec [OF assms(1-3)]],
        where R = "\<lambda>n. is_instance n k \<and> post (base_table env) cs n"]) (use assms(4,5) in auto)

text \<open>Both sides are asked for before either is looked at.\<close>

lemma wp_two_sides:
  assumes "env_ok env" "make_constraint_set xs = Inr cs" "request_ok (base_table env) cs"
    and "request_ok (base_table env) []" "Q None"
    and "\<And>l r. is_relation l \<Longrightarrow> is_relation r \<Longrightarrow> post (base_table env) [] l \<Longrightarrow> post (base_table env) cs r \<Longrightarrow>
           gspec d E (gsome (combine l r)) Q"
  shows "gspec d E (two_sides sub xs combine) Q"
proof -
  have empty: "make_constraint_set [] = Inr []" by (simp add: make_constraint_set_def)
  show ?thesis
    unfolding two_sides_def
    by (rule gspec_bind [OF ask_spec [OF assms(1) empty assms(4)]],
        rule gspec_bind [OF ask_spec [OF assms(1-3)]])
      (use assms(5,6) in \<open>auto intro: gspec_return split: option.splits\<close>)
qed

end

end
