(* ===== verification/Coa_Clauses.thy ===== *)
theory Coa_Clauses
  imports Coa_Steps
begin

text \<open>
  What the clauses of a query do on rows that come from the base table: name resolution, filters,
  projections, row numbers, \<open>DISTINCT\<close>, grouping, set operations, writes.  Everything here is about
  lists of rows; the nodes come after.
\<close>


section \<open>Resolving names\<close>

lemma filter_unique:
  assumes "k < n" "\<And>i. i < n \<Longrightarrow> p i \<longleftrightarrow> i = k"
  shows "filter p [0..<n] = [k]"
proof -
  have "filter p [0..<n] = filter (\<lambda>i. i = k) [0..<n]" using assms(2) by (auto intro: filter_cong)
  also have "\<dots> = [k]" using assms(1)
    by (induction n) (auto simp: filter_empty_conv less_Suc_eq)
  finally show ?thesis .
qed

lemma resolve_plain:
  assumes "distinct names" "k < length names"
  shows "resolve (map (Pair a) names) None (names ! k) = Some k"
    and "resolve (map (Pair a) names) (Some a) (names ! k) = Some k"
  using assms by (simp_all add: resolve_def filter_unique [of k] nth_eq_iff_index_eq)

lemma resolve_left:
  assumes "distinct lnames" "k < length lnames" "la \<noteq> ra"
  shows "resolve (map (Pair la) lnames @ map (Pair ra) rnames) (Some la) (lnames ! k) = Some k"
proof -
  have "filter (\<lambda>i. snd ((map (Pair la) lnames @ map (Pair ra) rnames) ! i) = lnames ! k \<and>
      la = fst ((map (Pair la) lnames @ map (Pair ra) rnames) ! i)) [0..<length lnames + length rnames] = [k]"
    using assms by (intro filter_unique) (auto simp: nth_append nth_eq_iff_index_eq)
  then show ?thesis using assms by (simp add: resolve_def)
qed

lemma resolve_right:
  assumes "distinct rnames" "k < length rnames" "la \<noteq> ra"
  shows "resolve (map (Pair la) lnames @ map (Pair ra) rnames) (Some ra) (rnames ! k) = Some (length lnames + k)"
proof -
  have "filter (\<lambda>i. snd ((map (Pair la) lnames @ map (Pair ra) rnames) ! i) = rnames ! k \<and>
      ra = fst ((map (Pair la) lnames @ map (Pair ra) rnames) ! i)) [0..<length lnames + length rnames] = [length lnames + k]"
    using assms by (intro filter_unique) (auto simp: nth_append nth_eq_iff_index_eq)
  then show ?thesis using assms by (simp add: resolve_def)
qed


section \<open>Row-local evaluation\<close>

lemma eval_row_simps [simp]:
  "eval_row E sc r (IntLiteral v) = Some (SInt v)"
  "eval_row E sc r (TypedNull ty) = Some SNull"
  "eval_row E sc r (GeneratedPredicate s) = Some (truth_of (en_pred E s (row_env sc r)))"
  "eval_row E sc r (ColumnRef nm ty q) = map_option (\<lambda>k. r ! k) (resolve sc q nm)"
  "eval_row E sc r (Comparison op a b) =
     Option.bind (eval_row E sc r a) (\<lambda>u. map_option (sql_cmp E op u) (eval_row E sc r b))"
  "eval_row E sc r (BoolOp op a b) =
     Option.bind (eval_row E sc r a) (\<lambda>u. Option.bind (eval_row E sc r b) (\<lambda>v.
       if op = ''AND'' then sql_and u v else if op = ''OR'' then sql_or u v else None))"
  "eval_row E sc r (NotE e) = Option.bind (eval_row E sc r e) sql_not"
  "eval_row E sc r (IsNull e neg) = map_option (\<lambda>v. SBool ((v = SNull) \<noteq> neg)) (eval_row E sc r e)"
  "eval_row E sc r (Mod e n) =
     Option.bind (eval_row E sc r e) (\<lambda>v. case v of
       SNull \<Rightarrow> Some SNull | SInt k \<Rightarrow> Some (SInt (en_mod E k n)) | _ \<Rightarrow> None)"
  "eval_row E sc r (Case c t e ty) =
     Option.bind (eval_row E sc r c) (\<lambda>v.
       if v = SBool True then eval_row E sc r t
       else if v = SBool False \<or> v = SNull then eval_row E sc r e else None)"
  "eval_row E sc r (ValueCodecRoundTrip codec a ty) =
     map_option (\<lambda>v. if v = SNull then SNull else en_codec E codec v) (eval_row E sc r a)"
  by (simp_all add: eval_row_def cong: if_cong)

lemma condition_Some: "condition E sc e r = Some b \<Longrightarrow> eval_row E sc r e = Some (SBool True) \<and> b
    \<or> (eval_row E sc r e = Some (SBool False) \<or> eval_row E sc r e = Some SNull) \<and> \<not> b"
  by (auto simp: condition_def bind_eq_Some_conv split: if_splits elim!: accepts.elims)

lemma condition_value: "scalar e \<Longrightarrow> eval_row E sc r e = Some v \<Longrightarrow> condition E sc e r = accepts v"
  by (simp add: condition_def)

lemma pred_okI:
  assumes "scalar e" "\<And>E r. engine_ok E \<Longrightarrow> row_ok t r \<Longrightarrow> \<exists>b. eval_row E (base_scope t) r e = Some (SBool b) \<or> eval_row E (base_scope t) r e = Some SNull"
  shows "pred_ok t e"
  unfolding pred_ok_def using assms by (fastforce simp: condition_def)

text \<open>The three truth values a predicate has on a typed row.\<close>

lemma pred_ok_cases:
  assumes "pred_ok t e" "engine_ok E" "row_ok t r"
  obtains "eval_row E (base_scope t) r e = Some (SBool True)"
    | "eval_row E (base_scope t) r e = Some (SBool False)"
    | "eval_row E (base_scope t) r e = Some SNull"
  using assms condition_Some unfolding pred_ok_def by blast

lemma pred_ok_scalar: "pred_ok t e \<Longrightarrow> scalar e"
  by (simp add: pred_ok_def)


section \<open>Filters\<close>

lemma where_rows_filter:
  assumes "\<And>r. r \<in> set rows \<Longrightarrow> condition E sc e r = Some (p r)"
  shows "where_rows E sc (Some e) rows = Some (filter p rows)"
  using map_opt_total [of rows "condition E sc e" p] assms by (simp add: where_rows_def keep_where_filter)

lemma where_pred:
  assumes "pred_ok t e" "engine_ok E" "base_rows_ok t rows"
  shows "where_rows E (base_scope t) (Some e) rows
      = Some (filter (\<lambda>r. condition E (base_scope t) e r = Some True) rows)"
proof (rule where_rows_filter)
  fix r
  assume "r \<in> set rows"
  with assms have "condition E (base_scope t) e r \<noteq> None" by (simp add: pred_ok_def base_rows_ok_def)
  then show "condition E (base_scope t) e r = Some (condition E (base_scope t) e r = Some True)" by auto
qed

text \<open>A request's filter, applied to the base rows in any order.\<close>

lemma where_wanted:
  assumes "request_ok t cs" "engine_ok E" "base_rows_ok t B" "mset rows = mset B"
  shows "\<exists>kept. where_rows E (base_scope t) (current_filter cs) rows = Some kept \<and> mset kept = mset (wanted E t cs B)"
proof (cases "current_filter cs")
  case None
  with assms show ?thesis by (simp add: where_rows_def wanted_def)
next
  case (Some e)
  have "pred_ok t e" "base_rows_ok t rows"
    using assms Some base_rows_perm by (auto simp: request_ok_def)
  with Some assms show ?thesis by (simp add: where_pred wanted_def)
qed

lemma wanted_ok: "base_rows_ok t B \<Longrightarrow> base_rows_ok t (wanted E t cs B)"
  by (auto simp: base_rows_ok_def wanted_def split: option.splits)

lemma delete_rows_filter:
  assumes "\<And>r. r \<in> set rows \<Longrightarrow> condition E sc e r = Some (p r)"
  shows "delete_rows E sc (Some e) rows = Some (filter (\<lambda>r. \<not> p r) rows)"
proof -
  have "map_opt (condition E sc e) rows = Some (map p rows)" using assms by (rule map_opt_total)
  moreover have "map Not (map p rows) = map (\<lambda>r. \<not> p r) rows" by simp
  ultimately show ?thesis by (simp only: delete_rows_def option.simps keep_where_filter)
qed


section \<open>Projections\<close>

lemma project_rows_scalar:
  assumes "\<And>it. it \<in> set items \<Longrightarrow> scalar (pi_expr it)"
  shows "project_rows E sc items rows = map_opt (\<lambda>r. map_opt (\<lambda>it. eval_row E sc r (pi_expr it)) items) rows"
proof -
  have "map_opt (\<lambda>it. eval E sc rows (pi_expr it) i) items = map_opt (\<lambda>it. eval_row E sc (rows ! i) (pi_expr it)) items" for i
    using assms by (intro map_opt_cong) (auto simp: eval_scalar)
  then show ?thesis by (simp add: project_rows_def map_opt_index [of "\<lambda>r. map_opt (\<lambda>it. eval_row E sc r (pi_expr it)) items"])
qed

lemma project_rows_values:
  assumes "\<And>it. it \<in> set items \<Longrightarrow> scalar (pi_expr it)"
    and "\<And>r. r \<in> set rows \<Longrightarrow> map_opt (\<lambda>it. eval_row E sc r (pi_expr it)) items = Some (g r)"
  shows "project_rows E sc items rows = Some (map g rows)"
  by (subst project_rows_scalar [OF assms(1)]) (auto intro!: map_opt_total assms(2))

text \<open>Reading columns back by name: an item list whose aliases are consecutive names of the scope.\<close>

definition plain_items :: "named list \<Rightarrow> proj_item list" where
  "plain_items sig = map (\<lambda>(nm, ty). ProjectionItem nm (col nm ty) ty) sig"

lemma plain_items_simps [simp]:
  "plain_items [] = []" "plain_items (nt # sig) = ProjectionItem (fst nt) (col (fst nt) (snd nt)) (snd nt) # plain_items sig"
  "plain_items (sig @ sig') = plain_items sig @ plain_items sig'"
  "length (plain_items sig) = length sig"
  by (auto simp: plain_items_def split: prod.splits)

lemma item_signature_plain [simp]: "item_signature (plain_items sig) = sig"
  by (auto simp: item_signature_def plain_items_def case_prod_beta o_def intro: map_idI)

lemma item_signature_append [simp]: "item_signature (xs @ ys) = item_signature xs @ item_signature ys"
  by (simp add: item_signature_def)

lemma item_signature_Cons [simp]: "item_signature (x # xs) = (pi_alias x, pi_type x) # item_signature xs"
  by (simp add: item_signature_def)

lemma item_signature_Nil [simp]: "item_signature [] = []"
  by (simp add: item_signature_def)

lemma passthrough_plain: "passthrough_items env = plain_items (table_signature (base_table env))"
  by (simp add: passthrough_items_def plain_items_def table_signature_def)

lemma passthrough_nonempty: "passthrough_items env = [] \<longleftrightarrow> tab_columns (base_table env) = []"
  by (simp add: passthrough_items_def)

lemma plain_scalar: "it \<in> set (plain_items sig) \<Longrightarrow> scalar (pi_expr it)"
  by (auto simp: plain_items_def coa_simps)

lemma eval_plain_slice:
  assumes "distinct names" "length r = length names" "map fst sig = take (length sig) (drop k names)" "k + length sig \<le> length names"
  shows "map_opt (\<lambda>it. eval_row E (map (Pair a) names) r (pi_expr it)) (plain_items sig) = Some (take (length sig) (drop k r))"
proof -
  have "map_opt (\<lambda>it. eval_row E (map (Pair a) names) r (pi_expr it)) (plain_items sig)
      = map_opt (\<lambda>nt. eval_row E (map (Pair a) names) r (col (fst nt) (snd nt))) sig"
    by (simp add: map_opt_def plain_items_def o_def case_prod_beta)
  also have "\<dots> = Some (take (length sig) (drop k r))"
    unfolding map_opt_Some list_all2_conv_all_nth
  proof (intro conjI allI impI)
    show "length sig = length (take (length sig) (drop k r))" using assms by simp
  next
    fix j
    assume j: "j < length sig"
    have "fst (sig ! j) = map fst sig ! j" using j by simp
    also have "\<dots> = names ! (k + j)" using assms(3,4) j by simp
    finally have "fst (sig ! j) = names ! (k + j)" .
    with j assms show "eval_row E (map (Pair a) names) r (col (fst (sig ! j)) (snd (sig ! j)))
        = Some (take (length sig) (drop k r) ! j)"
      by (simp add: coa_simps resolve_plain)
  qed
  finally show ?thesis .
qed

lemmas eval_plain_prefix = eval_plain_slice [where k = 0, simplified]

lemma project_prefix:
  assumes "distinct names" "\<forall>r \<in> set rows. length r = length names" "map fst sig = take (length sig) names" "length sig \<le> length names"
  shows "project_rows E (map (Pair a) names) (plain_items sig) rows = Some (map (take (length sig)) rows)"
  using assms by (intro project_rows_values) (auto simp: plain_scalar eval_plain_prefix)

text \<open>The identity projection of the base columns.\<close>

lemma project_base:
  assumes "distinct (column_names t)" "base_rows_ok t rows"
  shows "project_rows E (base_scope t) (plain_items (table_signature t)) rows = Some rows"
proof -
  have len: "\<forall>r \<in> set rows. length r = length (column_names t)"
    using assms(2) by (auto simp: base_rows_ok_def row_ok_length)
  then have "map (take (length (column_names t))) rows = rows" by (intro map_idI) auto
  with project_prefix [OF assms(1) len, of "table_signature t"] show ?thesis by simp
qed

text \<open>Base columns followed by more columns.\<close>

lemma project_base_prefix:
  assumes "distinct (column_names t @ extra)" "\<forall>r \<in> set rows. length r = length (column_names t) + length extra"
  shows "project_rows E (map (Pair []) (column_names t @ extra)) (plain_items (table_signature t)) rows
    = Some (map (take (length (column_names t))) rows)"
  using project_prefix [OF assms(1), of rows "table_signature t"] assms(2) by simp

end
