(* ===== verification/Coa_Keyed.thy ===== *)
theory Coa_Keyed
  imports Coa_Clauses
begin

text \<open>
  Rows with a key: what \<open>ROW_NUMBER()\<close> gives, and how rows come back from a key by filtering,
  grouping, \<open>DISTINCT\<close> and ranking.
\<close>


section \<open>Row numbers\<close>

lemma project_append:
  assumes "project_rows E sc items rows = Some us" "project_rows E sc items' rows = Some vs"
  shows "project_rows E sc (items @ items') rows = Some (map2 (@) us vs)"
proof -
  note us = iffD1 [OF map_opt_Some assms(1) [unfolded project_rows_def]]
  note vs = iffD1 [OF map_opt_Some assms(2) [unfolded project_rows_def]]
  have "map_opt (\<lambda>it. eval E sc rows (pi_expr it) i) (items @ items') = Some (us ! i @ vs ! i)"
    if "i < length rows" for i
    using us vs that by (simp add: list_all2_conv_all_nth map_opt_append)
  with us vs show ?thesis
    unfolding project_rows_def by (subst map_opt_Some) (simp add: list_all2_conv_all_nth)
qed

lemma project_single:
  assumes "\<And>i. i < length rows \<Longrightarrow> eval E sc rows e i = Some (g i)"
  shows "project_rows E sc [ProjectionItem nm e ty] rows = Some (map (\<lambda>i. [g i]) [0..<length rows])"
  unfolding project_rows_def by (rule map_opt_total) (simp add: assms)

lemma eval_all_rows:
  assumes "\<And>r. r \<in> set rows \<Longrightarrow> \<exists>v. eval_row E sc r e = Some v" "scalar e"
  shows "\<exists>vs. map_opt (\<lambda>j. map_opt (\<lambda>k. eval E sc rows k j) [e]) [0..<length rows] = Some vs \<and> length vs = length rows"
proof -
  let ?g = "\<lambda>j. [the (eval_row E sc (rows ! j) e)]"
  have "map_opt (\<lambda>j. map_opt (\<lambda>k. eval E sc rows k j) [e]) [0..<length rows] = Some (map ?g [0..<length rows])"
  proof (rule map_opt_total)
    fix j
    assume "j \<in> set [0..<length rows]"
    then have "rows ! j \<in> set rows" by simp
    then obtain v where "eval_row E sc (rows ! j) e = Some v" using assms(1) by blast
    then show "map_opt (\<lambda>k. eval E sc rows k j) [e] = Some [the (eval_row E sc (rows ! j) e)]"
      using assms(2) by (simp add: eval_scalar)
  qed
  then show ?thesis by simp
qed

lemma engine_rank:
  assumes "engine_ok E"
  shows "distinct (en_rank E ks)" "set (en_rank E ks) = {1..length ks}" "length (en_rank E ks) = length ks"
proof -
  have m: "mset (en_rank E ks) = mset [1..<Suc (length ks)]" using assms by (simp only: engine_ok_def)
  show "distinct (en_rank E ks)" using mset_eq_imp_distinct_iff [OF m] by (simp del: upt_Suc)
  show "set (en_rank E ks) = {1..length ks}" using mset_eq_setD [OF m] by auto
  show "length (en_rank E ks) = length ks" using mset_eq_length [OF m] by (simp del: upt_Suc)
qed

lemma eval_row_number:
  assumes "\<And>r. r \<in> set rows \<Longrightarrow> \<exists>v. eval_row E sc r e = Some v" "scalar e"
  shows "\<exists>ks. length ks = length rows \<and>
     (\<forall>i < length rows. eval E sc rows (row_number [e]) i = Some (SInt (int (en_rank E ks ! i))))"
proof -
  obtain vs where vs: "map_opt (\<lambda>j. map_opt (\<lambda>k. eval E sc rows k j) [e]) [0..<length rows] = Some vs" "length vs = length rows"
    using eval_all_rows [OF assms] by blast
  have none: "map_opt (\<lambda>j. map_opt (\<lambda>k. eval E sc rows k j) []) [0..<length rows] = Some (map (\<lambda>j. []) [0..<length rows])"
    by (rule map_opt_total) simp
  have part: "filter (\<lambda>j. same_vals E (map (\<lambda>j. []) [0..<length rows] ! i) (map (\<lambda>j. []) [0..<length rows] ! j)) [0..<length rows]
      = [0..<length rows]" if "i < length rows" for i
    by (rule filter_True) (use that in \<open>simp add: same_vals_def\<close>)
  have pos: "length (filter (\<lambda>j. j < i) [0..<length rows]) = i" if "i < length rows" for i
  proof -
    have "[0..<length rows] = [0..<i] @ [i..<length rows]" using that upt_add_eq_append [of 0 i "length rows - i"] by simp
    then show ?thesis by (simp add: filter_empty_conv)
  qed
  have "map (\<lambda>j. vs ! j) [0..<length rows] = vs" using vs(2) map_nth by metis
  then have "eval E sc rows (row_number [e]) i = Some (SInt (int (en_rank E vs ! i)))" if "i < length rows" for i
    by (simp only: row_number_def eval.simps those_map_opt vs(1) none Option.bind.simps Let_def
        part [OF that] pos [OF that] simp_thms if_True)
  with vs(2) show ?thesis by blast
qed

text \<open>The base columns and a row number: the rows get distinct positive keys.\<close>

lemma project_row_number:
  assumes "engine_ok E" "project_rows E sc items rows = Some us" "mset us = mset B"
    and "\<And>r. r \<in> set rows \<Longrightarrow> \<exists>v. eval_row E sc r e = Some v" "scalar e"
  shows "\<exists>out. project_rows E sc (items @ [ProjectionItem key (row_number [e]) ty]) rows = Some out \<and> keyed_rows B out"
proof -
  obtain ks where ks: "length ks = length rows"
    "\<And>i. i < length rows \<Longrightarrow> eval E sc rows (row_number [e]) i = Some (SInt (int (en_rank E ks ! i)))"
    using eval_row_number [OF assms(4,5)] by blast
  let ?rank = "en_rank E ks"
  have len: "length us = length rows" using assms(2) by (auto simp: project_rows_def dest: map_opt_length)
  have rank: "distinct ?rank" "set ?rank = {1..length rows}" "length ?rank = length rows"
    using engine_rank [OF assms(1)] ks(1) by auto
  let ?out = "map2 (@) us (map (\<lambda>i. [SInt (int (?rank ! i))]) [0..<length rows])"
  have out: "?out = map (\<lambda>i. us ! i @ [SInt (int (?rank ! i))]) [0..<length rows]"
    using len by (intro nth_equalityI) auto
  have "project_rows E sc (items @ [ProjectionItem key (row_number [e]) ty]) rows = Some ?out"
    using assms(2) by (rule project_append) (rule project_single [OF ks(2)])
  moreover have "keyed_rows B ?out"
    unfolding out keyed_rows_def
  proof (intro conjI)
    have "map butlast (map (\<lambda>i. us ! i @ [SInt (int (?rank ! i))]) [0..<length rows]) = us"
      using len by (intro nth_equalityI) auto
    with assms(3) show "mset (map butlast (map (\<lambda>i. us ! i @ [SInt (int (?rank ! i))]) [0..<length rows])) = mset B" by simp
    have "map last (map (\<lambda>i. us ! i @ [SInt (int (?rank ! i))]) [0..<length rows]) = map (\<lambda>k. SInt (int k)) ?rank"
      using rank(3) by (intro nth_equalityI) auto
    then show "distinct (map last (map (\<lambda>i. us ! i @ [SInt (int (?rank ! i))]) [0..<length rows]))"
      using rank(1) by (simp add: distinct_map inj_on_def)
    have "0 < ?rank ! i" if "i < length rows" for i
      using rank(2,3) that nth_mem [of i ?rank] by auto
    then show "\<forall>r \<in> set (map (\<lambda>i. us ! i @ [SInt (int (?rank ! i))]) [0..<length rows]). \<exists>b k. r = b @ [SInt k] \<and> 0 < k"
      by auto
  qed
  ultimately show ?thesis by blast
qed


section \<open>Facts about keyed rows\<close>

lemma keyed_perm: "keyed_rows B rows \<Longrightarrow> mset rows' = mset rows \<Longrightarrow> keyed_rows B rows'"
proof -
  assume keyed: "keyed_rows B rows" and m: "mset rows' = mset rows"
  have "mset (map last rows') = mset (map last rows)" by (simp add: m)
  from mset_eq_imp_distinct_iff [OF this] keyed have "distinct (map last rows')" by (simp add: keyed_rows_def)
  moreover have "mset (map butlast rows') = mset B" using keyed m by (simp add: keyed_rows_def)
  ultimately show ?thesis using keyed mset_eq_setD [OF m] by (simp add: keyed_rows_def)
qed

lemma keyed_base_perm: "keyed_rows B rows \<Longrightarrow> mset B' = mset B \<Longrightarrow> keyed_rows B' rows"
  by (simp add: keyed_rows_def)

lemma keyed_row:
  assumes "keyed_rows B rows" "r \<in> set rows"
  obtains b k where "r = b @ [SInt k]" "b \<in> set B" "0 < k"
proof -
  obtain b k where r: "r = b @ [SInt k]" "0 < k" using assms by (auto simp: keyed_rows_def)
  have "set (map butlast rows) = set B" using assms(1) by (metis keyed_rows_def set_mset_mset)
  with r(1) assms(2) have "b \<in> set B" by (metis butlast_snoc imageI list.set_map)
  with r show thesis using that by blast
qed

lemma keyed_lengths:
  assumes "keyed_rows B rows" "base_rows_ok t B" "r \<in> set rows"
  shows "length r = Suc (length (tab_columns t))" "length (butlast r) = length (tab_columns t)"
proof -
  obtain b k where r: "r = b @ [SInt k]" "b \<in> set B" by (rule keyed_row [OF assms(1,3)])
  with assms(2) have "length b = length (tab_columns t)" by (simp add: base_rows_ok_def row_ok_length)
  with r show "length r = Suc (length (tab_columns t))" "length (butlast r) = length (tab_columns t)" by simp_all
qed

lemma keyed_inj:
  assumes "keyed_rows B rows" "r \<in> set rows" "s \<in> set rows" "last r = last s"
  shows "r = s"
  using assms by (auto simp: keyed_rows_def distinct_map inj_on_def)

lemma keyed_distinct: "keyed_rows B rows \<Longrightarrow> distinct rows"
  by (auto simp: keyed_rows_def distinct_map)

lemma keyed_take:
  assumes "keyed_rows B rows" "base_rows_ok t B"
  shows "mset (map (take (length (tab_columns t))) rows) = mset B"
proof -
  have "map (take (length (tab_columns t))) rows = map butlast rows"
    using keyed_lengths [OF assms] by (intro map_cong) (auto simp: butlast_conv_take)
  with assms(1) show ?thesis by (simp only: keyed_rows_def)
qed


section \<open>Rows that count as the same\<close>

lemma same_refl [simp]: "engine_ok E \<Longrightarrow> en_same E v v"
  by (simp add: engine_ok_def equivp_reflp)

lemma same_vals_refl [simp]: "engine_ok E \<Longrightarrow> same_vals E vs vs"
  by (simp add: same_vals_def list_all2_conv_all_nth)

lemma same_int: "engine_ok E \<Longrightarrow> en_same E (SInt a) v \<longleftrightarrow> v = SInt a"
  by (auto simp: engine_ok_def is_dbl_def)

lemma same_exact: "engine_ok E \<Longrightarrow> \<not> is_dbl u \<Longrightarrow> en_same E u v \<longleftrightarrow> u = v"
  by (auto simp: engine_ok_def)

lemma same_vals_last:
  "engine_ok E \<Longrightarrow> same_vals E (b @ [SInt k]) (c @ [SInt j]) \<Longrightarrow> k = j"
  by (auto simp: same_vals_def list_all2_append1 list_all2_Cons1 same_int)

lemma same_vals_first:
  "engine_ok E \<Longrightarrow> same_vals E (SInt k # b) (SInt j # c) \<Longrightarrow> k = j"
  by (auto simp: same_vals_def same_int)


section \<open>Distinct\<close>

lemma set_distinct_rows:
  assumes "\<And>r s. r \<in> set rows \<Longrightarrow> s \<in> set rows \<Longrightarrow> same_vals E r s \<longleftrightarrow> r = s"
  shows "set (distinct_rows E rows) = set rows \<and> distinct (distinct_rows E rows)"
  using assms
proof (induction rows)
  case (Cons r rows)
  then have "set (distinct_rows E rows) = set rows" "distinct (distinct_rows E rows)" by auto
  with Cons.prems show ?case by auto
qed simp

text \<open>Copies of keyed rows collapse to the keyed rows, whatever else the rows carry along.\<close>

lemma distinct_copies:
  assumes "keyed_rows B core" "set rows = set core" "inj_on f (set core)"
    and "\<And>r s. r \<in> set core \<Longrightarrow> s \<in> set core \<Longrightarrow> same_vals E (f r) (f s) \<Longrightarrow> last r = last s"
    and "engine_ok E"
  shows "mset (distinct_rows E (map f rows)) = mset (map f core)"
proof -
  have sep: "same_vals E u v \<longleftrightarrow> u = v" if "u \<in> set (map f rows)" "v \<in> set (map f rows)" for u v
  proof -
    from that obtain r s where "u = f r" "r \<in> set rows" "v = f s" "s \<in> set rows" by auto
    with assms(2) have rs: "u = f r" "v = f s" "r \<in> set core" "s \<in> set core" by auto
    show ?thesis
    proof
      assume "same_vals E u v"
      with rs assms(4) have "last r = last s" by simp
      with keyed_inj [OF assms(1) rs(3,4)] rs show "u = v" by simp
    qed (use assms(5) in simp)
  qed
  then have "set (distinct_rows E (map f rows)) = set (map f core)" "distinct (distinct_rows E (map f rows))"
    using set_distinct_rows [of "map f rows" E] assms(2) by auto
  moreover have "distinct (map f core)" using keyed_distinct [OF assms(1)] assms(3) by (simp add: distinct_map)
  ultimately show ?thesis using set_eq_iff_mset_eq_distinct by blast
qed


section \<open>Groups\<close>

text \<open>When the keys are told apart exactly, there is one group per key, and a group holds its key's rows.\<close>

definition told_apart :: "engine \<Rightarrow> sqlval list list \<Rightarrow> nat list \<Rightarrow> bool" where
  "told_apart E keys is \<longleftrightarrow>
     (\<forall>i \<in> set is. \<forall>j \<in> set is. same_vals E (keys ! i) (keys ! j) \<longleftrightarrow> keys ! i = keys ! j)"

lemma told_apart_Cons:
  assumes "told_apart E keys (i # is)"
  shows "told_apart E keys (filter p is)" "\<And>j. j \<in> set is \<Longrightarrow> same_vals E (keys ! i) (keys ! j) \<longleftrightarrow> keys ! i = keys ! j"
  using assms by (auto simp: told_apart_def)

lemma group_members:
  assumes "told_apart E keys is" "g \<in> set (group_indices E keys is)"
  shows "g \<noteq> [] \<and> set g \<subseteq> set is \<and> (\<forall>j \<in> set g. keys ! j = keys ! hd g)"
  using assms
proof (induction E keys "is" rule: group_indices.induct)
  case (2 E keys i "is")
  let ?rest = "filter (\<lambda>j. \<not> same_vals E (keys ! i) (keys ! j)) is"
  note same = told_apart_Cons(2) [OF "2.prems"(1)]
  from "2.prems"(2) consider "g = i # filter (\<lambda>j. same_vals E (keys ! i) (keys ! j)) is"
    | "g \<in> set (group_indices E keys ?rest)" by auto
  then show ?case
  proof cases
    case 1
    have "keys ! j = keys ! i" if "j \<in> set is" "same_vals E (keys ! i) (keys ! j)" for j
      using same [of j] that by simp
    with 1 show ?thesis by auto
  next
    case rest: 2
    have "g \<noteq> [] \<and> set g \<subseteq> set ?rest \<and> (\<forall>j \<in> set g. keys ! j = keys ! hd g)"
      using "2.IH" told_apart_Cons(1) [OF "2.prems"(1)] rest by blast
    moreover have "set ?rest \<subseteq> set (i # is)" by auto
    ultimately show ?thesis by blast
  qed
qed simp

lemma group_keys:
  assumes "told_apart E keys is"
  shows "distinct (map (\<lambda>g. keys ! hd g) (group_indices E keys is)) \<and>
         (\<lambda>g. keys ! hd g) ` set (group_indices E keys is) = (\<lambda>i. keys ! i) ` set is"
  using assms
proof (induction E keys "is" rule: group_indices.induct)
  case (2 E keys i "is")
  let ?rest = "filter (\<lambda>j. \<not> same_vals E (keys ! i) (keys ! j)) is"
  note same = told_apart_Cons(2) [OF "2.prems"]
  have IH: "distinct (map (\<lambda>g. keys ! hd g) (group_indices E keys ?rest))"
    "(\<lambda>g. keys ! hd g) ` set (group_indices E keys ?rest) = (\<lambda>i. keys ! i) ` set ?rest"
    using "2.IH" told_apart_Cons(1) [OF "2.prems"] by blast+
  have new: "keys ! i \<notin> (\<lambda>i. keys ! i) ` set ?rest"
  proof
    assume "keys ! i \<in> (\<lambda>i. keys ! i) ` set ?rest"
    then obtain j where "j \<in> set is" "\<not> same_vals E (keys ! i) (keys ! j)" "keys ! i = keys ! j" by auto
    with same [of j] show False by simp
  qed
  then have "distinct (map (\<lambda>g. keys ! hd g) (group_indices E keys (i # is)))"
    using IH by (simp only: group_indices.simps list.map list.sel distinct.simps set_map) simp
  moreover have "insert (keys ! i) ((\<lambda>i. keys ! i) ` set ?rest) = (\<lambda>i. keys ! i) ` set (i # is)"
  proof -
    have "keys ! j = keys ! i \<or> j \<in> set ?rest" if "j \<in> set is" for j
      using same [OF that] that by auto
    then show ?thesis by fastforce
  qed
  then have "(\<lambda>g. keys ! hd g) ` set (group_indices E keys (i # is)) = (\<lambda>i. keys ! i) ` set (i # is)"
    using IH(2) by (simp only: group_indices.simps list.set image_insert list.sel)
  ultimately show ?case by blast
qed simp

end
