(* ===== verification/Coa_Children.thy ===== *)
theory Coa_Children
  imports Coa_Keyed
begin

text \<open>
  What a builder may assume of the children it asked for, one predicate per kind of request:

  \<^item> \<open>delivers t cs n\<close>: the base columns, and the base rows the filter of \<open>cs\<close> leaves;
  \<^item> \<open>keyed_source t key n\<close>: the base columns and a key, written down in a table;
  \<^item> \<open>tagged_source\<close>, \<open>copied_source\<close>: what comes back on the two channels.

  Then, in the locale, the rules for the helpers of \<open>base.py\<close> that make those requests.
\<close>


section \<open>Well-formed trees\<close>

lemma well_formed_query [simp]:
  "well_formed (BaseTableSource i t)"
  "well_formed (SelectQuery i s p w u g q ob) = well_formed s"
  "well_formed (UnionAllQuery i bs) = (\<forall>b \<in> set bs. well_formed b)"
  "well_formed (ExceptAllQuery i l r) = (well_formed l \<and> well_formed r)"
  "well_formed (IntersectAllQuery i l r) = (well_formed l \<and> well_formed r)"
  "well_formed (JoinQuery i l r c j its la ra w) = (well_formed l \<and> well_formed r)"
  "well_formed (CteQuery i s nm w m) = well_formed s"
  "well_formed (LateralReprojectQuery i s sa la) = well_formed s"
  by (simp_all add: well_formed.simps [of "BaseTableSource i t"] well_formed.simps [of "SelectQuery i s p w u g q ob"]
      well_formed.simps [of "UnionAllQuery i bs"] well_formed.simps [of "ExceptAllQuery i l r"]
      well_formed.simps [of "IntersectAllQuery i l r"] well_formed.simps [of "JoinQuery i l r c j its la ra w"]
      well_formed.simps [of "CteQuery i s nm w m"] well_formed.simps [of "LateralReprojectQuery i s sa la"])

lemma well_formed_relation [simp]:
  "well_formed (CreateFromQuery i c q st e) = (shaped (CreateFromQuery i c q st e) \<and> well_formed q)"
  "well_formed (DeleteReinsertTable i q t p st e) = (shaped (DeleteReinsertTable i q t p st e) \<and> well_formed q)"
  "well_formed (NoopUpdateTable i q a p st e) = (shaped (NoopUpdateTable i q a p st e) \<and> well_formed q)"
  "well_formed (TagPruneDeleteTable i s its tg k st e) = (shaped (TagPruneDeleteTable i s its tg k st e) \<and> well_formed s)"
  "well_formed (InsertExtrasExpansion i s st e) = (shaped (InsertExtrasExpansion i s st e) \<and> well_formed s)"
  by (simp_all add: well_formed.simps [of "CreateFromQuery i c q st e"] well_formed.simps [of "DeleteReinsertTable i q t p st e"]
      well_formed.simps [of "NoopUpdateTable i q a p st e"] well_formed.simps [of "TagPruneDeleteTable i s its tg k st e"]
      well_formed.simps [of "InsertExtrasExpansion i s st e"])

lemma created_name [simp]: "object_name (created_object nm kw q) = Some nm"
  by (simp add: created_object_def)


section \<open>Children\<close>

definition delivers :: "table \<Rightarrow> constraint_set \<Rightarrow> eqnode \<Rightarrow> bool" where
  "delivers t cs n \<longleftrightarrow>
     get_signature n = table_signature t \<and> well_formed n \<and>
     (\<forall>E B path. engine_ok E \<longrightarrow> base_rows_ok t B \<longrightarrow>
        (\<exists>rows. den E B path n = Some rows \<and> mset rows = mset (wanted E t cs B)))"

abbreviation reads_base :: "table \<Rightarrow> eqnode \<Rightarrow> bool" where
  "reads_base t n \<equiv> delivers t [] n"

definition key_signature :: "table \<Rightarrow> string \<Rightarrow> signature" where
  "key_signature t key = table_signature t @ [(key, IntegerType)]"

definition table_source :: "table \<Rightarrow> string \<Rightarrow> eqnode \<Rightarrow> bool" where
  "table_source t key n \<longleftrightarrow>
     is_relation n \<and> well_formed n \<and> materialized_name n \<noteq> None \<and> writable n \<and> get_signature n = key_signature t key"

definition keyed_source :: "table \<Rightarrow> string \<Rightarrow> eqnode \<Rightarrow> bool" where
  "keyed_source t key n \<longleftrightarrow> table_source t key n \<and>
     (\<forall>E B. engine_ok E \<longrightarrow> base_rows_ok t B \<longrightarrow>
        (\<exists>rows. keyed_rows B rows \<and> (\<forall>path. den E B path n = Some rows)))"

definition copied_source :: "table \<Rightarrow> string \<Rightarrow> eqnode \<Rightarrow> bool" where
  "copied_source t key n \<longleftrightarrow> table_source t key n \<and>
     (\<forall>E B. engine_ok E \<longrightarrow> base_rows_ok t B \<longrightarrow>
        (\<exists>core rows. keyed_rows B core \<and> set rows = set core \<and> (\<forall>path. den E B path n = Some rows)))"

definition tagged_source :: "table \<Rightarrow> string \<Rightarrow> int \<Rightarrow> eqnode \<Rightarrow> bool" where
  "tagged_source t tag keep n \<longleftrightarrow> table_source t tag n \<and>
     (\<forall>E B. engine_ok E \<longrightarrow> base_rows_ok t B \<longrightarrow>
        (\<exists>rows. tagged_rows keep B rows \<and> (\<forall>path. den E B path n = Some rows)))"

lemma wanted_Nil [simp]: "wanted E t [] B = B"
  by (simp add: wanted_def payload_defs get_optional_constraint_def)

lemma deliversD:
  assumes "delivers t cs n" "engine_ok E" "base_rows_ok t B"
  obtains rows where "den E B path n = Some rows" "mset rows = mset (wanted E t cs B)"
  using assms unfolding delivers_def by blast

lemma scan_mset [simp]: "engine_ok E \<Longrightarrow> mset (en_scan E p rows) = mset rows"
  by (simp add: engine_ok_def)

lemma scan_set [simp]: "engine_ok E \<Longrightarrow> set (en_scan E p rows) = set rows"
  by (metis scan_mset set_mset_mset)

text \<open>What a reader scans off a child that delivers.\<close>

lemma scanned:
  assumes "delivers t cs n" "engine_ok E" "base_rows_ok t B"
  obtains rows where "den E B path n = Some rows" "mset (en_scan E p rows) = mset (wanted E t cs B)"
    "base_rows_ok t (en_scan E p rows)"
proof -
  obtain rows where rows: "den E B path n = Some rows" "mset rows = mset (wanted E t cs B)"
    using deliversD [OF assms] .
  then have m: "mset (en_scan E p rows) = mset (wanted E t cs B)" using assms(2) by simp
  with rows show thesis using that base_rows_perm [OF wanted_ok [OF assms(3)] m] by blast
qed

lemma names_delivers: "delivers t cs n \<Longrightarrow> names_of n = column_names t" "delivers t cs n \<Longrightarrow> scope_of n = base_scope t"
  by (simp_all add: delivers_def names_of_def scope_of_def)

lemma names_table_source:
  "table_source t key n \<Longrightarrow> names_of n = column_names t @ [key]"
  "table_source t key n \<Longrightarrow> scope_of n = map (Pair []) (column_names t @ [key])"
  by (simp_all add: table_source_def names_of_def scope_of_def key_signature_def)


section \<open>The contract, for requests without a channel\<close>

definition no_channel :: "constraint_set \<Rightarrow> bool" where
  "no_channel cs \<longleftrightarrow> tag_channel cs = None \<and> key_channel cs = None"

lemma content_fills:
  "no_channel cs \<Longrightarrow> content t cs n E B \<longleftrightarrow> (\<forall>path. \<exists>rows. den E B path n = Some rows \<and> fills E t cs B rows)"
  by (simp add: content_def no_channel_def)

lemma post_delivers:
  "post t cs n \<Longrightarrow> no_channel cs \<Longrightarrow> column_rewrite cs = None \<Longrightarrow> delivers t cs n"
  by (auto simp: post_def delivers_def content_def fills_def no_channel_def expected_signature_def)

lemma delivers_post:
  assumes "delivers t cs n" "no_channel cs" "column_rewrite cs = None" "named_ok cs n"
    and "AcceptsDmlC \<in> set (constraint_types cs) \<Longrightarrow> writable n"
  shows "post t cs n"
  using assms by (auto simp: post_def delivers_def content_def fills_def no_channel_def expected_signature_def)

text \<open>A query is never written to or named.\<close>

lemma delivers_query_post:
  assumes "delivers t cs n" "is_query n" "set (constraint_types cs) \<subseteq> {RowFilterC, SingleSourceC}"
  shows "post t cs n"
proof (rule delivers_post [OF assms(1)])
  show "no_channel cs" "column_rewrite cs = None"
    using assms(3) by (auto simp: no_channel_def intro!: payload_None)
  show "named_ok cs n" using assms(2) by (cases n) (simp_all add: named_ok_def)
  show "writable n" if "AcceptsDmlC \<in> set (constraint_types cs)" using assms(3) that by auto
qed

lemma post_relation_name: "post t cs n \<Longrightarrow> is_relation n \<Longrightarrow> materialized_name n \<noteq> None"
  by (simp add: post_def named_ok_def)

lemma post_well_formed: "post t cs n \<Longrightarrow> well_formed n"
  by (simp add: post_def)

lemma wanted_types:
  "RowFilterC \<notin> set (constraint_types cs) \<Longrightarrow> wanted E t cs B = B"
  by (simp add: wanted_def payload_None)


section \<open>Requests\<close>

lemma constraint_payloads [simp]:
  "current_filter [] = None" "column_rewrite [] = None" "tag_channel [] = None" "key_channel [] = None" "exposed_name [] = None"
  "current_filter [SingleSourceConstraint] = None" "column_rewrite [SingleSourceConstraint] = None"
  "tag_channel [SingleSourceConstraint] = None" "key_channel [SingleSourceConstraint] = None"
  "exposed_name [SingleSourceConstraint] = None"
  "current_filter [RowFilterConstraint p] = Some p" "column_rewrite [RowFilterConstraint p] = None"
  "tag_channel [RowFilterConstraint p] = None" "key_channel [RowFilterConstraint p] = None"
  "exposed_name [RowFilterConstraint p] = None"
  by (simp_all add: payload_defs get_optional_constraint_def)

lemma request_Nil [simp]: "request_ok t []"
  by (simp add: request_ok_def constraint_types_def)

lemma request_single [simp]: "request_ok t [SingleSourceConstraint]"
  by (simp add: request_ok_def constraint_types_def)

lemma request_filter: "pred_ok t p \<Longrightarrow> request_ok t [RowFilterConstraint p]"
  by (simp add: request_ok_def constraint_types_def)

lemma make_single [simp]: "make_constraint_set [] = Inr []" "make_constraint_set [Some c] = Inr [c]"
  "make_constraint_set [None] = Inr []"
  by (simp_all add: make_constraint_set_def)

lemma make_pair [simp]:
  "type_of_constraint c \<noteq> type_of_constraint c' \<Longrightarrow> make_constraint_set [Some c, Some c'] = Inr [c, c']"
  by (simp add: make_constraint_set_def)

lemma single_source_request:
  "make_constraint_set [get_optional_constraint cs SingleSourceC] \<in> {Inr [], Inr [SingleSourceConstraint]}"
proof (cases "get_optional_constraint cs SingleSourceC")
  case (Some c)
  then have "type_of_constraint c = SingleSourceC" by (simp add: get_optional_type)
  then have "c = SingleSourceConstraint" by (cases c) simp_all
  with Some show ?thesis by simp
qed simp

context subtree_provider begin

abbreviation base :: table where "base \<equiv> base_table env"

text \<open>\<open>_dispatch_source\<close>: something that reads all the base rows.\<close>

lemma wp_source:
  assumes "env_ok env" "Q None"
    and "\<And>s. is_source s \<Longrightarrow> reads_base base s \<Longrightarrow> gspec d E (f s) Q"
  shows "gspec d E (obind (dispatch_source sub ocs) f) Q"
proof -
  obtain xs cs where ask: "dispatch_source sub ocs = ask sub WantSource xs" "make_constraint_set xs = Inr cs"
    "cs = [] \<or> cs = [SingleSourceConstraint]"
  proof (cases ocs)
    case None
    show thesis by (rule that [of "[]" "[]"]) (simp_all add: None dispatch_source_def)
  next
    case (Some cs')
    show thesis
      using single_source_request [of cs']
      by (intro that [of "[get_optional_constraint cs' SingleSourceC]" "case make_constraint_set [get_optional_constraint cs' SingleSourceC] of Inr c \<Rightarrow> c | Inl _ \<Rightarrow> []"])
        (auto simp: Some dispatch_source_def)
  qed
  have *: "request_ok base cs" "no_channel cs" "column_rewrite cs = None" "\<And>n. delivers base cs n = reads_base base n"
    using ask(3) by (auto simp: no_channel_def delivers_def wanted_def)
  show ?thesis
    unfolding ask(1) using assms *(1)
    by (intro wp_ask [OF _ ask(2)]) (use * in \<open>auto dest: post_delivers\<close>)
qed

text \<open>A branch of a split: the base rows the request's filter and the branch predicate both accept.\<close>

lemma branch_spec:
  assumes "env_ok env" "pred_ok base (conjoin (current_filter cs) p)"
  shows "gspec d E (branch sub cs p)
    (\<lambda>r. \<forall>n. r = Some n \<longrightarrow> is_relation n \<and> delivers base [RowFilterConstraint (conjoin (current_filter cs) p)] n)"
  unfolding branch_def
  by (rule gspec_weaken [OF ask_spec [OF assms(1) _ request_filter [OF assms(2)]]])
    (auto intro!: post_delivers simp: no_channel_def)

end


section \<open>The base rows with a key\<close>

lemma keyed_projection:
  assumes "distinct (column_names t)" "tab_columns t = c # rest" "engine_ok E" "base_rows_ok t rows"
  shows "\<exists>out. project_rows E (base_scope t)
      (plain_items (table_signature t) @ [ProjectionItem key (row_number [col (col_name c) (col_type c)]) IntegerType]) rows = Some out
      \<and> keyed_rows rows out"
proof (rule project_row_number [OF assms(3) project_base [OF assms(1,4)] refl])
  fix r
  have "resolve (base_scope t) None (column_names t ! 0) = Some 0"
    by (rule resolve_plain(1) [OF assms(1)]) (simp add: assms(2))
  moreover have "column_names t ! 0 = col_name c" by (simp add: column_names_def assms(2))
  ultimately show "\<exists>v. eval_row E (base_scope t) r (col (col_name c) (col_type c)) = Some v"
    by (simp add: coa_simps)
qed (simp add: coa_simps)

lemma key_request [simp]:
  "current_filter [ColumnRewriteConstraint items, AcceptsDmlConstraint] = None"
  "column_rewrite [ColumnRewriteConstraint items, AcceptsDmlConstraint] = Some items"
  "tag_channel [ColumnRewriteConstraint items, AcceptsDmlConstraint] = None"
  "key_channel [ColumnRewriteConstraint items, AcceptsDmlConstraint] = None"
  "exposed_name [ColumnRewriteConstraint items, AcceptsDmlConstraint] = None"
  by (simp_all add: payload_defs get_optional_constraint_def)

text \<open>A table asked for with exactly these columns holds the projection of the base rows.\<close>

lemma rewrite_post:
  assumes "post t [ColumnRewriteConstraint items, AcceptsDmlConstraint] n" "is_relation n"
    "item_signature items = key_signature t key"
    and "\<And>E src. engine_ok E \<Longrightarrow> base_rows_ok t src \<Longrightarrow> \<exists>out. project_rows E (base_scope t) items src = Some out \<and> P E src out"
    and "\<And>E src src' out out'. mset src' = mset src \<Longrightarrow> mset out' = mset out \<Longrightarrow> P E src' out' \<Longrightarrow> P E src out"
  shows "table_source t key n"
    "\<And>E B. engine_ok E \<Longrightarrow> base_rows_ok t B \<Longrightarrow> \<exists>rows. P E B rows \<and> (\<forall>path. den E B path n = Some rows)"
proof -
  show "table_source t key n"
    using assms(1,2,3)
    by (simp add: table_source_def post_def named_ok_def expected_signature_def constraint_types_def)
  fix E B
  assume E: "engine_ok E" "base_rows_ok t B"
  with assms(1) have "content t [ColumnRewriteConstraint items, AcceptsDmlConstraint] n E B" by (simp add: post_def)
  then obtain rows where "den E B [] n = Some rows" and f: "fills E t [ColumnRewriteConstraint items, AcceptsDmlConstraint] B rows"
    by (subst (asm) content_fills) (simp add: no_channel_def, blast)
  then obtain src out where rows: "den E B [] n = Some rows" "mset src = mset B"
    "project_rows E (base_scope t) items src = Some out" "mset rows = mset out"
    by (auto simp: fills_def wanted_def)
  obtain out' where "project_rows E (base_scope t) items src = Some out'" "P E src out'"
    using assms(4) [OF E(1) base_rows_perm [OF E(2) rows(2)]] by blast
  with rows(3) have "P E src out" by simp
  then have "P E B rows" using assms(5) [OF rows(2) sym [OF rows(4)]] by simp
  moreover have "writable n" using assms(1) by (simp add: post_def constraint_types_def)
  then have "den E B path n = Some rows" for path using writable_once [of n E B path "[]"] rows(1) by simp
  ultimately show "\<exists>rows. P E B rows \<and> (\<forall>path. den E B path n = Some rows)" by blast
qed

lemma fresh_column:
  assumes "env_ok env" "take 3 prefix = ''eq_''"
  shows "prefix @ ''_'' @ str_nat n \<notin> set (column_names (base_table env))"
proof (rule table_ok_fresh)
  show "table_ok (base_table env)" using assms(1) by (simp add: env_ok_def)
  have "length prefix \<ge> 3" using assms(2) by (metis length_Cons list.size(3) length_take min.cobounded1 numeral_3_eq_3)
  with assms(2) show "take 3 (prefix @ ''_'' @ str_nat n) = ''eq_''" by simp
qed

lemma env_distinct: "env_ok env \<Longrightarrow> distinct (column_names (base_table env))"
  by (simp add: env_ok_def table_ok_def)

context subtree_provider begin

lemma wp_key:
  assumes "env_ok env" "Q None"
    and "\<And>rel. keyed_source base key rel \<Longrightarrow> tab_columns base \<noteq> [] \<Longrightarrow>
      gspec d E (f \<lparr>kr_relation = rel, kr_key = KeySpec key IDENTITY False, kr_items = plain_items (table_signature base)\<rparr>) Q"
  shows "gspec d E (obind (materialize_row_key sub env key) f) Q"
proof (cases "tab_columns base")
  case Nil
  then show ?thesis
    using assms(2) by (simp add: materialize_row_key_def passthrough_items_def gen_norm wp)
next
  case (Cons c rest)
  let ?items = "plain_items (table_signature base) @ [ProjectionItem key (row_number [col (col_name c) (col_type c)]) IntegerType]"
  let ?cs = "[ColumnRewriteConstraint ?items, AcceptsDmlConstraint]"
  note distinct = env_distinct [OF assms(1)]
  note proj = keyed_projection [OF distinct Cons, where key = key]
  have make: "make_constraint_set [Some (ColumnRewriteConstraint ?items), Some AcceptsDmlConstraint] = Inr ?cs" by simp
  have req: "request_ok base ?cs"
    using proj by (fastforce simp: request_ok_def constraint_types_def items_ok_def)
  have code: "obind (materialize_row_key sub env key) f =
     gbind (ask sub WantRelation [Some (ColumnRewriteConstraint ?items), Some AcceptsDmlConstraint])
       (\<lambda>keyed. case keyed of
          Some rel \<Rightarrow> if is_relation rel
            then f \<lparr>kr_relation = rel, kr_key = KeySpec key IDENTITY False, kr_items = plain_items (table_signature base)\<rparr>
            else greturn None
        | None \<Rightarrow> greturn None)"
  proof -
    have items: "plain_items (table_signature base)
        = ProjectionItem (col_name c) (col (col_name c) (col_type c)) (col_type c) # tl (plain_items (table_signature base))"
      by (simp add: Cons table_signature_def)
    show ?thesis
      unfolding materialize_row_key_def passthrough_plain Let_def
      by (subst (1) items, simp only: list.case proj_item.sel gen_norm)
        (rule arg_cong2 [where f = gbind],
         simp only: items [symmetric], rule ext, auto simp: gen_norm items [symmetric] split: option.split)
  qed
  have keyed: "keyed_source base key rel" if "post base ?cs rel" "is_relation rel" for rel
  proof -
    have sig: "item_signature ?items = key_signature base key" by (simp add: key_signature_def)
    have perm: "keyed_rows src out" if "mset src' = mset src" "mset out' = mset out" "keyed_rows src' out'" for src src' out out'
      by (rule keyed_perm [OF keyed_base_perm [OF that(3)]]) (simp_all add: that)
    note rel = that
    have "table_source base key rel"
      by (rule rewrite_post(1) [where P = "\<lambda>E. keyed_rows", OF rel sig proj]) (assumption+, erule (2) perm)
    moreover have "\<exists>rows. keyed_rows B rows \<and> (\<forall>path. den E B path rel = Some rows)"
      if E: "engine_ok E" "base_rows_ok base B" for E B
      by (rule rewrite_post(2) [where P = "\<lambda>E. keyed_rows", OF rel sig proj _ E]) (assumption+, erule (2) perm)
    ultimately show ?thesis by (simp add: keyed_source_def)
  qed
  show ?thesis
    unfolding code
    by (rule gspec_bind [OF ask_spec [OF assms(1) make req]])
      (use assms(2,3) keyed Cons in \<open>auto intro!: gspec_return split: option.split\<close>)
qed

end

end
