(* ===== verification/Coa_Predicates.thy ===== *)
theory Coa_Predicates
  imports Coa_Children
begin

text \<open>
  The predicates the rewrites filter with: well-formed over the base columns, and what the rows
  they keep add up to.  The parity split and the three-way split cover every row exactly once; the
  always-true condition of \<open>eet.py\<close> keeps every row.
\<close>


section \<open>Columns of the base table\<close>

lemma eval_base_column:
  assumes "distinct (column_names t)" "c \<in> set (tab_columns t)" "row_ok t r"
  shows "\<exists>v. eval_row E (base_scope t) r (ColumnRef (col_name c) ty None) = Some v \<and> value_ok (col_type c) v"
proof -
  obtain k where k: "k < length (tab_columns t)" "c = tab_columns t ! k"
    using assms(2) by (auto simp: in_set_conv_nth)
  then have "resolve (base_scope t) None (column_names t ! k) = Some k"
    using assms(1) by (intro resolve_plain) simp_all
  moreover have "column_names t ! k = col_name c" using k by (simp add: column_names_def)
  ultimately show ?thesis using row_ok_value [OF assms(3) k(1)] k(2) by simp
qed


section \<open>Well-formed predicates\<close>

lemma pred_ok_generated [simp]: "pred_ok t (GeneratedPredicate s)"
  by (rule pred_okI) (auto simp: truth_of_def split: option.split)

lemma pred_ok_empty [simp]: "pred_ok t empty_predicate"
  by (rule pred_okI) (auto simp: empty_predicate_def coa_simps sql_cmp_def)

lemma pred_ok_not:
  assumes "pred_ok t p"
  shows "pred_ok t (NotE p)"
proof (rule pred_okI)
  fix E r
  assume "engine_ok E" "row_ok t r"
  with assms show "\<exists>b. eval_row E (base_scope t) r (NotE p) = Some (SBool b) \<or> eval_row E (base_scope t) r (NotE p) = Some SNull"
    by (rule pred_ok_cases) auto
qed (use assms in \<open>simp add: pred_ok_scalar\<close>)

lemma pred_ok_isnull:
  assumes "pred_ok t p"
  shows "pred_ok t (IsNull p neg)"
proof (rule pred_okI)
  fix E r
  assume "engine_ok E" "row_ok t r"
  with assms show "\<exists>b. eval_row E (base_scope t) r (IsNull p neg) = Some (SBool b) \<or> eval_row E (base_scope t) r (IsNull p neg) = Some SNull"
    by (rule pred_ok_cases) auto
qed (use assms in \<open>simp add: pred_ok_scalar\<close>)

lemma pred_ok_bool:
  assumes "pred_ok t p" "pred_ok t q" "op = ''AND'' \<or> op = ''OR''"
  shows "pred_ok t (BoolOp op p q)"
proof (rule pred_okI)
  fix E r
  assume E: "engine_ok E" "row_ok t r"
  show "\<exists>b. eval_row E (base_scope t) r (BoolOp op p q) = Some (SBool b) \<or> eval_row E (base_scope t) r (BoolOp op p q) = Some SNull"
    by (rule pred_ok_cases [OF assms(1) E]; rule pred_ok_cases [OF assms(2) E]) (use assms(3) in auto)
qed (use assms in \<open>simp add: pred_ok_scalar\<close>)

lemma pred_ok_conjoin:
  "(\<And>c. current = Some c \<Longrightarrow> pred_ok t c) \<Longrightarrow> pred_ok t p \<Longrightarrow> pred_ok t (conjoin current p)"
  by (cases current) (auto simp: conjoin_def and_e_def intro: pred_ok_bool)

lemma pred_ok_branch: "request_ok t cs \<Longrightarrow> pred_ok t p \<Longrightarrow> pred_ok t (conjoin (current_filter cs) p)"
  by (rule pred_ok_conjoin) (auto simp: request_ok_def)

lemma pred_ok_determined: "pred_ok t p \<Longrightarrow> pred_ok t (determined_true p)"
  by (simp add: determined_true_def coa_simps pred_ok_bool pred_ok_not pred_ok_isnull)


section \<open>What they keep\<close>

lemma condition_and:
  assumes "pred_ok t p" "pred_ok t q" "engine_ok E" "row_ok t r"
  shows "condition E (base_scope t) (BoolOp ''AND'' p q) r = Some True \<longleftrightarrow>
    condition E (base_scope t) p r = Some True \<and> condition E (base_scope t) q r = Some True"
  using pred_ok_scalar [OF assms(1)] pred_ok_scalar [OF assms(2)]
  by (rule_tac pred_ok_cases [OF assms(1,3,4)]; rule_tac pred_ok_cases [OF assms(2,3,4)])
    (simp_all add: condition_def)

text \<open>The always-true condition keeps every row.\<close>

lemma condition_determined:
  assumes "pred_ok t p" "engine_ok E" "row_ok t r"
  shows "condition E (base_scope t) (determined_true p) r = Some True"
  using pred_ok_scalar [OF assms(1)]
  by (rule_tac pred_ok_cases [OF assms]) (simp_all add: condition_def determined_true_def coa_simps)

lemma eval_determined:
  assumes "pred_ok t p" "engine_ok E" "row_ok t r"
  shows "eval_row E (base_scope t) r (determined_true p) = Some (SBool True)"
  by (rule_tac pred_ok_cases [OF assms]) (simp_all add: determined_true_def coa_simps)

text \<open>A three-valued predicate, its negation and its \<open>IS NULL\<close> split the rows.\<close>

lemma tlp_split:
  assumes "pred_ok t p" "engine_ok E" "base_rows_ok t rows"
  shows "mset (filter (\<lambda>r. condition E (base_scope t) p r = Some True) rows)
       + (mset (filter (\<lambda>r. condition E (base_scope t) (not_e p) r = Some True) rows)
       + mset (filter (\<lambda>r. condition E (base_scope t) (is_null p) r = Some True) rows)) = mset rows"
proof (rule filter_split3)
  fix r
  assume "r \<in> set rows"
  with assms(3) have "row_ok t r" by (simp add: base_rows_ok_def)
  note pred_ok_scalar [OF assms(1), simp]
  show "(condition E (base_scope t) p r = Some True \<and> \<not> condition E (base_scope t) (not_e p) r = Some True
           \<and> \<not> condition E (base_scope t) (is_null p) r = Some True)
    \<or> (\<not> condition E (base_scope t) p r = Some True \<and> condition E (base_scope t) (not_e p) r = Some True
           \<and> \<not> condition E (base_scope t) (is_null p) r = Some True)
    \<or> (\<not> condition E (base_scope t) p r = Some True \<and> \<not> condition E (base_scope t) (not_e p) r = Some True
           \<and> condition E (base_scope t) (is_null p) r = Some True)"
    by (rule pred_ok_cases [OF assms(1,2) \<open>row_ok t r\<close>]) (simp_all add: condition_def coa_simps)
qed

text \<open>The parity split: \<open>MOD(k, 2) = 0\<close> against \<open>MOD(k, 2) <> 0 OR k IS NULL\<close>.\<close>

definition even_branch :: "string \<Rightarrow> sql_type \<Rightarrow> expr" where
  "even_branch nm ty = eq (mod_e (col nm ty) 2) (int_lit 0)"

definition odd_branch :: "string \<Rightarrow> sql_type \<Rightarrow> expr" where
  "odd_branch nm ty = or_e (ne (mod_e (col nm ty) 2) (int_lit 0)) (is_null (col nm ty))"

definition key_column_ok :: "table \<Rightarrow> string \<Rightarrow> sql_type \<Rightarrow> bool" where
  "key_column_ok t nm ty \<longleftrightarrow> distinct (column_names t) \<and>
     (\<exists>c \<in> set (tab_columns t). nm = col_name c \<and> ty = col_type c \<and> integer_keyed (col_type c))"

lemma key_column_value:
  assumes "key_column_ok t nm ty" "row_ok t r"
  obtains "eval_row E (base_scope t) r (ColumnRef nm ty None) = Some SNull"
    | i where "eval_row E (base_scope t) r (ColumnRef nm ty None) = Some (SInt i)"
proof -
  obtain c where c: "c \<in> set (tab_columns t)" "nm = col_name c" "integer_keyed (col_type c)" "distinct (column_names t)"
    using assms(1) by (auto simp: key_column_ok_def)
  from eval_base_column [OF c(4,1) assms(2), of E ty] c that show thesis
    by (auto simp: value_ok_def)
qed

lemma engine_eq [simp]: "engine_ok E \<Longrightarrow> en_cmp E ''='' (SInt a) (SInt b) \<longleftrightarrow> a = b"
  by (simp only: engine_ok_def)

lemma engine_ne [simp]: "engine_ok E \<Longrightarrow> en_cmp E ''<>'' (SInt a) (SInt b) \<longleftrightarrow> a \<noteq> b"
  by (simp only: engine_ok_def)

lemma engine_ge [simp]: "engine_ok E \<Longrightarrow> en_cmp E ''>='' (SInt a) (SInt b) \<longleftrightarrow> b \<le> a"
  by (simp only: engine_ok_def)

lemma pred_ok_even: "key_column_ok t nm ty \<Longrightarrow> pred_ok t (eq (mod_e (col nm ty) 2) (int_lit n))"
  by (rule pred_okI, simp add: coa_simps, erule key_column_value, assumption)
    (auto simp: coa_simps sql_cmp_def)

lemma pred_ok_odd: "key_column_ok t nm ty \<Longrightarrow> pred_ok t (odd_branch nm ty)"
  by (rule pred_okI, simp add: coa_simps odd_branch_def, erule key_column_value, assumption)
    (auto simp: coa_simps sql_cmp_def odd_branch_def)

lemma parity_split:
  assumes "key_column_ok t nm ty" "engine_ok E" "base_rows_ok t rows"
  shows "mset (filter (\<lambda>r. condition E (base_scope t) (even_branch nm ty) r = Some True) rows)
       + mset (filter (\<lambda>r. condition E (base_scope t) (odd_branch nm ty) r = Some True) rows) = mset rows"
proof -
  have "condition E (base_scope t) (odd_branch nm ty) r = Some True
      \<longleftrightarrow> \<not> condition E (base_scope t) (even_branch nm ty) r = Some True" if "r \<in> set rows" for r
  proof -
    have "row_ok t r" using that assms(3) by (simp add: base_rows_ok_def)
    from assms(1) this show ?thesis
      by (rule key_column_value [where E = E])
        (use assms(2) in \<open>auto simp: condition_def even_branch_def odd_branch_def coa_simps sql_cmp_def\<close>)
  qed
  then have "filter (\<lambda>r. condition E (base_scope t) (odd_branch nm ty) r = Some True) rows
      = filter (\<lambda>r. \<not> condition E (base_scope t) (even_branch nm ty) r = Some True) rows"
    by (rule filter_cong [OF refl])
  then show ?thesis by (simp only: filter_split2)
qed


section \<open>A filter on top of the request's filter\<close>

lemma wanted_branch:
  assumes "request_ok t cs" "pred_ok t p" "engine_ok E" "base_rows_ok t B"
  shows "wanted E t [RowFilterConstraint (conjoin (current_filter cs) p)] B
      = filter (\<lambda>r. condition E (base_scope t) p r = Some True) (wanted E t cs B)"
proof (cases "current_filter cs")
  case None
  then show ?thesis by (simp add: wanted_def conjoin_def)
next
  case (Some c)
  then have c: "pred_ok t c" using assms(1) by (simp add: request_ok_def)
  have "filter (\<lambda>r. condition E (base_scope t) (and_e c p) r = Some True) B
      = filter (\<lambda>r. condition E (base_scope t) c r = Some True \<and> condition E (base_scope t) p r = Some True) B"
    using assms(4) by (intro filter_cong refl) (simp add: and_e_def condition_and [OF c assms(2,3)] base_rows_ok_def)
  then show ?thesis using Some by (simp add: wanted_def conjoin_def conj_commute)
qed

lemma wanted_empty: "wanted E t [RowFilterConstraint empty_predicate] B = []" if "engine_ok E"
  using that by (simp add: wanted_def condition_def empty_predicate_def coa_simps sql_cmp_def)


section \<open>Where predicates come from\<close>

context subtree_provider begin

lemma generated_spec:
  assumes "env_ok env"
  shows "gspec d E (generated_predicate_for env) (\<lambda>r. \<forall>p. r = Some p \<longrightarrow> pred_ok base p)"
proof (cases "the_predicate_source env")
  case None
  then show ?thesis unfolding generated_predicate_for_def by (simp add: wp)
next
  case (Some source)
  then have "source_ok base source" using assms by (simp add: env_ok_def)
  with Some show ?thesis
    unfolding generated_predicate_for_def
    by (auto simp: generated_predicate_def source_ok_def intro!: wp split: option.splits)
qed

lemma free_spec:
  assumes "env_ok env"
  shows "gspec d E (free_predicate env) (\<lambda>r. \<forall>p. r = Some p \<longrightarrow> pred_ok base p)"
proof -
  have keys: "options_ok (key_selection_weights (config env))" and distinct: "distinct (column_names base)"
    using assms env_distinct by (auto simp: env_ok_def config_ok_def)
  have "pred_ok base (ge (col (col_name c) (col_type c)) (col (col_name c) (col_type c)))"
    "pred_ok base (is_null (col (col_name c) (col_type c)))" if "c \<in> set (tab_columns base)" for c
    by (rule pred_okI; use eval_base_column [OF distinct that] in \<open>fastforce simp: coa_simps sql_cmp_def\<close>)+
  with keys show ?thesis
    unfolding free_predicate_def
    by (intro gspec_bind [OF generated_spec [OF assms]]) (auto simp: Let_def intro!: wp split: option.split)
qed

lemma pick_key_spec:
  assumes "env_ok env"
  shows "gspec d E (pick_integer_key env) (\<lambda>r. \<forall>nm ty. r = Some (nm, ty) \<longrightarrow> key_column_ok base nm ty)"
proof -
  have keys: "options_ok (key_selection_weights (config env))" and distinct: "distinct (column_names base)"
    using assms env_distinct by (auto simp: env_ok_def config_ok_def)
  with distinct show ?thesis
    unfolding pick_integer_key_def Let_def
    by (auto intro!: wp simp: key_column_ok_def)
qed

lemma mutation_spec:
  assumes "env_ok env"
  shows "gspec d E (mutation_predicate env) (\<lambda>r. \<forall>p. r = Some p \<longrightarrow> pred_ok base p)"
  unfolding mutation_predicate_def
  by (intro gspec_bind [OF generated_spec [OF assms]])
    (auto intro!: wp gspec_obind [OF gspec_weaken [OF pick_key_spec [OF assms]],
        where R = "\<lambda>k. key_column_ok base (fst k) (snd k)"] pred_ok_even split: option.split)

end

end
