(* ===== verification/Coa_Sound_Select.thy ===== *)
theory Coa_Sound_Select
  imports Coa_Predicates
begin

text \<open>
  The rewrites that read one source: \<open>SELECT\<close>, \<open>CTE\<close>, \<open>LATERAL\<close>, \<open>QUALIFY\<close>, \<open>ORDER BY\<close>,
  \<open>GROUP BY\<close> over a key, and the objects that materialize a query.  For each, what its node denotes,
  then the builder's contract in the locale.
\<close>


section \<open>Nodes over one source\<close>

lemma select_plain:
  "select_rows E sc src projection w False None None None =
     Option.bind (where_rows E sc w src) (\<lambda>rows.
       case projection of Some items \<Rightarrow> project_rows E sc items rows | None \<Rightarrow> Some rows)"
  by (cases projection) (simp_all add: select_rows_def qualify_rows_def [abs_def])

lemma den_select_plain:
  "den E B path (plain_select i s projection w) =
     Option.bind (den E B (i # path) s) (\<lambda>rows.
     Option.bind (where_rows E (scope_of s) w (en_scan E (i # path) rows)) (\<lambda>kept.
       case projection of Some items \<Rightarrow> project_rows E (scope_of s) items kept | None \<Rightarrow> Some kept))"
  by (simp add: select_plain)

text \<open>What reaches the projection: the wanted base rows, in some order.\<close>

lemma scan_where:
  assumes "reads_base t s" "request_ok t cs" "engine_ok E" "base_rows_ok t B"
  obtains rows kept where "den E B path s = Some rows"
    "where_rows E (scope_of s) (current_filter cs) (en_scan E p rows) = Some kept"
    "mset kept = mset (wanted E t cs B)" "base_rows_ok t kept"
proof -
  obtain rows where rows: "den E B path s = Some rows" "mset (en_scan E p rows) = mset B"
    "base_rows_ok t (en_scan E p rows)"
    using scanned [OF assms(1,3,4)] by (metis wanted_Nil)
  obtain kept where "where_rows E (base_scope t) (current_filter cs) (en_scan E p rows) = Some kept"
    "mset kept = mset (wanted E t cs B)"
    using where_wanted [OF assms(2,3,4) rows(2)] by blast
  with rows show thesis
    using that names_delivers(2) [OF assms(1)] base_rows_perm [OF wanted_ok [OF assms(4)]] by metis
qed

definition identity_items :: "table \<Rightarrow> proj_item list \<Rightarrow> bool" where
  "identity_items t items \<longleftrightarrow> item_signature items = table_signature t \<and>
     (\<forall>E rows. engine_ok E \<longrightarrow> base_rows_ok t rows \<longrightarrow> project_rows E (base_scope t) items rows = Some rows)"

lemma identity_plain: "distinct (column_names t) \<Longrightarrow> identity_items t (plain_items (table_signature t))"
  by (simp add: identity_items_def project_base)

lemma star_delivers:
  assumes "reads_base t s" "request_ok t cs"
  shows "delivers t cs (plain_select i s None (current_filter cs))"
  unfolding delivers_def
proof (intro conjI allI impI)
  fix E B path
  assume E: "engine_ok E" "base_rows_ok t B"
  obtain rows kept where "den E B (i # path) s = Some rows"
    "where_rows E (scope_of s) (current_filter cs) (en_scan E (i # path) rows) = Some kept"
    "mset kept = mset (wanted E t cs B)"
    using scan_where [OF assms E] .
  then show "\<exists>rows. den E B path (plain_select i s None (current_filter cs)) = Some rows \<and> mset rows = mset (wanted E t cs B)"
    by (simp add: den_select_plain del: den.simps)
qed (use assms(1) in \<open>simp_all add: delivers_def\<close>)

lemma items_deliver:
  assumes "reads_base t s" "request_ok t cs" "identity_items t items"
  shows "delivers t cs (plain_select i s (Some items) (current_filter cs))"
  unfolding delivers_def
proof (intro conjI allI impI)
  fix E B path
  assume E: "engine_ok E" "base_rows_ok t B"
  obtain rows kept where k: "den E B (i # path) s = Some rows"
    "where_rows E (scope_of s) (current_filter cs) (en_scan E (i # path) rows) = Some kept"
    "mset kept = mset (wanted E t cs B)" "base_rows_ok t kept"
    using scan_where [OF assms(1,2) E] .
  have "project_rows E (scope_of s) items kept = Some kept"
    using assms(3) E(1) k(4) names_delivers(2) [OF assms(1)] by (simp add: identity_items_def)
  with k show "\<exists>rows. den E B path (plain_select i s (Some items) (current_filter cs)) = Some rows \<and> mset rows = mset (wanted E t cs B)"
    by (simp add: den_select_plain del: den.simps)
qed (use assms in \<open>simp_all add: delivers_def identity_items_def\<close>)

lemma cte_delivers:
  assumes "reads_base t s" "request_ok t cs"
  shows "delivers t cs (CteQuery i s nm (current_filter cs) m)"
  unfolding delivers_def
proof (intro conjI allI impI)
  fix E B path
  assume E: "engine_ok E" "base_rows_ok t B"
  obtain rows kept where "den E B (i # path) s = Some rows"
    "where_rows E (scope_of s) (current_filter cs) (en_scan E (i # path) rows) = Some kept"
    "mset kept = mset (wanted E t cs B)"
    using scan_where [OF assms E] .
  then show "\<exists>rows. den E B path (CteQuery i s nm (current_filter cs) m) = Some rows \<and> mset rows = mset (wanted E t cs B)"
    by simp
qed (use assms(1) in \<open>simp_all add: delivers_def\<close>)

lemma read_all_columns:
  assumes "distinct names" "\<forall>r \<in> set rows. length r = length names"
  shows "map_opt (\<lambda>nm. resolve (map (Pair sa) names) (Some sa) nm) names = Some [0..<length names]"
    "map (\<lambda>r. map (\<lambda>k. r ! k) [0..<length names]) rows = rows"
proof -
  show "map_opt (\<lambda>nm. resolve (map (Pair sa) names) (Some sa) nm) names = Some [0..<length names]"
    unfolding map_opt_Some list_all2_conv_all_nth using assms(1) by (simp add: resolve_plain)
  show "map (\<lambda>r. map (\<lambda>k. r ! k) [0..<length names]) rows = rows"
    using assms(2) by (intro map_idI) (auto intro: nth_equalityI)
qed

lemma lateral_delivers:
  assumes "reads_base t s" "distinct (column_names t)"
  shows "delivers t [] (LateralReprojectQuery i s sa la)"
  unfolding delivers_def
proof (intro conjI allI impI)
  fix E B path
  assume E: "engine_ok E" "base_rows_ok t B"
  obtain rows where rows: "den E B (i # path) s = Some rows" "mset (en_scan E (i # path) rows) = mset B"
    "base_rows_ok t (en_scan E (i # path) rows)"
    using scanned [OF assms(1) E] by (metis wanted_Nil)
  have len: "\<forall>r \<in> set (en_scan E (i # path) rows). length r = length (column_names t)"
    using rows(3) by (auto simp: base_rows_ok_def row_ok_length)
  show "\<exists>rows. den E B path (LateralReprojectQuery i s sa la) = Some rows \<and> mset rows = mset (wanted E t [] B)"
    using rows read_all_columns [OF assms(2) len] names_delivers(1) [OF assms(1)] by simp
qed (use assms(1) in \<open>simp_all add: delivers_def\<close>)

lemma ordered_delivers:
  assumes "reads_base t s" "distinct (column_names t)" "tab_columns t \<noteq> []"
  shows "delivers t [] (SelectQuery i s (Some (plain_items (table_signature t))) None False None None
      (Some [first_column (plain_items (table_signature t))]))"
  unfolding delivers_def
proof (intro conjI allI impI)
  fix E B path
  assume E: "engine_ok E" "base_rows_ok t B"
  obtain rows where rows: "den E B (i # path) s = Some rows" "mset (en_scan E (i # path) rows) = mset B"
    "base_rows_ok t (en_scan E (i # path) rows)"
    using scanned [OF assms(1) E] by (metis wanted_Nil)
  let ?rows = "en_scan E (i # path) rows" and ?key = "first_column (plain_items (table_signature t))"
  obtain c cs where c: "tab_columns t = c # cs" using assms(3) by (cases "tab_columns t") auto
  have "\<exists>v. eval_row E (base_scope t) r ?key = Some v" if "r \<in> set ?rows" for r
    using eval_base_column [OF assms(2), of c r] that rows(3) c
    by (auto simp: first_column_def coa_simps table_signature_def base_rows_ok_def)
  moreover have "scalar ?key" by (simp add: first_column_def coa_simps)
  ultimately obtain vs where "map_opt (\<lambda>j. map_opt (\<lambda>k. eval E (base_scope t) ?rows k j) [?key]) [0..<length ?rows] = Some vs"
    using eval_all_rows by metis
  then show "\<exists>out. den E B path (SelectQuery i s (Some (plain_items (table_signature t))) None False None None (Some [?key])) = Some out
      \<and> mset out = mset (wanted E t [] B)"
    using rows names_delivers(2) [OF assms(1)] project_base [OF assms(2) rows(3)]
    by (simp add: select_rows_def where_rows_def qualify_rows_def)
qed (use assms(1) in \<open>simp_all add: delivers_def\<close>)

text \<open>Ranks start at 1, so \<open>QUALIFY rank >= 1\<close> keeps everything.\<close>

lemma qualify_delivers:
  assumes "reads_base t s" "distinct (column_names t)" "tab_columns t \<noteq> []"
  shows "delivers t [] (SelectQuery i s (Some (plain_items (table_signature t))) None False None
      (Some (ge (row_number [first_column (plain_items (table_signature t))]) (int_lit 1))) None)"
  unfolding delivers_def
proof (intro conjI allI impI)
  fix E B path
  assume E: "engine_ok E" "base_rows_ok t B"
  obtain rows where rows: "den E B (i # path) s = Some rows" "mset (en_scan E (i # path) rows) = mset B"
    "base_rows_ok t (en_scan E (i # path) rows)"
    using scanned [OF assms(1) E] by (metis wanted_Nil)
  let ?rows = "en_scan E (i # path) rows" and ?key = "first_column (plain_items (table_signature t))"
  obtain c cs where c: "tab_columns t = c # cs" using assms(3) by (cases "tab_columns t") auto
  have "\<exists>v. eval_row E (base_scope t) r ?key = Some v" if "r \<in> set ?rows" for r
    using eval_base_column [OF assms(2), of c r] that rows(3) c
    by (auto simp: first_column_def coa_simps table_signature_def base_rows_ok_def)
  moreover have "scalar ?key" by (simp add: first_column_def coa_simps)
  ultimately obtain ks where ks: "length ks = length ?rows"
    "\<forall>j < length ?rows. eval E (base_scope t) ?rows (row_number [?key]) j = Some (SInt (int (en_rank E ks ! j)))"
    using eval_row_number by blast
  have "map_opt (\<lambda>j. Option.bind (eval E (base_scope t) ?rows (ge (row_number [?key]) (int_lit 1)) j) accepts) [0..<length ?rows]
      = Some (map (\<lambda>j. True) [0..<length ?rows])"
  proof (rule map_opt_total)
    fix j
    assume "j \<in> set [0..<length ?rows]"
    then have j: "j < length ?rows" by simp
    then have "en_rank E ks ! j \<in> {1..length ks}" using engine_rank(2,3) [OF E(1), of ks] ks(1) nth_mem by metis
    then show "Option.bind (eval E (base_scope t) ?rows (ge (row_number [?key]) (int_lit 1)) j) accepts = Some True"
      using j ks(2) E(1) by (simp add: ge_def int_lit_def sql_cmp_def)
  qed
  moreover have "keep_where (map (\<lambda>j. True) [0..<length ?rows]) ?rows = ?rows"
    by (simp add: keep_where_def filter_id_conv map_replicate_const zip_replicate2 o_def)
  ultimately show "\<exists>out. den E B path (SelectQuery i s (Some (plain_items (table_signature t))) None False None
      (Some (ge (row_number [?key]) (int_lit 1))) None) = Some out \<and> mset out = mset (wanted E t [] B)"
    using rows names_delivers(2) [OF assms(1)] project_base [OF assms(2) rows(3)]
    by (simp add: select_rows_def where_rows_def qualify_rows_def)
qed (use assms(1) in \<open>simp_all add: delivers_def\<close>)


section \<open>Nodes over a keyed table\<close>

lemma keyed_scan:
  assumes "keyed_source t key n" "engine_ok E" "base_rows_ok t B"
  obtains rows where "\<forall>path. den E B path n = Some rows" "\<forall>p. keyed_rows B (en_scan E p rows)"
    "\<forall>p. \<forall>r \<in> set (en_scan E p rows). length r = length (column_names t @ [key])"
proof -
  obtain rows where rows: "\<And>path. den E B path n = Some rows" "keyed_rows B rows"
    using assms unfolding keyed_source_def by blast
  have keyed: "keyed_rows B (en_scan E p rows)" for p using keyed_perm [OF rows(2)] assms(2) by simp
  have "length r = length (column_names t @ [key])" if "r \<in> set (en_scan E p rows)" for p r
    using keyed_lengths(1) [OF keyed assms(3) that] by simp
  with rows keyed show thesis by (intro that) auto
qed

lemma keyed_names: "keyed_source t key n \<Longrightarrow> names_of n = column_names t @ [key]"
  "keyed_source t key n \<Longrightarrow> scope_of n = map (Pair []) (column_names t @ [key])"
  by (auto simp: keyed_source_def names_table_source)

lemma keyed_shape: "keyed_source t key n \<Longrightarrow> is_relation n \<and> well_formed n \<and> materialized_name n \<noteq> None \<and> writable n"
  by (simp add: keyed_source_def table_source_def)

text \<open>Reading the key column of such a row.\<close>

lemma eval_key:
  assumes "distinct (column_names t @ [key])" "length r = length (column_names t @ [key])"
  shows "eval_row E (map (Pair []) (column_names t @ [key])) r (col key IntegerType) = Some (last r)"
proof -
  have "resolve (map (Pair []) (column_names t @ [key])) None ((column_names t @ [key]) ! length (column_names t)) = Some (length (column_names t))"
    by (rule resolve_plain(1) [OF assms(1)]) simp
  then have "resolve (map (Pair []) (column_names t @ [key])) None key = Some (length (column_names t))" by (simp add: nth_append)
  moreover have "r \<noteq> []" using assms(2) by auto
  then have "r ! length (column_names t) = last r" using assms(2) by (simp add: last_conv_nth)
  ultimately show ?thesis by (simp add: coa_simps)
qed

lemma project_keyed:
  assumes "distinct (column_names t @ [key])" "\<forall>r \<in> set rows. length r = length (column_names t @ [key])"
  shows "project_rows E (map (Pair []) (column_names t @ [key])) (plain_items (table_signature t)) rows = Some (map butlast rows)"
proof -
  have "map (take (length (column_names t))) rows = map butlast rows"
    using assms(2) by (intro map_cong) (auto simp: butlast_conv_take)
  then show ?thesis using project_base_prefix [OF assms(1), of rows E] assms(2) by simp
qed

text \<open>Grouping by every column and the key: each group is one row.\<close>

lemma group_by_delivers:
  assumes "keyed_source t key n" "distinct (column_names t @ [key])"
  shows "delivers t [] (SelectQuery i n (Some (plain_items (table_signature t))) None False
      (Some (map (\<lambda>it. col (pi_alias it) (pi_type it)) (plain_items (table_signature t)) @ [col key IntegerType])) None None)"
    (is "delivers t [] ?node")
  unfolding delivers_def
proof (intro conjI allI impI)
  fix E B path
  assume E: "engine_ok E" "base_rows_ok t B"
  obtain stored where den: "\<forall>path. den E B path n = Some stored" and keyed_any: "\<forall>p. keyed_rows B (en_scan E p stored)"
    and len_any: "\<forall>p. \<forall>r \<in> set (en_scan E p stored). length r = length (column_names t @ [key])"
    by (rule keyed_scan [OF assms(1) E])
  note keyed = spec [OF keyed_any, of "i # path"] and len = spec [OF len_any, of "i # path"]
  let ?rows = "en_scan E (i # path) stored" and ?sc = "map (Pair []) (column_names t @ [key])"
  let ?items = "plain_items (table_signature t)"
  let ?keys = "map (\<lambda>it. col (pi_alias it) (pi_type it)) ?items @ [col key IntegerType]"
  have exprs: "map (\<lambda>it. col (pi_alias it) (pi_type it)) ?items = map pi_expr ?items"
    by (auto simp: plain_items_def)
  have local: "eval E ?sc ?rows e j = eval_row E ?sc (?rows ! j) e" if "e \<in> set ?keys" for e j
    using that by (auto intro!: eval_scalar simp: plain_items_def coa_simps)
  have base_vals: "map_opt (\<lambda>it. eval_row E ?sc r (pi_expr it)) ?items = Some (butlast r)" if "length r = length (column_names t @ [key])" for r
    using eval_plain_prefix [OF assms(2) that, where sig = "table_signature t" and E = E and a = "[]"] that
    by (simp add: butlast_conv_take)
  have vals: "map_opt (\<lambda>k. eval_row E ?sc r k) ?keys = Some r" if r: "length r = length (column_names t @ [key])" for r
  proof -
    have "map_opt (\<lambda>k. eval_row E ?sc r k) (map pi_expr ?items) = Some (butlast r)"
      using base_vals [OF r] by (simp add: map_opt_def o_def)
    moreover have "r \<noteq> []" using r by auto
    ultimately show ?thesis
      unfolding exprs by (simp add: map_opt_append eval_key [OF assms(2) r] del: map_append)
  qed
  have all: "map_opt (\<lambda>j. map_opt (\<lambda>k. eval E ?sc ?rows k j) ?keys) [0..<length ?rows] = Some ?rows"
  proof -
    have "map_opt (\<lambda>j. map_opt (\<lambda>k. eval E ?sc ?rows k j) ?keys) [0..<length ?rows]
        = map_opt (\<lambda>j. map_opt (\<lambda>k. eval_row E ?sc (?rows ! j) k) ?keys) [0..<length ?rows]"
      by (intro map_opt_cong refl) (simp only: local)
    also have "\<dots> = map_opt (\<lambda>r. map_opt (\<lambda>k. eval_row E ?sc r k) ?keys) ?rows"
      by (rule map_opt_index)
    also have "\<dots> = Some (map (\<lambda>r. r) ?rows)" by (rule map_opt_total) (use vals len in blast)
    finally show ?thesis by simp
  qed
  have apart: "told_apart E ?rows [0..<length ?rows]"
    unfolding told_apart_def
  proof (intro ballI)
    fix j k
    assume "j \<in> set [0..<length ?rows]" "k \<in> set [0..<length ?rows]"
    then have jk: "?rows ! j \<in> set ?rows" "?rows ! k \<in> set ?rows" by simp_all
    obtain b x where bx: "?rows ! j = b @ [SInt x]" by (rule keyed_row [OF keyed jk(1)])
    obtain c y where cy: "?rows ! k = c @ [SInt y]" by (rule keyed_row [OF keyed jk(2)])
    show "same_vals E (?rows ! j) (?rows ! k) \<longleftrightarrow> ?rows ! j = ?rows ! k"
    proof
      assume "same_vals E (?rows ! j) (?rows ! k)"
      then have "x = y" unfolding bx cy by (rule same_vals_last [OF E(1)])
      then have "last (?rows ! j) = last (?rows ! k)" by (simp only: bx cy last_snoc)
      then show "?rows ! j = ?rows ! k" by (rule keyed_inj [OF keyed jk])
    qed (simp only: same_vals_refl [OF E(1)])
  qed
  let ?gs = "group_indices E ?rows [0..<length ?rows]"
  have item: "group_item E ?sc ?rows ?keys g (pi_expr it) = eval_row E ?sc (?rows ! hd g) (pi_expr it)" if "it \<in> set ?items" for g it
  proof -
    have "pi_expr it \<in> set ?keys" unfolding exprs using that by simp
    moreover from this have "group_item E ?sc ?rows ?keys g (pi_expr it) = eval E ?sc ?rows (pi_expr it) (hd g)"
      using that by (auto simp: group_item_def plain_items_def coa_simps)
    ultimately show ?thesis using local by simp
  qed
  have in_range: "?rows ! hd g \<in> set ?rows" if "g \<in> set ?gs" for g
    using group_members [OF apart that] by (metis atLeastLessThan_iff hd_in_set nth_mem set_upt subsetD)
  have "map_opt (\<lambda>g. map_opt (\<lambda>it. group_item E ?sc ?rows ?keys g (pi_expr it)) ?items) ?gs
      = Some (map (\<lambda>g. butlast (?rows ! hd g)) ?gs)"
  proof (rule map_opt_total)
    fix g
    assume "g \<in> set ?gs"
    then have "length (?rows ! hd g) = length (column_names t @ [key])" using len in_range by blast
    then have "map_opt (\<lambda>it. eval_row E ?sc (?rows ! hd g) (pi_expr it)) ?items = Some (butlast (?rows ! hd g))"
      by (rule base_vals)
    moreover have "map_opt (\<lambda>it. group_item E ?sc ?rows ?keys g (pi_expr it)) ?items
        = map_opt (\<lambda>it. eval_row E ?sc (?rows ! hd g) (pi_expr it)) ?items"
      by (intro map_opt_cong refl item)
    ultimately show "map_opt (\<lambda>it. group_item E ?sc ?rows ?keys g (pi_expr it)) ?items = Some (butlast (?rows ! hd g))" by simp
  qed
  then have out: "group_rows E ?sc ?items ?keys ?rows = Some (map (\<lambda>g. butlast (?rows ! hd g)) ?gs)"
    unfolding group_rows_def all by simp
  have "mset (map (\<lambda>g. ?rows ! hd g) ?gs) = mset ?rows"
  proof (rule set_eq_iff_mset_eq_distinct [THEN iffD1])
    show "distinct (map (\<lambda>g. ?rows ! hd g) ?gs)" "distinct ?rows"
      using group_keys [OF apart] keyed_distinct [OF keyed] by simp_all
    have "(\<lambda>j. ?rows ! j) ` set [0..<length ?rows] = set ?rows"
      by (metis list.set_map map_nth)
    then show "set (map (\<lambda>g. ?rows ! hd g) ?gs) = set ?rows" using group_keys [OF apart] by simp
  qed
  then have "mset (map butlast (map (\<lambda>g. ?rows ! hd g) ?gs)) = mset (map butlast ?rows)" by (rule mset_eq_map)
  with keyed have "mset (map (\<lambda>g. butlast (?rows ! hd g)) ?gs) = mset B" by (simp add: keyed_rows_def o_def)
  with den out show "\<exists>rows. den E B path ?node = Some rows \<and> mset rows = mset (wanted E t [] B)"
    by (simp add: select_rows_def where_rows_def keyed_names [OF assms(1)])
qed (use keyed_shape [OF assms(1)] in simp_all)

end
