(* ===== verification/Coa_Sound_Query.thy ===== *)
theory Coa_Sound_Query
  imports Coa_Sound_Select
begin

text \<open>
  The contracts of the builders of \<open>sources.py\<close>, \<open>creates.py\<close>, \<open>selects.py\<close>, \<open>eet.py\<close>,
  \<open>window.py\<close> and \<open>roundtrips.py\<close>.
\<close>

text \<open>What a builder of result class \<open>cls\<close> returns for the request \<open>cs\<close>, if it returns anything.\<close>

definition makes :: "table \<Rightarrow> node_class \<Rightarrow> constraint_set \<Rightarrow> eqnode option \<Rightarrow> bool" where
  "makes t cls cs r \<longleftrightarrow> (\<forall>n. r = Some n \<longrightarrow> class_of n = cls \<and> post t cs n)"

lemma makes_None [simp]: "makes t cls cs None"
  by (simp add: makes_def)

lemma makes_Some [simp]: "makes t cls cs (Some n) \<longleftrightarrow> class_of n = cls \<and> post t cs n"
  by (simp add: makes_def)

lemma plain_items_empty [simp]: "plain_items sig = [] \<longleftrightarrow> sig = []"
  by (simp add: plain_items_def)

lemma table_signature_empty [simp]: "table_signature t = [] \<longleftrightarrow> tab_columns t = []"
  by (simp add: table_signature_def)

text \<open>A builder that supports no constraint answers only the empty request.\<close>

lemma no_constraints: "set (constraint_types cs) \<subseteq> {} \<Longrightarrow> cs = []"
  by (simp add: constraint_types_def)

lemma query_post: "delivers t [] n \<Longrightarrow> is_query n \<Longrightarrow> post t [] n"
  by (rule delivers_query_post) (simp_all add: constraint_types_def)


section \<open>Column rewrites\<close>

text \<open>An item per column whose expression has the column's value on every typed row.\<close>

definition rewrites_column :: "table \<Rightarrow> column \<Rightarrow> expr \<Rightarrow> bool" where
  "rewrites_column t c e \<longleftrightarrow>
     (\<forall>E rows i k. engine_ok E \<longrightarrow> base_rows_ok t rows \<longrightarrow> i < length rows \<longrightarrow> k < length (tab_columns t) \<longrightarrow>
        c = tab_columns t ! k \<longrightarrow> eval E (base_scope t) rows e i = Some (rows ! i ! k))"

lemma rewrite_identity:
  assumes "list_all2 (\<lambda>c it. pi_alias it = col_name c \<and> pi_type it = col_type c \<and> rewrites_column t c (pi_expr it)) (tab_columns t) items"
  shows "identity_items t items"
  unfolding identity_items_def
proof (intro conjI allI impI)
  show "item_signature items = table_signature t"
    using assms by (auto simp: item_signature_def table_signature_def list_all2_conv_all_nth intro: nth_equalityI)
  fix E rows
  assume E: "engine_ok E" "base_rows_ok t rows"
  have "map_opt (\<lambda>it. eval E (base_scope t) rows (pi_expr it) i) items = Some (rows ! i)" if "i < length rows" for i
    unfolding map_opt_Some list_all2_conv_all_nth
  proof (intro conjI allI impI)
    have "row_ok t (rows ! i)" using E(2) that by (simp add: base_rows_ok_def)
    then show "length items = length (rows ! i)" using assms by (simp add: row_ok_length list_all2_lengthD)
  next
    fix k
    assume k: "k < length items"
    then have "k < length (tab_columns t)" using assms by (simp add: list_all2_lengthD)
    moreover have "rewrites_column t (tab_columns t ! k) (pi_expr (items ! k))"
      using assms k by (simp add: list_all2_conv_all_nth)
    ultimately show "eval E (base_scope t) rows (pi_expr (items ! k)) i = Some (rows ! i ! k)"
      using E that unfolding rewrites_column_def by blast
  qed
  then have "project_rows E (base_scope t) items rows = Some (map (\<lambda>i. rows ! i) [0..<length rows])"
    unfolding project_rows_def by (intro map_opt_total) simp
  then show "project_rows E (base_scope t) items rows = Some rows" by (simp only: map_nth)
qed

lemma eval_own_column:
  assumes "distinct (column_names t)" "k < length (tab_columns t)"
  shows "eval E (base_scope t) rows (ColumnRef (col_name (tab_columns t ! k)) ty None) i = Some (rows ! i ! k)"
proof -
  have "resolve (base_scope t) None (column_names t ! k) = Some k" by (rule resolve_plain(1) [OF assms(1)]) (simp add: assms(2))
  then show ?thesis using assms(2) by (simp add: column_names_def)
qed

lemma rewrites_self: "distinct (column_names t) \<Longrightarrow> rewrites_column t c (col (col_name c) ty)"
  unfolding rewrites_column_def by (auto simp: col_def eval_own_column simp del: eval.simps)

text \<open>\<open>CASE WHEN <always true> THEN c ELSE NULL END\<close>.\<close>

lemma rewrites_case:
  assumes "distinct (column_names t)" "pred_ok t p"
  shows "rewrites_column t c (case_when (determined_true p) (col (col_name c) ty) (typed_null ty) ty)"
  unfolding rewrites_column_def
proof (intro allI impI)
  fix E rows i k
  assume E: "engine_ok E" "base_rows_ok t rows" "i < length rows" "k < length (tab_columns t)" "c = tab_columns t ! k"
  then have "row_ok t (rows ! i)" by (simp add: base_rows_ok_def)
  then have "eval E (base_scope t) rows (determined_true p) i = Some (SBool True)"
    using eval_scalar [OF pred_ok_scalar [OF pred_ok_determined [OF assms(2)]]] eval_determined [OF assms(2) E(1)] by simp
  moreover have "eval E (base_scope t) rows (col (col_name c) ty) i = Some (rows ! i ! k)"
    unfolding E(5) col_def by (rule eval_own_column [OF assms(1) E(4)])
  ultimately show "eval E (base_scope t) rows (case_when (determined_true p) (col (col_name c) ty) (typed_null ty) ty) i = Some (rows ! i ! k)"
    by (simp add: case_when_def)
qed

text \<open>A codec round trip of a text column, guarded against \<open>NULL\<close>.\<close>

lemma rewrites_codec:
  assumes "distinct (column_names t)" "codec_eligible (col_type c)"
  shows "rewrites_column t c (codec_roundtrip codec (col_name c) (col_type c))"
  unfolding rewrites_column_def
proof (intro allI impI)
  fix E rows i k
  assume E: "engine_ok E" "base_rows_ok t rows" "i < length rows" "k < length (tab_columns t)" "c = tab_columns t ! k"
  then have "value_ok (col_type c) (rows ! i ! k)" by (auto simp: base_rows_ok_def intro: row_ok_value)
  then have "rows ! i ! k = SNull \<or> (\<exists>s. rows ! i ! k = SStr s)"
    using assms(2) by (simp add: value_ok_def codec_eligible_def)
  moreover have "en_codec E codec (SStr s) = SStr s" for s using E(1) by (simp only: engine_ok_def)
  moreover have "eval E (base_scope t) rows (col (col_name c) (col_type c)) i = Some (rows ! i ! k)"
    using eval_own_column [OF assms(1) E(4)] unfolding E(5) col_def by blast
  ultimately show "eval E (base_scope t) rows (codec_roundtrip codec (col_name c) (col_type c)) i = Some (rows ! i ! k)"
    by (auto simp: codec_roundtrip_def case_when_def is_null_def typed_null_def value_codec_roundtrip_def)
qed

lemma engine_win: "engine_ok E \<Longrightarrow> f \<noteq> WinROW_NUMBER \<Longrightarrow> i < length vs \<Longrightarrow> en_win E f fr ks vs i \<in> set vs"
  unfolding engine_ok_def by blast

text \<open>A window function over the partition of the column's own value.\<close>

lemma rewrites_window:
  assumes "distinct (column_names t)" "window_eligible (col_type c) f ordered" "f \<noteq> WinROW_NUMBER"
  shows "rewrites_column t c (window_over f (Some (col (col_name c) ty)) [col (col_name c) ty] ty
      (if ordered then [col (col_name c) ty] else []) fr)"
  unfolding rewrites_column_def
proof (intro allI impI)
  fix E rows i k
  assume E: "engine_ok E" "base_rows_ok t rows" "i < length rows" "k < length (tab_columns t)" "c = tab_columns t ! k"
  let ?c = "col (col_name c) ty"
  have val: "eval E (base_scope t) rows ?c j = Some (rows ! j ! k)" for j
    unfolding E(5) col_def by (rule eval_own_column [OF assms(1) E(4)])
  let ?idx = "[0..<length rows]"
  let ?keys = "map (\<lambda>j. [rows ! j ! k]) ?idx"
  have pk: "map_opt (\<lambda>j. map_opt (\<lambda>e. eval E (base_scope t) rows e j) [?c]) ?idx = Some ?keys"
    by (rule map_opt_total) (simp add: val)
  have "\<exists>ok. map_opt (\<lambda>j. map_opt (\<lambda>e. eval E (base_scope t) rows e j) (if ordered then [?c] else [])) ?idx = Some ok"
    using pk map_opt_total [of ?idx "\<lambda>j. map_opt (\<lambda>e. eval E (base_scope t) rows e j) []" "\<lambda>j. []"] by (cases ordered) auto
  then obtain oks where ok: "map_opt (\<lambda>j. map_opt (\<lambda>e. eval E (base_scope t) rows e j) (if ordered then [?c] else [])) ?idx = Some oks" by blast
  have vs: "map_opt (\<lambda>j. eval E (base_scope t) rows ?c j) ?idx = Some (map (\<lambda>j. rows ! j ! k) ?idx)"
    by (rule map_opt_total) (simp add: val)
  define part where "part = filter (\<lambda>j. same_vals E (?keys ! i) (?keys ! j)) ?idx"
  define pos where "pos = length (filter (\<lambda>j. j < i) part)"
  have not_dbl: "\<not> is_dbl (rows ! j ! k)" if "j < length rows" for j
  proof -
    have "value_ok (col_type c) (rows ! j ! k)"
      using E(2,4,5) that by (auto simp: base_rows_ok_def intro: row_ok_value)
    then show ?thesis using assms(2) by (auto simp: value_ok_def window_eligible_def Let_def split: if_splits)
  qed
  have members: "rows ! j ! k = rows ! i ! k" if "j \<in> set part" for j
    using that E(3) not_dbl same_exact [OF E(1)] by (auto simp: part_def same_vals_def)
  have "i \<in> set part" using E(1,3) by (simp add: part_def)
  have "pos < length part"
    unfolding pos_def using \<open>i \<in> set part\<close> by (rule length_filter_less) simp
  let ?vals = "map (\<lambda>j. map (\<lambda>j. rows ! j ! k) ?idx ! j) part"
  have "set ?vals \<subseteq> {rows ! i ! k}"
  proof
    fix v
    assume "v \<in> set ?vals"
    then obtain j where j: "j \<in> set part" "v = map (\<lambda>j. rows ! j ! k) ?idx ! j" by auto
    then have "v = rows ! j ! k" by (simp add: part_def)
    also have "\<dots> = rows ! i ! k" by (rule members [OF j(1)])
    finally have "v = rows ! i ! k" .
    then show "v \<in> {rows ! i ! k}" by (simp only: singleton_iff)
  qed
  moreover have "en_win E f fr (map (\<lambda>j. oks ! j) part) ?vals pos \<in> set ?vals"
    by (rule engine_win [OF E(1) assms(3)]) (simp add: \<open>pos < length part\<close>)
  ultimately have "en_win E f fr (map (\<lambda>j. oks ! j) part) ?vals pos = rows ! i ! k" by blast
  then show "eval E (base_scope t) rows (window_over f (Some ?c) [?c] ty (if ordered then [?c] else []) fr) i = Some (rows ! i ! k)"
    using assms(3) by (simp only: window_over_def eval.simps those_map_opt pk ok vs Option.bind.simps Let_def
      part_def [symmetric] pos_def [symmetric] if_False option.case option.map)
qed


section \<open>Materializing a query\<close>

lemma optional_payload:
  "get_optional_constraint cs RowFilterC = map_option RowFilterConstraint (current_filter cs)"
  "get_optional_constraint cs ColumnRewriteC = map_option ColumnRewriteConstraint (column_rewrite cs)"
proof -
  show "get_optional_constraint cs RowFilterC = map_option RowFilterConstraint (current_filter cs)"
    using get_optional_type [of cs RowFilterC]
    by (auto simp: current_filter_def split: option.split elim!: type_of_constraint.elims)
  show "get_optional_constraint cs ColumnRewriteC = map_option ColumnRewriteConstraint (column_rewrite cs)"
    using get_optional_type [of cs ColumnRewriteC]
    by (auto simp: column_rewrite_def split: option.split elim!: type_of_constraint.elims)
qed

text \<open>The constraints a \<open>CREATE\<close> passes on: the filter and the columns, and nothing else.\<close>

definition passed_on :: "constraint_set \<Rightarrow> constraint_set" where
  "passed_on cs =
     (case current_filter cs of None \<Rightarrow> [] | Some p \<Rightarrow> [RowFilterConstraint p])
     @ (case column_rewrite cs of None \<Rightarrow> [] | Some items \<Rightarrow> [ColumnRewriteConstraint items])"

lemma passed_on_payloads:
  "current_filter (passed_on cs) = current_filter cs" "column_rewrite (passed_on cs) = column_rewrite cs"
  "no_channel (passed_on cs)" "exposed_name (passed_on cs) = None"
  "AcceptsDmlC \<notin> set (constraint_types (passed_on cs))" "distinct (constraint_types (passed_on cs))"
  "make_constraint_set (query_constraints cs) = Inr (passed_on cs)"
proof -
  let ?goal = "current_filter (passed_on cs) = current_filter cs \<and> column_rewrite (passed_on cs) = column_rewrite cs \<and>
    no_channel (passed_on cs) \<and> exposed_name (passed_on cs) = None \<and>
    AcceptsDmlC \<notin> set (constraint_types (passed_on cs)) \<and> distinct (constraint_types (passed_on cs))"
  have ?goal if "current_filter cs = f" "column_rewrite cs = c" for f c
    unfolding passed_on_def that
    by (cases f; cases c) (simp_all add: payload_defs get_optional_constraint_def no_channel_def constraint_types_def)
  then show "current_filter (passed_on cs) = current_filter cs" "column_rewrite (passed_on cs) = column_rewrite cs"
    "no_channel (passed_on cs)" "exposed_name (passed_on cs) = None"
    "AcceptsDmlC \<notin> set (constraint_types (passed_on cs))" "distinct (constraint_types (passed_on cs))"
    by blast+
  show "make_constraint_set (query_constraints cs) = Inr (passed_on cs)"
    unfolding query_constraints_def optional_payload passed_on_def
    by (cases "current_filter cs"; cases "column_rewrite cs") (simp_all add: make_constraint_set_def)
qed

lemma query_request:
  assumes "request_ok t cs"
  obtains cs' where "make_constraint_set (query_constraints cs) = Inr cs'" "request_ok t cs'" "no_channel cs'"
    "current_filter cs' = current_filter cs" "column_rewrite cs' = column_rewrite cs"
    "AcceptsDmlC \<notin> set (constraint_types cs')"
proof (rule that [of "passed_on cs"])
  show "request_ok t (passed_on cs)"
    using assms passed_on_payloads [of cs] by (simp add: request_ok_def no_channel_def)
qed (rule passed_on_payloads)+

lemma create_post:
  assumes q: "post t cs' q" "no_channel cs'" "current_filter cs' = current_filter cs" "column_rewrite cs' = column_rewrite cs"
    and cs: "no_channel cs" "AcceptsDmlC \<in> set (constraint_types cs) \<longrightarrow> table_class c"
    and nm: "exposed_name cs \<noteq> None \<Longrightarrow> exposed_name cs = Some nm"
  shows "post t cs (CreateFromQuery i c q [created_object nm (create_keyword c) q] (created_object nm (create_keyword c) q))"
    (is "post t cs ?n")
proof -
  have "content t cs ?n E B" if "engine_ok E" "base_rows_ok t B" for E B
  proof -
    have "content t cs' q E B" using q(1) that by (simp add: post_def)
    then have "\<exists>rows. den E B path q = Some rows \<and> fills E t cs' B rows" for path
      by (simp add: content_fills [OF q(2)])
    moreover have "wanted E t cs' B = wanted E t cs B" by (simp add: wanted_def q(3))
    then have "fills E t cs' B = fills E t cs B"
      by (cases "column_rewrite cs") (simp_all add: fills_def [abs_def] q(4))
    ultimately show ?thesis by (simp add: content_fills [OF cs(1)])
  qed
  moreover have "get_signature ?n = expected_signature t cs"
    using q cs(1) by (simp add: post_def expected_signature_def no_channel_def)
  moreover have "named_ok cs ?n" using nm by (auto simp: named_ok_def materialized_name_def)
  moreover have "well_formed ?n" using q(1) by (auto simp: post_def)
  ultimately show ?thesis using cs by (simp add: post_def no_channel_def)
qed

lemma create_delivers:
  assumes "delivers t cs q"
  shows "delivers t cs (CreateFromQuery i c q [created_object nm (create_keyword c) q] (created_object nm (create_keyword c) q))"
  using assms by (auto simp: delivers_def)

text \<open>A materialized view: the query is written to a table, and the view's query reads that table.\<close>

lemma reread_post:
  assumes "post t cs q" "no_channel cs" "AcceptsDmlC \<notin> set (constraint_types cs)"
  shows "post t cs (plain_select j (CreateFromQuery k CreateTable q [created_object nm (create_keyword CreateTable) q]
      (created_object nm (create_keyword CreateTable) q)) None None)" (is "post t cs (plain_select j ?body None None)")
proof -
  have "content t cs (plain_select j ?body None None) E B" if E: "engine_ok E" "base_rows_ok t B" for E B
    unfolding content_fills [OF assms(2)]
  proof
    fix path
    have "content t cs q E B" using assms(1) E by (simp add: post_def)
    then obtain rows where "den E B [k] q = Some rows" "fills E t cs B rows"
      unfolding content_fills [OF assms(2)] by blast
    then show "\<exists>rows. den E B path (plain_select j ?body None None) = Some rows \<and> fills E t cs B rows"
      using fills_perm [of E t cs B rows "en_scan E (j # path) rows"] E(1)
      by (simp add: select_plain where_rows_def stored_class_def)
  qed
  moreover have "expected_signature t cs = get_signature ?body" using assms(1) by (simp add: post_def)
  moreover have "named_ok cs (plain_select j ?body None None)" by (simp add: named_ok_def)
  ultimately show ?thesis using assms by (auto simp: post_def no_channel_def)
qed


section \<open>The builders\<close>

context subtree_provider begin

lemma base_source_spec:
  assumes "env_ok env" "request_ok base cs" "set (constraint_types cs) \<subseteq> {SingleSourceC}"
  shows "gspec d E (build_base_table_source sub env cs) (makes base C_BaseTableSource cs)"
proof -
  have "delivers base cs (BaseTableSource i base)" for i
  proof -
    have "RowFilterC \<notin> set (constraint_types cs)" using assms(3) by auto
    then show ?thesis by (simp add: delivers_def wanted_types)
  qed
  then have "post base cs (BaseTableSource i base)" for i
    using assms(3) by (intro delivers_post) (auto simp: no_channel_def named_ok_def intro!: payload_None)
  then show ?thesis
    unfolding build_base_table_source_def by (simp only: gen_norm, intro wp) simp
qed

lemma create_spec:
  assumes "env_ok env" "request_ok base cs"
    "set (constraint_types cs) \<subseteq> {RowFilterC, ColumnRewriteC, AcceptsDmlC, ExposedNameC}"
    "AcceptsDmlC \<in> set (constraint_types cs) \<longrightarrow> table_class c"
  shows "gspec d E (build_create c sub env cs) (makes base (C_CreateFromQuery c) cs)"
proof -
  obtain cs' where cs': "make_constraint_set (query_constraints cs) = Inr cs'" "request_ok base cs'" "no_channel cs'"
    "current_filter cs' = current_filter cs" "column_rewrite cs' = column_rewrite cs" "AcceptsDmlC \<notin> set (constraint_types cs')"
    by (rule query_request [OF assms(2)])
  have chan: "no_channel cs" using assms(3) by (auto simp: no_channel_def intro!: payload_None)
  have named: "exposed_name cs \<noteq> Some []" using assms(2) by (simp add: request_ok_def)
  show ?thesis
    unfolding build_create_def
  proof (rule wp_ask [OF assms(1) cs'(1,2)])
    fix q
    assume q: "is_instance q WantQuery" "post base cs' q"
    show "gspec d E (gsome (wrap_query env c q (exposed_name cs))) (makes base (C_CreateFromQuery c) cs)"
    proof (cases "c = CreateMaterializedView")
      case True
      show ?thesis
        unfolding wrap_query_def if_P [OF True] gen_norm
        by (intro wp, simp only: makes_Some class_of.simps True simp_thms,
            rule create_post [OF reread_post [OF q(2) cs'(3,6)] cs'(3-5) chan])
          (use assms(4) named True in auto)
    next
      case False
      show ?thesis
        unfolding wrap_query_def if_not_P [OF False] gen_norm
        by (intro wp) (use assms(4) named in \<open>auto intro!: create_post [OF q(2) cs'(3-5) chan]\<close>)
    qed
  qed simp
qed

lemma star_spec:
  assumes "env_ok env" "request_ok base cs" "set (constraint_types cs) \<subseteq> {RowFilterC, SingleSourceC}"
  shows "gspec d E (build_select_star sub env cs) (makes base C_SelectQuery cs)"
  unfolding build_select_star_def gen_norm
  by (intro wp_source [OF assms(1)] wp) (use assms in \<open>auto intro!: delivers_query_post star_delivers\<close>)

lemma explicit_spec:
  assumes "env_ok env" "request_ok base cs" "set (constraint_types cs) \<subseteq> {RowFilterC, SingleSourceC}"
  shows "gspec d E (build_explicit_projection sub env cs) (makes base C_SelectQuery cs)"
proof (cases "passthrough_items env = []")
  case True
  then show ?thesis by (simp add: build_explicit_projection_def wp)
next
  case False
  show ?thesis
    unfolding build_explicit_projection_def if_not_P [OF False [unfolded passthrough_plain]] passthrough_plain gen_norm
    by (intro wp_source [OF assms(1)] wp)
      (use assms env_distinct in \<open>auto intro!: delivers_query_post items_deliver identity_plain\<close>)
qed

lemma cte_spec:
  assumes "env_ok env" "request_ok base cs" "set (constraint_types cs) \<subseteq> {RowFilterC, SingleSourceC}"
  shows "gspec d E (build_cte suffix m sub env cs) (makes base C_CteQuery cs)"
  unfolding build_cte_def gen_norm
  by (intro wp_source [OF assms(1)] wp) (use assms in \<open>auto intro!: delivers_query_post cte_delivers\<close>)

lemma lateral_spec:
  assumes "env_ok env"
  shows "gspec d E (build_lateral sub env []) (makes base C_LateralReprojectQuery [])"
  unfolding build_lateral_def gen_norm
  by (intro wp_source [OF assms(1)])
    (use assms env_distinct in \<open>auto intro!: wp query_post lateral_delivers simp: gen_norm\<close>)

lemma ordered_spec:
  assumes "env_ok env"
  shows "gspec d E (build_ordered_scan sub env []) (makes base C_SelectQuery [])"
proof (cases "passthrough_items env = []")
  case True
  then show ?thesis by (simp add: build_ordered_scan_def wp)
next
  case False
  then have cols: "tab_columns base \<noteq> []" by (simp add: passthrough_nonempty)
  show ?thesis
    unfolding build_ordered_scan_def Let_def if_not_P [OF False [unfolded passthrough_plain]] passthrough_plain gen_norm
    by (intro wp_source [OF assms(1)] wp)
      (use assms env_distinct cols in \<open>auto intro!: query_post ordered_delivers\<close>)
qed

lemma qualify_spec:
  assumes "env_ok env"
  shows "gspec d E (build_qualify sub env []) (makes base C_SelectQuery [])"
proof (cases "passthrough_items env = []")
  case True
  then show ?thesis by (simp add: build_qualify_def wp)
next
  case False
  then have cols: "tab_columns base \<noteq> []" by (simp add: passthrough_nonempty)
  show ?thesis
    unfolding build_qualify_def Let_def if_not_P [OF False [unfolded passthrough_plain]] passthrough_plain gen_norm
    by (intro wp_source [OF assms(1)] wp)
      (use assms env_distinct cols in \<open>auto intro!: query_post qualify_delivers\<close>)
qed

lemma group_by_spec:
  assumes "env_ok env"
  shows "gspec d E (build_distinct_as_group_by sub env []) (makes base C_SelectQuery [])"
proof -
  have fresh: "''eq_dg_'' @ str_nat n \<notin> set (column_names base)" for n
    using fresh_column [OF assms, of "''eq_dg''" n] by simp
  show ?thesis
    unfolding build_distinct_as_group_by_def gen_norm
    by (intro wp wp_key [OF assms])
      (use fresh env_distinct [OF assms] in \<open>auto intro!: wp query_post group_by_delivers simp: gen_norm\<close>)
qed

text \<open>A source whose columns are the base's and one more, read back without it.\<close>

lemma add_drop_delivers:
  assumes "reads_base t s" "distinct (column_names t @ [extra])"
  shows "delivers t [] (plain_select j (CreateFromQuery k CreateView
      (plain_select i s (Some (plain_items (table_signature t) @ [ProjectionItem extra (typed_null IntegerType) IntegerType])) None) st e)
      (Some (plain_items (table_signature t))) None) \<longleftrightarrow>
    shaped (CreateFromQuery k CreateView
      (plain_select i s (Some (plain_items (table_signature t) @ [ProjectionItem extra (typed_null IntegerType) IntegerType])) None) st e)"
    (is "delivers t [] (plain_select j ?view _ None) \<longleftrightarrow> _")
proof
  assume shaped: "shaped ?view"
  let ?q = "plain_select i s (Some (plain_items (table_signature t) @ [ProjectionItem extra (typed_null IntegerType) IntegerType])) None"
  show "delivers t [] (plain_select j ?view (Some (plain_items (table_signature t))) None)"
    unfolding delivers_def
  proof (intro conjI allI impI)
    show "well_formed (plain_select j ?view (Some (plain_items (table_signature t))) None)"
      using shaped assms(1) by (simp add: delivers_def)
    fix E B path
    assume E: "engine_ok E" "base_rows_ok t B"
    obtain rows where rows: "den E B (i # k # j # path) s = Some rows"
      "mset (en_scan E (i # k # j # path) rows) = mset B" "base_rows_ok t (en_scan E (i # k # j # path) rows)"
      using scanned [OF assms(1) E] by (metis wanted_Nil)
    let ?rows = "en_scan E (i # k # j # path) rows"
    have "project_rows E (base_scope t) [ProjectionItem extra (typed_null IntegerType) IntegerType] ?rows
        = Some (map (\<lambda>i. [SNull]) [0..<length ?rows])"
      by (rule project_single) (simp add: typed_null_def)
    from project_append [OF project_base [OF _ rows(3)] this] assms(2)
    have wide: "project_rows E (base_scope t) (plain_items (table_signature t) @ [ProjectionItem extra (typed_null IntegerType) IntegerType]) ?rows
        = Some (map2 (@) ?rows (map (\<lambda>i. [SNull]) [0..<length ?rows]))" by simp
    have out: "map2 (@) ?rows (map (\<lambda>i. [SNull]) [0..<length ?rows]) = map (\<lambda>r. r @ [SNull]) ?rows"
      by (intro nth_equalityI) auto
    have view: "den E B (j # path) ?view = Some (map (\<lambda>r. r @ [SNull]) ?rows)"
      using rows(1) wide names_delivers(2) [OF assms(1)] out
      by (simp add: stored_class_def select_plain where_rows_def)
    let ?wide = "en_scan E (j # path) (map (\<lambda>r. r @ [SNull]) ?rows)"
    have wide_rows: "\<exists>b. r = b @ [SNull] \<and> length b = length (tab_columns t)" if "r \<in> set ?wide" for r
      using that E(1) rows(3) by (auto simp: base_rows_ok_def row_ok_length)
    have "scope_of ?view = map (Pair []) (column_names t @ [extra])"
      by (simp add: scope_of_def names_of_def)
    moreover have "project_rows E (map (Pair []) (column_names t @ [extra])) (plain_items (table_signature t)) ?wide = Some (map butlast ?wide)"
      by (rule project_keyed [OF assms(2)]) (use wide_rows in fastforce)
    moreover have "mset (map butlast ?wide) = mset B"
    proof -
      have "mset (map butlast ?wide) = mset (map butlast (map (\<lambda>r. r @ [SNull]) ?rows))"
        using E(1) by (intro mset_eq_map) simp
      then show ?thesis using rows(2) by (simp add: o_def)
    qed
    ultimately show "\<exists>out. den E B path (plain_select j ?view (Some (plain_items (table_signature t))) None) = Some out
        \<and> mset out = mset (wanted E t [] B)"
      using view by (simp add: den_select_plain where_rows_def del: den.simps)
  qed simp_all
qed (simp add: delivers_def)

lemma add_drop_spec:
  assumes "env_ok env"
  shows "gspec d E (build_add_drop_column sub env []) (makes base C_SelectQuery [])"
proof (cases "passthrough_items env = []")
  case True
  then show ?thesis by (simp add: build_add_drop_column_def wp)
next
  case False
  have fresh: "''eq_tmp_col_'' @ str_nat n \<notin> set (column_names base)" for n
    using fresh_column [OF assms, of "''eq_tmp_col''" n] by simp
  have "delivers base [] (plain_select j (CreateFromQuery k CreateView
      (plain_select i s (Some (plain_items (table_signature base) @ [ProjectionItem (''eq_tmp_col'' @ ''_'' @ str_nat n) (typed_null IntegerType) IntegerType])) None)
      [created_object nm (create_keyword CreateView) q] (created_object nm (create_keyword CreateView) q))
      (Some (plain_items (table_signature base))) None)"
    if "reads_base base s" "q = plain_select i s (Some (plain_items (table_signature base) @ [ProjectionItem (''eq_tmp_col'' @ ''_'' @ str_nat n) (typed_null IntegerType) IntegerType])) None"
    for i j k s n nm q
    using that env_distinct [OF assms] fresh [of n] by (subst add_drop_delivers) auto
  then show ?thesis
    unfolding build_add_drop_column_def if_not_P [OF False [unfolded passthrough_plain]] passthrough_plain gen_norm
    by (intro wp_source [OF assms(1)] wp, simp_all only: makes_None makes_Some class_of.simps simp_thms)
      (auto intro!: query_post)
qed

text \<open>The one builder that answers a request for particular columns.\<close>

lemma projection_spec:
  assumes "env_ok env" "request_ok base cs"
    "set (constraint_types cs) \<subseteq> {ColumnRewriteC, RowFilterC, SingleSourceC}" "ColumnRewriteC \<in> set (constraint_types cs)"
  shows "gspec d E (build_projection sub env cs) (makes base C_SelectQuery cs)"
proof -
  obtain items where items: "column_rewrite cs = Some items" using payload_Some(2) [OF assms(4)] by blast
  have chan: "no_channel cs" using assms(3) by (auto simp: no_channel_def intro!: payload_None)
  have "post base cs (plain_select i s (Some items) (current_filter cs))" if s: "reads_base base s" for i s
  proof -
    have "content base cs (plain_select i s (Some items) (current_filter cs)) E B" if E: "engine_ok E" "base_rows_ok base B" for E B
      unfolding content_fills [OF chan]
    proof
      fix path
      obtain rows kept where k: "den E B (i # path) s = Some rows"
        "where_rows E (scope_of s) (current_filter cs) (en_scan E (i # path) rows) = Some kept"
        "mset kept = mset (wanted E base cs B)" "base_rows_ok base kept"
        using scan_where [OF s assms(2) E] .
      obtain out where "project_rows E (base_scope base) items kept = Some out"
        using assms(2) items E(1) k(4) by (fastforce simp: request_ok_def items_ok_def)
      with k show "\<exists>rows. den E B path (plain_select i s (Some items) (current_filter cs)) = Some rows \<and> fills E base cs B rows"
        using names_delivers(2) [OF s] by (auto simp: den_select_plain fills_def items simp del: den.simps)
    qed
    moreover have "AcceptsDmlC \<notin> set (constraint_types cs)" using assms(3) by auto
    ultimately show ?thesis
      using s chan by (simp add: post_def expected_signature_def no_channel_def items named_ok_def delivers_def)
  qed
  then show ?thesis
    unfolding build_projection_def items option.case gen_norm
    by (intro wp_source [OF assms(1)] wp) simp_all
qed

text \<open>A rewriter that returns, for a column, an expression with the column's value.\<close>

lemma column_rewrite_spec:
  assumes "env_ok env"
    and "gspec d E (rewriter env) (\<lambda>f. \<forall>c \<in> set (tab_columns base).
           gspec d E (f (col_name c) (col_type c)) (\<lambda>r. \<forall>e. r = Some e \<longrightarrow> rewrites_column base c e))"
  shows "gspec d E (column_rewrite_build rewriter sub env []) (makes base C_SelectQuery [])"
proof -
  let ?R = "\<lambda>c (p :: proj_item \<times> bool). pi_alias (fst p) = col_name c \<and> pi_type (fst p) = col_type c \<and> rewrites_column base c (pi_expr (fst p))"
  let ?item = "\<lambda>c r. case r of
      None \<Rightarrow> (ProjectionItem (col_name c) (col (col_name c) (col_type c)) (col_type c), False)
    | Some e \<Rightarrow> (ProjectionItem (col_name c) e (col_type c), True)"
  have distinct: "distinct (column_names base)" using env_distinct [OF assms(1)] .
  have item: "?R c (?item c r)" if "\<forall>e. r = Some e \<longrightarrow> rewrites_column base c e" for c r
    using that rewrites_self [OF distinct] by (simp split: option.split)
  have step: "gspec d E (gbind (f (col_name c) (col_type c)) (\<lambda>r. greturn (?item c r))) (?R c)"
    if "\<forall>c \<in> set (tab_columns base). gspec d E (f (col_name c) (col_type c)) (\<lambda>r. \<forall>e. r = Some e \<longrightarrow> rewrites_column base c e)"
      "c \<in> set (tab_columns base)" for f c
    by (rule gspec_bind [OF bspec [OF that]], rule gspec_return, rule item, assumption)
  have identity: "identity_items base (map fst ps)" if "list_all2 ?R (tab_columns base) ps" for ps
    using that by (intro rewrite_identity) (simp add: list_all2_conv_all_nth)
  have made: "delivers base [] (plain_select i s (Some (map fst ps)) None)"
    if "reads_base base s" "list_all2 ?R (tab_columns base) ps" for i s ps
    using items_deliver [OF that(1) request_Nil identity [OF that(2)]] by simp
  show ?thesis
    unfolding column_rewrite_build_def
  proof (rule gspec_bind [OF assms(2)])
    fix f
    assume f: "\<forall>c \<in> set (tab_columns base). gspec d E (f (col_name c) (col_type c)) (\<lambda>r. \<forall>e. r = Some e \<longrightarrow> rewrites_column base c e)"
    show "gspec d E (gbind (gmap (\<lambda>c. gbind (f (col_name c) (col_type c)) (\<lambda>r. greturn (?item c r))) (tab_columns base))
        (\<lambda>items. if \<not> list_ex snd items then greturn None
          else obind (dispatch_source sub None) (\<lambda>source. gsome (mk_select source (Some (map fst items)) None))))
        (makes base C_SelectQuery [])"
    proof (rule gspec_bind [OF gspec_map [where R = ?R, OF step [OF f]]], assumption)
      fix ps
      assume ps: "list_all2 ?R (tab_columns base) ps"
      show "gspec d E (if \<not> list_ex snd ps then greturn None
          else obind (dispatch_source sub None) (\<lambda>source. gsome (mk_select source (Some (map fst ps)) None))) (makes base C_SelectQuery [])"
        by (cases "list_ex snd ps")
          (auto intro!: wp_source [OF assms(1)] wp query_post made [OF _ ps] simp: gen_norm)
    qed
  qed
qed

lemma eet_case_spec:
  assumes "env_ok env"
  shows "gspec d E (build_eet_case sub env []) (makes base C_SelectQuery [])"
  unfolding build_eet_case_def
proof (rule column_rewrite_spec [OF assms])
  have "gspec d E (obind (free_predicate env) (\<lambda>p. greturn (Some (case_when (determined_true p) (col (col_name c) ty) (typed_null ty) ty))))
      (\<lambda>r. \<forall>e. r = Some e \<longrightarrow> rewrites_column base c e)" for c ty
    by (rule gspec_obind [OF free_spec [OF assms]])
      (auto intro!: gspec_return rewrites_case env_distinct [OF assms])
  then show "gspec d E (eet_rewriter env) (\<lambda>f. \<forall>c \<in> set (tab_columns base).
      gspec d E (f (col_name c) (col_type c)) (\<lambda>r. \<forall>e. r = Some e \<longrightarrow> rewrites_column base c e))"
    unfolding eet_rewriter_def
    by (intro gspec_bind [OF free_spec [OF assms]]) (auto intro!: gspec_return split: option.split)
qed

lemma eet_filter_spec:
  assumes "env_ok env" "request_ok base cs" "set (constraint_types cs) \<subseteq> {RowFilterC, SingleSourceC}"
  shows "gspec d E (build_eet_filter sub env cs) (makes base C_SelectQuery cs)"
proof -
  have made: "delivers base cs (plain_select i s None (Some (conjoin (current_filter cs) (determined_true p))))"
    if p: "pred_ok base p" and s: "reads_base base s" for i s p
  proof -
    let ?cs = "[RowFilterConstraint (conjoin (current_filter cs) (determined_true p))]"
    have "delivers base ?cs (plain_select i s None (current_filter ?cs))"
      by (rule star_delivers [OF s request_filter [OF pred_ok_branch [OF assms(2) pred_ok_determined [OF p]]]])
    moreover have "wanted E base ?cs B = wanted E base cs B" if "engine_ok E" "base_rows_ok base B" for E B
    proof -
      have "filter (\<lambda>r. condition E (base_scope base) (determined_true p) r = Some True) (wanted E base cs B) = wanted E base cs B"
        using wanted_ok [OF that(2)] condition_determined [OF p that(1)] by (simp add: filter_id_conv base_rows_ok_def)
      then show ?thesis by (simp only: wanted_branch [OF assms(2) pred_ok_determined [OF p] that])
    qed
    ultimately show ?thesis by (simp add: delivers_def)
  qed
  show ?thesis
    unfolding build_eet_filter_def gen_norm
    by (intro gspec_obind [OF free_spec [OF assms(1)]] wp_source [OF assms(1)] wp)
      (use assms(3) in \<open>auto intro!: delivers_query_post made\<close>)
qed

lemma window_spec:
  assumes "env_ok env"
  shows "gspec d E (build_window_rewrite sub env []) (makes base C_SelectQuery [])"
  unfolding build_window_rewrite_def
proof (rule column_rewrite_spec [OF assms])
  have opts: "options_ok (window_function_weights (config env))" "options_ok (window_frame_weights (config env))"
    using assms by (simp_all add: env_ok_def config_ok_def)
  have other: "window_choice ch \<noteq> WinROW_NUMBER" for ch by (cases ch) simp_all
  show "gspec d E (window_rewriter env) (\<lambda>f. \<forall>c \<in> set (tab_columns base).
      gspec d E (f (col_name c) (col_type c)) (\<lambda>r. \<forall>e. r = Some e \<longrightarrow> rewrites_column base c e))"
    unfolding window_rewriter_def Let_def
  proof (intro wp opts ballI)
    fix ch w fr w' c
    let ?f = "window_choice ch" and ?c = "col (col_name c) (col_type c)"
    let ?ordered = "needs_order ?f \<or> frame_for fr \<noteq> None"
    show "gspec d E (if \<not> window_eligible (col_type c) ?f ?ordered then greturn None
        else greturn (Some (window_over ?f (Some ?c) [?c] (col_type c) (if ?ordered then [?c] else []) (frame_for fr))))
        (\<lambda>r. \<forall>e. r = Some e \<longrightarrow> rewrites_column base c e)"
    proof (cases "window_eligible (col_type c) ?f ?ordered")
      case True
      have "rewrites_column base c (window_over ?f (Some ?c) [?c] (col_type c) (if ?ordered then [?c] else []) (frame_for fr))"
        by (rule rewrites_window [OF env_distinct [OF assms] True other])
      then show ?thesis using True by (simp only: not_True_eq_False if_False, intro gspec_return, simp)
    next
      case False
      then show ?thesis by (auto intro: gspec_return)
    qed
  qed
qed

end


section \<open>roundtrips.py: codecs\<close>

text \<open>A codec plan only names text columns.\<close>

definition plan_ok :: "column list \<Rightarrow> codec_plan \<Rightarrow> bool" where
  "plan_ok cols plan \<longleftrightarrow> (\<forall>c \<in> set cols. plan (col_name c) \<noteq> None \<longrightarrow> codec_eligible (col_type c))"

lemma plan_ok_empty [simp]: "plan_ok cols Map.empty"
  by (simp add: plan_ok_def)

lemma plan_ok_update:
  assumes "distinct (map col_name cols)" "plan_ok cols plan" "k \<in> set cols" "codec_eligible (col_type k)"
  shows "plan_ok cols (plan(col_name k \<mapsto> codec))"
  using assms by (auto simp: plan_ok_def distinct_map dest: inj_onD)

lemma uniform_plan_ok:
  assumes "distinct (map col_name cols)" "set ks \<subseteq> set cols" "plan_ok cols plan"
  shows "plan_ok cols (uniform_plan codec ks plan)"
  using assms(2,3)
  by (induction codec ks plan rule: uniform_plan.induct) (simp_all add: plan_ok_update [OF assms(1)])

lemma per_column_plan_ok:
  assumes "distinct (map col_name cols)" "set ks \<subseteq> set cols" "plan_ok cols plan"
  shows "gspec d E (per_column_plan specs ks plan) (plan_ok cols)"
  using assms(2,3)
proof (induction ks arbitrary: plan)
  case (Cons k ks)
  show ?case
  proof (cases "filter (\<lambda>c. codec_eligible (col_type k)) specs = []")
    case False
    then have "codec_eligible (col_type k)" by (auto simp: filter_empty_conv)
    then have "gspec d E (per_column_plan specs ks (plan(col_name k \<mapsto> codec))) (plan_ok cols)" for codec
      using Cons by (intro Cons.IH plan_ok_update [OF assms(1)]) simp_all
    with False show ?thesis
      by (simp only: per_column_plan.simps Let_def if_False) (rule wp_random_choice)
  qed (use Cons in simp)
qed (auto intro: gspec_return)

lemma assignment_plan_ok:
  assumes "env_ok env"
  shows "gspec d E (assignment_plan assignment env) (plan_ok (tab_columns (base_table env)))"
proof -
  have "distinct (map col_name (tab_columns (base_table env)))"
    using env_distinct [OF assms] by (simp add: column_names_def)
  then show ?thesis
    by (cases assignment) (auto intro!: gspec_return uniform_plan_ok per_column_plan_ok)
qed

context subtree_provider begin

lemma codec_spec:
  assumes "env_ok env"
  shows "gspec d E (build_codec assignment sub env []) (makes base C_SelectQuery [])"
  unfolding build_codec_def
proof (rule column_rewrite_spec [OF assms])
  have rewriter: "gspec d E (greturn (case plan (col_name c) of None \<Rightarrow> None | Some k \<Rightarrow> Some (codec_roundtrip k (col_name c) (col_type c))))
      (\<lambda>r. \<forall>e. r = Some e \<longrightarrow> rewrites_column base c e)"
    if "plan_ok (tab_columns base) plan" "c \<in> set (tab_columns base)" for plan c
    using that rewrites_codec [OF env_distinct [OF assms]]
    by (auto intro!: gspec_return simp: plan_ok_def split: option.split)
  show "gspec d E (codec_rewriter assignment env) (\<lambda>f. \<forall>c \<in> set (tab_columns base).
      gspec d E (f (col_name c) (col_type c)) (\<lambda>r. \<forall>e. r = Some e \<longrightarrow> rewrites_column base c e))"
    unfolding codec_rewriter_def
    by (rule gspec_bind [OF assignment_plan_ok [OF assms]], rule gspec_return, intro ballI, rule rewriter)
qed

end

end
