(* ===== verification/Coa_Sound_Split.thy ===== *)
theory Coa_Sound_Split
  imports Coa_Sound_Query
begin

text \<open>
  The rewrites that split the rows and put them back together: \<open>partitioning.py\<close>, and the
  set-algebra round trips of \<open>roundtrips.py\<close>.  First what \<open>UNION ALL\<close>, \<open>EXCEPT ALL\<close> and
  \<open>INTERSECT ALL\<close> do with lists of rows, then the builders' contracts.
\<close>


section \<open>UNION ALL\<close>

lemma den_union:
  assumes "\<forall>b \<in> set bs. names_of b = names"
    and "\<And>k. k < length bs \<Longrightarrow> den E B (k # i # path) (bs ! k) = Some (f k)"
  shows "den E B path (UnionAllQuery i bs) = Some (concat (map (\<lambda>k. en_scan E (k # i # path) (f k)) [0..<length bs]))"
proof -
  have "names_of (hd bs) = names" if "bs \<noteq> []" using assms(1) that by simp
  then have width: "list_all (\<lambda>b. length (names_of b) = length (names_of (hd bs))) bs"
    using assms(1) by (cases bs) (auto simp: list_all_iff)
  have "map_opt (\<lambda>(k, b). map_option (en_scan E (k # i # path)) (den E B (k # i # path) b)) (zip [0..<length bs] bs)
      = Some (map (\<lambda>k. en_scan E (k # i # path) (f k)) [0..<length bs])"
    unfolding map_opt_Some list_all2_conv_all_nth using assms(2) by simp
  with width show ?thesis by (simp add: those_map_opt)
qed

text \<open>Branches over the base columns whose rows add up.\<close>

lemma union_delivers:
  assumes "bs \<noteq> []" "\<forall>b \<in> set bs. get_signature b = table_signature t \<and> well_formed b"
    and "\<And>E B path. engine_ok E \<Longrightarrow> base_rows_ok t B \<Longrightarrow>
      \<exists>g. (\<forall>k < length bs. \<exists>rows. den E B (k # i # path) (bs ! k) = Some rows \<and> mset rows = g k)
        \<and> sum_list (map g [0..<length bs]) = mset (wanted E t cs B)"
  shows "delivers t cs (UnionAllQuery i bs)"
  unfolding delivers_def
proof (intro conjI allI impI)
  show "get_signature (UnionAllQuery i bs) = table_signature t" using assms(1,2) by (cases bs) simp_all
  show "well_formed (UnionAllQuery i bs)" using assms(2) by simp
  fix E B path
  assume E: "engine_ok E" "base_rows_ok t B"
  obtain g where g: "\<forall>k < length bs. \<exists>rows. den E B (k # i # path) (bs ! k) = Some rows \<and> mset rows = g k"
    "sum_list (map g [0..<length bs]) = mset (wanted E t cs B)"
    using assms(3) [OF E] by blast
  define f where "f k = the (den E B (k # i # path) (bs ! k))" for k
  have f: "den E B (k # i # path) (bs ! k) = Some (f k) \<and> mset (f k) = g k" if "k < length bs" for k
    using g(1) that by (auto simp: f_def)
  have names: "\<forall>b \<in> set bs. names_of b = column_names t" using assms(2) by (simp add: names_of_def)
  have den: "den E B path (UnionAllQuery i bs) = Some (concat (map (\<lambda>k. en_scan E (k # i # path) (f k)) [0..<length bs]))"
    by (rule den_union [OF names]) (simp add: f)
  have "mset (concat (map (\<lambda>k. en_scan E (k # i # path) (f k)) [0..<length bs])) = sum_list (map g [0..<length bs])"
    unfolding mset_concat map_map o_def using f E(1) by (intro arg_cong [where f = sum_list] map_cong) auto
  with den show "\<exists>rows. den E B path (UnionAllQuery i bs) = Some rows \<and> mset rows = mset (wanted E t cs B)"
    unfolding g(2) by - (rule exI, rule conjI)
qed

text \<open>Branches that are children themselves, each for its own filter.\<close>

lemma branches_deliver:
  assumes "list_all2 (\<lambda>p b. delivers t [RowFilterConstraint (conjoin (current_filter cs) p)] b) ps bs"
    and "ps \<noteq> []" "request_ok t cs" "\<forall>p \<in> set ps. pred_ok t p"
    and "\<And>E rows. engine_ok E \<Longrightarrow> base_rows_ok t rows \<Longrightarrow>
      sum_list (map (\<lambda>p. mset (filter (\<lambda>r. condition E (base_scope t) p r = Some True) rows)) ps) = mset rows"
  shows "delivers t cs (UnionAllQuery i bs)"
proof (rule union_delivers)
  have len: "length bs = length ps" using assms(1) by (simp add: list_all2_lengthD)
  show "bs \<noteq> []" using len assms(2) by auto
  have each: "delivers t [RowFilterConstraint (conjoin (current_filter cs) (ps ! k))] (bs ! k)" if "k < length bs" for k
    using assms(1) that len by (simp add: list_all2_conv_all_nth)
  then show "\<forall>b \<in> set bs. get_signature b = table_signature t \<and> well_formed b"
    by (auto simp: delivers_def in_set_conv_nth)
  fix E B path
  assume E: "engine_ok E" "base_rows_ok t B"
  have "\<exists>rows. den E B (k # i # path) (bs ! k) = Some rows
      \<and> mset rows = mset (filter (\<lambda>r. condition E (base_scope t) (ps ! k) r = Some True) (wanted E t cs B))"
    if k: "k < length bs" for k
  proof -
    have "pred_ok t (ps ! k)" using k len assms(4) by simp
    from deliversD [OF each [OF k] E] show ?thesis
      by (metis wanted_branch [OF assms(3) \<open>pred_ok t (ps ! k)\<close> E])
  qed
  moreover have "map (\<lambda>k. mset (filter (\<lambda>r. condition E (base_scope t) (ps ! k) r = Some True) (wanted E t cs B))) [0..<length bs]
      = map (\<lambda>p. mset (filter (\<lambda>r. condition E (base_scope t) p r = Some True) (wanted E t cs B))) ps"
    using len by (intro nth_equalityI) simp_all
  ultimately show "\<exists>g. (\<forall>k < length bs. \<exists>rows. den E B (k # i # path) (bs ! k) = Some rows \<and> mset rows = g k)
      \<and> sum_list (map g [0..<length bs]) = mset (wanted E t cs B)"
    using assms(5) [OF E(1) wanted_ok [OF E(2)]]
    by (intro exI [of _ "\<lambda>k. mset (filter (\<lambda>r. condition E (base_scope t) (ps ! k) r = Some True) (wanted E t cs B))"]) simp
qed


section \<open>Residues\<close>

lemma filter_less_Suc:
  "mset (filter (\<lambda>x. c x < Suc n) xs) = mset (filter (\<lambda>x. c x < n) xs) + mset (filter (\<lambda>x. c x = n) xs)"
  by (induction xs) auto

lemma residue_split:
  "sum_list (map (\<lambda>k. mset (filter (\<lambda>x. c x = k) xs)) [0..<n]) = mset (filter (\<lambda>x. c x < n) xs)"
  by (induction n) (simp_all add: filter_less_Suc del: mset_filter)

text \<open>One branch of the rank split: a view over the keyed table.\<close>

definition rank_query :: "nat \<Rightarrow> table \<Rightarrow> eqnode \<Rightarrow> string \<Rightarrow> nat \<Rightarrow> nat \<Rightarrow> eqnode" where
  "rank_query i t rel key modulus residue =
     plain_select i rel (Some (plain_items (table_signature t)))
       (Some (eq (mod_e (col key IntegerType) (int modulus)) (int_lit (int residue))))"

definition rank_view :: "table \<Rightarrow> eqnode \<Rightarrow> string \<Rightarrow> nat \<Rightarrow> nat \<Rightarrow> eqnode \<Rightarrow> bool" where
  "rank_view t rel key modulus residue b \<longleftrightarrow>
     (\<exists>i j nm. let q = rank_query i t rel key modulus residue; e = created_object nm (create_keyword CreateView) q
               in b = CreateFromQuery j CreateView q [e] e)"

definition rank_class :: "nat \<Rightarrow> row \<Rightarrow> nat" where
  "rank_class modulus r = (case last r of SInt k \<Rightarrow> nat (k mod int modulus) | _ \<Rightarrow> 0)"

lemma engine_mod: "engine_ok E \<Longrightarrow> 0 < n \<Longrightarrow> 0 \<le> k \<Longrightarrow> en_mod E k n = k mod n"
  unfolding engine_ok_def by blast

lemma rank_condition:
  assumes "distinct (column_names t @ [key])" "length r = length (column_names t @ [key])" "last r = SInt k" "0 < k"
    "engine_ok E" "0 < modulus"
  shows "condition E (map (Pair []) (column_names t @ [key])) (eq (mod_e (col key IntegerType) (int modulus)) (int_lit (int residue))) r
    = Some (rank_class modulus r = residue)"
proof -
  let ?sc = "map (Pair []) (column_names t @ [key])"
  have res: "0 \<le> k mod int modulus" using assms(6) by simp
  then have "k mod int modulus = int residue \<longleftrightarrow> rank_class modulus r = residue" by (auto simp: rank_class_def assms(3))
  moreover have "eval_row E ?sc r (ColumnRef key IntegerType None) = Some (SInt k)"
    using eval_key [OF assms(1,2), of E] assms(3) by (simp add: col_def)
  moreover have "en_mod E k (int modulus) = k mod int modulus"
    using engine_mod [OF assms(5), of "int modulus" k] assms(4,6) by simp
  moreover have "en_cmp E ''='' (SInt (k mod int modulus)) (SInt (int residue)) \<longleftrightarrow> k mod int modulus = int residue"
    by (rule engine_eq [OF assms(5)])
  ultimately show ?thesis
    by (simp only: condition_def eq_def mod_e_def col_def int_lit_def eval_row_simps(1,5,9) sql_cmp_def scalar.simps if_True
        Option.bind.simps option.map sqlval.case sqlval.distinct simp_thms if_False accepts.simps)
qed

lemma den_rank_view:
  assumes "keyed_source t key rel" "distinct (column_names t @ [key])" "0 < modulus" "engine_ok E" "base_rows_ok t B"
    and "rank_view t rel key modulus residue b"
    and "\<forall>path. den E B path rel = Some stored"
  shows "\<exists>rows. den E B path b = Some rows
    \<and> mset rows = mset (map butlast (filter (\<lambda>r. rank_class modulus r = residue) stored))"
proof -
  obtain i j nm where b: "b = CreateFromQuery j CreateView (rank_query i t rel key modulus residue)
      [created_object nm (create_keyword CreateView) (rank_query i t rel key modulus residue)]
      (created_object nm (create_keyword CreateView) (rank_query i t rel key modulus residue))"
    using assms(6) by (auto simp: rank_view_def Let_def)
  obtain stored' where "\<forall>path. den E B path rel = Some stored'" and keyed_any: "\<forall>p. keyed_rows B (en_scan E p stored')"
    and len_any: "\<forall>p. \<forall>r \<in> set (en_scan E p stored'). length r = length (column_names t @ [key])"
    by (rule keyed_scan [OF assms(1,4,5)])
  with assms(7) have "stored' = stored" by simp
  let ?rows = "en_scan E (i # j # path) stored" and ?sc = "map (Pair []) (column_names t @ [key])"
  note keyed = spec [OF keyed_any, unfolded \<open>stored' = stored\<close>, of "i # j # path"]
    and len = spec [OF len_any, unfolded \<open>stored' = stored\<close>, of "i # j # path"]
  let ?e = "eq (mod_e (col key IntegerType) (int modulus)) (int_lit (int residue))"
  let ?kept = "filter (\<lambda>r. rank_class modulus r = residue) ?rows"
  have "where_rows E ?sc (Some ?e) ?rows = Some ?kept"
  proof (rule where_rows_filter)
    fix r
    assume r: "r \<in> set ?rows"
    obtain b k where "r = b @ [SInt k]" "0 < k" by (rule keyed_row [OF keyed r])
    then show "condition E ?sc ?e r = Some (rank_class modulus r = residue)"
      using rank_condition [OF assms(2) bspec [OF len r] _ _ assms(4,3)] by simp
  qed
  moreover have "project_rows E ?sc (plain_items (table_signature t)) ?kept = Some (map butlast ?kept)"
    by (rule project_keyed [OF assms(2)]) (use len in auto)
  ultimately have "den E B path b = Some (map butlast ?kept)"
    unfolding b rank_query_def using assms(7)
    by (simp add: den_select_plain keyed_names(2) [OF assms(1)] stored_class_def del: den.simps(2) map_append)
  moreover have "mset (map butlast ?kept) = mset (map butlast (filter (\<lambda>r. rank_class modulus r = residue) stored))"
    using assms(4) by (simp add: mset_filter)
  ultimately show ?thesis by blast
qed

lemma rank_delivers:
  assumes "keyed_source t key rel" "distinct (column_names t @ [key])" "0 < modulus"
    and "list_all2 (rank_view t rel key modulus) [0..<modulus] bs"
  shows "delivers t [] (UnionAllQuery i bs)"
proof (rule union_delivers)
  have len: "length bs = modulus" using assms(4) by (simp add: list_all2_lengthD [symmetric])
  have each: "rank_view t rel key modulus k (bs ! k)" if "k < modulus" for k
    using assms(4) that len by (auto simp: list_all2_conv_all_nth)
  show "bs \<noteq> []" using len assms(3) by auto
  show "\<forall>b \<in> set bs. get_signature b = table_signature t \<and> well_formed b"
    using each keyed_shape [OF assms(1)] len
    by (fastforce simp: in_set_conv_nth rank_view_def Let_def rank_query_def)
  fix E B path
  assume E: "engine_ok E" "base_rows_ok t B"
  obtain stored where stored: "\<forall>path. den E B path rel = Some stored" "\<forall>p. keyed_rows B (en_scan E p stored)"
    by (rule keyed_scan [OF assms(1) E]) blast
  have keyed: "keyed_rows B stored" by (rule keyed_perm [OF spec [OF stored(2)]]) (simp add: E(1))
  have small: "rank_class modulus r < modulus" for r
    using assms(3) by (auto simp: rank_class_def nat_less_iff split: sqlval.split)
  let ?g = "\<lambda>k. image_mset butlast (mset (filter (\<lambda>r. rank_class modulus r = k) stored))"
  have "\<exists>rows. den E B (k # i # path) (bs ! k) = Some rows \<and> mset rows = ?g k" if "k < modulus" for k
    using den_rank_view [OF assms(1-3) E each [OF that] stored(1)] by simp
  moreover have "sum_list (map ?g [0..<modulus]) = mset (wanted E t [] B)"
  proof -
    have "sum_list (map (\<lambda>k. image_mset butlast (g k)) ks) = image_mset butlast (sum_list (map g ks))"
      for g :: "nat \<Rightarrow> row multiset" and ks by (induction ks) simp_all
    then have "sum_list (map ?g [0..<modulus]) = image_mset butlast (mset (filter (\<lambda>r. rank_class modulus r < modulus) stored))"
      by (simp only: residue_split)
    then show ?thesis using keyed by (simp only: small filter_True) (simp add: keyed_rows_def)
  qed
  ultimately show "\<exists>g. (\<forall>k < length bs. \<exists>rows. den E B (k # i # path) (bs ! k) = Some rows \<and> mset rows = g k)
      \<and> sum_list (map g [0..<length bs]) = mset (wanted E t [] B)"
    unfolding len by (intro exI [of _ ?g]) blast
qed


section \<open>EXCEPT ALL and INTERSECT ALL\<close>

lemma same_vals_equiv:
  assumes "engine_ok E"
  shows "same_vals E u v \<longleftrightarrow> same_vals E v u"
    and "same_vals E u v \<Longrightarrow> same_vals E v w \<Longrightarrow> same_vals E u w"
proof -
  have eq: "equivp (en_same E)" using assms unfolding engine_ok_def by blast
  show "same_vals E u v \<longleftrightarrow> same_vals E v u"
    using equivp_symp [OF eq] by (auto simp: same_vals_def list_all2_conv_all_nth)
  show "same_vals E u v \<Longrightarrow> same_vals E v w \<Longrightarrow> same_vals E u w"
    using equivp_transp [OF eq] by (auto simp: same_vals_def list_all2_conv_all_nth)
qed

definition class_count :: "engine \<Rightarrow> row \<Rightarrow> row list \<Rightarrow> nat" where
  "class_count E u rows = length (filter (same_vals E u) rows)"

lemma class_count_simps [simp]:
  "class_count E u [] = 0"
  "class_count E u (r # rows) = (if same_vals E u r then Suc (class_count E u rows) else class_count E u rows)"
  by (simp_all add: class_count_def)

lemma class_count_perm: "mset rows = mset rows' \<Longrightarrow> class_count E u rows = class_count E u rows'"
  unfolding class_count_def by (metis mset_filter size_mset)

text \<open>Cancelling a row takes one row of its class away.\<close>

lemma take_match_Some:
  assumes "engine_ok E" "0 < class_count E l R"
  shows "\<exists>R'. take_match E l R = Some R'
    \<and> (\<forall>u. class_count E u R = (if same_vals E u l then Suc (class_count E u R') else class_count E u R'))"
  using assms(2)
proof (induction R)
  case (Cons r R)
  show ?case
  proof (cases "same_vals E l r")
    case True
    then have "same_vals E u r \<longleftrightarrow> same_vals E u l" for u
      using same_vals_equiv(2) [OF assms(1), of u r l] same_vals_equiv(2) [OF assms(1), of u l r]
        same_vals_equiv(1) [OF assms(1), of l r] by blast
    with True show ?thesis by simp
  next
    case False
    with Cons obtain R' where "take_match E l R = Some R'"
      "\<forall>u. class_count E u R = (if same_vals E u l then Suc (class_count E u R') else class_count E u R')"
      by auto
    with False show ?thesis by (intro exI [of _ "r # R'"]) auto
  qed
qed simp

lemma intersect_all_self:
  assumes "engine_ok E" "\<forall>u. class_count E u L \<le> class_count E u R"
  shows "intersect_all E L R = L"
  using assms(2)
proof (induction L arbitrary: R)
  case (Cons l L)
  have "class_count E l (l # L) > 0" using assms(1) by simp
  with Cons.prems have "0 < class_count E l R" by (metis less_le_trans)
  from take_match_Some [OF assms(1) this] obtain R' where R': "take_match E l R = Some R'"
    "\<forall>u. class_count E u R = (if same_vals E u l then Suc (class_count E u R') else class_count E u R')" by blast
  have "class_count E u L \<le> class_count E u R'" for u
    using spec [OF Cons.prems, of u] spec [OF R'(2), of u] by (auto split: if_splits)
  with Cons.IH R'(1) show ?case by simp
qed simp

lemma except_all_empty [simp]: "except_all E L [] = L"
  by (induction L) simp_all

lemma except_delivers:
  assumes "reads_base t l" "delivers t [RowFilterConstraint empty_predicate] r"
  shows "delivers t [] (ExceptAllQuery i l r)"
  unfolding delivers_def
proof (intro conjI allI impI)
  fix E B path
  assume E: "engine_ok E" "base_rows_ok t B"
  obtain L where L: "den E B (0 # i # path) l = Some L" "mset (en_scan E (0 # i # path) L) = mset B"
    using scanned [OF assms(1) E] by (metis wanted_Nil)
  obtain R where R: "den E B (1 # i # path) r = Some R" "en_scan E (1 # i # path) R = []"
    using scanned [OF assms(2) E] by (metis wanted_empty [OF E(1)] mset_zero_iff_right mset.simps(1))
  show "\<exists>rows. den E B path (ExceptAllQuery i l r) = Some rows \<and> mset rows = mset (wanted E t [] B)"
    using L R names_delivers(1) [OF assms(1)] names_delivers(1) [OF assms(2)] by simp
qed (use assms in \<open>simp_all add: delivers_def\<close>)

lemma intersect_delivers:
  assumes "reads_base t l" "reads_base t r"
  shows "delivers t [] (IntersectAllQuery i l r)"
  unfolding delivers_def
proof (intro conjI allI impI)
  fix E B path
  assume E: "engine_ok E" "base_rows_ok t B"
  obtain L where L: "den E B (0 # i # path) l = Some L" "mset (en_scan E (0 # i # path) L) = mset B"
    using scanned [OF assms(1) E] by (metis wanted_Nil)
  obtain R where R: "den E B (1 # i # path) r = Some R" "mset (en_scan E (1 # i # path) R) = mset B"
    using scanned [OF assms(2) E] by (metis wanted_Nil)
  have "class_count E u (en_scan E (0 # i # path) L) = class_count E u (en_scan E (1 # i # path) R)" for u
    using L R by (intro class_count_perm) simp
  then have "intersect_all E (en_scan E (0 # i # path) L) (en_scan E (1 # i # path) R) = en_scan E (0 # i # path) L"
    by (intro intersect_all_self [OF E(1)]) simp
  then show "\<exists>rows. den E B path (IntersectAllQuery i l r) = Some rows \<and> mset rows = mset (wanted E t [] B)"
    using L R names_delivers(1) [OF assms(1)] names_delivers(1) [OF assms(2)] by simp
qed (use assms in \<open>simp_all add: delivers_def\<close>)

lemma union_empty_delivers:
  assumes "reads_base t l" "delivers t [RowFilterConstraint empty_predicate] r"
  shows "delivers t [] (UnionAllQuery i [l, r])"
proof (rule union_delivers)
  fix E B path
  assume E: "engine_ok E" "base_rows_ok t B"
  obtain L where L: "den E B (0 # i # path) l = Some L" "mset L = mset B"
    using deliversD [OF assms(1) E] by (metis wanted_Nil)
  obtain R where R: "den E B (Suc 0 # i # path) r = Some R" "mset R = {#}"
    using deliversD [OF assms(2) E] by (metis wanted_empty [OF E(1)] mset.simps(1))
  let ?g = "\<lambda>k. if k = 0 then mset B else {#}"
  have "\<exists>rows. den E B (k # i # path) ([l, r] ! k) = Some rows \<and> mset rows = ?g k" if "k < length [l, r]" for k
    using that L R by (auto simp: less_Suc_eq)
  then show "\<exists>g. (\<forall>k < length [l, r]. \<exists>rows. den E B (k # i # path) ([l, r] ! k) = Some rows \<and> mset rows = g k)
      \<and> sum_list (map g [0..<length [l, r]]) = mset (wanted E t [] B)"
    by (intro exI [of _ ?g]) simp
qed (use assms in \<open>simp_all add: delivers_def\<close>)


section \<open>Copies of a keyed table\<close>

lemma den_copies:
  assumes "\<forall>path. den E B path rel = Some stored" "engine_ok E" "0 < n"
  shows "\<exists>rows. den E B path (UnionAllQuery i (replicate n rel)) = Some rows \<and> set rows = set stored"
proof -
  have "den E B path (UnionAllQuery i (replicate n rel))
      = Some (concat (map (\<lambda>k. en_scan E (k # i # path) stored) [0..<length (replicate n rel)]))"
    by (rule den_union [where names = "names_of rel"]) (use assms(1) in simp_all)
  moreover have "set (concat (map (\<lambda>k. en_scan E (k # i # path) stored) [0..<length (replicate n rel)])) = set stored"
    using assms(2,3) by auto
  ultimately show ?thesis by blast
qed

lemma den_distinct_star:
  "den E B path (SelectQuery i s None None True None None None)
     = map_option (\<lambda>rows. distinct_rows E (en_scan E (i # path) rows)) (den E B (i # path) s)"
  by (cases "den E B (i # path) s") (simp_all add: select_rows_def where_rows_def qualify_rows_def)

lemma den_table: "den E B path (CreateFromQuery i CreateTable q st e) = den E B [i] q"
  by (simp add: stored_class_def)

lemma den_view: "den E B path (CreateFromQuery i CreateView q st e) = den E B (i # path) q"
  by (simp add: stored_class_def)

lemma shaped_created: "shaped (CreateFromQuery i c q [created_object nm (create_keyword c) q] (created_object nm (create_keyword c) q))"
  by auto

lemmas shaped_objects = shaped_created [where c = CreateTable, unfolded create_keyword.simps] shaped_created [where c = CreateView, unfolded create_keyword.simps]

lemma deduped_delivers:
  fixes rel :: eqnode and i j k m :: nat and st st' :: "setup_step list" and e e' :: setup_step
  assumes "keyed_source t key rel" "distinct (column_names t @ [key])"
  defines "doubled \<equiv> CreateFromQuery j CreateTable (UnionAllQuery i [rel, rel]) st e"
  defines "deduped \<equiv> CreateFromQuery m CreateTable (SelectQuery k doubled None None True None None None) st' e'"
  assumes "shaped doubled" "shaped deduped"
  shows "delivers t [] (plain_select n deduped (Some (plain_items (table_signature t))) None)"
  unfolding delivers_def
proof (intro conjI allI impI)
  show "well_formed (plain_select n deduped (Some (plain_items (table_signature t))) None)"
    using assms(5,6) keyed_shape [OF assms(1)] by (simp add: doubled_def deduped_def)
  fix E B path
  assume E: "engine_ok E" "base_rows_ok t B"
  obtain stored where stored: "\<forall>path. den E B path rel = Some stored" "\<forall>p. keyed_rows B (en_scan E p stored)"
    by (rule keyed_scan [OF assms(1) E]) blast
  have keyed: "keyed_rows B stored" by (rule keyed_perm [OF spec [OF stored(2)]]) (simp add: E(1))
  obtain both where both: "den E B [j] (UnionAllQuery i [rel, rel]) = Some both" "set both = set stored"
    using den_copies [OF stored(1) E(1), of 2 "[j]" i] by (auto simp: numeral_2_eq_2)
  have "set (en_scan E [k, m] both) = set stored" using both(2) E(1) by simp
  then have once: "mset (distinct_rows E (en_scan E [k, m] both)) = mset stored"
    using distinct_copies [OF keyed, of "en_scan E [k, m] both" id E] E(1)
    by (force intro: same_vals_last elim!: keyed_row [OF keyed])
  have den: "den E B (n # path) deduped = Some (distinct_rows E (en_scan E [k, m] both))"
    by (simp only: doubled_def deduped_def den_table den_distinct_star both(1) option.map)
  let ?rows = "en_scan E (n # path) (distinct_rows E (en_scan E [k, m] both))"
  have rows: "mset ?rows = mset stored" using once E(1) by simp
  have len: "\<forall>r \<in> set ?rows. length r = length (column_names t @ [key])"
    using keyed_lengths(1) [OF keyed E(2)] mset_eq_setD [OF rows] by simp
  have "scope_of deduped = map (Pair []) (column_names t @ [key])"
    using keyed_names(1) [OF assms(1)] by (simp add: doubled_def deduped_def scope_of_def names_of_def)
  with den project_keyed [OF assms(2) len, of E]
  have "den E B path (plain_select n deduped (Some (plain_items (table_signature t))) None) = Some (map butlast ?rows)"
    by (simp add: den_select_plain where_rows_def del: den.simps(2))
  moreover have "mset (map butlast ?rows) = mset (wanted E t [] B)"
    using keyed mset_eq_map [OF rows, of butlast] by (simp add: keyed_rows_def)
  ultimately show "\<exists>rows. den E B path (plain_select n deduped (Some (plain_items (table_signature t))) None) = Some rows
      \<and> mset rows = mset (wanted E t [] B)" by blast
qed (simp add: assms)


section \<open>The builders\<close>

context subtree_provider begin

lemma wp_branches:
  assumes "env_ok env" "request_ok base cs" "set (constraint_types cs) \<subseteq> {RowFilterC}"
    and "2 \<le> length ps" "\<forall>p \<in> set ps. pred_ok base p"
    and "\<And>E rows. engine_ok E \<Longrightarrow> base_rows_ok base rows \<Longrightarrow>
      sum_list (map (\<lambda>p. mset (filter (\<lambda>r. condition E (base_scope base) p r = Some True) rows)) ps) = mset rows"
  shows "gspec d E (obind (gmap_some (branch sub cs) ps) (\<lambda>branches. gsome (mk_union branches))) (makes base C_UnionAllQuery cs)"
proof (rule gspec_obind [OF gspec_map_some [where R = "\<lambda>p b. delivers base [RowFilterConstraint (conjoin (current_filter cs) p)] b"]])
  fix p
  assume "p \<in> set ps"
  then have "pred_ok base (conjoin (current_filter cs) p)" using assms(2,5) by (intro pred_ok_branch) simp_all
  from branch_spec [OF assms(1) this]
  show "gspec d E (branch sub cs p) (\<lambda>r. \<forall>n. r = Some n \<longrightarrow> delivers base [RowFilterConstraint (conjoin (current_filter cs) p)] n)"
    by (rule gspec_weaken) blast
next
  fix bs
  assume bs: "list_all2 (\<lambda>p b. delivers base [RowFilterConstraint (conjoin (current_filter cs) p)] b) ps bs"
  have "ps \<noteq> []" using assms(4) by auto
  then have "delivers base cs (UnionAllQuery i bs)" for i
    by (rule branches_deliver [OF bs _ assms(2,5,6)])
  moreover have "2 \<le> length bs" using assms(4) bs by (simp add: list_all2_lengthD)
  ultimately show "gspec d E (gsome (mk_union bs)) (makes base C_UnionAllQuery cs)"
    unfolding gen_norm using assms(3) by (intro wp) (auto intro!: delivers_query_post)
qed simp

lemma partition_spec:
  assumes "env_ok env" "request_ok base cs" "set (constraint_types cs) \<subseteq> {RowFilterC}"
  shows "gspec d E (build_partition_union sub env cs) (makes base C_UnionAllQuery cs)"
  unfolding build_partition_union_def Let_def
proof (rule gspec_obind [OF gspec_weaken [OF pick_key_spec [OF assms(1)]], where R = "\<lambda>k. key_column_ok base (fst k) (snd k)"])
  fix k :: "string \<times> sql_type"
  assume k: "key_column_ok base (fst k) (snd k)"
  have "gspec d E (obind (gmap_some (branch sub cs) [even_branch (fst k) (snd k), odd_branch (fst k) (snd k)])
      (\<lambda>branches. gsome (mk_union branches))) (makes base C_UnionAllQuery cs)"
    by (rule wp_branches [OF assms])
      (use pred_ok_even [OF k, of 0] pred_ok_odd [OF k] parity_split [OF k] in \<open>auto simp: even_branch_def\<close>)
  then show "gspec d E (case k of (nm, ty) \<Rightarrow> obind (gmap_some (branch sub cs)
      [eq (mod_e (col nm ty) 2) (int_lit 0), or_e (ne (mod_e (col nm ty) 2) (int_lit 0)) (is_null (col nm ty))])
      (\<lambda>branches. gsome (mk_union branches))) (makes base C_UnionAllQuery cs)"
    by (cases k) (simp only: even_branch_def odd_branch_def prod.case fst_conv snd_conv)
qed auto

lemma tlp_spec:
  assumes "env_ok env" "request_ok base cs" "set (constraint_types cs) \<subseteq> {RowFilterC}"
  shows "gspec d E (build_tlp_union sub env cs) (makes base C_UnionAllQuery cs)"
  unfolding build_tlp_union_def
proof (rule gspec_obind [OF generated_spec [OF assms(1)]])
  fix p
  assume p: "pred_ok base p"
  show "gspec d E (obind (gmap_some (branch sub cs) [p, not_e p, is_null p]) (\<lambda>branches. gsome (mk_union branches)))
      (makes base C_UnionAllQuery cs)"
    by (rule wp_branches [OF assms])
      (use p pred_ok_not [OF p] pred_ok_isnull [OF p] tlp_split [OF p] in \<open>auto simp: not_e_def is_null_def\<close>)
qed simp

lemma rank_mod_spec:
  assumes "env_ok env"
  shows "gspec d E (build_rank_mod_union sub env []) (makes base C_UnionAllQuery [])"
  unfolding build_rank_mod_union_def generate_column_name_def Let_def
proof (intro wp wp_key [OF assms])
  fix modulus n rel
  assume modulus: "modulus \<in> set rank_moduli" and rel: "keyed_source base (''eq_rank'' @ ''_'' @ str_nat n) rel"
    and cols: "tab_columns base \<noteq> []"
  let ?key = "''eq_rank'' @ ''_'' @ str_nat n" and ?items = "plain_items (table_signature base)"
  have distinct: "distinct (column_names base @ [?key])"
    using fresh_column [OF assms, of "''eq_rank''" n] env_distinct [OF assms] by simp
  have big: "2 \<le> modulus" using modulus by (auto simp: rank_moduli_def)
  have item: "gspec d E (gbind (mk_select rel (Some ?items)
        (Some (eq (mod_e (col ?key IntegerType) (int modulus)) (int_lit (int residue))))) (\<lambda>query. create_as env CreateView query None))
      (rank_view base rel ?key modulus residue)" for residue
    unfolding gen_norm by (intro wp) (auto simp: rank_view_def rank_query_def Let_def)
  have "gspec d E (gbind (gmap (\<lambda>residue. gbind (mk_select rel (Some ?items)
        (Some (eq (mod_e (col ?key IntegerType) (int modulus)) (int_lit (int residue))))) (\<lambda>query. create_as env CreateView query None))
        [0..<modulus]) (\<lambda>branches. gsome (mk_union branches))) (makes base C_UnionAllQuery [])"
  proof (rule gspec_bind [OF gspec_map [where R = "rank_view base rel ?key modulus", OF item]])
    fix bs
    assume bs: "list_all2 (rank_view base rel ?key modulus) [0..<modulus] bs"
    have "delivers base [] (UnionAllQuery i bs)" for i
      using big by (intro rank_delivers [OF rel distinct _ bs]) simp
    moreover have "2 \<le> length bs" using big bs by (simp add: list_all2_lengthD [symmetric])
    ultimately show "gspec d E (gsome (mk_union bs)) (makes base C_UnionAllQuery [])"
      unfolding gen_norm by (intro wp) (auto intro!: query_post)
  qed
  with cols show "gspec d E (if kr_items \<lparr>kr_relation = rel, kr_key = KeySpec ?key IDENTITY False, kr_items = ?items\<rparr> = []
      then greturn None
      else gbind (gmap (\<lambda>residue. gbind (mk_select (kr_relation \<lparr>kr_relation = rel, kr_key = KeySpec ?key IDENTITY False, kr_items = ?items\<rparr>)
          (Some (kr_items \<lparr>kr_relation = rel, kr_key = KeySpec ?key IDENTITY False, kr_items = ?items\<rparr>))
          (Some (eq (mod_e (col ?key IntegerType) (int modulus)) (int_lit (int residue))))) (\<lambda>query. create_as env CreateView query None))
        [0..<modulus]) (\<lambda>branches. gsome (mk_union branches))) (makes base C_UnionAllQuery [])"
    by simp
qed (simp_all add: rank_moduli_def)

lemma empty_request: "env_ok env \<Longrightarrow> request_ok base [RowFilterConstraint empty_predicate]"
  by (intro request_filter) simp

lemma empty_post: "post base [RowFilterConstraint empty_predicate] r \<Longrightarrow> delivers base [RowFilterConstraint empty_predicate] r"
  by (rule post_delivers) (simp_all add: no_channel_def)

lemma full_post: "post base [] r \<Longrightarrow> reads_base base r"
  by (rule post_delivers) (simp_all add: no_channel_def)

lemma union_empty_spec:
  assumes "env_ok env"
  shows "gspec d E (build_union_empty sub env []) (makes base C_UnionAllQuery [])"
  unfolding build_union_empty_def
proof (rule wp_two_sides [OF assms make_single(2) empty_request [OF assms] request_Nil])
  fix l r
  assume "post base [] l" "post base [RowFilterConstraint empty_predicate] r"
  then have "post base [] (UnionAllQuery i [l, r])" for i
    by (intro query_post [OF union_empty_delivers [OF full_post empty_post]]) simp_all
  then show "gspec d E (gsome (mk_union [l, r])) (makes base C_UnionAllQuery [])"
    unfolding gen_norm by (intro wp) simp_all
qed simp

lemma except_empty_spec:
  assumes "env_ok env"
  shows "gspec d E (build_except_empty sub env []) (makes base C_ExceptAllQuery [])"
  unfolding build_except_empty_def
proof (rule wp_two_sides [OF assms make_single(2) empty_request [OF assms] request_Nil])
  fix l r
  assume "post base [] l" "post base [RowFilterConstraint empty_predicate] r"
  then have "post base [] (ExceptAllQuery i l r)" for i
    by (intro query_post [OF except_delivers [OF full_post empty_post]]) simp_all
  then show "gspec d E (gsome (mk_except l r)) (makes base C_ExceptAllQuery [])"
    unfolding gen_norm by (intro wp) simp_all
qed simp

lemma intersect_self_spec:
  assumes "env_ok env"
  shows "gspec d E (build_intersect_self sub env []) (makes base C_IntersectAllQuery [])"
  unfolding build_intersect_self_def
proof (rule wp_two_sides [OF assms make_single(1) request_Nil request_Nil])
  fix l r
  assume "post base [] l" "post base [] r"
  then have "post base [] (IntersectAllQuery i l r)" for i
    by (intro query_post [OF intersect_delivers [OF full_post full_post]]) simp_all
  then show "gspec d E (gsome (mk_intersect l r)) (makes base C_IntersectAllQuery [])"
    unfolding gen_norm by (intro wp) simp_all
qed simp

lemma union_duplicate_spec:
  assumes "env_ok env"
  shows "gspec d E (build_distinct_union_duplicate sub env []) (makes base C_SelectQuery [])"
proof (cases "passthrough_items env = [] \<or> \<not> all_groupable (passthrough_items env)")
  case True
  then show ?thesis by (auto simp: build_distinct_union_duplicate_def Let_def intro: wp)
next
  case False
  have fresh: "''eq_dd_'' @ str_nat n \<notin> set (column_names base)" for n
    using fresh_column [OF assms, of "''eq_dd''" n] by simp
  have code: "gspec d E (gbind (generate_column_name ''eq_dd'') (\<lambda>key_name.
      obind (materialize_row_key sub env key_name) (\<lambda>keyed.
      if kr_items keyed = [] then greturn None
      else gbind (mk_union [kr_relation keyed, kr_relation keyed]) (\<lambda>both.
           gbind (create_as env CreateTable both None) (\<lambda>doubled.
           gbind (mk_select_full doubled None None True None None None) (\<lambda>once.
           gbind (create_as env CreateTable once None) (\<lambda>deduped.
           gsome (mk_select deduped (Some (kr_items keyed)) None)))))))) (makes base C_SelectQuery [])"
    unfolding gen_norm
    by (intro wp wp_key [OF assms])
      (use fresh env_distinct [OF assms] in \<open>auto intro!: wp query_post deduped_delivers shaped_objects simp: gen_norm simp del: shaped.simps\<close>)
  show ?thesis
    unfolding build_distinct_union_duplicate_def Let_def using False code by simp
qed

end

end
