(* ===== verification/Coa_Sound_Joins.thy ===== *)
theory Coa_Sound_Joins
  imports Coa_Sound_Split
begin

text \<open>
  The rewrites of \<open>joins.py\<close>.  A join on a key that both sides hold exactly once pairs every row
  with its own partner, whichever of the join types is drawn; a join to no rows keeps the left side.
\<close>


section \<open>Reading a joined row\<close>

abbreviation join_scope :: "string \<Rightarrow> string list \<Rightarrow> string \<Rightarrow> string list \<Rightarrow> scope" where
  "join_scope la lnames ra rnames \<equiv> map (Pair la) lnames @ map (Pair ra) rnames"

lemma eval_left:
  assumes "distinct lnames" "k < length lnames" "la \<noteq> ra" "length l = length lnames"
  shows "eval_row E (join_scope la lnames ra rnames) (l @ r) (qualified_col la (lnames ! k) ty) = Some (l ! k)"
  using resolve_left [OF assms(1-3), of rnames] assms(2,4) by (simp add: qualified_col_def nth_append del: map_append)

lemma eval_right:
  assumes "distinct rnames" "k < length rnames" "la \<noteq> ra" "length l = length lnames"
  shows "eval_row E (join_scope la lnames ra rnames) (l @ r) (qualified_col ra (rnames ! k) ty) = Some (r ! k)"
  using resolve_right [OF assms(1-3), of lnames] assms(2,4) by (simp add: qualified_col_def nth_append del: map_append)

lemma qualified_plain: "qualified_items a (plain_items sig) = map (\<lambda>(nm, ty). ProjectionItem nm (qualified_col a nm ty) ty) sig"
  by (auto simp: qualified_items_def plain_items_def)

lemma qualified_scalar: "it \<in> set (qualified_items a items) \<Longrightarrow> scalar (pi_expr it)"
  by (auto simp: qualified_items_def qualified_col_def)

lemma signature_qualified [simp]: "item_signature (qualified_items a items) = item_signature items"
  by (simp add: item_signature_def qualified_items_def o_def)

lemma map_opt_map: "map_opt f (map g xs) = map_opt (\<lambda>x. f (g x)) xs"
  by (simp add: map_opt_def o_def)

text \<open>The first columns of the left side.\<close>

lemma eval_left_prefix:
  assumes "distinct lnames" "la \<noteq> ra" "length l = length lnames" "map fst sig = take (length sig) lnames" "length sig \<le> length lnames"
  shows "map_opt (\<lambda>it. eval_row E (join_scope la lnames ra rnames) (l @ r) (pi_expr it)) (qualified_items la (plain_items sig))
    = Some (take (length sig) l)"
  unfolding qualified_plain map_opt_map map_opt_Some list_all2_conv_all_nth
proof (intro conjI allI impI)
  fix j
  assume j: "j < length sig"
  have "fst (sig ! j) = map fst sig ! j" using j by simp
  also have "\<dots> = lnames ! j" using assms(4) j by simp
  finally show "eval_row E (join_scope la lnames ra rnames) (l @ r)
      (pi_expr (case sig ! j of (nm, ty) \<Rightarrow> ProjectionItem nm (qualified_col la nm ty) ty)) = Some (take (length sig) l ! j)"
    using eval_left [OF assms(1) _ assms(2,3), of j E rnames r] j assms(5) by (simp add: case_prod_beta)
qed (use assms in simp)

lemma eval_right_prefix:
  assumes "distinct rnames" "la \<noteq> ra" "length l = length lnames" "length r = length rnames"
    "map fst sig = take (length sig) rnames" "length sig \<le> length rnames"
  shows "map_opt (\<lambda>it. eval_row E (join_scope la lnames ra rnames) (l @ r) (pi_expr it)) (qualified_items ra (plain_items sig))
    = Some (take (length sig) r)"
  unfolding qualified_plain map_opt_map map_opt_Some list_all2_conv_all_nth
proof (intro conjI allI impI)
  fix j
  assume j: "j < length sig"
  have "fst (sig ! j) = map fst sig ! j" using j by simp
  also have "\<dots> = rnames ! j" using assms(5) j by simp
  finally show "eval_row E (join_scope la lnames ra rnames) (l @ r)
      (pi_expr (case sig ! j of (nm, ty) \<Rightarrow> ProjectionItem nm (qualified_col ra nm ty) ty)) = Some (take (length sig) r ! j)"
    using eval_right [OF assms(1) _ assms(2,3), of j E r] j assms(6) by (simp add: case_prod_beta)
qed (use assms in simp)

text \<open>Equality of the two key columns.\<close>

lemma key_condition:
  assumes "distinct lnames" "i < length lnames" "lnames ! i = key" "length l = length lnames" "l ! i = SInt a"
    and "distinct rnames" "j < length rnames" "rnames ! j = key" "r ! j = SInt b" "engine_ok E"
  shows "condition E (join_scope ''l'' lnames ''r'' rnames) (key_equality key) (l @ r) = Some (a = b)"
proof -
  let ?sc = "join_scope ''l'' lnames ''r'' rnames"
  have "eval_row E ?sc (l @ r) (qualified_col ''l'' key IntegerType) = Some (SInt a)"
    using eval_left [OF assms(1,2) _ assms(4), of "''l''" "''r''" E rnames r] assms(3,5) by simp
  moreover have "eval_row E ?sc (l @ r) (qualified_col ''r'' key IntegerType) = Some (SInt b)"
    using eval_right [OF assms(6,7) _ assms(4), of "''l''" "''r''" E r] assms(8,9) by simp
  moreover have "scalar (key_equality key)" by (simp add: key_equality_def eq_def qualified_col_def)
  ultimately show ?thesis
    by (simp add: condition_def key_equality_def eq_def sql_cmp_def engine_eq [OF assms(10)] del: map_append)
qed


section \<open>One partner each\<close>

lemma matching_exchange:
  "mset (matching m L R) = mset (concat (map (\<lambda>r. map (\<lambda>l. l @ r) (filter (\<lambda>l. m l r) L)) R))"
proof (induction L)
  case (Cons l L)
  have "mset (concat (map (\<lambda>r. map (\<lambda>l. l @ r) (filter (\<lambda>l'. m l' r) (l # L))) R))
      = mset (map (append l) (filter (m l) R)) + mset (concat (map (\<lambda>r. map (\<lambda>l. l @ r) (filter (\<lambda>l. m l r) L)) R))"
    by (induction R) auto
  with Cons show ?case by (simp add: matching_def)
qed (simp add: matching_def)

lemma left_padded_matched:
  assumes "\<forall>l \<in> set L. \<exists>r \<in> set R. m l r"
  shows "left_padded m w L R = matching m L R"
proof -
  have "(case filter (m l) R of [] \<Rightarrow> [l @ nulls w] | rs \<Rightarrow> map (append l) rs) = map (append l) (filter (m l) R)"
    if "l \<in> set L" for l
    using assms that by (cases "filter (m l) R") (auto simp: filter_empty_conv)
  then show ?thesis unfolding left_padded_def matching_def by (metis (mono_tags, lifting) map_cong)
qed

lemma right_padded_matched:
  assumes "\<forall>r \<in> set R. \<exists>l \<in> set L. m l r"
  shows "mset (right_padded m w L R) = mset (matching m L R)"
proof -
  have "(case filter (\<lambda>l. m l r) L of [] \<Rightarrow> [nulls w @ r] | ls \<Rightarrow> map (\<lambda>l. l @ r) ls) = map (\<lambda>l. l @ r) (filter (\<lambda>l. m l r) L)"
    if "r \<in> set R" for r
    using assms that by (cases "filter (\<lambda>l. m l r) L") (auto simp: filter_empty_conv)
  then have "right_padded m w L R = concat (map (\<lambda>r. map (\<lambda>l. l @ r) (filter (\<lambda>l. m l r) L)) R)"
    unfolding right_padded_def by (metis (mono_tags, lifting) map_cong)
  then show ?thesis by (simp only: matching_exchange)
qed

text \<open>Where every row of each side has a match, the four join types agree.\<close>

lemma join_types_agree:
  assumes "\<forall>l \<in> set L. \<exists>r \<in> set R. m l r" "\<forall>r \<in> set R. \<exists>l \<in> set L. m l r"
  shows "\<exists>rows. join_rows (join_value choice) m lw rw L R = Some rows \<and> mset rows = mset (matching m L R)"
proof -
  have none: "filter (\<lambda>r. \<forall>l \<in> set L. \<not> m l r) R = []" using assms(2) by (auto simp: filter_empty_conv)
  show ?thesis
    by (cases choice) (simp_all add: join_rows_def left_padded_matched [OF assms(1)] right_padded_matched [OF assms(2)] none)
qed

lemma filter_single:
  assumes "distinct xs" "x \<in> set xs" "\<And>y. y \<in> set xs \<Longrightarrow> p y \<longleftrightarrow> y = x"
  shows "filter p xs = [x]"
proof -
  have "filter p xs = filter (\<lambda>y. y = x) xs" using assms(3) by (auto intro: filter_cong)
  also have "\<dots> = [x]" using assms(1,2) by (induction xs) (auto simp: filter_empty_conv)
  finally show ?thesis .
qed

text \<open>Two projections of the same keyed rows, joined on the key.\<close>

lemma matching_keyed:
  assumes "keyed_rows B rows" "set rows' = set rows"
    and "\<And>l r. l \<in> set rows \<Longrightarrow> r \<in> set rows \<Longrightarrow> m (g l) (f r) \<longleftrightarrow> last l = last r"
  shows "matching m (map g rows') (map f rows) = map (\<lambda>l. g l @ f l) rows'"
proof -
  have "filter (m (g l)) (map f rows) = [f l]" if "l \<in> set rows'" for l
  proof -
    have l: "l \<in> set rows" using that assms(2) by simp
    have "filter (\<lambda>r. m (g l) (f r)) rows = [l]"
    proof (rule filter_single [OF keyed_distinct [OF assms(1)] l])
      fix r
      assume r: "r \<in> set rows"
      show "m (g l) (f r) \<longleftrightarrow> r = l" using assms(3) [OF l r] keyed_inj [OF assms(1) l r] by auto
    qed
    then show ?thesis by (simp add: filter_map o_def)
  qed
  then have "map (\<lambda>l. map (append l) (filter (m l) (map f rows))) (map g rows') = map (\<lambda>l. [g l @ f l]) rows'" by simp
  moreover have "concat (map (\<lambda>l. [g l @ f l]) rows') = map (\<lambda>l. g l @ f l) rows'" by (induction rows') simp_all
  ultimately show ?thesis unfolding matching_def by (simp only:)
qed

lemma matched_keyed:
  assumes "set rows' = set rows" "\<And>l r. l \<in> set rows \<Longrightarrow> r \<in> set rows \<Longrightarrow> m (g l) (f r) \<longleftrightarrow> last l = last r"
  shows "\<forall>l \<in> set (map g rows'). \<exists>r \<in> set (map f rows). m l r" "\<forall>r \<in> set (map f rows). \<exists>l \<in> set (map g rows'). m l r"
  using assms by auto

text \<open>What is left of a join: the condition over the joined rows, then the projection.\<close>

lemma where_all:
  assumes "\<And>r. r \<in> set rows \<Longrightarrow> condition E sc e r = Some True"
  shows "where_rows E sc (Some e) rows = Some rows"
proof -
  have "where_rows E sc (Some e) rows = Some (filter (\<lambda>_. True) rows)"
    by (rule where_rows_filter) (use assms in simp)
  then show ?thesis by simp
qed

lemma where_none: "where_rows E sc None rows = Some rows"
  by (simp add: where_rows_def)

lemma join_finish:
  fixes la ra :: string and lnames rnames :: "string list" and jt :: string
  defines "sc \<equiv> (if one_sided jt then map (Pair la) lnames else join_scope la lnames ra rnames)"
  assumes "on_verdicts E (join_scope la lnames ra rnames) jt cond L R = Some m"
    and "join_rows jt m (length lnames) (length rnames) L R = Some rows"
    and "where_rows E sc w rows = Some kept" "mset kept = mset (map u xs)"
    and "\<And>it. it \<in> set items \<Longrightarrow> scalar (pi_expr it)"
    and "\<And>x. x \<in> set xs \<Longrightarrow> map_opt (\<lambda>it. eval_row E sc (u x) (pi_expr it)) items = Some (h x)"
  shows "\<exists>out. join_query_rows E lnames rnames L R cond jt items la ra w = Some out \<and> mset out = mset (map h xs)"
proof -
  let ?g = "\<lambda>r. the (map_opt (\<lambda>it. eval_row E sc r (pi_expr it)) items)"
  have "set kept = u ` set xs" using mset_eq_setD [OF assms(5)] by simp
  then have "project_rows E sc items kept = Some (map ?g kept)"
    by (intro project_rows_values [OF assms(6)]) (use assms(7) in auto)
  then have "join_query_rows E lnames rnames L R cond jt items la ra w = Some (map ?g kept)"
    using assms(2-4) unfolding join_query_rows_def Let_def sc_def by (simp only: Option.bind.simps)
  moreover have "map ?g (map u xs) = map h xs" using assms(7) by simp
  then have "mset (map ?g kept) = mset (map h xs)" using mset_eq_map [OF assms(5), of ?g] by (simp only:)
  ultimately show ?thesis by blast
qed

lemma keys_verdicts:
  assumes "\<forall>l \<in> set L. \<forall>r \<in> set R. condition E sc e (l @ r) = Some (m l r)" "jt \<noteq> ''CROSS''"
  shows "\<exists>m'. on_verdicts E sc jt (Some e) L R = Some m' \<and> (\<forall>l \<in> set L. \<forall>r \<in> set R. m' l r \<longleftrightarrow> m l r)"
proof -
  have "list_all (\<lambda>l. list_all (\<lambda>r. condition E sc e (l @ r) \<noteq> None) R) L" using assms(1) by (simp add: list_all_iff)
  with assms show ?thesis by (simp add: on_verdicts_def)
qed


section \<open>Nodes over a keyed table and its flags\<close>

text \<open>A reordering of mapped rows is the mapping of reordered rows.\<close>

lemma map_perm: "mset zs = image_mset f M \<Longrightarrow> \<exists>ys. mset ys = M \<and> zs = map f ys"
proof (induction zs arbitrary: M)
  case (Cons z zs)
  then have "z \<in># image_mset f M" by (metis list.set_intros(1) set_mset_mset)
  then obtain x where "x \<in># M" "z = f x" by auto
  then obtain M' where x: "M = add_mset x M'" "z = f x" by (metis multi_member_split)
  with Cons.prems have "mset zs = image_mset f M'" by simp
  from Cons.IH [OF this] obtain ys where "mset ys = M'" "zs = map f ys" by blast
  with x show ?case by (intro exI [of _ "x # ys"]) simp
qed simp

lemma scan_map:
  assumes "engine_ok E" "mset stored = mset rows0"
  shows "\<exists>rows. en_scan E p (map f stored) = map f rows \<and> mset rows = mset rows0"
proof -
  have "mset (en_scan E p (map f stored)) = image_mset f (mset stored)" using assms(1) by simp
  from map_perm [OF this] assms(2) show ?thesis by auto
qed

text \<open>A row-by-row projection of a keyed table, in a table or a view.\<close>

lemma den_projected:
  assumes "keyed_source t key rel" "engine_ok E" "base_rows_ok t B" "\<forall>path. den E B path rel = Some stored"
    and "\<And>it. it \<in> set items \<Longrightarrow> scalar (pi_expr it)"
    and "\<And>r. length r = length (column_names t @ [key]) \<Longrightarrow>
      map_opt (\<lambda>it. eval_row E (map (Pair []) (column_names t @ [key])) r (pi_expr it)) items = Some (f r)"
  shows "den E B path (plain_select i rel (Some items) None) = Some (map f (en_scan E (i # path) stored))"
proof -
  obtain stored' where stored': "\<forall>path. den E B path rel = Some stored'"
    "\<forall>p. \<forall>r \<in> set (en_scan E p stored'). length r = length (column_names t @ [key])"
    by (rule keyed_scan [OF assms(1-3)]) blast
  with assms(4) have len: "\<forall>r \<in> set (en_scan E (i # path) stored). length r = length (column_names t @ [key])" by simp
  have "project_rows E (map (Pair []) (column_names t @ [key])) items (en_scan E (i # path) stored)
      = Some (map f (en_scan E (i # path) stored))"
    by (rule project_rows_values [OF assms(5)]) (use assms(6) len in blast)+
  with assms(4) show ?thesis
    by (simp add: den_select_plain keyed_names(2) [OF assms(1)] where_rows_def del: den.simps(2) map_append)
qed

lemma keyed_stored:
  assumes "keyed_source t key n" "engine_ok E" "base_rows_ok t B"
  obtains stored where "\<forall>path. den E B path n = Some stored" "keyed_rows B stored"
proof -
  obtain stored where stored: "\<forall>path. den E B path n = Some stored" "\<forall>p. keyed_rows B (en_scan E p stored)"
    by (rule keyed_scan [OF assms]) blast
  have "keyed_rows B stored" by (rule keyed_perm [OF spec [OF stored(2)]]) (simp add: assms(2))
  with stored(1) show thesis by (rule that)
qed

text \<open>Both sides of a join of a keyed table with a projection of itself.\<close>

lemma keyed_sides:
  assumes "keyed_source t key rel" "engine_ok E" "base_rows_ok t B"
    and "\<And>stored. \<forall>path. den E B path rel = Some stored \<Longrightarrow>
      \<exists>rows. den E B (Suc 0 # q # path) side = Some (map f rows) \<and> mset rows = mset stored"
  obtains L R rows' rows where "den E B (0 # q # path) rel = Some L" "en_scan E (0 # q # path) L = rows'"
    "den E B (Suc 0 # q # path) side = Some R" "en_scan E (Suc 0 # q # path) R = map f rows"
    "keyed_rows B rows" "keyed_rows B rows'" "set rows' = set rows"
proof -
  obtain stored where stored: "\<forall>path. den E B path rel = Some stored" "keyed_rows B stored"
    by (rule keyed_stored [OF assms(1-3)])
  obtain flags where flags: "den E B (Suc 0 # q # path) side = Some (map f flags)" "mset flags = mset stored"
    using assms(4) [OF stored(1)] by blast
  obtain rows where rows: "en_scan E (Suc 0 # q # path) (map f flags) = map f rows" "mset rows = mset stored"
    using scan_map [OF assms(2) flags(2)] by blast
  have L: "keyed_rows B (en_scan E (0 # q # path) stored)"
    by (rule keyed_perm [OF stored(2)]) (simp add: assms(2))
  have R: "keyed_rows B rows" by (rule keyed_perm [OF stored(2) rows(2)])
  have "set (en_scan E (0 # q # path) stored) = set rows" using mset_eq_setD [OF rows(2)] assms(2) by simp
  then show thesis by (rule that [OF spec [OF stored(1)] refl flags(1) rows(1) R L])
qed

lemma keyed_condition:
  assumes "keyed_rows B rows" "l \<in> set rows" "r \<in> set rows" "engine_ok E"
    and "distinct lnames" "i < length lnames" "lnames ! i = key" "length (g l) = length lnames" "g l ! i = last l"
    and "distinct rnames" "j < length rnames" "rnames ! j = key" "f r ! j = last r"
  shows "condition E (join_scope ''l'' lnames ''r'' rnames) (key_equality key) (g l @ f r) = Some (last l = last r)"
proof -
  obtain a where a: "last l = SInt a" by (rule keyed_row [OF assms(1,2)]) simp
  obtain b where b: "last r = SInt b" by (rule keyed_row [OF assms(1,3)]) simp
  from a b assms show ?thesis
    using key_condition [of lnames i key "g l" a rnames j "f r" b E] by simp
qed

text \<open>The keyed table on the left, rows that start with the key on the right.\<close>

lemma keyed_left_condition:
  assumes "keyed_rows B rows" "l \<in> set rows" "r \<in> set rows" "engine_ok E" "base_rows_ok t B"
    and "distinct (column_names t @ [key])" "distinct (key # rnames)" "f r ! 0 = last r"
  shows "condition E (join_scope ''l'' (column_names t @ [key]) ''r'' (key # rnames)) (key_equality key) (l @ f r) = Some (last l = last r)"
proof -
  have len: "length l = length (column_names t @ [key])" using keyed_lengths(1) [OF assms(1,5,2)] by simp
  then have "l \<noteq> []" by auto
  with len have "l ! length (column_names t) = last l" by (simp add: last_conv_nth)
  with len assms(6-8) show ?thesis
    using keyed_condition [OF assms(1-4), of "column_names t @ [key]" "length (column_names t)" key id "key # rnames" 0 f]
    by (simp add: nth_append del: map_append)
qed

lemma base_projection:
  assumes "distinct (column_names t @ [key])" "length l = length (column_names t @ [key])"
  shows "map_opt (\<lambda>it. eval_row E (join_scope ''l'' (column_names t @ [key]) ''r'' rnames) (l @ r) (pi_expr it))
      (qualified_items ''l'' (plain_items (table_signature t))) = Some (butlast l)"
  using eval_left_prefix [OF assms(1) _ assms(2), of "''l''" "''r''" "table_signature t" E rnames r] assms(2)
  by (simp add: butlast_conv_take del: map_append)

lemma keyed_out: "keyed_rows B rows \<Longrightarrow> mset (map butlast rows) = mset B"
  by (simp only: keyed_rows_def)

definition flag_query :: "nat \<Rightarrow> eqnode \<Rightarrow> string \<Rightarrow> proj_item list \<Rightarrow> eqnode" where
  "flag_query i rel key extra = plain_select i rel (Some (int_item key # extra)) None"

lemma den_flags:
  assumes "keyed_source t key rel" "distinct (column_names t @ [key])" "engine_ok E" "base_rows_ok t B"
    and "\<forall>path. den E B path rel = Some stored"
    and "\<And>it. it \<in> set extra \<Longrightarrow> pi_expr it = int_lit 1"
  shows "\<exists>rows. den E B path (CreateFromQuery j CreateTable (flag_query i rel key extra) st e)
      = Some (map (\<lambda>r. last r # map (\<lambda>_. SInt 1) extra) rows) \<and> mset rows = mset stored"
proof -
  have scalars: "scalar (pi_expr it)" if "it \<in> set (int_item key # extra)" for it
    using that assms(6) by (auto simp: int_item_def col_def int_lit_def)
  have ones: "map_opt (\<lambda>it. eval_row E sc r (pi_expr it)) extra = Some (map (\<lambda>_. SInt 1) extra)" for sc r
    by (rule map_opt_total) (simp add: assms(6) int_lit_def)
  have vals: "map_opt (\<lambda>it. eval_row E (map (Pair []) (column_names t @ [key])) r (pi_expr it)) (int_item key # extra)
      = Some (last r # map (\<lambda>_. SInt 1) extra)" if "length r = length (column_names t @ [key])" for r
    using eval_key [OF assms(2) that] by (simp add: ones int_item_def del: map_append)
  have "den E B [j] (flag_query i rel key extra) = Some (map (\<lambda>r. last r # map (\<lambda>_. SInt 1) extra) (en_scan E [i, j] stored))"
    unfolding flag_query_def by (rule den_projected [OF assms(1,3,4,5) scalars vals])
  moreover have "mset (en_scan E [i, j] stored) = mset stored" using assms(3) by simp
  ultimately show ?thesis unfolding den_table by blast
qed

definition flag_side :: "nat \<Rightarrow> nat \<Rightarrow> string \<Rightarrow> eqnode \<Rightarrow> string \<Rightarrow> proj_item list \<Rightarrow> eqnode" where
  "flag_side j i nm rel key extra =
     (let q = flag_query i rel key extra; e = created_object nm (create_keyword CreateTable) q in CreateFromQuery j CreateTable q [e] e)"

lemma names_flags [simp]: "names_of (flag_side j i nm rel key extra) = key # map pi_alias extra"
  by (simp add: flag_side_def Let_def names_of_def flag_query_def int_item_def)

text \<open>What the three joins with a flag table share: the two sides, the pairs, and the columns read back.\<close>

lemma flag_sides:
  assumes "keyed_source t key rel" "distinct (column_names t @ [key])" "engine_ok E" "base_rows_ok t B"
    and "\<And>it. it \<in> set extra \<Longrightarrow> pi_expr it = int_lit 1" "distinct (key # map pi_alias extra)"
  obtains L R rows' rows where "den E B (0 # q # path) rel = Some L" "en_scan E (0 # q # path) L = rows'"
    "den E B (Suc 0 # q # path) (flag_side j i nm rel key extra) = Some R"
    "en_scan E (Suc 0 # q # path) R = map (\<lambda>r. last r # map (\<lambda>_. SInt 1) extra) rows"
    "keyed_rows B rows" "keyed_rows B rows'" "set rows' = set rows"
    "\<forall>l \<in> set rows'. \<forall>r \<in> set (map (\<lambda>r. last r # map (\<lambda>_. SInt 1) extra) rows).
        condition E (join_scope ''l'' (column_names t @ [key]) ''r'' (key # map pi_alias extra)) (key_equality key) (l @ r) = Some (last l = hd r)"
    "\<forall>l \<in> set rows. length l = length (column_names t @ [key])"
proof -
  let ?f = "\<lambda>r. last r # map (\<lambda>_. SInt 1) extra"
  have side: "\<exists>rows. den E B (Suc 0 # q # path) (flag_side j i nm rel key extra) = Some (map ?f rows)
      \<and> mset rows = mset stored" if "\<forall>path. den E B path rel = Some stored" for stored
    unfolding flag_side_def Let_def by (rule den_flags [OF assms(1-4) that assms(5)])
  obtain L R rows' rows where sides: "den E B (0 # q # path) rel = Some L" "en_scan E (0 # q # path) L = rows'"
    "den E B (Suc 0 # q # path) (flag_side j i nm rel key extra) = Some R"
    "en_scan E (Suc 0 # q # path) R = map ?f rows" "keyed_rows B rows" "keyed_rows B rows'" "set rows' = set rows"
    by (rule keyed_sides [OF assms(1,3,4) side])
  have "condition E (join_scope ''l'' (column_names t @ [key]) ''r'' (key # map pi_alias extra)) (key_equality key) (l @ ?f r)
      = Some (last l = last r)" if "l \<in> set rows" "r \<in> set rows" for l r
    by (rule keyed_left_condition [OF sides(5) that assms(3,4,2,6)]) simp
  then have "\<forall>l \<in> set rows'. \<forall>r \<in> set (map ?f rows).
      condition E (join_scope ''l'' (column_names t @ [key]) ''r'' (key # map pi_alias extra)) (key_equality key) (l @ r) = Some (last l = hd r)"
    unfolding sides(7) by (auto simp del: map_append)
  moreover have "\<forall>l \<in> set rows. length l = length (column_names t @ [key])"
    using keyed_lengths(1) [OF sides(5) assms(4)] by simp
  ultimately show thesis using that [OF sides] by blast
qed

lemma flag_shape: "keyed_source t key rel \<Longrightarrow> well_formed (flag_side j i nm rel key extra)"
  using keyed_shape by (auto simp: flag_side_def Let_def flag_query_def)

definition join_flags :: "nat \<Rightarrow> eqnode \<Rightarrow> table \<Rightarrow> eqnode \<Rightarrow> expr option \<Rightarrow> string \<Rightarrow> expr option \<Rightarrow> eqnode" where
  "join_flags k side t rel cond jt w =
     JoinQuery k rel side cond jt (qualified_items ''l'' (plain_items (table_signature t))) ''l'' ''r'' w"

lemma join_flags_delivers:
  assumes "keyed_source t key rel"
    and "\<And>E B path. engine_ok E \<Longrightarrow> base_rows_ok t B \<Longrightarrow>
      \<exists>rows. den E B path (join_flags k (flag_side j i nm rel key extra) t rel cond jt w) = Some rows \<and> mset rows = mset B"
  shows "delivers t [] (join_flags k (flag_side j i nm rel key extra) t rel cond jt w)"
  using assms flag_shape [OF assms(1)] keyed_shape [OF assms(1)]
  by (simp add: delivers_def join_flags_def del: den.simps)

lemma semi_delivers:
  assumes "keyed_source t key rel" "distinct (column_names t @ [key])"
  shows "delivers t [] (join_flags k (flag_side j i nm rel key []) t rel (Some (key_equality key)) ''SEMI'' None)"
proof (rule join_flags_delivers [OF assms(1)])
  fix E B path
  assume E: "engine_ok E" "base_rows_ok t B"
  let ?side = "flag_side j i nm rel key []" and ?names = "column_names t @ [key]"
  obtain L R rows' rows where sides: "den E B (0 # k # path) rel = Some L" "en_scan E (0 # k # path) L = rows'"
    "den E B (Suc 0 # k # path) ?side = Some R" "en_scan E (Suc 0 # k # path) R = map (\<lambda>r. last r # map (\<lambda>_. SInt 1) ([] :: proj_item list)) rows"
    "keyed_rows B rows" "keyed_rows B rows'" "set rows' = set rows"
    "\<forall>l \<in> set rows'. \<forall>r \<in> set (map (\<lambda>r. last r # map (\<lambda>_. SInt 1) ([] :: proj_item list)) rows).
        condition E (join_scope ''l'' ?names ''r'' (key # map pi_alias [])) (key_equality key) (l @ r) = Some (last l = hd r)"
    "\<forall>l \<in> set rows. length l = length ?names"
    by (rule flag_sides [OF assms E, where extra = "[]"]) simp_all
  let ?R = "map (\<lambda>r. last r # map (\<lambda>_. SInt 1) ([] :: proj_item list)) rows" and ?rnames = "key # map pi_alias []"
    and ?items = "qualified_items ''l'' (plain_items (table_signature t))"
  obtain m where m: "on_verdicts E (join_scope ''l'' ?names ''r'' ?rnames) ''SEMI'' (Some (key_equality key)) rows' ?R = Some m"
    "\<forall>l \<in> set rows'. \<forall>r \<in> set ?R. m l r \<longleftrightarrow> last l = hd r"
    using keys_verdicts [OF sides(8), of "''SEMI''"] by auto
  have "\<exists>r \<in> set ?R. m l r" if "l \<in> set rows'" for l using m(2) that sides(7) by auto
  then have semi: "join_rows ''SEMI'' m (length ?names) (length ?rnames) rows' ?R = Some rows'"
    by (simp add: join_rows_def filter_id_conv)
  have vals: "map_opt (\<lambda>it. eval_row E (if one_sided ''SEMI'' then map (Pair ''l'') ?names else join_scope ''l'' ?names ''r'' ?rnames) r (pi_expr it)) ?items
      = Some (butlast r)" if "r \<in> set rows'" for r
    using base_projection [OF assms(2), of r E "[]" "[]"] that sides(7,9) by (simp add: one_sided_def)
  have "\<exists>out. join_query_rows E ?names ?rnames rows' ?R (Some (key_equality key)) ''SEMI'' ?items ''l'' ''r'' None = Some out
      \<and> mset out = mset (map butlast rows')"
    by (rule join_finish [OF m(1) semi where_none _ _ vals, where u = "\<lambda>r. r"]) (simp, erule qualified_scalar)
  then show "\<exists>rows. den E B path (join_flags k (flag_side j i nm rel key []) t rel (Some (key_equality key)) ''SEMI'' None) = Some rows \<and> mset rows = mset B"
    using sides(1-4) keyed_out [OF sides(6)]
    by (simp add: join_flags_def keyed_names(1) [OF assms(1)])
qed

text \<open>Whichever join type is drawn, each row meets its own flag, and the flag is set.\<close>

definition flag_is_set :: "string \<Rightarrow> expr" where
  "flag_is_set flag = eq (qualified_col ''r'' flag IntegerType) (int_lit 1)"

lemma flag_condition:
  assumes "engine_ok E" "distinct (key # [flag])" "length l = length lnames"
  shows "condition E (join_scope ''l'' lnames ''r'' (key # [flag])) (flag_is_set flag) (l @ [k, SInt 1]) = Some True"
proof -
  have "eval_row E (join_scope ''l'' lnames ''r'' (key # [flag])) (l @ [k, SInt 1]) (qualified_col ''r'' flag IntegerType) = Some (SInt 1)"
    using eval_right [OF assms(2), of 1 "''l''" "''r''" l lnames E "[k, SInt 1]" IntegerType] assms(3) by simp
  then show ?thesis
    by (simp add: flag_is_set_def condition_def eq_def int_lit_def sql_cmp_def engine_eq [OF assms(1)] qualified_col_def del: map_append eval_row_simps(4))
qed

lemma flag_delivers:
  assumes "keyed_source t key rel" "distinct (column_names t @ [key])" "key \<noteq> flag"
  defines "extra \<equiv> [ProjectionItem flag (int_lit 1) IntegerType]"
  shows "delivers t [] (join_flags k (flag_side j i nm rel key extra) t rel (Some (key_equality key)) (join_value choice)
    (Some (flag_is_set flag)))" (is "delivers t [] (join_flags k ?side t rel _ _ _)")
proof (rule join_flags_delivers [OF assms(1)])
  fix E B path
  assume E: "engine_ok E" "base_rows_ok t B"
  let ?names = "column_names t @ [key]" and ?rnames = "key # map pi_alias extra" and ?f = "\<lambda>r. last r # map (\<lambda>_. SInt 1) extra"
    and ?items = "qualified_items ''l'' (plain_items (table_signature t))"
  have rnames: "?rnames = key # [flag]" and f: "?f = (\<lambda>r. [last r, SInt 1])" by (simp_all add: extra_def)
  obtain L R rows' rows where sides: "den E B (0 # k # path) rel = Some L" "en_scan E (0 # k # path) L = rows'"
    "den E B (Suc 0 # k # path) ?side = Some R" "en_scan E (Suc 0 # k # path) R = map ?f rows"
    "keyed_rows B rows" "keyed_rows B rows'" "set rows' = set rows"
    "\<forall>l \<in> set rows'. \<forall>r \<in> set (map ?f rows). condition E (join_scope ''l'' ?names ''r'' ?rnames) (key_equality key) (l @ r) = Some (last l = hd r)"
    "\<forall>l \<in> set rows. length l = length ?names"
    by (rule flag_sides [OF assms(1,2) E, where extra = extra]) (use assms(3) in \<open>auto simp: extra_def\<close>)
  have "join_value choice \<noteq> ''CROSS''" and two: "\<not> one_sided (join_value choice)" by (cases choice; simp add: one_sided_def)+
  then obtain m where m: "on_verdicts E (join_scope ''l'' ?names ''r'' ?rnames) (join_value choice) (Some (key_equality key)) rows' (map ?f rows) = Some m"
    "\<forall>l \<in> set rows'. \<forall>r \<in> set (map ?f rows). m l r \<longleftrightarrow> last l = hd r"
    using keys_verdicts [OF sides(8)] by blast
  have pair: "m (id l) (?f r) \<longleftrightarrow> last l = last r" if "l \<in> set rows" "r \<in> set rows" for l r
    using m(2) that sides(7) by auto
  note all = matched_keyed [OF sides(7), of m id ?f, OF pair, unfolded list.map_id]
  obtain joined where joined: "join_rows (join_value choice) m (length ?names) (length ?rnames) rows' (map ?f rows) = Some joined"
    "mset joined = mset (matching m rows' (map ?f rows))"
    using join_types_agree [OF all] by blast
  have pairs: "matching m rows' (map ?f rows) = map (\<lambda>l. l @ ?f l) rows'"
    using matching_keyed [OF sides(5,7), of m id ?f] pair by simp
  have in_pairs: "\<exists>l \<in> set rows. r = l @ ?f l" if "r \<in> set (map (\<lambda>l. l @ ?f l) rows')" for r using that sides(7) by auto
  have same: "set joined = set (map (\<lambda>l. l @ ?f l) rows')" using mset_eq_setD [OF joined(2)] pairs by simp
  have kept: "where_rows E (if one_sided (join_value choice) then map (Pair ''l'') ?names else join_scope ''l'' ?names ''r'' ?rnames)
      (Some (flag_is_set flag)) joined = Some joined"
  proof (rule where_all)
    fix r
    assume "r \<in> set joined"
    then obtain l where "l \<in> set rows" "r = l @ ?f l" using in_pairs same by blast
    with flag_condition [OF E(1), of key flag l ?names] assms(3) sides(9) two
    show "condition E (if one_sided (join_value choice) then map (Pair ''l'') ?names else join_scope ''l'' ?names ''r'' ?rnames) (flag_is_set flag) r = Some True"
      by (simp only: if_False rnames) (simp add: extra_def)
  qed
  have vals: "map_opt (\<lambda>it. eval_row E (if one_sided (join_value choice) then map (Pair ''l'') ?names else join_scope ''l'' ?names ''r'' ?rnames) (l @ ?f l) (pi_expr it)) ?items
      = Some (butlast l)" if "l \<in> set rows'" for l
    using base_projection [OF assms(2), of l E ?rnames "?f l"] sides(7,9) that two by (simp only: if_False)
  have "\<exists>out. join_query_rows E ?names ?rnames rows' (map ?f rows) (Some (key_equality key)) (join_value choice) ?items ''l'' ''r'' (Some (flag_is_set flag)) = Some out
      \<and> mset out = mset (map butlast rows')"
    by (rule join_finish [OF m(1) joined(1) kept _ _ vals]) (simp only: joined(2) pairs, erule qualified_scalar)
  then show "\<exists>rows. den E B path (join_flags k ?side t rel (Some (key_equality key)) (join_value choice) (Some (flag_is_set flag))) = Some rows \<and> mset rows = mset B"
    using sides(1-4) keyed_out [OF sides(6)] by (simp add: join_flags_def keyed_names(1) [OF assms(1)])
qed

text \<open>Every pair of rows, filtered by the key.\<close>

lemma filter_all_pairs: "filter P (matching (\<lambda>l r. True) L R) = matching (\<lambda>l r. P (l @ r)) L R"
proof -
  have "filter P (map (append l) R) = map (append l) (filter (\<lambda>r. P (l @ r)) R)" for l
    by (simp add: filter_map o_def)
  then show ?thesis by (simp add: matching_def filter_concat o_def)
qed

lemma cross_delivers:
  assumes "keyed_source t key rel" "distinct (column_names t @ [key])"
  shows "delivers t [] (join_flags k (flag_side j i nm rel key []) t rel None ''CROSS'' (Some (key_equality key)))"
    (is "delivers t [] (join_flags k ?side t rel _ _ _)")
proof (rule join_flags_delivers [OF assms(1)])
  fix E B path
  assume E: "engine_ok E" "base_rows_ok t B"
  let ?names = "column_names t @ [key]" and ?rnames = "key # map pi_alias []" and ?f = "\<lambda>r. last r # map (\<lambda>_. SInt 1) ([] :: proj_item list)"
    and ?items = "qualified_items ''l'' (plain_items (table_signature t))"
  let ?sc = "join_scope ''l'' ?names ''r'' ?rnames"
  obtain L R rows' rows where sides: "den E B (0 # k # path) rel = Some L" "en_scan E (0 # k # path) L = rows'"
    "den E B (Suc 0 # k # path) ?side = Some R" "en_scan E (Suc 0 # k # path) R = map ?f rows"
    "keyed_rows B rows" "keyed_rows B rows'" "set rows' = set rows"
    "\<forall>l \<in> set rows'. \<forall>r \<in> set (map ?f rows). condition E ?sc (key_equality key) (l @ r) = Some (last l = hd r)"
    "\<forall>l \<in> set rows. length l = length ?names"
    by (rule flag_sides [OF assms E, where extra = "[]"]) simp_all
  let ?out = "if one_sided ''CROSS'' then map (Pair ''l'') ?names else ?sc"
  have two: "?out = ?sc" by (simp add: one_sided_def)
  let ?P = "\<lambda>r. condition E ?sc (key_equality key) r = Some True"
  let ?all = "matching (\<lambda>l r. True) rows' (map ?f rows)"
  have verdicts: "on_verdicts E ?sc ''CROSS'' None rows' (map ?f rows) = Some (\<lambda>l r. True)" by (simp add: on_verdicts_def)
  have cross: "join_rows ''CROSS'' (\<lambda>l r. True) (length ?names) (length ?rnames) rows' (map ?f rows) = Some ?all"
    by (simp add: join_rows_def)
  have in_all: "\<exists>l \<in> set rows'. \<exists>x \<in> set (map ?f rows). r = l @ x" if "r \<in> set ?all" for r
    using that by (auto simp: matching_def)
  have kept: "where_rows E ?out (Some (key_equality key)) ?all = Some (filter ?P ?all)"
    unfolding two by (rule where_rows_filter) (use in_all sides(8) in fastforce)
  have "filter ?P ?all = matching (\<lambda>l r. ?P (l @ r)) rows' (map ?f rows)" by (rule filter_all_pairs)
  also have "\<dots> = map (\<lambda>l. l @ ?f l) rows'"
    using matching_keyed [OF sides(5,7), of "\<lambda>l r. ?P (l @ r)" id ?f] sides(7,8) by (simp del: map_append)
  finally have pairs: "filter ?P ?all = map (\<lambda>l. l @ ?f l) rows'" .
  have vals: "map_opt (\<lambda>it. eval_row E ?out (l @ ?f l) (pi_expr it)) ?items = Some (butlast l)" if "l \<in> set rows'" for l
    unfolding two using base_projection [OF assms(2), of l E ?rnames "?f l"] sides(7,9) that by (simp only:)
  have "\<exists>out. join_query_rows E ?names ?rnames rows' (map ?f rows) None ''CROSS'' ?items ''l'' ''r'' (Some (key_equality key)) = Some out
      \<and> mset out = mset (map butlast rows')"
    by (rule join_finish [OF verdicts cross kept _ _ vals]) (simp only: pairs, erule qualified_scalar)
  then show "\<exists>rows. den E B path (join_flags k ?side t rel None ''CROSS'' (Some (key_equality key))) = Some rows \<and> mset rows = mset B"
    using sides(1-4) keyed_out [OF sides(6)] by (simp add: join_flags_def keyed_names(1) [OF assms(1)])
qed

section \<open>A join to no rows\<close>

lemma left_join_empty_delivers:
  assumes "reads_base t l" "delivers t [RowFilterConstraint empty_predicate] r" "distinct (column_names t)"
  shows "delivers t [] (JoinQuery k l r (Some (eq (int_lit 1) (int_lit 1))) ''LEFT OUTER''
    (qualified_items ''l'' (plain_items (table_signature t))) ''l'' ''r'' None)" (is "delivers t [] ?node")
  unfolding delivers_def
proof (intro conjI allI impI)
  fix E B path
  assume E: "engine_ok E" "base_rows_ok t B"
  let ?names = "column_names t" and ?items = "qualified_items ''l'' (plain_items (table_signature t))" and ?on = "eq (int_lit 1) (int_lit 1)"
  obtain L where L: "den E B (0 # k # path) l = Some L" "mset (en_scan E (0 # k # path) L) = mset B" "base_rows_ok t (en_scan E (0 # k # path) L)"
    using scanned [OF assms(1) E] by (metis wanted_Nil)
  obtain R where R: "den E B (Suc 0 # k # path) r = Some R" "en_scan E (Suc 0 # k # path) R = []"
    using scanned [OF assms(2) E] by (metis wanted_empty [OF E(1)] mset_zero_iff_right mset.simps(1))
  let ?L = "en_scan E (0 # k # path) L" and ?m = "\<lambda>l r. condition E (join_scope ''l'' ?names ''r'' ?names) ?on (l @ r) = Some True"
  have verdicts: "on_verdicts E (join_scope ''l'' ?names ''r'' ?names) ''LEFT OUTER'' (Some ?on) ?L [] = Some ?m"
    by (simp add: on_verdicts_def list_all_iff)
  have padded: "left_padded m w L [] = map (\<lambda>l. l @ nulls w) L" for m w L
    by (induction L) (simp_all add: left_padded_def)
  have outer: "join_rows ''LEFT OUTER'' ?m (length ?names) (length ?names) ?L [] = Some (map (\<lambda>l. l @ nulls (length ?names)) ?L)"
    by (simp add: join_rows_def padded)
  have vals: "map_opt (\<lambda>it. eval_row E (if one_sided ''LEFT OUTER'' then map (Pair ''l'') ?names else join_scope ''l'' ?names ''r'' ?names)
      (l @ nulls (length ?names)) (pi_expr it)) ?items = Some l" if "l \<in> set ?L" for l
  proof -
    have "length l = length ?names" using L(3) that by (simp add: base_rows_ok_def row_ok_length)
    with eval_left_prefix [OF assms(3) _ this, of "''l''" "''r''" "table_signature t" E ?names "nulls (length ?names)"]
    show ?thesis by (simp add: one_sided_def)
  qed
  have "\<exists>out. join_query_rows E ?names ?names ?L [] (Some ?on) ''LEFT OUTER'' ?items ''l'' ''r'' None = Some out
      \<and> mset out = mset (map (\<lambda>l. l) ?L)"
    by (rule join_finish [OF verdicts outer where_none refl _ vals]) (erule qualified_scalar)
  then show "\<exists>rows. den E B path ?node = Some rows \<and> mset rows = mset (wanted E t [] B)"
    using L(1,2) R names_delivers(1) [OF assms(1)] names_delivers(1) [OF assms(2)] by simp
qed (use assms in \<open>simp_all add: delivers_def\<close>)


section \<open>Two halves of the columns\<close>

definition half_query :: "nat \<Rightarrow> eqnode \<Rightarrow> string \<Rightarrow> signature \<Rightarrow> eqnode" where
  "half_query i rel key sig = plain_select i rel (Some (plain_items sig @ [int_item key])) None"

definition half_view :: "nat \<Rightarrow> nat \<Rightarrow> string \<Rightarrow> eqnode \<Rightarrow> string \<Rightarrow> signature \<Rightarrow> eqnode" where
  "half_view j i nm rel key sig =
     (let q = half_query i rel key sig; e = created_object nm (create_keyword CreateView) q in CreateFromQuery j CreateView q [e] e)"

definition half_row :: "nat \<Rightarrow> nat \<Rightarrow> row \<Rightarrow> row" where
  "half_row from width r = take width (drop from r) @ [last r]"

lemma names_half [simp]: "names_of (half_view j i nm rel key sig) = map fst sig @ [key]"
  by (simp add: half_view_def Let_def names_of_def half_query_def int_item_def)

lemma half_shape: "keyed_source t key rel \<Longrightarrow> well_formed (half_view j i nm rel key sig)"
  using keyed_shape by (auto simp: half_view_def Let_def half_query_def)

lemma den_half:
  assumes "keyed_source t key rel" "distinct (column_names t @ [key])" "engine_ok E" "base_rows_ok t B"
    and "\<forall>path. den E B path rel = Some stored" "sig = take width (drop from (table_signature t))" "from + width \<le> length (table_signature t)"
  shows "\<exists>rows. den E B path (half_view j i nm rel key sig) = Some (map (half_row from width) rows) \<and> mset rows = mset stored"
proof -
  have len: "length sig = width" using assms(6,7) by simp
  have names: "map fst sig = take (length sig) (drop from (column_names t @ [key]))"
    using assms(6,7) len by (simp add: take_map [symmetric] drop_map [symmetric])
  have vals: "map_opt (\<lambda>it. eval_row E (map (Pair []) (column_names t @ [key])) r (pi_expr it)) (plain_items sig @ [int_item key])
      = Some (half_row from width r)" if r: "length r = length (column_names t @ [key])" for r
  proof -
    have "map_opt (\<lambda>it. eval_row E (map (Pair []) (column_names t @ [key])) r (pi_expr it)) (plain_items sig) = Some (take width (drop from r))"
      using eval_plain_slice [OF assms(2) r names, of E "[]"] assms(7) len by simp
    moreover have "eval_row E (map (Pair []) (column_names t @ [key])) r (pi_expr (int_item key)) = Some (last r)"
      using eval_key [OF assms(2) r] by (simp add: int_item_def del: map_append)
    ultimately show ?thesis by (simp add: map_opt_append half_row_def del: map_append)
  qed
  have "scalar (pi_expr it)" if "it \<in> set (plain_items sig @ [int_item key])" for it
    using that plain_scalar by (auto simp: int_item_def col_def)
  from den_projected [OF assms(1,3,4,5) this vals]
  have "den E B (j # path) (half_query i rel key sig) = Some (map (half_row from width) (en_scan E (i # j # path) stored))"
    unfolding half_query_def by blast
  moreover have "mset (en_scan E (i # j # path) stored) = mset stored" using assms(3) by simp
  ultimately show ?thesis unfolding half_view_def Let_def den_view by blast
qed

lemma scan_half:
  assumes "keyed_source t key rel" "distinct (column_names t @ [key])" "engine_ok E" "base_rows_ok t B"
    and "\<forall>path. den E B path rel = Some stored" "keyed_rows B stored"
    and "sig = take width (drop from (table_signature t))" "from + width \<le> length (table_signature t)"
  obtains R rows where "den E B path (half_view j i nm rel key sig) = Some R" "en_scan E path R = map (half_row from width) rows"
    "keyed_rows B rows" "mset rows = mset stored"
proof -
  obtain rows0 where rows0: "den E B path (half_view j i nm rel key sig) = Some (map (half_row from width) rows0)" "mset rows0 = mset stored"
    using den_half [OF assms(1-5,7,8)] by blast
  obtain rows where rows: "en_scan E path (map (half_row from width) rows0) = map (half_row from width) rows" "mset rows = mset stored"
    using scan_map [OF assms(3) rows0(2)] by blast
  from that [OF rows0(1) rows(1) keyed_perm [OF assms(6) rows(2)] rows(2)] show thesis .
qed

lemma half_row_key: "from + width \<le> length r - 1 \<Longrightarrow> half_row from width r ! width = last r"
  by (simp add: half_row_def nth_append)

lemma sequence_delivers:
  assumes "keyed_source t key rel" "distinct (column_names t @ [key])" "split \<le> length (table_signature t)"
  defines "ls \<equiv> take split (table_signature t)" and "rs \<equiv> drop split (table_signature t)"
  shows "delivers t [] (JoinQuery k (half_view j i nm rel key ls) (half_view j' i' nm' rel key rs) (Some (key_equality key)) ''FULL OUTER''
    (qualified_items ''l'' (plain_items ls) @ qualified_items ''r'' (plain_items rs)) ''l'' ''r'' None)" (is "delivers t [] ?node")
  unfolding delivers_def
proof (intro conjI allI impI)
  show "get_signature ?node = table_signature t" by (simp add: ls_def rs_def)
  show "well_formed ?node" using half_shape [OF assms(1)] by simp
  fix E B path
  assume E: "engine_ok E" "base_rows_ok t B"
  let ?n = "length (table_signature t)" and ?lnames = "map fst ls @ [key]" and ?rnames = "map fst rs @ [key]"
    and ?items = "qualified_items ''l'' (plain_items ls) @ qualified_items ''r'' (plain_items rs)"
  let ?g = "half_row 0 split" and ?f = "half_row split (?n - split)"
  have lens: "length ls = split" "length rs = ?n - split" using assms(3) by (simp_all add: ls_def rs_def)
  have sigs: "map fst ls = take split (column_names t)" "map fst rs = drop split (column_names t)"
    by (simp_all add: ls_def rs_def take_map [symmetric] drop_map [symmetric])
  have dist: "distinct ?lnames" "distinct ?rnames"
    using assms(2) by (auto simp: sigs dest: in_set_takeD in_set_dropD)
  obtain stored where stored: "\<forall>path. den E B path rel = Some stored" "keyed_rows B stored" by (rule keyed_stored [OF assms(1) E])
  obtain L rows' where L: "den E B (0 # k # path) (half_view j i nm rel key ls) = Some L" "en_scan E (0 # k # path) L = map ?g rows'"
    "keyed_rows B rows'" "mset rows' = mset stored"
    by (rule scan_half [OF assms(1,2) E stored, of ls split 0]) (use assms(3) in \<open>simp_all add: ls_def\<close>)
  obtain R rows where R: "den E B (Suc 0 # k # path) (half_view j' i' nm' rel key rs) = Some R" "en_scan E (Suc 0 # k # path) R = map ?f rows"
    "keyed_rows B rows" "mset rows = mset stored"
    by (rule scan_half [OF assms(1,2) E stored, of rs "?n - split" split]) (use assms(3) in \<open>simp_all add: rs_def\<close>)
  have same: "set rows' = set rows" using mset_eq_setD [OF L(4)] mset_eq_setD [OF R(4)] by simp
  have len: "length r = Suc ?n" if "r \<in> set rows" for r using keyed_lengths(1) [OF R(3) E(2) that] by simp
  have cond: "condition E (join_scope ''l'' ?lnames ''r'' ?rnames) (key_equality key) (?g l @ ?f r) = Some (last l = last r)"
    if "l \<in> set rows" "r \<in> set rows" for l r
    by (rule keyed_condition [OF R(3) that E(1) dist(1) _ _ _ _ dist(2), where i = split and j = "?n - split"])
      (use len [OF that(1)] len [OF that(2)] lens assms(3) in \<open>simp_all add: nth_append half_row_def\<close>)
  have all: "\<forall>l \<in> set (map ?g rows'). \<forall>r \<in> set (map ?f rows). condition E (join_scope ''l'' ?lnames ''r'' ?rnames) (key_equality key) (l @ r)
      = Some (condition E (join_scope ''l'' ?lnames ''r'' ?rnames) (key_equality key) (l @ r) = Some True)"
    using cond same by simp
  obtain m where m: "on_verdicts E (join_scope ''l'' ?lnames ''r'' ?rnames) ''FULL OUTER'' (Some (key_equality key)) (map ?g rows') (map ?f rows) = Some m"
    "\<forall>l \<in> set (map ?g rows'). \<forall>r \<in> set (map ?f rows). m l r \<longleftrightarrow> condition E (join_scope ''l'' ?lnames ''r'' ?rnames) (key_equality key) (l @ r) = Some True"
    using keys_verdicts [OF all, of "''FULL OUTER''"] by auto
  have pair: "m (?g l) (?f r) \<longleftrightarrow> last l = last r" if "l \<in> set rows" "r \<in> set rows" for l r
    using m(2) cond [OF that] that same by simp
  obtain joined where joined: "join_rows (join_value FULL_OUTER) m (length ?lnames) (length ?rnames) (map ?g rows') (map ?f rows) = Some joined"
    "mset joined = mset (matching m (map ?g rows') (map ?f rows))"
    using join_types_agree [OF matched_keyed [OF same, of m ?g ?f, OF pair]] by blast
  have pairs: "mset joined = mset (map (\<lambda>l. ?g l @ ?f l) rows')"
    using matching_keyed [OF R(3) same, of m ?g ?f] pair joined(2) by simp
  have vals: "map_opt (\<lambda>it. eval_row E (if one_sided ''FULL OUTER'' then map (Pair ''l'') ?lnames else join_scope ''l'' ?lnames ''r'' ?rnames)
      (?g l @ ?f l) (pi_expr it)) ?items = Some (butlast l)" if "l \<in> set rows'" for l
  proof -
    have l: "length l = Suc ?n" using len that same by simp
    have "length (?g l) = length ?lnames" "length (?f l) = length ?rnames" using l lens assms(3) by (simp_all add: half_row_def)
    from eval_left_prefix [OF dist(1) _ this(1), of "''l''" "''r''" ls E ?rnames "?f l"]
      eval_right_prefix [OF dist(2) _ this, of "''l''" "''r''" rs E]
    have "map_opt (\<lambda>it. eval_row E (join_scope ''l'' ?lnames ''r'' ?rnames) (?g l @ ?f l) (pi_expr it)) ?items
        = Some (take (length ls) (?g l) @ take (length rs) (?f l))"
      by (simp add: map_opt_append del: map_append)
    moreover have "take (length ls) (?g l) @ take (length rs) (?f l) = butlast l"
    proof -
      have "take (length rs) (?f l) = take (?n - split) (drop split l)" using l lens assms(3) by (simp add: half_row_def)
      moreover have "take (length ls) (?g l) = take split l" using l lens assms(3) by (simp add: half_row_def)
      moreover have "take split l @ take (?n - split) (drop split l) = take ?n l"
        using assms(3) take_add [of split "?n - split" l] by simp
      ultimately show ?thesis using l by (simp add: butlast_conv_take)
    qed
    ultimately show ?thesis by (simp add: one_sided_def del: map_append)
  qed
  have "\<exists>out. join_query_rows E ?lnames ?rnames (map ?g rows') (map ?f rows) (Some (key_equality key)) ''FULL OUTER'' ?items ''l'' ''r'' None = Some out
      \<and> mset out = mset (map butlast rows')"
    by (rule join_finish [OF m(1) joined(1) [unfolded join_value.simps] where_none pairs _ vals]) (auto dest: qualified_scalar)
  then show "\<exists>rows. den E B path ?node = Some rows \<and> mset rows = mset (wanted E t [] B)"
    using L(1,2) R(1,2) keyed_out [OF L(3)] by simp
qed

section \<open>The builders\<close>

lemma take_plain: "take k (plain_items sig) = plain_items (take k sig)" "drop k (plain_items sig) = plain_items (drop k sig)"
  by (simp_all add: plain_items_def take_map drop_map)

lemma fresh_key:
  assumes "env_ok env" "take 3 key = ''eq_''"
  shows "distinct (column_names (base_table env) @ [key])"
  using table_ok_fresh [OF _ assms(2), of "base_table env"] env_distinct [OF assms(1)] assms(1) by (simp add: env_ok_def)

context subtree_provider begin

lemma left_join_empty_spec:
  assumes "env_ok env"
  shows "gspec d E (build_left_join_empty sub env []) (makes base C_JoinQuery [])"
proof (cases "passthrough_items env = []")
  case True
  then show ?thesis by (simp add: build_left_join_empty_def wp)
next
  case False
  show ?thesis
    unfolding build_left_join_empty_def if_not_P [OF False]
  proof (rule wp_two_sides [OF assms make_single(2) empty_request [OF assms] request_Nil])
    fix l r
    assume "post base [] l" "post base [RowFilterConstraint empty_predicate] r"
    then have "post base [] (JoinQuery i l r (Some (eq (int_lit 1) (int_lit 1))) ''LEFT OUTER''
        (qualified_items ''l'' (plain_items (table_signature base))) ''l'' ''r'' None)" for i
      by (intro query_post [OF left_join_empty_delivers [OF full_post empty_post env_distinct [OF assms]]]) simp_all
    then show "gspec d E (gsome (mk_join l r (Some (eq (int_lit 1) (int_lit 1))) ''LEFT OUTER''
        (qualified_items ''l'' (passthrough_items env)) ''l'' ''r'' None)) (makes base C_JoinQuery [])"
      unfolding gen_norm passthrough_plain by (intro wp) simp_all
  qed simp
qed

lemmas join_nodes = join_flags_def flag_side_def flag_query_def half_view_def half_query_def flag_is_set_def Let_def

lemma semi_join_spec:
  assumes "env_ok env"
  shows "gspec d E (build_semi_join sub env []) (makes base C_JoinQuery [])"
proof -
  have "post base [] (join_flags k (flag_side j i nm rel key []) base rel (Some (key_equality key)) ''SEMI'' None)"
    if "keyed_source base key rel" "key = ''eq_sj'' @ ''_'' @ str_nat n" for k j i nm rel key n
    by (rule query_post [OF semi_delivers [OF that(1)]]) (use fresh_key [OF assms, of key] that(2) in \<open>simp_all add: join_flags_def\<close>)
  then show ?thesis
    unfolding build_semi_join_def gen_norm
    by (intro wp wp_key [OF assms]) (auto intro!: wp simp: gen_norm join_nodes)
qed

lemma cross_join_spec:
  assumes "env_ok env"
  shows "gspec d E (build_cross_join sub env []) (makes base C_JoinQuery [])"
proof -
  have "post base [] (join_flags k (flag_side j i nm rel key []) base rel None ''CROSS'' (Some (key_equality key)))"
    if "keyed_source base key rel" "key = ''eq_xj'' @ ''_'' @ str_nat n" for k j i nm rel key n
    by (rule query_post [OF cross_delivers [OF that(1)]]) (use fresh_key [OF assms, of key] that(2) in \<open>simp_all add: join_flags_def\<close>)
  then show ?thesis
    unfolding build_cross_join_def gen_norm
    by (intro wp wp_key [OF assms]) (auto intro!: wp simp: gen_norm join_nodes)
qed

lemma flag_join_spec:
  assumes "env_ok env"
  shows "gspec d E (build_flag_join sub env []) (makes base C_JoinQuery [])"
proof -
  have opts: "options_ok (join_type_weights (config env))" using assms by (simp add: env_ok_def config_ok_def)
  have "post base [] (join_flags k (flag_side j i nm rel key [ProjectionItem flag (int_lit 1) IntegerType]) base rel
      (Some (key_equality key)) (join_value choice) (Some (flag_is_set flag)))"
    if "keyed_source base key rel" "key = ''eq_uid'' @ ''_'' @ str_nat n" "flag = ''eq_flag'' @ ''_'' @ str_nat n'" for k j i nm rel key flag n n' choice
    by (rule query_post [OF flag_delivers [OF that(1)]]) (use fresh_key [OF assms, of key] that(2,3) in \<open>simp_all add: join_flags_def\<close>)
  then show ?thesis
    unfolding build_flag_join_def gen_norm
    by (intro wp wp_key [OF assms] opts) (auto intro!: wp simp: gen_norm join_nodes)
qed

lemma sequence_join_spec:
  assumes "env_ok env"
  shows "gspec d E (build_sequence_join sub env []) (makes base C_JoinQuery [])"
proof -
  let ?sig = "table_signature base"
  have "post base [] (JoinQuery k (half_view j i nm rel key (take split ?sig)) (half_view j' i' nm' rel key (drop split ?sig)) (Some (key_equality key))
      ''FULL OUTER'' (qualified_items ''l'' (plain_items (take split ?sig)) @ qualified_items ''r'' (plain_items (drop split ?sig))) ''l'' ''r'' None)"
    if "keyed_source base key rel" "key = ''eq_seq'' @ ''_'' @ str_nat n" "split = length (tab_columns base) div 2" for k j i nm j' i' nm' rel key n split
    by (rule query_post [OF sequence_delivers [OF that(1)]]) (use fresh_key [OF assms, of key] that(2,3) in simp_all)
  then show ?thesis
    unfolding build_sequence_join_def gen_norm
    by (intro wp wp_key [OF assms]) (auto intro!: wp simp: gen_norm join_nodes take_plain)
qed

end

end
