(* ===== verification/Coa_Sound_Dml.thy ===== *)
theory Coa_Sound_Dml
  imports Coa_Sound_Joins
begin

text \<open>
  The rewrites of \<open>dml_tables.py\<close>: a table whose rows are deleted and inserted back, and one whose
  rows are updated to what they were.  Whatever the predicate, \<open>DELETE\<close> and the \<open>INSERT\<close> that follows
  split the rows between them, rows with an unknown verdict staying in place.
\<close>


section \<open>Deleting and inserting back\<close>

lemma reinsert_same_columns:
  assumes "distinct names" "\<forall>r \<in> set rows. length r = length names" "where_rows E (map (Pair []) names) w rows = Some kept"
    "set kept \<subseteq> set rows"
  shows "reinsert_rows E names names w rows = Some kept"
proof -
  have "map_opt (position names) names = Some [0..<length names]"
    unfolding map_opt_Some list_all2_conv_all_nth using assms(1) by (simp add: position_def resolve_plain)
  moreover have "map (\<lambda>r. map (\<lambda>k. r ! k) [0..<length names]) kept = kept"
    by (rule read_all_columns(2)) (use assms(1,2,4) in auto)
  ultimately show ?thesis using assms(3) by (simp add: reinsert_rows_def)
qed

lemma delete_reinsert_rows:
  assumes "distinct (column_names t)" "\<And>p. w = Some p \<Longrightarrow> pred_ok t p" "engine_ok E"
    and "base_rows_ok t rows" "base_rows_ok t rows'" "mset rows = mset B" "mset rows' = mset B"
  shows "\<exists>kept again. delete_rows E (base_scope t) w rows = Some kept
    \<and> reinsert_rows E (column_names t) (column_names t) w rows' = Some again \<and> mset kept + mset again = mset B"
proof -
  have len: "\<forall>r \<in> set rows'. length r = length (column_names t)" using assms(5) by (auto simp: base_rows_ok_def row_ok_length)
  show ?thesis
  proof (cases w)
    case None
    have "reinsert_rows E (column_names t) (column_names t) None rows' = Some rows'"
      by (rule reinsert_same_columns [OF assms(1) len]) (simp_all add: where_rows_def)
    with None assms(7) show ?thesis by (simp add: delete_rows_def)
  next
    case (Some p)
    let ?hit = "\<lambda>r. condition E (base_scope t) p r = Some True"
    note p = assms(2) [OF Some]
    have "condition E (base_scope t) p r = Some (?hit r)" if "r \<in> set rows" for r
    proof -
      have "condition E (base_scope t) p r \<noteq> None" using p assms(3,4) that by (simp add: pred_ok_def base_rows_ok_def)
      then show ?thesis by auto
    qed
    then have "delete_rows E (base_scope t) (Some p) rows = Some (filter (\<lambda>r. \<not> ?hit r) rows)" by (rule delete_rows_filter)
    moreover have "reinsert_rows E (column_names t) (column_names t) (Some p) rows' = Some (filter ?hit rows')"
      by (rule reinsert_same_columns [OF assms(1) len where_pred [OF p assms(3,5)]]) simp
    moreover have "mset (filter (\<lambda>r. \<not> ?hit r) rows) + mset (filter ?hit rows') = mset B"
      using mset_eq_filter [of rows' rows ?hit] assms(6,7) filter_split2 [of ?hit rows] by (simp add: add.commute)
    ultimately show ?thesis unfolding Some by blast
  qed
qed

lemma delete_reinsert_delivers:
  assumes "reads_base t q" "distinct (column_names t)" "\<And>p. w = Some p \<Longrightarrow> pred_ok t p"
    and "shaped (DeleteReinsertTable i q t w st e)"
  shows "delivers t [] (DeleteReinsertTable i q t w st e)"
  unfolding delivers_def
proof (intro conjI allI impI)
  show "well_formed (DeleteReinsertTable i q t w st e)" "get_signature (DeleteReinsertTable i q t w st e) = table_signature t"
    using assms(1,4) by (auto simp: delivers_def)
  fix E B path
  assume E: "engine_ok E" "base_rows_ok t B"
  obtain rows where rows: "den E B [i] q = Some rows" "mset rows = mset B"
    using deliversD [OF assms(1) E] by (metis wanted_Nil)
  have scan: "mset (en_scan E [i] B) = mset B" using E(1) by simp
  obtain kept again where "delete_rows E (base_scope t) w rows = Some kept"
    "reinsert_rows E (column_names t) (column_names t) w (en_scan E [i] B) = Some again" "mset kept + mset again = mset B"
    using delete_reinsert_rows [OF assms(2,3) E(1) base_rows_perm [OF E(2) rows(2)] base_rows_perm [OF E(2) scan] rows(2) scan] by blast
  with rows(1) show "\<exists>rows. den E B path (DeleteReinsertTable i q t w st e) = Some rows \<and> mset rows = mset (wanted E t [] B)"
    by (simp add: names_delivers [OF assms(1)])
qed


section \<open>Updating to the same values\<close>

lemma fold_same: "\<forall>(k, v) \<in> set ups. v = r ! k \<Longrightarrow> fold (\<lambda>(k, v) acc. acc[k := v]) ups r = r"
  by (induction ups) auto

lemma assign_self:
  assumes "distinct (map fst sig)" "length r = length sig"
  shows "assign_row E (map fst sig) (map (\<lambda>(nm, ty). (nm, col nm ty)) sig) r = Some r"
proof -
  let ?f = "\<lambda>(nm, e). Option.bind (position (map fst sig) nm) (\<lambda>k.
      map_option (Pair k) (if scalar e then eval_row E (map (Pair []) (map fst sig)) r e else None))"
  have "map_opt ?f (map (\<lambda>(nm, ty). (nm, col nm ty)) sig) = Some (map (\<lambda>k. (k, r ! k)) [0..<length sig])"
    unfolding map_opt_Some list_all2_conv_all_nth
  proof (intro conjI allI impI)
    fix j
    assume "j < length (map (\<lambda>(nm, ty). (nm, col nm ty)) sig)"
    then have j: "j < length (map fst sig)" by simp
    from resolve_plain(1) [OF assms(1) this, of "[]"]
    show "?f (map (\<lambda>(nm, ty). (nm, col nm ty)) sig ! j) = Some (map (\<lambda>k. (k, r ! k)) [0..<length sig] ! j)"
      using j by (simp add: case_prod_beta position_def col_def)
  qed simp
  then show ?thesis unfolding assign_row_def by (simp only: option.map option.inject) (rule fold_same, auto)
qed

lemma noop_update_delivers:
  assumes "reads_base t q" "distinct (column_names t)" "\<And>p. w = Some p \<Longrightarrow> pred_ok t p"
  defines "assignments \<equiv> map (\<lambda>(alias, target). (alias, col alias target)) (get_signature q)"
  assumes "shaped (NoopUpdateTable i q assignments w st e)"
  shows "delivers t [] (NoopUpdateTable i q assignments w st e)"
  unfolding delivers_def
proof (intro conjI allI impI)
  show "well_formed (NoopUpdateTable i q assignments w st e)" "get_signature (NoopUpdateTable i q assignments w st e) = table_signature t"
    using assms(1,5) by (auto simp: delivers_def)
  fix E B path
  assume E: "engine_ok E" "base_rows_ok t B"
  obtain rows where rows: "den E B [i] q = Some rows" "mset rows = mset B"
    using deliversD [OF assms(1) E] by (metis wanted_Nil)
  have typed: "base_rows_ok t rows" by (rule base_rows_perm [OF E(2) rows(2)])
  have sig: "get_signature q = table_signature t" using assms(1) by (simp add: delivers_def)
  have same: "assign_row E (column_names t) assignments r = Some r" if "r \<in> set rows" for r
    using assign_self [of "table_signature t" r E] assms(2) typed that
    by (simp add: assignments_def sig base_rows_ok_def row_ok_length)
  have "update_rows E (column_names t) assignments w rows = Some (map (\<lambda>r. r) rows)"
    unfolding update_rows_def
  proof (rule map_opt_total)
    fix r
    assume r: "r \<in> set rows"
    have "w = None \<or> (\<exists>p b. w = Some p \<and> condition E (base_scope t) p r = Some b)"
    proof (cases w)
      case (Some p)
      then have "condition E (base_scope t) p r \<noteq> None" using assms(3) E(1) typed r by (simp add: pred_ok_def base_rows_ok_def)
      with Some show ?thesis by auto
    qed simp
    then show "Option.bind (case w of None \<Rightarrow> Some True | Some e \<Rightarrow> condition E (base_scope t) e r)
        (\<lambda>hit. if hit then assign_row E (column_names t) assignments r else Some r) = Some r"
      using same [OF r] by auto
  qed
  with rows show "\<exists>rows. den E B path (NoopUpdateTable i q assignments w st e) = Some rows \<and> mset rows = mset (wanted E t [] B)"
    by (simp add: names_delivers(1) [OF assms(1)])
qed


section \<open>The builders\<close>

text \<open>A relation that delivers the base rows answers the requests for a writable or named relation.\<close>

lemma relation_post:
  assumes "delivers t [] n" "set (constraint_types cs) \<subseteq> {AcceptsDmlC, ExposedNameC}"
    and "AcceptsDmlC \<in> set (constraint_types cs) \<Longrightarrow> writable n"
    and "materialized_name n = Some nm" "\<And>given. exposed_name cs = Some given \<Longrightarrow> nm = given"
  shows "post t cs n"
proof (rule delivers_post)
  have types: "RowFilterC \<notin> set (constraint_types cs)" using assms(2) by auto
  show "delivers t cs n" using assms(1) by (simp add: delivers_def wanted_types [OF types])
  show "no_channel cs" "column_rewrite cs = None" using assms(2) by (auto simp: no_channel_def intro!: payload_None)
  show "named_ok cs n" using assms(4,5) by (auto simp: named_ok_def)
qed (rule assms(3))

lemma given_name: "request_ok t cs \<Longrightarrow> exposed_name cs = Some x \<Longrightarrow> x \<noteq> []"
  by (auto simp: request_ok_def)

context subtree_provider begin

lemma query_spec: "post base [] q \<Longrightarrow> reads_base base q"
  by (rule full_post)

lemma delete_reinsert_spec:
  assumes "env_ok env" "request_ok base cs" "set (constraint_types cs) \<subseteq> {AcceptsDmlC, ExposedNameC}"
  shows "gspec d E (build_delete_reinsert sub env cs) (makes base C_DeleteReinsertTable cs)"
proof -
  have made: "post base cs (DeleteReinsertTable i q base w
        [TableObject nm ''TABLE'' (Some q) '''', DeleteStep nm w, InsertStep nm (map fst (get_signature q)) (get_sql_name base True) w None None]
        (TableObject nm ''TABLE'' (Some q) ''''))"
    if "post base [] q" "\<forall>p. w = Some p \<longrightarrow> pred_ok base p"
      "exposed_name cs \<noteq> None \<longrightarrow> exposed_name cs \<noteq> Some [] \<longrightarrow> exposed_name cs = Some nm" for i q w nm
    by (rule relation_post [OF delete_reinsert_delivers [OF full_post [OF that(1)] env_distinct [OF assms(1)]] assms(3), where nm = nm])
      (use that given_name [OF assms(2)] in \<open>auto simp: names_of_def materialized_name_def\<close>)
  show ?thesis
    unfolding build_delete_reinsert_def gen_norm
    by (intro wp_ask [OF assms(1) make_single(1) request_Nil] wp gspec_bind [OF mutation_spec [OF assms(1)]])
      (simp_all add: made del: not_None_eq)
qed

lemma noop_update_spec:
  assumes "env_ok env" "request_ok base cs" "set (constraint_types cs) \<subseteq> {AcceptsDmlC, ExposedNameC}"
  shows "gspec d E (build_noop_update sub env cs) (makes base C_NoopUpdateTable cs)"
proof -
  have made: "post base cs (NoopUpdateTable i q (map (\<lambda>(alias, target). (alias, col alias target)) (get_signature q)) w
        [TableObject nm ''TABLE'' (Some q) '''', UpdateStep nm (map (\<lambda>(alias, target). (alias, col alias target)) (get_signature q)) w]
        (TableObject nm ''TABLE'' (Some q) ''''))"
    if "post base [] q" "\<forall>p. w = Some p \<longrightarrow> pred_ok base p"
      "exposed_name cs \<noteq> None \<longrightarrow> exposed_name cs \<noteq> Some [] \<longrightarrow> exposed_name cs = Some nm" for i q w nm
    by (rule relation_post [OF noop_update_delivers [OF full_post [OF that(1)] env_distinct [OF assms(1)]] assms(3), where nm = nm])
      (use that given_name [OF assms(2)] in \<open>auto simp: materialized_name_def\<close>)
  have step: "gspec d E (if get_signature q = [] then greturn None
      else let assignments = map (\<lambda>(alias, target). (alias, col alias target)) (get_signature q) in
           gbind (mutation_predicate env) (\<lambda>predicate. gsome (noop_update_build env q assignments predicate (exposed_name cs))))
      (makes base C_NoopUpdateTable cs)" if "post base [] q" for q
  proof (cases "get_signature q = []")
    case True
    then show ?thesis by (simp add: wp)
  next
    case False
    show ?thesis
      unfolding if_not_P [OF False] gen_norm
      by (intro gspec_bind [OF mutation_spec [OF assms(1)]] wp) (simp add: made [OF that] del: not_None_eq)
  qed
  show ?thesis
    unfolding build_noop_update_def
    by (rule wp_ask [OF assms(1) make_single(1) request_Nil]) (simp_all add: step)
qed

end

end
