(* ===== verification/Coa_Sound_Tags.thy ===== *)
theory Coa_Sound_Tags
  imports Coa_Sound_Dml
begin

text \<open>
  The tag channel of \<open>expansion.py\<close>: rows marked to keep or to throw away.  The two expansions add
  marked copies, the two reductions keep the rows marked \<open>keep\<close> and drop the mark.
\<close>


section \<open>Rules for the nodes a builder makes\<close>

lemma wp_select:
  "(\<And>i. gspec d E (f (plain_select i s projection w)) Q) \<Longrightarrow> gspec d E (gbind (mk_select s projection w) f) Q"
  unfolding gen_norm by (intro wp_new_id)

lemma wp_create:
  assumes "\<And>i nm. (given \<noteq> None \<longrightarrow> given \<noteq> Some [] \<longrightarrow> given = Some nm) \<Longrightarrow>
      gspec d E (f (CreateFromQuery i c q [created_object nm (create_keyword c) q] (created_object nm (create_keyword c) q))) Q"
  shows "gspec d E (gbind (create_as env c q given) f) Q"
  unfolding gen_norm by (intro wp_take_name wp_new_id assms) blast

lemma wp_union: "2 \<le> length bs \<Longrightarrow> (\<And>i. gspec d E (f (UnionAllQuery i bs)) Q) \<Longrightarrow> gspec d E (gbind (mk_union bs) f) Q"
  unfolding gen_norm by (intro wp_assert wp_new_id)

lemma wp_some: "gspec d E (gbind m (\<lambda>x. greturn (Some x))) Q \<Longrightarrow> gspec d E (gsome m) Q"
  by (simp add: gsome_def)


section \<open>The channel's contract\<close>

lemma tag_post:
  assumes "tag_channel cs = Some (c, k)" "ExposedNameC \<notin> set (constraint_types cs)" "table_source t c n"
    and "\<And>E B path. engine_ok E \<Longrightarrow> base_rows_ok t B \<Longrightarrow> \<exists>rows. den E B path n = Some rows \<and> tagged_rows k B rows"
  shows "post t cs n"
  using assms payload_None(2) [OF assms(2)]
  by (auto simp: post_def table_source_def expected_signature_def key_signature_def named_ok_def content_def)

lemma post_tagged:
  assumes "post t cs n" "is_relation n" "tag_channel cs = Some (c, k)"
  shows "tagged_source t c k n"
proof -
  have "writable n" using assms(1,3) by (simp add: post_def)
  then have "table_source t c n"
    using assms by (auto simp: table_source_def post_def expected_signature_def key_signature_def named_ok_def)
  moreover have "\<exists>rows. tagged_rows k B rows \<and> (\<forall>path. den E B path n = Some rows)" if E: "engine_ok E" "base_rows_ok t B" for E B
  proof -
    have "content t cs n E B" using assms(1) E by (simp add: post_def)
    then obtain rows where "den E B [] n = Some rows" "tagged_rows k B rows" using assms(3) by (auto simp: content_def)
    with writable_once [OF \<open>writable n\<close>, of E B _ "[]"] show ?thesis by auto
  qed
  ultimately show ?thesis by (simp add: tagged_source_def)
qed

lemma tagged_stored:
  assumes "tagged_source t c k n" "engine_ok E" "base_rows_ok t B"
  obtains stored where "\<forall>path. den E B path n = Some stored" "tagged_rows k B stored"
  using assms unfolding tagged_source_def by blast

lemma tagged_shape: "tagged_source t c k n \<Longrightarrow> table_source t c n"
  by (simp add: tagged_source_def)

lemma tagged_perm: "tagged_rows k B rows \<Longrightarrow> mset rows' = mset rows \<Longrightarrow> tagged_rows k B rows'"
proof -
  assume rows: "tagged_rows k B rows" and m: "mset rows' = mset rows"
  have "mset (map butlast (filter (\<lambda>r. last r = SInt k) rows')) = mset (map butlast (filter (\<lambda>r. last r = SInt k) rows))"
    by (rule mset_eq_map [OF mset_eq_filter [OF m]])
  with rows mset_eq_setD [OF m] show ?thesis by (simp add: tagged_rows_def)
qed

lemma tagged_row:
  assumes "tagged_rows k B rows" "base_rows_ok t B" "r \<in> set rows"
  obtains b j where "r = b @ [SInt j]" "b \<in> set B" "length r = length (column_names t @ [c])"
proof -
  obtain b j where r: "r = b @ [SInt j]" "b \<in> set B" using assms(1,3) by (auto simp: tagged_rows_def)
  then have "length b = length (tab_columns t)" using assms(2) by (simp add: base_rows_ok_def row_ok_length)
  with r that show thesis by simp
qed

text \<open>Testing the mark.\<close>

lemma mark_condition:
  assumes "distinct (column_names t @ [c])" "length r = length (column_names t @ [c])" "last r = SInt j" "engine_ok E"
  shows "condition E (map (Pair []) (column_names t @ [c])) (eq (col c IntegerType) (int_lit k)) r = Some (last r = SInt k)"
    "condition E (map (Pair []) (column_names t @ [c])) (ne (col c IntegerType) (int_lit k)) r = Some (last r \<noteq> SInt k)"
proof -
  note mark = eval_key [OF assms(1,2), of E, unfolded assms(3)]
  have "scalar (eq (col c IntegerType) (int_lit k))" "scalar (ne (col c IntegerType) (int_lit k))"
    by (simp_all add: eq_def ne_def col_def int_lit_def)
  then show "condition E (map (Pair []) (column_names t @ [c])) (eq (col c IntegerType) (int_lit k)) r = Some (last r = SInt k)"
    "condition E (map (Pair []) (column_names t @ [c])) (ne (col c IntegerType) (int_lit k)) r = Some (last r \<noteq> SInt k)"
    using mark assms(3)
    by (simp_all add: condition_def eq_def ne_def int_lit_def sql_cmp_def engine_eq [OF assms(4)] engine_ne [OF assms(4)] del: map_append)
qed

text \<open>The marked rows, read off any scan of them.\<close>

lemma keep_marked:
  assumes "tagged_rows k B rows" "base_rows_ok t B" "distinct (column_names t @ [c])" "engine_ok E"
  shows "where_rows E (map (Pair []) (column_names t @ [c])) (Some (eq (col c IntegerType) (int_lit k))) rows
      = Some (filter (\<lambda>r. last r = SInt k) rows)"
    and "delete_rows E (map (Pair []) (column_names t @ [c])) (Some (ne (col c IntegerType) (int_lit k))) rows
      = Some (filter (\<lambda>r. last r = SInt k) rows)"
proof -
  have cond: "condition E (map (Pair []) (column_names t @ [c])) (eq (col c IntegerType) (int_lit k)) r = Some (last r = SInt k)"
    "condition E (map (Pair []) (column_names t @ [c])) (ne (col c IntegerType) (int_lit k)) r = Some (last r \<noteq> SInt k)"
    if r: "r \<in> set rows" for r
  proof -
    obtain b j where "r = b @ [SInt j]" "length r = length (column_names t @ [c])" by (rule tagged_row [OF assms(1,2) r])
    then show "condition E (map (Pair []) (column_names t @ [c])) (eq (col c IntegerType) (int_lit k)) r = Some (last r = SInt k)"
      "condition E (map (Pair []) (column_names t @ [c])) (ne (col c IntegerType) (int_lit k)) r = Some (last r \<noteq> SInt k)"
      using mark_condition [OF assms(3) _ _ assms(4), of r j k] by simp_all
  qed
  show "where_rows E (map (Pair []) (column_names t @ [c])) (Some (eq (col c IntegerType) (int_lit k))) rows
      = Some (filter (\<lambda>r. last r = SInt k) rows)"
    by (rule where_rows_filter) (rule cond(1))
  have "delete_rows E (map (Pair []) (column_names t @ [c])) (Some (ne (col c IntegerType) (int_lit k))) rows
      = Some (filter (\<lambda>r. \<not> last r \<noteq> SInt k) rows)"
    by (rule delete_rows_filter) (rule cond(2))
  then show "delete_rows E (map (Pair []) (column_names t @ [c])) (Some (ne (col c IntegerType) (int_lit k))) rows
      = Some (filter (\<lambda>r. last r = SInt k) rows)" by simp
qed

lemma tagged_lengths:
  "tagged_rows k B rows \<Longrightarrow> base_rows_ok t B \<Longrightarrow> \<forall>r \<in> set rows. length r = length (column_names t @ [c])"
  using tagged_row [of k B rows t _ c] by blast


section \<open>The reductions\<close>

lemma names_tagged: "tagged_source t c k n \<Longrightarrow> scope_of n = map (Pair []) (column_names t @ [c])"
  by (rule names_table_source(2) [OF tagged_shape])

lemma tag_filter_delivers:
  assumes "tagged_source t c k n" "distinct (column_names t @ [c])"
  shows "delivers t [] (plain_select i n (Some (plain_items (table_signature t))) (Some (eq (col c IntegerType) (int_lit k))))"
    (is "delivers t [] ?node")
  unfolding delivers_def
proof (intro conjI allI impI)
  show "well_formed ?node" using tagged_shape [OF assms(1)] by (simp add: table_source_def)
  fix E B path
  assume E: "engine_ok E" "base_rows_ok t B"
  obtain stored where stored: "\<forall>path. den E B path n = Some stored" "tagged_rows k B stored" by (rule tagged_stored [OF assms(1) E])
  let ?rows = "en_scan E (i # path) stored"
  have rows: "tagged_rows k B ?rows" by (rule tagged_perm [OF stored(2)]) (simp add: E(1))
  have len: "\<forall>r \<in> set (filter (\<lambda>r. last r = SInt k) ?rows). length r = length (column_names t @ [c])"
    using tagged_lengths [OF rows E(2)] by simp
  have "den E B path ?node = Some (map butlast (filter (\<lambda>r. last r = SInt k) ?rows))"
    using stored(1) keep_marked(1) [OF rows E(2) assms(2) E(1)] project_keyed [OF assms(2) len, of E]
    by (simp add: den_select_plain names_tagged [OF assms(1)] del: den.simps(2) map_append)
  with rows show "\<exists>rows. den E B path ?node = Some rows \<and> mset rows = mset (wanted E t [] B)"
    by (simp add: tagged_rows_def)
qed simp

lemma tag_delete_delivers:
  assumes "tagged_source t c k n" "distinct (column_names t @ [c])"
    and "shaped (TagPruneDeleteTable i n (plain_items (table_signature t)) c k st e)"
  shows "delivers t [] (TagPruneDeleteTable i n (plain_items (table_signature t)) c k st e)" (is "delivers t [] ?node")
  unfolding delivers_def
proof (intro conjI allI impI)
  have shape: "well_formed n" "writable n" using tagged_shape [OF assms(1)] by (simp_all add: table_source_def)
  then show "well_formed ?node" using assms(3) by simp
  fix E B path
  assume E: "engine_ok E" "base_rows_ok t B"
  obtain stored where stored: "\<forall>path. den E B path n = Some stored" "tagged_rows k B stored" by (rule tagged_stored [OF assms(1) E])
  let ?kept = "filter (\<lambda>r. last r = SInt k) stored"
  have m: "mset (en_scan E (reader_path st (i # path)) ?kept) = mset ?kept" by (simp add: E(1))
  have len: "\<forall>r \<in> set (en_scan E (reader_path st (i # path)) ?kept). length r = length (column_names t @ [c])"
    using tagged_lengths [OF stored(2) E(2)] mset_eq_setD [OF m] by simp
  have "den E B path ?node = Some (map butlast (en_scan E (reader_path st (i # path)) ?kept))"
    using stored(1) shape(2) keep_marked(2) [OF stored(2) E(2) assms(2) E(1)] project_keyed [OF assms(2) len, of E]
    by (simp add: names_tagged [OF assms(1)] del: map_append)
  moreover have "mset (map butlast (en_scan E (reader_path st (i # path)) ?kept)) = mset B"
    using mset_eq_map [OF m, of butlast] stored(2) by (simp only: tagged_rows_def)
  ultimately show "\<exists>rows. den E B path ?node = Some rows \<and> mset rows = mset (wanted E t [] B)" by simp
qed simp


section \<open>The expansions\<close>

lemma throw_plain: "throw_items (plain_items sig) c = plain_items sig @ [ProjectionItem c (int_lit throwaway_mark) IntegerType]"
  by (auto simp: throw_items_def plain_items_def)

lemma project_marked:
  assumes "distinct (column_names t @ [c])" "\<forall>r \<in> set rows. length r = length (column_names t @ [c])"
  shows "project_rows E (map (Pair []) (column_names t @ [c])) (plain_items (table_signature t) @ [ProjectionItem x (int_lit k) ty]) rows
    = Some (map (\<lambda>r. butlast r @ [SInt k]) rows)"
proof -
  have "project_rows E (map (Pair []) (column_names t @ [c])) [ProjectionItem x (int_lit k) ty] rows = Some (map (\<lambda>i. [SInt k]) [0..<length rows])"
    by (rule project_single) (simp add: int_lit_def)
  from project_append [OF project_keyed [OF assms] this]
  have "project_rows E (map (Pair []) (column_names t @ [c])) (plain_items (table_signature t) @ [ProjectionItem x (int_lit k) ty]) rows
      = Some (map2 (@) (map butlast rows) (map (\<lambda>i. [SInt k]) [0..<length rows]))" .
  moreover have "map2 (@) (map butlast rows) (map (\<lambda>i. [SInt k]) [0..<length rows]) = map (\<lambda>r. butlast r @ [SInt k]) rows"
    by (intro nth_equalityI) auto
  ultimately show ?thesis by simp
qed

text \<open>Copies marked to be thrown away change nothing.\<close>

lemma tagged_append:
  assumes "tagged_rows k B rows" "set thrown \<subseteq> (\<lambda>r. butlast r @ [SInt throwaway_mark]) ` set rows" "k \<noteq> throwaway_mark"
  shows "tagged_rows k B (rows @ thrown)"
proof -
  have "filter (\<lambda>r. last r = SInt k) thrown = []" using assms(2,3) by (auto simp: filter_empty_conv)
  moreover have "\<exists>b j. r = b @ [SInt j] \<and> b \<in> set B" if r: "r \<in> set thrown" for r
  proof -
    obtain r' where "r' \<in> set rows" "r = butlast r' @ [SInt throwaway_mark]" using assms(2) r by auto
    with assms(1) show ?thesis by (auto simp: tagged_rows_def)
  qed
  ultimately show ?thesis using assms(1) by (auto simp: tagged_rows_def)
qed

lemma tag_extras_post:
  assumes "tagged_source t c k n" "distinct (column_names t @ [c])" "k \<noteq> throwaway_mark"
    and "tag_channel cs = Some (c, k)" "ExposedNameC \<notin> set (constraint_types cs)"
    and "materialized_name n = Some target" "exposed_of n = Some e"
  shows "post t cs (InsertExtrasExpansion i n
    [InsertStep target [] '''' None None (Some (plain_select j n (Some (throw_items (plain_items (table_signature t)) c))
      (Some (eq (col c IntegerType) (int_lit k)))))] e)" (is "post t cs ?node")
proof (rule tag_post [OF assms(4,5)])
  have shape: "is_relation n" "well_formed n" "writable n" "get_signature n = key_signature t c"
    using tagged_shape [OF assms(1)] by (simp_all add: table_source_def)
  show "table_source t c ?node" using shape assms(6,7) by (auto simp: table_source_def materialized_name_def)
  fix E B path
  assume E: "engine_ok E" "base_rows_ok t B"
  obtain stored where stored: "\<forall>path. den E B path n = Some stored" "tagged_rows k B stored" by (rule tagged_stored [OF assms(1) E])
  let ?rows = "en_scan E [j, i] stored" and ?q = "plain_select j n (Some (throw_items (plain_items (table_signature t)) c)) (Some (eq (col c IntegerType) (int_lit k)))"
  have rows: "tagged_rows k B ?rows" by (rule tagged_perm [OF stored(2)]) (simp add: E(1))
  let ?thrown = "map (\<lambda>r. butlast r @ [SInt throwaway_mark]) (filter (\<lambda>r. last r = SInt k) ?rows)"
  have len: "\<forall>r \<in> set (filter (\<lambda>r. last r = SInt k) ?rows). length r = length (column_names t @ [c])"
    using tagged_lengths [OF rows E(2)] by simp
  have q: "den E B [i] ?q = Some ?thrown"
    using stored(1) keep_marked(1) [OF rows E(2) assms(2) E(1)] project_marked [OF assms(2) len]
    by (simp add: den_select_plain names_tagged [OF assms(1)] throw_plain del: den.simps(2) map_append)
  have "length (names_of ?q) = length (names_of n)" by (simp add: names_of_def shape(4) key_signature_def throw_plain)
  then have "den E B path ?node = Some (stored @ ?thrown)" using q stored(1) shape(3) by simp
  moreover have "tagged_rows k B (stored @ ?thrown)"
    by (rule tagged_append [OF stored(2) _ assms(3)]) (use E(1) in auto)
  ultimately show "\<exists>rows. den E B path ?node = Some rows \<and> tagged_rows k B rows" by blast
qed

text \<open>\<open>UNION ALL\<close> of the kept rows and copies of them marked to be thrown away.\<close>

definition kept_source :: "table \<Rightarrow> string \<Rightarrow> int \<Rightarrow> eqnode \<Rightarrow> bool" where
  "kept_source t c k n \<longleftrightarrow> table_source t c n \<and>
     (\<forall>E B. engine_ok E \<longrightarrow> base_rows_ok t B \<longrightarrow>
        (\<exists>rows. mset rows = mset (map (\<lambda>b. b @ [SInt k]) B) \<and> (\<forall>path. den E B path n = Some rows)))"

definition thrown_table :: "nat \<Rightarrow> nat \<Rightarrow> string \<Rightarrow> table \<Rightarrow> eqnode \<Rightarrow> string \<Rightarrow> eqnode" where
  "thrown_table j i nm t keep c =
     (let q = plain_select i keep (Some (throw_items (plain_items (table_signature t)) c)) None;
          e = created_object nm (create_keyword CreateTable) q in CreateFromQuery j CreateTable q [e] e)"

lemma marked_tagged: "mset rows = mset (map (\<lambda>b. b @ [SInt k]) B) \<Longrightarrow> tagged_rows k B rows"
proof -
  assume m: "mset rows = mset (map (\<lambda>b. b @ [SInt k]) B)"
  have all: "\<exists>b \<in> set B. r = b @ [SInt k]" if "r \<in> set rows" for r using mset_eq_setD [OF m] that by auto
  then have "filter (\<lambda>r. last r = SInt k) rows = rows" by (fastforce simp: filter_id_conv)
  moreover have "mset (map butlast rows) = mset B" using mset_eq_map [OF m, of butlast] by (simp add: o_def)
  ultimately show ?thesis using all by (fastforce simp: tagged_rows_def)
qed

lemma den_thrown:
  assumes "kept_source t c k keep" "distinct (column_names t @ [c])" "engine_ok E" "base_rows_ok t B"
  shows "\<exists>thrown. (\<forall>path. den E B path (thrown_table j i nm t keep c) = Some thrown)
    \<and> set thrown \<subseteq> (\<lambda>b. b @ [SInt throwaway_mark]) ` set B"
proof -
  obtain rows where rows: "mset rows = mset (map (\<lambda>b. b @ [SInt k]) B)" "\<forall>path. den E B path keep = Some rows"
    using assms unfolding kept_source_def by blast
  have m: "mset (en_scan E [i, j] rows) = mset (map (\<lambda>b. b @ [SInt k]) B)" using rows(1) assms(3) by simp
  note all = mset_eq_setD [OF m]
  have len: "\<forall>r \<in> set (en_scan E [i, j] rows). length r = length (column_names t @ [c])"
    unfolding all using assms(4) by (auto simp: base_rows_ok_def row_ok_length)
  have "scope_of keep = map (Pair []) (column_names t @ [c])"
    using assms(1) names_table_source(2) by (simp add: kept_source_def)
  then have "den E B [j] (plain_select i keep (Some (throw_items (plain_items (table_signature t)) c)) None)
      = Some (map (\<lambda>r. butlast r @ [SInt throwaway_mark]) (en_scan E [i, j] rows))"
    using rows(2) project_marked [OF assms(2) len] by (simp add: den_select_plain throw_plain where_rows_def del: den.simps(2) map_append)
  moreover have "set (map (\<lambda>r. butlast r @ [SInt throwaway_mark]) (en_scan E [i, j] rows)) \<subseteq> (\<lambda>b. b @ [SInt throwaway_mark]) ` set B"
    unfolding list.set_map all by auto
  ultimately show ?thesis by (simp only: thrown_table_def Let_def den_table) blast
qed

lemma thrown_shape:
  assumes "table_source t c keep"
  shows "well_formed (thrown_table j i nm t keep c)" "names_of (thrown_table j i nm t keep c) = column_names t @ [c]"
  using assms by (auto simp: thrown_table_def Let_def table_source_def throw_plain names_of_def)

lemma tag_explode_post:
  fixes u n j i :: nat and nm :: string
  assumes "kept_source t c k keep" "distinct (column_names t @ [c])" "k \<noteq> throwaway_mark"
    and "tag_channel cs = Some (c, k)" "ExposedNameC \<notin> set (constraint_types cs)"
  defines "q \<equiv> UnionAllQuery u (keep # replicate n (thrown_table j i nm t keep c))"
  shows "post t cs (CreateFromQuery v CreateTable q [created_object nm' (create_keyword CreateTable) q] (created_object nm' (create_keyword CreateTable) q))"
    (is "post t cs ?node")
proof (rule tag_post [OF assms(4,5)])
  let ?throw = "thrown_table j i nm t keep c"
  have src: "table_source t c keep" using assms(1) by (simp add: kept_source_def)
  have sig: "get_signature keep = key_signature t c" and wf: "well_formed keep" using src by (simp_all add: table_source_def)
  show "table_source t c ?node"
    using thrown_shape(1) [OF src] sig wf by (auto simp: table_source_def materialized_name_def q_def table_class_def)
  fix E B path
  assume E: "engine_ok E" "base_rows_ok t B"
  obtain rows where rows: "mset rows = mset (map (\<lambda>b. b @ [SInt k]) B)" "\<forall>path. den E B path keep = Some rows"
    using assms(1) E unfolding kept_source_def by blast
  obtain thrown where thrown: "\<forall>path. den E B path ?throw = Some thrown" "set thrown \<subseteq> (\<lambda>b. b @ [SInt throwaway_mark]) ` set B"
    using den_thrown [OF assms(1,2) E] by blast
  let ?f = "\<lambda>k. if k = 0 then rows else thrown" and ?bs = "keep # replicate n ?throw"
  have "den E B [v] (UnionAllQuery u ?bs) = Some (concat (map (\<lambda>k. en_scan E (k # u # [v]) (?f k)) [0..<length ?bs]))"
  proof (rule den_union)
    show "\<forall>b \<in> set ?bs. names_of b = column_names t @ [c]"
      using thrown_shape(2) [OF src] names_table_source(1) [OF src] by auto
    show "den E B (k # u # [v]) (?bs ! k) = Some (?f k)" if "k < length ?bs" for k
      using that rows(2) thrown(1) by (auto simp: nth_Cons')
  qed
  moreover have "map (\<lambda>k. en_scan E (k # u # [v]) (?f k)) [0..<length ?bs]
      = en_scan E [0, u, v] rows # map (\<lambda>k. en_scan E [Suc k, u, v] thrown) [0..<n]"
    by (simp only: length_Cons length_replicate upt_conv_Cons [OF zero_less_Suc] map_Suc_upt [symmetric]) simp
  ultimately have den: "den E B path ?node = Some (en_scan E [0, u, v] rows @ concat (map (\<lambda>k. en_scan E [Suc k, u, v] thrown) [0..<n]))"
    by (simp only: q_def den_table concat.simps)
  have "mset (en_scan E [0, u, v] rows) = mset (map (\<lambda>b. b @ [SInt k]) B)" using rows(1) E(1) by simp
  note kept = marked_tagged [OF this] and all = mset_eq_setD [OF this]
  have "set (concat (map (\<lambda>k. en_scan E [Suc k, u, v] thrown) [0..<n])) \<subseteq> (\<lambda>r. butlast r @ [SInt throwaway_mark]) ` set (en_scan E [0, u, v] rows)"
    unfolding all using thrown(2) E(1) by (auto simp: image_image)
  from tagged_append [OF kept this assms(3)] den
  show "\<exists>rows. den E B path ?node = Some rows \<and> tagged_rows k B rows" by blast
qed


section \<open>The builders\<close>

lemma channel_payloads [simp]:
  "current_filter [TagChannelConstraint c k] = None" "tag_channel [TagChannelConstraint c k] = Some (c, k)"
  "current_filter [TagChannelConstraint c k, AcceptsDmlConstraint] = None" "tag_channel [TagChannelConstraint c k, AcceptsDmlConstraint] = Some (c, k)"
  "current_filter [KeyChannelConstraint key] = None" "key_channel [KeyChannelConstraint key] = Some key" "tag_channel [KeyChannelConstraint key] = None"
  by (simp_all add: payload_defs get_optional_constraint_def)

lemma tag_request:
  assumes "c \<notin> set (column_names t)" "k \<noteq> throwaway_mark"
  shows "request_ok t [TagChannelConstraint c k]" "request_ok t [TagChannelConstraint c k, AcceptsDmlConstraint]"
  using assms by (simp_all add: request_ok_def constraint_types_def payload_defs get_optional_constraint_def)

text \<open>The kept rows: the base columns and a constant mark, asked for as a table.\<close>

lemma keep_projection:
  assumes "distinct (column_names t)" "engine_ok E" "base_rows_ok t rows"
  shows "\<exists>out. project_rows E (base_scope t) (plain_items (table_signature t) @ [ProjectionItem c (int_lit k) IntegerType]) rows = Some out
    \<and> mset out = mset (map (\<lambda>b. b @ [SInt k]) rows)"
proof -
  have "project_rows E (base_scope t) [ProjectionItem c (int_lit k) IntegerType] rows = Some (map (\<lambda>i. [SInt k]) [0..<length rows])"
    by (rule project_single) (simp add: int_lit_def)
  from project_append [OF project_base [OF assms(1,3)] this]
  have "project_rows E (base_scope t) (plain_items (table_signature t) @ [ProjectionItem c (int_lit k) IntegerType]) rows
      = Some (map2 (@) rows (map (\<lambda>i. [SInt k]) [0..<length rows]))" .
  moreover have "map2 (@) rows (map (\<lambda>i. [SInt k]) [0..<length rows]) = map (\<lambda>b. b @ [SInt k]) rows"
    by (intro nth_equalityI) auto
  ultimately show ?thesis by simp
qed

context subtree_provider begin

lemma wp_kept:
  assumes "env_ok env" "Q None"
    and "\<And>keep. kept_source base c k keep \<Longrightarrow> gspec d E (f keep) Q"
  shows "gspec d E (obind (ask sub WantRelation [Some (ColumnRewriteConstraint (plain_items (table_signature base) @ [ProjectionItem c (int_lit k) IntegerType])),
    Some AcceptsDmlConstraint]) f) Q"
proof (rule wp_ask [OF assms(1) make_pair])
  let ?items = "plain_items (table_signature base) @ [ProjectionItem c (int_lit k) IntegerType]"
  let ?cs = "[ColumnRewriteConstraint ?items, AcceptsDmlConstraint]"
  note proj = keep_projection [OF env_distinct [OF assms(1)], where c = c and k = k]
  show "request_ok base ?cs" using proj by (fastforce simp: request_ok_def constraint_types_def items_ok_def)
  fix n
  assume n: "is_instance n WantRelation" "post base ?cs n"
  let ?P = "\<lambda>E src out. mset out = mset (map (\<lambda>b. b @ [SInt k]) src)"
  have rel: "is_relation n" using n(1) by simp
  have sig: "item_signature ?items = key_signature base c" by (simp add: key_signature_def)
  have perm: "?P E src out" if "mset src' = mset src" "mset out' = mset out" "?P E src' out'" for E src src' out out'
    using that mset_eq_map [OF that(1), of "\<lambda>b. b @ [SInt k]"] by simp
  have "table_source base c n"
    by (rule rewrite_post(1) [where P = ?P, OF n(2) rel sig proj]) (assumption+, erule (2) perm)
  moreover have "\<exists>rows. ?P E B rows \<and> (\<forall>path. den E B path n = Some rows)" if E: "engine_ok E" "base_rows_ok base B" for E B
    by (rule rewrite_post(2) [where P = ?P, OF n(2) rel sig proj _ E]) (assumption+, erule (2) perm)
  ultimately have "kept_source base c k n" by (simp add: kept_source_def)
  then show "gspec d E (f n) Q" by (rule assms(3))
qed (simp_all add: assms(2))

lemma wp_tagged:
  assumes "env_ok env" "c \<notin> set (column_names base)" "k \<noteq> throwaway_mark" "Q None"
    and "\<And>child. tagged_source base c k child \<Longrightarrow> gspec d E (f child) Q"
  shows "gspec d E (obind (ask sub WantRelation (Some (TagChannelConstraint c k) # (if dml then [Some AcceptsDmlConstraint] else []))) f) Q"
proof -
  have make: "make_constraint_set (Some (TagChannelConstraint c k) # (if dml then [Some AcceptsDmlConstraint] else []))
      = Inr (if dml then [TagChannelConstraint c k, AcceptsDmlConstraint] else [TagChannelConstraint c k])" by simp
  show ?thesis
  proof (rule wp_ask [OF assms(1) make])
    show "request_ok base (if dml then [TagChannelConstraint c k, AcceptsDmlConstraint] else [TagChannelConstraint c k])"
      using tag_request [OF assms(2,3)] by simp
    fix n
    assume n: "is_instance n WantRelation" "post base (if dml then [TagChannelConstraint c k, AcceptsDmlConstraint] else [TagChannelConstraint c k]) n"
    show "gspec d E (f n) Q" by (rule assms(5), rule post_tagged [OF n(2)]) (use n(1) in simp_all)
  qed (rule assms(4))
qed

lemma channel_ok:
  assumes "request_ok base cs" "tag_channel cs = Some (c, k)"
  shows "c \<notin> set (column_names base)" "k \<noteq> throwaway_mark"
  using assms by (auto simp: request_ok_def)

lemma copies_ok:
  assumes "env_ok env" "(n, w) \<in> set (big_table_rowcount_weights (config env))" "0 < w"
  shows "2 \<le> n"
  using assms by (auto simp: env_ok_def config_ok_def)

lemma tag_explode_spec:
  assumes "env_ok env" "request_ok base cs" "set (constraint_types cs) \<subseteq> {TagChannelC, AcceptsDmlC}"
  shows "gspec d E (build_tag_explode sub env cs) (makes base (C_CreateFromQuery CreateTable) cs)"
proof (cases "tag_channel cs = None \<or> passthrough_items env = []")
  case True
  then show ?thesis by (auto simp: build_tag_explode_def Let_def intro!: wp split: option.split)
next
  case False
  then obtain c k where ck: "tag_channel cs = Some (c, k)" by auto
  note ok = channel_ok [OF assms(2) ck]
  have items: "passthrough_items env \<noteq> []" using False by simp
  have dist: "distinct (column_names base @ [c])" using ok(1) env_distinct [OF assms(1)] by simp
  have unnamed: "ExposedNameC \<notin> set (constraint_types cs)" using assms(3) by auto
  have opts: "options_ok (big_table_rowcount_weights (config env))" using assms(1) by (simp add: env_ok_def config_ok_def)
  have made: "gspec d E (let branches = keep # replicate (nat (n - 1)) (thrown_table j i nm base keep c) in
      if length branches = 1 then gbind (mk_select keep None None) (\<lambda>reread. gsome (create_as env CreateTable reread None))
      else gbind (mk_union branches) (\<lambda>union_query. gsome (create_as env CreateTable union_query None))) (makes base (C_CreateFromQuery CreateTable) cs)"
    if "kept_source base c k keep" "2 \<le> n" for keep n j i nm
  proof -
    let ?branches = "keep # replicate (nat (n - 1)) (thrown_table j i nm base keep c)"
    have "length ?branches \<noteq> 1" "2 \<le> length ?branches" using that(2) by simp_all
    then show ?thesis
      unfolding Let_def if_not_P [OF \<open>length ?branches \<noteq> 1\<close>]
      by (intro wp_union wp_some wp_create wp_return)
        (simp_all only: makes_Some class_of.simps simp_thms tag_explode_post [OF that(1) dist ok(2) ck unnamed])
  qed
  show ?thesis
    unfolding build_tag_explode_def Let_def [of "passthrough_items env"] ck option.case prod.case if_not_P [OF items] Let_def [of "_ @ _"]
    unfolding passthrough_plain
    by (intro wp_kept [OF assms(1)] wp_select wp_create wp_choose [OF opts])
      (simp_all only: made [unfolded thrown_table_def Let_def [of "plain_select _ _ _ _"] Let_def [of "created_object _ _ _"]] copies_ok [OF assms(1)] makes_None)
qed

lemma tag_insert_spec:
  assumes "env_ok env" "request_ok base cs" "set (constraint_types cs) \<subseteq> {TagChannelC, AcceptsDmlC}"
  shows "gspec d E (build_tag_insert_extras sub env cs) (makes base C_InsertExtrasExpansion cs)"
proof (cases "tag_channel cs = None \<or> passthrough_items env = []")
  case True
  then show ?thesis by (auto simp: build_tag_insert_extras_def Let_def intro!: wp split: option.split)
next
  case False
  then obtain c k where ck: "tag_channel cs = Some (c, k)" by auto
  note ok = channel_ok [OF assms(2) ck]
  have items: "passthrough_items env \<noteq> []" using False by simp
  have dist: "distinct (column_names base @ [c])" using ok(1) env_distinct [OF assms(1)] by simp
  have unnamed: "ExposedNameC \<notin> set (constraint_types cs)" using assms(3) by auto
  have request: "[Some (TagChannelConstraint c k), Some AcceptsDmlConstraint]
      = Some (TagChannelConstraint c k) # (if True then [Some AcceptsDmlConstraint] else [])" by simp
  have made: "gspec d E (gbind (child_name child) (\<lambda>target.
      gbind (mk_select child (Some (throw_items (plain_items (table_signature base)) c))
               (Some (eq (col c IntegerType) (int_lit k)))) (\<lambda>query.
      gsome (insert_extras_build child (InsertStep target [] '''' None None (Some query))))))
      (makes base C_InsertExtrasExpansion cs)" if child: "tagged_source base c k child" for child
  proof -
    have named: "materialized_name child \<noteq> None" using tagged_shape [OF child] by (simp add: table_source_def)
    show ?thesis
      unfolding gen_norm
      by (intro wp) (simp_all add: named tag_extras_post [OF child dist ok(2) ck unnamed] del: not_None_eq)
  qed
  show ?thesis
    unfolding build_tag_insert_extras_def Let_def [of "passthrough_items env"] ck option.case prod.case if_not_P [OF items]
    unfolding passthrough_plain request
    by (rule wp_tagged [OF assms(1) ok]) (simp_all only: makes_None made)
qed

lemma reduced_request: "keep_mark \<noteq> throwaway_mark"
  by (simp add: keep_mark_def throwaway_mark_def)

lemma wp_reduced:
  assumes "env_ok env" "Q None"
    and "\<And>child n. let c = ''eq_tag'' @ ''_'' @ str_nat n in distinct (column_names base @ [c]) \<and> tagged_source base c keep_mark child \<Longrightarrow>
      gspec d E (f (child, plain_items (table_signature base), ''eq_tag'' @ ''_'' @ str_nat n)) Q"
  shows "gspec d E (obind (build_reduced dml sub env) f) Q"
proof (cases "passthrough_items env = []")
  case True
  then show ?thesis by (simp add: build_reduced_def gen_norm wp assms(2))
next
  case False
  have fresh: "''eq_tag'' @ ''_'' @ str_nat n \<notin> set (column_names base)" for n
    using fresh_column [OF assms(1), of "''eq_tag''" n] by simp
  then have dist: "distinct (column_names base @ [''eq_tag'' @ ''_'' @ str_nat n])" for n
    using env_distinct [OF assms(1)] by simp
  show ?thesis
    unfolding build_reduced_def Let_def if_not_P [OF False]
    unfolding obind_gbind obind_obind obind_return generate_column_name_def passthrough_plain
    by (intro wp wp_tagged [OF assms(1) fresh reduced_request] assms(2,3)) (simp only: Let_def dist simp_thms)
qed

lemma tag_delete_spec:
  assumes "env_ok env" "request_ok base cs" "set (constraint_types cs) \<subseteq> {ExposedNameC}"
  shows "gspec d E (build_tag_prune_delete sub env cs) (makes base C_TagPruneDeleteTable cs)"
proof -
  have types: "set (constraint_types cs) \<subseteq> {AcceptsDmlC, ExposedNameC}" using assms(3) by auto
  have made: "post base cs (TagPruneDeleteTable i child (plain_items (table_signature base)) c keep_mark
      [DeleteStep target (Some (ne (col c IntegerType) (int_lit keep_mark))), ViewObject nm ''VIEW'' (Some (plain_select j child (Some (plain_items (table_signature base))) None)) '''']
      (ViewObject nm ''VIEW'' (Some (plain_select j child (Some (plain_items (table_signature base))) None)) ''''))"
    if "tagged_source base c keep_mark child" "distinct (column_names base @ [c])" "materialized_name child = Some target"
      "exposed_name cs \<noteq> None \<longrightarrow> exposed_name cs \<noteq> Some [] \<longrightarrow> exposed_name cs = Some nm" for i j child c target nm
    by (rule relation_post [OF tag_delete_delivers [OF that(1,2)] types, where nm = nm])
      (use that given_name [OF assms(2)] assms(3) in \<open>auto simp: materialized_name_def\<close>)
  have named: "materialized_name child \<noteq> None" if "tagged_source base c k child" for child c k
    using tagged_shape [OF that] by (simp add: table_source_def)
  show ?thesis
    unfolding build_tag_prune_delete_def
  proof (rule wp_reduced [OF assms(1)])
    fix child n
    assume "let c = ''eq_tag'' @ ''_'' @ str_nat n in distinct (column_names base @ [c]) \<and> tagged_source base c keep_mark child"
    then have child: "distinct (column_names base @ [''eq_tag'' @ ''_'' @ str_nat n])" "tagged_source base (''eq_tag'' @ ''_'' @ str_nat n) keep_mark child"
      unfolding Let_def by blast+
    show "gspec d E (case (child, plain_items (table_signature base), ''eq_tag'' @ ''_'' @ str_nat n) of (child, base_items, tag_col) \<Rightarrow>
        gsome (tag_prune_delete_build env child base_items tag_col keep_mark (exposed_name cs))) (makes base C_TagPruneDeleteTable cs)"
      unfolding prod.case gen_norm
      by (intro wp) (simp_all add: named [OF child(2)] made [OF child(2,1)] del: not_None_eq append_Cons append.simps)
  qed simp
qed

lemma tag_filter_spec:
  assumes "env_ok env" "request_ok base cs" "set (constraint_types cs) \<subseteq> {ExposedNameC}"
  shows "gspec d E (build_tag_prune_filter sub env cs) (makes base (C_CreateFromQuery CreateView) cs)"
proof -
  have types: "set (constraint_types cs) \<subseteq> {AcceptsDmlC, ExposedNameC}" using assms(3) by auto
  show ?thesis
    unfolding build_tag_prune_filter_def
  proof (rule wp_reduced [OF assms(1)])
    fix child n
    assume "let c = ''eq_tag'' @ ''_'' @ str_nat n in distinct (column_names base @ [c]) \<and> tagged_source base c keep_mark child"
    then have child: "distinct (column_names base @ [''eq_tag'' @ ''_'' @ str_nat n])" "tagged_source base (''eq_tag'' @ ''_'' @ str_nat n) keep_mark child"
      unfolding Let_def by blast+
    show "gspec d E (case (child, plain_items (table_signature base), ''eq_tag'' @ ''_'' @ str_nat n) of (child, base_items, tag_col) \<Rightarrow>
        gbind (mk_select child (Some base_items) (Some (eq (col tag_col IntegerType) (int_lit keep_mark)))) (\<lambda>query.
        gsome (create_as env CreateView query (exposed_name cs)))) (makes base (C_CreateFromQuery CreateView) cs)"
      unfolding prod.case
    proof (intro wp_select wp_some wp_create wp_return)
      fix i j nm
      let ?q = "plain_select i child (Some (plain_items (table_signature base))) (Some (eq (col (''eq_tag'' @ ''_'' @ str_nat n) IntegerType) (int_lit keep_mark)))"
      assume "exposed_name cs \<noteq> None \<longrightarrow> exposed_name cs \<noteq> Some [] \<longrightarrow> exposed_name cs = Some nm"
      then have "post base cs (CreateFromQuery j CreateView ?q [created_object nm (create_keyword CreateView) ?q] (created_object nm (create_keyword CreateView) ?q))"
        by (intro relation_post [OF create_delivers [OF tag_filter_delivers [OF child(2,1)]] types, where nm = nm])
          (use given_name [OF assms(2)] assms(3) in \<open>auto simp: materialized_name_def\<close>)
      then show "makes base (C_CreateFromQuery CreateView) cs (Some (CreateFromQuery j CreateView ?q [created_object nm (create_keyword CreateView) ?q] (created_object nm (create_keyword CreateView) ?q)))"
        by simp
    qed
  qed simp
qed

end

end
