(* ===== verification/Coa_Sound_Keys.thy ===== *)
theory Coa_Sound_Keys
  imports Coa_Sound_Tags
begin

text \<open>
  The key channel of \<open>expansion.py\<close>: rows with a key, copied any number of times.  The two expansions
  add copies; the four reductions come back to one row per key, by \<open>DISTINCT\<close>, \<open>GROUP BY\<close> with
  \<open>ANY_VALUE\<close>, \<open>MAX\<close> over the key's partition, and \<open>QUALIFY ROW_NUMBER() = 1\<close>.
\<close>


section \<open>The channel's contract\<close>

lemma key_post:
  assumes "key_channel cs = Some key" "tag_channel cs = None" "ExposedNameC \<notin> set (constraint_types cs)"
    and "table_source t (key_column key) n"
    and "\<And>E B path. engine_ok E \<Longrightarrow> base_rows_ok t B \<Longrightarrow>
      \<exists>rows. den E B path n = Some rows \<and> (\<exists>core. keyed_rows B core \<and> set rows = set core)"
  shows "post t cs n"
  using assms payload_None(2) [OF assms(3)]
  by (auto simp: post_def table_source_def expected_signature_def key_signature_def named_ok_def content_def)

lemma post_copied:
  assumes "post t cs n" "is_relation n" "key_channel cs = Some key" "tag_channel cs = None"
  shows "copied_source t (key_column key) n"
proof -
  have "writable n" using assms(1,3) by (simp add: post_def)
  then have "table_source t (key_column key) n"
    using assms by (auto simp: table_source_def post_def expected_signature_def key_signature_def named_ok_def)
  moreover have "\<exists>core rows. keyed_rows B core \<and> set rows = set core \<and> (\<forall>path. den E B path n = Some rows)"
    if E: "engine_ok E" "base_rows_ok t B" for E B
  proof -
    have "content t cs n E B" using assms(1) E by (simp add: post_def)
    then have "\<exists>rows. den E B [] n = Some rows \<and> (\<exists>core. keyed_rows B core \<and> set rows = set core)"
      using assms(3,4) by (simp add: content_def)
    then obtain rows core where "den E B [] n = Some rows" "keyed_rows B core" "set rows = set core" by blast
    moreover from this(1) have "\<forall>path. den E B path n = Some rows"
      using writable_once [OF \<open>writable n\<close>, of E B _ "[]"] by simp
    ultimately show ?thesis by blast
  qed
  ultimately show ?thesis by (simp add: copied_source_def)
qed

lemma copied_stored:
  assumes "copied_source t key n" "engine_ok E" "base_rows_ok t B"
  obtains core stored where "\<forall>path. den E B path n = Some stored" "keyed_rows B core" "set stored = set core"
  using assms unfolding copied_source_def by blast

lemma copied_shape: "copied_source t key n \<Longrightarrow> table_source t key n"
  by (simp add: copied_source_def)

lemma copied_names: "copied_source t key n \<Longrightarrow> scope_of n = map (Pair []) (column_names t @ [key])"
  by (rule names_table_source(2) [OF copied_shape])

lemma copied_lengths:
  assumes "keyed_rows B core" "base_rows_ok t B" "set rows = set core"
  shows "\<forall>r \<in> set rows. length r = length (column_names t @ [key])"
  using keyed_lengths(1) [OF assms(1,2)] assms(3) by simp


section \<open>The expansions\<close>

lemma key_explode_post:
  assumes "keyed_source t (key_column key) rel" "2 \<le> n" "key_channel cs = Some key" "tag_channel cs = None"
    and "ExposedNameC \<notin> set (constraint_types cs)"
  shows "post t cs (CreateFromQuery j CreateTable (UnionAllQuery i (replicate n rel))
      [created_object nm (create_keyword CreateTable) (UnionAllQuery i (replicate n rel))]
      (created_object nm (create_keyword CreateTable) (UnionAllQuery i (replicate n rel))))" (is "post t cs ?node")
proof (rule key_post [OF assms(3-5)])
  have src: "table_source t (key_column key) rel" using assms(1) by (simp add: keyed_source_def)
  obtain m where "n = Suc m" using assms(2) by (cases n) simp_all
  with src show "table_source t (key_column key) ?node"
    by (auto simp: table_source_def materialized_name_def table_class_def)
  fix E B path
  assume E: "engine_ok E" "base_rows_ok t B"
  obtain stored where stored: "\<forall>path. den E B path rel = Some stored" "keyed_rows B stored"
    using assms(1) E unfolding keyed_source_def by blast
  have "0 < n" using assms(2) by simp
  from den_copies [OF stored(1) E(1) this] stored(2)
  show "\<exists>rows. den E B path ?node = Some rows \<and> (\<exists>core. keyed_rows B core \<and> set rows = set core)"
    unfolding den_table by blast
qed

lemma key_extras_post:
  assumes "copied_source t (key_column key) n" "key_channel cs = Some key" "tag_channel cs = None"
    and "ExposedNameC \<notin> set (constraint_types cs)"
    and "materialized_name n = Some target" "exposed_of n = Some e"
  shows "post t cs (InsertExtrasExpansion i n [InsertStep target [] [] None None (Some (plain_select j n None None))] e)"
    (is "post t cs ?node")
proof (rule key_post [OF assms(2-4)])
  have shape: "is_relation n" "well_formed n" "writable n" "get_signature n = key_signature t (key_column key)"
    using copied_shape [OF assms(1)] by (simp_all add: table_source_def)
  show "table_source t (key_column key) ?node" using shape assms(5,6) by (auto simp: table_source_def materialized_name_def)
  fix E B path
  assume E: "engine_ok E" "base_rows_ok t B"
  obtain core stored where stored: "\<forall>path. den E B path n = Some stored" "keyed_rows B core" "set stored = set core"
    by (rule copied_stored [OF assms(1) E])
  have "den E B [i] (plain_select j n None None) = Some (en_scan E [j, i] stored)"
    using stored(1) by (simp add: select_plain where_rows_def)
  then have "den E B path ?node = Some (stored @ en_scan E [j, i] stored)"
    using stored(1) shape(3) by (simp add: names_of_def)
  moreover have "set (stored @ en_scan E [j, i] stored) = set core" using stored(3) E(1) by simp
  ultimately show "\<exists>rows. den E B path ?node = Some rows \<and> (\<exists>core. keyed_rows B core \<and> set rows = set core)"
    using stored(2) by blast
qed


section \<open>Dropping the key\<close>

text \<open>A query with the key first and one row per key; the view over it reads the base columns back.\<close>

definition key_first :: "row \<Rightarrow> row" where
  "key_first r = last r # butlast r"

definition collapses :: "table \<Rightarrow> string \<Rightarrow> eqnode \<Rightarrow> bool" where
  "collapses t key q \<longleftrightarrow>
     get_signature q = (key, IntegerType) # table_signature t \<and> well_formed q \<and>
     (\<forall>E B path. engine_ok E \<longrightarrow> base_rows_ok t B \<longrightarrow>
        (\<exists>core rows. den E B path q = Some rows \<and> keyed_rows B core \<and> mset rows = mset (map key_first core)))"

lemma project_after_key:
  assumes "distinct (column_names t @ [key])" "\<forall>r \<in> set rows. length r = Suc (length (column_names t))"
  shows "project_rows E (map (Pair []) (key # column_names t)) (plain_items (table_signature t)) rows = Some (map tl rows)"
proof (rule project_rows_values)
  fix r
  assume "r \<in> set rows"
  then have len: "length r = Suc (length (column_names t))" using assms(2) by blast
  have "map_opt (\<lambda>it. eval_row E (map (Pair []) (key # column_names t)) r (pi_expr it)) (plain_items (table_signature t))
      = Some (take (length (table_signature t)) (drop 1 r))"
    by (rule eval_plain_slice) (use assms(1) len in simp_all)
  with len show "map_opt (\<lambda>it. eval_row E (map (Pair []) (key # column_names t)) r (pi_expr it)) (plain_items (table_signature t)) = Some (tl r)"
    by (simp add: drop_Suc)
qed (rule plain_scalar)

lemma drop_key_delivers:
  assumes "collapses t key q" "distinct (column_names t @ [key])" "shaped (CreateFromQuery k CreateView q st e)"
  shows "delivers t [] (plain_select m (CreateFromQuery k CreateView q st e) (Some (plain_items (table_signature t))) None)"
    (is "delivers t [] (plain_select m ?view _ None)")
  unfolding delivers_def
proof (intro conjI allI impI)
  show "well_formed (plain_select m ?view (Some (plain_items (table_signature t))) None)"
    using assms(1,3) by (simp add: collapses_def)
  fix E B path
  assume E: "engine_ok E" "base_rows_ok t B"
  obtain core rows where rows: "den E B (k # m # path) q = Some rows" "keyed_rows B core" "mset rows = mset (map key_first core)"
    using assms(1) E unfolding collapses_def by blast
  let ?rows = "en_scan E (m # path) rows"
  have m: "mset ?rows = mset (map key_first core)" using rows(3) E(1) by simp
  have "length r = Suc (length (column_names t))" if r: "r \<in> set ?rows" for r
  proof -
    obtain r' where "r' \<in> set core" "r = key_first r'" using mset_eq_setD [OF m] r by auto
    then show ?thesis using keyed_lengths(2) [OF rows(2) E(2)] by (simp add: key_first_def)
  qed
  then have "project_rows E (map (Pair []) (key # column_names t)) (plain_items (table_signature t)) ?rows = Some (map tl ?rows)"
    by (intro project_after_key [OF assms(2)]) blast
  moreover have "scope_of ?view = map (Pair []) (key # column_names t)"
    using assms(1) by (simp add: collapses_def scope_of_def names_of_def)
  ultimately have "den E B path (plain_select m ?view (Some (plain_items (table_signature t))) None) = Some (map tl ?rows)"
    using rows(1) by (simp only: den_select_plain den_view where_rows_def option.case Option.bind.simps)
  moreover have "mset (map tl ?rows) = mset (map butlast core)"
    using mset_eq_map [OF m, of tl] by (simp add: o_def key_first_def)
  ultimately show "\<exists>rows. den E B path (plain_select m ?view (Some (plain_items (table_signature t))) None) = Some rows
      \<and> mset rows = mset (wanted E t [] B)"
    using rows(2) by (simp add: keyed_rows_def)
qed simp


section \<open>Copies of keyed rows\<close>

definition copies :: "table \<Rightarrow> row list \<Rightarrow> bool" where
  "copies t rows \<longleftrightarrow> (\<exists>B core. base_rows_ok t B \<and> keyed_rows B core \<and> set rows = set core)"

lemma copiesD:
  assumes "copies t rows"
  shows "r \<in> set rows \<Longrightarrow> length r = length (column_names t @ [key])"
    and "r \<in> set rows \<Longrightarrow> \<exists>b k. r = b @ [SInt k]"
    and "r \<in> set rows \<Longrightarrow> s \<in> set rows \<Longrightarrow> last r = last s \<Longrightarrow> r = s"
proof -
  obtain B core where core: "base_rows_ok t B" "keyed_rows B core" "set rows = set core"
    using assms by (auto simp: copies_def)
  show "r \<in> set rows \<Longrightarrow> length r = length (column_names t @ [key])"
    using keyed_lengths(1) [OF core(2,1)] core(3) by simp
  show "r \<in> set rows \<Longrightarrow> \<exists>b k. r = b @ [SInt k]" using keyed_row [OF core(2)] core(3) by metis
  show "r \<in> set rows \<Longrightarrow> s \<in> set rows \<Longrightarrow> last r = last s \<Longrightarrow> r = s"
    using keyed_inj [OF core(2)] core(3) by simp
qed

text \<open>Rows with the same key are the same row, and keys are told apart exactly.\<close>

lemma copies_same_key:
  assumes "copies t rows" "engine_ok E" "r \<in> set rows" "s \<in> set rows"
  shows "same_vals E [last r] [last s] \<longleftrightarrow> s = r"
proof -
  obtain b k where "r = b @ [SInt k]" using copiesD(2) [OF assms(1,3)] by blast
  then have "last r = SInt k" by simp
  then have "same_vals E [last r] [last s] \<longleftrightarrow> last r = last s"
    using same_int [OF assms(2), of k "last s"] by (simp add: same_vals_def eq_commute)
  moreover have "last r = last s \<longleftrightarrow> s = r" using copiesD(3) [OF assms(1,4,3)] by auto
  ultimately show ?thesis by (simp only:)
qed

lemma key_values:
  assumes "copies t rows" "distinct (column_names t @ [key])"
  shows "map_opt (\<lambda>j. map_opt (\<lambda>e. eval E (map (Pair []) (column_names t @ [key])) rows e j) [col key IntegerType]) [0..<length rows]
    = Some (map (\<lambda>j. [last (rows ! j)]) [0..<length rows])"
proof (rule map_opt_total)
  fix j
  assume "j \<in> set [0..<length rows]"
  then have "length (rows ! j) = length (column_names t @ [key])" using copiesD(1) [OF assms(1)] by simp
  note at_key = eval_key [OF assms(2) this, of E]
  have "eval E (map (Pair []) (column_names t @ [key])) rows (col key IntegerType) j = Some (last (rows ! j))"
    using eval_scalar [of "col key IntegerType" E "map (Pair []) (column_names t @ [key])" rows j] at_key by (simp add: col_def)
  then show "map_opt (\<lambda>e. eval E (map (Pair []) (column_names t @ [key])) rows e j) [col key IntegerType] = Some [last (rows ! j)]"
    by (simp only: map_opt_Cons map_opt_Nil Option.bind.simps option.map)
qed

text \<open>The partition of a row: the positions of its copies.\<close>

definition key_part :: "row list \<Rightarrow> nat \<Rightarrow> nat list" where
  "key_part rows i = filter (\<lambda>j. rows ! j = rows ! i) [0..<length rows]"

definition part_pos :: "row list \<Rightarrow> nat \<Rightarrow> nat" where
  "part_pos rows i = length (filter (\<lambda>j. j < i) (key_part rows i))"

lemma key_partition:
  assumes "copies t rows" "engine_ok E" "i < length rows"
  shows "filter (\<lambda>j. same_vals E (map (\<lambda>j. [last (rows ! j)]) [0..<length rows] ! i) (map (\<lambda>j. [last (rows ! j)]) [0..<length rows] ! j))
    [0..<length rows] = key_part rows i"
  unfolding key_part_def
  by (rule filter_cong [OF refl]) (use assms copies_same_key [OF assms(1,2)] in auto)

lemma part_pos_less: "i < length rows \<Longrightarrow> part_pos rows i < length (key_part rows i)"
  unfolding part_pos_def by (rule length_filter_less) (auto simp: key_part_def)

lemma part_nth_pos:
  assumes "sorted xs" "distinct xs" "p < length xs"
  shows "length (filter (\<lambda>j. j < xs ! p) xs) = p"
proof -
  have "filter (\<lambda>j. j < xs ! p) xs = take p xs"
    using assms
  proof (induction xs arbitrary: p)
    case (Cons x xs)
    show ?case
    proof (cases p)
      case 0
      then show ?thesis using Cons.prems by (auto simp: filter_empty_conv)
    next
      case (Suc q)
      with Cons.prems have "xs ! q \<in> set xs" "sorted xs" "distinct xs" "q < length xs" "\<forall>y \<in> set xs. x \<le> y" "x \<notin> set xs" by auto
      moreover from this have "x < xs ! q" by (metis order_le_less)
      ultimately show ?thesis using Cons.IH [of q] Suc by simp
    qed
  qed simp
  with assms(3) show ?thesis by simp
qed

lemma part_sorted: "sorted (key_part rows i)" "distinct (key_part rows i)"
  by (simp_all add: key_part_def sorted_wrt_filter)

text \<open>The position of the \<open>p\<close>th member of a partition is \<open>p\<close>, and positions tell members apart.\<close>

lemma part_pos_nth:
  assumes "p < length (key_part rows i)"
  shows "key_part rows i ! p < length rows" "rows ! (key_part rows i ! p) = rows ! i" "part_pos rows (key_part rows i ! p) = p"
proof -
  have "key_part rows i ! p \<in> set (key_part rows i)" using assms by simp
  then show mem: "key_part rows i ! p < length rows" "rows ! (key_part rows i ! p) = rows ! i"
    by (simp_all add: key_part_def)
  have "key_part rows (key_part rows i ! p) = key_part rows i" unfolding key_part_def [of rows "key_part rows i ! p"] mem(2) by (simp add: key_part_def)
  then show "part_pos rows (key_part rows i ! p) = p"
    unfolding part_pos_def using part_nth_pos [OF part_sorted assms] by simp
qed

lemma part_pos_inj:
  assumes "i < length rows" "j < length rows" "rows ! i = rows ! j" "part_pos rows i = part_pos rows j"
  shows "i = j"
proof -
  have same: "key_part rows j = key_part rows i" using assms(3) by (simp add: key_part_def)
  have at: "\<exists>p < length (key_part rows i). key_part rows i ! p = x" if "x < length rows" "rows ! x = rows ! i" for x
  proof -
    have "x \<in> set (key_part rows i)" using that by (simp add: key_part_def)
    then show ?thesis by (auto simp: in_set_conv_nth)
  qed
  obtain p q where "p < length (key_part rows i)" "key_part rows i ! p = i" "q < length (key_part rows i)" "key_part rows i ! q = j"
    using at [of i] at [of j] assms by auto
  with part_pos_nth(3) [of p rows i] part_pos_nth(3) [of q rows i] assms(4) show ?thesis by auto
qed


section \<open>One row per key\<close>

lemma project_key_first:
  assumes "copies t rows" "distinct (column_names t @ [key])"
    and "project_rows E (map (Pair []) (column_names t @ [key])) items rows = Some (map butlast rows)"
  shows "project_rows E (map (Pair []) (column_names t @ [key])) (int_item key # items) rows = Some (map key_first rows)"
proof -
  let ?sc = "map (Pair []) (column_names t @ [key])"
  have "project_rows E ?sc [ProjectionItem key (col key IntegerType) IntegerType] rows = Some (map (\<lambda>i. [last (rows ! i)]) [0..<length rows])"
  proof (rule project_single)
    fix i
    assume "i < length rows"
    then have "length (rows ! i) = length (column_names t @ [key])" using copiesD(1) [OF assms(1)] by simp
    from eval_key [OF assms(2) this, of E]
    show "eval E ?sc rows (col key IntegerType) i = Some (last (rows ! i))"
      using eval_scalar [of "col key IntegerType" E ?sc rows i] by (simp add: col_def)
  qed
  from project_append [OF this assms(3)]
  have "project_rows E ?sc (int_item key # items) rows = Some (map2 (@) (map (\<lambda>i. [last (rows ! i)]) [0..<length rows]) (map butlast rows))"
    by (simp add: int_item_def)
  moreover have "map2 (@) (map (\<lambda>i. [last (rows ! i)]) [0..<length rows]) (map butlast rows) = map key_first rows"
    by (intro nth_equalityI) (simp_all add: key_first_def)
  ultimately show ?thesis by simp
qed

lemma distinct_key_first:
  assumes "keyed_rows B core" "set rows = set core" "engine_ok E"
  shows "mset (distinct_rows E (map key_first rows)) = mset (map key_first core)"
proof (rule distinct_copies [OF assms(1,2) _ _ assms(3)])
  show "inj_on key_first (set core)"
  proof (rule inj_onI)
    fix r s
    assume "r \<in> set core" "s \<in> set core" "key_first r = key_first s"
    then show "r = s" using keyed_inj [OF assms(1)] by (simp add: key_first_def)
  qed
  fix r s
  assume rs: "r \<in> set core" "s \<in> set core" "same_vals E (key_first r) (key_first s)"
  obtain b k where r: "r = b @ [SInt k]" by (rule keyed_row [OF assms(1) rs(1)])
  obtain c j where s: "s = c @ [SInt j]" by (rule keyed_row [OF assms(1) rs(2)])
  show "last r = last s" using rs(3) same_vals_first [OF assms(3), of k b j c] by (simp add: r s key_first_def)
qed

text \<open>\<open>SELECT DISTINCT key, items\<close> over copies, where the items have the base columns' values.\<close>

lemma distinct_collapses:
  assumes "copied_source t key n" "distinct (column_names t @ [key])" "item_signature items = table_signature t"
    and "\<And>E rows. engine_ok E \<Longrightarrow> copies t rows \<Longrightarrow>
      project_rows E (map (Pair []) (column_names t @ [key])) items rows = Some (map butlast rows)"
  shows "collapses t key (SelectQuery i n (Some (int_item key # items)) None True None None None)" (is "collapses t key ?q")
  unfolding collapses_def
proof (intro conjI allI impI)
  show "get_signature ?q = (key, IntegerType) # table_signature t" using assms(3) by (simp add: int_item_def)
  show "well_formed ?q" using copied_shape [OF assms(1)] by (simp add: table_source_def)
  fix E B path
  assume E: "engine_ok E" "base_rows_ok t B"
  obtain core stored where stored: "\<forall>path. den E B path n = Some stored" "keyed_rows B core" "set stored = set core"
    by (rule copied_stored [OF assms(1) E])
  let ?rows = "en_scan E (i # path) stored"
  have rows: "set ?rows = set core" using stored(3) E(1) by simp
  then have copies: "copies t ?rows" using stored(2) E(2) by (auto simp: copies_def)
  have "den E B path ?q = Some (distinct_rows E (map key_first ?rows))"
    using stored(1) project_key_first [OF copies assms(2) assms(4) [OF E(1) copies]]
    by (simp add: select_rows_def where_rows_def qualify_rows_def copied_names [OF assms(1)] del: map_append)
  with distinct_key_first [OF stored(2) rows E(1)] stored(2)
  show "\<exists>core rows. den E B path ?q = Some rows \<and> keyed_rows B core \<and> mset rows = mset (map key_first core)" by blast
qed

lemma project_copies:
  assumes "copies t rows" "distinct (column_names t @ [key])"
  shows "project_rows E (map (Pair []) (column_names t @ [key])) (plain_items (table_signature t)) rows = Some (map butlast rows)"
  by (rule project_keyed [OF assms(2)]) (use copiesD(1) [OF assms(1)] in blast)

text \<open>\<open>MAX(c) OVER (PARTITION BY key)\<close> is \<open>c\<close>: the partition holds copies of one row.\<close>

definition max_item :: "string \<Rightarrow> proj_item \<Rightarrow> proj_item" where
  "max_item key it = ProjectionItem (pi_alias it)
     (window_over WinMAX (Some (col (pi_alias it) (pi_type it))) [col key IntegerType] (pi_type it) [] None) (pi_type it)"

lemma eval_max:
  assumes "copies t rows" "distinct (column_names t @ [key])" "engine_ok E" "i < length rows"
    and "\<And>j. j < length rows \<Longrightarrow> eval E (map (Pair []) (column_names t @ [key])) rows a j = Some (rows ! j ! k)"
  shows "eval E (map (Pair []) (column_names t @ [key])) rows (window_over WinMAX (Some a) [col key IntegerType] ty [] None) i
    = Some (rows ! i ! k)"
proof -
  let ?sc = "map (Pair []) (column_names t @ [key])" and ?idx = "[0..<length rows]"
  have none: "map_opt (\<lambda>j. map_opt (\<lambda>e. eval E ?sc rows e j) []) ?idx = Some (map (\<lambda>j. []) ?idx)"
    by (rule map_opt_total) simp
  have vs: "map_opt (\<lambda>j. eval E ?sc rows a j) ?idx = Some (map (\<lambda>j. rows ! j ! k) ?idx)"
    by (rule map_opt_total) (rule assms(5), simp)
  let ?vals = "map (\<lambda>j. map (\<lambda>j. rows ! j ! k) ?idx ! j) (key_part rows i)"
  have "set ?vals \<subseteq> {rows ! i ! k}" by (auto simp: key_part_def)
  moreover have "en_win E WinMAX None (map (\<lambda>j. map (\<lambda>j. []) ?idx ! j) (key_part rows i)) ?vals (part_pos rows i) \<in> set ?vals"
    by (rule engine_win [OF assms(3)]) (simp_all add: part_pos_less [OF assms(4)])
  ultimately have "en_win E WinMAX None (map (\<lambda>j. map (\<lambda>j. []) ?idx ! j) (key_part rows i)) ?vals (part_pos rows i) = rows ! i ! k" by blast
  then show ?thesis
    by (simp only: window_over_def eval.simps those_map_opt key_values [OF assms(1,2)] none vs Option.bind.simps Let_def
      key_partition [OF assms(1,3,4)] part_pos_def [symmetric] window_function.distinct if_False option.case option.map)
qed

lemma project_max:
  assumes "copies t rows" "distinct (column_names t @ [key])" "engine_ok E"
  shows "project_rows E (map (Pair []) (column_names t @ [key])) (map (max_item key) (plain_items (table_signature t))) rows
    = Some (map butlast rows)"
proof -
  let ?sc = "map (Pair []) (column_names t @ [key])"
  have plain: "list_all2 (\<lambda>i r. list_all2 (\<lambda>it v. eval E ?sc rows (pi_expr it) i = Some v) (plain_items (table_signature t)) r) [0..<length rows] (map butlast rows)"
    using project_copies [OF assms(1,2), of E] by (simp add: project_rows_def map_opt_Some)
  have "eval E ?sc rows (pi_expr (max_item key it)) i = Some (rows ! i ! k)"
    if i: "i < length rows" and k: "k < length (tab_columns t)" and at: "it = plain_items (table_signature t) ! k" for i k it
  proof -
    have it: "it = ProjectionItem (pi_alias it) (col (pi_alias it) (pi_type it)) (pi_type it)"
      using k at by (simp add: plain_items_def table_signature_def)
    have "eval E ?sc rows (col (pi_alias it) (pi_type it)) j = Some (rows ! j ! k)" if "j < length rows" for j
    proof -
      have "eval E ?sc rows (pi_expr it) j = Some (butlast (rows ! j) ! k)"
        using plain that k at by (simp add: list_all2_conv_all_nth)
      moreover have "butlast (rows ! j) ! k = rows ! j ! k"
        using copiesD(1) [OF assms(1), of "rows ! j" key] that k by (simp add: nth_butlast)
      ultimately show ?thesis by (subst (asm) it) simp
    qed
    from eval_max [OF assms i this] show ?thesis by (simp add: max_item_def)
  qed
  moreover have "butlast (rows ! i) ! k = rows ! i ! k" if "i < length rows" "k < length (tab_columns t)" for i k
    using copiesD(1) [OF assms(1), of "rows ! i" key] that by (simp add: nth_butlast)
  moreover have "length (butlast (rows ! i)) = length (tab_columns t)" if "i < length rows" for i
    using copiesD(1) [OF assms(1), of "rows ! i" key] that by simp
  ultimately show ?thesis
    unfolding project_rows_def map_opt_Some list_all2_conv_all_nth by simp
qed

lemma max_signature: "item_signature (map (max_item key) items) = item_signature items"
  by (simp add: item_signature_def max_item_def)


section \<open>QUALIFY\<close>

lemma keep_where_map: "keep_where (map p xs) (map f xs) = map f (filter p xs)"
  by (induction xs) (auto simp: keep_where_def)

text \<open>The row of a partition that \<open>ROW_NUMBER()\<close> ranks first.\<close>

definition ranked_first :: "engine \<Rightarrow> row list \<Rightarrow> nat \<Rightarrow> bool" where
  "ranked_first E rows i \<longleftrightarrow>
     en_rank E (map (\<lambda>j. map (\<lambda>j. [last (rows ! j)]) [0..<length rows] ! j) (key_part rows i)) ! part_pos rows i = 1"

lemma eval_ranked:
  assumes "copies t rows" "distinct (column_names t @ [key])" "engine_ok E" "i < length rows"
  shows "Option.bind (eval E (map (Pair []) (column_names t @ [key])) rows
      (eq (window_over WinROW_NUMBER None [col key IntegerType] IntegerType [col key IntegerType] None) (int_lit 1)) i) accepts
    = Some (ranked_first E rows i)"
proof -
  let ?sc = "map (Pair []) (column_names t @ [key])"
  let ?rank = "en_rank E (map (\<lambda>j. map (\<lambda>j. [last (rows ! j)]) [0..<length rows] ! j) (key_part rows i)) ! part_pos rows i"
  have "eval E ?sc rows (window_over WinROW_NUMBER None [col key IntegerType] IntegerType [col key IntegerType] None) i
      = Some (SInt (int ?rank))"
    by (simp only: window_over_def eval.simps those_map_opt key_values [OF assms(1,2)] Option.bind.simps Let_def
      key_partition [OF assms(1,3,4)] part_pos_def [symmetric] simp_thms if_True)
  moreover have "en_cmp E ''='' (SInt (int ?rank)) (SInt 1) \<longleftrightarrow> ?rank = 1"
    unfolding engine_eq [OF assms(3)] by linarith
  ultimately show ?thesis
    by (simp only: eq_def int_lit_def eval.simps Option.bind.simps option.map sql_cmp_def sqlval.distinct simp_thms if_False
      accepts.simps ranked_first_def)
qed

text \<open>Every partition has exactly one.\<close>

lemma ranked_once:
  assumes "engine_ok E" "keyed_rows B core" "set rows = set core"
  shows "mset (map (\<lambda>i. rows ! i) (filter (ranked_first E rows) [0..<length rows])) = mset core"
proof (rule set_eq_iff_mset_eq_distinct [THEN iffD1])
  let ?ks = "\<lambda>i. map (\<lambda>j. map (\<lambda>j. [last (rows ! j)]) [0..<length rows] ! j) (key_part rows i)"
  have part: "key_part rows j = key_part rows i" if "rows ! j = rows ! i" for i j using that by (simp add: key_part_def)
  have one: "i = j" if "i < length rows" "j < length rows" "ranked_first E rows i" "ranked_first E rows j" "rows ! i = rows ! j" for i j
  proof -
    note same = part [OF that(5)]
    have "part_pos rows i < length (en_rank E (?ks i))" "part_pos rows j < length (en_rank E (?ks i))"
      using part_pos_less [OF that(1)] part_pos_less [OF that(2)] engine_rank(3) [OF assms(1)] same by simp_all
    moreover have "en_rank E (?ks i) ! part_pos rows i = en_rank E (?ks i) ! part_pos rows j"
      using that(3,4) by (simp add: ranked_first_def same)
    ultimately have "part_pos rows i = part_pos rows j" using engine_rank(1) [OF assms(1)] by (simp add: nth_eq_iff_index_eq)
    then show "i = j" by (rule part_pos_inj [OF that(1,2,5)])
  qed
  show "distinct (map (\<lambda>i. rows ! i) (filter (ranked_first E rows) [0..<length rows]))"
    unfolding distinct_map using one by (auto simp: inj_on_def)
  show "distinct core" by (rule keyed_distinct [OF assms(2)])
  have "\<exists>j < length rows. rows ! j = rows ! i \<and> ranked_first E rows j" if i: "i < length rows" for i
  proof -
    have "i \<in> set (key_part rows i)" using i by (simp add: key_part_def)
    then have "1 \<in> set (en_rank E (?ks i))" unfolding engine_rank(2) [OF assms(1)] by (cases "key_part rows i") simp_all
    then obtain p where p: "p < length (key_part rows i)" "en_rank E (?ks i) ! p = 1"
      using engine_rank(3) [OF assms(1), of "?ks i"] by (auto simp: in_set_conv_nth)
    note at = part_pos_nth [OF p(1)]
    have "ranked_first E rows (key_part rows i ! p)"
      unfolding ranked_first_def at(3) part [OF at(2)] by (rule p(2))
    with at show ?thesis by blast
  qed
  note cover = this
  have "set (map (\<lambda>i. rows ! i) (filter (ranked_first E rows) [0..<length rows])) = set rows"
  proof (intro set_eqI iffI)
    fix r
    assume "r \<in> set rows"
    then obtain i where "i < length rows" "r = rows ! i" by (auto simp: in_set_conv_nth)
    with cover obtain j where "j < length rows" "rows ! j = r" "ranked_first E rows j" by blast
    then show "r \<in> set (map (\<lambda>i. rows ! i) (filter (ranked_first E rows) [0..<length rows]))" by auto
  qed auto
  with assms(3) show "set (map (\<lambda>i. rows ! i) (filter (ranked_first E rows) [0..<length rows])) = set core" by simp
qed

lemma qualify_collapses:
  assumes "copied_source t key n" "distinct (column_names t @ [key])"
  shows "collapses t key (SelectQuery i n (Some (int_item key # plain_items (table_signature t))) None False None
    (Some (eq (window_over WinROW_NUMBER None [col key IntegerType] IntegerType [col key IntegerType] None) (int_lit 1))) None)"
    (is "collapses t key ?q")
  unfolding collapses_def
proof (intro conjI allI impI)
  show "get_signature ?q = (key, IntegerType) # table_signature t" by (simp add: int_item_def)
  show "well_formed ?q" using copied_shape [OF assms(1)] by (simp add: table_source_def)
  fix E B path
  assume E: "engine_ok E" "base_rows_ok t B"
  obtain core stored where stored: "\<forall>path. den E B path n = Some stored" "keyed_rows B core" "set stored = set core"
    by (rule copied_stored [OF assms(1) E])
  let ?rows = "en_scan E (i # path) stored" and ?sc = "map (Pair []) (column_names t @ [key])"
  let ?e = "eq (window_over WinROW_NUMBER None [col key IntegerType] IntegerType [col key IntegerType] None) (int_lit 1)"
  have rows: "set ?rows = set core" using stored(3) E(1) by simp
  then have copies: "copies t ?rows" using stored(2) E(2) by (auto simp: copies_def)
  have "map_opt (\<lambda>i. Option.bind (eval E ?sc ?rows ?e i) accepts) [0..<length ?rows] = Some (map (ranked_first E ?rows) [0..<length ?rows])"
    by (rule map_opt_total) (simp only: eval_ranked [OF copies assms(2) E(1)] set_upt atLeastLessThan_iff)
  moreover have "map key_first ?rows = map (\<lambda>i. key_first (?rows ! i)) [0..<length ?rows]" by (intro nth_equalityI) simp_all
  ultimately have "qualify_rows E ?sc (Some ?e) ?rows (map key_first ?rows)
      = Some (map (\<lambda>i. key_first (?rows ! i)) (filter (ranked_first E ?rows) [0..<length ?rows]))"
    by (simp only: qualify_rows_def option.case option.map keep_where_map)
  then have "den E B path ?q = Some (map (\<lambda>i. key_first (?rows ! i)) (filter (ranked_first E ?rows) [0..<length ?rows]))"
    using stored(1) project_key_first [OF copies assms(2) project_copies [OF copies assms(2)], of E]
    by (simp only: den.simps(2) Option.bind.simps select_rows_def where_rows_def option.case copied_names [OF assms(1)] if_False)
  moreover have "mset (map (\<lambda>i. key_first (?rows ! i)) (filter (ranked_first E ?rows) [0..<length ?rows])) = mset (map key_first core)"
    using mset_eq_map [OF ranked_once [OF E(1) stored(2) rows], of key_first] by (simp add: o_def)
  ultimately show "\<exists>core rows. den E B path ?q = Some rows \<and> keyed_rows B core \<and> mset rows = mset (map key_first core)"
    using stored(2) by blast
qed


section \<open>GROUP BY\<close>

definition any_item :: "proj_item \<Rightarrow> proj_item" where
  "any_item it = ProjectionItem (pi_alias it) (any_value (col (pi_alias it) (pi_type it)) (pi_type it)) (pi_type it)"

lemma any_signature: "item_signature (map any_item items) = item_signature items"
  by (simp add: item_signature_def any_item_def)

lemma engine_agg: "engine_ok E \<Longrightarrow> vs \<noteq> [] \<Longrightarrow> en_agg E f vs \<in> set vs"
  unfolding engine_ok_def by blast

text \<open>\<open>ANY_VALUE\<close> over copies of one row.\<close>

lemma group_any:
  assumes "copies t rows" "distinct (column_names t @ [key])" "engine_ok E"
    and "g \<noteq> []" "set g \<subseteq> {..<length rows}" "\<forall>j \<in> set g. rows ! j = rows ! hd g"
  shows "map_opt (\<lambda>it. group_item E (map (Pair []) (column_names t @ [key])) rows keys g (pi_expr it))
      (map any_item (plain_items (table_signature t))) = Some (butlast (rows ! hd g))"
proof -
  let ?sc = "map (Pair []) (column_names t @ [key])"
  have hd: "hd g < length rows" using assms(4,5) by (cases g) auto
  then have len: "length (rows ! hd g) = Suc (length (tab_columns t))" using copiesD(1) [OF assms(1), of "rows ! hd g" key] by simp
  have item: "group_item E ?sc rows keys g (pi_expr (any_item (plain_items (table_signature t) ! k))) = Some (rows ! hd g ! k)"
    if k: "k < length (tab_columns t)" for k
  proof -
    let ?c = "col (col_name (tab_columns t ! k)) (col_type (tab_columns t ! k))"
    have names: "(column_names t @ [key]) ! k = col_name (tab_columns t ! k)" using k by (simp add: column_names_def nth_append)
    have "resolve ?sc None ((column_names t @ [key]) ! k) = Some k" by (rule resolve_plain(1) [OF assms(2)]) (use k in simp)
    then have "eval E ?sc rows ?c j = Some (rows ! j ! k)" for j by (simp only: names col_def eval.simps(1) option.map)
    then have "map_opt (eval E ?sc rows ?c) g = Some (map (\<lambda>j. rows ! j ! k) g)" by (intro map_opt_total) blast
    moreover have "en_agg E AggANY_VALUE (map (\<lambda>j. rows ! j ! k) g) \<in> set (map (\<lambda>j. rows ! j ! k) g)"
      using assms(4) by (intro engine_agg [OF assms(3)]) simp
    then have "en_agg E AggANY_VALUE (map (\<lambda>j. rows ! j ! k) g) = rows ! hd g ! k" using assms(6) by auto
    ultimately show ?thesis
      using k by (simp add: group_item_def any_item_def any_value_def plain_items_def table_signature_def)
  qed
  show ?thesis
    unfolding map_opt_Some list_all2_conv_all_nth using item len by (simp add: nth_butlast)
qed

lemma any_value_delivers:
  assumes "copied_source t key n" "distinct (column_names t @ [key])"
  shows "delivers t [] (SelectQuery i n (Some (map any_item (plain_items (table_signature t)))) None False
    (Some [col key IntegerType]) None None)" (is "delivers t [] ?q")
  unfolding delivers_def
proof (intro conjI allI impI)
  show "get_signature ?q = table_signature t" by (simp add: any_signature)
  show "well_formed ?q" using copied_shape [OF assms(1)] by (simp add: table_source_def)
  fix E B path
  assume E: "engine_ok E" "base_rows_ok t B"
  obtain core stored where stored: "\<forall>path. den E B path n = Some stored" "keyed_rows B core" "set stored = set core"
    by (rule copied_stored [OF assms(1) E])
  let ?rows = "en_scan E (i # path) stored" and ?sc = "map (Pair []) (column_names t @ [key])"
  have rows: "set ?rows = set core" using stored(3) E(1) by simp
  then have copies: "copies t ?rows" using stored(2) E(2) by (auto simp: copies_def)
  define keys where "keys = map (\<lambda>j. [last (?rows ! j)]) [0..<length ?rows]"
  let ?gs = "group_indices E keys [0..<length ?rows]"
  have same: "same_vals E (keys ! j) (keys ! k) \<longleftrightarrow> ?rows ! k = ?rows ! j" "keys ! j = keys ! k \<longleftrightarrow> ?rows ! k = ?rows ! j"
    if "j < length ?rows" "k < length ?rows" for j k
    using that copies_same_key [OF copies E(1), of "?rows ! j" "?rows ! k"] copiesD(3) [OF copies, of "?rows ! j" "?rows ! k"]
    by (auto simp: keys_def)
  have apart: "told_apart E keys [0..<length ?rows]" using same by (simp add: told_apart_def)
  have members: "g \<noteq> []" "set g \<subseteq> {..<length ?rows}" "\<forall>j \<in> set g. ?rows ! j = ?rows ! hd g" "hd g < length ?rows"
    if g: "g \<in> set ?gs" for g
  proof -
    note facts = group_members [OF apart g]
    show g1: "g \<noteq> []" "set g \<subseteq> {..<length ?rows}" using facts by auto
    then show hd: "hd g < length ?rows" by (cases g) auto
    show "\<forall>j \<in> set g. ?rows ! j = ?rows ! hd g"
    proof
      fix j
      assume j: "j \<in> set g"
      then have "j < length ?rows" "keys ! j = keys ! hd g" using facts g1(2) by blast+
      then show "?rows ! j = ?rows ! hd g" by (simp only: same(2) [OF _ hd])
    qed
  qed
  have "map_opt (\<lambda>g. map_opt (\<lambda>it. group_item E ?sc ?rows [col key IntegerType] g (pi_expr it)) (map any_item (plain_items (table_signature t)))) ?gs
      = Some (map (\<lambda>g. butlast (?rows ! hd g)) ?gs)"
    by (rule map_opt_total) (rule group_any [OF copies assms(2) E(1) members(1-3)])
  then have den: "den E B path ?q = Some (map (\<lambda>g. butlast (?rows ! hd g)) ?gs)"
    using stored(1) key_values [OF copies assms(2), of E]
    by (simp only: den.simps(2) Option.bind.simps select_rows_def where_rows_def option.case copied_names [OF assms(1)] if_False
      group_rows_def keys_def [symmetric] simp_thms if_True)
  have "mset (map (\<lambda>g. ?rows ! hd g) ?gs) = mset core"
  proof (rule set_eq_iff_mset_eq_distinct [THEN iffD1])
    have key_hd: "keys ! hd g = [last (?rows ! hd g)]" if "g \<in> set ?gs" for g using members(4) [OF that] by (simp add: keys_def)
    have dist: "distinct (map (\<lambda>g. keys ! hd g) ?gs)" using group_keys [OF apart] by blast
    have "map (\<lambda>g. keys ! hd g) ?gs = map (\<lambda>r. [last r]) (map (\<lambda>g. ?rows ! hd g) ?gs)" using key_hd by simp
    with dist show "distinct (map (\<lambda>g. ?rows ! hd g) ?gs)" by (metis distinct_map)
    show "distinct core" by (rule keyed_distinct [OF stored(2)])
    have "\<exists>g \<in> set ?gs. ?rows ! hd g = ?rows ! j" if j: "j < length ?rows" for j
    proof -
      have "keys ! j \<in> (\<lambda>g. keys ! hd g) ` set ?gs" using group_keys [OF apart] j by auto
      then obtain g where "g \<in> set ?gs" "keys ! j = keys ! hd g" by blast
      moreover from this have "?rows ! hd g = ?rows ! j" by (simp only: same(2) [OF j members(4)])
      ultimately show ?thesis by blast
    qed
    note cover = this
    have "set ?rows \<subseteq> set (map (\<lambda>g. ?rows ! hd g) ?gs)"
    proof
      fix r
      assume "r \<in> set ?rows"
      then obtain j where j: "j < length ?rows" "?rows ! j = r" unfolding in_set_conv_nth by blast
      from cover [OF j(1)] obtain g where g: "g \<in> set ?gs" "?rows ! hd g = r" unfolding j(2) by (rule bexE)
      show "r \<in> set (map (\<lambda>g. ?rows ! hd g) ?gs)"
        unfolding list.set_map g(2) [symmetric] using g(1) by (rule imageI)
    qed
    moreover have "set (map (\<lambda>g. ?rows ! hd g) ?gs) \<subseteq> set ?rows" using members(4) by auto
    ultimately show "set (map (\<lambda>g. ?rows ! hd g) ?gs) = set core" using rows by simp
  qed
  from mset_eq_map [OF this, of butlast] have "mset (map (\<lambda>g. butlast (?rows ! hd g)) ?gs) = mset B"
    using stored(2) by (simp add: o_def keyed_rows_def)
  with den show "\<exists>rows. den E B path ?q = Some rows \<and> mset rows = mset (wanted E t [] B)" by simp
qed


section \<open>The builders\<close>

lemma key_channel_request: "key_column key \<notin> set (column_names t) \<Longrightarrow> request_ok t [KeyChannelConstraint key]"
  by (simp add: request_ok_def constraint_types_def) (simp add: payload_defs get_optional_constraint_def)

lemma all_groupable_plain: "passthrough_items env = [] \<longleftrightarrow> table_signature (base_table env) = []"
  by (simp add: passthrough_plain)

context subtree_provider begin

lemma wp_copied:
  assumes "env_ok env" "key_column key \<notin> set (column_names base)" "Q None"
    and "\<And>child. copied_source base (key_column key) child \<Longrightarrow> gspec d E (f child) Q"
  shows "gspec d E (obind (ask sub WantRelation [Some (KeyChannelConstraint key)]) f) Q"
proof (rule wp_ask [OF assms(1) make_single(2) key_channel_request [OF assms(2)]])
  fix n
  assume n: "is_instance n WantRelation" "post base [KeyChannelConstraint key] n"
  show "gspec d E (f n) Q" by (rule assms(4), rule post_copied [OF n(2)]) (use n(1) in simp_all)
qed (rule assms(3))

lemma wp_keyed:
  assumes "env_ok env" "Q None"
    and "\<And>child n. let c = ''eq_key'' @ ''_'' @ str_nat n in distinct (column_names base @ [c]) \<and> copied_source base c child \<Longrightarrow>
      gspec d E (f (child, plain_items (table_signature base), ''eq_key'' @ ''_'' @ str_nat n)) Q"
  shows "gspec d E (obind (build_keyed sub env) f) Q"
proof (cases "passthrough_items env = []")
  case True
  then show ?thesis by (simp add: build_keyed_def gen_norm wp assms(2))
next
  case False
  have fresh: "''eq_key'' @ ''_'' @ str_nat n \<notin> set (column_names base)" for n
    using fresh_column [OF assms(1), of "''eq_key''" n] by simp
  then have dist: "distinct (column_names base @ [''eq_key'' @ ''_'' @ str_nat n])" for n
    using env_distinct [OF assms(1)] by simp
  have key: "key_column (KeySpec c IDENTITY False) = c" for c by simp
  have code: "gspec d E (f (child, plain_items (table_signature base), ''eq_key'' @ ''_'' @ str_nat n)) Q"
    if "copied_source base (key_column (KeySpec (''eq_key'' @ ''_'' @ str_nat n) IDENTITY False)) child" for n child
    by (rule assms(3)) (use that dist in \<open>simp only: Let_def key simp_thms\<close>)
  show ?thesis
    unfolding build_keyed_def Let_def if_not_P [OF False]
    unfolding obind_gbind obind_obind obind_return generate_column_name_def passthrough_plain
    by (intro wp wp_copied [OF assms(1)] assms(2) code) (simp_all only: key fresh not_False_eq_True)
qed

lemma key_ok:
  assumes "request_ok base cs" "key_channel cs = Some key" "set (constraint_types cs) \<subseteq> {KeyChannelC, AcceptsDmlC}"
  shows "key_column key \<notin> set (column_names base)" "tag_channel cs = None" "ExposedNameC \<notin> set (constraint_types cs)"
proof -
  show "key_column key \<notin> set (column_names base)" using assms(1,2) by (auto simp: request_ok_def)
  show "tag_channel cs = None" using assms(3) by (intro payload_None) auto
  show "ExposedNameC \<notin> set (constraint_types cs)" using assms(3) by auto
qed

lemma key_explode_spec:
  assumes "env_ok env" "request_ok base cs" "set (constraint_types cs) \<subseteq> {KeyChannelC, AcceptsDmlC}"
  shows "gspec d E (build_key_explode sub env cs) (makes base (C_CreateFromQuery CreateTable) cs)"
proof (cases "key_channel cs")
  case None
  then show ?thesis by (simp add: build_key_explode_def wp)
next
  case (Some key)
  note ok = key_ok [OF assms(2) Some assms(3)]
  have opts: "options_ok (big_table_rowcount_weights (config env))" using assms(1) by (simp add: env_ok_def config_ok_def)
  have made: "post base cs (CreateFromQuery j CreateTable (UnionAllQuery i (replicate (nat n) rel))
      [created_object nm (create_keyword CreateTable) (UnionAllQuery i (replicate (nat n) rel))]
      (created_object nm (create_keyword CreateTable) (UnionAllQuery i (replicate (nat n) rel))))"
    if "(n, w) \<in> set (big_table_rowcount_weights (config env))" "0 < w" "keyed_source base (key_column key) rel" for n w rel i j nm
    using key_explode_post [OF that(3) _ Some ok(2,3)] copies_ok [OF assms(1) that(1,2)] by simp
  have many: "2 \<le> length (replicate (nat n) rel)"
    if "(n, w) \<in> set (big_table_rowcount_weights (config env))" "0 < w" for n w and rel :: eqnode
    using copies_ok [OF assms(1) that] by simp
  show ?thesis
    unfolding build_key_explode_def Some option.case
    by (intro wp_key [OF assms(1)] wp_choose [OF opts] wp_union wp_some wp_create wp_return)
      (simp_all only: makes_None makes_Some class_of.simps simp_thms keyed_relation.simps made many)
qed

lemma key_insert_spec:
  assumes "env_ok env" "request_ok base cs" "set (constraint_types cs) \<subseteq> {KeyChannelC, AcceptsDmlC}"
  shows "gspec d E (build_key_insert_extras sub env cs) (makes base C_InsertExtrasExpansion cs)"
proof (cases "key_channel cs")
  case None
  then show ?thesis by (simp add: build_key_insert_extras_def wp)
next
  case (Some key)
  note ok = key_ok [OF assms(2) Some assms(3)]
  have made: "gspec d E (gbind (child_name child) (\<lambda>target. gbind (mk_select child None None) (\<lambda>query.
      gsome (insert_extras_build child (InsertStep target [] [] None None (Some query)))))) (makes base C_InsertExtrasExpansion cs)"
    if child: "copied_source base (key_column key) child" for child
  proof -
    have named: "materialized_name child \<noteq> None" using copied_shape [OF child] by (simp add: table_source_def)
    show ?thesis
      unfolding gen_norm
      by (intro wp) (simp_all add: named key_extras_post [OF child Some ok(2,3)] del: not_None_eq)
  qed
  show ?thesis
    unfolding build_key_insert_extras_def Some option.case
    by (rule wp_copied [OF assms(1) ok(1)]) (simp_all only: makes_None made)
qed

text \<open>The view that drops the key, over any query with one row per key.\<close>

lemma wp_drop_key:
  assumes "request_ok base cs" "set (constraint_types cs) \<subseteq> {ExposedNameC}"
    and "collapses base key q" "distinct (column_names base @ [key])"
  shows "gspec d E (drop_key_view env cs (plain_items (table_signature base)) q) (makes base (C_CreateFromQuery CreateView) cs)"
proof -
  have types: "set (constraint_types cs) \<subseteq> {AcceptsDmlC, ExposedNameC}" using assms(2) by auto
  show ?thesis
    unfolding drop_key_view_def
  proof (intro wp_create wp_select wp_some wp_return)
    fix i nm j k nm'
    let ?view = "CreateFromQuery i CreateView q [created_object nm (create_keyword CreateView) q] (created_object nm (create_keyword CreateView) q)"
    let ?q = "plain_select j ?view (Some (plain_items (table_signature base))) None"
    assume "exposed_name cs \<noteq> None \<longrightarrow> exposed_name cs \<noteq> Some [] \<longrightarrow> exposed_name cs = Some nm'"
    then have "post base cs (CreateFromQuery k CreateView ?q [created_object nm' (create_keyword CreateView) ?q] (created_object nm' (create_keyword CreateView) ?q))"
      by (intro relation_post [OF create_delivers [OF drop_key_delivers [OF assms(3,4) shaped_created]] types, where nm = nm'])
        (use given_name [OF assms(1)] assms(2) in \<open>auto simp: materialized_name_def\<close>)
    then show "makes base (C_CreateFromQuery CreateView) cs (Some (CreateFromQuery k CreateView ?q
        [created_object nm' (create_keyword CreateView) ?q] (created_object nm' (create_keyword CreateView) ?q)))" by simp
  qed
qed

lemma reads_key:
  assumes "let c = ''eq_key'' @ ''_'' @ str_nat n in distinct (column_names base @ [c]) \<and> copied_source base c child"
  shows "distinct (column_names base @ [''eq_key'' @ ''_'' @ str_nat n])" "copied_source base (''eq_key'' @ ''_'' @ str_nat n) child"
  using assms unfolding Let_def by blast+

lemma wp_select_full:
  "(\<And>i. gspec d E (f (SelectQuery i s p w u g q ob)) Q) \<Longrightarrow> gspec d E (gbind (mk_select_full s p w u g q ob) f) Q"
  unfolding gen_norm by (intro wp_new_id)

lemma key_distinct_spec:
  assumes "env_ok env" "request_ok base cs" "set (constraint_types cs) \<subseteq> {ExposedNameC}"
  shows "gspec d E (build_key_distinct sub env cs) (makes base (C_CreateFromQuery CreateView) cs)"
proof -
  have "gspec d E (obind (build_keyed sub env) (\<lambda>(expansion, base_items, key_name).
      gbind (mk_select_full expansion (Some (int_item key_name # base_items)) None True None None None)
        (drop_key_view env cs base_items))) (makes base (C_CreateFromQuery CreateView) cs)"
  proof (rule wp_keyed [OF assms(1)])
    fix child n
    assume "let c = ''eq_key'' @ ''_'' @ str_nat n in distinct (column_names base @ [c]) \<and> copied_source base c child"
    note child = reads_key [OF this]
    show "gspec d E (case (child, plain_items (table_signature base), ''eq_key'' @ ''_'' @ str_nat n) of (expansion, base_items, key_name) \<Rightarrow>
        gbind (mk_select_full expansion (Some (int_item key_name # base_items)) None True None None None)
          (drop_key_view env cs base_items)) (makes base (C_CreateFromQuery CreateView) cs)"
      unfolding prod.case
      by (intro wp_select_full wp_drop_key [OF assms(2,3) distinct_collapses [OF child(2,1)] child(1)] project_copies child(1)) simp
  qed simp
  then show ?thesis by (simp add: build_key_distinct_def wp)
qed

lemma key_window_spec:
  assumes "env_ok env" "request_ok base cs" "set (constraint_types cs) \<subseteq> {ExposedNameC}"
  shows "gspec d E (build_key_window sub env cs) (makes base (C_CreateFromQuery CreateView) cs)"
proof -
  have "gspec d E (obind (build_keyed sub env) (\<lambda>(expansion, base_items, key_name).
      gbind (mk_select_full expansion (Some (int_item key_name # map (max_item key_name) base_items)) None True None None None)
        (drop_key_view env cs base_items))) (makes base (C_CreateFromQuery CreateView) cs)"
  proof (rule wp_keyed [OF assms(1)])
    fix child n
    assume "let c = ''eq_key'' @ ''_'' @ str_nat n in distinct (column_names base @ [c]) \<and> copied_source base c child"
    note child = reads_key [OF this]
    show "gspec d E (case (child, plain_items (table_signature base), ''eq_key'' @ ''_'' @ str_nat n) of (expansion, base_items, key_name) \<Rightarrow>
        gbind (mk_select_full expansion (Some (int_item key_name # map (max_item key_name) base_items)) None True None None None)
          (drop_key_view env cs base_items)) (makes base (C_CreateFromQuery CreateView) cs)"
      unfolding prod.case
      by (intro wp_select_full wp_drop_key [OF assms(2,3) distinct_collapses [OF child(2,1)] child(1)] project_max child(1))
        (simp_all only: max_signature item_signature_plain)
  qed simp
  then show ?thesis by (simp add: build_key_window_def max_item_def [abs_def] Let_def wp)
qed

lemma key_qualify_spec:
  assumes "env_ok env" "request_ok base cs" "set (constraint_types cs) \<subseteq> {ExposedNameC}"
  shows "gspec d E (build_key_qualify sub env cs) (makes base (C_CreateFromQuery CreateView) cs)"
  unfolding build_key_qualify_def
proof (rule wp_keyed [OF assms(1)])
  fix child n
  assume "let c = ''eq_key'' @ ''_'' @ str_nat n in distinct (column_names base @ [c]) \<and> copied_source base c child"
  note child = reads_key [OF this]
  show "gspec d E (case (child, plain_items (table_signature base), ''eq_key'' @ ''_'' @ str_nat n) of (expansion, base_items, key_name) \<Rightarrow>
      let key_expr = col key_name IntegerType;
          rn = window_over WinROW_NUMBER None [key_expr] IntegerType [key_expr] None;
          keep_one = eq rn (int_lit 1) in
      gbind (mk_select_full expansion (Some (int_item key_name # base_items)) None False None (Some keep_one) None)
        (drop_key_view env cs base_items)) (makes base (C_CreateFromQuery CreateView) cs)"
    unfolding prod.case Let_def
    by (intro wp_select_full wp_drop_key [OF assms(2,3) qualify_collapses [OF child(2,1)] child(1)])
qed simp

lemma key_group_spec:
  assumes "env_ok env" "request_ok base cs" "set (constraint_types cs) \<subseteq> {ExposedNameC}"
  shows "gspec d E (build_key_group sub env cs) (makes base (C_CreateFromQuery CreateView) cs)"
proof -
  have types: "set (constraint_types cs) \<subseteq> {AcceptsDmlC, ExposedNameC}" using assms(3) by auto
  have "gspec d E (obind (build_keyed sub env) (\<lambda>(expansion, base_items, key_name).
      gbind (mk_select_full expansion (Some (map any_item base_items)) None False (Some [col key_name IntegerType]) None None) (\<lambda>query.
      gsome (create_as env CreateView query (exposed_name cs))))) (makes base (C_CreateFromQuery CreateView) cs)"
  proof (rule wp_keyed [OF assms(1)])
    fix child n
    assume "let c = ''eq_key'' @ ''_'' @ str_nat n in distinct (column_names base @ [c]) \<and> copied_source base c child"
    note child = reads_key [OF this]
    show "gspec d E (case (child, plain_items (table_signature base), ''eq_key'' @ ''_'' @ str_nat n) of (expansion, base_items, key_name) \<Rightarrow>
        gbind (mk_select_full expansion (Some (map any_item base_items)) None False (Some [col key_name IntegerType]) None None) (\<lambda>query.
        gsome (create_as env CreateView query (exposed_name cs)))) (makes base (C_CreateFromQuery CreateView) cs)"
      unfolding prod.case
    proof (intro wp_select_full wp_some wp_create wp_return)
      fix i j nm
      let ?q = "SelectQuery i child (Some (map any_item (plain_items (table_signature base)))) None False
        (Some [col (''eq_key'' @ ''_'' @ str_nat n) IntegerType]) None None"
      assume "exposed_name cs \<noteq> None \<longrightarrow> exposed_name cs \<noteq> Some [] \<longrightarrow> exposed_name cs = Some nm"
      then have "post base cs (CreateFromQuery j CreateView ?q [created_object nm (create_keyword CreateView) ?q] (created_object nm (create_keyword CreateView) ?q))"
        by (intro relation_post [OF create_delivers [OF any_value_delivers [OF child(2,1)]] types, where nm = nm])
          (use given_name [OF assms(2)] assms(3) in \<open>auto simp: materialized_name_def\<close>)
      then show "makes base (C_CreateFromQuery CreateView) cs (Some (CreateFromQuery j CreateView ?q
          [created_object nm (create_keyword CreateView) ?q] (created_object nm (create_keyword CreateView) ?q)))" by simp
    qed
  qed simp
  then show ?thesis by (simp add: build_key_group_def any_item_def [abs_def] Let_def wp)
qed

end

end
