(* ===== verification/Coa_Sound.thy ===== *)
theory Coa_Sound
  imports Coa_Sound_Keys
begin

text \<open>
  The generator as a whole.  Every portable builder serves every request it is routed; the factory
  built on them therefore meets the interface the builders rely on (an interpretation of
  \<open>subtree_provider\<close>, by induction on the nesting of requests), at every depth and for every fuel.
\<close>


section \<open>Every portable builder serves its requests\<close>

definition serves :: "nat \<Rightarrow> (gen_error \<Rightarrow> bool) \<Rightarrow> request \<Rightarrow> context_env \<Rightarrow> constraint_set \<Rightarrow> builder \<Rightarrow> bool" where
  "serves d E sub env cs b \<longleftrightarrow>
     (set (constraint_types cs) \<subseteq> set (b_supported b) \<longrightarrow> set (b_required b) \<subseteq> set (constraint_types cs) \<longrightarrow>
        gspec d E (b_build b sub env cs) (makes (base_table env) (b_result b) cs))"

lemma serves_builder:
  assumes "set (constraint_types cs) \<subseteq> set supported \<Longrightarrow> set required \<subseteq> set (constraint_types cs) \<Longrightarrow>
      gspec d E (build sub env cs) (makes (base_table env) result cs)"
  shows "serves d E sub env cs (builder_of nm result required supported build)"
  using assms by (simp add: serves_def builder_of_def)

lemma serves_plain:
  assumes "gspec d E (build sub env []) (makes (base_table env) result [])"
  shows "serves d E sub env cs (builder_of nm result required [] build)"
  by (rule serves_builder) (use assms no_constraints [of cs] in auto)

context subtree_provider begin

lemma create_builders_serve:
  assumes "env_ok env" "request_ok base cs"
  shows "list_all (serves d E sub env cs) create_builders"
  unfolding create_builders_def list.pred_inject read_only_supported_def dml_supported_def
  by (intro conjI TrueI serves_builder create_spec [OF assms] delete_reinsert_spec [OF assms] noop_update_spec [OF assms])
    (auto simp: table_class_def)

lemma query_builders_serve:
  assumes "env_ok env" "request_ok base cs"
  shows "list_all (serves d E sub env cs) query_builders"
proof -
  note plain = lateral_spec ordered_spec qualify_spec group_by_spec add_drop_spec eet_case_spec window_spec codec_spec
    rank_mod_spec union_empty_spec except_empty_spec intersect_self_spec union_duplicate_spec
    left_join_empty_spec semi_join_spec cross_join_spec flag_join_spec sequence_join_spec
  note filtered = star_spec explicit_spec cte_spec eet_filter_spec projection_spec partition_spec tlp_spec
  show ?thesis
    unfolding query_builders_def list.pred_inject
    by (intro conjI TrueI serves_plain plain [OF assms(1)] serves_builder filtered [OF assms])
      (simp_all add: insert_commute)
qed

lemma expansion_builders_serve:
  assumes "env_ok env" "request_ok base cs"
  shows "list_all (serves d E sub env cs) expansion_builders"
proof -
  note specs = key_distinct_spec key_group_spec key_window_spec key_qualify_spec key_explode_spec key_insert_spec
    tag_delete_spec tag_filter_spec tag_explode_spec tag_insert_spec
  show ?thesis
    unfolding expansion_builders_def list.pred_inject
    by (intro conjI TrueI serves_builder specs [OF assms]) simp_all
qed

lemma portable_serve:
  assumes "env_ok env" "request_ok base cs" "b \<in> set PORTABLE_BUILDERS"
  shows "serves d E sub env cs b"
proof -
  have "serves d E sub env cs leaf_builder"
    using base_source_spec [OF assms(1,2)] by (simp add: serves_def leaf_builder_def)
  then have "list_all (serves d E sub env cs) PORTABLE_BUILDERS"
    using create_builders_serve [OF assms(1,2)] query_builders_serve [OF assms(1,2)] expansion_builders_serve [OF assms(1,2)]
    by (simp add: PORTABLE_BUILDERS_def)
  with assms(3) show ?thesis by (simp add: list_all_iff)
qed

text \<open>What the dispatch needs of a builder.\<close>

lemma portable_routed:
  assumes "env_ok env" "request_ok base cs" "b \<in> set PORTABLE_BUILDERS" "routes k (set (constraint_types cs)) b"
  shows "gspec d E (b_build b sub env cs)
    (\<lambda>r. \<forall>n. r = Some n \<longrightarrow> class_of n = b_result b \<and> list_all (\<lambda>c. meets_constraint c n) cs \<and> post base cs n)"
proof (rule gspec_weaken)
  show "gspec d E (b_build b sub env cs) (makes base (b_result b) cs)"
    using portable_serve [OF assms(1-3)] assms(4) by (simp add: serves_def routes_def)
qed (auto simp: makes_def intro: post_meets [OF _ assms(2)])

end


section \<open>The factory meets the interface\<close>

text \<open>
  Which errors a run with this much fuel may stop with: the deadline, if the clock ever passes it, and
  running out of fuel only where the fuel is not enough to reach the depth limit.
\<close>

definition run_error :: "nat \<Rightarrow> nat \<Rightarrow> context_env \<Rightarrow> gen_error \<Rightarrow> bool" where
  "run_error d fuel env e \<longleftrightarrow>
     e = DeadlineExceeded \<and> (\<exists>t. deadline_passed env t) \<or> e = OutOfFuel \<and> fuel \<le> max_depth (config env) - d"

lemma run_error_Suc:
  assumes "d < max_depth (config env)"
  shows "run_error (Suc d) fuel env = run_error d (Suc fuel) env"
  using assms by (auto simp: run_error_def [abs_def] fun_eq_iff)

lemma factory_serves:
  assumes "env_ok env" "request_ok (base_table env) cs"
  shows "gspec d (run_error d fuel env) (build_subtree PORTABLE_BUILDERS fuel env k cs)
    (\<lambda>r. \<forall>n. r = Some n \<longrightarrow> is_instance n k \<and> post (base_table env) cs n)"
  using assms
proof (induction fuel arbitrary: d k cs)
  case 0
  show ?case by (simp add: gspec_raise run_error_def)
next
  case (Suc fuel)
  show ?case
  proof (rule gspec_subtree_Suc)
    show "run_error d (Suc fuel) env DeadlineExceeded" if "deadline_passed env t" for t
      using that by (auto simp: run_error_def)
    show "gspec d (run_error d (Suc fuel) env) (dispatch PORTABLE_BUILDERS (build_subtree PORTABLE_BUILDERS fuel env) env k cs)
        (\<lambda>r. \<forall>n. r = Some n \<longrightarrow> is_instance n k \<and> post (base_table env) cs n)"
    proof (rule gspec_dispatch)
      fix b
      assume b: "b \<in> set PORTABLE_BUILDERS" "routes k (set (constraint_types cs)) b" and d: "d < max_depth (config env)"
      have sub: "subtree_provider (build_subtree PORTABLE_BUILDERS fuel env) (Suc d) (run_error d (Suc fuel) env) env"
        unfolding run_error_Suc [OF d, symmetric] by unfold_locales (rule Suc.IH)
      show "gspec (Suc d) (run_error d (Suc fuel) env) (b_build b (build_subtree PORTABLE_BUILDERS fuel env) env cs)
          (\<lambda>r. \<forall>n. r = Some n \<longrightarrow> class_of n = b_result b \<and> list_all (\<lambda>c. meets_constraint c n) cs \<and> post (base_table env) cs n)"
        by (rule subtree_provider.portable_routed [OF sub Suc.prems b])
    qed
  qed
qed

interpretation factory: subtree_provider "build_subtree PORTABLE_BUILDERS fuel env" d "run_error d fuel env" env
  for fuel d env
  by unfold_locales (rule factory_serves)

lemma factory_result:
  assumes "env_ok env" "request_ok (base_table env) cs" "build_subtree PORTABLE_BUILDERS fuel env k cs s = Inr (Some n, s')"
  shows "is_instance n k \<and> post (base_table env) cs n"
proof -
  have "case build_subtree PORTABLE_BUILDERS fuel env k cs s of Inl e \<Rightarrow> True
      | Inr (r, t) \<Rightarrow> \<forall>n. r = Some n \<longrightarrow> is_instance n k \<and> post (base_table env) cs n"
    using factory_serves [OF assms(1,2), of "depth s" fuel k] unfolding gspec_def
    by (elim allE [of _ s] impE) (auto split: sum.splits)
  with assms(3) show ?thesis by simp
qed

end
