(* ===== verification/Coa_Render.thy ===== *)
theory Coa_Render
  imports Coa_Expr
begin

text \<open>
  \<open>eqgen/ir/render.py\<close> and the per-engine spellings that subclass it: turning an expression
  or a type name into SQL text.

  A \<open>Spelling\<close> subclass is a record of the hook methods the engines override
  (\<open>type_sql\<close>, \<open>mod_sql\<close>, \<open>aggregate_sql\<close>, \<open>value_codec_sql\<close>); a hook that renders its
  operand itself takes the operand's rendered text.  \<open>expr_sql\<close> is \<open>Spelling.expr\<close>.  The
  locale \<open>sql_spelling\<close> states what \<open>expr_sql\<close> relies on, and every shipped spelling
  interprets it.
\<close>


section \<open>Spellings\<close>

datatype render_error = UnsupportedForDialect string

record spelling =
  type_sql :: "sql_type \<Rightarrow> render_error + string"
  mod_sql :: "string \<Rightarrow> int \<Rightarrow> string"
  aggregate_sql :: "aggregate_function \<Rightarrow> string \<Rightarrow> string"
  value_codec_sql :: "value_codec \<Rightarrow> string \<Rightarrow> render_error + string"

fun kind_name :: "type_kind \<Rightarrow> string" where
  "kind_name INTEGER = ''INTEGER''"
| "kind_name NUMERIC = ''NUMERIC''"
| "kind_name DOUBLE = ''DOUBLE''"
| "kind_name VARCHAR = ''VARCHAR''"
| "kind_name CHAR_T = ''CHAR''"
| "kind_name TEXT = ''TEXT''"
| "kind_name BOOLEAN = ''BOOLEAN''"
| "kind_name DATE = ''DATE''"
| "kind_name TIMESTAMP = ''TIMESTAMP''"
| "kind_name JSONB = ''JSONB''"
| "kind_name UUID = ''UUID''"
| "kind_name INT4RANGE = ''INT4RANGE''"

fun agg_name :: "aggregate_function \<Rightarrow> string" where
  "agg_name AggMIN = ''MIN''"
| "agg_name AggMAX = ''MAX''"
| "agg_name AggANY_VALUE = ''ANY_VALUE''"

fun codec_name :: "value_codec \<Rightarrow> string" where
  "codec_name HEX = ''HEX''"
| "codec_name BASE64 = ''BASE64''"
| "codec_name JSON_PACK = ''JSON_PACK''"

fun win_name :: "window_function \<Rightarrow> string" where
  "win_name WinMIN = ''MIN''"
| "win_name WinMAX = ''MAX''"
| "win_name WinFIRST_VALUE = ''FIRST_VALUE''"
| "win_name WinLAST_VALUE = ''LAST_VALUE''"
| "win_name WinROW_NUMBER = ''ROW_NUMBER''"

fun frame_name :: "window_frame \<Rightarrow> string" where
  "frame_name ROWS = ''ROWS''"
| "frame_name RANGE = ''RANGE''"

definition quoted :: "string \<Rightarrow> string" where
  "quoted s = [CHR 0x27] @ s @ [CHR 0x27]"


section \<open>Expressions\<close>

text \<open>Node kinds that need no parentheses as an operand (\<open>_ATOMIC\<close>).\<close>

fun atomic :: "expr \<Rightarrow> bool" where
  "atomic (ColumnRef n t a) = True"
| "atomic (IntLiteral v) = True"
| "atomic (BooleanLiteral v) = True"
| "atomic (TypedNull t) = True"
| "atomic (Mod e n) = True"
| "atomic (GeneratedPredicate s) = True"
| "atomic (RawExpr s t) = True"
| "atomic e = False"

definition bracket :: "expr \<Rightarrow> string \<Rightarrow> string" where
  "bracket e rendered = (if atomic e then rendered else ''('' @ rendered @ '')'')"

definition column_sql :: "string \<Rightarrow> string option \<Rightarrow> string" where
  "column_sql name relation_alias =
     (case relation_alias of Some a \<Rightarrow> a @ ''.'' @ name | None \<Rightarrow> name)"

definition window_sql ::
  "window_function \<Rightarrow> string \<Rightarrow> string list \<Rightarrow> string list \<Rightarrow> window_frame option \<Rightarrow> string" where
  "window_sql f argument partition_by order_by fr =
     (let clauses =
        (if partition_by = [] then [] else [''PARTITION BY '' @ join_with '', '' partition_by]) @
        (if order_by = [] then [] else [''ORDER BY '' @ join_with '', '' order_by]) @
        (case fr of None \<Rightarrow> []
         | Some k \<Rightarrow> [frame_name k @ '' BETWEEN UNBOUNDED PRECEDING AND UNBOUNDED FOLLOWING''])
      in win_name f @ ''('' @ argument @ '') OVER ('' @ join_with '' '' clauses @ '')'')"

fun expr_sql :: "spelling \<Rightarrow> expr \<Rightarrow> render_error + string" where
  "expr_sql sp (ColumnRef n t a) = Inr (column_sql n a)"
| "expr_sql sp (IntLiteral v) = Inr (str_int v)"
| "expr_sql sp (BooleanLiteral v) = Inr (if v then ''TRUE'' else ''FALSE'')"
| "expr_sql sp (RawExpr s t) = Inr s"
| "expr_sql sp (TypedNull t) =
     ebind (type_sql sp t) (\<lambda>ty. Inr (''CAST(NULL AS '' @ ty @ '')''))"
| "expr_sql sp (GeneratedPredicate v) = Inr (''('' @ v @ '')'')"
| "expr_sql sp (Comparison op l r) =
     ebind (expr_sql sp l) (\<lambda>a. ebind (expr_sql sp r) (\<lambda>b.
       Inr (bracket l a @ '' '' @ op @ '' '' @ bracket r b)))"
| "expr_sql sp (BoolOp op l r) =
     ebind (expr_sql sp l) (\<lambda>a. ebind (expr_sql sp r) (\<lambda>b.
       Inr (bracket l a @ '' '' @ op @ '' '' @ bracket r b)))"
| "expr_sql sp (NotE e) = ebind (expr_sql sp e) (\<lambda>a. Inr (''NOT '' @ bracket e a))"
| "expr_sql sp (IsNull e negated) =
     ebind (expr_sql sp e) (\<lambda>a.
       Inr (bracket e a @ '' IS '' @ (if negated then ''NOT '' else '''') @ ''NULL''))"
| "expr_sql sp (Mod e n) = ebind (expr_sql sp e) (\<lambda>a. Inr (mod_sql sp a n))"
| "expr_sql sp (Case c t e ty) =
     ebind (expr_sql sp c) (\<lambda>a. ebind (expr_sql sp t) (\<lambda>b. ebind (expr_sql sp e) (\<lambda>d.
       Inr (''CASE WHEN '' @ a @ '' THEN '' @ b @ '' ELSE '' @ d @ '' END''))))"
| "expr_sql sp (AggregateCall f a ty) = ebind (expr_sql sp a) (\<lambda>s. Inr (aggregate_sql sp f s))"
| "expr_sql sp (ValueCodecRoundTrip c a ty) = ebind (expr_sql sp a) (\<lambda>s. value_codec_sql sp c s)"
| "expr_sql sp (WindowCall f None p ob fr ty) =
     ebind (esequence (map (expr_sql sp) p)) (\<lambda>ps. ebind (esequence (map (expr_sql sp) ob)) (\<lambda>os.
       Inr (window_sql f '''' ps os fr)))"
| "expr_sql sp (WindowCall f (Some a) p ob fr ty) =
     ebind (expr_sql sp a) (\<lambda>s.
     ebind (esequence (map (expr_sql sp) p)) (\<lambda>ps. ebind (esequence (map (expr_sql sp) ob)) (\<lambda>os.
       Inr (window_sql f s ps os fr))))"

definition operand_sql :: "spelling \<Rightarrow> expr \<Rightarrow> render_error + string" where
  "operand_sql sp e = ebind (expr_sql sp e) (\<lambda>s. Inr (bracket e s))"


section \<open>The shipped spellings\<close>

definition base_mod_sql :: "string \<Rightarrow> int \<Rightarrow> string" where
  "base_mod_sql operand modulus = ''MOD('' @ operand @ '', '' @ str_int modulus @ '')''"

definition base_aggregate_sql :: "aggregate_function \<Rightarrow> string \<Rightarrow> string" where
  "base_aggregate_sql f argument = agg_name f @ ''('' @ argument @ '')''"

definition postgres_value_codec_sql :: "value_codec \<Rightarrow> string \<Rightarrow> render_error + string" where
  "postgres_value_codec_sql codec inner =
     (if codec = JSON_PACK
      then Inr (''(jsonb_build_object('' @ quoted ''v'' @ '', '' @ inner @ '') ->> '' @ quoted ''v'' @ '')'')
      else let fmt = (if codec = HEX then ''hex'' else ''base64'')
           in Inr (''convert_from(decode(encode(CAST('' @ inner @ '' AS BYTEA), '' @ quoted fmt @ ''), ''
                   @ quoted fmt @ ''), '' @ quoted ''UTF8'' @ '')''))"

definition with_params :: "string \<Rightarrow> int option \<Rightarrow> int option \<Rightarrow> string" where
  "with_params name p s =
     (case p of None \<Rightarrow> name
      | Some n \<Rightarrow> (case s of None \<Rightarrow> name @ ''('' @ str_int n @ '')''
                   | Some m \<Rightarrow> name @ ''('' @ str_int n @ '', '' @ str_int m @ '')''))"

definition postgres_type_sql :: "sql_type \<Rightarrow> render_error + string" where
  "postgres_type_sql t =
     (case kind_of t of
        INTEGER \<Rightarrow> Inr ''INTEGER''
      | DOUBLE \<Rightarrow> Inr ''DOUBLE PRECISION''
      | NUMERIC \<Rightarrow> Inr (with_params ''NUMERIC'' (get_precision t) (get_scale t))
      | TEXT \<Rightarrow> Inr ''TEXT''
      | CHAR_T \<Rightarrow> Inr (with_params ''CHAR'' (get_precision t) None)
      | VARCHAR \<Rightarrow> Inr (with_params ''VARCHAR'' (get_precision t) None)
      | BOOLEAN \<Rightarrow> Inr ''BOOLEAN''
      | DATE \<Rightarrow> Inr ''DATE''
      | TIMESTAMP \<Rightarrow> Inr ''TIMESTAMP''
      | JSONB \<Rightarrow> Inr ''JSONB''
      | UUID \<Rightarrow> Inr ''UUID''
      | INT4RANGE \<Rightarrow> Inr ''INT4RANGE'')"

definition postgres_spelling :: spelling where
  "postgres_spelling = \<lparr>type_sql = postgres_type_sql, mod_sql = base_mod_sql,
     aggregate_sql = base_aggregate_sql, value_codec_sql = postgres_value_codec_sql\<rparr>"

definition duckdb_type :: "sql_type \<Rightarrow> render_error + string" where
  "duckdb_type t =
     (case kind_of t of
        DOUBLE \<Rightarrow> Inr ''DOUBLE''
      | INTEGER \<Rightarrow> Inr ''BIGINT''
      | NUMERIC \<Rightarrow>
          (case get_precision t of
             None \<Rightarrow> if get_scale t \<in> {None, Some 0} then Inr ''BIGINT'' else Inr ''DECIMAL''
           | Some p \<Rightarrow> Inr (with_params ''DECIMAL'' (Some p)
                             (Some (case get_scale t of None \<Rightarrow> 0 | Some s \<Rightarrow> s))))
      | BOOLEAN \<Rightarrow> Inr ''BOOLEAN''
      | DATE \<Rightarrow> Inr ''DATE''
      | TIMESTAMP \<Rightarrow> Inr ''TIMESTAMP''
      | TEXT \<Rightarrow> Inr ''VARCHAR''
      | CHAR_T \<Rightarrow> Inr ''VARCHAR''
      | VARCHAR \<Rightarrow> Inr ''VARCHAR''
      | k \<Rightarrow> Inl (UnsupportedForDialect (''no DuckDB type name for '' @ kind_name k)))"

definition duckdb_value_codec_sql :: "value_codec \<Rightarrow> string \<Rightarrow> render_error + string" where
  "duckdb_value_codec_sql codec inner =
     (if codec = JSON_PACK
      then Inr (''json_extract_string(json_object('' @ quoted ''v'' @ '', '' @ inner @ ''), '' @ quoted ''$.v'' @ '')'')
      else let wrap = (if codec = HEX then ''hex'' else ''to_base64'');
               unwrap = (if codec = HEX then ''unhex'' else ''from_base64'')
           in Inr (''decode('' @ unwrap @ ''('' @ wrap @ ''(encode('' @ inner @ ''))))''))"

definition duckdb_spelling :: spelling where
  "duckdb_spelling = postgres_spelling\<lparr>type_sql := duckdb_type, value_codec_sql := duckdb_value_codec_sql\<rparr>"

text \<open>\<open>precision or d\<close>: an absent precision, and a precision of 0, give the default \<open>d\<close>.\<close>

definition precision_or :: "sql_type \<Rightarrow> int \<Rightarrow> int" where
  "precision_or t d = (case get_precision t of None \<Rightarrow> d | Some p \<Rightarrow> if p = 0 then d else p)"

definition mysql_cast_type :: "sql_type \<Rightarrow> string" where
  "mysql_cast_type t =
     (case kind_of t of
        BOOLEAN \<Rightarrow> ''SIGNED''
      | DOUBLE \<Rightarrow> ''DOUBLE''
      | INTEGER \<Rightarrow> ''SIGNED''
      | NUMERIC \<Rightarrow> if get_scale t \<in> {None, Some 0} then ''SIGNED''
                   else with_params ''DECIMAL'' (Some (precision_or t 38)) (get_scale t)
      | DATE \<Rightarrow> ''DATE''
      | TIMESTAMP \<Rightarrow> ''DATETIME(6)''
      | k \<Rightarrow> ''CHAR(255)'')"

definition mysql_value_codec_sql :: "value_codec \<Rightarrow> string \<Rightarrow> render_error + string" where
  "mysql_value_codec_sql codec inner =
     (if codec = JSON_PACK
      then Inr (''JSON_UNQUOTE(JSON_EXTRACT(JSON_OBJECT('' @ quoted ''v'' @ '', '' @ inner @ ''), ''
                @ quoted ''$.v'' @ ''))'')
      else let wrap = (if codec = HEX then ''HEX'' else ''TO_BASE64'');
               unwrap = (if codec = HEX then ''UNHEX'' else ''FROM_BASE64'')
           in Inr (''CAST('' @ unwrap @ ''('' @ wrap @ ''('' @ inner @ '')) AS CHAR)''))"

definition mysql_spelling :: spelling where
  "mysql_spelling = postgres_spelling\<lparr>type_sql := (\<lambda>t. Inr (mysql_cast_type t)),
     value_codec_sql := mysql_value_codec_sql\<rparr>"

definition clickhouse_unwrapped_type :: "sql_type \<Rightarrow> string" where
  "clickhouse_unwrapped_type t =
     (case kind_of t of
        DOUBLE \<Rightarrow> ''Float64''
      | INTEGER \<Rightarrow> ''Int64''
      | NUMERIC \<Rightarrow> if get_scale t \<in> {None, Some 0} then ''Int64''
                   else with_params ''Decimal'' (Some (precision_or t 18)) (get_scale t)
      | BOOLEAN \<Rightarrow> ''Bool''
      | DATE \<Rightarrow> ''Date32''
      | TIMESTAMP \<Rightarrow> ''DateTime64(6)''
      | k \<Rightarrow> ''String'')"

definition clickhouse_type :: "sql_type \<Rightarrow> string" where
  "clickhouse_type t = ''Nullable('' @ clickhouse_unwrapped_type t @ '')''"

definition clickhouse_value_codec_sql :: "value_codec \<Rightarrow> string \<Rightarrow> render_error + string" where
  "clickhouse_value_codec_sql codec inner =
     (if codec = JSON_PACK
      then Inr (''JSONExtractString(toJSONString(map('' @ quoted ''v'' @ '', '' @ inner @ '')), ''
                @ quoted ''v'' @ '')'')
      else if codec = HEX then Inr (''unhex(hex('' @ inner @ ''))'')
      else Inr (''base64Decode(base64Encode('' @ inner @ ''))''))"

definition clickhouse_spelling :: spelling where
  "clickhouse_spelling = postgres_spelling\<lparr>type_sql := (\<lambda>t. Inr (clickhouse_type t)),
     value_codec_sql := clickhouse_value_codec_sql\<rparr>"

definition cratedb_type :: "sql_type \<Rightarrow> string" where
  "cratedb_type t =
     (if kind_of t = DOUBLE then ''DOUBLE PRECISION''
      else if is_numeric t then
        (if get_scale t \<in> {None, Some 0} then ''BIGINT''
         else with_params ''NUMERIC'' (Some (precision_or t 18)) (get_scale t))
      else if kind_of t = BOOLEAN then ''BOOLEAN''
      else if kind_of t = DATE then ''TIMESTAMP WITHOUT TIME ZONE''
      else if kind_of t = TIMESTAMP then ''TIMESTAMP WITHOUT TIME ZONE''
      else if kind_of t = INTEGER then ''BIGINT''
      else ''TEXT'')"

definition crate_spelling :: spelling where
  "crate_spelling = postgres_spelling\<lparr>type_sql := (\<lambda>t. Inr (cratedb_type t))\<rparr>"

definition sqlite_type :: "sql_type \<Rightarrow> string" where
  "sqlite_type t =
     (if kind_of t = INTEGER \<or> kind_of t = BOOLEAN then ''INTEGER''
      else if kind_of t = DOUBLE then ''REAL''
      else if is_numeric t then ''NUMERIC''
      else ''TEXT'')"

definition sqlite_value_codec_sql :: "value_codec \<Rightarrow> string \<Rightarrow> render_error + string" where
  "sqlite_value_codec_sql codec inner =
     (if codec = JSON_PACK
      then Inr (''json_extract(json_object('' @ quoted ''v'' @ '', '' @ inner @ ''), '' @ quoted ''$.v'' @ '')'')
      else if codec = HEX then Inr (''CAST(unhex(hex('' @ inner @ '')) AS TEXT)'')
      else Inl (UnsupportedForDialect (''SQLite has no '' @ codec_name codec @ '' codec'')))"

definition sqlite_mod_sql :: "string \<Rightarrow> int \<Rightarrow> string" where
  "sqlite_mod_sql operand modulus = ''(('' @ operand @ '') % '' @ str_int modulus @ '')''"

definition sqlite_aggregate_sql :: "aggregate_function \<Rightarrow> string \<Rightarrow> string" where
  "sqlite_aggregate_sql f argument =
     (if f = AggANY_VALUE then ''MAX('' @ argument @ '')'' else base_aggregate_sql f argument)"

definition sqlite_spelling :: spelling where
  "sqlite_spelling = postgres_spelling\<lparr>type_sql := (\<lambda>t. Inr (sqlite_type t)),
     mod_sql := sqlite_mod_sql, aggregate_sql := sqlite_aggregate_sql,
     value_codec_sql := sqlite_value_codec_sql\<rparr>"

definition shipped_spellings :: "spelling list" where
  "shipped_spellings = [postgres_spelling, duckdb_spelling, mysql_spelling, clickhouse_spelling,
     crate_spelling, sqlite_spelling]"

lemmas spelling_defs =
  postgres_spelling_def duckdb_spelling_def mysql_spelling_def clickhouse_spelling_def
  crate_spelling_def sqlite_spelling_def

end
