(* ===== verification/Coa_Emitter.thy ===== *)
theory Coa_Emitter
  imports Coa_Render Coa_Ast
begin

text \<open>
  \<open>eqgen/equivalence/emitter.py\<close>: the statements that build a tree.  \<open>render_query\<close> is
  \<open>QueryRenderer\<close>, one equation per \<open>visit\<close> method; \<open>emit_step\<close> is \<open>SqlEmitter\<close>; \<open>walk\<close> is the
  local function of \<open>emit_equivalence\<close>, with the set \<open>seen\<close> and the statement list threaded.
  Text is built in the order the source builds it, so the error returned is the first one raised.
\<close>


section \<open>Errors\<close>

text \<open>
  \<open>UnsupportedForDialect\<close>, the \<open>ValueError\<close> of a join without a condition, the \<open>TypeError\<close> of a
  reference to a query, the \<open>AttributeError\<close> of rendering something that is not a query, and the \<open>ValueError\<close> of
  a dialect that lowers \<open>QUALIFY\<close> and finds no projection.
\<close>

datatype emit_error = RenderFailed render_error | JoinWithoutCondition | NoReference | NotAQuery | NeedsProjection

type_synonym 'a emit = "emit_error + 'a"

definition sql_of :: "spelling \<Rightarrow> expr \<Rightarrow> string emit" where
  "sql_of sp e = (case expr_sql sp e of Inl x \<Rightarrow> Inl (RenderFailed x) | Inr s \<Rightarrow> Inr s)"

definition ref_of :: "eqnode \<Rightarrow> string emit" where
  "ref_of n = (case ref_sql n of None \<Rightarrow> Inl NoReference | Some s \<Rightarrow> Inr s)"


section \<open>Queries\<close>

definition projection_sql :: "spelling \<Rightarrow> proj_item \<Rightarrow> string emit" where
  "projection_sql sp it =
     ebind (sql_of sp (pi_expr it)) (\<lambda>rendered.
     Inr (if rendered = pi_alias it then rendered else rendered @ '' AS '' @ pi_alias it))"

text \<open>An optional clause: nothing, or the keyword and the rendered expression.\<close>

definition clause_sql :: "spelling \<Rightarrow> string \<Rightarrow> expr option \<Rightarrow> string emit" where
  "clause_sql sp keyword e =
     (case e of None \<Rightarrow> Inr '''' | Some x \<Rightarrow> ebind (sql_of sp x) (\<lambda>s. Inr (keyword @ s)))"

definition list_sql :: "('a \<Rightarrow> string emit) \<Rightarrow> 'a list \<Rightarrow> string emit" where
  "list_sql f xs = ebind (esequence (map f xs)) (\<lambda>ss. Inr (join_with '', '' ss))"

definition star_from :: "eqnode \<Rightarrow> string emit" where
  "star_from n = ebind (ref_of n) (\<lambda>r. Inr (''SELECT * FROM '' @ r))"

definition select_sql ::
  "spelling \<Rightarrow> eqnode \<Rightarrow> proj_item list option \<Rightarrow> expr option \<Rightarrow> bool \<Rightarrow> expr list option \<Rightarrow> expr option
     \<Rightarrow> expr list option \<Rightarrow> string emit" where
  "select_sql sp source projection predicate is_distinct group_by qualify order_by =
     ebind (clause_sql sp '' WHERE '' predicate) (\<lambda>where_clause.
     ebind (case projection of None \<Rightarrow> Inr ''*'' | Some items \<Rightarrow> list_sql (projection_sql sp) items) (\<lambda>select_list.
     ebind (case group_by of None \<Rightarrow> Inr ''''
            | Some keys \<Rightarrow> ebind (list_sql (sql_of sp) keys) (\<lambda>s. Inr ('' GROUP BY '' @ s))) (\<lambda>group_clause.
     ebind (clause_sql sp '' QUALIFY '' qualify) (\<lambda>qualify_clause.
     ebind (ref_of source) (\<lambda>from.
     let body = ''SELECT '' @ (if is_distinct then ''DISTINCT '' else '''') @ select_list @ '' FROM '' @ from
                @ where_clause @ group_clause @ qualify_clause
     in case order_by of
          None \<Rightarrow> Inr body
        | Some keys \<Rightarrow> ebind (list_sql (sql_of sp) keys) (\<lambda>order.
            Inr (''SELECT '' @ (if projection = None then ''*'' else select_list)
                 @ '' FROM ('' @ body @ '' ORDER BY '' @ order @ '') AS eq_ord'')))))))"

definition cte_hint :: "bool option \<Rightarrow> string" where
  "cte_hint materialize =
     (case materialize of Some True \<Rightarrow> '' MATERIALIZED'' | Some False \<Rightarrow> '' NOT MATERIALIZED'' | None \<Rightarrow> '''')"

definition upper_char :: "char \<Rightarrow> char" where
  "upper_char c = (let k = of_char c :: nat in if 97 \<le> k \<and> k \<le> 122 then char_of (k - 32) else c)"

definition join_sql ::
  "spelling \<Rightarrow> eqnode \<Rightarrow> eqnode \<Rightarrow> expr option \<Rightarrow> string \<Rightarrow> proj_item list \<Rightarrow> string \<Rightarrow> string \<Rightarrow> expr option
     \<Rightarrow> string emit" where
  "join_sql sp left right condition join_type projection left_alias right_alias predicate =
     ebind (list_sql (projection_sql sp) projection) (\<lambda>select_list.
     ebind (clause_sql sp '' WHERE '' predicate) (\<lambda>where_clause.
     ebind (if map upper_char join_type = ''CROSS'' then Inr ''''
            else if condition = None then Inl JoinWithoutCondition
            else clause_sql sp '' ON '' condition) (\<lambda>on.
     ebind (ref_of left) (\<lambda>l. ebind (ref_of right) (\<lambda>r.
     Inr (''SELECT '' @ select_list @ '' FROM '' @ l @ '' '' @ left_alias @ '' '' @ join_type @ '' JOIN ''
          @ r @ '' '' @ right_alias @ on @ where_clause))))))"

definition lateral_sql :: "eqnode \<Rightarrow> string \<Rightarrow> string \<Rightarrow> string emit" where
  "lateral_sql source inner outer =
     (let names = map fst (get_signature source);
          columns = (\<lambda>alias. join_with '', '' (map (\<lambda>nm. alias @ ''.'' @ nm @ '' AS '' @ nm) names))
      in ebind (ref_of source) (\<lambda>r.
         Inr (''SELECT '' @ columns outer @ '' FROM '' @ r @ '' '' @ inner @ '', LATERAL (SELECT ''
              @ columns inner @ '') AS '' @ outer)))"

definition cte_sql :: "spelling \<Rightarrow> eqnode \<Rightarrow> string \<Rightarrow> expr option \<Rightarrow> bool option \<Rightarrow> string emit" where
  "cte_sql sp source nm predicate materialize =
     ebind (clause_sql sp '' WHERE '' predicate) (\<lambda>where_clause.
     ebind (star_from source) (\<lambda>body.
     Inr (''WITH '' @ nm @ '' AS'' @ cte_hint materialize @ '' ('' @ body @ where_clause @ '') SELECT * FROM '' @ nm)))"

fun render_query :: "spelling \<Rightarrow> eqnode \<Rightarrow> string emit" where
  "render_query sp (SelectQuery i s p w d g q ob) = select_sql sp s p w d g q ob"
| "render_query sp (UnionAllQuery i bs) =
     ebind (esequence (map star_from bs)) (\<lambda>ss. Inr (join_with '' UNION ALL '' ss))"
| "render_query sp (ExceptAllQuery i l r) =
     ebind (star_from l) (\<lambda>a. ebind (star_from r) (\<lambda>b. Inr (a @ '' EXCEPT ALL '' @ b)))"
| "render_query sp (IntersectAllQuery i l r) =
     ebind (star_from l) (\<lambda>a. ebind (star_from r) (\<lambda>b. Inr (a @ '' INTERSECT ALL '' @ b)))"
| "render_query sp (CteQuery i s nm w m) = cte_sql sp s nm w m"
| "render_query sp (LateralReprojectQuery i s sa la) = lateral_sql s sa la"
| "render_query sp (JoinQuery i l r c j p la ra w) = join_sql sp l r c j p la ra w"
| "render_query sp n = Inl NotAQuery"


section \<open>Setup steps\<close>

definition create_as_select :: "spelling \<Rightarrow> string \<Rightarrow> string \<Rightarrow> eqnode option \<Rightarrow> string \<Rightarrow> string emit" where
  "create_as_select sp nm keyword query definition_sql =
     ebind (case query of Some q \<Rightarrow> render_query sp q | None \<Rightarrow> Inr definition_sql) (\<lambda>body.
     Inr (''CREATE '' @ keyword @ '' '' @ nm @ '' AS '' @ body))"

fun emit_step :: "spelling \<Rightarrow> setup_step \<Rightarrow> string list emit" where
  "emit_step sp (TableObject nm k q d) = ebind (create_as_select sp nm k q d) (\<lambda>s. Inr [s])"
| "emit_step sp (ViewObject nm k q d) = ebind (create_as_select sp nm k q d) (\<lambda>s. Inr [s])"
| "emit_step sp (DeleteStep target p) =
     ebind (clause_sql sp '' WHERE '' p) (\<lambda>w. Inr [''DELETE FROM '' @ target @ w])"
| "emit_step sp (InsertStep target columns source_ref p column_list query) =
     (case query of
        Some q \<Rightarrow> ebind (render_query sp q) (\<lambda>s. Inr [''INSERT INTO '' @ target @ '' '' @ s])
      | None \<Rightarrow>
          let into = (case column_list of None \<Rightarrow> target | Some cl \<Rightarrow> target @ '' ('' @ join_with '', '' cl @ '')'')
          in ebind (clause_sql sp '' WHERE '' p) (\<lambda>w.
             Inr [''INSERT INTO '' @ into @ '' SELECT '' @ join_with '', '' columns @ '' FROM '' @ source_ref @ w]))"
| "emit_step sp (UpdateStep target assignments p) =
     ebind (list_sql (\<lambda>(column, e). ebind (sql_of sp e) (\<lambda>s. Inr (column @ '' = '' @ s))) assignments) (\<lambda>sets.
     ebind (clause_sql sp '' WHERE '' p) (\<lambda>w. Inr [''UPDATE '' @ target @ '' SET '' @ sets @ w]))"

definition emit_steps :: "spelling \<Rightarrow> setup_step list \<Rightarrow> string list emit" where
  "emit_steps sp steps = ebind (esequence (map (emit_step sp) steps)) (\<lambda>ss. Inr (concat ss))"

text \<open>\<open>isinstance(node, EquivalentRelation)\<close>: the other nodes carry no steps.\<close>

definition node_statements :: "spelling \<Rightarrow> eqnode \<Rightarrow> string list emit" where
  "node_statements sp n = (if is_relation n then emit_steps sp (steps_of n) else Inr [])"


section \<open>emit\_equivalence\<close>

fun efold :: "('a \<Rightarrow> 's \<Rightarrow> 'e + 's) \<Rightarrow> 'a list \<Rightarrow> 's \<Rightarrow> 'e + 's" where
  "efold f [] s = Inr s"
| "efold f (x # xs) s = ebind (f x s) (efold f xs)"

lemma efold_cong [fundef_cong]:
  "xs = ys \<Longrightarrow> s = t \<Longrightarrow> (\<And>x u. x \<in> set ys \<Longrightarrow> f x u = g x u) \<Longrightarrow> efold f xs s = efold g ys t"
proof (induction xs arbitrary: ys s t)
  case (Cons x xs)
  then show ?case by (cases "g x t") auto
qed auto

function walk :: "spelling \<Rightarrow> eqnode \<Rightarrow> nat set \<times> string list \<Rightarrow> (nat set \<times> string list) emit" where
  "walk sp n (seen, statements) =
     (if node_id n \<in> seen then Inr (seen, statements)
      else ebind (efold (walk sp) (children n) (insert (node_id n) seen, statements)) (\<lambda>(seen', statements').
           ebind (node_statements sp n) (\<lambda>own. Inr (seen', statements' @ own))))"
  by pat_completeness auto
termination
  by (relation "measure (\<lambda>(sp, n, st). size n)") (auto dest: children_size)

declare walk.simps [simp del]

definition emit_equivalence :: "spelling \<Rightarrow> eqnode \<Rightarrow> string list emit" where
  "emit_equivalence sp root = ebind (walk sp root ({}, [])) (\<lambda>(seen, statements). Inr statements)"

end
