(* ===== verification/Coa_Generator.thy ===== *)
theory Coa_Generator
  imports Coa_Framework Coa_Emitter
begin

text \<open>
  \<open>eqgen/equivalence/generator.py\<close>: one run of the factory for a named relation, emitted.

  A call of \<open>generate\<close> works on the state the process is in: it reseeds the random streams when a seed
  is given, and opens a new context (depth and budgets at zero, a new counter of predicate origins, the
  caller's names or none), then asks the factory for a relation exposed under the root name.
\<close>


section \<open>generate\<close>

datatype generate_error = BuildFailed gen_error | NothingBuilt | EmitFailed emit_error | NoExposedNames

record generated =
  gd_root :: eqnode
  gd_statements :: "string list"

text \<open>What a run is made with: the registered builders, the seeding of \<open>random\<close>, the spelling.\<close>

record generator =
  gr_builders :: "builder list"
  gr_seed :: "nat \<Rightarrow> rng"
  gr_spelling :: spelling

definition open_context :: "rng option \<Rightarrow> string counter option \<Rightarrow> gen_state \<Rightarrow> gen_state" where
  "open_context reseeded names s =
     s\<lparr>counters := (case names of None \<Rightarrow> [] | Some c \<Rightarrow> c), depth := 0, node_total := 0, nodes_attempted := 0,
       stream := (case reseeded of None \<Rightarrow> stream s | Some r \<Rightarrow> r),
       position := (case reseeded of None \<Rightarrow> position s | Some r \<Rightarrow> 0),
       predicate_origin := [], chosen := []\<rparr>"

definition root_name :: "context_env \<Rightarrow> string option \<Rightarrow> string" where
  "root_name env given = (case given of Some nm \<Rightarrow> nm | None \<Rightarrow> tab_name (base_table env))"

definition build_root ::
  "generator \<Rightarrow> nat \<Rightarrow> context_env \<Rightarrow> nat option \<Rightarrow> string option \<Rightarrow> string counter option \<Rightarrow> gen_state
     \<Rightarrow> generate_error + (eqnode \<times> gen_state)" where
  "build_root g fuel env seed given names s =
     (case build_subtree (gr_builders g) fuel env WantRelation [ExposedNameConstraint (root_name env given)]
             (open_context (map_option (gr_seed g) seed) names s) of
        Inl e \<Rightarrow> Inl (BuildFailed e)
      | Inr (None, s') \<Rightarrow> Inl NothingBuilt
      | Inr (Some built, s') \<Rightarrow> Inr (built, s'))"

definition generate ::
  "generator \<Rightarrow> nat \<Rightarrow> context_env \<Rightarrow> nat option \<Rightarrow> string option \<Rightarrow> string counter option \<Rightarrow> gen_state
     \<Rightarrow> generate_error + (generated \<times> gen_state)" where
  "generate g fuel env seed given names s =
     ebind (build_root g fuel env seed given names s) (\<lambda>(built, s').
     case emit_equivalence (gr_spelling g) built of
       Inl e \<Rightarrow> Inl (EmitFailed e)
     | Inr statements \<Rightarrow> Inr (\<lparr>gd_root = built, gd_statements = statements\<rparr>, s'))"

definition exposed_of_generated :: "generated \<Rightarrow> string option" where
  "exposed_of_generated x = materialized_name (gd_root x)"


section \<open>generate\_forks\<close>

definition add_counts :: "string counter \<Rightarrow> string counter \<Rightarrow> string counter" where
  "add_counts counts other = fold (\<lambda>(k, n) acc. (bump_count k ^^ n) acc) other counts"

record forks =
  fk_forks :: "generated list"
  fk_builders :: "string counter"
  fk_origins :: "string counter"

text \<open>Fork \<open>i\<close> uses seed \<open>seed + i\<close>; the counters of names go from one fork to the next.\<close>

fun fork_from ::
  "generator \<Rightarrow> nat \<Rightarrow> context_env \<Rightarrow> nat \<Rightarrow> string counter \<Rightarrow> string list \<Rightarrow> gen_state
     \<Rightarrow> generate_error + (forks \<times> gen_state)" where
  "fork_from g fuel env seed names [] s = Inr (\<lparr>fk_forks = [], fk_builders = [], fk_origins = []\<rparr>, s)"
| "fork_from g fuel env seed names (exposed # rest) s =
     ebind (generate g fuel env (Some seed) (Some exposed) (Some names) s) (\<lambda>(eq, s').
     ebind (fork_from g fuel env (Suc seed) (counters s') rest s') (\<lambda>(fk, s'').
     Inr (\<lparr>fk_forks = eq # fk_forks fk, fk_builders = add_counts (chosen s') (fk_builders fk),
           fk_origins = add_counts (predicate_origin s') (fk_origins fk)\<rparr>, s'')))"

definition generate_forks ::
  "generator \<Rightarrow> nat \<Rightarrow> context_env \<Rightarrow> nat \<Rightarrow> string list \<Rightarrow> gen_state \<Rightarrow> generate_error + (forks \<times> gen_state)" where
  "generate_forks g fuel env seed names s =
     (if names = [] then Inl NoExposedNames else fork_from g fuel env seed [] names s)"

definition forks_statements :: "forks \<Rightarrow> string list" where
  "forks_statements fk = concat (map gd_statements (fk_forks fk))"

lemma open_depth [simp]: "depth (open_context r names s) = 0" "node_total (open_context r names s) = 0"
  by (simp_all add: open_context_def)

end
