(* ===== verification/Coa_Generator_Sound.thy ===== *)
theory Coa_Generator_Sound
  imports Coa_Sound Coa_Generator
begin

text \<open>
  What \<open>generate\<close> and \<open>generate_forks\<close> promise: the rows of the base table under the requested name,
  and which errors are left.  Rests on the interpretation \<open>factory\<close>.
\<close>


section \<open>Soundness\<close>

text \<open>Holding the same rows as the base table, whatever the engine and whatever the rows.\<close>

definition row_equivalent :: "table \<Rightarrow> eqnode \<Rightarrow> bool" where
  "row_equivalent t n \<longleftrightarrow>
     get_signature n = table_signature t \<and>
     (\<forall>E B path. engine_ok E \<longrightarrow> base_rows_ok t B \<longrightarrow> (\<exists>rows. den E B path n = Some rows \<and> mset rows = mset B))"

lemma exposed_request:
  "nm \<noteq> [] \<Longrightarrow> request_ok t [ExposedNameConstraint nm]"
  "current_filter [ExposedNameConstraint nm] = None" "exposed_name [ExposedNameConstraint nm] = Some nm"
  "no_channel [ExposedNameConstraint nm]" "column_rewrite [ExposedNameConstraint nm] = None"
  by (simp_all add: request_ok_def constraint_types_def payload_defs get_optional_constraint_def no_channel_def)

lemma root_spec:
  assumes "env_ok env" "root_name env given \<noteq> []"
  shows "gspec 0 (run_error 0 fuel env) (build_subtree PORTABLE_BUILDERS fuel env WantRelation [ExposedNameConstraint (root_name env given)])
    (\<lambda>r. \<forall>n. r = Some n \<longrightarrow> row_equivalent (base_table env) n \<and> materialized_name n = Some (root_name env given))"
proof (rule gspec_weaken [OF factory.served [OF assms(1) exposed_request(1) [OF assms(2)]]], intro allI impI)
  fix r n
  assume "\<forall>n. r = Some n \<longrightarrow> is_instance n WantRelation \<and> post (base_table env) [ExposedNameConstraint (root_name env given)] n"
    and "r = Some n"
  then have n: "is_relation n" "post (base_table env) [ExposedNameConstraint (root_name env given)] n" by simp_all
  then have "delivers (base_table env) [ExposedNameConstraint (root_name env given)] n"
    by - (rule post_delivers [OF _ exposed_request(4,5)])
  then have "row_equivalent (base_table env) n"
    by (simp add: row_equivalent_def delivers_def wanted_def exposed_request(2))
  with n show "row_equivalent (base_table env) n \<and> materialized_name n = Some (root_name env given)"
    by (simp add: post_def named_ok_def exposed_request(3))
qed

lemma build_root_cases:
  assumes "env_ok env" "root_name env given \<noteq> []" "gr_builders g = PORTABLE_BUILDERS"
  shows "case build_root g fuel env seed given names s of
      Inl e \<Rightarrow> e = NothingBuilt \<or> (\<exists>x. e = BuildFailed x \<and> run_error 0 fuel env x)
    | Inr (built, s') \<Rightarrow> row_equivalent (base_table env) built \<and> materialized_name built = Some (root_name env given)"
  using root_spec [OF assms(1,2), of fuel] assms(3)
  by (fastforce simp: gspec_def build_root_def split: sum.splits option.splits)

lemma generate_cases:
  assumes "env_ok env" "root_name env given \<noteq> []" "gr_builders g = PORTABLE_BUILDERS"
  shows "case generate g fuel env seed given names s of
      Inl e \<Rightarrow> e = NothingBuilt \<or> (\<exists>x. e = BuildFailed x \<and> run_error 0 fuel env x) \<or> (\<exists>x. e = EmitFailed x)
    | Inr (x, s') \<Rightarrow> row_equivalent (base_table env) (gd_root x) \<and> exposed_of_generated x = Some (root_name env given)"
  using build_root_cases [OF assms, of fuel seed names s]
  by (auto simp: generate_def ebind_def exposed_of_generated_def split: sum.splits prod.splits)

lemma fork_from_error: "fork_from g fuel env seed names exposed s = Inl e \<Longrightarrow> e \<noteq> NoExposedNames"
proof (induction exposed arbitrary: seed names s)
  case (Cons nm rest)
  have "generate g fuel env (Some seed) (Some nm) (Some names) s \<noteq> Inl NoExposedNames"
    by (auto simp: generate_def build_root_def ebind_def split: sum.splits option.splits prod.splits)
  with Cons show ?case by (auto simp: ebind_def split: sum.splits prod.splits)
qed simp

lemma fork_from_sound:
  assumes "env_ok env" "gr_builders g = PORTABLE_BUILDERS" "[] \<notin> set exposed"
    and "fork_from g fuel env seed names exposed s = Inr (fk, s')"
  shows "list_all2 (\<lambda>nm x. row_equivalent (base_table env) (gd_root x) \<and> exposed_of_generated x = Some nm) exposed (fk_forks fk)"
  using assms(3,4)
proof (induction exposed arbitrary: seed names s fk s')
  case (Cons nm rest)
  from Cons.prems(2) obtain x t fk' where x: "generate g fuel env (Some seed) (Some nm) (Some names) s = Inr (x, t)"
    and rest: "fork_from g fuel env (Suc seed) (counters t) rest t = Inr (fk', s')" and fk: "fk_forks fk = x # fk_forks fk'"
    by auto
  have "root_name env (Some nm) = nm" by (simp add: root_name_def)
  moreover have "nm \<noteq> []" using Cons.prems(1) by auto
  ultimately have "row_equivalent (base_table env) (gd_root x) \<and> exposed_of_generated x = Some nm"
    using generate_cases [OF assms(1) _ assms(2), where given = "Some nm" and seed = "Some seed" and names = "Some names" and s = s and fuel = fuel] x by simp
  with Cons.IH [OF _ rest] Cons.prems(1) fk show ?case by simp
qed simp

end
