(* ===== verification/Coa_Liveness.thy ===== *)
theory Coa_Liveness
  imports Coa_Generator_Sound
begin

text \<open>
  Generation does not fail by bad luck: the base table leaf and \<open>SELECT *\<close> under a view are always
  there.  \<open>yields P m\<close>: from every state in \<open>P\<close>, the step \<open>m\<close> raises or returns a node, never \<open>None\<close>.

  A builder that declines rolls the node count back, so the builders tried after it see the depth and
  the node count the dispatch started with; that is all the budget of this configuration looks at.
\<close>


section \<open>Steps that return a node\<close>

definition yields :: "(gen_state \<Rightarrow> bool) \<Rightarrow> 'a option gen \<Rightarrow> bool" where
  "yields P m \<longleftrightarrow> (\<forall>s. P s \<longrightarrow> (case m s of Inl e \<Rightarrow> True | Inr (r, s') \<Rightarrow> r \<noteq> None))"

abbreviation at_state :: "nat \<Rightarrow> nat \<Rightarrow> gen_state \<Rightarrow> bool" where
  "at_state d k s \<equiv> depth s = d \<and> node_total s = k"

lemma yields_some [intro]: "yields P (gsome m)"
  by (simp add: yields_def gsome_def gbind_def greturn_def split: sum.split prod.split)

lemma gspec_result: "gspec d E m Q \<Longrightarrow> depth s = d \<Longrightarrow> m s = Inr (a, t) \<Longrightarrow> depth t = d \<and> Q a"
  by (auto simp: gspec_def dest!: spec [of _ s])

text \<open>A step that leaves depth and node count as they are.\<close>

definition reads :: "'a gen \<Rightarrow> bool" where
  "reads m \<longleftrightarrow> (\<forall>s a s'. m s = Inr (a, s') \<longrightarrow> depth s' = depth s \<and> node_total s' = node_total s)"

lemma yields_bind:
  assumes "reads m" "\<And>a. yields (at_state d k) (f a)"
  shows "yields (at_state d k) (gbind m f)"
  unfolding yields_def
proof (intro allI impI)
  fix s :: gen_state
  assume s: "at_state d k s"
  show "case gbind m f s of Inl e \<Rightarrow> True | Inr (r, s') \<Rightarrow> r \<noteq> None"
  proof (cases "m s")
    case (Inr p)
    obtain a s' where p: "p = (a, s')" by (cases p)
    have "at_state d k s'" using assms(1) s Inr p by (auto simp: reads_def)
    with assms(2) [of a] Inr p show ?thesis by (simp add: yields_def gbind_def)
  qed (simp add: gbind_def)
qed

text \<open>The rest may rely on a node and nothing else.\<close>

lemma yields_obind:
  assumes "yields P m" "\<And>a. yields (\<lambda>_. True) (f a)"
  shows "yields P (obind m f)"
  unfolding yields_def
proof (intro allI impI)
  fix s :: gen_state
  assume s: "P s"
  show "case obind m f s of Inl e \<Rightarrow> True | Inr (r, s') \<Rightarrow> r \<noteq> None"
  proof (cases "m s")
    case (Inr p)
    obtain r t where p: "p = (r, t)" by (cases p)
    have "r \<noteq> None" using assms(1) s Inr p by (auto simp: yields_def)
    then obtain a where "r = Some a" by auto
    with assms(2) [of a] Inr p show ?thesis by (simp add: yields_def obind_def gbind_def)
  qed (simp add: obind_def gbind_def)
qed

lemma yields_return: "yields P (greturn (Some a))"
  by (simp add: yields_def greturn_def)

lemma yields_raise: "yields P (graise e)"
  by (simp add: yields_def graise_def)

lemma yields_weaken: "yields P m \<Longrightarrow> (\<And>s. Q s \<Longrightarrow> P s) \<Longrightarrow> yields Q m"
  by (simp add: yields_def)

lemma yields_assert: "yields P (gbind (gassert b) (\<lambda>_. greturn (Some n)))"
  by (simp add: gassert_def gbind_def greturn_def graise_def yields_def)

lemma reads_simps [simp]: "reads (gread f)" "reads (gassert b)" "reads (glift r)"
  by (simp_all add: reads_def gread_def gassert_def greturn_def graise_def glift_def split: sum.split)

lemma reads_bind: "reads m \<Longrightarrow> (\<And>a. reads (f a)) \<Longrightarrow> reads (gbind m f)"
  by (fastforce simp: reads_def gbind_def split: sum.splits prod.splits)

lemma reads_return [simp]: "reads (greturn a)" "reads (graise e)"
  by (simp_all add: reads_def greturn_def graise_def)

lemma reads_deadline: "reads (check_deadline env)"
  by (auto simp: check_deadline_def reads_def gbind_def gread_def gmodify_def greturn_def graise_def split: if_splits)

lemma reads_draw_keys: "reads (draw_keys xs)"
proof (induction xs rule: draw_keys.induct)
  case (2 x w xs)
  have "reads draw_exp" by (simp add: draw_exp_def reads_def gbind_def gread_def gmodify_def greturn_def)
  with 2 show ?case by (auto intro!: reads_bind)
qed simp

lemma reads_shuffle: "reads (weighted_shuffle xs w)"
  by (auto simp: weighted_shuffle_def Let_def intro!: reads_bind reads_draw_keys)


section \<open>The dispatch\<close>

lemma yields_run: "yields P (b_build b sub env cs) \<Longrightarrow> yields P (run_builder b sub env cs)"
  unfolding run_builder_def
  by (erule yields_obind) (auto simp: yields_def gbind_def gassert_def greturn_def graise_def)

text \<open>Every builder tried before the one that cannot decline leaves depth and node count as they were.\<close>

lemma yields_try:
  assumes "b \<in> set bs" "yields (at_state (Suc d) k) (run_builder b sub env cs)"
    and "\<And>b. b \<in> set bs \<Longrightarrow> gspec (Suc d) E (run_builder b sub env cs) (\<lambda>_. True)"
  shows "yields (at_state d k) (try_builders sub env cs bs)"
  using assms(1,3)
proof (induction bs)
  case (Cons c bs)
  show ?case
    unfolding yields_def
  proof (intro allI impI)
    fix s :: gen_state
    assume s: "at_state d k s"
    let ?s = "s\<lparr>depth := Suc (depth s)\<rparr>"
    have back_at: "depth t = Suc d" if "run_builder c sub env cs ?s = Inr (r, t)" for r t
      using gspec_result [OF Cons.prems(2) _ that] s by simp
    show "case try_builders sub env cs (c # bs) s of Inl e \<Rightarrow> True | Inr (r, s') \<Rightarrow> r \<noteq> None"
    proof (cases "run_builder c sub env cs ?s")
      case (Inl e)
      then show ?thesis by (simp add: gbind_def enter_builder_def gread_def gmodify_def greturn_def)
    next
      case (Inr p)
      obtain r t where p: "p = (r, t)" by (cases p)
      show ?thesis
      proof (cases r)
        case (Some n)
        with Inr p show ?thesis
          by (simp add: gbind_def enter_builder_def commit_builder_def gread_def gmodify_def greturn_def)
      next
        case None
        have "at_state (Suc d) k ?s" using s by simp
        with assms(2) have "case run_builder b sub env cs ?s of Inl e \<Rightarrow> True | Inr (r, s') \<Rightarrow> r \<noteq> None"
          unfolding yields_def by blast
        with Inr p None have "c \<noteq> b" by auto
        with Cons.IH Cons.prems have "yields (at_state d k) (try_builders sub env cs bs)" by simp
        moreover have "at_state d k (t\<lparr>depth := depth t - 1, node_total := node_total s\<rparr>)" using back_at Inr p s by simp
        ultimately show ?thesis using Inr p None
          by (simp add: yields_def gbind_def enter_builder_def abandon_builder_def gread_def gmodify_def greturn_def)
      qed
    qed
  qed
qed simp

lemma yields_dispatch:
  assumes "b \<in> set builders" "routes kind (set (constraint_types cs)) b" "0 < builder_weight (config env) d b"
    and "d < max_depth (config env)" "\<And>s. at_state d k s \<Longrightarrow> leaf_only (config env) s \<Longrightarrow> b_leaf b"
    and "yields (at_state (Suc d) k) (b_build b sub env cs)"
    and "\<And>b. b \<in> set builders \<Longrightarrow> routes kind (set (constraint_types cs)) b \<Longrightarrow> gspec (Suc d) E (run_builder b sub env cs) (\<lambda>_. True)"
  shows "yields (at_state d k) (dispatch builders sub env kind cs)"
  unfolding yields_def
proof (intro allI impI)
  fix s :: gen_state
  assume s: "at_state d k s"
  let ?bs = "filter (\<lambda>b. routes kind (set (constraint_types cs)) b \<and> (leaf_only (config env) s \<longrightarrow> b_leaf b)) builders"
  have b: "b \<in> set ?bs" using assms(1,2,5) s by auto
  then have eligible: "filter_builders builders (config env) kind cs s = Some ?bs"
    using s assms(4) by (auto simp: filter_builders_def Let_def filter_empty_conv)
  have "yields (at_state d k) (try_builders sub env cs ys)" if "mset ys = mset (filter (\<lambda>b. 0 < builder_weight (config env) d b) ?bs)" for ys
  proof (rule yields_try [where b = b])
    have "set ys = set (filter (\<lambda>b. 0 < builder_weight (config env) d b) ?bs)" using that by (rule mset_eq_setD)
    then show "b \<in> set ys" "\<And>b. b \<in> set ys \<Longrightarrow> gspec (Suc d) E (run_builder b sub env cs) (\<lambda>_. True)"
      using b assms(3,7) by auto
  qed (rule yields_run [OF assms(6)])
  note tried = this
  show "case dispatch builders sub env kind cs s of Inl e \<Rightarrow> True | Inr (r, s') \<Rightarrow> r \<noteq> None"
  proof (cases "weighted_shuffle ?bs (builder_weight (config env) d) s")
    case (Inl e)
    with eligible s show ?thesis by (simp add: dispatch_def gbind_def gread_def)
  next
    case (Inr p)
    obtain ys t where p: "p = (ys, t)" by (cases p)
    have "mset ys = mset (filter (\<lambda>b. 0 < builder_weight (config env) d b) ?bs)"
      using gspec_result [OF gspec_shuffle [where E = "\<lambda>_. True"], of s d ?bs "builder_weight (config env) d" ys t] s Inr p by simp
    from tried [OF this] have "yields (at_state d k) (try_builders sub env cs ys)" .
    moreover have "at_state d k t" using reads_shuffle [of ?bs "builder_weight (config env) d"] s Inr p by (auto simp: reads_def)
    ultimately show ?thesis using eligible s Inr p by (simp add: dispatch_def gbind_def gread_def yields_def)
  qed
qed

lemma yields_subtree:
  assumes "yields (at_state d k) (dispatch builders (build_subtree builders fuel env) env kind cs)"
  shows "yields (at_state d k) (build_subtree builders (Suc fuel) env kind cs)"
  unfolding build_subtree.simps
proof (rule yields_bind [OF reads_deadline])
  show "yields (at_state d k) (obind (dispatch builders (build_subtree builders fuel env) env kind cs)
      (\<lambda>n. gbind (gassert (is_instance n kind)) (\<lambda>_. greturn (Some n))))"
    by (rule yields_obind [OF assms yields_assert])
qed


section \<open>View, \<open>SELECT *\<close>, base table\<close>

abbreviation create_view_builder :: builder where
  "create_view_builder \<equiv> builder_of ''CreateViewBuilder'' (C_CreateFromQuery CreateView) [] read_only_supported (build_create CreateView)"

abbreviation select_star_builder :: builder where
  "select_star_builder \<equiv> builder_of ''SelectStarQueryBuilder'' C_SelectQuery [] [RowFilterC, SingleSourceC] build_select_star"

text \<open>Three levels, no budget on attempts, and the three builders enabled where they are needed.\<close>

definition always_builds :: "eq_config \<Rightarrow> bool" where
  "always_builds cfg \<longleftrightarrow>
     3 \<le> max_depth cfg \<and> max_attempts cfg = 0 \<and> 0 < builder_weight cfg 0 create_view_builder
     \<and> 0 < builder_weight cfg 1 select_star_builder \<and> 0 < builder_weight cfg 2 leaf_builder"

lemma portable_members: "create_view_builder \<in> set PORTABLE_BUILDERS" "select_star_builder \<in> set PORTABLE_BUILDERS" "leaf_builder \<in> set PORTABLE_BUILDERS"
  by (simp_all add: PORTABLE_BUILDERS_def create_builders_def query_builders_def)

lemma portable_yields:
  assumes "env_ok env" "request_ok (base_table env) cs" "b \<in> set PORTABLE_BUILDERS" "routes kind (set (constraint_types cs)) b"
    and "0 < builder_weight (config env) d b" "d < max_depth (config env)"
    and "\<And>s. at_state d k s \<Longrightarrow> leaf_only (config env) s \<Longrightarrow> b_leaf b"
    and "yields (at_state (Suc d) k) (b_build b (build_subtree PORTABLE_BUILDERS fuel env) env cs)"
  shows "yields (at_state d k) (build_subtree PORTABLE_BUILDERS (Suc fuel) env kind cs)"
proof (rule yields_subtree, rule yields_dispatch [OF assms(3-6)])
  show "gspec (Suc d) (run_error (Suc d) fuel env) (run_builder b (build_subtree PORTABLE_BUILDERS fuel env) env cs) (\<lambda>_. True)"
    if "b \<in> set PORTABLE_BUILDERS" "routes kind (set (constraint_types cs)) b" for b
    by (rule gspec_weaken [OF gspec_run [OF factory.portable_routed [OF assms(1,2) that]]]) simp
qed (use assms(7,8) in blast)+

lemma ask_empty: "make_constraint_set xs = Inr [] \<Longrightarrow> ask sub kind xs = sub kind []"
  by (simp add: ask_def glift_def gbind_def)

lemma not_leaf_only: "always_builds cfg \<Longrightarrow> d \<le> 1 \<Longrightarrow> at_state d 0 s \<Longrightarrow> \<not> leaf_only cfg s"
  by (auto simp: always_builds_def leaf_only_def)

lemma yields_source:
  assumes "always_builds (config env)" "env_ok env"
  shows "yields (at_state 2 k) (build_subtree PORTABLE_BUILDERS (Suc fuel) env WantSource [])"
proof (rule portable_yields [OF assms(2) request_Nil portable_members(3)])
  show "0 < builder_weight (config env) 2 leaf_builder" "2 < max_depth (config env)"
    using assms(1) by (simp_all add: always_builds_def)
  show "yields (at_state (Suc 2) k) (b_build leaf_builder (build_subtree PORTABLE_BUILDERS fuel env) env [])"
    by (auto simp: leaf_builder_def build_base_table_source_def)
qed (simp_all add: routes_def leaf_builder_def constraint_types_def query_class_def)

lemma yields_query:
  assumes "always_builds (config env)" "env_ok env"
  shows "yields (at_state 1 0) (build_subtree PORTABLE_BUILDERS (Suc (Suc fuel)) env WantQuery [])"
proof (rule portable_yields [OF assms(2) request_Nil portable_members(2)])
  show "0 < builder_weight (config env) 1 select_star_builder" "1 < max_depth (config env)"
    using assms(1) by (simp_all add: always_builds_def)
  have "dispatch_source sub (Some []) = sub WantSource []" for sub
    unfolding dispatch_source_def by (simp add: ask_empty get_optional_constraint_def)
  then show "yields (at_state (Suc 1) 0) (b_build select_star_builder (build_subtree PORTABLE_BUILDERS (Suc fuel) env) env [])"
    using yields_source [OF assms, of 0 fuel]
    by (auto simp: builder_of_def build_select_star_def numeral_2_eq_2 simp del: build_subtree.simps intro!: yields_obind)
qed (use not_leaf_only [OF assms(1), of 1] in \<open>simp_all add: routes_def builder_of_def constraint_types_def query_class_def\<close>)

lemma yields_relation:
  assumes "always_builds (config env)" "env_ok env" "nm \<noteq> []"
  shows "yields (at_state 0 0) (build_subtree PORTABLE_BUILDERS (Suc (Suc (Suc fuel))) env WantRelation [ExposedNameConstraint nm])"
proof (rule portable_yields [OF assms(2) exposed_request(1) [OF assms(3)] portable_members(1)])
  show "0 < builder_weight (config env) 0 create_view_builder" "0 < max_depth (config env)"
    using assms(1) by (simp_all add: always_builds_def)
  have "ask sub WantQuery (query_constraints [ExposedNameConstraint nm]) = sub WantQuery []" for sub
    by (rule ask_empty) (simp add: query_constraints_def get_optional_constraint_def make_constraint_set_def)
  then show "yields (at_state (Suc 0) 0) (b_build create_view_builder (build_subtree PORTABLE_BUILDERS (Suc (Suc fuel)) env) env [ExposedNameConstraint nm])"
    using yields_query [OF assms(1,2), of fuel]
    by (auto simp: builder_of_def build_create_def simp del: build_subtree.simps intro!: yields_obind)
qed (use not_leaf_only [OF assms(1), of 0] in
  \<open>simp_all add: routes_def builder_of_def constraint_types_def query_class_def read_only_supported_def\<close>)

text \<open>With more fuel than depth and a deadline that never passes, a root is built.\<close>

lemma root_built:
  assumes "always_builds (config env)" "env_ok env" "root_name env given \<noteq> []" "gr_builders g = PORTABLE_BUILDERS"
    and "max_depth (config env) < fuel" "\<And>t. \<not> deadline_passed env t"
  shows "\<exists>built s'. build_root g fuel env seed given names s = Inr (built, s')"
proof -
  have "3 \<le> fuel" using assms(1,5) by (simp add: always_builds_def)
  then have "fuel = Suc (Suc (Suc (fuel - 3)))" by linarith
  then obtain n where fuel: "fuel = Suc (Suc (Suc n))" by blast
  let ?s = "open_context (map_option (gr_seed g) seed) names s"
  have "yields (at_state 0 0) (build_subtree PORTABLE_BUILDERS fuel env WantRelation [ExposedNameConstraint (root_name env given)])"
    unfolding fuel by (rule yields_relation [OF assms(1-3)])
  then have some: "case build_subtree PORTABLE_BUILDERS fuel env WantRelation [ExposedNameConstraint (root_name env given)] ?s of
      Inl e \<Rightarrow> True | Inr (r, s') \<Rightarrow> r \<noteq> None"
    unfolding yields_def by (elim allE [of _ ?s] impE) simp_all
  have "\<not> run_error 0 fuel env e" for e using assms(5,6) by (auto simp: run_error_def)
  with build_root_cases [OF assms(2-4), of fuel seed names s] some assms(4)
  show ?thesis by (auto simp: build_root_def split: sum.splits option.splits)
qed

end
