(* ===== verification/Coa_Sample.thy ===== *)
theory Coa_Sample
  imports Coa_Liveness
begin

text \<open>
  Concrete inputs the properties are applied to: an engine that keeps every promise of
  \<open>engine_ok\<close>, a table of orders with two rows, a predicate plugin, and a configuration of four builders
  under which a run is evaluated to the end.
\<close>


section \<open>An engine\<close>

definition reference_engine :: engine where
  "reference_engine =
     \<lparr>en_pred = (\<lambda>text r. None),
      en_raw = (\<lambda>text r. SOther text),
      en_cmp = (\<lambda>op u v.
        if op = ''='' then u = v else if op = ''<>'' then u \<noteq> v
        else case (u, v) of (SInt a, SInt b) \<Rightarrow> b \<le> a | _ \<Rightarrow> False),
      en_mod = (mod),
      en_codec = (\<lambda>c v. v),
      en_same = (=),
      en_agg = (\<lambda>f vs. hd vs),
      en_win = (\<lambda>f fr ks vs i. vs ! i),
      en_rank = (\<lambda>ks. [1..<Suc (length ks)]),
      en_scan = (\<lambda>p rows. rows)\<rparr>"

lemma reference_ok: "engine_ok reference_engine"
  by (simp add: engine_ok_def reference_engine_def equivp_def fun_eq_iff) auto


section \<open>A table and its rows\<close>

definition orders :: table where
  "orders = Table ''orders__base''
     [Column ''id'' IntegerType 1 False, Column ''note'' (SqlType VARCHAR (Some 20) None) 2 True] None"

definition orders_rows :: "row list" where
  "orders_rows = [[SInt 7, SStr ''a''], [SInt 8, SNull]]"

lemma orders_ok: "table_ok orders" "column_names orders = [''id'', ''note'']"
  "table_signature orders = [(''id'', IntegerType), (''note'', SqlType VARCHAR (Some 20) None)]"
  by (simp_all add: table_ok_def orders_def column_names_def table_signature_def)

lemma orders_rows_ok: "base_rows_ok orders orders_rows"
  by (simp add: base_rows_ok_def orders_rows_def row_ok_def orders_def value_ok_def integer_keyed_def is_numeric_def
      is_varchar_def is_dbl_def)


section \<open>An environment\<close>

definition id_is_seven :: predicate_source where
  "id_is_seven = \<lparr>source_name = ''sample'', boolean_predicate = (\<lambda>t seed. Some ''id = 7'')\<rparr>"

definition sample_builders :: "string list" where
  "sample_builders = [''CreateViewBuilder'', ''TlpPartitionUnionQueryBuilder'', ''SelectStarQueryBuilder'', ''BaseTableSourceBuilder'']"

definition sample_config :: eq_config where
  "sample_config =
     \<lparr>max_depth = 6, max_nodes = 0, max_attempts = 0,
      builder_weights = map (\<lambda>b. (b_name b, if b_name b \<in> set sample_builders then 1 else 0)) PORTABLE_BUILDERS,
      root_builder_weights = [],
      key_selection_weights = [(FIRST, 1)], join_type_weights = [(INNER, 1)],
      window_function_weights = [(CHOOSE_MIN, 1)], window_frame_weights = [(FRAME_NONE, 1)],
      big_table_rowcount_weights = [(2, 1)]\<rparr>"

definition sample_env :: context_env where
  "sample_env = \<lparr>config = sample_config, base_table = orders, the_predicate_source = Some id_is_seven,
                 deadline_passed = (\<lambda>t. False)\<rparr>"

text \<open>The same run with no time left.\<close>

definition late_env :: context_env where
  "late_env = sample_env\<lparr>deadline_passed := (\<lambda>t. True)\<rparr>"

definition sample_rng :: rng where
  "sample_rng = \<lparr>int_draw = (\<lambda>n. 0), exp_draw = (\<lambda>n. 1 / of_nat (Suc n))\<rparr>"

definition start_state :: gen_state where
  "start_state =
     \<lparr>counters = [], depth = 0, node_total = 0, nodes_attempted = 0, stream = sample_rng, position = 0,
      next_id = 0, clock = 0, predicate_origin = [], chosen = []\<rparr>"

definition portable_generator :: generator where
  "portable_generator = \<lparr>gr_builders = PORTABLE_BUILDERS, gr_seed = (\<lambda>seed. sample_rng), gr_spelling = postgres_spelling\<rparr>"

lemma sample_simps [simp]:
  "base_table sample_env = orders" "config sample_env = sample_config" "gr_builders portable_generator = PORTABLE_BUILDERS"
  "max_depth sample_config = 6" "\<not> deadline_passed sample_env t" "depth start_state = 0"
  "base_table late_env = orders" "config late_env = sample_config" "deadline_passed late_env t"
  by (simp_all add: late_env_def sample_env_def portable_generator_def sample_config_def start_state_def)

lemma sample_env_ok: "env_ok sample_env"
  by (simp add: env_ok_def orders_ok)
    (simp add: config_ok_def options_ok_def sample_config_def sample_env_def source_ok_def id_is_seven_def nonblank_def)

lemma late_env_ok: "env_ok late_env"
  using sample_env_ok by (simp add: env_ok_def late_env_def)

lemma sample_root_name [simp]: "root_name env (Some nm) = nm"
  by (simp add: root_name_def)

lemma sample_requests [simp]: "request_ok orders []" "request_ok orders [RowFilterConstraint (GeneratedPredicate ''id = 7'')]"
  "request_ok orders [ExposedNameConstraint ''orders'']"
  by (simp_all add: request_ok_def constraint_types_def payload_defs get_optional_constraint_def)

lemma sample_tag_request [simp]: "request_ok orders [TagChannelConstraint ''eq_tag_1'' keep_mark]"
  by (rule tag_request(1)) (simp_all add: orders_ok factory.reduced_request)

lemma sample_always_builds: "always_builds sample_config"
  unfolding always_builds_def by (simp only: sample_simps, code_simp)

end
