(* ===== verification/Coa_Budget.thy ===== *)
theory Coa_Budget
  imports Coa_Framework
begin

text \<open>
  What the dispatch does to the counters of \<open>BuilderContext\<close>, whatever the builders: the shuffle moves only
  the random stream, a request that ends with nothing leaves the node count it found, and under an
  exhausted budget only leaf builders are tried.
\<close>


section \<open>The shuffle\<close>

lemma draw_keys_runs: "\<exists>ks p. draw_keys xs s = Inr (ks, s\<lparr>position := p\<rparr>) \<and> map snd ks = map fst xs"
proof (induction xs arbitrary: s rule: draw_keys.induct)
  case 1
  show ?case by (rule exI [of _ "[]"], rule exI [of _ "position s"]) (simp add: greturn_def)
next
  case (2 x w xs)
  obtain ks p where "draw_keys xs (s\<lparr>position := Suc (position s)\<rparr>) = Inr (ks, s\<lparr>position := p\<rparr>)" "map snd ks = map fst xs"
    using 2 [of "s\<lparr>position := Suc (position s)\<rparr>"] by auto
  then show ?case by (auto simp: gbind_def draw_exp_def gread_def gmodify_def greturn_def intro!: exI [of _ p])
qed

lemma shuffle_runs:
  "\<exists>ys p. weighted_shuffle xs w s = Inr (ys, s\<lparr>position := p\<rparr>) \<and> mset ys = mset (filter (\<lambda>x. 0 < w x) xs)"
proof -
  let ?eligible = "filter (\<lambda>p. 0 < snd p) (map (\<lambda>x. (x, w x)) xs)"
  have fst: "map fst ?eligible = filter (\<lambda>x. 0 < w x) xs" by (induction xs) auto
  show ?thesis
  proof (cases "?eligible = []")
    case True
    with fst have "filter (\<lambda>x. 0 < w x) xs = []" by simp
    then show ?thesis unfolding weighted_shuffle_def Let_def if_P [OF True]
      by (intro exI [of _ "[]"] exI [of _ "position s"]) (simp add: greturn_def)
  next
    case False
    obtain ks p where ks: "draw_keys ?eligible s = Inr (ks, s\<lparr>position := p\<rparr>)" "map snd ks = map fst ?eligible"
      using draw_keys_runs by blast
    have "mset (map snd (sort_key fst ks)) = mset (filter (\<lambda>x. 0 < w x) xs)" using ks(2) fst by (metis mset_map mset_sort)
    with ks(1) False show ?thesis
      unfolding weighted_shuffle_def Let_def if_not_P [OF False] by (auto simp: gbind_def greturn_def)
  qed
qed


section \<open>Trying builders\<close>

lemma try_none: "try_builders sub env cs bs s = Inr (None, s') \<Longrightarrow> node_total s' = node_total s"
proof (induction bs arbitrary: s)
  case (Cons b bs)
  obtain r t where r: "run_builder b sub env cs (s\<lparr>depth := Suc (depth s)\<rparr>) = Inr (r, t)"
    using Cons.prems by (auto simp: gbind_def enter_builder_def gread_def gmodify_def greturn_def split: sum.splits)
  show ?case
  proof (cases r)
    case None
    with r Cons.prems have "try_builders sub env cs bs (t\<lparr>depth := depth t - 1, node_total := node_total s\<rparr>) = Inr (None, s')"
      by (simp add: gbind_def enter_builder_def gread_def gmodify_def greturn_def abandon_builder_def)
    from Cons.IH [OF this] show ?thesis by simp
  next
    case (Some n)
    with r Cons.prems show ?thesis
      by (simp add: gbind_def enter_builder_def gread_def gmodify_def greturn_def commit_builder_def)
  qed
qed (simp add: greturn_def)

lemma run_some:
  "run_builder b sub env cs s = Inr (Some n, s') \<Longrightarrow> class_of n = b_result b \<and> list_all (\<lambda>c. meets_constraint c n) cs"
  by (auto simp: run_builder_def obind_def gbind_def gassert_def greturn_def graise_def split: sum.splits option.splits if_splits)

lemma try_some:
  "try_builders sub env cs bs s = Inr (Some n, s') \<Longrightarrow>
     \<exists>b \<in> set bs. class_of n = b_result b \<and> list_all (\<lambda>c. meets_constraint c n) cs"
proof (induction bs arbitrary: s)
  case (Cons b bs)
  obtain r t where r: "run_builder b sub env cs (s\<lparr>depth := Suc (depth s)\<rparr>) = Inr (r, t)"
    using Cons.prems by (auto simp: gbind_def enter_builder_def gread_def gmodify_def greturn_def split: sum.splits)
  show ?case
  proof (cases r)
    case None
    with r Cons.prems have "try_builders sub env cs bs (t\<lparr>depth := depth t - 1, node_total := node_total s\<rparr>) = Inr (Some n, s')"
      by (simp add: gbind_def enter_builder_def gread_def gmodify_def greturn_def abandon_builder_def)
    from Cons.IH [OF this] show ?thesis by simp
  next
    case (Some m)
    with r Cons.prems have "m = n"
      by (simp add: gbind_def enter_builder_def gread_def gmodify_def greturn_def commit_builder_def)
    with run_some r Some show ?thesis by fastforce
  qed
qed (simp add: greturn_def)


section \<open>A request\<close>

lemma dispatch_cases:
  obtains "filter_builders builders (config env) k cs s = None" "dispatch builders sub env k cs s = Inr (None, s)"
  | bs ys p where "filter_builders builders (config env) k cs s = Some bs" "set ys \<subseteq> set bs"
      "dispatch builders sub env k cs s = try_builders sub env cs ys (s\<lparr>position := p\<rparr>)"
proof (cases "filter_builders builders (config env) k cs s")
  case None
  then show ?thesis by (intro that(1)) (simp_all add: dispatch_def gbind_def gread_def greturn_def)
next
  case (Some bs)
  obtain ys p where run: "weighted_shuffle bs (builder_weight (config env) (depth s)) s = Inr (ys, s\<lparr>position := p\<rparr>)"
      "mset ys = mset (filter (\<lambda>x. 0 < builder_weight (config env) (depth s) x) bs)"
    using shuffle_runs by blast
  have "set ys \<subseteq> set bs" using run(2) by (metis filter_is_subset set_mset_mset)
  with Some run(1) show ?thesis
    by (intro that(2) [of bs ys p]) (simp_all add: dispatch_def gbind_def gread_def)
qed

lemma subtree_cases:
  assumes "build_subtree builders fuel env k cs s = Inr (r, s')"
  obtains g where "fuel = Suc g" "dispatch builders (build_subtree builders g env) env k cs (s\<lparr>clock := Suc (clock s)\<rparr>) = Inr (r, s')"
proof (cases fuel)
  case 0
  with assms show ?thesis by (simp add: graise_def)
next
  case (Suc g)
  with assms show ?thesis
    by (intro that [of g])
      (auto simp: check_deadline_def obind_def gbind_def gread_def gmodify_def greturn_def graise_def gassert_def
        split: if_splits sum.splits option.splits)
qed

lemma nothing_built:
  assumes "build_subtree builders fuel env k cs s = Inr (None, s')"
  shows "node_total s' = node_total s"
proof -
  obtain g where g: "dispatch builders (build_subtree builders g env) env k cs (s\<lparr>clock := Suc (clock s)\<rparr>) = Inr (None, s')"
    by (rule subtree_cases [OF assms])
  show ?thesis
    by (rule dispatch_cases [of builders env k cs "s\<lparr>clock := Suc (clock s)\<rparr>" "build_subtree builders g env"])
      (use g try_none in fastforce)+
qed

lemma leaf_at_budget:
  assumes "leaf_only (config env) s" "build_subtree builders fuel env k cs s = Inr (Some n, s')"
  shows "\<exists>b \<in> set builders. b_leaf b \<and> class_of n = b_result b \<and> depth s < max_depth (config env)"
proof -
  obtain g where g: "dispatch builders (build_subtree builders g env) env k cs (s\<lparr>clock := Suc (clock s)\<rparr>) = Inr (Some n, s')"
    by (rule subtree_cases [OF assms(2)])
  have leaf: "leaf_only (config env) (s\<lparr>clock := Suc (clock s)\<rparr>)" using assms(1) by (simp add: leaf_only_def)
  show ?thesis
  proof (rule dispatch_cases [of builders env k cs "s\<lparr>clock := Suc (clock s)\<rparr>" "build_subtree builders g env"])
    fix bs ys p
    assume bs: "filter_builders builders (config env) k cs (s\<lparr>clock := Suc (clock s)\<rparr>) = Some bs" and ys: "set ys \<subseteq> set bs"
      and "dispatch builders (build_subtree builders g env) env k cs (s\<lparr>clock := Suc (clock s)\<rparr>)
        = try_builders (build_subtree builders g env) env cs ys (s\<lparr>clock := Suc (clock s), position := p\<rparr>)"
    with g obtain b where "b \<in> set ys" "class_of n = b_result b" by (auto dest: try_some)
    moreover from this(1) bs ys leaf have "b \<in> set builders \<and> b_leaf b \<and> depth s < max_depth (config env)"
      by (auto simp: filter_builders_def Let_def split: if_splits)
    ultimately show ?thesis by blast
  qed (use g in simp_all)
qed

end
