(* ===== verification/Coa_Render_Laws.thy ===== *)
theory Coa_Render_Laws
  imports Coa_Render
begin

text \<open>
  What the rendering of expressions guarantees.  The locale \<open>sql_spelling\<close> is the contract a
  dialect's hooks have with \<open>Spelling.expr\<close>: a type name or an aggregate is balanced text, a
  modulus is closed text (it is one of the node kinds that stay unbracketed as an operand).
  Its conclusion, \<open>operand_closed\<close>, is the reason for the brackets of \<open>_operand\<close>: no operator
  of an operand's own text is exposed to the precedence of the operator around it.
  The contract is discharged for the six shipped spellings.
\<close>


section \<open>What the rendered text may be built from\<close>

text \<open>
  Identifiers without blanks or parentheses, raw fragments that are closed text, plugin
  predicates whose parentheses match.
\<close>

fun clean :: "expr \<Rightarrow> bool" where
  "clean (ColumnRef n t a) \<longleftrightarrow> closed_text n \<and> (case a of None \<Rightarrow> True | Some r \<Rightarrow> closed_text r)"
| "clean (IntLiteral v) \<longleftrightarrow> True"
| "clean (BooleanLiteral v) \<longleftrightarrow> True"
| "clean (RawExpr s t) \<longleftrightarrow> closed_text s"
| "clean (TypedNull t) \<longleftrightarrow> True"
| "clean (GeneratedPredicate v) \<longleftrightarrow> balanced v"
| "clean (Comparison op l r) \<longleftrightarrow> balanced op \<and> clean l \<and> clean r"
| "clean (BoolOp op l r) \<longleftrightarrow> balanced op \<and> clean l \<and> clean r"
| "clean (NotE e) \<longleftrightarrow> clean e"
| "clean (IsNull e n) \<longleftrightarrow> clean e"
| "clean (Mod e n) \<longleftrightarrow> clean e"
| "clean (Case c t e ty) \<longleftrightarrow> clean c \<and> clean t \<and> clean e"
| "clean (AggregateCall f a ty) \<longleftrightarrow> clean a"
| "clean (ValueCodecRoundTrip c a ty) \<longleftrightarrow> clean a"
| "clean (WindowCall f a p ob fr ty) \<longleftrightarrow>
     (case a of None \<Rightarrow> True | Some x \<Rightarrow> clean x) \<and> (\<forall>x \<in> set p. clean x) \<and> (\<forall>x \<in> set ob. clean x)"

lemma column_sql_closed:
  "closed_text n \<Longrightarrow> (case a of None \<Rightarrow> True | Some r \<Rightarrow> closed_text r) \<Longrightarrow> closed_text (column_sql n a)"
  by (cases a) (auto simp: column_sql_def closed_text_def scan_append)

lemma scan_bracket [scan_simps]: "balanced s \<Longrightarrow> scan False d (bracket e s) = Some d"
  by (simp add: bracket_def scan_simps)

lemma window_sql_balanced:
  assumes "balanced a" "\<forall>s \<in> set ps. balanced s" "\<forall>s \<in> set os. balanced s"
  shows "balanced (window_sql f a ps os fr)"
proof -
  have name: "balanced (win_name f)" by (cases f) (simp_all add: balanced_def)
  have comma: "balanced '', ''" "balanced '' ''" by (simp_all add: balanced_def)
  have lists: "balanced (join_with '', '' ps)" "balanced (join_with '', '' os)"
    using assms comma by (auto intro!: join_balanced)
  have part: "balanced (''PARTITION BY '' @ join_with '', '' ps)" "balanced (''ORDER BY '' @ join_with '', '' os)"
    by (rule balancedI, simp add: scan_simps lists)+
  have fr: "balanced (frame_name k @ '' BETWEEN UNBOUNDED PRECEDING AND UNBOUNDED FOLLOWING'')" for k
    by (cases k) (simp_all add: balanced_def)
  have clauses: "balanced (join_with '' ''
      ((if ps = [] then [] else [''PARTITION BY '' @ join_with '', '' ps]) @
       (if os = [] then [] else [''ORDER BY '' @ join_with '', '' os]) @
       (case fr of None \<Rightarrow> []
        | Some k \<Rightarrow> [frame_name k @ '' BETWEEN UNBOUNDED PRECEDING AND UNBOUNDED FOLLOWING''])))"
    by (rule join_balanced) (use part fr comma in \<open>auto split: option.splits if_splits\<close>)
  show ?thesis
    unfolding window_sql_def Let_def
    by (rule balancedI) (simp add: scan_simps name assms(1) clauses del: append_assoc)
qed


section \<open>The contract of a spelling\<close>

locale sql_spelling =
  fixes sp :: spelling
  assumes type_balanced: "type_sql sp t = Inr s \<Longrightarrow> balanced s"
    and mod_closed: "balanced s \<Longrightarrow> closed_text (mod_sql sp s n)"
    and aggregate_balanced: "balanced s \<Longrightarrow> balanced (aggregate_sql sp f s)"
    and codec_balanced: "balanced s \<Longrightarrow> value_codec_sql sp c s = Inr u \<Longrightarrow> balanced u"
begin

lemma case_text_balanced:
  "balanced a \<Longrightarrow> balanced b \<Longrightarrow> balanced d \<Longrightarrow>
     balanced (''CASE WHEN '' @ a @ '' THEN '' @ b @ '' ELSE '' @ d @ '' END'')"
  by (rule balancedI) (simp add: scan_simps)

lemma cast_null_closed: "balanced ty \<Longrightarrow> closed_text (''CAST(NULL AS '' @ ty @ '')'')"
  by (rule closedI) (simp add: scan_simps)

lemma infix_balanced:
  "balanced op \<Longrightarrow> balanced a \<Longrightarrow> balanced b \<Longrightarrow>
     balanced (bracket l a @ '' '' @ op @ '' '' @ bracket r b)"
  by (rule balancedI) (simp add: scan_simps)

lemma not_balanced: "balanced a \<Longrightarrow> balanced (''NOT '' @ bracket e a)"
  by (rule balancedI) (simp add: scan_simps)

lemma is_null_balanced:
  "balanced a \<Longrightarrow> balanced (bracket e a @ '' IS '' @ (if n then ''NOT '' else '''') @ ''NULL'')"
  by (rule balancedI) (simp add: scan_simps)

lemmas text_balanced = case_text_balanced infix_balanced not_balanced is_null_balanced
  aggregate_balanced codec_balanced window_sql_balanced

lemma sequence_balanced:
  assumes "esequence (map (expr_sql sp) es) = Inr ss"
    and "\<And>e s. e \<in> set es \<Longrightarrow> expr_sql sp e = Inr s \<Longrightarrow> balanced s"
  shows "\<forall>s \<in> set ss. balanced s"
proof
  fix s assume "s \<in> set ss"
  moreover from assms(1) have "map (expr_sql sp) es = map Inr ss" by (simp add: esequence_Inr)
  ultimately obtain e where "e \<in> set es" "expr_sql sp e = Inr s"
    by (metis (no_types, lifting) imageE image_eqI list.set_map)
  then show "balanced s" by (rule assms(2))
qed

lemma balanced_expr_sql:
  "expr_sql sp e = Inr s \<Longrightarrow> clean e \<Longrightarrow> balanced s \<and> (atomic e \<longrightarrow> closed_text s)"
proof (induction e arbitrary: s)
  case (ColumnRef n t a)
  then show ?case using column_sql_closed closed_balanced by auto
next
  case (IntLiteral v)
  then show ?case using str_int_closed [of v] closed_balanced by auto
next
  case (BooleanLiteral v)
  then show ?case by (auto simp: balanced_def closed_text_def)
next
  case (RawExpr r t)
  then show ?case using closed_balanced by auto
next
  case (TypedNull t)
  then show ?case using cast_null_closed closed_balanced type_balanced by fastforce
next
  case (GeneratedPredicate v)
  then have "closed_text s" using closed_paren [of v] by simp
  then show ?case using closed_balanced by simp
next
  case (Mod e n)
  then show ?case using mod_closed closed_balanced by fastforce
next
  case (Case c t e ty)
  then obtain a b d where "expr_sql sp c = Inr a" "expr_sql sp t = Inr b" "expr_sql sp e = Inr d"
    and s: "s = ''CASE WHEN '' @ a @ '' THEN '' @ b @ '' ELSE '' @ d @ '' END''" by auto
  with Case have "balanced a" "balanced b" "balanced d" by auto
  then show ?case using case_text_balanced s by simp
next
  case (Comparison op l r)
  then obtain a b where "expr_sql sp l = Inr a" "expr_sql sp r = Inr b"
    and s: "s = bracket l a @ '' '' @ op @ '' '' @ bracket r b" by auto
  with Comparison have "balanced a" "balanced b" "balanced op" by auto
  then show ?case using infix_balanced s by simp
next
  case (BoolOp op l r)
  then obtain a b where "expr_sql sp l = Inr a" "expr_sql sp r = Inr b"
    and s: "s = bracket l a @ '' '' @ op @ '' '' @ bracket r b" by auto
  with BoolOp have "balanced a" "balanced b" "balanced op" by auto
  then show ?case using infix_balanced s by simp
next
  case (NotE e)
  then obtain a where "balanced a" and "s = ''NOT '' @ bracket e a" by auto
  then show ?case using not_balanced by simp
next
  case (IsNull e n)
  then obtain a where "balanced a"
    and "s = bracket e a @ '' IS '' @ (if n then ''NOT '' else '''') @ ''NULL''" by fastforce
  then show ?case using is_null_balanced [of a e n] by simp
next
  case (AggregateCall f a ty)
  then show ?case using aggregate_balanced by auto
next
  case (ValueCodecRoundTrip c a ty)
  then show ?case using codec_balanced by auto
next
  case (WindowCall f a p ob fr ty)
  obtain arg ps os where s: "s = window_sql f arg ps os fr"
    and arg: "balanced arg"
    and ps: "esequence (map (expr_sql sp) p) = Inr ps" and os: "esequence (map (expr_sql sp) ob) = Inr os"
  proof (cases a)
    case None
    have "balanced ''''" by simp
    with None WindowCall.prems show ?thesis by (auto intro: that)
  next
    case (Some x)
    with WindowCall.prems obtain t where "expr_sql sp x = Inr t" "clean x" by auto
    with Some WindowCall.IH(1) have "balanced t" by auto
    with Some WindowCall.prems that show ?thesis using \<open>expr_sql sp x = Inr t\<close> by auto
  qed
  have "\<forall>s \<in> set ps. balanced s"
    by (rule sequence_balanced [OF ps]) (use WindowCall.IH(2) WindowCall.prems(2) in \<open>simp; blast\<close>)
  moreover have "\<forall>s \<in> set os. balanced s"
    by (rule sequence_balanced [OF os]) (use WindowCall.IH(3) WindowCall.prems(2) in \<open>simp; blast\<close>)
  ultimately show ?case using arg by (simp add: s window_sql_balanced)
qed

lemma operand_closed: "operand_sql sp e = Inr s \<Longrightarrow> clean e \<Longrightarrow> closed_text s"
  using balanced_expr_sql [of e] closed_paren
  by (auto simp: operand_sql_def bracket_def simp del: append.simps)

end


section \<open>The shipped spellings meet the contract\<close>

lemma with_params_balanced: "balanced name \<Longrightarrow> balanced (with_params name p s)"
proof -
  assume "balanced name"
  moreover have "balanced (str_int n)" for n by (rule closed_balanced) simp
  ultimately show ?thesis
    by (cases p; cases s) (auto simp: with_params_def intro!: balancedI simp: scan_simps)
qed

lemma type_names_balanced:
  "postgres_type_sql t = Inr s \<Longrightarrow> balanced s"
  "duckdb_type t = Inr s \<Longrightarrow> balanced s"
  "balanced (mysql_cast_type t)" "balanced (clickhouse_type t)" "balanced (cratedb_type t)"
  "balanced (sqlite_type t)"
proof -
  have lit: "balanced ''NUMERIC''" "balanced ''CHAR''" "balanced ''VARCHAR''" "balanced ''DECIMAL''" "balanced ''Decimal''"
    by (simp_all add: balanced_def)
  note par = lit [THEN with_params_balanced]
  show "postgres_type_sql t = Inr s \<Longrightarrow> balanced s"
    using par by (auto simp: postgres_type_sql_def balanced_def split: type_kind.splits)
  show "duckdb_type t = Inr s \<Longrightarrow> balanced s"
    using par by (auto simp: duckdb_type_def balanced_def split: type_kind.splits option.splits if_splits)
  show "balanced (mysql_cast_type t)"
    using par by (auto simp: mysql_cast_type_def balanced_def split: type_kind.splits)
  show "balanced (cratedb_type t)" using par by (auto simp: cratedb_type_def balanced_def)
  show "balanced (sqlite_type t)" by (auto simp: sqlite_type_def balanced_def)
  have "balanced (clickhouse_unwrapped_type t)"
    using par by (auto simp: clickhouse_unwrapped_type_def balanced_def split: type_kind.splits)
  then show "balanced (clickhouse_type t)"
    unfolding clickhouse_type_def by (intro balancedI) (simp add: scan_simps)
qed

lemma base_hooks:
  "balanced s \<Longrightarrow> closed_text (base_mod_sql s n)"
  "balanced s \<Longrightarrow> closed_text (sqlite_mod_sql s n)"
  "balanced s \<Longrightarrow> balanced (base_aggregate_sql f s)"
  "balanced s \<Longrightarrow> balanced (sqlite_aggregate_sql f s)"
proof -
  assume s: "balanced s"
  have n: "balanced (str_int n)" by (rule closed_balanced) simp
  show "closed_text (base_mod_sql s n)" "closed_text (sqlite_mod_sql s n)"
    unfolding base_mod_sql_def sqlite_mod_sql_def by (rule closedI, simp add: scan_simps s n)+
  show agg: "balanced (base_aggregate_sql f s)"
    unfolding base_aggregate_sql_def by (rule balancedI, cases f) (simp_all add: scan_simps s)
  show "balanced (sqlite_aggregate_sql f s)"
    unfolding sqlite_aggregate_sql_def using agg by (auto intro!: balancedI simp: scan_simps s)
qed

lemma codec_texts_balanced:
  assumes "balanced s"
  shows "postgres_value_codec_sql c s = Inr u \<Longrightarrow> balanced u"
    and "duckdb_value_codec_sql c s = Inr u \<Longrightarrow> balanced u"
    and "mysql_value_codec_sql c s = Inr u \<Longrightarrow> balanced u"
    and "clickhouse_value_codec_sql c s = Inr u \<Longrightarrow> balanced u"
    and "sqlite_value_codec_sql c s = Inr u \<Longrightarrow> balanced u"
  by (cases c; auto simp: postgres_value_codec_sql_def duckdb_value_codec_sql_def mysql_value_codec_sql_def
      clickhouse_value_codec_sql_def sqlite_value_codec_sql_def Let_def quoted_def
      intro!: balancedI simp: scan_simps assms split: if_splits)+

lemmas hook_laws = type_names_balanced base_hooks codec_texts_balanced

interpretation pg: sql_spelling postgres_spelling
  by unfold_locales (auto simp: postgres_spelling_def intro: hook_laws)

interpretation duckdb: sql_spelling duckdb_spelling
  by unfold_locales (auto simp: duckdb_spelling_def postgres_spelling_def intro: hook_laws)

interpretation mysql: sql_spelling mysql_spelling
  by unfold_locales (auto simp: mysql_spelling_def postgres_spelling_def intro: hook_laws)

interpretation clickhouse: sql_spelling clickhouse_spelling
  by unfold_locales (auto simp: clickhouse_spelling_def postgres_spelling_def intro: hook_laws)

interpretation crate: sql_spelling crate_spelling
  by unfold_locales (auto simp: crate_spelling_def postgres_spelling_def intro: hook_laws)

interpretation sqlite: sql_spelling sqlite_spelling
  by unfold_locales (auto simp: sqlite_spelling_def postgres_spelling_def intro: hook_laws)

lemma shipped_contract: "sp \<in> set shipped_spellings \<Longrightarrow> sql_spelling sp"
  using pg.sql_spelling_axioms duckdb.sql_spelling_axioms mysql.sql_spelling_axioms
    clickhouse.sql_spelling_axioms crate.sql_spelling_axioms sqlite.sql_spelling_axioms
  by (auto simp: shipped_spellings_def)

end
