(* ===== verification/Coa_Names.thy ===== *)
theory Coa_Names
  imports Coa_Gen
begin

text \<open>
  Names: what \<open>NameGenerator\<close> has handed out so far is a function of its counters, and the next
  name is never one of those.  Rests on \<open>str_nat\<close> being injective and writing digits only, so that the
  last underscore of \<open>prefix_count\<close> separates the two parts.
\<close>

lemma split_last_underscore:
  assumes "p @ CHR ''_'' # u = q @ CHR ''_'' # v" "CHR ''_'' \<notin> set u" "CHR ''_'' \<notin> set v"
  shows "p = q \<and> u = v"
proof -
  have rev: "rev u @ CHR ''_'' # rev p = rev v @ CHR ''_'' # rev q"
    using arg_cong [OF assms(1), of rev] by simp
  have cut: "takeWhile (\<lambda>c. c \<noteq> CHR ''_'') (rev w @ CHR ''_'' # r) = rev w" if "CHR ''_'' \<notin> set w" for w r
    using that by (subst takeWhile_append2) auto
  have "rev u = rev v" using arg_cong [OF rev, of "takeWhile (\<lambda>c. c \<noteq> CHR ''_'')"] cut assms(2,3) by simp
  with rev show ?thesis by simp
qed

lemma no_underscore: "CHR ''_'' \<notin> set (str_nat n)"
  using str_nat_digits [of n] by auto

lemma name_inj: "p @ ''_'' @ str_nat m = q @ ''_'' @ str_nat n \<longleftrightarrow> p = q \<and> m = n"
  using split_last_underscore [of p "str_nat m" q "str_nat n"] no_underscore str_nat_inj [of m n] by auto

definition issued :: "gen_state \<Rightarrow> string set" where
  "issued s = {p @ ''_'' @ str_nat k |p k. 1 \<le> k \<and> k \<le> count_of (counters s) p}"

lemma issued_iff: "p @ ''_'' @ str_nat k \<in> issued s \<longleftrightarrow> 1 \<le> k \<and> k \<le> count_of (counters s) p"
  unfolding issued_def using name_inj [of p k] by auto

lemma issued_bump:
  "issued (s\<lparr>counters := bump_count p (counters s)\<rparr>) = insert (p @ ''_'' @ str_nat (Suc (count_of (counters s) p))) (issued s)"
proof -
  have "count_of (bump_count p cs) q = (if q = p then Suc (count_of cs p) else count_of cs q)" for cs q
    by simp
  then show ?thesis by (auto simp: issued_def le_Suc_eq split: if_splits)
qed

end
