(* ===== verification/Coa_Emit_Order.thy ===== *)
theory Coa_Emit_Order
  imports Coa_Emitter
begin

text \<open>
  The order of the emitted statements.  Specification: a list of nodes that holds every node of the
  tree once, each after its children; \<open>emit_equivalence\<close> emits exactly the statements of such a list,
  node by node.  Python's \<open>id\<close> tells objects apart, which is the hypothesis \<open>same_identity\<close>.
\<close>


section \<open>Specification\<close>

function nodes :: "eqnode \<Rightarrow> eqnode set" where
  "nodes n = insert n (\<Union>c \<in> set (children n). nodes c)"
  by pat_completeness auto
termination
  by (relation "measure size") (auto dest: children_size)

declare nodes.simps [simp del]

definition same_identity :: "eqnode \<Rightarrow> bool" where
  "same_identity n \<longleftrightarrow> inj_on node_id (nodes n)"

definition children_first :: "eqnode list \<Rightarrow> bool" where
  "children_first xs \<longleftrightarrow> (\<forall>ys n zs. xs = ys @ n # zs \<longrightarrow> set (children n) \<subseteq> set ys)"

definition build_order :: "eqnode \<Rightarrow> eqnode list \<Rightarrow> bool" where
  "build_order n xs \<longleftrightarrow> set xs = nodes n \<and> distinct xs \<and> children_first xs"

lemma nodes_self [simp]: "n \<in> nodes n"
  unfolding nodes.simps [of n] by (rule insertI1)

lemma nodes_child: "c \<in> set (children n) \<Longrightarrow> c \<in> nodes n"
  using nodes_self [of c] unfolding nodes.simps [of n] by blast

lemma nodes_trans: "m \<in> nodes n \<Longrightarrow> nodes m \<subseteq> nodes n"
proof (induction n arbitrary: m rule: nodes.induct)
  case (1 n)
  from "1.prems" consider "m = n" | c where "c \<in> set (children n)" "m \<in> nodes c"
    unfolding nodes.simps [of n] by blast
  then show ?case
  proof cases
    case 2
    with "1.IH" show ?thesis unfolding nodes.simps [of n] by blast
  qed simp
qed

lemma children_first_Nil [simp]: "children_first []"
  by (simp add: children_first_def)

lemma children_first_snoc: "children_first (xs @ [n]) \<longleftrightarrow> children_first xs \<and> set (children n) \<subseteq> set xs"
proof
  assume ordered: "children_first (xs @ [n])"
  have "children_first xs" unfolding children_first_def
  proof (intro allI impI)
    fix ys m zs
    assume "xs = ys @ m # zs"
    then have "xs @ [n] = ys @ m # (zs @ [n])" by simp
    with ordered show "set (children m) \<subseteq> set ys" unfolding children_first_def by blast
  qed
  with ordered show "children_first xs \<and> set (children n) \<subseteq> set xs" by (auto simp: children_first_def)
next
  assume "children_first xs \<and> set (children n) \<subseteq> set xs"
  then show "children_first (xs @ [n])" by (auto simp: children_first_def append_eq_append_conv2 append_eq_Cons_conv Cons_eq_append_conv)
qed

lemma children_first_closed:
  assumes "children_first xs" "n \<in> set xs"
  shows "nodes n \<subseteq> set xs"
  using assms(2)
proof (induction n rule: nodes.induct)
  case (1 n)
  then obtain ys zs where "xs = ys @ n # zs" by (auto simp: in_set_conv_decomp)
  with assms(1) have "set (children n) \<subseteq> set xs" by (auto simp: children_first_def)
  with 1 show ?case unfolding nodes.simps [of n] by blast
qed


section \<open>The order of the walk\<close>

function visit :: "eqnode \<Rightarrow> nat set \<times> eqnode list \<Rightarrow> nat set \<times> eqnode list" where
  "visit n (seen, out) =
     (if node_id n \<in> seen then (seen, out)
      else let (seen', out') = fold visit (children n) (insert (node_id n) seen, out) in (seen', out' @ [n]))"
  by pat_completeness auto
termination
  by (relation "measure (\<lambda>(n, st). size n)") (auto dest: children_size)

declare visit.simps [simp del]

text \<open>Nodes being visited (\<open>A\<close>) and nodes done, told apart by their identities.\<close>

definition progress :: "eqnode \<Rightarrow> eqnode set \<Rightarrow> nat set \<times> eqnode list \<Rightarrow> bool" where
  "progress r A st \<longleftrightarrow>
     fst st = node_id ` (A \<union> set (snd st)) \<and> A \<subseteq> nodes r \<and> set (snd st) \<subseteq> nodes r \<and> A \<inter> set (snd st) = {} \<and>
     distinct (snd st) \<and> children_first (snd st)"

lemma visit_progress:
  assumes "same_identity r" "n \<in> nodes r" "\<forall>a \<in> A. size n < size a" "progress r A st"
  shows "progress r A (visit n st) \<and> insert n (set (snd st)) \<subseteq> set (snd (visit n st))"
  using assms(2-4)
proof (induction n arbitrary: A st rule: measure_induct_rule [where f = size])
  case (less n)
  obtain seen out where st: "st = (seen, out)" by (cases st)
  note inj = assms(1) [unfolded same_identity_def]
  show ?case
  proof (cases "node_id n \<in> seen")
    case True
    have "seen = node_id ` (A \<union> set out)" using less.prems(3) st by (simp add: progress_def)
    with True obtain a where a: "a \<in> A \<union> set out" "node_id a = node_id n" by (metis imageE)
    then have "a \<in> nodes r" using less.prems(3) st by (auto simp: progress_def)
    with a less.prems(1) inj have "a = n" by (auto simp: inj_on_def)
    with a less.prems(2) have "n \<in> set out" by auto
    with True less.prems(3) st show ?thesis by (simp add: visit.simps)
  next
    case False
    let ?st = "(insert (node_id n) seen, out)"
    have start: "progress r (insert n A) ?st" using less.prems False st by (auto simp: progress_def)
    have kids: "progress r (insert n A) (fold visit cs st') \<and> set cs \<union> set (snd st') \<subseteq> set (snd (fold visit cs st'))"
      if "set cs \<subseteq> set (children n)" "progress r (insert n A) st'" for cs st'
      using that
    proof (induction cs arbitrary: st')
      case (Cons c cs)
      then have c: "c \<in> set (children n)" by simp
      have "size c < size n" by (rule children_size [OF c])
      moreover have "c \<in> nodes r" using nodes_child [OF c] nodes_trans [OF less.prems(1)] by blast
      moreover have "\<forall>a \<in> insert n A. size c < size a" using \<open>size c < size n\<close> less.prems(2) by fastforce
      ultimately have step: "progress r (insert n A) (visit c st') \<and> insert c (set (snd st')) \<subseteq> set (snd (visit c st'))"
        using less.IH Cons.prems(2) by blast
      then have "progress r (insert n A) (fold visit cs (visit c st')) \<and>
          set cs \<union> set (snd (visit c st')) \<subseteq> set (snd (fold visit cs (visit c st')))"
        using Cons.IH Cons.prems(1) by simp
      with step show ?case by auto
    qed simp
    obtain seen' out' where walked: "fold visit (children n) ?st = (seen', out')" by (cases "fold visit (children n) ?st")
    have after: "progress r (insert n A) (seen', out')" "set (children n) \<union> set out \<subseteq> set out'"
      using kids [OF subset_refl start] walked by auto
    have "visit n st = (seen', out' @ [n])" using False walked by (simp add: visit.simps st)
    moreover have "n \<notin> A" using less.prems(2) by blast
    then have "progress r A (seen', out' @ [n])"
      using after less.prems(1) by (auto simp: progress_def children_first_snoc)
    ultimately show ?thesis using after(2) st by auto
  qed
qed

lemma visit_order:
  assumes "same_identity n"
  shows "build_order n (snd (visit n ({}, [])))"
proof -
  have "progress n {} (visit n ({}, [])) \<and> insert n (set (snd ({} :: nat set, []))) \<subseteq> set (snd (visit n ({}, [])))"
    by (rule visit_progress [OF assms]) (simp_all add: progress_def)
  then show ?thesis using children_first_closed by (auto simp: progress_def build_order_def)
qed


section \<open>The statements of the walk\<close>

lemma esequence_append: "esequence (xs @ ys) = ebind (esequence xs) (\<lambda>us. ebind (esequence ys) (\<lambda>vs. Inr (us @ vs)))"
proof (induction xs)
  case (Cons x xs)
  then show ?case by (cases x; cases "esequence xs"; cases "esequence ys") auto
qed (cases "esequence ys"; simp)

definition emit_nodes :: "spelling \<Rightarrow> eqnode list \<Rightarrow> string list emit" where
  "emit_nodes sp xs = ebind (esequence (map (node_statements sp) xs)) (\<lambda>ss. Inr (concat ss))"

lemma emit_nodes_append: "emit_nodes sp (xs @ ys) = ebind (emit_nodes sp xs) (\<lambda>us. ebind (emit_nodes sp ys) (\<lambda>vs. Inr (us @ vs)))"
  by (cases "esequence (map (node_statements sp) xs)"; cases "esequence (map (node_statements sp) ys)")
    (simp_all add: emit_nodes_def esequence_append)

lemma emit_nodes_Nil [simp]: "emit_nodes sp [] = Inr []"
  by (simp add: emit_nodes_def)

lemma emit_nodes_single: "emit_nodes sp [n] = node_statements sp n"
  by (cases "node_statements sp n") (simp_all add: emit_nodes_def)

lemma visit_extends: "\<exists>ys. snd (visit n st) = snd st @ ys"
proof (induction n arbitrary: st rule: measure_induct_rule [where f = size])
  case (less n)
  obtain seen out where st: "st = (seen, out)" by (cases st)
  have "\<exists>ys. snd (fold visit cs st') = snd st' @ ys" if "set cs \<subseteq> set (children n)" for cs st'
    using that
  proof (induction cs arbitrary: st')
    case (Cons c cs)
    have "size c < size n" using Cons.prems by (intro children_size) simp
    from less.IH [OF this, of st'] obtain ys where "snd (visit c st') = snd st' @ ys" by blast
    moreover from Cons.IH [of "visit c st'"] Cons.prems obtain zs
      where "snd (fold visit cs (visit c st')) = snd (visit c st') @ zs" by auto
    ultimately show ?case by simp
  qed simp
  from this [of "children n" "(insert (node_id n) seen, out)"] show ?case
    by (auto simp: st visit.simps case_prod_beta)
qed

lemma fold_extends: "\<exists>ys. snd (fold visit cs st) = snd st @ ys"
proof (induction cs arbitrary: st)
  case (Cons c cs)
  from visit_extends [of c st] Cons.IH [of "visit c st"] show ?case by auto
qed simp

text \<open>The statements so far are those of the nodes done so far.\<close>

lemma walk_visit:
  assumes "emit_nodes sp out = Inr statements"
  shows "walk sp n (seen, statements) =
    (case visit n (seen, out) of (seen', out') \<Rightarrow> ebind (emit_nodes sp out') (\<lambda>ss. Inr (seen', ss)))"
  using assms
proof (induction n arbitrary: seen out statements rule: measure_induct_rule [where f = size])
  case (less n)
  have kids: "efold (walk sp) cs (seen, statements) =
      (case fold visit cs (seen, out) of (seen', out') \<Rightarrow> ebind (emit_nodes sp out') (\<lambda>ss. Inr (seen', ss)))"
    if "set cs \<subseteq> set (children n)" "emit_nodes sp out = Inr statements" for cs seen out statements
    using that
  proof (induction cs arbitrary: seen out statements)
    case (Cons c cs)
    then have "size c < size n" by (intro children_size) simp
    note step = less.IH [OF this Cons.prems(2), of seen]
    obtain seen' out' where v: "visit c (seen, out) = (seen', out')" by (cases "visit c (seen, out)")
    show ?case
    proof (cases "emit_nodes sp out'")
      case (Inl e)
      obtain ys where ys: "snd (fold visit cs (seen', out')) = out' @ ys" using fold_extends [of cs "(seen', out')"] by auto
      with Inl have "emit_nodes sp (snd (fold visit cs (seen', out'))) = Inl e" by (simp add: emit_nodes_append)
      then show ?thesis using step v Inl by (simp add: case_prod_beta)
    next
      case (Inr ss)
      with Cons.IH [of out' ss seen'] Cons.prems(1) step v show ?thesis by simp
    qed
  qed simp
  show ?case
  proof (cases "node_id n \<in> seen")
    case True
    then show ?thesis using less.prems by (simp add: walk.simps visit.simps)
  next
    case False
    obtain seen' out' where v: "fold visit (children n) (insert (node_id n) seen, out) = (seen', out')"
      by (cases "fold visit (children n) (insert (node_id n) seen, out)")
    show ?thesis
      using kids [OF subset_refl less.prems, of "insert (node_id n) seen"] False v
      by (cases "emit_nodes sp out'"; cases "node_statements sp n")
        (simp_all add: walk.simps visit.simps emit_nodes_append emit_nodes_single)
  qed
qed

lemma emit_visit: "emit_equivalence sp n = emit_nodes sp (snd (visit n ({}, [])))"
proof -
  obtain seen' out' where v: "visit n ({}, []) = (seen', out')" by (cases "visit n ({}, [])")
  have "walk sp n ({}, []) = ebind (emit_nodes sp out') (\<lambda>ss. Inr (seen', ss))"
    using walk_visit [of sp "[]" "[]" n "{}"] v by simp
  with v show ?thesis by (cases "emit_nodes sp out'") (simp_all add: emit_equivalence_def)
qed

end
