(* ===== verification/Coa_Text.thy ===== *)
theory Coa_Text
  imports Coa_Prelude
begin

text \<open>
  The string methods of Python the harness uses on text: \<open>strip\<close>, \<open>rstrip\<close>, \<open>splitlines\<close>,
  \<open>startswith\<close>, \<open>endswith\<close>, on strings of one-byte code points.
\<close>


section \<open>Methods\<close>

definition is_blank :: "char \<Rightarrow> bool" where
  "is_blank c \<longleftrightarrow> c \<in> {CHR '' '', CHR 0x09, CHR 0x0A, CHR 0x0B, CHR 0x0C, CHR 0x0D, CHR 0x1C, CHR 0x1D, CHR 0x1E, CHR 0x1F, CHR 0x85, CHR 0xA0}"

definition is_break :: "char \<Rightarrow> bool" where
  "is_break c \<longleftrightarrow> c \<in> {CHR 0x0A, CHR 0x0B, CHR 0x0C, CHR 0x0D, CHR 0x1C, CHR 0x1D, CHR 0x1E, CHR 0x85}"

abbreviation newline :: char where
  "newline \<equiv> CHR 0x0A"

definition rstrip_chars :: "(char \<Rightarrow> bool) \<Rightarrow> string \<Rightarrow> string" where
  "rstrip_chars p s = rev (dropWhile p (rev s))"

definition rstrip :: "string \<Rightarrow> string" where
  "rstrip s = rstrip_chars is_blank s"

definition strip :: "string \<Rightarrow> string" where
  "strip s = rstrip (dropWhile is_blank s)"

definition starts_with :: "string \<Rightarrow> string \<Rightarrow> bool" where
  "starts_with prefix s \<longleftrightarrow> take (length prefix) s = prefix"

definition ends_with :: "string \<Rightarrow> string \<Rightarrow> bool" where
  "ends_with suffix s \<longleftrightarrow> starts_with (rev suffix) (rev s)"

definition contains :: "string \<Rightarrow> string \<Rightarrow> bool" where
  "contains needle s \<longleftrightarrow> (\<exists>k \<in> {0..length s}. starts_with needle (drop k s))"

text \<open>\<open>lower\<close>: the capital letters, those with an accent included, have their small form 32 code points up.\<close>

definition lower_char :: "char \<Rightarrow> char" where
  "lower_char c =
     (let n = (of_char c :: int) in if 65 \<le> n \<and> n \<le> 90 \<or> 192 \<le> n \<and> n \<le> 222 \<and> n \<noteq> 215 then char_of (n + 32) else c)"

definition lower :: "string \<Rightarrow> string" where
  "lower s = map lower_char s"

text \<open>A carriage return with a line feed is one break; a last line without a break is a line.\<close>

fun split_lines :: "string \<Rightarrow> string list" where
  "split_lines [] = []"
| "split_lines (c # s) =
     (if c = CHR 0x0D \<and> starts_with [newline] s then [] # split_lines (tl s)
      else if is_break c then [] # split_lines s
      else case split_lines s of [] \<Rightarrow> [[c]] | l # ls \<Rightarrow> (c # l) # ls)"


section \<open>Laws\<close>

lemma rstrip_idem [simp]: "rstrip_chars p (rstrip_chars p s) = rstrip_chars p s"
  by (simp add: rstrip_chars_def)

lemma rstrip_snoc [simp]: "rstrip_chars p (s @ [c]) = (if p c then rstrip_chars p s else s @ [c])"
  by (simp add: rstrip_chars_def)

lemma rstrip_Nil [simp]: "rstrip_chars p [] = []"
  by (simp add: rstrip_chars_def)

lemma rstrip_fixed: "s = [] \<or> \<not> p (last s) \<Longrightarrow> rstrip_chars p s = s"
  by (cases s rule: rev_cases) auto

lemma rstrip_last: "rstrip_chars p s \<noteq> [] \<Longrightarrow> \<not> p (last (rstrip_chars p s))"
  by (induction s rule: rev_induct) auto

lemma ends_with_snoc [simp]: "ends_with [c] (s @ [d]) \<longleftrightarrow> c = d"
  by (auto simp: ends_with_def starts_with_def)

lemma ends_with_Nil [simp]: "\<not> ends_with [c] []"
  by (simp add: ends_with_def starts_with_def)

lemma starts_with_append [simp]: "starts_with p (p @ s)"
  by (simp add: starts_with_def)

lemma split_solid: "s \<noteq> [] \<Longrightarrow> list_all (\<lambda>c. \<not> is_break c) s \<Longrightarrow> split_lines s = [s]"
proof (induction s)
  case (Cons c s)
  then have "c \<noteq> CHR 0x0D" by (auto simp: is_break_def)
  with Cons show ?case by (cases s) auto
qed simp

text \<open>A line that was closed with a line feed ends there, whatever follows.\<close>

lemma split_closed:
  "list_all (\<lambda>c. \<not> is_break c) s \<Longrightarrow> split_lines (s @ newline # rest) = s # split_lines rest"
proof (induction s)
  case Nil
  then show ?case by (simp add: is_break_def)
next
  case (Cons c s)
  then have "c \<noteq> CHR 0x0D" "\<not> is_break c" by (auto simp: is_break_def)
  with Cons show ?case by simp
qed

end
