(* ===== verification/Coa_Compare.thy ===== *)
theory Coa_Compare
  imports Complex_Main "HOL-Library.List_Lexorder" "HOL-Library.Char_ord" Coa_Types Coa_Text
begin

text \<open>
  \<open>eqgen/fuzz/database.py\<close> and \<open>compare.py\<close>: multisets of result rows, their comparison with a
  tolerance for floating point, and the verdict on a query run on both sides.

  A \<open>Counter\<close> of rows is an association list in insertion order.  \<open>compare_multisets\<close> is polymorphic in
  the rows, with the tolerance \<open>close\<close> as an argument; \<open>rows_close\<close> is the tolerance the code uses.
  Finite floats and decimals are rationals, \<open>math.isclose\<close> is its defining inequality on them.
\<close>


section \<open>Cells\<close>

datatype num_tag = TBool | TInt | TFloat | TDecimal

text \<open>Numbers carry their Python type; \<open>NanCell d\<close> is a raw NaN (a \<open>Decimal\<close> when \<open>d\<close>), \<open>InfCell d pos\<close> an infinity.\<close>

datatype cell =
    NoneCell
  | NumCell num_tag rat
  | NanCell bool
  | InfCell bool bool
  | StrCell string
  | TupleCell "cell list"
  | OtherCell string

text \<open>\<open>left == right\<close>: numbers by value whatever their types, NaN equal to nothing, tuples by item.\<close>

fun py_eq :: "cell \<Rightarrow> cell \<Rightarrow> bool" where
  "py_eq NoneCell NoneCell = True"
| "py_eq (NumCell t x) (NumCell u y) = (x = y)"
| "py_eq (InfCell d p) (InfCell e q) = (p = q)"
| "py_eq (StrCell s) (StrCell u) = (s = u)"
| "py_eq (TupleCell []) (TupleCell []) = True"
| "py_eq (TupleCell (x # xs)) (TupleCell (y # ys)) = (py_eq x y \<and> py_eq (TupleCell xs) (TupleCell ys))"
| "py_eq (OtherCell s) (OtherCell u) = (s = u)"
| "py_eq _ _ = False"

definition nan_sentinel :: cell where
  "nan_sentinel = TupleCell [StrCell ''__nan__'']"

definition inf_sentinel :: "bool \<Rightarrow> cell" where
  "inf_sentinel pos = TupleCell [StrCell ''__inf__'', NumCell TBool (if pos then 1 else 0)]"

text \<open>
  \<open>_freeze\<close>: what a driver hands back, made hashable.  Dictionaries and sets are sorted by \<open>repr\<close>,
  which is a parameter.
\<close>

datatype raw =
    RawCell cell
  | RawList "raw list"
  | RawTuple "raw list"
  | RawSet "raw list"
  | RawDict "(raw \<times> raw) list"
  | RawByteArray string

definition freeze_cell :: "cell \<Rightarrow> cell" where
  "freeze_cell c =
     (case c of NanCell d \<Rightarrow> if d then c else nan_sentinel
      | InfCell d pos \<Rightarrow> if d then c else inf_sentinel pos
      | _ \<Rightarrow> c)"

fun freeze :: "(cell \<Rightarrow> string) \<Rightarrow> raw \<Rightarrow> cell" where
  "freeze repr (RawCell c) = freeze_cell c"
| "freeze repr (RawList xs) = TupleCell (map (freeze repr) xs)"
| "freeze repr (RawTuple xs) = TupleCell (map (freeze repr) xs)"
| "freeze repr (RawSet xs) = TupleCell (sort_key repr (map (freeze repr) xs))"
| "freeze repr (RawDict kvs) =
     TupleCell (sort_key repr (map (\<lambda>(k, v). TupleCell [freeze repr k, freeze repr v]) kvs))"
| "freeze repr (RawByteArray s) = OtherCell s"

definition canonical_row :: "(cell \<Rightarrow> string) \<Rightarrow> raw list \<Rightarrow> cell list" where
  "canonical_row repr r = map (freeze repr) r"


section \<open>Numeric strings\<close>

definition is_digit :: "char \<Rightarrow> bool" where
  "is_digit c \<longleftrightarrow> c \<in> set ''0123456789''"

definition digit_value :: "char \<Rightarrow> int" where
  "digit_value c = int (of_char c) - 48"

definition digits_value :: "string \<Rightarrow> int" where
  "digits_value s = foldl (\<lambda>a c. 10 * a + digit_value c) 0 s"

definition take_sign :: "string \<Rightarrow> int \<times> string" where
  "take_sign s = (case s of c # r \<Rightarrow> if c = CHR ''+'' then (1, r) else if c = CHR ''-'' then (-1, r) else (1, s) | [] \<Rightarrow> (1, s))"

text \<open>An exponent: nothing, or \<open>e\<close>, a sign and digits up to the end.\<close>

definition exponent :: "string \<Rightarrow> int option" where
  "exponent s =
     (case s of [] \<Rightarrow> Some 0
      | c # r \<Rightarrow>
          if c = CHR ''e'' \<or> c = CHR ''E'' then
            (let (sg, ds) = take_sign r in if ds \<noteq> [] \<and> list_all is_digit ds then Some (sg * digits_value ds) else None)
          else None)"

definition ten_power :: "int \<Rightarrow> rat" where
  "ten_power k = (if 0 \<le> k then 10 ^ nat k else 1 / 10 ^ nat (- k))"

text \<open>\<open>_NUMERIC_STRING.fullmatch(value.strip())\<close> and \<open>float(value)\<close>: digits with an optional point and exponent.\<close>

definition numeric_string :: "string \<Rightarrow> rat option" where
  "numeric_string text =
     (let (sg, body) = take_sign (strip text);
          whole = takeWhile is_digit body;
          rest = dropWhile is_digit body;
          (fraction, tail) = (case rest of c # r \<Rightarrow> if c = CHR ''.'' then (takeWhile is_digit r, dropWhile is_digit r) else ([], rest)
                              | [] \<Rightarrow> ([], rest))
      in if whole = [] \<and> fraction = [] then None
         else case exponent tail of
           None \<Rightarrow> None
         | Some k \<Rightarrow> Some (of_int sg * (of_int (digits_value (whole @ fraction))) * ten_power (k - int (length fraction))))"


section \<open>Closeness\<close>

definition float_rel_tol :: rat where "float_rel_tol = 1 / 10000"

definition float_abs_tol :: rat where "float_abs_tol = 5 / 10000"

definition is_close :: "rat \<Rightarrow> rat \<Rightarrow> bool" where
  "is_close a b \<longleftrightarrow> \<bar>a - b\<bar> \<le> max (float_rel_tol * max \<bar>a\<bar> \<bar>b\<bar>) float_abs_tol"

text \<open>A numeric cell as a float: a finite value, NaN, or an infinity.\<close>

datatype floating = Finite rat | NotANumber | Infinite bool

definition as_float :: "cell \<Rightarrow> floating option" where
  "as_float c =
     (case c of
        NumCell t x \<Rightarrow> if t = TBool then None else Some (Finite x)
      | NanCell d \<Rightarrow> Some NotANumber
      | InfCell d pos \<Rightarrow> Some (Infinite pos)
      | StrCell s \<Rightarrow> map_option Finite (numeric_string s)
      | _ \<Rightarrow> None)"

definition is_bool_cell :: "cell \<Rightarrow> bool" where
  "is_bool_cell c = (case c of NumCell t x \<Rightarrow> t = TBool | _ \<Rightarrow> False)"

definition is_nan_cell :: "cell \<Rightarrow> bool" where
  "is_nan_cell c \<longleftrightarrow> py_eq c nan_sentinel \<or> (case c of NanCell d \<Rightarrow> True | _ \<Rightarrow> False)"

definition values_close :: "cell \<Rightarrow> cell \<Rightarrow> bool" where
  "values_close l r =
     (if py_eq l r then True
      else if py_eq l nan_sentinel \<or> py_eq r nan_sentinel then is_nan_cell l \<and> is_nan_cell r
      else if is_bool_cell l \<or> is_bool_cell r then False
      else case (as_float l, as_float r) of
        (Some NotANumber, Some NotANumber) \<Rightarrow> True
      | (Some (Finite a), Some (Finite b)) \<Rightarrow> is_close a b
      | (Some (Infinite p), Some (Infinite q)) \<Rightarrow> p = q
      | _ \<Rightarrow> False)"

definition rows_close :: "cell list \<Rightarrow> cell list \<Rightarrow> bool" where
  "rows_close l r \<longleftrightarrow> length l = length r \<and> list_all2 values_close l r"


section \<open>compare\_multisets\<close>

record 'r multiset_diff =
  df_equal :: bool
  only_in_base :: "('r \<times> nat) list"
  only_in_other :: "('r \<times> nat) list"
  reconciled :: nat

text \<open>\<open>counts[k] -= n\<close> on an entry that is there.\<close>

fun take_away :: "'r \<Rightarrow> nat \<Rightarrow> 'r counter \<Rightarrow> 'r counter" where
  "take_away k n [] = []"
| "take_away k n ((j, m) # cs) = (if j = k then (j, m - n) # cs else (j, m) # take_away k n cs)"

text \<open>The exact pass: each row of the base against the same row of the other side.\<close>

fun exact_pass :: "('r \<times> nat) list \<Rightarrow> 'r counter \<Rightarrow> 'r counter \<Rightarrow> 'r counter \<times> 'r counter" where
  "exact_pass [] missing extra = (missing, extra)"
| "exact_pass ((row, tally) # rows) missing extra =
     (let shared = min tally (count_of extra row)
      in if shared = 0 then exact_pass rows missing extra
         else exact_pass rows (take_away row shared missing) (take_away row shared extra))"

text \<open>One base row against the rows left on the other side.\<close>

fun near_row ::
  "('r \<Rightarrow> 'r \<Rightarrow> bool) \<Rightarrow> 'r \<Rightarrow> ('r \<times> nat) list \<Rightarrow> 'r counter \<Rightarrow> 'r counter \<Rightarrow> nat
     \<Rightarrow> 'r counter \<times> 'r counter \<times> nat" where
  "near_row close b [] missing extra got = (missing, extra, got)"
| "near_row close b ((row, tally) # rows) missing extra got =
     (if tally = 0 \<or> row = b \<or> \<not> close b row then near_row close b rows missing extra got
      else let shared = min (count_of missing b) (count_of extra row)
           in if shared = 0 then near_row close b rows missing extra got
              else let missing' = take_away b shared missing; extra' = take_away row shared extra
                   in if count_of missing' b = 0 then (missing', extra', got + shared)
                      else near_row close b rows missing' extra' (got + shared))"

fun near_pass ::
  "('r \<Rightarrow> 'r \<Rightarrow> bool) \<Rightarrow> ('r \<times> nat) list \<Rightarrow> 'r counter \<Rightarrow> 'r counter \<Rightarrow> nat \<Rightarrow> 'r counter \<times> 'r counter \<times> nat" where
  "near_pass close [] missing extra got = (missing, extra, got)"
| "near_pass close ((row, tally) # rows) missing extra got =
     (if tally = 0 then near_pass close rows missing extra got
      else case near_row close row extra missing extra got of
        (missing', extra', got') \<Rightarrow> near_pass close rows missing' extra' got')"

definition positive_counts :: "'r counter \<Rightarrow> 'r counter" where
  "positive_counts c = filter (\<lambda>(row, n). 0 < n) c"

definition compare_multisets ::
  "('r \<Rightarrow> 'r \<Rightarrow> bool) \<Rightarrow> ('r \<Rightarrow> string) \<Rightarrow> 'r counter \<Rightarrow> 'r counter \<Rightarrow> 'r multiset_diff" where
  "compare_multisets close repr base other =
     (case exact_pass base base other of (missing, extra) \<Rightarrow>
      case near_pass close missing missing extra 0 of (missing', extra', got) \<Rightarrow>
        let left = positive_counts missing'; right = positive_counts extra'
        in \<lparr>df_equal = (left = [] \<and> right = []),
            only_in_base = sort_key (repr \<circ> fst) left, only_in_other = sort_key (repr \<circ> fst) right,
            reconciled = got\<rparr>)"

end
