(* ===== verification/Coa_Compare_Laws.thy ===== *)
theory Coa_Compare_Laws
  imports "HOL-Library.Multiset" Coa_Compare
begin

text \<open>
  What \<open>compare_multisets\<close> decides, against a specification on multisets: the rows taken away on the two
  sides pair up, each pair equal or close, and \<open>reconciled\<close> counts the pairs that are not equal.
\<close>


section \<open>Counters and multisets\<close>

definition rows_of :: "'r counter \<Rightarrow> 'r multiset" where
  "rows_of c = sum_list (map (\<lambda>(r, n). replicate_mset n r) c)"

abbreviation keyed :: "'r counter \<Rightarrow> bool" where
  "keyed c \<equiv> distinct (map fst c)"

lemma count_of_Cons: "count_of ((k, n) # c) r = (if r = k then n else count_of c r)"
  by (simp add: count_of_def)

lemma count_of_absent: "r \<notin> fst ` set c \<Longrightarrow> count_of c r = 0"
  by (simp add: count_of_def map_of_eq_None_iff [THEN iffD2])

lemma count_rows [simp]: "keyed c \<Longrightarrow> count (rows_of c) r = count_of c r"
proof (induction c)
  case (Cons p c)
  obtain k n where "p = (k, n)" by (cases p)
  with Cons count_of_absent [of k c] show ?case by (auto simp: rows_of_def count_of_Cons)
qed (simp add: rows_of_def count_of_def)

lemma entry_count: "keyed c \<Longrightarrow> (r, n) \<in> set c \<Longrightarrow> count_of c r = n"
  by (simp add: count_of_def)

lemma keys_take_away [simp]: "map fst (take_away k n c) = map fst c"
  by (induction k n c rule: take_away.induct) auto

lemma count_take_away [simp]: "count_of (take_away k n c) r = (if r = k then count_of c r - n else count_of c r)"
  by (induction k n c rule: take_away.induct) (auto simp: count_of_Cons, auto simp: count_of_def)


section \<open>Pairings\<close>

definition pairing ::
  "('r \<Rightarrow> 'r \<Rightarrow> bool) \<Rightarrow> 'r multiset \<Rightarrow> 'r multiset \<Rightarrow> 'r multiset \<Rightarrow> 'r multiset \<Rightarrow> nat \<Rightarrow> bool" where
  "pairing close base other missing extra got \<longleftrightarrow>
     (\<exists>P. base = missing + image_mset fst P \<and> other = extra + image_mset snd P \<and>
        (\<forall>(b, r) \<in> set_mset P. b = r \<or> close b r) \<and> got = size (filter_mset (\<lambda>(b, r). b \<noteq> r) P))"

lemma pairing_start: "pairing close base other base other 0"
  unfolding pairing_def by (rule exI [of _ "{#}"]) simp

lemma taken_rows:
  assumes "keyed c" "n \<le> count_of c k"
  shows "rows_of c = rows_of (take_away k n c) + replicate_mset n k"
  using assms by (intro multiset_eqI) simp

lemma filter_copies: "filter_mset p (replicate_mset n x) = (if p x then replicate_mset n x else {#})"
  by (induction n) auto

lemma pairing_step:
  assumes "pairing close base other (rows_of missing) (rows_of extra) got"
    and "keyed missing" "keyed extra" "n \<le> count_of missing b" "n \<le> count_of extra r" "b = r \<or> close b r"
  shows "pairing close base other (rows_of (take_away b n missing)) (rows_of (take_away r n extra)) (got + (if b = r then 0 else n))"
proof -
  obtain P where P: "base = rows_of missing + image_mset fst P" "other = rows_of extra + image_mset snd P"
    "\<forall>(b, r) \<in> set_mset P. b = r \<or> close b r" "got = size (filter_mset (\<lambda>(b, r). b \<noteq> r) P)"
    using assms(1) by (auto simp: pairing_def)
  let ?P = "P + replicate_mset n (b, r)"
  have "base = rows_of (take_away b n missing) + image_mset fst ?P"
    "other = rows_of (take_away r n extra) + image_mset snd ?P"
    using P(1,2) taken_rows [OF assms(2,4)] taken_rows [OF assms(3,5)] by simp_all
  moreover have "\<forall>(b, r) \<in> set_mset ?P. b = r \<or> close b r" using P(3) assms(6) by (auto split: if_splits)
  moreover have "got + (if b = r then 0 else n) = size (filter_mset (\<lambda>(b, r). b \<noteq> r) ?P)"
    using P(4) by (simp add: filter_copies)
  ultimately show ?thesis unfolding pairing_def by blast
qed


section \<open>The exact pass\<close>

lemma take_away_none [simp]: "take_away k 0 c = c"
  by (induction k "0 :: nat" c rule: take_away.induct) auto

lemma exact_pass_Cons: "exact_pass ((row, n) # rows) missing extra =
    exact_pass rows (take_away row (min n (count_of extra row)) missing) (take_away row (min n (count_of extra row)) extra)"
  by (cases "min n (count_of extra row) = 0") (simp_all add: Let_def)

declare exact_pass.simps(2) [simp del]

lemma later_rows:
  assumes "row \<notin> fst ` set rows" "\<forall>(r, n) \<in> set rows. n = count_of missing r"
  shows "\<forall>(r, n) \<in> set rows. n = count_of (take_away row k missing) r"
proof (clarify)
  fix r n
  assume rn: "(r, n) \<in> set rows"
  then have "r \<noteq> row" using assms(1) by (metis fst_conv image_eqI)
  with assms(2) rn show "n = count_of (take_away row k missing) r" by auto
qed

lemma exact_pass_counts:
  assumes "keyed rows" "\<forall>(r, n) \<in> set rows. n = count_of missing r" "exact_pass rows missing extra = (m, e)"
  shows "map fst m = map fst missing \<and> map fst e = map fst extra"
    and "count_of m r = (if r \<in> fst ` set rows then count_of missing r - count_of extra r else count_of missing r)"
    and "count_of e r = (if r \<in> fst ` set rows then count_of extra r - count_of missing r else count_of extra r)"
proof -
  have "map fst m = map fst missing \<and> map fst e = map fst extra \<and>
    count_of m r = (if r \<in> fst ` set rows then count_of missing r - count_of extra r else count_of missing r) \<and>
    count_of e r = (if r \<in> fst ` set rows then count_of extra r - count_of missing r else count_of extra r)"
    using assms
  proof (induction rows arbitrary: missing extra)
    case (Cons p rows)
    obtain row n where p: "p = (row, n)" by (cases p)
    define k where "k = min n (count_of extra row)"
    have rest: "keyed rows" "row \<notin> fst ` set rows" "\<forall>(r, n) \<in> set rows. n = count_of missing r" "n = count_of missing row"
      using Cons.prems(1,2) p by auto
    have "exact_pass rows (take_away row k missing) (take_away row k extra) = (m, e)"
      using Cons.prems(3) p by (simp add: exact_pass_Cons k_def)
    from Cons.IH [OF rest(1) later_rows [OF rest(2,3)] this] rest(2,4) p
    show ?case by (cases "r = row") (simp_all add: k_def min_def)
  qed simp
  then show "map fst m = map fst missing \<and> map fst e = map fst extra"
    "count_of m r = (if r \<in> fst ` set rows then count_of missing r - count_of extra r else count_of missing r)"
    "count_of e r = (if r \<in> fst ` set rows then count_of extra r - count_of missing r else count_of extra r)" by blast+
qed

lemma exact_pass_pairing:
  assumes "keyed rows" "\<forall>(r, n) \<in> set rows. n = count_of missing r" "exact_pass rows missing extra = (m, e)"
    and "pairing close base other (rows_of missing) (rows_of extra) got" "keyed missing" "keyed extra"
  shows "pairing close base other (rows_of m) (rows_of e) got"
  using assms
proof (induction rows arbitrary: missing extra)
  case (Cons p rows)
  obtain row n where p: "p = (row, n)" by (cases p)
  define k where "k = min n (count_of extra row)"
  have rest: "keyed rows" "row \<notin> fst ` set rows" "\<forall>(r, n) \<in> set rows. n = count_of missing r" "n = count_of missing row"
    using Cons.prems(1,2) p by auto
  have step: "exact_pass rows (take_away row k missing) (take_away row k extra) = (m, e)"
    using Cons.prems(3) p by (simp add: exact_pass_Cons k_def)
  have "pairing close base other (rows_of (take_away row k missing)) (rows_of (take_away row k extra)) (got + (if row = row then 0 else k))"
    by (rule pairing_step [OF Cons.prems(4-6)]) (simp_all add: k_def rest(4))
  then show ?case using Cons.IH [OF rest(1) later_rows [OF rest(2,3)] step] Cons.prems(5,6) by simp
qed simp


section \<open>The near pass\<close>

lemma near_row_pairing:
  assumes "near_row close b rows missing extra got = (m, e, k)"
    and "pairing close base other (rows_of missing) (rows_of extra) got" "keyed missing" "keyed extra"
  shows "pairing close base other (rows_of m) (rows_of e) k \<and> map fst m = map fst missing \<and> map fst e = map fst extra"
  using assms
proof (induction close b rows missing extra got rule: near_row.induct)
  case (2 close b row tally rows missing extra got)
  let ?s = "min (count_of missing b) (count_of extra row)"
  consider "tally = 0 \<or> row = b \<or> \<not> close b row" | "\<not> (tally = 0 \<or> row = b \<or> \<not> close b row)" "?s = 0"
    | "\<not> (tally = 0 \<or> row = b \<or> \<not> close b row)" "?s \<noteq> 0" by blast
  then show ?case
  proof cases
    case 1
    then have "near_row close b rows missing extra got = (m, e, k)" using "2.prems"(1) by simp
    from "2.IH"(1) [OF 1 this "2.prems"(2-4)] show ?thesis .
  next
    case 2
    then have "near_row close b rows missing extra got = (m, e, k)"
      using "2.prems"(1) by (simp only: near_row.simps Let_def if_False if_True simp_thms)
    from "2.IH"(2) [OF 2(1) refl 2(2) this "2.prems"(2-4)] show ?thesis .
  next
    case test: 3
    have "pairing close base other (rows_of (take_away b ?s missing)) (rows_of (take_away row ?s extra)) (got + (if b = row then 0 else ?s))"
      by (rule pairing_step [OF "2.prems"(2-4)]) (use test in auto)
    then have step: "pairing close base other (rows_of (take_away b ?s missing)) (rows_of (take_away row ?s extra)) (got + ?s)"
      using test by auto
    show ?thesis
    proof (cases "count_of (take_away b ?s missing) b = 0")
      case True
      with "2.prems"(1) test have "m = take_away b ?s missing \<and> e = take_away row ?s extra \<and> k = got + ?s"
        by (simp add: Let_def)
      with step show ?thesis by simp
    next
      case more: False
      then have "near_row close b rows (take_away b ?s missing) (take_away row ?s extra) (got + ?s) = (m, e, k)"
        using "2.prems"(1) test by (simp only: near_row.simps Let_def if_False)
      from "2.IH"(3) [OF test(1) refl test(2) refl refl more this step] "2.prems"(3,4) show ?thesis by simp
    qed
  qed
qed simp

lemma near_pass_pairing:
  assumes "near_pass close rows missing extra got = (m, e, k)"
    and "pairing close base other (rows_of missing) (rows_of extra) got" "keyed missing" "keyed extra"
  shows "pairing close base other (rows_of m) (rows_of e) k \<and> keyed m \<and> keyed e"
  using assms
proof (induction rows arbitrary: missing extra got)
  case (Cons p rows)
  obtain row n where p: "p = (row, n)" by (cases p)
  show ?case
  proof (cases "n = 0")
    case True
    with Cons p show ?thesis by simp
  next
    case False
    obtain m' e' k' where near: "near_row close row extra missing extra got = (m', e', k')"
      by (cases "near_row close row extra missing extra got")
    from near_row_pairing [OF near Cons.prems(2-4)] have
      "pairing close base other (rows_of m') (rows_of e') k'" "map fst m' = map fst missing" "map fst e' = map fst extra" by blast+
    moreover have "near_pass close rows m' e' k' = (m, e, k)" using Cons.prems(1) False p near by simp
    ultimately show ?thesis using Cons.IH [of m' e' k'] Cons.prems(3,4) by simp
  qed
qed simp

lemma near_pass_nothing: "\<forall>(r, n) \<in> set rows. n = 0 \<Longrightarrow> near_pass close rows missing extra got = (missing, extra, got)"
  by (induction rows) auto


section \<open>The comparison\<close>

lemma positive_empty: "keyed c \<Longrightarrow> positive_counts c = [] \<longleftrightarrow> rows_of c = {#}"
proof -
  assume c: "keyed c"
  have "positive_counts c = [] \<longleftrightarrow> (\<forall>(r, n) \<in> set c. n = 0)" by (auto simp: positive_counts_def filter_empty_conv)
  also have "\<dots> \<longleftrightarrow> rows_of c = {#}"
    by (induction c) (auto simp: rows_of_def)
  finally show ?thesis .
qed

lemma compare_pairing:
  assumes "keyed base" "keyed other"
  obtains m e where "keyed m" "keyed e" "pairing close (rows_of base) (rows_of other) (rows_of m) (rows_of e) (reconciled (compare_multisets close repr base other))"
    "df_equal (compare_multisets close repr base other) \<longleftrightarrow> rows_of m = {#} \<and> rows_of e = {#}"
    "set (only_in_base (compare_multisets close repr base other)) = {(r, n) \<in> set m. 0 < n}"
    "set (only_in_other (compare_multisets close repr base other)) = {(r, n) \<in> set e. 0 < n}"
proof -
  obtain m1 e1 where exact: "exact_pass base base other = (m1, e1)" by (cases "exact_pass base base other")
  have entries: "\<forall>(r, n) \<in> set base. n = count_of base r" using entry_count [OF assms(1)] by fastforce
  have keys: "map fst m1 = map fst base" "map fst e1 = map fst other"
    using exact_pass_counts(1) [OF assms(1) entries exact] by blast+
  have p1: "pairing close (rows_of base) (rows_of other) (rows_of m1) (rows_of e1) 0"
    by (rule exact_pass_pairing [OF assms(1) entries exact pairing_start assms])
  obtain m e k where near: "near_pass close m1 m1 e1 0 = (m, e, k)" by (cases "near_pass close m1 m1 e1 0")
  have p2: "pairing close (rows_of base) (rows_of other) (rows_of m) (rows_of e) k" "keyed m" "keyed e"
    using near_pass_pairing [OF near p1] keys assms by auto
  have cmp: "compare_multisets close repr base other =
      \<lparr>df_equal = (positive_counts m = [] \<and> positive_counts e = []), only_in_base = sort_key (repr \<circ> fst) (positive_counts m),
        only_in_other = sort_key (repr \<circ> fst) (positive_counts e), reconciled = k\<rparr>"
    by (simp add: compare_multisets_def exact near Let_def)
  show thesis
    by (rule that [OF p2(2,3)]) (use p2 positive_empty in \<open>auto simp: cmp positive_counts_def\<close>)
qed

lemma compare_same:
  assumes "keyed base" "keyed other" "rows_of base = rows_of other"
  shows "df_equal (compare_multisets close repr base other) \<and> reconciled (compare_multisets close repr base other) = 0"
proof -
  obtain m1 e1 where exact: "exact_pass base base other = (m1, e1)" by (cases "exact_pass base base other")
  have entries: "\<forall>(r, n) \<in> set base. n = count_of base r" using entry_count [OF assms(1)] by fastforce
  note counts = exact_pass_counts [OF assms(1) entries exact]
  have same: "count_of base r = count_of other r" for r using assms by (metis count_rows)
  have absent: "count_of other r = 0" if "r \<notin> fst ` set base" for r using count_of_absent [OF that] same by simp
  have "count_of m1 r = 0" "count_of e1 r = 0" for r using counts(2,3) [of r] same [of r] absent [of r] by (auto split: if_splits simp: count_of_absent)
  moreover have "keyed m1" "keyed e1" using counts(1) assms by auto
  ultimately have zero: "\<forall>(r, n) \<in> set m1. n = 0" "\<forall>(r, n) \<in> set e1. n = 0" using entry_count by fastforce+
  then have "positive_counts m1 = []" "positive_counts e1 = []" by (auto simp: positive_counts_def filter_empty_conv)
  then show ?thesis by (simp add: compare_multisets_def exact near_pass_nothing [OF zero(1)])
qed

end
