(* ===== verification/Coa_Verdict.thy ===== *)
theory Coa_Verdict
  imports Coa_Compare
begin

text \<open>
  \<open>eqgen/fuzz/compare.py\<close>, and the parts of \<open>database.py\<close> around a query: what one side did with a
  query, what a difference between the sides means, the comparison of the exposed objects, the setup
  statements.  The engine is a parameter: what it answers to a statement is data.
\<close>


section \<open>One side\<close>

record 'r outcome =
  oc_rows :: "'r counter option"
  oc_error :: "string option"
  oc_known :: "string option"

text \<open>
  How the execution of a query ends: rows, a driver error (with the adapter's label for it, if it is a
  known issue), a cell that cannot be hashed, bytes that cannot be decoded.
\<close>

datatype 'r response = Fetched "'r list" | DriverError string "string option" | Unhashable string | Undecodable string

text \<open>\<open>Counter(rows)\<close>\<close>

definition tally_rows :: "'r list \<Rightarrow> 'r counter" where
  "tally_rows rs = fold bump_count rs []"

text \<open>\<open>label or str(exc)\<close>: an empty label counts as none for the message, not for \<open>known_issue\<close>.\<close>

definition or_text :: "string option \<Rightarrow> string \<Rightarrow> string" where
  "or_text label text = (case label of Some l \<Rightarrow> if l = [] then text else l | None \<Rightarrow> text)"

fun query_outcome :: "'r response \<Rightarrow> 'r outcome" where
  "query_outcome (Fetched rs) = \<lparr>oc_rows = Some (tally_rows rs), oc_error = None, oc_known = None\<rparr>"
| "query_outcome (DriverError text label) =
     \<lparr>oc_rows = None, oc_error = Some (or_text label text), oc_known = label\<rparr>"
| "query_outcome (Unhashable text) =
     \<lparr>oc_rows = None, oc_error = Some (''unhashable query result cell: '' @ text), oc_known = None\<rparr>"
| "query_outcome (Undecodable text) =
     \<lparr>oc_rows = None, oc_error = Some (''engine returned a value that is not valid UTF-8: '' @ text), oc_known = None\<rparr>"


section \<open>One query on both sides\<close>

record 'r query_comparison =
  qc_query :: string
  qc_equal :: bool
  qc_only_base :: "('r \<times> nat) list"
  qc_only_equivalent :: "('r \<times> nat) list"
  qc_base_error :: "string option"
  qc_equivalent_error :: "string option"
  qc_known :: "string option"
  qc_reconciled :: nat

definition compare_one ::
  "('r \<Rightarrow> 'r \<Rightarrow> bool) \<Rightarrow> ('r \<Rightarrow> string) \<Rightarrow> string \<Rightarrow> 'r response \<Rightarrow> 'r response \<Rightarrow> 'r query_comparison" where
  "compare_one close repr query base equivalent =
     (let b = query_outcome base; e = query_outcome equivalent in
      case (oc_rows b, oc_rows e) of
        (Some rb, Some re) \<Rightarrow>
          (let diff = compare_multisets close repr rb re
           in \<lparr>qc_query = query, qc_equal = df_equal diff, qc_only_base = only_in_base diff,
               qc_only_equivalent = only_in_other diff, qc_base_error = None, qc_equivalent_error = None,
               qc_known = None, qc_reconciled = reconciled diff\<rparr>)
      | _ \<Rightarrow> \<lparr>qc_query = query, qc_equal = False, qc_only_base = [], qc_only_equivalent = [],
               qc_base_error = oc_error b, qc_equivalent_error = oc_error e, qc_known = oc_known e, qc_reconciled = 0\<rparr>)"

definition is_uncomparable :: "'r query_comparison \<Rightarrow> bool" where
  "is_uncomparable c \<longleftrightarrow> qc_base_error c \<noteq> None"

definition is_pass :: "'r query_comparison \<Rightarrow> bool" where
  "is_pass c \<longleftrightarrow> qc_base_error c = None \<and> qc_equivalent_error c = None \<and> qc_equal c"

definition is_known_issue :: "'r query_comparison \<Rightarrow> bool" where
  "is_known_issue c \<longleftrightarrow> qc_base_error c = None \<and> qc_known c \<noteq> None"

definition is_error :: "'r query_comparison \<Rightarrow> bool" where
  "is_error c \<longleftrightarrow> qc_base_error c = None \<and> qc_equivalent_error c \<noteq> None \<and> qc_known c = None"

definition is_mismatch :: "'r query_comparison \<Rightarrow> bool" where
  "is_mismatch c \<longleftrightarrow> qc_base_error c = None \<and> qc_equivalent_error c = None \<and> \<not> qc_equal c"

definition is_reportable :: "'r query_comparison \<Rightarrow> bool" where
  "is_reportable c \<longleftrightarrow> is_error c \<or> is_mismatch c"

definition verdict_errors :: "'r query_comparison list \<Rightarrow> 'r query_comparison list" where
  "verdict_errors results = filter is_error results"

definition verdict_mismatches :: "'r query_comparison list \<Rightarrow> 'r query_comparison list" where
  "verdict_mismatches results = filter is_mismatch results"

definition findings :: "'r query_comparison list \<Rightarrow> 'r query_comparison list" where
  "findings results = filter is_reportable results"

text \<open>\<open>verdict\<close>: the label for the journal; \<open>repr\<close> of the sample rows is a parameter.\<close>

definition sample_repr :: "('r \<Rightarrow> string) \<Rightarrow> ('r \<times> nat) list \<Rightarrow> string" where
  "sample_repr repr rows = (case rows of [] \<Rightarrow> ''None'' | (r, n) # _ \<Rightarrow> repr r)"

definition optional_text :: "string option \<Rightarrow> string" where
  "optional_text s = (case s of None \<Rightarrow> ''None'' | Some t \<Rightarrow> t)"

definition verdict :: "('r \<Rightarrow> string) \<Rightarrow> 'r query_comparison \<Rightarrow> string" where
  "verdict repr c =
     (if is_mismatch c then
        ''MISMATCH: '' @ str_nat (length (qc_only_base c)) @ '' distinct only in base, ''
        @ str_nat (length (qc_only_equivalent c)) @ '' distinct only in equivalent; e.g. base=''
        @ sample_repr repr (qc_only_base c) @ '' equiv='' @ sample_repr repr (qc_only_equivalent c)
      else if is_error c then ''ERROR (equivalent): '' @ optional_text (qc_equivalent_error c)
      else if is_known_issue c then ''known-issue ('' @ optional_text (qc_known c) @ '')''
      else if is_uncomparable c then ''uncomparable (base rejected it): '' @ optional_text (qc_base_error c)
      else if qc_reconciled c \<noteq> 0 then ''PASS ('' @ str_nat (qc_reconciled c) @ '' row(s) reconciled by float tolerance)''
      else ''PASS'')"


section \<open>The exposed objects\<close>

record 'r object_comparison =
  ob_rows :: "'r multiset_diff"
  ob_base_types :: "string list"
  ob_equivalent_types :: "string list"

definition types_agree :: "'r object_comparison \<Rightarrow> bool" where
  "types_agree c \<longleftrightarrow> ob_base_types c = ob_equivalent_types c"

definition objects_equal :: "'r object_comparison \<Rightarrow> bool" where
  "objects_equal c \<longleftrightarrow> df_equal (ob_rows c) \<and> types_agree c"

text \<open>What a side holds under a name: its rows in the base column order, and the declared types.\<close>

type_synonym 'r side = "string \<Rightarrow> 'r list \<times> string list"

definition compare_objects ::
  "('r \<Rightarrow> 'r \<Rightarrow> bool) \<Rightarrow> ('r \<Rightarrow> string) \<Rightarrow> 'r side \<Rightarrow> 'r side \<Rightarrow> string \<Rightarrow> 'r object_comparison" where
  "compare_objects close repr base equivalent nm =
     \<lparr>ob_rows = compare_multisets close repr (tally_rows (fst (base nm))) (tally_rows (fst (equivalent nm))),
      ob_base_types = snd (base nm), ob_equivalent_types = snd (equivalent nm)\<rparr>"

text \<open>The first comparison that fails, or the first of all.\<close>

definition compare_env ::
  "('r \<Rightarrow> 'r \<Rightarrow> bool) \<Rightarrow> ('r \<Rightarrow> string) \<Rightarrow> 'r side \<Rightarrow> 'r side \<Rightarrow> table \<Rightarrow> string list \<Rightarrow> 'r object_comparison" where
  "compare_env close repr base equivalent catalog exposed =
     (let names = (if exposed = [] then [get_sql_name catalog False] else exposed);
          comparisons = map (compare_objects close repr base equivalent) names
      in case filter (\<lambda>c. \<not> objects_equal c) comparisons of c # _ \<Rightarrow> c | [] \<Rightarrow> hd comparisons)"


section \<open>Setup\<close>

definition base_suffix :: string where "base_suffix = ''__base''"

definition hidden_base_name :: "table \<Rightarrow> string" where
  "hidden_base_name t = get_sql_name t False @ base_suffix"

text \<open>\<open>exposed_fork_names\<close>: \<open>ValueError\<close> below one fork is \<open>None\<close>.\<close>

definition exposed_fork_names :: "int \<Rightarrow> string \<Rightarrow> string list option" where
  "exposed_fork_names forks seed_name =
     (if forks < 1 then None
      else if forks = 1 then Some [seed_name]
      else Some (map (\<lambda>i. seed_name @ str_nat i) [0..<nat forks]))"

text \<open>\<open>fork_copy_statements\<close>, with the adapter's \<open>fork_copy_sql\<close>; the default is \<open>CREATE TABLE \<dots> AS\<close>.\<close>

definition default_fork_copy :: "string \<Rightarrow> string \<Rightarrow> string list" where
  "default_fork_copy seed_name nm = [''CREATE TABLE '' @ nm @ '' AS SELECT * FROM '' @ seed_name]"

definition fork_copy_statements :: "(string \<Rightarrow> string \<Rightarrow> string list) \<Rightarrow> string \<Rightarrow> string list \<Rightarrow> string list" where
  "fork_copy_statements copy_sql seed_name exposed =
     concat (map (\<lambda>nm. if nm = seed_name then [] else copy_sql seed_name nm) exposed)"

definition base_setup_statements :: "(table \<Rightarrow> string) \<Rightarrow> ('v \<Rightarrow> string) \<Rightarrow> table \<Rightarrow> 'v list list \<Rightarrow> string list" where
  "base_setup_statements ddl literal t rows =
     ddl t # map (\<lambda>r. ''INSERT INTO '' @ get_sql_name t False @ '' VALUES (''
                      @ join_with '', '' (map literal r) @ '')'') rows"

definition rename_aside_sql :: "string \<Rightarrow> string \<Rightarrow> string" where
  "rename_aside_sql nm hidden = ''ALTER TABLE '' @ nm @ '' RENAME TO '' @ hidden"

text \<open>What \<open>build_base\<close> and \<open>build_equivalent\<close> run, in order.\<close>

definition base_side_statements ::
  "(table \<Rightarrow> string) \<Rightarrow> ('v \<Rightarrow> string) \<Rightarrow> (string \<Rightarrow> string \<Rightarrow> string list) \<Rightarrow> table \<Rightarrow> 'v list list \<Rightarrow> string list \<Rightarrow> string list" where
  "base_side_statements ddl literal copy_sql t rows exposed =
     base_setup_statements ddl literal t rows
     @ fork_copy_statements copy_sql (get_sql_name t False) (if exposed = [] then [get_sql_name t False] else exposed)"

definition equivalent_side_statements ::
  "(string \<Rightarrow> string \<Rightarrow> string) \<Rightarrow> (table \<Rightarrow> string) \<Rightarrow> ('v \<Rightarrow> string) \<Rightarrow> table \<Rightarrow> 'v list list \<Rightarrow> string list \<Rightarrow> string list" where
  "equivalent_side_statements rename ddl literal t rows statements =
     base_setup_statements ddl literal t rows
     @ [rename (get_sql_name t False) (hidden_base_name t)] @ statements"


section \<open>Laws\<close>

lemma bump_keys: "fst ` set (bump_count k c) = insert k (fst ` set c)"
  by (induction k c rule: bump_count.induct) auto

lemma bump_distinct: "distinct (map fst c) \<Longrightarrow> distinct (map fst (bump_count k c))"
proof (induction k c rule: bump_count.induct)
  case (2 k j n c)
  then show ?case using bump_keys [of k c] by auto
qed simp

lemma fold_bump:
  "distinct (map fst c) \<Longrightarrow> distinct (map fst (fold bump_count rs c)) \<and> (\<forall>r. count_of (fold bump_count rs c) r = count_of c r + count_list rs r)"
  by (induction rs arbitrary: c) (simp_all add: bump_distinct)

lemma tally_distinct: "distinct (map fst (tally_rows rs))"
  using fold_bump [of "[]" rs] by (simp add: tally_rows_def)

lemma tally_count: "count_of (tally_rows rs) r = count_list rs r"
  using fold_bump [of "[]" rs] by (simp add: tally_rows_def count_of_def)

end
