(* ===== verification/Coa_Schedule.thy ===== *)
theory Coa_Schedule
  imports Complex_Main Coa_Emit_Order
begin

text \<open>
  \<open>eqgen/fuzz/schedule.py\<close>: the complexity of a tree and the time a round gets for it.  Python floats
  are rationals here; the divisions and products of the code are exact on them.
\<close>


section \<open>Complexity\<close>

record complexity =
  cx_depth :: nat
  cx_nodes :: nat
  cx_statements :: nat
  cx_builder_kinds :: nat
  cx_score :: rat

lemma node_count_pos [simp]: "0 < node_count n"
  by (simp add: node_count.simps [of n])

text \<open>
  The loop over the stack, which pops its last entry; \<open>stack\<close> is held with its top first.  A popped
  tree is replaced by its children or by nothing, so the trees on the stack get smaller.
\<close>

function complexity_walk :: "(eqnode \<times> nat) list \<Rightarrow> nat set \<Rightarrow> nat \<Rightarrow> nat \<Rightarrow> nat \<times> nat" where
  "complexity_walk [] seen depth visited = (depth, visited)"
| "complexity_walk ((n, level) # stack) seen depth visited =
     (if node_id n \<in> seen then complexity_walk stack seen depth visited
      else complexity_walk (rev (map (\<lambda>c. (c, Suc level)) (children n)) @ stack)
             (insert (node_id n) seen) (max depth level) (Suc visited))"
  by pat_completeness auto
termination
  by (relation "measure (\<lambda>(stack, seen, depth, visited). sum_list (map (node_count \<circ> fst) stack))")
    (simp_all add: node_count_unfold o_def flip: rev_map)

definition depth_cap :: nat where "depth_cap = 30"

definition node_cap :: nat where "node_cap = 80"

definition stmt_cap :: nat where "stmt_cap = 40"

definition measure_complexity :: "eqnode \<Rightarrow> nat \<Rightarrow> string counter \<Rightarrow> complexity" where
  "measure_complexity n statements builders_used =
     (case complexity_walk [(n, 1)] {} 0 0 of (d, k) \<Rightarrow>
       \<lparr>cx_depth = d, cx_nodes = k, cx_statements = statements, cx_builder_kinds = length builders_used,
        cx_score = min 1 (max (max (of_nat d / of_nat depth_cap) (of_nat k / of_nat node_cap))
                              (of_nat statements / of_nat stmt_cap))\<rparr>)"


section \<open>The scheduler\<close>

record scheduler =
  max_seconds :: rat
  min_seconds :: rat
  flat :: bool

text \<open>\<open>__post_init__\<close>: the \<open>ValueError\<close>s are \<open>None\<close>.\<close>

definition make_scheduler :: "rat \<Rightarrow> rat \<Rightarrow> bool \<Rightarrow> scheduler option" where
  "make_scheduler mx mn fl =
     (if mx \<le> 0 then None else if mn \<le> 0 then None else if mx < mn then None
      else Some \<lparr>max_seconds = mx, min_seconds = mn, flat = fl\<rparr>)"

definition seconds :: "scheduler \<Rightarrow> complexity option \<Rightarrow> rat" where
  "seconds s c =
     (case c of
        None \<Rightarrow> max_seconds s
      | Some x \<Rightarrow> if flat s then max_seconds s else min_seconds s + (max_seconds s - min_seconds s) * cx_score x)"

definition default_min_seconds :: "rat \<Rightarrow> rat" where
  "default_min_seconds mx = max 3 (of_int \<lfloor>mx / 5\<rfloor>)"

definition flat_scheduler :: "rat \<Rightarrow> scheduler option" where
  "flat_scheduler s = make_scheduler s s True"


section \<open>Laws\<close>

lemma finite_nodes [simp]: "finite (nodes n)"
proof (induction n rule: nodes.induct)
  case (1 n)
  then show ?case unfolding nodes.simps [of n] by simp
qed

text \<open>Nodes done whose children are done or waiting: everything below them is done or below something waiting.\<close>

lemma closed_below:
  assumes "\<forall>m \<in> D. set (children m) \<subseteq> D \<union> S" "n \<in> D"
  shows "nodes n \<subseteq> D \<union> (\<Union>s \<in> S. nodes s)"
  using assms(2)
proof (induction n rule: nodes.induct)
  case (1 n)
  have "nodes c \<subseteq> D \<union> (\<Union>s \<in> S. nodes s)" if c: "c \<in> set (children n)" for c
  proof (cases "c \<in> D")
    case True
    with "1.IH" [OF c] show ?thesis by blast
  next
    case False
    with assms(1) "1.prems" c have "c \<in> S" by blast
    then show ?thesis by blast
  qed
  with "1.prems" show ?case unfolding nodes.simps [of n] by blast
qed

lemma walk_counts:
  assumes "same_identity r" "D \<subseteq> nodes r" "fst ` set stack \<subseteq> nodes r" "seen = node_id ` D"
    and "\<forall>m \<in> D. set (children m) \<subseteq> D \<union> fst ` set stack"
  shows "snd (complexity_walk stack seen depth k) = k + card (D \<union> (\<Union>s \<in> fst ` set stack. nodes s) - D)"
  using assms(2-5)
proof (induction stack seen depth k arbitrary: D rule: complexity_walk.induct)
  case (2 n level stack seen depth k)
  let ?S = "fst ` set stack" and ?kids = "rev (map (\<lambda>c. (c, Suc level)) (children n)) @ stack"
  have D: "finite D" using "2.prems"(1) finite_subset finite_nodes by blast
  have n: "n \<in> nodes r" using "2.prems"(2) by simp
  show ?case
  proof (cases "node_id n \<in> seen")
    case True
    then obtain m where "m \<in> D" "node_id m = node_id n" using "2.prems"(3) by auto
    with "2.prems"(1) n assms(1) have "n \<in> D" by (auto simp: same_identity_def inj_on_def)
    then have closed: "\<forall>m \<in> D. set (children m) \<subseteq> D \<union> ?S" using "2.prems"(4) by auto
    have "nodes n \<subseteq> D \<union> (\<Union>s \<in> ?S. nodes s)" by (rule closed_below [OF closed \<open>n \<in> D\<close>])
    then have "D \<union> (\<Union>s \<in> fst ` set ((n, level) # stack). nodes s) = D \<union> (\<Union>s \<in> ?S. nodes s)" by auto
    moreover have "snd (complexity_walk stack seen depth k) = k + card (D \<union> (\<Union>s \<in> ?S. nodes s) - D)"
      by (rule "2.IH"(1) [OF True]) (use "2.prems" closed in auto)
    ultimately show ?thesis using True by simp
  next
    case False
    then have new: "n \<notin> D" using "2.prems"(3) by auto
    have kids: "fst ` set ?kids = set (children n) \<union> ?S" by (simp add: image_Un image_image)
    have "set (children n) \<subseteq> nodes r" using nodes_child nodes_trans [OF n] by blast
    then have "snd (complexity_walk ?kids (insert (node_id n) seen) (max depth level) (Suc k))
        = Suc k + card (insert n D \<union> (\<Union>s \<in> fst ` set ?kids. nodes s) - insert n D)"
      by (intro "2.IH"(2) [OF False]) (use "2.prems" n kids in \<open>auto simp: image_iff\<close>)
    moreover have "insert n D \<union> (\<Union>s \<in> fst ` set ?kids. nodes s) = D \<union> (\<Union>s \<in> fst ` set ((n, level) # stack). nodes s)" (is "?L = ?R")
      unfolding kids by (simp add: nodes.simps [of n] Un_assoc Un_commute Un_left_commute)
    moreover have "card (?R - D) = Suc (card (?R - insert n D))"
    proof -
      have "?R - D = insert n (?R - insert n D)" using new by auto
      moreover have "finite (?R - insert n D)" using D by simp
      ultimately show ?thesis by (metis Diff_iff card_insert_disjoint insertI1)
    qed
    moreover have "snd (complexity_walk ((n, level) # stack) seen depth k)
        = snd (complexity_walk ?kids (insert (node_id n) seen) (max depth level) (Suc k))" using False by simp
    ultimately show ?thesis by (simp only: add_Suc add_Suc_right)
  qed
qed simp

text \<open>The depth of a node reached by a path is at most its level plus its height.\<close>

lemma walk_depth:
  "fst (complexity_walk stack seen depth k) \<le> Max (insert depth ((\<lambda>(n, l). l + height n - 1) ` set stack))"
proof (induction stack seen depth k rule: complexity_walk.induct)
  case (2 n level stack seen depth k)
  let ?kids = "(\<lambda>c. Suc level + height c - 1) ` set (children n)"
  let ?rest = "(\<lambda>(n, l). l + height n - 1) ` set stack"
  show ?case
  proof (cases "node_id n \<in> seen")
    case True
    with "2.IH"(1) have "fst (complexity_walk ((n, level) # stack) seen depth k) \<le> Max (insert depth ?rest)" by simp
    also have "\<dots> \<le> Max (insert depth ((\<lambda>(n, l). l + height n - 1) ` set ((n, level) # stack)))"
      by (rule Max_mono) auto
    finally show ?thesis .
  next
    case False
    with "2.IH"(2) have "fst (complexity_walk ((n, level) # stack) seen depth k) \<le> Max (insert (max depth level) (?kids \<union> ?rest))"
      by (simp add: image_Un image_image)
    also have "\<dots> \<le> Max (insert depth ((\<lambda>(n, l). l + height n - 1) ` set ((n, level) # stack)))"
    proof (rule Max.boundedI)
      fix x
      assume "x \<in> insert (max depth level) (?kids \<union> ?rest)"
      moreover have "level \<le> level + height n - 1" using height_positive [of n] by linarith
      moreover have "Suc level + height c - 1 \<le> level + height n - 1" if "c \<in> set (children n)" for c
        using height_child [OF that] by simp
      ultimately consider "x \<le> depth" | "x \<le> level + height n - 1" | "x \<in> ?rest"
        by (metis (no_types, lifting) UnE imageE insertE max_def order_refl)
      then show "x \<le> Max (insert depth ((\<lambda>(n, l). l + height n - 1) ` set ((n, level) # stack)))"
        by cases (subst Max_ge_iff; force)+
    qed simp_all
    finally show ?thesis .
  qed
qed simp

end
