(* ===== verification/Coa_Numbers.thy ===== *)
theory Coa_Numbers
  imports Coa_Compare
begin

text \<open>
  The numeric strings of \<open>_as_float\<close> read back what is written in decimal: a whole number, with its sign.
\<close>

lemma digits_value_append: "digits_value (s @ [c]) = 10 * digits_value s + digit_value c"
  by (simp add: digits_value_def)

lemma digit_value_char: "n < 10 \<Longrightarrow> digit_value (digit_char n) = int n"
proof -
  assume "n < 10"
  moreover have "\<forall>k \<in> {..<10}. digit_value (digit_char k) = int k"
    by (simp add: digit_value_def digit_char_def lessThan_nat_numeral lessThan_Suc)
  ultimately show ?thesis by simp
qed

lemma digits_value_nat: "digits_value (str_nat n) = int n"
proof (induction n rule: str_nat.induct)
  case (1 n)
  show ?case
  proof (cases "n < 10")
    case True
    then show ?thesis by (subst str_nat.simps) (simp add: digits_value_def digit_value_char)
  next
    case False
    with "1.IH" have "digits_value (str_nat (n div 10)) = int (n div 10)" by simp
    then show ?thesis using False
      by (subst str_nat.simps) (simp add: digits_value_append digit_value_char zdiv_int zmod_int)
  qed
qed

lemma all_digits: "list_all is_digit (str_nat n)"
  using str_nat_digits [of n] unfolding list_all_iff is_digit_def by blast

lemma digits_whole [simp]: "takeWhile is_digit (str_nat n) = str_nat n" "dropWhile is_digit (str_nat n) = []"
  using all_digits [of n] by (simp_all only: list_all_iff takeWhile_eq_all_conv dropWhile_eq_Nil_conv)

lemma digit_not_blank: "is_digit c \<Longrightarrow> \<not> is_blank c \<and> c \<noteq> CHR ''+'' \<and> c \<noteq> CHR ''-''"
  by (simp add: is_digit_def is_blank_def) (elim disjE; simp)

lemma strip_solid: "s \<noteq> [] \<Longrightarrow> \<not> is_blank (hd s) \<Longrightarrow> \<not> is_blank (last s) \<Longrightarrow> strip s = s"
proof -
  assume s: "s \<noteq> []" "\<not> is_blank (hd s)" "\<not> is_blank (last s)"
  have "dropWhile is_blank s = s" using s(1,2) by (cases s) simp_all
  moreover have "rstrip s = s" using s(3) unfolding rstrip_def by (intro rstrip_fixed) simp
  ultimately show ?thesis by (simp add: strip_def)
qed

lemma digits_solid: "is_digit (hd (str_nat n))" "is_digit (last (str_nat n))"
  using bspec [OF all_digits [of n, unfolded list_all_iff] hd_in_set [OF str_nat_nonempty]]
    bspec [OF all_digits [of n, unfolded list_all_iff] last_in_set [OF str_nat_nonempty]]
  by simp_all

lemma numeric_nat: "numeric_string (str_nat n) = Some (of_nat n)"
proof -
  have "strip (str_nat n) = str_nat n"
    by (rule strip_solid) (simp_all add: digits_solid digit_not_blank)
  moreover have "take_sign (str_nat n) = (1, str_nat n)"
    using digits_solid(1) [of n] digit_not_blank by (cases "str_nat n") (auto simp: take_sign_def)
  ultimately show ?thesis
    by (simp add: numeric_string_def exponent_def digits_value_nat ten_power_def)
qed

lemma numeric_negative: "numeric_string (CHR ''-'' # str_nat n) = Some (- of_nat n)"
proof -
  have "strip (CHR ''-'' # str_nat n) = CHR ''-'' # str_nat n"
    by (rule strip_solid) (simp_all add: digits_solid digit_not_blank, simp add: is_blank_def)
  moreover have "take_sign (CHR ''-'' # str_nat n) = (-1, str_nat n)" by (simp add: take_sign_def)
  ultimately show ?thesis
    by (simp add: numeric_string_def exponent_def digits_value_nat ten_power_def)
qed

lemma numeric_int: "numeric_string (str_int i) = Some (of_int i)"
proof (cases "i < 0")
  case True
  then have "of_nat (nat (- i)) = - (of_int i :: rat)" by (simp add: of_nat_nat)
  with True numeric_negative [of "nat (- i)"] show ?thesis by (simp add: str_int_def)
qed (simp add: str_int_def numeric_nat of_nat_nat)

end
