(* ===== verification/Coa_Families.thy ===== *)
theory Coa_Families
  imports Coa_Sample Coa_Names Coa_Verdict Coa_Numbers Coa_Budget
begin

text \<open>
  More rewrites on the concrete inputs of \<open>Coa_Sample\<close>, one of each family beside those of the root theory, and
  smaller facts about findings, numbers and fork names.
\<close>


section \<open>Rewrites\<close>

text \<open>Two independently rewritten copies of the table, intersected with their multiplicities, are the table again.\<close>

theorem intersect_self_sound:
  assumes "env_ok env"
  shows "gspec d (run_error d fuel env) (build_intersect_self (build_subtree PORTABLE_BUILDERS fuel env) env []) (makes (base_table env) C_IntersectAllQuery [])"
  by (rule factory.intersect_self_spec [OF assms])

theorem intersect_self_sound_witness:
  "gspec 1 (run_error 1 7 sample_env) (build_intersect_self (build_subtree PORTABLE_BUILDERS 7 sample_env) sample_env [])
    (makes orders C_IntersectAllQuery [])"
  by (rule intersect_self_sound [of sample_env, unfolded sample_simps]) (simp_all add: sample_env_ok constraint_types_def)

text \<open>A \<open>WHERE\<close> that conjoins the requested filter with \<open>p OR NOT p OR p IS NULL\<close> keeps the rows the filter keeps, for every \<open>p\<close>.\<close>

theorem eet_filter_sound:
  assumes "env_ok env" "request_ok (base_table env) cs" "set (constraint_types cs) \<subseteq> {RowFilterC, SingleSourceC}"
  shows "gspec d (run_error d fuel env) (build_eet_filter (build_subtree PORTABLE_BUILDERS fuel env) env cs) (makes (base_table env) C_SelectQuery cs)"
  by (rule factory.eet_filter_spec [OF assms])

theorem eet_filter_sound_witness:
  "gspec 1 (run_error 1 7 sample_env) (build_eet_filter (build_subtree PORTABLE_BUILDERS 7 sample_env) sample_env [RowFilterConstraint (GeneratedPredicate ''id = 7'')])
    (makes orders C_SelectQuery [RowFilterConstraint (GeneratedPredicate ''id = 7'')])"
  by (rule eet_filter_sound [of sample_env, unfolded sample_simps]) (simp_all add: sample_env_ok constraint_types_def)

text \<open>A column replaced by a window function partitioned by itself has the value it had, for every function, frame and order drawn.\<close>

theorem window_rewrite_sound:
  assumes "env_ok env"
  shows "gspec d (run_error d fuel env) (build_window_rewrite (build_subtree PORTABLE_BUILDERS fuel env) env []) (makes (base_table env) C_SelectQuery [])"
  by (rule factory.window_spec [OF assms])

theorem window_rewrite_sound_witness:
  "gspec 1 (run_error 1 7 sample_env) (build_window_rewrite (build_subtree PORTABLE_BUILDERS 7 sample_env) sample_env [])
    (makes orders C_SelectQuery [])"
  by (rule window_rewrite_sound [of sample_env, unfolded sample_simps]) (simp_all add: sample_env_ok constraint_types_def)

text \<open>Grouping by all columns and a unique row number returns every row once, duplicates of the table included.\<close>

theorem group_by_sound:
  assumes "env_ok env"
  shows "gspec d (run_error d fuel env) (build_distinct_as_group_by (build_subtree PORTABLE_BUILDERS fuel env) env []) (makes (base_table env) C_SelectQuery [])"
  by (rule factory.group_by_spec [OF assms])

theorem group_by_sound_witness:
  "gspec 1 (run_error 1 7 sample_env) (build_distinct_as_group_by (build_subtree PORTABLE_BUILDERS 7 sample_env) sample_env [])
    (makes orders C_SelectQuery [])"
  by (rule group_by_sound [of sample_env, unfolded sample_simps]) (simp_all add: sample_env_ok constraint_types_def)

text \<open>A join with a table of flags, one per row key, filtered on the flag, neither drops nor duplicates a row, by any of the four join types.\<close>

theorem flag_join_sound:
  assumes "env_ok env"
  shows "gspec d (run_error d fuel env) (build_flag_join (build_subtree PORTABLE_BUILDERS fuel env) env []) (makes (base_table env) C_JoinQuery [])"
  by (rule factory.flag_join_spec [OF assms])

theorem flag_join_sound_witness:
  "gspec 1 (run_error 1 7 sample_env) (build_flag_join (build_subtree PORTABLE_BUILDERS 7 sample_env) sample_env [])
    (makes orders C_JoinQuery [])"
  by (rule flag_join_sound [of sample_env, unfolded sample_simps]) (simp_all add: sample_env_ok constraint_types_def)

text \<open>Inserting copies with a throwaway mark into a tagged table leaves the rows marked to keep as they were.\<close>

theorem insert_extras_sound:
  assumes "env_ok env" "request_ok (base_table env) cs" "set (constraint_types cs) \<subseteq> {TagChannelC, AcceptsDmlC}"
  shows "gspec d (run_error d fuel env) (build_tag_insert_extras (build_subtree PORTABLE_BUILDERS fuel env) env cs) (makes (base_table env) C_InsertExtrasExpansion cs)"
  by (rule factory.tag_insert_spec [OF assms])

theorem insert_extras_sound_witness:
  "gspec 1 (run_error 1 7 sample_env) (build_tag_insert_extras (build_subtree PORTABLE_BUILDERS 7 sample_env) sample_env [TagChannelConstraint ''eq_tag_1'' keep_mark])
    (makes orders C_InsertExtrasExpansion [TagChannelConstraint ''eq_tag_1'' keep_mark])"
  by (rule insert_extras_sound [of sample_env, unfolded sample_simps]) (simp_all add: sample_env_ok constraint_types_def)

text \<open>Grouping a table of duplicated keyed rows by its key and taking any value of each column gives every base row once.\<close>

theorem key_group_sound:
  assumes "env_ok env" "request_ok (base_table env) cs" "set (constraint_types cs) \<subseteq> {ExposedNameC}"
  shows "gspec d (run_error d fuel env) (build_key_group (build_subtree PORTABLE_BUILDERS fuel env) env cs) (makes (base_table env) (C_CreateFromQuery CreateView) cs)"
  by (rule factory.key_group_spec [OF assms])

theorem key_group_sound_witness:
  "gspec 1 (run_error 1 7 sample_env) (build_key_group (build_subtree PORTABLE_BUILDERS 7 sample_env) sample_env [ExposedNameConstraint ''orders''])
    (makes orders (C_CreateFromQuery CreateView) [ExposedNameConstraint ''orders''])"
  by (rule key_group_sound [of sample_env, unfolded sample_simps]) (simp_all add: sample_env_ok constraint_types_def)

text \<open>Keeping the first row of each key, whichever row the engine numbers first, gives every base row once.\<close>

theorem key_qualify_sound:
  assumes "env_ok env" "request_ok (base_table env) cs" "set (constraint_types cs) \<subseteq> {ExposedNameC}"
  shows "gspec d (run_error d fuel env) (build_key_qualify (build_subtree PORTABLE_BUILDERS fuel env) env cs) (makes (base_table env) (C_CreateFromQuery CreateView) cs)"
  by (rule factory.key_qualify_spec [OF assms])

theorem key_qualify_sound_witness:
  "gspec 1 (run_error 1 7 sample_env) (build_key_qualify (build_subtree PORTABLE_BUILDERS 7 sample_env) sample_env [ExposedNameConstraint ''orders''])
    (makes orders (C_CreateFromQuery CreateView) [ExposedNameConstraint ''orders''])"
  by (rule key_qualify_sound [of sample_env, unfolded sample_simps]) (simp_all add: sample_env_ok constraint_types_def)


section \<open>Findings, numbers, names\<close>

text \<open>Of the comparisons of a run, the findings are the errors of the equivalent side and the mismatches,
  no comparison is both, and none of them is a pass or one the base side failed.\<close>

theorem findings_are_errors_or_mismatches:
  "mset (findings results) = mset (verdict_errors results) + mset (verdict_mismatches results)
    \<and> list_all (\<lambda>c. \<not> is_uncomparable c \<and> \<not> is_pass c) (findings results)"
proof -
  have "mset (filter (\<lambda>c. is_error c \<or> is_mismatch c) results) = mset (filter is_error results) + mset (filter is_mismatch results)"
    by (induction results) (auto simp: is_error_def is_mismatch_def)
  then show ?thesis
    by (auto simp: findings_def verdict_errors_def verdict_mismatches_def is_reportable_def is_error_def is_mismatch_def
        is_uncomparable_def is_pass_def is_known_issue_def list_all_iff)
qed

text \<open>A number written as a decimal string compares as that number: the numeric reading of the text of a
  whole number is the number.\<close>

theorem number_text_roundtrip: "numeric_string (str_int i) = Some (of_int i)"
  by (rule numeric_int)

text \<open>The names the forks of a round are exposed under are as many as the forks and pairwise different;
  fewer than one fork is refused.\<close>

theorem fork_names_distinct:
  "case exposed_fork_names forks seed_name of
      None \<Rightarrow> forks < 1
    | Some names \<Rightarrow> distinct names \<and> int (length names) = forks"
proof -
  have "inj (\<lambda>i. seed_name @ str_nat i)" by (rule injI) (auto dest: str_nat_inj)
  then have "distinct (map (\<lambda>i. seed_name @ str_nat i) [0..<n])" for n
    by (simp add: distinct_map inj_on_subset [OF _ subset_UNIV])
  then show ?thesis by (simp add: exposed_fork_names_def)
qed

text \<open>An \<open>UPDATE\<close> that assigns columns to themselves changes nothing.\<close>

theorem noop_update_sound:
  assumes "env_ok env" "request_ok (base_table env) cs" "set (constraint_types cs) \<subseteq> {AcceptsDmlC, ExposedNameC}"
  shows "gspec d (run_error d fuel env) (build_noop_update (build_subtree PORTABLE_BUILDERS fuel env) env cs) (makes (base_table env) C_NoopUpdateTable cs)"
  by (rule factory.noop_update_spec [OF assms])

theorem noop_update_sound_witness:
  "gspec 1 (run_error 1 7 sample_env) (build_noop_update (build_subtree PORTABLE_BUILDERS 7 sample_env) sample_env [ExposedNameConstraint ''orders''])
    (makes orders C_NoopUpdateTable [ExposedNameConstraint ''orders''])"
  by (rule noop_update_sound [of sample_env, unfolded sample_simps]) (simp_all add: sample_env_ok constraint_types_def)

text \<open>Two row filters put in one constraint set merge into one, which asks for the rows both keep: the
  filter composes, and a filter is never lost when a request is narrowed.\<close>

theorem merged_filter_keeps_both:
  assumes "pred_ok t p" "pred_ok t q" "engine_ok E" "base_rows_ok t B"
  shows "\<exists>cs. make_constraint_set [Some (RowFilterConstraint p), Some (RowFilterConstraint q)] = Inr cs \<and>
    wanted E t cs B = filter (\<lambda>r. condition E (base_scope t) p r = Some True \<and> condition E (base_scope t) q r = Some True) B"
proof -
  have "make_constraint_set [Some (RowFilterConstraint p), Some (RowFilterConstraint q)] = Inr [RowFilterConstraint (BoolOp ''AND'' p q)]"
    by (simp add: make_constraint_set_def conjoin_def and_e_def)
  moreover have "wanted E t [RowFilterConstraint (BoolOp ''AND'' p q)] B
      = filter (\<lambda>r. condition E (base_scope t) p r = Some True \<and> condition E (base_scope t) q r = Some True) B"
    using condition_and [OF assms(1-3)] assms(4)
    by (auto simp: wanted_def payload_defs get_optional_constraint_def base_rows_ok_def intro!: filter_cong)
  ultimately show ?thesis by blast
qed

theorem merged_filter_keeps_both_witness:
  "\<exists>cs. make_constraint_set [Some (RowFilterConstraint (GeneratedPredicate ''id = 7'')), Some (RowFilterConstraint empty_predicate)] = Inr cs \<and>
    wanted reference_engine orders cs orders_rows
      = filter (\<lambda>r. condition reference_engine (base_scope orders) (GeneratedPredicate ''id = 7'') r = Some True
          \<and> condition reference_engine (base_scope orders) empty_predicate r = Some True) orders_rows"
  by (rule merged_filter_keeps_both [OF pred_ok_generated pred_ok_empty reference_ok orders_rows_ok])

text \<open>A draw among options of which one has a positive weight returns one of positive weight.\<close>

theorem choice_has_weight:
  assumes "options_ok options"
  shows "\<exists>x w s'. choose_one options s = Inr (x, s') \<and> (x, w) \<in> set options \<and> 0 < w"
proof -
  have "gspec (depth s) (\<lambda>e. False) (choose_one options) (\<lambda>x. \<exists>w. (x, w) \<in> set options \<and> 0 < w)"
    by (rule gspec_choose [OF assms]) blast
  then have "case choose_one options s of Inl e \<Rightarrow> False | Inr (x, s') \<Rightarrow> \<exists>w. (x, w) \<in> set options \<and> 0 < w"
    unfolding gspec_def by (elim allE [of _ s] impE) (auto split: sum.splits)
  then show ?thesis by (auto split: sum.splits)
qed

theorem choice_has_weight_witness:
  "\<exists>x w s'. choose_one [(FIRST, 0), (RANDOM, 2)] start_state = Inr (x, s') \<and> (x, w) \<in> set [(FIRST, 0), (RANDOM, 2)] \<and> (0 :: int) < w"
  by (rule choice_has_weight) (simp add: options_ok_def)

text \<open>At the depth limit nothing is built by any builders, and a request that ends with nothing, at any
  depth and after any number of failed builders, leaves the node count it found.\<close>

theorem nothing_built_counts_nothing:
  "case build_subtree builders fuel env k cs s of
      Inl e \<Rightarrow> depth s < max_depth (config env) \<or> e = OutOfFuel \<or> e = DeadlineExceeded
    | Inr (None, s') \<Rightarrow> node_total s' = node_total s
    | Inr (Some n, s') \<Rightarrow> depth s < max_depth (config env)"
proof (cases "build_subtree builders fuel env k cs s")
  case (Inl e)
  then show ?thesis
    by (cases fuel) (auto simp: graise_def check_deadline_def obind_def gbind_def gread_def gmodify_def greturn_def
        dispatch_def filter_builders_def split: if_splits)
next
  case (Inr p)
  obtain r s' where p: "p = (r, s')" by (cases p)
  show ?thesis
  proof (cases r)
    case None
    then show ?thesis using nothing_built Inr p by simp
  next
    case (Some n)
    then show ?thesis using Inr p leaf_at_budget [of env s builders fuel k cs n s'] by (simp add: leaf_only_def) (metis not_less Suc_leD le_SucI)
  qed
qed

text \<open>The columns split in two views with a common row key and joined on it, by any of the four join types, are the rows again.\<close>

theorem sequence_join_sound:
  assumes "env_ok env"
  shows "gspec d (run_error d fuel env) (build_sequence_join (build_subtree PORTABLE_BUILDERS fuel env) env []) (makes (base_table env) C_JoinQuery [])"
  by (rule factory.sequence_join_spec [OF assms])

theorem sequence_join_sound_witness:
  "gspec 1 (run_error 1 7 sample_env) (build_sequence_join (build_subtree PORTABLE_BUILDERS 7 sample_env) sample_env [])
    (makes orders C_JoinQuery [])"
  by (rule sequence_join_sound [of sample_env, unfolded sample_simps]) (simp_all add: sample_env_ok constraint_types_def)

text \<open>A codec round trip, the same codec for every eligible column or one drawn for each, returns the rows it read.\<close>

theorem codec_sound:
  assumes "env_ok env"
  shows "gspec d (run_error d fuel env) (build_codec assignment (build_subtree PORTABLE_BUILDERS fuel env) env []) (makes (base_table env) C_SelectQuery [])"
  by (rule factory.codec_spec [OF assms])

theorem codec_sound_witness:
  "gspec 1 (run_error 1 7 sample_env) (build_codec (UniformAssignment HEX) (build_subtree PORTABLE_BUILDERS 7 sample_env) sample_env [])
    (makes orders C_SelectQuery [])"
  by (rule codec_sound [of sample_env, unfolded sample_simps]) (simp_all add: sample_env_ok constraint_types_def)

text \<open>The weighted shuffle always returns, and returns each item of positive weight once, in some order,
  and no other: a builder of weight zero is never tried, and one of positive weight always can be.\<close>

theorem shuffle_permutes:
  "\<exists>ys s'. weighted_shuffle xs w s = Inr (ys, s') \<and> mset ys = mset (filter (\<lambda>x. 0 < w x) xs)"
  using shuffle_runs [of xs w s] by blast

text \<open>A minted name is none of the names minted before in the run, whatever their prefixes, and
  the names minted so far grow by exactly that name.\<close>

theorem minted_name_fresh:
  "\<exists>nm s'. generate_object_name prefix s = Inr (nm, s') \<and> nm \<notin> issued s \<and> issued s' = insert nm (issued s)"
proof -
  let ?n = "Suc (count_of (counters s) prefix)"
  have "prefix @ ''_'' @ str_nat ?n \<notin> issued s" by (simp only: issued_iff) simp
  moreover have "generate_object_name prefix s
      = Inr (prefix @ ''_'' @ str_nat ?n, s\<lparr>counters := bump_count prefix (counters s)\<rparr>)"
    by (simp add: generate_object_name_def gbind_def gread_def gmodify_def greturn_def)
  ultimately show ?thesis using issued_bump by (intro exI conjI)
qed

text \<open>The comparison of one query on both sides has exactly one of five verdicts, and says so: a failure
  of the base side makes it uncomparable and never reportable; a pass needs rows from both sides.\<close>

theorem one_verdict_each:
  fixes close repr query base equivalent
  defines "c \<equiv> compare_one close repr query base equivalent"
  shows "length (filter id [is_pass c, is_mismatch c, is_error c, is_known_issue c, is_uncomparable c]) = 1
    \<and> (is_uncomparable c \<longleftrightarrow> (\<nexists>rows. base = Fetched rows))
    \<and> \<not> (is_reportable c \<and> is_uncomparable c)
    \<and> (is_pass c \<or> is_mismatch c \<longleftrightarrow> (\<exists>rows rows'. base = Fetched rows \<and> equivalent = Fetched rows'))"
  unfolding c_def
  by (cases base; cases equivalent)
    (auto simp: compare_one_def Let_def is_pass_def is_mismatch_def is_error_def is_known_issue_def is_uncomparable_def is_reportable_def)

end
