(* ===== verification/Coa_Journal.thy ===== *)
theory Coa_Journal
  imports Coa_Text
begin

text \<open>
  The log of a round: the first half of \<open>eqgen/fuzz/journal.py\<close>.  A journal is the text written so far;
  what is written is flushed line by line, so a process that dies leaves a prefix of it.
  \<open>parse_journal\<close> reads it back for a replay.
\<close>


section \<open>Writing\<close>

definition annotation_mark :: string where
  "annotation_mark = ''-- => ''"

definition write_line :: "string \<Rightarrow> string" where
  "write_line line = line @ [newline]"

text \<open>\<open>sql.rstrip().rstrip(";")\<close>\<close>

definition bare_query :: "string \<Rightarrow> string" where
  "bare_query sql = rstrip_chars (\<lambda>c. c = CHR '';'') (rstrip sql)"

definition begin_text :: "string \<Rightarrow> string" where
  "begin_text sql = write_line (bare_query sql @ '';'')"

definition note_text :: "string \<Rightarrow> string" where
  "note_text message = write_line (annotation_mark @ message)"

definition record_text :: "string \<Rightarrow> string list \<Rightarrow> string" where
  "record_text title lines =
     write_line (''-- ==== '' @ title @ '' ===='')
     @ concat (map (\<lambda>line. concat (map (\<lambda>physical. write_line (''--   '' @ physical))
         (if split_lines line = [] then [''''] else split_lines line))) lines)"

definition header_text :: "string \<Rightarrow> string" where
  "header_text header = (if header = [] then [] else write_line (''-- '' @ header))"

datatype journal_event =
    Begin string | End string | Note string | Record string "string list"

fun event_text :: "journal_event \<Rightarrow> string" where
  "event_text (Begin sql) = begin_text sql"
| "event_text (End annotation) = note_text annotation"
| "event_text (Note message) = note_text message"
| "event_text (Record title lines) = record_text title lines"

definition journal_text :: "string \<Rightarrow> journal_event list \<Rightarrow> string" where
  "journal_text header events = header_text header @ concat (map event_text events)"


section \<open>Reading\<close>

record journal_entry =
  je_sql :: string
  je_annotation :: "string option"

type_synonym parse_state = "journal_entry list \<times> string list"

definition entry_of :: "string list \<Rightarrow> journal_entry" where
  "entry_of pending = \<lparr>je_sql = bare_query (join_with [newline] pending), je_annotation = None\<rparr>"

definition annotate_last :: "journal_entry list \<Rightarrow> string \<Rightarrow> journal_entry list" where
  "annotate_last entries note =
     (if entries = [] then []
      else butlast entries @ [\<lparr>je_sql = je_sql (last entries), je_annotation = Some note\<rparr>])"

definition parse_line :: "string \<Rightarrow> parse_state \<Rightarrow> parse_state" where
  "parse_line line st =
     (case st of (entries, pending) \<Rightarrow>
        if starts_with annotation_mark line then
          (if entries \<noteq> [] \<and> pending = [] then (annotate_last entries (drop (length annotation_mark) line), pending) else st)
        else if starts_with ''--'' line \<or> strip line = [] then st
        else if ends_with '';'' (rstrip line) then (entries @ [entry_of (pending @ [line])], [])
        else (entries, pending @ [line]))"

definition finish_parse :: "parse_state \<Rightarrow> journal_entry list" where
  "finish_parse st = (case st of (entries, pending) \<Rightarrow> if pending = [] then entries else entries @ [entry_of pending])"

definition parse_journal :: "string \<Rightarrow> journal_entry list" where
  "parse_journal text = finish_parse (fold parse_line (split_lines text) ([], []))"

definition queries_from_journal :: "string \<Rightarrow> string list" where
  "queries_from_journal text = map je_sql (parse_journal text)"


section \<open>What a journal says\<close>

text \<open>The entries the events stand for: a query, with the last annotation written after it.\<close>

fun replay :: "journal_event list \<Rightarrow> journal_entry list \<Rightarrow> journal_entry list" where
  "replay [] entries = entries"
| "replay (Begin sql # es) entries = replay es (entries @ [\<lparr>je_sql = bare_query sql, je_annotation = None\<rparr>])"
| "replay (End a # es) entries = replay es (annotate_last entries a)"
| "replay (Note a # es) entries = replay es (annotate_last entries a)"
| "replay (Record t ls # es) entries = replay es entries"

definition unbroken :: "string \<Rightarrow> bool" where
  "unbroken s \<longleftrightarrow> list_all (\<lambda>c. \<not> is_break c) s"

text \<open>A line of a query: no break in it, not blank, and not a comment.\<close>

definition query_line :: "string \<Rightarrow> bool" where
  "query_line line \<longleftrightarrow> unbroken line \<and> strip line \<noteq> [] \<and> \<not> starts_with ''--'' line"

text \<open>A query the journal can hold: lines of text of which only the last ends with a semicolon, once written.\<close>

definition query_ok :: "string \<Rightarrow> bool" where
  "query_ok sql \<longleftrightarrow> (\<exists>ls l. bare_query sql @ '';'' = join_with [newline] (ls @ [l]) \<and>
     list_all query_line (ls @ [l]) \<and> list_all (\<lambda>x. \<not> ends_with '';'' (rstrip x)) ls)"

fun event_ok :: "journal_event \<Rightarrow> bool" where
  "event_ok (Begin sql) = query_ok sql"
| "event_ok (End a) = unbroken a"
| "event_ok (Note a) = unbroken a"
| "event_ok (Record t ls) = unbroken t"


section \<open>Laws\<close>

text \<open>Text made of closed lines is split into them.\<close>

lemma split_written: "list_all unbroken ls \<Longrightarrow> split_lines (concat (map write_line ls) @ rest) = ls @ split_lines rest"
  by (induction ls) (simp_all add: write_line_def unbroken_def split_closed)

lemma join_written: "join_with [newline] (ls @ [l]) @ [newline] = concat (map write_line (ls @ [l]))"
proof (induction ls)
  case (Cons x xs)
  then show ?case by (cases xs) (simp_all add: write_line_def)
qed (simp add: write_line_def)

lemma split_pieces: "list_all unbroken (split_lines s)"
proof (induction s rule: split_lines.induct)
  case (2 c s)
  then show ?case by (auto simp: unbroken_def split: list.splits)
qed simp

lemma bare_bare: "bare_query (bare_query sql @ '';'') = bare_query sql"
proof -
  have "rstrip (bare_query sql @ '';'') = bare_query sql @ '';''"
    unfolding rstrip_def by (simp add: is_blank_def)
  then show ?thesis by (simp add: bare_query_def)
qed

text \<open>Lines that do not end a query only wait.\<close>

lemma parse_waiting:
  "list_all query_line ls \<Longrightarrow> list_all (\<lambda>x. \<not> ends_with '';'' (rstrip x)) ls \<Longrightarrow>
     fold parse_line ls (entries, pending) = (entries, pending @ ls)"
proof (induction ls arbitrary: pending)
  case (Cons l ls)
  have "\<not> starts_with annotation_mark l"
    using Cons.prems(1) by (auto simp: query_line_def starts_with_def annotation_mark_def dest: arg_cong [where f = "take 2"])
  with Cons show ?case by (simp add: parse_line_def query_line_def)
qed simp

definition event_lines :: "journal_event \<Rightarrow> string list" where
  "event_lines e = split_lines (event_text e)"

lemma begin_lines:
  assumes "query_ok sql"
  obtains ls l where "begin_text sql = concat (map write_line (ls @ [l]))" "list_all query_line (ls @ [l])"
    "list_all (\<lambda>x. \<not> ends_with '';'' (rstrip x)) ls" "join_with [newline] (ls @ [l]) = bare_query sql @ '';''"
proof -
  obtain ls l where l: "bare_query sql @ '';'' = join_with [newline] (ls @ [l])" "list_all query_line (ls @ [l])"
      "list_all (\<lambda>x. \<not> ends_with '';'' (rstrip x)) ls"
    using assms by (auto simp: query_ok_def)
  have "begin_text sql = concat (map write_line (ls @ [l]))"
    unfolding begin_text_def write_line_def l(1) join_written [unfolded write_line_def] ..
  with l that show ?thesis by metis
qed

lemma join_last: "l \<noteq> [] \<Longrightarrow> last (join_with sep (ls @ [l])) = last l \<and> join_with sep (ls @ [l]) \<noteq> []"
proof (induction ls)
  case (Cons x xs)
  then show ?case by (cases xs) auto
qed simp

text \<open>Each event is written as whole lines, and reading them does what the event says.\<close>

lemma event_step:
  assumes "event_ok e"
  shows "\<exists>ls. event_text e = concat (map write_line ls) \<and> list_all unbroken ls \<and>
    fold parse_line ls (entries, []) = (replay [e] entries, [])"
proof (cases e)
  case (Begin sql)
  with assms have "query_ok sql" by simp
  then obtain ls l where l: "begin_text sql = concat (map write_line (ls @ [l]))" "list_all query_line (ls @ [l])"
      "list_all (\<lambda>x. \<not> ends_with '';'' (rstrip x)) ls" "join_with [newline] (ls @ [l]) = bare_query sql @ '';''"
    by (rule begin_lines)
  have "l \<noteq> []" using l(2) by (auto simp: query_line_def strip_def rstrip_def)
  then have "last l = CHR '';''" using join_last [of l "[newline]" ls] l(4) by simp
  with \<open>l \<noteq> []\<close> obtain k where k: "l = k @ '';''" by (cases l rule: rev_cases) auto
  have ends: "ends_with '';'' (rstrip l)" unfolding k rstrip_def by (simp add: is_blank_def)
  have "\<not> starts_with annotation_mark l"
    using l(2) by (auto simp: query_line_def starts_with_def annotation_mark_def dest: arg_cong [where f = "take 2"])
  then have "fold parse_line (ls @ [l]) (entries, []) = (entries @ [entry_of (ls @ [l])], [])"
    using parse_waiting [of ls entries "[]"] l(2,3) ends by (simp add: parse_line_def query_line_def)
  moreover have "entry_of (ls @ [l]) = \<lparr>je_sql = bare_query sql, je_annotation = None\<rparr>"
    by (simp add: entry_of_def l(4) bare_bare)
  ultimately show ?thesis using l(1,2) Begin
    by (intro exI [of _ "ls @ [l]"]) (auto simp: query_line_def list_all_iff)
next
  case (End a)
  with assms show ?thesis
    by (intro exI [of _ "[annotation_mark @ a]"])
      (simp add: note_text_def parse_line_def annotate_last_def, simp add: unbroken_def annotation_mark_def is_break_def)
next
  case (Note a)
  with assms show ?thesis
    by (intro exI [of _ "[annotation_mark @ a]"])
      (simp add: note_text_def parse_line_def annotate_last_def, simp add: unbroken_def annotation_mark_def is_break_def)
next
  case (Record t ls)
  let ?pieces = "concat (map (\<lambda>line. if split_lines line = [] then [[]] else split_lines line) ls)"
  let ?lines = "(''-- ==== '' @ t @ '' ===='') # map (append ''--   '') ?pieces"
  have written: "event_text e = concat (map write_line ?lines)"
  proof -
    have "concat (map (\<lambda>line. concat (map (\<lambda>physical. write_line (''--   '' @ physical))
        (if split_lines line = [] then [[]] else split_lines line))) ls) = concat (map write_line (map (append ''--   '') ?pieces))"
      by (induction ls) (simp_all add: o_def)
    then show ?thesis by (simp add: Record record_text_def)
  qed
  have skip: "parse_line l st = st" if "l \<in> set ?lines" for l st
  proof -
    have "starts_with ''--'' l \<and> \<not> starts_with annotation_mark l"
      using that by (auto simp: starts_with_def annotation_mark_def)
    then show ?thesis by (simp add: parse_line_def split: prod.splits)
  qed
  have skipped: "fold parse_line xs st = st" if "set xs \<subseteq> set ?lines" for xs st
    using that by (induction xs) (simp_all add: skip)
  have pieces: "list_all unbroken ?pieces"
    by (induction ls) (simp_all add: split_pieces, simp add: unbroken_def)
  moreover have "unbroken t" using assms Record by simp
  ultimately have "list_all unbroken ?lines"
    by (simp add: unbroken_def is_break_def list_all_iff)
  with written skipped [of ?lines] Record show ?thesis by (intro exI [of _ ?lines]) simp
qed

lemma replay_Cons: "replay (e # es) entries = replay es (replay [e] entries)"
  by (cases e) simp_all

lemma events_step:
  assumes "list_all event_ok events"
  shows "\<exists>ls. concat (map event_text events) = concat (map write_line ls) \<and> list_all unbroken ls \<and>
    fold parse_line ls (entries, []) = (replay events entries, [])"
  using assms
proof (induction events arbitrary: entries)
  case (Cons e es)
  obtain ls where ls: "event_text e = concat (map write_line ls)" "list_all unbroken ls"
      "fold parse_line ls (entries, []) = (replay [e] entries, [])"
    using event_step Cons.prems by (metis list.pred_inject(2))
  obtain ms where ms: "concat (map event_text es) = concat (map write_line ms)" "list_all unbroken ms"
      "fold parse_line ms (replay [e] entries, []) = (replay es (replay [e] entries), [])"
    using Cons by (metis list.pred_inject(2))
  show ?case unfolding replay_Cons [of e es]
    by (rule exI [of _ "ls @ ms"]) (simp add: ls ms)
qed (intro exI [of _ "[]"], simp)

text \<open>A header, the events, and any text after them.\<close>

lemma parse_prefix:
  assumes "unbroken header" "list_all event_ok events"
  shows "parse_journal (journal_text header events @ rest)
    = finish_parse (fold parse_line (split_lines rest) (replay events [], []))"
proof -
  obtain ls where ls: "concat (map event_text events) = concat (map write_line ls)" "list_all unbroken ls"
      "fold parse_line ls ([], []) = (replay events [], [])"
    using events_step [OF assms(2)] by blast
  let ?head = "if header = [] then [] else [''-- '' @ header]"
  have head: "header_text header = concat (map write_line ?head)" "list_all unbroken ?head"
    using assms(1) by (simp_all add: header_text_def unbroken_def is_break_def)
  have "fold parse_line ?head ([], []) = ([], [])"
    by (simp add: parse_line_def starts_with_def annotation_mark_def)
  moreover have "split_lines (journal_text header events @ rest) = ?head @ ls @ split_lines rest"
    unfolding journal_text_def head(1) ls(1) append_assoc by (simp only: split_written head(2) ls(2))
  ultimately show ?thesis by (simp only: parse_journal_def fold_append comp_apply ls(3))
qed

text \<open>Only events, to the end of the text.\<close>

lemma parse_events:
  assumes "list_all event_ok events"
  shows "finish_parse (fold parse_line (split_lines (concat (map event_text events))) (entries, [])) = replay events entries"
proof -
  obtain ls where ls: "concat (map event_text events) = concat (map write_line ls)" "list_all unbroken ls"
      "fold parse_line ls (entries, []) = (replay events entries, [])"
    using events_step [OF assms] by blast
  have "split_lines (concat (map write_line ls)) = ls" using split_written [OF ls(2), of "[]"] by simp
  with ls show ?thesis by (simp add: finish_parse_def)
qed

lemma replay_queries:
  "map je_sql (replay events entries) = map je_sql entries @ concat (map (\<lambda>e. case e of Begin sql \<Rightarrow> [bare_query sql] | _ \<Rightarrow> []) events)"
proof (induction events entries rule: replay.induct)
  case (3 a es entries)
  have "map je_sql (annotate_last entries a) = map je_sql entries"
    by (cases entries rule: rev_cases) (simp_all add: annotate_last_def)
  with 3 show ?case by simp
next
  case (4 a es entries)
  have "map je_sql (annotate_last entries a) = map je_sql entries"
    by (cases entries rule: rev_cases) (simp_all add: annotate_last_def)
  with 4 show ?case by simp
qed simp_all

text \<open>Queries on one line, which is what the generators write.\<close>

lemma single_line: "query_line (bare_query sql @ '';'') \<Longrightarrow> query_ok sql"
  unfolding query_ok_def by (intro exI [of _ "[]"] exI [of _ "bare_query sql @ '';''"]) simp

text \<open>Text cut off somewhere in some lines: whole lines, and the start of one.\<close>

lemma take_lines:
  "xs \<noteq> [] \<Longrightarrow> \<exists>ms x zs j. xs = ms @ x # zs \<and> take k (join_with [newline] xs) = concat (map write_line ms) @ take j x"
proof (induction xs arbitrary: k)
  case (Cons x xs)
  show ?case
  proof (cases "xs = [] \<or> k \<le> length x")
    case True
    then have "take k (join_with [newline] (x # xs)) = take k x" by (cases xs) auto
    then show ?thesis by (intro exI [of _ "[]"] exI [of _ x] exI [of _ xs] exI [of _ k]) simp
  next
    case False
    then obtain ms y zs j where ih: "xs = ms @ y # zs"
        "take (k - Suc (length x)) (join_with [newline] xs) = concat (map write_line ms) @ take j y"
      using Cons.IH [of "k - Suc (length x)"] by blast
    have "join_with [newline] (x # xs) = x @ newline # join_with [newline] xs" using False by (cases xs) simp_all
    moreover have "k - length x = Suc (k - Suc (length x))" using False by (simp add: Suc_diff_Suc)
    ultimately have "take k (join_with [newline] (x # xs)) = write_line x @ take (k - Suc (length x)) (join_with [newline] xs)"
      using False by (simp add: write_line_def)
    then have "take k (join_with [newline] (x # xs)) = concat (map write_line (x # ms)) @ take j y" using ih(2) by simp
    then show ?thesis using ih(1) by (intro exI [of _ "x # ms"] exI [of _ y] exI [of _ zs] exI [of _ j]) simp
  qed
qed simp

lemma rstrip_tail: "list_all is_blank s \<Longrightarrow> rstrip (t @ s) = rstrip t"
  by (induction s rule: rev_induct) (simp_all add: rstrip_def flip: append_assoc)

lemma strip_blank: "strip s = [] \<longleftrightarrow> list_all is_blank s"
proof -
  have "(\<forall>c \<in> set (dropWhile is_blank s). is_blank c) \<longleftrightarrow> (\<forall>c \<in> set s. is_blank c)" by (induction s) auto
  then show ?thesis by (simp add: strip_def rstrip_def rstrip_chars_def list_all_iff dropWhile_eq_Nil_conv)
qed

lemma query_line_cut:
  assumes "query_line line"
  shows "\<not> starts_with ''--'' (take k line)" "unbroken (take k line)"
proof -
  show "unbroken (take k line)" using assms by (auto simp: query_line_def unbroken_def list_all_iff dest: in_set_takeD)
  show "\<not> starts_with ''--'' (take k line)"
  proof
    assume "starts_with ''--'' (take k line)"
    then have cut: "take (min 2 k) line = ''--''" by (simp add: starts_with_def numeral_2_eq_2)
    from arg_cong [OF cut, of length] have "2 \<le> k" by simp
    with cut have "take 2 line = ''--''" by (simp add: min_def)
    with assms show False by (simp add: query_line_def starts_with_def numeral_2_eq_2)
  qed
qed

lemma mark_comment: "starts_with annotation_mark s \<Longrightarrow> starts_with ''--'' s"
  by (auto simp: starts_with_def annotation_mark_def dest: arg_cong [where f = "take 2"])

text \<open>A query that was cut off is one more entry, with the text that was written; a blank start is none.\<close>

definition cut_entry :: "string \<Rightarrow> journal_entry list" where
  "cut_entry text = (if strip text = [] then [] else [\<lparr>je_sql = bare_query text, je_annotation = None\<rparr>])"

lemma cut_query:
  assumes "query_ok sql" "torn = take k (bare_query sql @ '';'')"
  shows "finish_parse (fold parse_line (split_lines torn) (entries, [])) = entries @ cut_entry torn"
proof -
  obtain ls l where l: "bare_query sql @ '';'' = join_with [newline] (ls @ [l])" "list_all query_line (ls @ [l])"
      "list_all (\<lambda>x. \<not> ends_with '';'' (rstrip x)) ls"
    using assms(1) by (auto simp: query_ok_def)
  obtain ms x zs j where cut: "ls @ [l] = ms @ x # zs" "torn = concat (map write_line ms) @ take j x"
    using take_lines [of "ls @ [l]" k] assms(2) l(1) by auto
  have ms: "list_all query_line ms" "list_all (\<lambda>x. \<not> ends_with '';'' (rstrip x)) ms" and x: "query_line x"
  proof -
    have "length ms \<le> length ls" using arg_cong [OF cut(1), of length] by simp
    moreover have "ms = take (length ms) (ls @ [l])" unfolding cut(1) by simp
    ultimately have "set ms \<subseteq> set ls" by (metis append_Nil2 diff_is_0_eq set_take_subset take0 take_append)
    moreover have "x \<in> set (ls @ [l])" unfolding cut(1) by simp
    ultimately show "list_all query_line ms" "list_all (\<lambda>x. \<not> ends_with '';'' (rstrip x)) ms" "query_line x"
      using l(2,3) unfolding list_all_iff by auto
  qed
  let ?p = "take j x"
  have p: "\<not> starts_with ''--'' ?p" "unbroken ?p" using query_line_cut [OF x] by blast+
  then have mark: "\<not> starts_with annotation_mark ?p" using mark_comment by blast
  have lines: "split_lines torn = ms @ (if ?p = [] then [] else [?p])"
    using split_written [of ms ?p] ms(1) split_solid [of ?p] p(2) cut(2)
    by (auto simp: list_all_iff query_line_def unbroken_def)
  note waiting = parse_waiting [OF ms, of entries "[]", unfolded append_Nil]
  show ?thesis
  proof (cases "strip ?p = []")
    case True
    then have "fold parse_line (split_lines torn) (entries, []) = (entries, ms)"
      using waiting p mark by (simp add: lines parse_line_def)
    moreover have "bare_query torn = bare_query (join_with [newline] ms)" if "ms \<noteq> []"
    proof -
      from that obtain us u where "ms = us @ [u]" by (cases ms rule: rev_cases) auto
      with cut(2) have "torn = join_with [newline] ms @ newline # ?p" using join_written [of us u] by simp
      then show ?thesis using rstrip_tail [of "newline # ?p" "join_with [newline] ms"] True by (simp add: bare_query_def strip_blank is_blank_def)
    qed
    moreover have "strip torn = [] \<longleftrightarrow> ms = []"
    proof (cases ms)
      case Nil
      with cut(2) True show ?thesis by simp
    next
      case (Cons u us)
      with ms(1) have "\<not> list_all is_blank u" by (simp add: query_line_def strip_blank)
      with Cons cut(2) show ?thesis by (simp add: strip_blank write_line_def)
    qed
    ultimately show ?thesis by (simp add: finish_parse_def cut_entry_def entry_of_def)
  next
    case False
    have "strip [] = []" by (simp add: strip_def rstrip_def)
    with False have "?p \<noteq> []" by metis
    then have "finish_parse (fold parse_line (split_lines torn) (entries, [])) = entries @ [entry_of (ms @ [?p])]"
      using waiting p mark False by (simp add: lines parse_line_def finish_parse_def)
    moreover have "join_with [newline] (ms @ [?p]) = torn" using join_written [of ms ?p] cut(2) by (simp add: write_line_def)
    moreover have "strip torn \<noteq> []" using False cut(2) by (simp add: strip_blank)
    ultimately show ?thesis by (simp add: cut_entry_def entry_of_def)
  qed
qed

text \<open>
  A note with a line break in it is not one line of the log: what follows the break is read as the start of a query when it
  looks like one, and takes in the query written next.
\<close>

definition taken_for_query :: "string \<Rightarrow> bool" where
  "taken_for_query line \<longleftrightarrow> query_line line \<and> \<not> ends_with '';'' (rstrip line)"

lemma broken_note:
  assumes "query_ok sql" "query_ok after" "unbroken note" "taken_for_query line"
  shows "finish_parse (fold parse_line (split_lines (begin_text sql @ note_text (note @ newline # line) @ begin_text after @ rest)) (entries, []))
    = finish_parse (fold parse_line (split_lines rest)
        (entries @ [\<lparr>je_sql = bare_query sql, je_annotation = Some note\<rparr>, \<lparr>je_sql = line @ newline # bare_query after, je_annotation = None\<rparr>], []))"
proof -
  obtain ls1 where one: "begin_text sql = concat (map write_line ls1)" "list_all unbroken ls1"
      "fold parse_line ls1 (entries, []) = (entries @ [\<lparr>je_sql = bare_query sql, je_annotation = None\<rparr>], [])"
    using event_step [of "Begin sql" entries] assms(1) by auto
  obtain ls l where two: "begin_text after = concat (map write_line (ls @ [l]))" "list_all query_line (ls @ [l])"
      "list_all (\<lambda>x. \<not> ends_with '';'' (rstrip x)) ls" "join_with [newline] (ls @ [l]) = bare_query after @ '';''"
    using begin_lines [OF assms(2)] .
  let ?lines = "ls1 @ (annotation_mark @ note) # line # ls @ [l]"
  have written: "begin_text sql @ note_text (note @ newline # line) @ begin_text after @ rest = concat (map write_line ?lines) @ rest"
    by (simp add: one(1) two(1) note_text_def write_line_def)
  have "unbroken (annotation_mark @ note)"
    using assms(3) by (simp add: unbroken_def annotation_mark_def) (simp add: is_break_def)
  moreover have "unbroken x" if "x \<in> set (line # ls @ [l])" for x
    using that two(2) assms(4) by (auto simp: list_all_iff taken_for_query_def query_line_def)
  ultimately have "list_all unbroken ?lines" using one(2) by (auto simp: list_all_iff)
  then have split: "split_lines (concat (map write_line ?lines) @ rest) = ?lines @ split_lines rest" by (rule split_written)
  have "l \<noteq> []" using two(2) by (auto simp: query_line_def strip_def rstrip_def)
  then have "last l = CHR '';''" using join_last [of l "[newline]" ls] two(4) by simp
  with \<open>l \<noteq> []\<close> obtain k where k: "l = k @ '';''" by (cases l rule: rev_cases) auto
  have ends: "ends_with '';'' (rstrip l)" unfolding k rstrip_def by (simp add: is_blank_def)
  have "query_line l" using two(2) by simp
  then have last: "\<not> starts_with annotation_mark l" "\<not> starts_with ''--'' l" "strip l \<noteq> []"
    using mark_comment [of l] by (simp_all add: query_line_def) blast
  have noted: "parse_line (annotation_mark @ note) (entries @ [\<lparr>je_sql = bare_query sql, je_annotation = None\<rparr>], [])
      = (entries @ [\<lparr>je_sql = bare_query sql, je_annotation = Some note\<rparr>], [])"
    by (simp add: parse_line_def annotate_last_def)
  let ?e = "entries @ [\<lparr>je_sql = bare_query sql, je_annotation = Some note\<rparr>]"
  have "fold parse_line (line # ls) (?e, []) = (?e, line # ls)"
    using parse_waiting [of "line # ls" ?e "[]"] two(2,3) assms(4) by (simp add: taken_for_query_def)
  moreover have "entry_of (line # ls @ [l]) = \<lparr>je_sql = line @ newline # bare_query after, je_annotation = None\<rparr>"
  proof -
    let ?x = "line @ newline # bare_query after"
    have joined: "join_with [newline] (line # ls @ [l]) = ?x @ '';''" using two(4) by (cases ls) simp_all
    have "bare_query after = [] \<or> last (bare_query after) \<noteq> CHR '';''" unfolding bare_query_def using rstrip_last by blast
    then have bare: "rstrip_chars (\<lambda>c. c = CHR '';'') ?x = ?x" by (intro rstrip_fixed) auto
    have "rstrip (?x @ '';'') = ?x @ '';''" unfolding rstrip_def rstrip_snoc by (simp add: is_blank_def)
    then have "bare_query (?x @ '';'') = ?x" unfolding bare_query_def [of "?x @ '';''"] using bare by (simp only: rstrip_snoc refl if_True)
    then show ?thesis unfolding entry_of_def joined by simp
  qed
  ultimately have "fold parse_line ?lines (entries, []) = (?e @ [\<lparr>je_sql = line @ newline # bare_query after, je_annotation = None\<rparr>], [])"
    using one(3) noted ends last by (simp add: parse_line_def)
  then show ?thesis unfolding written split fold_append comp_apply by simp
qed

end
