(* ===== verification/Coa_Round.thy ===== *)
theory Coa_Round
  imports Coa_Generator Coa_Schedule Coa_Verdict Coa_Journal
begin

text \<open>
  \<open>eqgen/fuzz/round.py\<close>: one round, from the seed table to its \<open>RoundOutcome\<close>.

  The worker process is the world the round runs in: what it answers after the setup, what it answers to
  the \<open>k\<close>-th query, or that it hung or died; the clock is a stream of readings.  Number formatting of Python
  (\<open>:g\<close>, \<open>:.1f\<close>, \<open>:.2f\<close>) and \<open>repr\<close> are parameters.  \<open>Coa_Protocol\<close> models the two processes
  and their pipe, and shows that this sequential view is all that can happen.
\<close>


section \<open>Labels\<close>

text \<open>\<open>describe_shape\<close>, \<open>_label\<close> and \<open>render_tree\<close> are what the log says of a tree.\<close>

definition shape_text :: "eqnode \<Rightarrow> string" where
  "shape_text n =
     (case describe_counts n of (counts, d) \<Rightarrow>
        class_name n @ '', depth '' @ str_nat d @ '', '' @ str_nat (sum_list (map snd counts)) @ '' nodes [''
        @ join_with '', '' (map (\<lambda>(nm, k). nm @ '' '' @ str_nat k) (sort_key (\<lambda>(nm, k). - int k) counts)) @ '']'')"

record float_texts =
  ft_general :: "rat \<Rightarrow> string"
  ft_fixed1 :: "rat \<Rightarrow> string"
  ft_fixed2 :: "rat \<Rightarrow> string"

definition schedule_note :: "float_texts \<Rightarrow> complexity \<Rightarrow> rat \<Rightarrow> rat \<Rightarrow> rat \<Rightarrow> string" where
  "schedule_note ft c budget mn mx =
     ''schedule: budget='' @ ft_fixed1 ft budget @ ''s (min='' @ ft_general ft mn @ '' max='' @ ft_general ft mx
     @ '' score='' @ ft_fixed2 ft (cx_score c) @ '' depth='' @ str_nat (cx_depth c) @ '' nodes='' @ str_nat (cx_nodes c)
     @ '' stmts='' @ str_nat (cx_statements c) @ '' builders='' @ str_nat (cx_builder_kinds c) @ '')''"

definition object_verdict :: "(string list \<Rightarrow> string) \<Rightarrow> 'r object_comparison \<Rightarrow> string" where
  "object_verdict repr_types c =
     (if objects_equal c then
        (if reconciled (ob_rows c) \<noteq> 0
         then ''OK (rows and declared types agree; '' @ str_nat (reconciled (ob_rows c)) @ '' row(s) reconciled by float tolerance)''
         else ''OK (rows and declared types agree)'')
      else ''NOT EQUIVALENT -- '' @ join_with ''; ''
        ((if df_equal (ob_rows c) then []
          else [''rows differ: '' @ str_nat (length (only_in_base (ob_rows c))) @ '' only in base, ''
                @ str_nat (length (only_in_other (ob_rows c))) @ '' only in equivalent''])
         @ (if types_agree c then []
            else [''types differ: base '' @ repr_types (ob_base_types c) @ '' vs equivalent '' @ repr_types (ob_equivalent_types c)])))"


section \<open>The worker, as the round sees it\<close>

datatype exit_status = StillRunning | KilledBy string | ExitedWith int | ExitUnknown

fun exit_text :: "exit_status \<Rightarrow> string" where
  "exit_text StillRunning = ''child still running but pipe closed''"
| "exit_text (KilledBy signal) = ''killed by '' @ signal"
| "exit_text (ExitedWith code) = ''exited with status '' @ str_int code"
| "exit_text ExitUnknown = ''unknown''"

datatype 'r setup_reply =
    SetupReady "'r object_comparison"
  | SetupFailed string bool
  | SetupHung exit_status
  | SetupDied exit_status

datatype 'r query_reply = Compared "'r query_comparison" | Hung exit_status | Died exit_status

record 'r world =
  w_setup :: "string list \<Rightarrow> 'r setup_reply"
  w_reply :: "nat \<Rightarrow> string \<Rightarrow> 'r query_reply"
  w_clock :: "nat \<Rightarrow> rat"

record 'r wording =
  wd_floats :: float_texts
  wd_row :: "'r \<Rightarrow> string"
  wd_types :: "string list \<Rightarrow> string"
  wd_error :: "generate_error \<Rightarrow> string"
  wd_setup_timeout :: string
  wd_query_timeout :: string

definition timeout_text :: "string \<Rightarrow> string" where
  "timeout_text limit = ''worker did not respond within '' @ limit @ ''s''"


section \<open>The query loop\<close>

record 'r loop_result =
  lr_results :: "'r query_comparison list"
  lr_crashed :: "string option"
  lr_note :: "string option"
  lr_stopped :: bool
  lr_events :: "journal_event list"

definition jot :: "bool \<Rightarrow> journal_event list \<Rightarrow> journal_event list" where
  "jot journaling events = (if journaling then events else [])"

definition over_budget :: "'r world \<Rightarrow> rat option \<Rightarrow> nat \<Rightarrow> bool" where
  "over_budget w deadline tick = (case deadline of None \<Rightarrow> False | Some d \<Rightarrow> d \<le> w_clock w tick)"

definition loop_end :: "bool \<Rightarrow> 'r loop_result" where
  "loop_end stopped = \<lparr>lr_results = [], lr_crashed = None, lr_note = None, lr_stopped = stopped, lr_events = []\<rparr>"

definition loop_crash :: "bool \<Rightarrow> string \<Rightarrow> string \<Rightarrow> string \<Rightarrow> 'r loop_result" where
  "loop_crash j query what crash_note =
     \<lparr>lr_results = [], lr_crashed = Some query, lr_note = Some crash_note, lr_stopped = False,
      lr_events = jot j [Begin query, End (''CRASH: engine '' @ what @ '' ('' @ crash_note @ '')'')]\<rparr>"

fun query_loop :: "'r wording \<Rightarrow> 'r world \<Rightarrow> bool \<Rightarrow> rat option \<Rightarrow> string list \<Rightarrow> nat \<Rightarrow> 'r loop_result" where
  "query_loop wd w j deadline [] k = loop_end (over_budget w deadline (Suc k))"
| "query_loop wd w j deadline (q # qs) k =
     (if over_budget w deadline (Suc k) then loop_end True
      else case w_reply w k q of
        Compared c \<Rightarrow>
          (let r = query_loop wd w j deadline qs (Suc k)
           in r\<lparr>lr_results := c # lr_results r, lr_events := jot j [Begin q, End (verdict (wd_row wd) c)] @ lr_events r\<rparr>)
      | Hung status \<Rightarrow> loop_crash j q ''hung'' (timeout_text (wd_query_timeout wd) @ ''; '' @ exit_text status)
      | Died status \<Rightarrow> loop_crash j q ''died'' (exit_text status))"


section \<open>run\_round\<close>

record 'r round_outcome =
  ro_seed :: nat
  ro_results :: "'r query_comparison list"
  ro_statements :: "string list"
  ro_object :: "'r object_comparison option"
  ro_crashed :: "string option"
  ro_crash_note :: "string option"
  ro_setup_crash :: "string option"
  ro_setup_error :: "string option"
  ro_setup_known :: bool
  ro_exposed :: "string list"
  ro_budget :: "rat option"
  ro_complexity :: "complexity option"
  ro_stopped :: bool

definition blank_outcome :: "nat \<Rightarrow> string list \<Rightarrow> 'r round_outcome" where
  "blank_outcome seed exposed =
     \<lparr>ro_seed = seed, ro_results = [], ro_statements = [], ro_object = None, ro_crashed = None, ro_crash_note = None,
      ro_setup_crash = None, ro_setup_error = None, ro_setup_known = False, ro_exposed = exposed, ro_budget = None,
      ro_complexity = None, ro_stopped = False\<rparr>"

definition outcome_findings :: "'r round_outcome \<Rightarrow> 'r query_comparison list" where
  "outcome_findings o' = filter is_reportable (ro_results o')"

definition object_diverged :: "'r round_outcome \<Rightarrow> bool" where
  "object_diverged o' = (case ro_object o' of None \<Rightarrow> False | Some c \<Rightarrow> \<not> objects_equal c)"

definition queries_attempted :: "'r round_outcome \<Rightarrow> nat" where
  "queries_attempted o' = length (ro_results o') + (if ro_crashed o' = None then 0 else 1)"

text \<open>The fork with the most statements, the first of them when there are several.\<close>

fun heaviest :: "generated \<Rightarrow> generated list \<Rightarrow> generated" where
  "heaviest best [] = best"
| "heaviest best (f # fs) =
     heaviest (if length (gd_statements best) < length (gd_statements f) then f else best) fs"

definition round_complexity :: "forks \<Rightarrow> complexity" where
  "round_complexity fk =
     measure_complexity (gd_root (heaviest (hd (fk_forks fk)) (tl (fk_forks fk))))
       (length (forks_statements fk)) (fk_builders fk)"

definition counts_text :: "string counter \<Rightarrow> string" where
  "counts_text counts = join_with '', '' (map (\<lambda>(nm, k). nm @ '' '' @ str_nat k) (sort_key fst counts))"

definition opening_events :: "string list \<Rightarrow> forks \<Rightarrow> journal_event list" where
  "opening_events exposed fk =
     (case fk_forks fk of
        [f] \<Rightarrow> [Record (''equivalence: '' @ shape_text (gd_root f)) (render_tree (gd_root f) [])]
      | fs \<Rightarrow> Note (''forks: '' @ str_nat (length fs) @ '' exposed as '' @ join_with '', '' exposed)
          # map (\<lambda>(i, f). Record (''equivalence fork '' @ str_nat i @ '' ('' @ case_option ''None'' id (exposed_of_generated f)
                @ ''): '' @ shape_text (gd_root f)) (render_tree (gd_root f) [])) (zip [0..<length fs] fs))
     @ [Note (''builders: '' @ counts_text (fk_builders fk))]
     @ (if fk_origins fk = [] then [] else [Note (''predicates: '' @ counts_text (fk_origins fk))])
     @ [Record ''equivalence DDL'' (map (\<lambda>sql. sql @ '';'') (forks_statements fk))]"

definition hidden_table :: "table \<Rightarrow> table" where
  "hidden_table t = Table (hidden_base_name t) (tab_columns t) None"

text \<open>The part of a round after the setup succeeded.\<close>

definition query_phase ::
  "'r wording \<Rightarrow> 'r world \<Rightarrow> bool \<Rightarrow> scheduler option \<Rightarrow> complexity option \<Rightarrow> string list \<Rightarrow> 'r object_comparison
     \<Rightarrow> 'r round_outcome \<Rightarrow> 'r round_outcome \<times> journal_event list" where
  "query_phase wd w j sched complexity queries obj out =
     (let budget = (case sched of None \<Rightarrow> None | Some s \<Rightarrow> Some (seconds s complexity));
          deadline = map_option (\<lambda>b. w_clock w 0 + b) budget;
          note = (case (sched, complexity, budget) of
             (Some s, Some c, Some b) \<Rightarrow> [Note (schedule_note (wd_floats wd) c b (min_seconds s) (max_seconds s))]
           | _ \<Rightarrow> []);
          r = query_loop wd w j deadline queries 0
      in (out\<lparr>ro_results := lr_results r, ro_object := Some obj, ro_crashed := lr_crashed r, ro_crash_note := lr_note r,
             ro_budget := budget, ro_stopped := lr_stopped r\<rparr>,
          jot j (Note (''equivalence check: '' @ object_verdict (wd_types wd) obj) # note) @ lr_events r))"

definition setup_crashed :: "bool \<Rightarrow> string \<Rightarrow> string \<Rightarrow> 'r round_outcome \<Rightarrow> 'r round_outcome \<times> journal_event list" where
  "setup_crashed j what why out =
     (out\<lparr>ro_setup_crash := Some why, ro_crash_note := Some (''while building the equivalence: '' @ why)\<rparr>,
      jot j [Note (''CRASH: engine '' @ what @ '' while building the equivalence ('' @ why @ '')'')])"

definition after_generation ::
  "'r wording \<Rightarrow> 'r world \<Rightarrow> bool \<Rightarrow> scheduler option \<Rightarrow> string list \<Rightarrow> 'r round_outcome \<Rightarrow> forks
     \<Rightarrow> 'r round_outcome \<times> journal_event list" where
  "after_generation wd w j sched queries blank fk =
     (let complexity = (if j \<or> sched \<noteq> None then Some (round_complexity fk) else None);
          out = blank\<lparr>ro_statements := forks_statements fk, ro_complexity := complexity\<rparr>;
          (outcome, events) =
            (case w_setup w (forks_statements fk) of
               SetupHung status \<Rightarrow>
                 setup_crashed j ''hung'' (timeout_text (wd_setup_timeout wd) @ ''; '' @ exit_text status) out
             | SetupDied status \<Rightarrow> setup_crashed j ''died'' (exit_text status) out
             | SetupFailed why known \<Rightarrow>
                 (out\<lparr>ro_setup_error := Some why, ro_setup_known := known\<rparr>, jot j [Note (''WOULD NOT BUILD: '' @ why)])
             | SetupReady obj \<Rightarrow> query_phase wd w j sched complexity queries obj out)
      in (outcome, jot j (opening_events (ro_exposed blank) fk) @ events))"

text \<open>The whole round; \<open>None\<close> is the \<open>ValueError\<close> of \<open>exposed_fork_names\<close>, which escapes.\<close>

definition run_round ::
  "'r wording \<Rightarrow> 'r world \<Rightarrow> generator \<Rightarrow> nat \<Rightarrow> context_env \<Rightarrow> table \<Rightarrow> string list \<Rightarrow> nat \<Rightarrow> bool \<Rightarrow> scheduler option
     \<Rightarrow> int \<Rightarrow> gen_state \<Rightarrow> ('r round_outcome \<times> journal_event list) option" where
  "run_round wd w g fuel env t queries seed j sched forks s =
     (case exposed_fork_names forks (get_sql_name t False) of
        None \<Rightarrow> None
      | Some exposed \<Rightarrow> Some (
          case generate_forks g fuel (env\<lparr>base_table := hidden_table t\<rparr>) seed exposed s of
            Inl e \<Rightarrow> ((blank_outcome seed exposed)\<lparr>ro_setup_error := Some (wd_error wd e)\<rparr>,
                      jot j [Note (''NOT GENERATED: '' @ wd_error wd e)])
          | Inr (fk, s') \<Rightarrow> after_generation wd w j sched queries (blank_outcome seed exposed) fk))"

end
