(* ===== verification/Coa_Report.thy ===== *)
theory Coa_Report
  imports Coa_Round
begin

text \<open>
  \<open>eqgen/fuzz/report.py\<close>: the findings of a round, the running totals, and the repro script of a finding.
  Text that is not ASCII is given as its UTF-8 bytes.
\<close>


section \<open>Totals\<close>

record 'r finding =
  fi_kind :: string
  fi_round :: nat
  fi_seed :: nat
  fi_query :: string
  fi_only_base :: "('r \<times> nat) list"
  fi_only_equivalent :: "('r \<times> nat) list"
  fi_base_error :: "string option"
  fi_equivalent_error :: "string option"
  fi_note :: "string option"

record 'r fuzz_report =
  rp_rounds :: nat
  rp_queries :: nat
  rp_passed :: nat
  rp_skipped :: nat
  rp_unbuildable :: nat
  rp_not_equivalent :: nat
  rp_findings :: "'r finding list"
  rp_known :: "string counter"
  rp_tolerated_queries :: nat
  rp_tolerated_rows :: nat

definition empty_report :: "'r fuzz_report" where
  "empty_report =
     \<lparr>rp_rounds = 0, rp_queries = 0, rp_passed = 0, rp_skipped = 0, rp_unbuildable = 0, rp_not_equivalent = 0,
      rp_findings = [], rp_known = [], rp_tolerated_queries = 0, rp_tolerated_rows = 0\<rparr>"

text \<open>\<open>a or b\<close> on optional text: an empty text counts as none.\<close>

definition or_else :: "string option \<Rightarrow> string option \<Rightarrow> string option" where
  "or_else a b = (case a of None \<Rightarrow> b | Some s \<Rightarrow> if s = [] then b else a)"

definition is_worker_timeout_noise :: "string option \<Rightarrow> bool" where
  "is_worker_timeout_noise note =
     (case note of
        None \<Rightarrow> False
      | Some s \<Rightarrow> s \<noteq> [] \<and> (contains ''did not respond within'' (lower s) \<or> contains ''sigkill'' (lower s)))"

definition crash_finding :: "nat \<Rightarrow> nat \<Rightarrow> string \<Rightarrow> string option \<Rightarrow> 'r finding" where
  "crash_finding round_number seed query note =
     \<lparr>fi_kind = ''crash'', fi_round = round_number, fi_seed = seed, fi_query = query, fi_only_base = [],
      fi_only_equivalent = [], fi_base_error = None, fi_equivalent_error = None, fi_note = note\<rparr>"

definition result_finding :: "nat \<Rightarrow> nat \<Rightarrow> 'r query_comparison \<Rightarrow> 'r finding" where
  "result_finding round_number seed c =
     \<lparr>fi_kind = (if is_mismatch c then ''mismatch'' else ''error''), fi_round = round_number, fi_seed = seed,
      fi_query = qc_query c, fi_only_base = qc_only_base c, fi_only_equivalent = qc_only_equivalent c,
      fi_base_error = qc_base_error c, fi_equivalent_error = qc_equivalent_error c, fi_note = None\<rparr>"

definition setup_crash_query :: string where
  "setup_crash_query = ''-- no query ran: the engine died while building the equivalence in this file''"

text \<open>A crash is a finding, or harness noise that is skipped under a label.\<close>

definition setup_crash_findings :: "'r round_outcome \<Rightarrow> nat \<Rightarrow> 'r finding list" where
  "setup_crash_findings o' n =
     (if ro_setup_crash o' \<noteq> None \<and> \<not> is_worker_timeout_noise (or_else (ro_crash_note o') (ro_setup_crash o'))
      then [crash_finding n (ro_seed o') setup_crash_query (ro_crash_note o')] else [])"

definition query_crash_findings :: "'r round_outcome \<Rightarrow> nat \<Rightarrow> 'r finding list" where
  "query_crash_findings o' n =
     (case ro_crashed o' of
        Some q \<Rightarrow> if is_worker_timeout_noise (ro_crash_note o') then [] else [crash_finding n (ro_seed o') q (ro_crash_note o')]
      | None \<Rightarrow> [])"

definition skip_noise :: "bool \<Rightarrow> 'r finding list \<Rightarrow> 'r fuzz_report \<Rightarrow> 'r fuzz_report" where
  "skip_noise crashed reported r =
     (if crashed \<and> reported = []
      then r\<lparr>rp_skipped := Suc (rp_skipped r), rp_known := bump_count ''worker-timeout'' (rp_known r)\<rparr> else r)"

definition known_label :: "'r query_comparison \<Rightarrow> string" where
  "known_label c = or_text (qc_known c) ''unlabelled''"

definition record_round :: "'r fuzz_report \<Rightarrow> 'r round_outcome \<Rightarrow> nat \<Rightarrow> 'r fuzz_report \<times> 'r finding list" where
  "record_round r o' n =
     (if ro_setup_error o' \<noteq> None then (r\<lparr>rp_unbuildable := Suc (rp_unbuildable r)\<rparr>, [])
      else if object_diverged o' then (r\<lparr>rp_not_equivalent := Suc (rp_not_equivalent r)\<rparr>, [])
      else
        (let results = ro_results o';
             at_setup = setup_crash_findings o' n;
             at_query = query_crash_findings o' n;
             r = skip_noise (ro_crashed o' \<noteq> None) at_query (skip_noise (ro_setup_crash o' \<noteq> None) at_setup r);
             tolerated = filter (\<lambda>c. is_pass c \<and> qc_reconciled c \<noteq> 0) results;
             known = filter is_known_issue results;
             found = at_setup @ at_query @ map (result_finding n (ro_seed o')) (outcome_findings o')
         in (r\<lparr>rp_rounds := Suc (rp_rounds r), rp_queries := rp_queries r + length results,
               rp_passed := rp_passed r + length (filter is_pass results),
               rp_tolerated_queries := rp_tolerated_queries r + length tolerated,
               rp_tolerated_rows := rp_tolerated_rows r + sum_list (map qc_reconciled tolerated),
               rp_skipped := rp_skipped r + (length (filter is_uncomparable results) + length known),
               rp_known := fold (\<lambda>c. bump_count (known_label c)) known (rp_known r),
               rp_findings := rp_findings r @ found\<rparr>,
             found)))"

text \<open>A session: the rounds in order, numbered from \<open>n\<close>.\<close>

fun record_rounds :: "'r fuzz_report \<Rightarrow> 'r round_outcome list \<Rightarrow> nat \<Rightarrow> 'r fuzz_report" where
  "record_rounds r [] n = r"
| "record_rounds r (o' # os) n = record_rounds (fst (record_round r o' n)) os (Suc n)"

text \<open>\<open>summary\<close>; the tolerances as Python prints them with \<open>:g\<close>.\<close>

fun insert_text :: "string \<Rightarrow> string list \<Rightarrow> string list" where
  "insert_text x [] = [x]"
| "insert_text x (y # ys) = (if x = y then y # ys else if x < y then x # y # ys else y # insert_text x ys)"

definition sorted_set :: "string list \<Rightarrow> string list" where
  "sorted_set xs = fold insert_text xs []"

definition report_summary :: "'r fuzz_report \<Rightarrow> string" where
  "report_summary r = join_with [newline]
     ([''rounds '' @ str_nat (rp_rounds r) @ '', queries '' @ str_nat (rp_queries r) @ '', pass '' @ str_nat (rp_passed r)
         @ '', skipped '' @ str_nat (rp_skipped r),
       ''findings '' @ str_nat (length (rp_findings r))
         @ (if rp_findings r = [] then [] else '' ('' @ join_with '', '' (sorted_set (map fi_kind (rp_findings r))) @ '')'')]
      @ (if rp_unbuildable r = 0 then [] else [''discarded (would not build) '' @ str_nat (rp_unbuildable r)])
      @ (if rp_not_equivalent r = 0 then []
         else [''DISCARDED (generator produced a non-equivalent object) '' @ str_nat (rp_not_equivalent r)])
      @ (if rp_tolerated_queries r = 0 then []
         else [''float tolerance reconciled '' @ str_nat (rp_tolerated_rows r) @ '' row(s) across ''
               @ str_nat (rp_tolerated_queries r) @ '' otherwise-passing query/queries (rel=0.0001 abs=0.0005)''])
      @ map (\<lambda>(label, count). ''known issue '' @ label @ '': '' @ str_nat count) (sort_key fst (rp_known r)))"


section \<open>Scripts\<close>

definition mismatch_row_log_limit :: nat where
  "mismatch_row_log_limit = 32"

definition times_sign :: string where
  "times_sign = [CHR 0xC3, CHR 0x97]"

definition ellipsis :: string where
  "ellipsis = [CHR 0xE2, CHR 0x80, CHR 0xA6]"

definition diff_block :: "('r \<Rightarrow> string) \<Rightarrow> nat \<Rightarrow> string \<Rightarrow> string \<Rightarrow> ('r \<times> nat) list \<Rightarrow> string list" where
  "diff_block repr limit prefix label entries =
     (prefix @ label @ '' ('' @ str_nat (length entries) @ '' distinct row(s), ''
        @ str_nat (sum_list (map snd entries)) @ '' row(s) counting multiplicity):'')
     # (if entries = [] then [prefix @ ''  (none)'']
        else map (\<lambda>(row, count). prefix @ ''  '' @ times_sign @ str_nat count @ '' '' @ repr row) (take limit entries)
          @ (if length entries \<le> limit then []
             else [prefix @ ''  '' @ ellipsis @ '' '' @ str_nat (length entries - limit) @ '' more distinct row(s) omitted'']))"

definition format_mismatch_results ::
  "('r \<Rightarrow> string) \<Rightarrow> ('r \<times> nat) list \<Rightarrow> ('r \<times> nat) list \<Rightarrow> nat \<Rightarrow> string \<Rightarrow> string list" where
  "format_mismatch_results repr only_base only_equivalent limit prefix =
     (prefix @ ''============ mismatch results ============'')
     # diff_block repr limit prefix ''only in base'' only_base
     @ diff_block repr limit prefix ''only in equivalent'' only_equivalent"

text \<open>What the script needs of an adapter.\<close>

record 'v script_adapter =
  sa_banner :: string
  sa_ddl :: "table \<Rightarrow> string"
  sa_literal :: "'v \<Rightarrow> string"
  sa_fork_copy :: "string \<Rightarrow> string \<Rightarrow> string list"
  sa_rename_aside :: "string \<Rightarrow> string \<Rightarrow> string"

definition statement_lines :: "string list \<Rightarrow> string list" where
  "statement_lines statements = map (\<lambda>s. s @ '';'') statements"

definition repro_header ::
  "'v script_adapter \<Rightarrow> 'r round_outcome \<Rightarrow> string \<Rightarrow> (string \<times> string) list \<Rightarrow> string option \<Rightarrow> string option
     \<Rightarrow> ('r \<times> nat) list \<Rightarrow> ('r \<times> nat) list \<Rightarrow> string list" where
  "repro_header ad o' kind session base_error equivalent_error only_base only_equivalent =
     [''-- '' @ kind, ''-- engine: '' @ sa_banner ad, ''-- seed: '' @ str_nat (ro_seed o')]
     @ map (\<lambda>(label, value'). ''-- '' @ label @ '': '' @ value') session
     @ (case or_else (ro_crash_note o') None of None \<Rightarrow> [] | Some why \<Rightarrow> [''-- crash: '' @ why])
     @ (case base_error of None \<Rightarrow> [] | Some e \<Rightarrow> [''-- BASE error: '' @ e])
     @ (case equivalent_error of None \<Rightarrow> [] | Some e \<Rightarrow> [''-- EQUIVALENT error: '' @ e])
     @ (if only_base = [] \<and> only_equivalent = [] then []
        else [''-- mismatch: '' @ str_nat (length only_base) @ '' distinct only in base, ''
              @ str_nat (length only_equivalent) @ '' distinct only in equivalent''])"

definition repro_base_side :: "'v script_adapter \<Rightarrow> table \<Rightarrow> 'v list list \<Rightarrow> 'r round_outcome \<Rightarrow> string list" where
  "repro_base_side ad t rows o' =
     statement_lines (base_setup_statements (sa_ddl ad) (sa_literal ad) t rows)
     @ statement_lines (fork_copy_statements (sa_fork_copy ad) (get_sql_name t False)
         (if ro_exposed o' = [] then [get_sql_name t False] else ro_exposed o'))"

definition repro_equivalent_side :: "'v script_adapter \<Rightarrow> table \<Rightarrow> 'v list list \<Rightarrow> 'r round_outcome \<Rightarrow> string list" where
  "repro_equivalent_side ad t rows o' =
     statement_lines (base_setup_statements (sa_ddl ad) (sa_literal ad) t rows)
     @ [sa_rename_aside ad (get_sql_name t False) (hidden_base_name t) @ '';'']
     @ statement_lines (ro_statements o')"

definition repro_lines ::
  "('r \<Rightarrow> string) \<Rightarrow> 'v script_adapter \<Rightarrow> table \<Rightarrow> 'v list list \<Rightarrow> 'r round_outcome \<Rightarrow> string \<Rightarrow> string
     \<Rightarrow> (string \<times> string) list \<Rightarrow> string option \<Rightarrow> string option \<Rightarrow> ('r \<times> nat) list \<Rightarrow> ('r \<times> nat) list \<Rightarrow> string list" where
  "repro_lines repr ad t rows o' query kind session base_error equivalent_error only_base only_equivalent =
     repro_header ad o' kind session base_error equivalent_error only_base only_equivalent
     @ ['''', ''-- ============ database 1: the base table ============''] @ repro_base_side ad t rows o'
     @ ['''', ''-- ============ database 2: the equivalent ============''] @ repro_equivalent_side ad t rows o'
     @ ['''', ''-- ============ the query, run against each ============'', bare_query query @ '';'']
     @ (if only_base = [] \<and> only_equivalent = [] then []
        else '''' # format_mismatch_results repr only_base only_equivalent mismatch_row_log_limit ''-- '')"

definition repro_script ::
  "('r \<Rightarrow> string) \<Rightarrow> 'v script_adapter \<Rightarrow> table \<Rightarrow> 'v list list \<Rightarrow> 'r round_outcome \<Rightarrow> string \<Rightarrow> string
     \<Rightarrow> (string \<times> string) list \<Rightarrow> string option \<Rightarrow> string option \<Rightarrow> ('r \<times> nat) list \<Rightarrow> ('r \<times> nat) list \<Rightarrow> string" where
  "repro_script repr ad t rows o' query kind session base_error equivalent_error only_base only_equivalent =
     join_with [newline]
       (repro_lines repr ad t rows o' query kind session base_error equivalent_error only_base only_equivalent) @ [newline]"

text \<open>\<open>write_finding\<close>: the name and the text of the file, and what is appended to the index.\<close>

definition finding_file :: "'r finding \<Rightarrow> nat \<Rightarrow> string" where
  "finding_file f index = fi_kind f @ ''_round'' @ str_nat (fi_round f) @ ''_'' @ str_nat index @ ''.sql''"

definition finding_label :: "'r finding \<Rightarrow> string" where
  "finding_label f =
     map upper_char (fi_kind f) @ (case or_else (fi_note f) None of None \<Rightarrow> [] | Some note \<Rightarrow> '' ('' @ note @ '')'')"

definition finding_text ::
  "('r \<Rightarrow> string) \<Rightarrow> 'v script_adapter \<Rightarrow> table \<Rightarrow> 'v list list \<Rightarrow> 'r round_outcome \<Rightarrow> (string \<times> string) list \<Rightarrow> 'r finding \<Rightarrow> string" where
  "finding_text repr ad t rows o' session f =
     repro_script repr ad t rows o' (fi_query f) (finding_label f) session (fi_base_error f) (fi_equivalent_error f)
       (fi_only_base f) (fi_only_equivalent f)"

definition index_text :: "('r \<Rightarrow> string) \<Rightarrow> 'r finding \<Rightarrow> nat \<Rightarrow> string" where
  "index_text repr f index =
     concat (map write_line
       ([''round '' @ str_nat (fi_round f) @ '' seed '' @ str_nat (fi_seed f) @ '': '' @ finding_file f index,
         ''    '' @ fi_query f]
        @ (case or_else (fi_equivalent_error f) None of None \<Rightarrow> [] | Some e \<Rightarrow> [''    EQUIVALENT error: '' @ e])
        @ (case or_else (fi_base_error f) None of None \<Rightarrow> [] | Some e \<Rightarrow> [''    BASE error: '' @ e])
        @ (if fi_only_base f = [] \<and> fi_only_equivalent f = [] then []
           else format_mismatch_results repr (fi_only_base f) (fi_only_equivalent f) mismatch_row_log_limit ''    '')))"


text \<open>
  A script says as a comment what failed, but only the first line of a driver's message is one: each of the lines after it
  is a line of the script, to be run with the others.
\<close>

lemma split_joined: "split_lines (s @ newline # t) = split_lines (s @ [newline]) @ split_lines t"
proof (induction s rule: split_lines.induct)
  case 1
  show ?case by (simp add: is_break_def)
next
  case (2 c s)
  show ?case
  proof (cases s)
    case Nil
    then show ?thesis by (simp add: starts_with_def is_break_def)
  next
    case (Cons d r)
    then have head: "starts_with [newline] (s @ newline # t) = starts_with [newline] s"
        "starts_with [newline] (s @ [newline]) = starts_with [newline] s"
      by (simp_all add: starts_with_def)
    have some: "split_lines (s @ [newline]) \<noteq> []"
      using Cons by (simp split: list.splits)
    show ?thesis using 2 Cons head some by (auto split: list.splits)
  qed
qed

lemma message_line_uncommented:
  assumes "message @ [newline] = first @ newline # line @ newline # others" "unbroken line"
  shows "line \<in> set (split_lines (repro_script repr ad t rows o' query kind session base_error (Some message) only_base only_equivalent))"
proof -
  have "''-- EQUIVALENT error: '' @ message \<in> set (repro_lines repr ad t rows o' query kind session base_error (Some message) only_base only_equivalent)"
    unfolding repro_lines_def repro_header_def set_append option.case by (simp only: list.set Un_iff insert_iff simp_thms)
  from split_list [OF this] obtain xs ys where lines: "repro_lines repr ad t rows o' query kind session base_error (Some message) only_base only_equivalent
      = xs @ (''-- EQUIVALENT error: '' @ message) # ys"
    by blast
  have written: "join_with [newline] zs @ [newline] = concat (map write_line zs)" if "zs \<noteq> []" for zs
    using join_written that by (cases zs rule: rev_cases) auto
  have some: "xs @ (''-- EQUIVALENT error: '' @ message) # ys \<noteq> []" by simp
  let ?a = "concat (map write_line xs) @ ''-- EQUIVALENT error: ''" and ?b = "concat (map write_line ys)"
  have "repro_script repr ad t rows o' query kind session base_error (Some message) only_base only_equivalent
      = ?a @ (message @ [newline]) @ ?b"
    unfolding repro_script_def lines written [of "xs @ (''-- EQUIVALENT error: '' @ message) # ys", OF some]
    by (simp only: map_append concat_append list.map concat.simps write_line_def append_assoc)
  also have "\<dots> = (?a @ first) @ newline # line @ newline # (others @ ?b)" unfolding assms(1) by simp
  finally have script: "repro_script repr ad t rows o' query kind session base_error (Some message) only_base only_equivalent
      = (?a @ first) @ newline # line @ newline # (others @ ?b)" .
  have "line \<in> set (split_lines (line @ newline # (others @ ?b)))"
    using assms(2) by (simp only: split_closed unbroken_def list.set insert_iff simp_thms)
  then show ?thesis unfolding script split_joined [of "?a @ first" "line @ newline # (others @ ?b)"] set_append by (rule UnI2)
qed


section \<open>The accounts\<close>

text \<open>A comparison made by \<open>compare_one\<close> has one verdict.\<close>

definition compared :: "'r query_comparison \<Rightarrow> bool" where
  "compared c \<longleftrightarrow> (\<exists>close repr q b e. c = compare_one close repr q b e)"

definition kept_round :: "'r round_outcome \<Rightarrow> bool" where
  "kept_round o' \<longleftrightarrow> ro_setup_error o' = None \<and> \<not> object_diverged o'"

definition crash_count :: "'r round_outcome \<Rightarrow> nat" where
  "crash_count o' = (if ro_setup_crash o' = None then 0 else 1) + (if ro_crashed o' = None then 0 else 1)"

lemma compared_cases:
  assumes "compared c"
  shows "is_pass c \<and> \<not> is_uncomparable c \<and> \<not> is_known_issue c \<and> \<not> is_reportable c \<or>
    \<not> is_pass c \<and> is_uncomparable c \<and> \<not> is_known_issue c \<and> \<not> is_reportable c \<or>
    \<not> is_pass c \<and> \<not> is_uncomparable c \<and> is_known_issue c \<and> \<not> is_reportable c \<or>
    \<not> is_pass c \<and> \<not> is_uncomparable c \<and> \<not> is_known_issue c \<and> is_reportable c"
proof -
  obtain close repr q b e where c: "c = compare_one close repr q b e" using assms by (auto simp: compared_def)
  show ?thesis
    unfolding c
    by (cases b; cases e)
      (auto simp: compare_one_def is_pass_def is_uncomparable_def is_known_issue_def is_reportable_def is_error_def
        is_mismatch_def Let_def or_text_def split: option.splits)
qed

lemma verdict_counts:
  assumes "list_all compared cs"
  shows "length (filter is_pass cs) + length (filter is_uncomparable cs) + length (filter is_known_issue cs)
    + length (filter is_reportable cs) = length cs"
  using assms
proof (induction cs)
  case (Cons c cs)
  then show ?case using compared_cases [of c] by auto
qed simp

lemma noise_counts:
  "length (setup_crash_findings o' n) = (if ro_setup_crash o' \<noteq> None \<and> setup_crash_findings o' n \<noteq> [] then 1 else 0)"
  "length (query_crash_findings o' n) = (if ro_crashed o' \<noteq> None \<and> query_crash_findings o' n \<noteq> [] then 1 else 0)"
  by (auto simp: setup_crash_findings_def query_crash_findings_def split: option.splits)

lemma skip_noise_simps [simp]:
  "rp_rounds (skip_noise b fs r) = rp_rounds r" "rp_queries (skip_noise b fs r) = rp_queries r"
  "rp_passed (skip_noise b fs r) = rp_passed r" "rp_unbuildable (skip_noise b fs r) = rp_unbuildable r"
  "rp_not_equivalent (skip_noise b fs r) = rp_not_equivalent r" "rp_findings (skip_noise b fs r) = rp_findings r"
  "rp_skipped (skip_noise b fs r) = rp_skipped r + (if b \<and> fs = [] then 1 else 0)"
  by (simp_all add: skip_noise_def)

lemma record_kept:
  assumes "kept_round o'"
  shows "rp_rounds (fst (record_round r o' n)) = Suc (rp_rounds r)"
    and "rp_unbuildable (fst (record_round r o' n)) = rp_unbuildable r"
    and "rp_not_equivalent (fst (record_round r o' n)) = rp_not_equivalent r"
    and "rp_queries (fst (record_round r o' n)) = rp_queries r + length (ro_results o')"
    and "rp_passed (fst (record_round r o' n)) = rp_passed r + length (filter is_pass (ro_results o'))"
    and "rp_skipped (fst (record_round r o' n)) = rp_skipped r
      + (if ro_setup_crash o' \<noteq> None \<and> setup_crash_findings o' n = [] then 1 else 0)
      + (if ro_crashed o' \<noteq> None \<and> query_crash_findings o' n = [] then 1 else 0)
      + (length (filter is_uncomparable (ro_results o')) + length (filter is_known_issue (ro_results o')))"
    and "length (rp_findings (fst (record_round r o' n))) = length (rp_findings r) + length (setup_crash_findings o' n)
      + length (query_crash_findings o' n) + length (filter is_reportable (ro_results o'))"
  using assms by (simp_all add: record_round_def kept_round_def Let_def outcome_findings_def)

lemma record_dropped:
  assumes "\<not> kept_round o'"
  shows "record_round r o' n =
    (if ro_setup_error o' \<noteq> None then (r\<lparr>rp_unbuildable := Suc (rp_unbuildable r)\<rparr>, [])
     else (r\<lparr>rp_not_equivalent := Suc (rp_not_equivalent r)\<rparr>, []))"
proof (cases "ro_setup_error o' = None")
  case True
  with assms have "object_diverged o'" by (simp add: kept_round_def)
  with True show ?thesis unfolding record_round_def by simp
qed (simp add: record_round_def)

lemma record_accounts:
  assumes "list_all compared (ro_results o')"
  shows "let r' = fst (record_round r o' n) in
    rp_rounds r' + rp_unbuildable r' + rp_not_equivalent r' = Suc (rp_rounds r + rp_unbuildable r + rp_not_equivalent r) \<and>
    rp_rounds r' = rp_rounds r + (if kept_round o' then 1 else 0) \<and>
    rp_queries r' = rp_queries r + (if kept_round o' then length (ro_results o') else 0) \<and>
    rp_passed r' + rp_skipped r' + length (rp_findings r')
      = rp_passed r + rp_skipped r + length (rp_findings r)
        + (if kept_round o' then length (ro_results o') + crash_count o' else 0)"
proof (cases "kept_round o'")
  case True
  have "crash_count o' = (if ro_setup_crash o' \<noteq> None \<and> setup_crash_findings o' n = [] then 1 else 0)
      + length (setup_crash_findings o' n)
      + (if ro_crashed o' \<noteq> None \<and> query_crash_findings o' n = [] then 1 else 0) + length (query_crash_findings o' n)"
    using noise_counts [of o' n] by (simp add: crash_count_def split: if_splits)
  note counts = this verdict_counts [OF assms]
  show ?thesis
    unfolding Let_def record_kept [OF True] if_P [OF True]
  proof (intro conjI)
  qed (use counts in linarith)+
next
  case False
  show ?thesis unfolding record_dropped [OF False] using False by (simp add: Let_def)
qed

lemma accounts:
  assumes "list_all (\<lambda>o'. list_all compared (ro_results o')) os"
  shows "let r' = record_rounds r os n in
    rp_rounds r' + rp_unbuildable r' + rp_not_equivalent r' = rp_rounds r + rp_unbuildable r + rp_not_equivalent r + length os \<and>
    rp_rounds r' = rp_rounds r + length (filter kept_round os) \<and>
    rp_queries r' = rp_queries r + sum_list (map (\<lambda>o'. length (ro_results o')) (filter kept_round os)) \<and>
    rp_passed r' + rp_skipped r' + length (rp_findings r')
      = rp_passed r + rp_skipped r + length (rp_findings r)
        + sum_list (map (\<lambda>o'. length (ro_results o') + crash_count o') (filter kept_round os))"
  using assms
proof (induction os arbitrary: r n)
  case (Cons o' os)
  have here: "list_all compared (ro_results o')" and later: "list_all (\<lambda>o'. list_all compared (ro_results o')) os"
    using Cons.prems by simp_all
  show ?case using record_accounts [OF here, of r n] Cons.IH [OF later, of "fst (record_round r o' n)" "Suc n"] by (simp add: Let_def)
qed simp

text \<open>What is reported: crashes and reportable comparisons of rounds that were kept.\<close>

definition justified :: "'r round_outcome list \<Rightarrow> 'r finding \<Rightarrow> bool" where
  "justified os f \<longleftrightarrow> fi_round f < length os \<and>
     (let o' = os ! fi_round f in
        kept_round o' \<and> fi_seed f = ro_seed o' \<and>
        (fi_kind f = ''crash'' \<and> (ro_setup_crash o' \<noteq> None \<or> ro_crashed o' = Some (fi_query f)) \<or>
         (\<exists>c \<in> set (ro_results o'). is_reportable c \<and> fi_query f = qc_query c \<and>
            fi_kind f = (if is_mismatch c then ''mismatch'' else ''error''))))"

lemma record_justified:
  assumes "f \<in> set (snd (record_round r (os ! n) n))" "n < length os"
  shows "justified os f"
  using assms
  by (auto simp: record_round_def justified_def Let_def kept_round_def setup_crash_findings_def query_crash_findings_def
      crash_finding_def result_finding_def outcome_findings_def split: if_splits option.splits)

lemma record_appends: "rp_findings (fst (record_round r o' n)) = rp_findings r @ snd (record_round r o' n)"
  by (simp add: record_round_def Let_def)

lemma findings_from:
  "f \<in> set (rp_findings (record_rounds r (drop n os) n)) \<Longrightarrow> f \<in> set (rp_findings r) \<or> justified os f"
proof (induction "length os - n" arbitrary: r n)
  case (Suc m)
  then have "n < length os" by simp
  moreover from this have "drop n os = os ! n # drop (Suc n) os" by (rule Cons_nth_drop_Suc [symmetric])
  moreover have "m = length os - Suc n" using Suc.hyps(2) by simp
  ultimately show ?case
    using Suc.hyps(1) [of "Suc n" "fst (record_round r (os ! n) n)"] Suc.prems record_justified [of f r os n]
    by (auto simp: record_appends)
qed simp

end
