(* ===== verification/Coa_Worker.thy ===== *)
theory Coa_Worker
  imports Coa_Report
begin

text \<open>
  The child process of a round (\<open>_worker\<close> of \<open>round.py\<close>) and the methods of \<open>Database\<close> it calls.  A
  backend is what stands behind the adapter's connection: a database state, and what it answers to a
  statement.  \<open>worker_world\<close> is the worker as the world in which \<open>run_round\<close> runs when the process lives.
\<close>


section \<open>Database\<close>

text \<open>An exception with its text, and whether the adapter knows it for no bug.\<close>

type_synonym failure = "string \<times> bool"

record ('d, 'r) backend =
  be_empty :: 'd
  be_run :: "'d \<Rightarrow> string \<Rightarrow> failure + 'd"
  be_fetch :: "'d \<Rightarrow> string \<Rightarrow> failure + 'r list"
  be_describe :: "'d \<Rightarrow> string \<Rightarrow> failure + string list"
  be_query :: "'d \<Rightarrow> string \<Rightarrow> 'r response \<times> 'd"
  be_explains :: "'d \<Rightarrow> string \<Rightarrow> bool"

fun run_statements :: "('d, 'r) backend \<Rightarrow> 'd \<Rightarrow> string list \<Rightarrow> failure + 'd" where
  "run_statements be db [] = Inr db"
| "run_statements be db (s # ss) = ebind (be_run be db s) (\<lambda>db'. run_statements be db' ss)"

definition database_accepts :: "('d, 'r) backend \<Rightarrow> 'd \<Rightarrow> string \<Rightarrow> bool" where
  "database_accepts be db sql = be_explains be db (''EXPLAIN '' @ sql)"

definition read_rows :: "('d, 'r) backend \<Rightarrow> 'd \<Rightarrow> string \<Rightarrow> string list \<Rightarrow> failure + 'r list" where
  "read_rows be db nm columns = be_fetch be db (''SELECT '' @ join_with '', '' columns @ '' FROM '' @ nm)"

definition read_types :: "('d, 'r) backend \<Rightarrow> 'd \<Rightarrow> string \<Rightarrow> string list \<Rightarrow> failure + string list" where
  "read_types be db nm columns = be_describe be db (''SELECT '' @ join_with '', '' columns @ '' FROM '' @ nm @ '' WHERE 1 = 0'')"

text \<open>\<open>compare_objects\<close> with its four reads in their order.\<close>

definition read_object ::
  "('d, 'r) backend \<Rightarrow> ('r \<Rightarrow> 'r \<Rightarrow> bool) \<Rightarrow> ('r \<Rightarrow> string) \<Rightarrow> 'd \<Rightarrow> 'd \<Rightarrow> string list \<Rightarrow> string \<Rightarrow> failure + 'r object_comparison" where
  "read_object be close repr base equivalent columns nm =
     ebind (read_rows be base nm columns) (\<lambda>rb.
     ebind (read_rows be equivalent nm columns) (\<lambda>re.
     ebind (read_types be base nm columns) (\<lambda>tb.
     ebind (read_types be equivalent nm columns) (\<lambda>te.
     Inr \<lparr>ob_rows = compare_multisets close repr (tally_rows rb) (tally_rows re), ob_base_types = tb, ob_equivalent_types = te\<rparr>))))"

definition read_env ::
  "('d, 'r) backend \<Rightarrow> ('r \<Rightarrow> 'r \<Rightarrow> bool) \<Rightarrow> ('r \<Rightarrow> string) \<Rightarrow> 'd \<Rightarrow> 'd \<Rightarrow> table \<Rightarrow> string list \<Rightarrow> failure + 'r object_comparison" where
  "read_env be close repr base equivalent t exposed =
     ebind (esequence (map (read_object be close repr base equivalent (column_names t))
              (if exposed = [] then [get_sql_name t False] else exposed)))
       (\<lambda>comparisons. Inr (case filter (\<lambda>c. \<not> objects_equal c) comparisons of c # _ \<Rightarrow> c | [] \<Rightarrow> hd comparisons))"


section \<open>The worker\<close>

datatype ('d, 'r) worker_start = Refused failure | Ready 'd 'd "'r object_comparison"

definition start_worker ::
  "('d, 'r) backend \<Rightarrow> 'v script_adapter \<Rightarrow> ('r \<Rightarrow> 'r \<Rightarrow> bool) \<Rightarrow> ('r \<Rightarrow> string) \<Rightarrow> table \<Rightarrow> 'v list list \<Rightarrow> string list
     \<Rightarrow> string list \<Rightarrow> ('d, 'r) worker_start" where
  "start_worker be ad close repr t rows exposed statements =
     (case run_statements be (be_empty be) (base_side_statements (sa_ddl ad) (sa_literal ad) (sa_fork_copy ad) t rows exposed) of
        Inl e \<Rightarrow> Refused e
      | Inr base \<Rightarrow>
          (case run_statements be (be_empty be) (equivalent_side_statements (sa_rename_aside ad) (sa_ddl ad) (sa_literal ad) t rows statements) of
             Inl e \<Rightarrow> Refused e
           | Inr equivalent \<Rightarrow>
               (case read_env be close repr base equivalent t exposed of
                  Inl (e, known) \<Rightarrow> Refused (''reading the object failed: '' @ e, known)
                | Inr comparison \<Rightarrow> Ready base equivalent comparison)))"

definition start_reply :: "('d, 'r) worker_start \<Rightarrow> 'r setup_reply" where
  "start_reply w = (case w of Refused (e, known) \<Rightarrow> SetupFailed e known | Ready base equivalent c \<Rightarrow> SetupReady c)"

definition after_queries :: "('d, 'r) backend \<Rightarrow> string list \<Rightarrow> 'd \<Rightarrow> 'd" where
  "after_queries be qs db = fold (\<lambda>q d. snd (be_query be d q)) qs db"

text \<open>The worker answers the \<open>k\<close>-th query in the state the queries before it left.\<close>

definition worker_reply ::
  "('d, 'r) backend \<Rightarrow> ('r \<Rightarrow> 'r \<Rightarrow> bool) \<Rightarrow> ('r \<Rightarrow> string) \<Rightarrow> ('d, 'r) worker_start \<Rightarrow> string list \<Rightarrow> nat \<Rightarrow> string \<Rightarrow> 'r query_reply" where
  "worker_reply be close repr w queries k q =
     (case w of
        Refused e \<Rightarrow> Died (ExitedWith 0)
      | Ready base equivalent c \<Rightarrow>
          Compared (compare_one close repr q
            (fst (be_query be (after_queries be (take k queries) base) q))
            (fst (be_query be (after_queries be (take k queries) equivalent) q))))"

definition worker_world ::
  "('d, 'r) backend \<Rightarrow> 'v script_adapter \<Rightarrow> ('r \<Rightarrow> 'r \<Rightarrow> bool) \<Rightarrow> ('r \<Rightarrow> string) \<Rightarrow> (nat \<Rightarrow> rat) \<Rightarrow> table \<Rightarrow> 'v list list \<Rightarrow> string list
     \<Rightarrow> string list \<Rightarrow> string list \<Rightarrow> 'r world" where
  "worker_world be ad close repr ticks t rows exposed queries statements =
     \<lparr>w_setup = (\<lambda>ss. start_reply (start_worker be ad close repr t rows exposed ss)),
      w_reply = worker_reply be close repr (start_worker be ad close repr t rows exposed statements) queries,
      w_clock = ticks\<rparr>"


section \<open>Laws\<close>

text \<open>A world whose answers are comparisons of two responses to the query it was sent.\<close>

definition answers_queries :: "'r world \<Rightarrow> bool" where
  "answers_queries w \<longleftrightarrow> (\<forall>k q c. w_reply w k q = Compared c \<longrightarrow> compared c \<and> qc_query c = q)"

lemma compare_one_query [simp]: "qc_query (compare_one close repr q b e) = q"
  by (simp add: compare_one_def Let_def split: option.splits)

lemma compared_one: "compared (compare_one close repr q b e)"
  unfolding compared_def by (intro exI) (rule refl)

lemma worker_answers: "answers_queries (worker_world be ad close repr ticks t rows exposed queries statements)"
  by (auto simp: answers_queries_def worker_world_def worker_reply_def compared_one split: worker_start.splits)

lemma loop_results:
  assumes "answers_queries w"
  shows "list_all compared (lr_results (query_loop wd w j deadline queries k))
    \<and> map qc_query (lr_results (query_loop wd w j deadline queries k))
        = take (length (lr_results (query_loop wd w j deadline queries k))) queries
    \<and> (\<forall>q. lr_crashed (query_loop wd w j deadline queries k) = Some q \<longrightarrow>
        (\<exists>rest. queries = map qc_query (lr_results (query_loop wd w j deadline queries k)) @ q # rest))"
proof (induction queries arbitrary: k)
  case (Cons q qs)
  show ?case
  proof (cases "over_budget w deadline (Suc k)")
    case False
    show ?thesis
    proof (cases "w_reply w k q")
      case (Compared c)
      with assms have "compared c" "qc_query c = q" by (auto simp: answers_queries_def)
      with Compared False Cons.IH [of "Suc k"] show ?thesis by (auto simp: Let_def)
    qed (use False in \<open>simp_all add: loop_crash_def\<close>)
  qed (simp add: loop_end_def)
qed (simp add: loop_end_def)

lemma round_results:
  assumes "answers_queries w" "run_round wd w g fuel env t queries seed j sched forks s = Some (o', events)"
  shows "list_all compared (ro_results o')"
proof -
  have phase: "list_all compared (ro_results (fst (query_phase wd w j sched c queries obj out)))" for c obj and out :: "'a round_outcome"
    using loop_results [OF assms(1)] by (simp add: query_phase_def Let_def)
  have after: "list_all compared (ro_results (fst (after_generation wd w j sched queries (blank_outcome seed e) fk)))" for e fk
    using phase
    by (simp add: after_generation_def Let_def setup_crashed_def blank_outcome_def split: setup_reply.splits prod.splits)
      (metis fst_conv)
  show ?thesis
    using assms(2) after
    by (auto simp: run_round_def blank_outcome_def split: option.splits sum.splits prod.splits) (metis fst_conv)
qed

end
