(* ===== verification/Coa_Sampling.thy ===== *)
theory Coa_Sampling
  imports Coa_Names Coa_Numbers Coa_Contract
begin

text \<open>
  The second half of \<open>eqgen/fuzz/journal.py\<close>: the sampled catalog of a round, and the awkward rows it
  is filled with; the column pools of the adapters.  \<open>random.Random(seed)\<close> is a stream of numbers.
\<close>


section \<open>Values to choose from\<close>

definition scaled :: "sql_type \<Rightarrow> bool" where
  "scaled ty \<longleftrightarrow> (case get_scale ty of None \<Rightarrow> False | Some k \<Rightarrow> k \<noteq> 0)"

definition pool_for :: "bool \<Rightarrow> sql_type \<Rightarrow> cell list" where
  "pool_for allow_inf ty =
     (if is_boolean ty then [NumCell TBool 1, NumCell TBool 0, NoneCell]
      else if is_double ty then
        map (NumCell TFloat) [0, 3 / 2, - 3 / 2, 1000125 / 1000] @ [NoneCell]
        @ (if allow_inf then [InfCell False True, InfCell False False] else [])
      else if is_numeric ty then
        (if scaled ty then map (NumCell TFloat) [0, 1234 / 100, - 550 / 100, 99999 / 100] @ [NoneCell]
         else map (NumCell TInt) [0, 1, 2, - 1, - 7, 42] @ [NoneCell])
      else map StrCell
        (case kind_of ty of
           DATE \<Rightarrow> [''2024-01-15'', ''1999-12-31'', ''2030-06-01'']
         | TIMESTAMP \<Rightarrow> [''2024-01-15 12:34:56'', ''1999-12-31 23:59:59'']
         | JSONB \<Rightarrow> [''{}'', ''[]'', ''{\"a\": 1}'', ''{\"k\": \"v\", \"n\": null}'', ''{\"a\": [1, 2]}'']
         | UUID \<Rightarrow> [''00000000-0000-0000-0000-000000000000'', ''550e8400-e29b-41d4-a716-446655440000'',
                   ''ffffffff-ffff-ffff-ffff-ffffffffffff'']
         | INT4RANGE \<Rightarrow> [''empty'', ''[1,10)'', ''[0,100]'', ''(,)'', ''[-5,5]'']
         | _ \<Rightarrow> ['''', ''a'', ''abc'', ''Zed'', ''o'' @ [CHR 0x27] @ ''brien'', ''trailing '']) @ [NoneCell])"


section \<open>Catalogs\<close>

definition pk_column :: string where
  "pk_column = ''c_pk''"

type_synonym spec = "(string \<times> sql_type) list"

text \<open>\<open>_SIMPLE_SPEC\<close> and \<open>_RICH_SPEC\<close> of the adapters; PostgreSQL has three more types.\<close>

definition simple_spec :: spec where
  "simple_spec = [(''c_pk'', IntegerType), (''id'', IntegerType), (''name'', SqlType TEXT None None), (''created_at'', SqlType TEXT None None)]"

definition rich_spec :: spec where
  "rich_spec =
     [(''c_pk'', IntegerType), (''c_int'', IntegerType), (''c_big'', SqlType NUMERIC (Some 38) (Some 0)),
      (''c_dec'', SqlType NUMERIC (Some 10) (Some 2)), (''c_dbl'', SqlType DOUBLE None None),
      (''c_txt'', SqlType TEXT None None), (''c_chr'', SqlType TEXT None None), (''c_date'', SqlType DATE None None),
      (''c_ts'', SqlType TIMESTAMP None None)]"

definition postgres_rich_spec :: spec where
  "postgres_rich_spec =
     rich_spec @ [(''c_json'', SqlType JSONB None None), (''c_uuid'', SqlType UUID None None), (''c_range'', SqlType INT4RANGE None None)]"

definition catalog_type_pool :: "spec \<Rightarrow> spec" where
  "catalog_type_pool sp = filter (\<lambda>(nm, ty). nm \<noteq> ''c_pk'') sp"

definition spec_table :: "string \<Rightarrow> spec \<Rightarrow> table" where
  "spec_table nm sp =
     Table nm (map (\<lambda>(i, (c, ty)). Column c ty (int i) (c \<noteq> ''c_pk'')) (zip [1..<Suc (length sp)] sp)) None"

datatype catalog_error = EmptyTypePool | InvalidRange int int

fun draw_columns :: "spec \<Rightarrow> (nat \<Rightarrow> nat) \<Rightarrow> nat \<Rightarrow> nat \<Rightarrow> string counter \<Rightarrow> column list \<Rightarrow> column list" where
  "draw_columns pool rolls 0 k used columns = columns"
| "draw_columns pool rolls (Suc n) k used columns =
     (case pool ! (rolls k mod length pool) of (preferred, ty) \<Rightarrow>
        let count = Suc (count_of used preferred);
            nm = (if count = 1 then preferred else preferred @ ''_'' @ str_nat count)
        in draw_columns pool rolls n (Suc k) (bump_count preferred used)
             (columns @ [Column nm ty (int (length columns) + 1) True]))"

definition sample_catalog :: "spec \<Rightarrow> string \<Rightarrow> int \<Rightarrow> int \<Rightarrow> (nat \<Rightarrow> nat) \<Rightarrow> catalog_error + table" where
  "sample_catalog pool nm min_extra max_extra rolls =
     (if pool = [] then Inl EmptyTypePool
      else if min_extra < 0 \<or> max_extra < min_extra then Inl (InvalidRange min_extra max_extra)
      else let n_extra = nat (min_extra + int (rolls 0) mod (max_extra - min_extra + 1))
           in Inr (Table nm (draw_columns pool rolls n_extra 1 [] [Column pk_column IntegerType 1 False]) None))"


section \<open>Rows\<close>

definition first_index :: "('a \<Rightarrow> bool) \<Rightarrow> 'a list \<Rightarrow> nat option" where
  "first_index p xs = (case filter (\<lambda>i. p (xs ! i)) [0..<length xs] of [] \<Rightarrow> None | i # _ \<Rightarrow> Some i)"

definition drawn_rows :: "(nat \<Rightarrow> nat) \<Rightarrow> cell list list \<Rightarrow> nat \<Rightarrow> cell list list" where
  "drawn_rows rolls pools n_rows =
     replicate (length pools) NoneCell
     # map (\<lambda>i. map (\<lambda>j. pools ! j ! (rolls (i * length pools + j) mod length (pools ! j))) [0..<length pools])
         [0..<max n_rows 3 - 1]"

definition plant_inf :: "bool \<Rightarrow> column list \<Rightarrow> cell list list \<Rightarrow> cell list list" where
  "plant_inf allow_inf columns rows =
     (if \<not> allow_inf then rows
      else case first_index (\<lambda>c. is_double (col_type c)) columns of
        None \<Rightarrow> rows
      | Some d \<Rightarrow> rows[1 := (rows ! 1)[d := InfCell False True], 2 := (rows ! 2)[d := InfCell False False]])"

definition plant_duplicate :: "'a list \<Rightarrow> 'a list" where
  "plant_duplicate rows = rows[length rows - 1 := rows ! 1]"

definition number_rows :: "column list \<Rightarrow> cell list list \<Rightarrow> cell list list" where
  "number_rows columns rows =
     (case first_index (\<lambda>c. col_name c = pk_column) columns of
        None \<Rightarrow> rows
      | Some p \<Rightarrow> map (\<lambda>(n, row). row[p := NumCell TInt (of_nat n)]) (zip [1..<Suc (length rows)] rows))"

definition sample_rows :: "table \<Rightarrow> nat \<Rightarrow> bool \<Rightarrow> (nat \<Rightarrow> nat) \<Rightarrow> cell list list" where
  "sample_rows t n_rows allow_inf rolls =
     (let columns = tab_columns t
      in if columns = [] then []
         else number_rows columns (plant_duplicate (plant_inf allow_inf columns
                (drawn_rows rolls (map (\<lambda>c. pool_for allow_inf (col_type c)) columns) n_rows))))"

definition sample_rows_sql :: "('v \<Rightarrow> string) \<Rightarrow> 'v list list \<Rightarrow> string list" where
  "sample_rows_sql literal rows = map (\<lambda>row. ''('' @ join_with '', '' (map literal row) @ '')'') rows"


section \<open>Laws of the catalog\<close>

text \<open>A pool whose numbered names cannot meet each other, the key column or the generator's own names.\<close>

definition numbered :: "string \<Rightarrow> string \<Rightarrow> bool" where
  "numbered stem nm \<longleftrightarrow> starts_with (stem @ ''_'') nm \<and> list_all is_digit (drop (Suc (length stem)) nm)"

definition stem_ok :: "string \<Rightarrow> bool" where
  "stem_ok p \<longleftrightarrow> p \<noteq> pk_column \<and> p \<noteq> ''eq'' \<and> take 3 p \<noteq> ''eq_''"

definition pool_ok :: "spec \<Rightarrow> bool" where
  "pool_ok pool \<longleftrightarrow>
     pool \<noteq> [] \<and> list_all stem_ok (map fst pool) \<and>
     list_all (\<lambda>p. list_all (\<lambda>q. \<not> numbered q p) (map fst pool)) (map fst pool)"

definition suffixed :: "string \<Rightarrow> nat \<Rightarrow> string" where
  "suffixed p k = (if k = 1 then p else p @ ''_'' @ str_nat k)"

lemma numbered_suffix: "numbered p (p @ ''_'' @ str_nat k)"
  by (simp add: numbered_def starts_with_def all_digits)

lemma suffixed_inj:
  assumes "pool_ok pool" "p \<in> fst ` set pool" "q \<in> fst ` set pool" "suffixed p j = suffixed q k"
  shows "p = q \<and> j = k"
proof -
  have "\<not> numbered q p" "\<not> numbered p q" using assms(1-3) by (auto simp: pool_ok_def list_all_iff)
  then have apart: "p \<noteq> q @ ''_'' @ str_nat k" "q \<noteq> p @ ''_'' @ str_nat j"
    using numbered_suffix [of q k] numbered_suffix [of p j] by metis+
  show ?thesis
    using assms(4) apart name_inj [of p j q k] by (auto simp: suffixed_def split: if_splits)
qed

lemma suffixed_not_key:
  assumes "stem_ok p" shows "suffixed p k \<noteq> pk_column"
proof
  assume "suffixed p k = pk_column"
  with assms have "p @ ''_'' @ str_nat k = ''c_pk''" by (auto simp: suffixed_def stem_ok_def pk_column_def split: if_splits)
  from arg_cong [OF this, of last] have "last (str_nat k) = CHR ''k''" by simp
  moreover have "last (str_nat k) \<in> set ''0123456789''"
    using str_nat_digits [of k] last_in_set [OF str_nat_nonempty [of k]] by blast
  ultimately show False by simp
qed

lemma suffixed_fresh:
  assumes "stem_ok p" shows "take 3 (suffixed p k) \<noteq> ''eq_''"
proof (cases p)
  case (Cons a q)
  show ?thesis
  proof (cases q)
    case (Cons b r)
    with \<open>p = a # q\<close> assms show ?thesis
      by (cases r) (auto simp: suffixed_def stem_ok_def numeral_3_eq_3)
  qed (use \<open>p = a # q\<close> assms in \<open>auto simp: suffixed_def stem_ok_def numeral_3_eq_3\<close>)
qed (auto simp: suffixed_def numeral_3_eq_3)

lemma draw_columns_Suc:
  assumes "pool ! (rolls k mod length pool) = (p, ty)"
  shows "draw_columns pool rolls (Suc n) k used columns = draw_columns pool rolls n (Suc k) (bump_count p used)
    (columns @ [Column (suffixed p (Suc (count_of used p))) ty (int (length columns) + 1) True])"
  by (simp add: assms suffixed_def Let_def)

text \<open>The columns drawn so far: the key, then stems with their counts.\<close>

lemma draw_columns_names:
  assumes "pool_ok pool" "distinct keys" "\<forall>(p, j) \<in> set keys. p \<in> fst ` set pool \<and> 1 \<le> j \<and> j \<le> count_of used p"
    and "map col_name columns = pk_column # map (case_prod suffixed) keys"
  shows "\<exists>keys'. distinct keys' \<and> fst ` set keys' \<subseteq> fst ` set pool \<and>
    map col_name (draw_columns pool rolls n k used columns) = pk_column # map (case_prod suffixed) keys'"
  using assms(2-)
proof (induction n arbitrary: k used columns keys)
  case 0
  then show ?case by (intro exI [of _ keys]) auto
next
  case (Suc n)
  obtain p ty where entry: "pool ! (rolls k mod length pool) = (p, ty)" by (cases "pool ! (rolls k mod length pool)")
  then have "(p, ty) \<in> set pool" using assms(1) by (metis length_greater_0_conv mod_less_divisor nth_mem pool_ok_def)
  then have p: "p \<in> fst ` set pool" by force
  let ?j = "Suc (count_of used p)"
  let ?keys = "keys @ [(p, ?j)]"
  let ?columns = "columns @ [Column (suffixed p ?j) ty (int (length columns) + 1) True]"
  have "distinct ?keys" using Suc.prems(1,2) by auto
  moreover have "\<forall>(q, j) \<in> set ?keys. q \<in> fst ` set pool \<and> 1 \<le> j \<and> j \<le> count_of (bump_count p used) q"
    using Suc.prems(2) p by (auto split: prod.splits)
  moreover have "map col_name ?columns = pk_column # map (case_prod suffixed) ?keys"
    using Suc.prems(3) by simp
  ultimately have "\<exists>keys'. distinct keys' \<and> fst ` set keys' \<subseteq> fst ` set pool \<and>
    map col_name (draw_columns pool rolls n (Suc k) (bump_count p used) ?columns) = pk_column # map (case_prod suffixed) keys'"
    by (rule Suc.IH)
  then show ?case unfolding draw_columns_Suc [of pool rolls k, OF entry] .
qed

lemma catalog_keys:
  assumes "pool_ok pool" "sample_catalog pool nm mn mx rolls = Inr t"
  shows "\<exists>keys. distinct keys \<and> fst ` set keys \<subseteq> fst ` set pool \<and> column_names t = pk_column # map (case_prod suffixed) keys"
  using assms(2) draw_columns_names [OF assms(1), of "[]" "[]" "[Column pk_column IntegerType 1 False]" rolls]
  by (auto simp: sample_catalog_def column_names_def Let_def split: if_splits)

lemma catalog_ok:
  assumes "pool_ok pool" "sample_catalog pool nm mn mx rolls = Inr t"
  shows "table_ok t"
proof -
  from catalog_keys [OF assms] obtain keys where keys: "distinct keys" "fst ` set keys \<subseteq> fst ` set pool"
      "column_names t = pk_column # map (case_prod suffixed) keys"
    by blast
  have stems: "stem_ok p" if "(p, j) \<in> set keys" for p j
  proof -
    have "p \<in> fst ` set pool" using that keys(2) by force
    then show ?thesis using assms(1) by (auto simp: pool_ok_def list_all_iff)
  qed
  have "inj_on (case_prod suffixed) (set keys)"
  proof (rule inj_onI, clarify)
    fix p j q k
    assume "(p, j) \<in> set keys" "(q, k) \<in> set keys" and same: "suffixed p j = suffixed q k"
    then have "p \<in> fst ` set pool" "q \<in> fst ` set pool" using keys(2) by force+
    from suffixed_inj [OF assms(1) this same] show "p = q \<and> j = k" .
  qed
  then have "distinct (column_names t)"
    unfolding keys(3) using keys(1) stems suffixed_not_key by (auto simp: distinct_map dest: sym)
  moreover have "take 3 c \<noteq> ''eq_''" if "c \<in> set (column_names t)" for c
    using that keys(3) suffixed_fresh [OF stems] by (auto simp: pk_column_def)
  ultimately show ?thesis by (simp add: table_ok_def)
qed

lemma draw_columns_prefix: "\<exists>more. draw_columns pool rolls n k used columns = columns @ more \<and> length more = n"
proof (induction n arbitrary: k used columns)
  case (Suc n)
  obtain p ty where entry: "pool ! (rolls k mod length pool) = (p, ty)" by (cases "pool ! (rolls k mod length pool)")
  obtain more where "draw_columns pool rolls n (Suc k) (bump_count p used)
      (columns @ [Column (suffixed p (Suc (count_of used p))) ty (int (length columns) + 1) True])
    = (columns @ [Column (suffixed p (Suc (count_of used p))) ty (int (length columns) + 1) True]) @ more" "length more = n"
    using Suc.IH by blast
  then show ?case unfolding draw_columns_Suc [of pool rolls k, OF entry] by simp
qed simp

lemma catalog_columns:
  assumes "sample_catalog pool nm mn mx rolls = Inr t"
  shows "\<exists>more. t = Table nm (Column pk_column IntegerType 1 False # more) None \<and>
    mn \<le> int (length more) \<and> int (length more) \<le> mx"
proof -
  from assms have range: "0 \<le> mn" "mn \<le> mx"
    and t: "t = Table nm (draw_columns pool rolls (nat (mn + int (rolls 0) mod (mx - mn + 1))) 1 [] [Column pk_column IntegerType 1 False]) None"
    by (auto simp: sample_catalog_def Let_def split: if_splits)
  obtain more where "draw_columns pool rolls (nat (mn + int (rolls 0) mod (mx - mn + 1))) 1 [] [Column pk_column IntegerType 1 False]
      = [Column pk_column IntegerType 1 False] @ more" "length more = nat (mn + int (rolls 0) mod (mx - mn + 1))"
    using draw_columns_prefix by blast
  moreover have "0 \<le> int (rolls 0) mod (mx - mn + 1)" "int (rolls 0) mod (mx - mn + 1) \<le> mx - mn"
    using range pos_mod_sign [of "mx - mn + 1" "int (rolls 0)"] pos_mod_bound [of "mx - mn + 1" "int (rolls 0)"] by simp_all
  ultimately show ?thesis using range t by (intro exI [of _ more]) simp
qed

end
