(* ===== verification/Coa_Cells.thy ===== *)
theory Coa_Cells
  imports Coa_Sampling
begin

text \<open>
  What it means for a seed value of \<open>journal.py\<close> to be one of its column's type: the shape of dates, timestamps,
  UUIDs, ranges and JSON documents in text, which columns take which numbers, and that every value of
  \<open>_pool_for\<close> is of the type it was asked for.
\<close>


section \<open>Values as text\<close>

definition number_text :: "string \<Rightarrow> bool" where
  "number_text s \<longleftrightarrow> s \<noteq> [] \<and> list_all is_digit s"

definition decimal :: "string \<Rightarrow> nat" where
  "decimal s = fold (\<lambda>c n. 10 * n + (of_char c - 48)) s 0"

definition between :: "nat \<Rightarrow> nat \<Rightarrow> string \<Rightarrow> bool" where
  "between lo hi s \<longleftrightarrow> number_text s \<and> lo \<le> decimal s \<and> decimal s \<le> hi"

definition month_days :: "nat \<Rightarrow> nat \<Rightarrow> nat" where
  "month_days year month =
     (if month = 2 then (if year mod 4 = 0 \<and> (year mod 100 \<noteq> 0 \<or> year mod 400 = 0) then 29 else 28)
      else if month \<in> {4, 6, 9, 11} then 30 else 31)"

text \<open>\<open>YYYY-MM-DD\<close>, a day of the calendar, and \<open>hh:mm:ss\<close>.\<close>

definition date_text :: "string \<Rightarrow> bool" where
  "date_text s \<longleftrightarrow> length s = 10 \<and> s ! 4 = CHR ''-'' \<and> s ! 7 = CHR ''-'' \<and> number_text (take 4 s) \<and>
     between 1 12 (take 2 (drop 5 s)) \<and> between 1 (month_days (decimal (take 4 s)) (decimal (take 2 (drop 5 s)))) (drop 8 s)"

definition time_text :: "string \<Rightarrow> bool" where
  "time_text s \<longleftrightarrow> length s = 8 \<and> s ! 2 = CHR '':'' \<and> s ! 5 = CHR '':'' \<and>
     between 0 23 (take 2 s) \<and> between 0 59 (take 2 (drop 3 s)) \<and> between 0 59 (drop 6 s)"

definition timestamp_text :: "string \<Rightarrow> bool" where
  "timestamp_text s \<longleftrightarrow> date_text (take 10 s) \<and> take 1 (drop 10 s) = '' '' \<and> time_text (drop 11 s)"

definition uuid_text :: "string \<Rightarrow> bool" where
  "uuid_text s \<longleftrightarrow> length s = 36 \<and>
     list_all (\<lambda>i. if i \<in> {8, 13, 18, 23} then s ! i = CHR ''-'' else s ! i \<in> set ''0123456789abcdef'') [0..<36]"

text \<open>A range of whole numbers: \<open>empty\<close>, or two bounds in brackets, either of which may be missing.\<close>

definition bound_of :: "string \<Rightarrow> int option" where
  "bound_of s =
     (case s of c # ds \<Rightarrow>
        if c = CHR ''-'' then (if number_text ds then Some (- int (decimal ds)) else None)
        else if number_text s then Some (int (decimal s)) else None
      | [] \<Rightarrow> None)"

definition range_text :: "string \<Rightarrow> bool" where
  "range_text s \<longleftrightarrow> s = ''empty'' \<or>
     (let inner = butlast (tl s);
          lower = takeWhile (\<lambda>c. c \<noteq> CHR '','') inner;
          upper = drop (Suc (length lower)) inner
      in 3 \<le> length s \<and> hd s \<in> set ''[('' \<and> last s \<in> set '')]'' \<and> CHR '','' \<in> set inner \<and>
         (lower = [] \<or> bound_of lower \<noteq> None) \<and> (upper = [] \<or> bound_of upper \<noteq> None) \<and>
         (case (bound_of lower, bound_of upper) of (Some a, Some b) \<Rightarrow> a \<le> b | _ \<Rightarrow> True))"

text \<open>JSON documents, with the separators the pool writes.\<close>

definition json_quoted :: "string \<Rightarrow> string" where
  "json_quoted s = [CHR 0x22] @ s @ [CHR 0x22]"

definition json_plain :: "string \<Rightarrow> bool" where
  "json_plain s \<longleftrightarrow> list_all (\<lambda>c. c \<noteq> CHR 0x22 \<and> c \<noteq> CHR 0x5C \<and> (32 :: nat) \<le> of_char c) s"

inductive json_text :: "string \<Rightarrow> bool" where
  json_null: "json_text ''null''"
| json_number: "number_text s \<Longrightarrow> hd s \<noteq> CHR ''0'' \<or> length s = 1 \<Longrightarrow> json_text s"
| json_string: "json_plain s \<Longrightarrow> json_text (json_quoted s)"
| json_array: "(\<And>t. t \<in> set ts \<Longrightarrow> json_text t) \<Longrightarrow> json_text (''['' @ join_with '', '' ts @ '']'')"
| json_object: "(\<And>k t. (k, t) \<in> set kts \<Longrightarrow> json_plain k \<and> json_text t) \<Longrightarrow>
    json_text (''{'' @ join_with '', '' (map (\<lambda>(k, t). json_quoted k @ '': '' @ t) kts) @ ''}'')"

definition text_of_kind :: "type_kind \<Rightarrow> string \<Rightarrow> bool" where
  "text_of_kind k s =
     (case k of
        DATE \<Rightarrow> date_text s | TIMESTAMP \<Rightarrow> timestamp_text s | UUID \<Rightarrow> uuid_text s | INT4RANGE \<Rightarrow> range_text s
      | JSONB \<Rightarrow> json_text s | VARCHAR \<Rightarrow> True | CHAR_T \<Rightarrow> True | TEXT \<Rightarrow> True | _ \<Rightarrow> False)"


section \<open>Values of a type\<close>

text \<open>
  NULL is of every type; Booleans, whole numbers, numbers of two decimals and binary fractions are kept apart; the
  infinities are values of \<open>DOUBLE\<close>, and only where they were allowed.
\<close>

definition number_ok :: "sql_type \<Rightarrow> num_tag \<Rightarrow> rat \<Rightarrow> bool" where
  "number_ok ty tag q =
     (case tag of
        TBool \<Rightarrow> is_boolean ty \<and> (q = 0 \<or> q = 1)
      | TInt \<Rightarrow> is_numeric ty \<and> \<not> scaled ty \<and> q \<in> \<int>
      | TFloat \<Rightarrow> (if is_double ty then \<exists>k. q * 2 ^ k \<in> \<int> else is_numeric ty \<and> scaled ty \<and> q * 100 \<in> \<int>)
      | _ \<Rightarrow> False)"

fun cell_ok :: "bool \<Rightarrow> sql_type \<Rightarrow> cell \<Rightarrow> bool" where
  "cell_ok allow_inf ty NoneCell = True"
| "cell_ok allow_inf ty (NumCell tag q) = number_ok ty tag q"
| "cell_ok allow_inf ty (InfCell d up) = (allow_inf \<and> is_double ty \<and> \<not> d)"
| "cell_ok allow_inf ty (StrCell s) = text_of_kind (kind_of ty) s"
| "cell_ok allow_inf ty c = False"

definition cells_ok :: "bool \<Rightarrow> column list \<Rightarrow> cell list \<Rightarrow> bool" where
  "cells_ok allow_inf columns r \<longleftrightarrow> list_all2 (\<lambda>c v. cell_ok allow_inf (col_type c) v) columns r"

text \<open>Whole-number and text columns hold nothing but NULL, whole numbers and text.\<close>

lemma cell_kinds:
  assumes "cell_ok ai ty c"
  shows "integer_keyed ty \<Longrightarrow> c = NoneCell \<or> (\<exists>i. c = NumCell TInt (of_int i))"
    and "is_varchar ty \<Longrightarrow> c = NoneCell \<or> (\<exists>s. c = StrCell s)"
proof -
  assume ty: "integer_keyed ty"
  then have kinds: "\<not> is_boolean ty" "\<not> is_double ty" "\<not> scaled ty" "kind_of ty = NUMERIC \<or> kind_of ty = INTEGER"
    by (auto simp: integer_keyed_def is_numeric_def is_double_def is_boolean_def scaled_def)
  then show "c = NoneCell \<or> (\<exists>i. c = NumCell TInt (of_int i))"
    using assms by (cases "(ai, ty, c)" rule: cell_ok.cases) (auto simp: number_ok_def text_of_kind_def elim!: Ints_cases split: num_tag.splits)
next
  assume "is_varchar ty"
  then show "c = NoneCell \<or> (\<exists>s. c = StrCell s)"
    using assms by (cases "(ai, ty, c)" rule: cell_ok.cases)
      (auto simp: number_ok_def is_varchar_def is_numeric_def is_double_def is_boolean_def split: num_tag.splits if_splits)
qed

lemma cells_ok_length: "cells_ok ai columns r \<Longrightarrow> length r = length columns"
  by (auto simp: cells_ok_def dest: list_all2_lengthD)

lemma cells_ok_update: "cells_ok ai columns r \<Longrightarrow> cell_ok ai (col_type (columns ! j)) v \<Longrightarrow> cells_ok ai columns (r[j := v])"
  unfolding cells_ok_def list_all2_conv_all_nth by (metis length_list_update nth_list_update_eq nth_list_update_neq)

lemma int_cell_ok: "kind_of ty = INTEGER \<Longrightarrow> cell_ok ai ty (NumCell TInt (of_nat n))"
  by (cases ty) (simp add: number_ok_def is_numeric_def scaled_def)

lemma inf_cell_ok: "is_double ty \<Longrightarrow> cell_ok True ty (InfCell False b)"
  by simp


section \<open>The pools\<close>

lemma pool_nonempty: "pool_for ai ty \<noteq> []"
  by (simp add: pool_for_def)

lemma int_pool: "[0, 1, 2, - 1, - 7, 42] = map rat_of_int [0, 1, 2, - 1, - 7, 42]"
  by simp

lemma float_pool: "x \<in> set [0, 3 / 2, - 3 / 2, 1000125 / 1000] \<Longrightarrow> x * 2 ^ 3 \<in> (\<int> :: rat set)"
proof -
  have "[0, 3 / 2, - 3 / 2, 1000125 / 1000] = map (\<lambda>i. rat_of_int i / 8) [0, 12, - 12, 8001]" by simp
  moreover assume "x \<in> set [0, 3 / 2, - 3 / 2, 1000125 / 1000]"
  ultimately obtain i where "x = rat_of_int i / 8" by (metis ex_map_conv)
  then show ?thesis by simp
qed

lemma scaled_pool: "x \<in> set [0, 1234 / 100, - 550 / 100, 99999 / 100] \<Longrightarrow> x * 100 \<in> (\<int> :: rat set)"
proof -
  have "[0, 1234 / 100, - 550 / 100, 99999 / 100] = map (\<lambda>i. rat_of_int i / 100) [0, 1234, - 550, 99999]" by simp
  moreover assume "x \<in> set [0, 1234 / 100, - 550 / 100, 99999 / 100]"
  ultimately obtain i where "x = rat_of_int i / 100" by (metis ex_map_conv)
  then show ?thesis by simp
qed

lemma json_pool: "list_all json_text [''{}'', ''[]'', ''{\"a\": 1}'', ''{\"k\": \"v\", \"n\": null}'', ''{\"a\": [1, 2]}'']"
proof -
  have digits: "json_text ''1''" "json_text ''2''" by (rule json_number; code_simp)+
  have plain: "json_plain ''a''" "json_plain ''k''" "json_plain ''n''" "json_plain ''v''" by code_simp+
  have "json_text ''{}''" "json_text ''[]''" using json_object [of "[]"] json_array [of "[]"] by simp_all
  moreover have "json_text ''{\"a\": 1}''"
    using json_object [of "[(''a'', ''1'')]"] digits plain by (simp add: json_quoted_def)
  moreover have "json_text ''{\"k\": \"v\", \"n\": null}''"
    using json_object [of "[(''k'', json_quoted ''v''), (''n'', ''null'')]"] json_string [of "''v''"] json_null plain
    by (auto simp add: json_quoted_def)
  moreover have "json_text ''[1, 2]''" using json_array [of "[''1'', ''2'']"] digits by auto
  then have "json_text ''{\"a\": [1, 2]}''"
    using json_object [of "[(''a'', ''[1, 2]'')]"] plain by (simp add: json_quoted_def)
  ultimately show ?thesis by simp
qed

lemma text_pools:
  "list_all date_text [''2024-01-15'', ''1999-12-31'', ''2030-06-01'']"
  "list_all timestamp_text [''2024-01-15 12:34:56'', ''1999-12-31 23:59:59'']"
  "list_all uuid_text [''00000000-0000-0000-0000-000000000000'', ''550e8400-e29b-41d4-a716-446655440000'',
     ''ffffffff-ffff-ffff-ffff-ffffffffffff'']"
  "list_all range_text [''empty'', ''[1,10)'', ''[0,100]'', ''(,)'', ''[-5,5]'']"
  by code_simp+

text \<open>Every value of a pool is of the type the pool is for.\<close>

lemma pool_cells:
  assumes "v \<in> set (pool_for ai ty)"
  shows "cell_ok ai ty v"
proof -
  consider "is_boolean ty" | "is_double ty" | "is_numeric ty" "scaled ty" | "is_numeric ty" "\<not> scaled ty"
    | "\<not> is_boolean ty" "\<not> is_double ty" "\<not> is_numeric ty" by blast
  then show ?thesis
  proof cases
    case 1
    with assms show ?thesis by (auto simp: pool_for_def number_ok_def)
  next
    case 2
    then have "\<not> is_boolean ty" by (simp add: is_double_def is_boolean_def)
    with 2 have "pool_for ai ty = map (NumCell TFloat) [0, 3 / 2, - 3 / 2, 1000125 / 1000] @ [NoneCell]
        @ (if ai then [InfCell False True, InfCell False False] else [])"
      unfolding pool_for_def by (simp only: if_False if_True)
    with assms have "v \<in> NumCell TFloat ` set [0, 3 / 2, - 3 / 2, 1000125 / 1000] \<union>
        set ([NoneCell] @ (if ai then [InfCell False True, InfCell False False] else []))"
      unfolding set_map [symmetric] set_append [symmetric] by argo
    then consider "v = NoneCell" | x where "v = NumCell TFloat x" "x \<in> set [0, 3 / 2, - 3 / 2, 1000125 / 1000]"
      | b where "ai" "v = InfCell False b"
    proof (rule UnE)
      assume "v \<in> set ([NoneCell] @ (if ai then [InfCell False True, InfCell False False] else []))"
      with that(1,3) show thesis by (cases ai) auto
    qed (erule imageE, rule that(2))
    then show ?thesis
    proof cases
      case (2 x)
      with float_pool have "\<exists>k. x * 2 ^ k \<in> \<int>" by blast
      with 2(1) \<open>is_double ty\<close> show ?thesis by (simp add: number_ok_def)
    qed (use 2 in simp_all)
  next
    case 3
    then have kinds: "\<not> is_boolean ty" "\<not> is_double ty" by (auto simp: is_numeric_def is_double_def is_boolean_def)
    with 3 have "pool_for ai ty = map (NumCell TFloat) [0, 1234 / 100, - 550 / 100, 99999 / 100] @ [NoneCell]"
      unfolding pool_for_def by (simp only: if_False if_True)
    with assms have "v \<in> NumCell TFloat ` set [0, 1234 / 100, - 550 / 100, 99999 / 100] \<union> set [NoneCell]"
      unfolding set_map [symmetric] set_append [symmetric] by argo
    then consider "v = NoneCell" | x where "v = NumCell TFloat x" "x \<in> set [0, 1234 / 100, - 550 / 100, 99999 / 100]"
    proof (rule UnE)
      assume "v \<in> set [NoneCell]"
      with that(1) show thesis by simp
    qed (erule imageE, rule that(2))
    then show ?thesis
    proof cases
      case (2 x)
      have "x * 100 \<in> \<int>" by (rule scaled_pool [OF 2(2)])
      with 2(1) 3 kinds show ?thesis by (simp add: number_ok_def)
    qed simp
  next
    case 4
    then have kinds: "\<not> is_boolean ty" "\<not> is_double ty" by (auto simp: is_numeric_def is_double_def is_boolean_def)
    with 4 assms have "v \<in> set (map (NumCell TInt) (map rat_of_int [0, 1, 2, - 1, - 7, 42]) @ [NoneCell])"
      unfolding int_pool [symmetric] by (simp add: pool_for_def)
    then consider "v = NoneCell" | i where "v = NumCell TInt (rat_of_int i)"
      unfolding map_map set_append by (auto simp only: set_map comp_apply list.set insert_iff empty_iff Un_iff)
    then show ?thesis using 4 by cases (simp_all add: number_ok_def)
  next
    case 5
    then show ?thesis
      using assms text_pools json_pool unfolding pool_for_def text_of_kind_def
      by (cases "kind_of ty") (auto simp: text_of_kind_def is_boolean_def is_double_def is_numeric_def list_all_iff)
  qed
qed

end
