(* ===== verification/Coa_Awkward.thy ===== *)
theory Coa_Awkward
  imports Coa_Cells
begin

text \<open>
  What the sampled rows of \<open>journal.py\<close> are: an all-NULL row, a duplicate, infinities where they are
  asked for, unique keys, and only values of the type of their column.
\<close>


section \<open>Shapes\<close>

lemma nth_upt_Suc: "i < n \<Longrightarrow> [Suc 0..<Suc n] ! i = Suc i"
  by (simp del: upt_Suc)

lemma first_index_Some: "first_index p xs = Some i \<Longrightarrow> i < length xs \<and> p (xs ! i)"
proof -
  assume "first_index p xs = Some i"
  then obtain rest where "filter (\<lambda>i. p (xs ! i)) [0..<length xs] = i # rest"
    by (auto simp: first_index_def split: list.splits)
  then have "i \<in> set (filter (\<lambda>i. p (xs ! i)) [0..<length xs])" by simp
  then show ?thesis by simp
qed

lemma first_index_None: "first_index p xs = None \<Longrightarrow> x \<in> set xs \<Longrightarrow> \<not> p x"
  by (auto simp: first_index_def filter_empty_conv in_set_conv_nth split: list.splits)

lemma first_index_exists: "x \<in> set xs \<Longrightarrow> p x \<Longrightarrow> \<exists>i. first_index p xs = Some i"
  using first_index_None [of p xs x] by (cases "first_index p xs") auto

definition key_typed :: "column list \<Rightarrow> bool" where
  "key_typed columns \<longleftrightarrow> list_all (\<lambda>c. col_name c = pk_column \<longrightarrow> kind_of (col_type c) = INTEGER) columns"


section \<open>The rows\<close>

lemma drawn_length [simp]: "length (drawn_rows rolls pools n_rows) = max n_rows 3"
  by (simp add: drawn_rows_def)

lemma drawn_first: "drawn_rows rolls pools n_rows ! 0 = replicate (length pools) NoneCell"
  by (simp add: drawn_rows_def)

lemma drawn_ok:
  assumes "r \<in> set (drawn_rows rolls (map (\<lambda>c. pool_for ai (col_type c)) columns) n_rows)"
  shows "cells_ok ai columns r"
proof -
  have "pool_for ai (col_type c) ! (k mod length (pool_for ai (col_type c))) \<in> set (pool_for ai (col_type c))" for c k
    using pool_nonempty [of ai "col_type c"] by (intro nth_mem) simp
  then have "cell_ok ai (col_type c) (pool_for ai (col_type c) ! (k mod length (pool_for ai (col_type c))))" for c k
    using pool_cells by blast
  then show ?thesis using assms by (auto simp: drawn_rows_def cells_ok_def list_all2_conv_all_nth)
qed

lemma plant_length [simp]: "length (plant_inf ai columns rows) = length rows"
  by (simp add: plant_inf_def split: option.splits)

lemma plant_first: "plant_inf ai columns rows ! 0 = rows ! 0"
  by (simp add: plant_inf_def split: option.splits)

lemma plant_ok:
  assumes "\<forall>r \<in> set rows. cells_ok ai columns r" "3 \<le> length rows" "r \<in> set (plant_inf ai columns rows)"
  shows "cells_ok ai columns r"
proof (cases "ai \<and> first_index (\<lambda>c. is_double (col_type c)) columns \<noteq> None")
  case True
  then obtain d where d: "first_index (\<lambda>c. is_double (col_type c)) columns = Some d" by auto
  from first_index_Some [OF this] have "is_double (col_type (columns ! d))" by simp
  moreover have "cells_ok ai columns (rows ! 1)" "cells_ok ai columns (rows ! 2)" using assms(1,2) by simp_all
  ultimately have "cells_ok ai columns ((rows ! 1)[d := InfCell False True])" "cells_ok ai columns ((rows ! 2)[d := InfCell False False])"
    using True by (simp_all add: cells_ok_update)
  moreover have "r \<in> {(rows ! 1)[d := InfCell False True], (rows ! 2)[d := InfCell False False]} \<union> set rows"
    using assms(3) True d by (auto simp: plant_inf_def dest!: set_update_subset_insert [THEN subsetD])
  ultimately show ?thesis using assms(1) by blast
next
  case False
  then have "plant_inf ai columns rows = rows" by (auto simp: plant_inf_def)
  with assms show ?thesis by simp
qed

lemma duplicate_length [simp]: "length (plant_duplicate rows) = length rows"
  by (simp add: plant_duplicate_def)

lemma duplicate_nth: "i < length rows \<Longrightarrow> plant_duplicate rows ! i = (if i = length rows - 1 then rows ! 1 else rows ! i)"
  by (simp add: plant_duplicate_def nth_list_update)

lemma number_length [simp]: "length (number_rows columns rows) = length rows"
  by (simp add: number_rows_def del: upt_Suc split: option.splits)

lemma number_nth:
  "i < length rows \<Longrightarrow> number_rows columns rows ! i =
     (case first_index (\<lambda>c. col_name c = pk_column) columns of
        None \<Rightarrow> rows ! i | Some p \<Rightarrow> (rows ! i)[p := NumCell TInt (of_nat (Suc i))])"
  by (simp add: number_rows_def del: upt_Suc split: option.splits)

lemma away_from_key:
  assumes "col_name (columns ! j) \<noteq> pk_column" "i < length rows"
  shows "number_rows columns rows ! i ! j = rows ! i ! j"
proof (cases "first_index (\<lambda>c. col_name c = pk_column) columns")
  case (Some p)
  from first_index_Some [OF this] assms(1) have "p \<noteq> j" by auto
  then show ?thesis unfolding number_nth [OF assms(2)] Some option.case by (rule nth_list_update_neq)
qed (simp add: number_nth assms(2))

text \<open>The rows before they are numbered.\<close>

definition unnumbered :: "table \<Rightarrow> nat \<Rightarrow> bool \<Rightarrow> (nat \<Rightarrow> nat) \<Rightarrow> cell list list" where
  "unnumbered t n_rows ai rolls =
     plant_duplicate (plant_inf ai (tab_columns t) (drawn_rows rolls (map (\<lambda>c. pool_for ai (col_type c)) (tab_columns t)) n_rows))"

lemma sample_numbered: "tab_columns t \<noteq> [] \<Longrightarrow> sample_rows t n_rows ai rolls = number_rows (tab_columns t) (unnumbered t n_rows ai rolls)"
  by (simp add: sample_rows_def unnumbered_def Let_def)

lemma unnumbered_length [simp]: "length (unnumbered t n_rows ai rolls) = max n_rows 3"
  by (simp add: unnumbered_def)

lemma unnumbered_ok: "i < max n_rows 3 \<Longrightarrow> cells_ok ai (tab_columns t) (unnumbered t n_rows ai rolls ! i)"
proof -
  assume i: "i < max n_rows 3"
  let ?drawn = "drawn_rows rolls (map (\<lambda>c. pool_for ai (col_type c)) (tab_columns t)) n_rows"
  have all: "cells_ok ai (tab_columns t) r" if "r \<in> set (plant_inf ai (tab_columns t) ?drawn)" for r
    using drawn_ok that by (intro plant_ok [of ?drawn]) auto
  have "unnumbered t n_rows ai rolls ! i = plant_inf ai (tab_columns t) ?drawn ! (if i = max n_rows 3 - 1 then 1 else i)"
    using i unfolding unnumbered_def by (subst duplicate_nth) simp_all
  also have "\<dots> \<in> set (plant_inf ai (tab_columns t) ?drawn)" using i by (intro nth_mem) (simp add: max_def split: if_splits)
  finally show ?thesis by (rule all)
qed

lemma unnumbered_first: "unnumbered t n_rows ai rolls ! 0 = replicate (length (tab_columns t)) NoneCell"
  unfolding unnumbered_def by (subst duplicate_nth) (auto simp: plant_first drawn_first max_def)

lemma unnumbered_last: "unnumbered t n_rows ai rolls ! (max n_rows 3 - 1) = unnumbered t n_rows ai rolls ! 1"
  unfolding unnumbered_def by (subst (1 2) duplicate_nth) (auto simp: max_def)

lemma sample_length: "tab_columns t \<noteq> [] \<Longrightarrow> length (sample_rows t n_rows ai rolls) = max n_rows 3"
  by (simp add: sample_numbered)

lemma sample_ok:
  assumes "key_typed (tab_columns t)" "r \<in> set (sample_rows t n_rows ai rolls)"
  shows "cells_ok ai (tab_columns t) r"
proof -
  have some: "tab_columns t \<noteq> []" using assms(2) by (auto simp: sample_rows_def)
  then obtain i where i: "i < max n_rows 3" "r = sample_rows t n_rows ai rolls ! i"
    using assms(2) sample_length by (metis in_set_conv_nth)
  show ?thesis
  proof (cases "first_index (\<lambda>c. col_name c = pk_column) (tab_columns t)")
    case None
    with i unnumbered_ok show ?thesis by (simp add: sample_numbered [OF some] number_nth)
  next
    case (Some p)
    from first_index_Some [OF this] assms(1) have "kind_of (col_type (tab_columns t ! p)) = INTEGER"
      by (auto simp: key_typed_def list_all_length)
    then have "cell_ok ai (col_type (tab_columns t ! p)) (NumCell TInt (of_nat (Suc i)))" by (rule int_cell_ok)
    from cells_ok_update [OF unnumbered_ok [OF i(1)] this] Some i show ?thesis
      by (simp only: sample_numbered [OF some] number_nth unnumbered_length option.case)
  qed
qed

text \<open>Away from the key column the first row is NULL and the last repeats the second.\<close>

lemma sample_null_row:
  assumes "j < length (tab_columns t)" "col_name (tab_columns t ! j) \<noteq> pk_column"
  shows "sample_rows t n_rows ai rolls ! 0 ! j = NoneCell"
proof -
  have some: "tab_columns t \<noteq> []" using assms(1) by auto
  have "sample_rows t n_rows ai rolls ! 0 ! j = unnumbered t n_rows ai rolls ! 0 ! j"
    unfolding sample_numbered [OF some] by (rule away_from_key) (use assms(2) in simp_all)
  then show ?thesis using assms(1) by (simp add: unnumbered_first)
qed

lemma sample_duplicate:
  assumes "j < length (tab_columns t)" "col_name (tab_columns t ! j) \<noteq> pk_column"
  shows "last (sample_rows t n_rows ai rolls) ! j = sample_rows t n_rows ai rolls ! 1 ! j"
proof -
  have some: "tab_columns t \<noteq> []" using assms(1) by auto
  note away = away_from_key [OF assms(2)]
  have "sample_rows t n_rows ai rolls \<noteq> []" using sample_length [OF some, of n_rows ai rolls] by auto
  then have "last (sample_rows t n_rows ai rolls) = sample_rows t n_rows ai rolls ! (max n_rows 3 - 1)"
    by (simp add: last_conv_nth sample_length [OF some])
  then show ?thesis unfolding sample_numbered [OF some] by (simp add: away unnumbered_last [unfolded One_nat_def])
qed

lemma sample_keys:
  assumes "first_index (\<lambda>c. col_name c = pk_column) (tab_columns t) = Some p"
  shows "map (\<lambda>r. r ! p) (sample_rows t n_rows ai rolls) = map (\<lambda>n. NumCell TInt (of_nat n)) [1..<Suc (max n_rows 3)]"
proof (rule nth_equalityI)
  have p: "p < length (tab_columns t)" using first_index_Some [OF assms] by simp
  then have some: "tab_columns t \<noteq> []" by auto
  show "length (map (\<lambda>r. r ! p) (sample_rows t n_rows ai rolls)) = length (map (\<lambda>n. NumCell TInt (of_nat n)) [1..<Suc (max n_rows 3)])"
    by (simp only: length_map length_upt sample_length [OF some] diff_Suc_1)
  fix i assume "i < length (map (\<lambda>r. r ! p) (sample_rows t n_rows ai rolls))"
  then have i: "i < max n_rows 3" by (simp add: sample_length [OF some])
  with cells_ok_length [OF unnumbered_ok] have "length (unnumbered t n_rows ai rolls ! i) = length (tab_columns t)" by blast
  with i p show "map (\<lambda>r. r ! p) (sample_rows t n_rows ai rolls) ! i = map (\<lambda>n. NumCell TInt (of_nat n)) [1..<Suc (max n_rows 3)] ! i"
    by (simp add: sample_numbered [OF some] number_nth assms nth_upt_Suc del: upt_Suc)
qed

lemma sample_infinities:
  assumes "first_index (\<lambda>c. is_double (col_type c)) (tab_columns t) = Some d" "key_typed (tab_columns t)"
  shows "sample_rows t n_rows True rolls ! 1 ! d = InfCell False True \<and> sample_rows t n_rows True rolls ! 2 ! d = InfCell False (n_rows \<le> 3)"
proof -
  from first_index_Some [OF assms(1)] have d: "d < length (tab_columns t)" "is_double (col_type (tab_columns t ! d))" by simp_all
  then have some: "tab_columns t \<noteq> []" by auto
  have "col_name (tab_columns t ! d) \<noteq> pk_column"
    using d assms(2) by (auto simp: key_typed_def list_all_length is_double_def)
  note away = away_from_key [OF this]
  let ?drawn = "drawn_rows rolls (map (\<lambda>c. pool_for True (col_type c)) (tab_columns t)) n_rows"
  have wide: "length (?drawn ! i) = length (tab_columns t)" if "i < max n_rows 3" for i
    using that by (intro cells_ok_length [of True] drawn_ok [of _ rolls True _ n_rows] nth_mem) simp
  have "unnumbered t n_rows True rolls ! 1 ! d = InfCell False True \<and> unnumbered t n_rows True rolls ! 2 ! d = InfCell False (n_rows \<le> 3)"
  proof (cases "n_rows \<le> 3")
    case True
    then have "max n_rows 3 = 3" by simp
    with d wide [of 1] wide [of 2] True show ?thesis by (simp add: unnumbered_def duplicate_nth plant_inf_def assms(1))
  next
    case False
    then have "max n_rows 3 = n_rows" "n_rows - 1 \<noteq> 1" "n_rows - 1 \<noteq> 2" "1 < n_rows" "2 < n_rows" by simp_all
    with d wide [of 1] wide [of 2] False show ?thesis by (simp add: unnumbered_def duplicate_nth plant_inf_def assms(1))
  qed
  then show ?thesis by (simp add: sample_numbered [OF some] away)
qed


section \<open>The rows an engine stores\<close>

text \<open>
  An engine stores a seed value in a column as it reads the literal: NULL as NULL, a whole number in a
  whole-number column as that number, text in a text column as some text, floating point only in floating columns.
\<close>

definition store_ok :: "(sql_type \<Rightarrow> cell \<Rightarrow> sqlval) \<Rightarrow> bool" where
  "store_ok store \<longleftrightarrow>
     (\<forall>ty. store ty NoneCell = SNull) \<and>
     (\<forall>ty i. integer_keyed ty \<longrightarrow> store ty (NumCell TInt (of_int i)) = SInt i) \<and>
     (\<forall>ty s. is_varchar ty \<longrightarrow> (\<exists>u. store ty (StrCell s) = SStr u)) \<and>
     (\<forall>ty c. is_dbl (store ty c) \<longrightarrow> is_double ty)"

definition stored_row :: "(sql_type \<Rightarrow> cell \<Rightarrow> sqlval) \<Rightarrow> table \<Rightarrow> cell list \<Rightarrow> row" where
  "stored_row store t r = map (\<lambda>(c, v). store (col_type c) v) (zip (tab_columns t) r)"

lemma stored_ok:
  assumes "store_ok store" "cells_ok ai (tab_columns t) r"
  shows "row_ok t (stored_row store t r)"
proof -
  have cell: "value_ok ty (store ty v)" if "cell_ok ai ty v" for ty v
    using assms(1) cell_kinds [OF that] unfolding store_ok_def value_ok_def by metis
  show ?thesis
    using assms(2) cells_ok_length [OF assms(2)]
    by (auto simp: row_ok_def stored_row_def cells_ok_def list_all2_conv_all_nth cell)
qed

lemma sampled_base_rows:
  assumes "store_ok store" "key_typed (tab_columns t)"
  shows "base_rows_ok t (map (stored_row store t) (sample_rows t n_rows ai rolls))"
  using stored_ok [OF assms(1) sample_ok [OF assms(2)]] by (auto simp: base_rows_ok_def)

lemma catalog_key_typed:
  assumes "pool_ok pool" "sample_catalog pool nm mn mx rolls = Inr t"
  shows "key_typed (tab_columns t)"
proof -
  obtain more where t: "t = Table nm (Column pk_column IntegerType 1 False # more) None"
    using catalog_columns [OF assms(2)] by blast
  have "distinct (column_names t)" using catalog_ok [OF assms] by (simp add: table_ok_def)
  with t have "pk_column \<notin> col_name ` set more" by (simp add: column_names_def)
  then have "\<forall>c \<in> set more. col_name c \<noteq> pk_column" by force
  then show ?thesis using t by (simp add: key_typed_def list_all_iff)
qed

lemma first_index_head: "p x \<Longrightarrow> first_index p (x # xs) = Some 0"
  by (simp add: first_index_def upt_conv_Cons del: upt_Suc)

lemma awkward_rows:
  assumes "pool_ok pool" "sample_catalog pool nm mn mx rolls = Inr t"
  shows "let rows = sample_rows t n ai rolls' in
    length rows = max n 3 \<and> map hd rows = map (\<lambda>k. NumCell TInt (of_nat k)) [1..<Suc (max n 3)] \<and>
    tl (rows ! 0) = replicate (length (tab_columns t) - 1) NoneCell \<and> tl (last rows) = tl (rows ! 1) \<and>
    list_all (cells_ok ai (tab_columns t)) rows \<and>
    (case first_index (\<lambda>c. is_double (col_type c)) (tab_columns t) of
       Some d \<Rightarrow> \<not> ai \<or> rows ! 1 ! d = InfCell False True \<and> rows ! 2 ! d = InfCell False (n \<le> 3)
     | None \<Rightarrow> True)"
proof -
  obtain more where t: "t = Table nm (Column pk_column IntegerType 1 False # more) None"
    using catalog_columns [OF assms(2)] by blast
  then have some: "tab_columns t \<noteq> []" by simp
  have typed: "key_typed (tab_columns t)" using assms(1,2) by (rule catalog_key_typed)
  have "distinct (column_names t)" using catalog_ok [OF assms(1,2)] by (simp add: table_ok_def)
  with t have "pk_column \<notin> col_name ` set more" by (simp add: column_names_def)
  then have other: "col_name (tab_columns t ! Suc i) \<noteq> pk_column" if "i < length more" for i
    using imageI [OF nth_mem [OF that], of col_name] t by auto
  let ?rows = "sample_rows t n ai rolls'"
  have len: "length ?rows = max n 3" by (rule sample_length [OF some])
  have ok: "cells_ok ai (tab_columns t) r" if "r \<in> set ?rows" for r using sample_ok [OF typed that] .
  have wide: "length r = Suc (length more)" if "r \<in> set ?rows" for r using cells_ok_length [OF ok [OF that]] t by simp
  have member: "?rows ! i \<in> set ?rows" if "i < max n 3" for i using that len by simp
  have last: "last ?rows = ?rows ! (max n 3 - 1)" using len by (subst last_conv_nth) auto
  have "map hd ?rows = map (\<lambda>r. r ! 0) ?rows"
  proof (intro map_cong refl)
    fix r assume "r \<in> set ?rows"
    with wide have "r \<noteq> []" by fastforce
    then show "hd r = r ! 0" by (rule hd_conv_nth)
  qed
  also have "\<dots> = map (\<lambda>k. NumCell TInt (of_nat k)) [1..<Suc (max n 3)]"
    using sample_keys [of t 0 n ai rolls'] first_index_head [of "\<lambda>c. col_name c = pk_column"] t by simp
  finally have keys: "map hd ?rows = map (\<lambda>k. NumCell TInt (of_nat k)) [1..<Suc (max n 3)]" .
  have null: "tl (?rows ! 0) = replicate (length (tab_columns t) - 1) NoneCell"
  proof (rule nth_equalityI)
    show "length (tl (?rows ! 0)) = length (replicate (length (tab_columns t) - 1) NoneCell)"
      using wide [OF member [of 0]] t by simp
    fix i assume "i < length (tl (?rows ! 0))"
    then have "i < length more" using wide [OF member [of 0]] by simp
    then show "tl (?rows ! 0) ! i = replicate (length (tab_columns t) - 1) NoneCell ! i"
      using sample_null_row [of "Suc i" t n ai rolls'] other [of i] t wide [OF member [of 0]] by (simp add: nth_tl)
  qed
  have dupe: "tl (last ?rows) = tl (?rows ! 1)"
  proof (rule nth_equalityI)
    show "length (tl (last ?rows)) = length (tl (?rows ! 1))"
      using wide [OF member [of "max n 3 - 1"]] wide [OF member [of 1]] last by simp
    fix i assume i: "i < length (tl (last ?rows))"
    then have "i < length more" using wide [OF member [of "max n 3 - 1"]] last by simp
    then show "tl (last ?rows) ! i = tl (?rows ! 1) ! i"
      using sample_duplicate [of "Suc i" t n ai rolls'] other [of i] t wide [OF member [of "max n 3 - 1"]] wide [OF member [of 1]] last
      by (simp add: nth_tl)
  qed
  have "case first_index (\<lambda>c. is_double (col_type c)) (tab_columns t) of
      Some d \<Rightarrow> \<not> ai \<or> ?rows ! 1 ! d = InfCell False True \<and> ?rows ! 2 ! d = InfCell False (n \<le> 3) | None \<Rightarrow> True"
    using sample_infinities [OF _ typed, of _ n rolls'] by (cases ai) (simp_all split: option.splits)
  with len keys null dupe ok show ?thesis by (simp only: Let_def list_all_iff) blast
qed

lemma shipped_pools_ok: "pool_ok (catalog_type_pool rich_spec)" "pool_ok (catalog_type_pool postgres_rich_spec)"
  by code_simp+

end
