(* ===== verification/Coa_Campaign.thy ===== *)
theory Coa_Campaign
  imports Coa_Worker Coa_Awkward Coa_Generator_Sound
begin

text \<open>
  The loop of \<open>eqgen/fuzz/cli.py\<close> (\<open>run_fuzz\<close>): a catalog and rows for every round, the round, its log,
  the totals, a script for every finding, and the stop when too many rounds in a row cannot be built.

  What the loop reads from outside is a record: the adapter's specs, the round seeds, the query source,
  the worker each round talks to.  The files of the run directory are a list of names and texts.
\<close>


section \<open>A round\<close>

datatype catalog_mode = RandomCatalog | SimpleCatalog | RichCatalog

record 'r campaign =
  cp_wording :: "'r wording"
  cp_adapter :: "cell script_adapter"
  cp_simple :: spec
  cp_rich :: spec
  cp_pool :: spec
  cp_inf :: bool
  cp_mode :: catalog_mode
  cp_table :: "table option"
  cp_row_count :: nat
  cp_generator :: generator
  cp_fuel :: nat
  cp_env :: context_env
  cp_scheduler :: "scheduler option"
  cp_forks :: int
  cp_seed :: "nat \<Rightarrow> nat"
  cp_catalog_rolls :: "nat \<Rightarrow> nat \<Rightarrow> nat"
  cp_row_rolls :: "nat \<Rightarrow> nat \<Rightarrow> nat"
  cp_source_name :: string
  cp_queries :: "table \<Rightarrow> nat \<Rightarrow> string list \<Rightarrow> string list"
  cp_worker :: "nat \<Rightarrow> 'r world"
  cp_state :: "nat \<Rightarrow> gen_state"
  cp_session :: "(string \<times> string) list"
  cp_type_text :: "sql_type \<Rightarrow> string"
  cp_limit :: nat

definition default_min_extra :: int where
  "default_min_extra = 1"

definition default_max_extra :: int where
  "default_max_extra = 8"

definition fixed_catalog :: "'r campaign \<Rightarrow> catalog_mode \<Rightarrow> string \<Rightarrow> table" where
  "fixed_catalog cp mode nm = spec_table nm (if mode = RichCatalog then cp_rich cp else cp_simple cp)"

definition seed_name :: "'r campaign \<Rightarrow> string" where
  "seed_name cp = (case cp_table cp of None \<Rightarrow> ''t'' | Some t \<Rightarrow> get_sql_name t False)"

definition round_catalog_and_rows :: "'r campaign \<Rightarrow> nat \<Rightarrow> catalog_error + (table \<times> cell list list)" where
  "round_catalog_and_rows cp seed =
     ebind
       (case cp_table cp of
          Some t \<Rightarrow> Inr t
        | None \<Rightarrow>
            if cp_mode cp = RandomCatalog
            then sample_catalog (cp_pool cp) (seed_name cp) default_min_extra default_max_extra (cp_catalog_rolls cp seed)
            else Inr (fixed_catalog cp (cp_mode cp) (seed_name cp)))
       (\<lambda>t. Inr (t, sample_rows t (cp_row_count cp) (cp_inf cp) (cp_row_rolls cp seed)))"

datatype fuzz_error = BadCatalog catalog_error | BadForks | TooManyUnbuildable nat string

definition catalog_note :: "'r campaign \<Rightarrow> table \<Rightarrow> journal_event" where
  "catalog_note cp t =
     Note (''catalog: '' @ get_sql_name t False @ '' (''
       @ join_with '', '' (map (\<lambda>c. col_name c @ '':'' @ cp_type_text cp (col_type c)) (tab_columns t)) @ '')'')"

definition campaign_round ::
  "'r campaign \<Rightarrow> nat \<Rightarrow> fuzz_error + (table \<times> cell list list \<times> 'r round_outcome \<times> journal_event list)" where
  "campaign_round cp n =
     (case (exposed_fork_names (cp_forks cp) (seed_name cp), round_catalog_and_rows cp (cp_seed cp n)) of
        (None, _) \<Rightarrow> Inl BadForks
      | (_, Inl e) \<Rightarrow> Inl (BadCatalog e)
      | (Some names, Inr (t, rows)) \<Rightarrow>
          (case run_round (cp_wording cp) (cp_worker cp n) (cp_generator cp) (cp_fuel cp) (cp_env cp) t
                  (cp_queries cp t (cp_seed cp n) names) (cp_seed cp n) True (cp_scheduler cp) (cp_forks cp) (cp_state cp n) of
             None \<Rightarrow> Inl BadForks
           | Some (o', events) \<Rightarrow> Inr (t, rows, o', catalog_note cp t # events)))"


section \<open>The loop\<close>

record 'r fuzz_state =
  fz_report :: "'r fuzz_report"
  fz_streak :: nat
  fz_files :: "(string \<times> string) list"
  fz_index :: string

definition fuzz_start :: "'r fuzz_state" where
  "fuzz_start = \<lparr>fz_report = empty_report, fz_streak = 0, fz_files = [], fz_index = []\<rparr>"

definition log_name :: "nat \<Rightarrow> string" where
  "log_name n = ''round'' @ str_nat n @ ''.log''"

definition log_text :: "'r campaign \<Rightarrow> nat \<Rightarrow> journal_event list \<Rightarrow> string" where
  "log_text cp n events =
     journal_text (''round '' @ str_nat n @ '', seed '' @ str_nat (cp_seed cp n) @ '', source '' @ cp_source_name cp) events"

definition finding_files ::
  "'r campaign \<Rightarrow> table \<Rightarrow> cell list list \<Rightarrow> 'r round_outcome \<Rightarrow> 'r finding list \<Rightarrow> (string \<times> string) list" where
  "finding_files cp t rows o' found =
     map (\<lambda>(i, f). (finding_file f i, finding_text (wd_row (cp_wording cp)) (cp_adapter cp) t rows o' (cp_session cp) f))
       (zip [0..<length found] found)"

definition finding_index :: "'r campaign \<Rightarrow> 'r finding list \<Rightarrow> string" where
  "finding_index cp found = concat (map (\<lambda>(i, f). index_text (wd_row (cp_wording cp)) f i) (zip [0..<length found] found))"

definition fuzz_round :: "'r campaign \<Rightarrow> nat \<Rightarrow> 'r fuzz_state \<Rightarrow> (fuzz_error \<times> 'r fuzz_state) + 'r fuzz_state" where
  "fuzz_round cp n st =
     (case campaign_round cp n of
        Inl e \<Rightarrow> Inl (e, st)
      | Inr (t, rows, o', events) \<Rightarrow>
          (let logged = fz_files st @ [(log_name n, log_text cp n events)];
               (report, found) = record_round (fz_report st) o' n
           in case ro_setup_error o' of
                Some why \<Rightarrow>
                  (let st' = st\<lparr>fz_report := report, fz_streak := Suc (fz_streak st), fz_files := logged\<rparr>
                   in if cp_limit cp \<le> fz_streak st' then Inl (TooManyUnbuildable (fz_streak st') why, st') else Inr st')
              | None \<Rightarrow>
                  if object_diverged o' then Inr (st\<lparr>fz_report := report, fz_streak := 0, fz_files := logged\<rparr>)
                  else Inr (st\<lparr>fz_report := report, fz_streak := 0, fz_files := logged @ finding_files cp t rows o' found,
                               fz_index := fz_index st @ finding_index cp found\<rparr>)))"

text \<open>\<open>k\<close> rounds, from the \<open>n\<close>-th on: the limit of \<open>--rounds\<close>, or the interrupt.\<close>

fun fuzz_rounds :: "'r campaign \<Rightarrow> nat \<Rightarrow> nat \<Rightarrow> 'r fuzz_state \<Rightarrow> (fuzz_error \<times> 'r fuzz_state) + 'r fuzz_state" where
  "fuzz_rounds cp 0 n st = Inr st"
| "fuzz_rounds cp (Suc k) n st = ebind (fuzz_round cp n st) (fuzz_rounds cp k (Suc n))"

definition run_fuzz :: "'r campaign \<Rightarrow> nat \<Rightarrow> (fuzz_error \<times> 'r fuzz_state) + 'r fuzz_state" where
  "run_fuzz cp rounds = fuzz_rounds cp rounds 0 fuzz_start"

text \<open>The exit code of \<open>main\<close>.\<close>

definition exit_code :: "'r fuzz_report \<Rightarrow> nat" where
  "exit_code r = (if rp_findings r = [] then 0 else 1)"


section \<open>The outcomes of the rounds\<close>

definition outcome_of :: "'r campaign \<Rightarrow> nat \<Rightarrow> 'r round_outcome option" where
  "outcome_of cp n = (case campaign_round cp n of Inl e \<Rightarrow> None | Inr (t, rows, o', events) \<Rightarrow> Some o')"

definition outcomes_are :: "'r campaign \<Rightarrow> nat \<Rightarrow> 'r round_outcome list \<Rightarrow> bool" where
  "outcomes_are cp n os \<longleftrightarrow> (\<forall>i < length os. outcome_of cp (n + i) = Some (os ! i))"

text \<open>What a round does to the report and to the streak, whichever way it ends.\<close>

definition end_state :: "(fuzz_error \<times> 'r fuzz_state) + 'r fuzz_state \<Rightarrow> 'r fuzz_state" where
  "end_state res = (case res of Inl (e, st) \<Rightarrow> st | Inr st \<Rightarrow> st)"

lemma fuzz_round_cases:
  assumes "fuzz_round cp n st = Inr st'"
  obtains t rows o' events where "campaign_round cp n = Inr (t, rows, o', events)"
    "fz_report st' = fst (record_round (fz_report st) o' n)"
    "fz_streak st' = (if ro_setup_error o' = None then 0 else Suc (fz_streak st))"
    "ro_setup_error o' \<noteq> None \<longrightarrow> fz_streak st' < cp_limit cp"
    "fz_files st' = fz_files st @ (log_name n, log_text cp n events)
       # (if kept_round o' then finding_files cp t rows o' (snd (record_round (fz_report st) o' n)) else [])"
proof -
  obtain t rows o' events where r: "campaign_round cp n = Inr (t, rows, o', events)"
    using assms by (auto simp: fuzz_round_def split: sum.splits)
  show thesis
  proof (cases "ro_setup_error o'")
    case None
    show thesis
      using assms
      by (intro that [OF r]) (auto simp add: fuzz_round_def r None Let_def kept_round_def split: prod.splits if_splits)
  next
    case (Some why)
    show thesis
      using assms
      by (intro that [OF r]) (auto simp add: fuzz_round_def r Some Let_def kept_round_def split: prod.splits if_splits)
  qed
qed

lemma fuzz_outcomes:
  assumes "fuzz_rounds cp k n st = Inr st'"
  shows "\<exists>os. length os = k \<and> outcomes_are cp n os \<and> fz_report st' = record_rounds (fz_report st) os n"
  using assms
proof (induction k arbitrary: n st)
  case 0
  then show ?case by (intro exI [of _ "[]"]) (simp add: outcomes_are_def)
next
  case (Suc k)
  then obtain mid where mid: "fuzz_round cp n st = Inr mid" "fuzz_rounds cp k (Suc n) mid = Inr st'" by auto
  obtain t rows o' events where o': "campaign_round cp n = Inr (t, rows, o', events)"
      "fz_report mid = fst (record_round (fz_report st) o' n)"
    using mid(1) by (elim fuzz_round_cases)
  obtain os where os: "length os = k" "outcomes_are cp (Suc n) os" "fz_report st' = record_rounds (fz_report mid) os (Suc n)"
    using Suc.IH [OF mid(2)] by blast
  have "outcomes_are cp n (o' # os)"
    using os(2) o'(1) by (auto simp: outcomes_are_def outcome_of_def nth_Cons split: nat.splits)
  with os o'(2) show ?case by (intro exI [of _ "o' # os"]) simp
qed

text \<open>Worlds that answer queries give outcomes made of comparisons.\<close>

lemma outcomes_compared:
  assumes "\<And>n. answers_queries (cp_worker cp n)" "outcomes_are cp n os"
  shows "list_all (\<lambda>o'. list_all compared (ro_results o')) os"
proof -
  have "list_all compared (ro_results o')" if "outcome_of cp m = Some o'" for m o'
    using that round_results [OF assms(1)]
    by (auto simp: outcome_of_def campaign_round_def split: option.splits sum.splits prod.splits)
  with assms(2) show ?thesis by (auto simp: outcomes_are_def list_all_length)
qed


section \<open>Giving up\<close>

text \<open>How many of the last rounds, counted back, could not be built.\<close>

fun streak_of :: "'r round_outcome list \<Rightarrow> nat" where
  "streak_of [] = 0"
| "streak_of (o' # os) = (if ro_setup_error o' = None then 0 else Suc (streak_of os))"

lemma streak_takeWhile: "streak_of os = length (takeWhile (\<lambda>o'. ro_setup_error o' \<noteq> None) os)"
  by (induction os) simp_all

lemma fuzz_streak:
  assumes "fuzz_rounds cp k n st = Inr st'" "fz_streak st = streak_of (rev before)"
  shows "\<exists>os. length os = k \<and> outcomes_are cp n os \<and> fz_streak st' = streak_of (rev (before @ os)) \<and>
    (\<forall>i. 0 < i \<and> i \<le> k \<and> ro_setup_error (os ! (i - 1)) \<noteq> None \<longrightarrow> streak_of (rev (before @ take i os)) < cp_limit cp)"
  using assms
proof (induction k arbitrary: n st before)
  case 0
  then show ?case by (intro exI [of _ "[]"]) (simp add: outcomes_are_def)
next
  case (Suc k)
  then obtain mid where mid: "fuzz_round cp n st = Inr mid" "fuzz_rounds cp k (Suc n) mid = Inr st'" by auto
  obtain t rows o' events where o': "campaign_round cp n = Inr (t, rows, o', events)"
      "fz_streak mid = (if ro_setup_error o' = None then 0 else Suc (fz_streak st))"
      "ro_setup_error o' \<noteq> None \<longrightarrow> fz_streak mid < cp_limit cp"
    using mid(1) by (elim fuzz_round_cases)
  have streak: "fz_streak mid = streak_of (rev (before @ [o']))" using o'(2) Suc.prems(2) by simp
  obtain os where os: "length os = k" "outcomes_are cp (Suc n) os" "fz_streak st' = streak_of (rev ((before @ [o']) @ os))"
      "\<forall>i. 0 < i \<and> i \<le> k \<and> ro_setup_error (os ! (i - 1)) \<noteq> None \<longrightarrow> streak_of (rev ((before @ [o']) @ take i os)) < cp_limit cp"
    using Suc.IH [OF mid(2) streak] by blast
  have "outcomes_are cp n (o' # os)"
    using os(2) o'(1) by (auto simp: outcomes_are_def outcome_of_def nth_Cons split: nat.splits)
  moreover have "streak_of (rev (before @ take i (o' # os))) < cp_limit cp"
    if "0 < i" "i \<le> Suc k" "ro_setup_error ((o' # os) ! (i - 1)) \<noteq> None" for i
  proof (cases "i = 1")
    case True
    with that o'(3) streak show ?thesis by simp
  next
    case False
    with \<open>0 < i\<close> obtain j where "i = Suc j" "0 < j" by (cases i) auto
    with that os(4) show ?thesis by simp
  qed
  ultimately show ?case using os(1,3) by (intro exI [of _ "o' # os"]) simp
qed


text \<open>A run that gave up did so in a round that could not be built, with the limit reached.\<close>

lemma fuzz_round_gives_up:
  assumes "fuzz_round cp n st = Inl (TooManyUnbuildable m why, st')"
  shows "\<exists>o'. outcome_of cp n = Some o' \<and> ro_setup_error o' = Some why \<and> m = Suc (fz_streak st) \<and> cp_limit cp \<le> m"
  using assms
  by (auto simp: fuzz_round_def outcome_of_def campaign_round_def Let_def split: sum.splits prod.splits option.splits if_splits)

lemma fuzz_gives_up:
  assumes "fuzz_rounds cp k n st = Inl (TooManyUnbuildable m why, st')"
  shows "\<exists>j mid. j < k \<and> fuzz_rounds cp j n st = Inr mid \<and> fuzz_round cp (n + j) mid = Inl (TooManyUnbuildable m why, st')"
  using assms
proof (induction k arbitrary: n st)
  case (Suc k)
  show ?case
  proof (cases "fuzz_round cp n st")
    case (Inl e)
    with Suc.prems show ?thesis by (intro exI [of _ 0] exI [of _ st]) simp
  next
    case (Inr mid)
    with Suc.prems Suc.IH [of "Suc n" mid] obtain j mid' where "j < k" "fuzz_rounds cp j (Suc n) mid = Inr mid'"
        "fuzz_round cp (Suc n + j) mid' = Inl (TooManyUnbuildable m why, st')"
      by auto
    with Inr show ?thesis by (intro exI [of _ "Suc j"] exI [of _ mid']) simp
  qed
qed simp

lemma streak_step:
  assumes "fuzz_round cp n st = Inr st'"
  shows "fz_streak st' \<le> Suc (fz_streak st)"
  using assms by (rule fuzz_round_cases) simp

text \<open>A run with fewer rounds than the limit does not give up.\<close>

lemma short_run:
  assumes "\<And>n. \<exists>r. campaign_round cp n = Inr r" "fz_streak st + k < cp_limit cp"
  shows "\<exists>st'. fuzz_rounds cp k n st = Inr st'"
  using assms(2)
proof (induction k arbitrary: n st)
  case (Suc k)
  obtain t rows o' events where "campaign_round cp n = Inr (t, rows, o', events)" using assms(1) [of n] by auto
  then have "\<exists>mid. fuzz_round cp n st = Inr mid"
    using Suc.prems by (auto simp: fuzz_round_def Let_def split: prod.splits option.splits)
  then obtain mid where mid: "fuzz_round cp n st = Inr mid" by blast
  with streak_step [OF this] Suc.prems Suc.IH [of mid "Suc n"] show ?case by auto
qed simp


section \<open>Files\<close>

definition known_kind :: "string \<Rightarrow> bool" where
  "known_kind k \<longleftrightarrow> k \<in> {''crash'', ''mismatch'', ''error''}"

lemma recorded_kinds:
  "f \<in> set (snd (record_round r o' n)) \<Longrightarrow> known_kind (fi_kind f) \<and> fi_round f = n"
  by (auto simp: record_round_def Let_def known_kind_def setup_crash_findings_def query_crash_findings_def
      crash_finding_def result_finding_def split: if_splits option.splits)

lemma file_name_inj:
  assumes "finding_file f i = finding_file g j" "known_kind (fi_kind f)" "known_kind (fi_kind g)"
  shows "fi_round f = fi_round g \<and> i = j"
proof -
  have "fi_kind f = fi_kind g" using assms by (auto simp: known_kind_def finding_file_def)
  with assms(1) have "str_nat (fi_round f) @ ''_'' @ str_nat i = str_nat (fi_round g) @ ''_'' @ str_nat j"
    by (simp add: finding_file_def)
  then show ?thesis using name_inj [of "str_nat (fi_round f)" i "str_nat (fi_round g)" j] str_nat_inj by blast
qed

lemma log_name_inj: "log_name m = log_name n \<longleftrightarrow> m = n"
  by (simp add: log_name_def)

lemma log_not_finding: "known_kind (fi_kind f) \<Longrightarrow> log_name n \<noteq> finding_file f i"
  by (auto simp: log_name_def finding_file_def known_kind_def)

text \<open>The names of the files of round \<open>n\<close>.\<close>

definition round_names :: "nat \<Rightarrow> string set" where
  "round_names n = insert (log_name n) {finding_file f i |f i. known_kind (fi_kind (f :: unit finding)) \<and> fi_round f = n}"

definition bare_finding :: "'r finding \<Rightarrow> unit finding" where
  "bare_finding f =
     \<lparr>fi_kind = fi_kind f, fi_round = fi_round f, fi_seed = fi_seed f, fi_query = fi_query f, fi_only_base = [],
      fi_only_equivalent = [], fi_base_error = fi_base_error f, fi_equivalent_error = fi_equivalent_error f, fi_note = fi_note f\<rparr>"

lemma bare_file: "finding_file f i = finding_file (bare_finding f) i"
  by (simp add: finding_file_def bare_finding_def)

lemma round_names_disjoint: "m \<noteq> n \<Longrightarrow> round_names m \<inter> round_names n = {}"
proof -
  assume "m \<noteq> n"
  have False if m: "x \<in> round_names m" and n: "x \<in> round_names n" for x
  proof (cases "x = log_name m")
    case True
    with n \<open>m \<noteq> n\<close> show False using log_not_finding [of "_ :: unit finding" m] by (auto simp: round_names_def log_name_inj)
  next
    case False
    with m obtain f :: "unit finding" and i where f: "x = finding_file f i" "known_kind (fi_kind f)" "fi_round f = m"
      by (auto simp: round_names_def)
    show False
    proof (cases "x = log_name n")
      case True
      with f log_not_finding [of f n i] show False by simp
    next
      case False
      with n obtain g :: "unit finding" and j where "x = finding_file g j" "known_kind (fi_kind g)" "fi_round g = n"
        by (auto simp: round_names_def)
      with f file_name_inj [of f i g j] \<open>m \<noteq> n\<close> show False by simp
    qed
  qed
  then show ?thesis by blast
qed

lemma finding_names:
  assumes "\<And>f. f \<in> set found \<Longrightarrow> known_kind (fi_kind f) \<and> fi_round f = n"
  shows "distinct (map fst (finding_files cp t rows o' found)) \<and> set (map fst (finding_files cp t rows o' found)) \<subseteq> round_names n - {log_name n}
    \<and> length (finding_files cp t rows o' found) = length found"
proof -
  have names: "map fst (finding_files cp t rows o' found) = map (\<lambda>i. finding_file (found ! i) i) [0..<length found]"
    by (rule nth_equalityI) (simp_all add: finding_files_def)
  have kind: "known_kind (fi_kind (found ! i)) \<and> fi_round (found ! i) = n" if "i < length found" for i
    using that assms by simp
  have "inj_on (\<lambda>i. finding_file (found ! i) i) (set [0..<length found])"
  proof (rule inj_onI)
    fix i j
    assume "i \<in> set [0..<length found]" "j \<in> set [0..<length found]" "finding_file (found ! i) i = finding_file (found ! j) j"
    then show "i = j" using kind [of i] kind [of j] file_name_inj [of "found ! i" i "found ! j" j] by simp
  qed
  moreover have "finding_file (found ! i) i \<in> round_names n - {log_name n}" if "i < length found" for i
  proof -
    have "known_kind (fi_kind (bare_finding (found ! i))) \<and> fi_round (bare_finding (found ! i)) = n"
      using kind [OF that] by (simp add: bare_finding_def)
    then show ?thesis
      unfolding bare_file [of "found ! i"] using log_not_finding [of "bare_finding (found ! i)" n i]
      by (auto simp: round_names_def)
  qed
  ultimately show ?thesis unfolding names by (auto simp: distinct_map finding_files_def)
qed

lemma files_join:
  assumes "distinct (map fst own)" "set (map fst own) \<subseteq> round_names n - {log_name n}" "distinct (map fst new)"
    and "set (map fst new) \<subseteq> (\<Union>i \<in> {Suc n..<Suc n + k}. round_names i)"
    and "round_names n \<inter> (\<Union>i \<in> {Suc n..<Suc n + k}. round_names i) = {}"
  shows "distinct (map fst ((log_name n, text') # own @ new)) \<and>
    set (map fst ((log_name n, text') # own @ new)) \<subseteq> (\<Union>i \<in> {n..<n + Suc k}. round_names i)"
proof -
  have range: "{n..<n + Suc k} = insert n {Suc n..<Suc n + k}" by auto
  have "log_name n \<in> round_names n" by (simp add: round_names_def)
  then show ?thesis using assms unfolding range by (simp add: disjoint_iff) blast
qed

lemma fuzz_files:
  assumes "fuzz_rounds cp k n st = Inr st'"
  shows "\<exists>new. fz_files st' = fz_files st @ new \<and> distinct (map fst new) \<and> set (map fst new) \<subseteq> (\<Union>i \<in> {n..<n + k}. round_names i)
    \<and> length new + length (rp_findings (fz_report st)) = k + length (rp_findings (fz_report st'))"
  using assms
proof (induction k arbitrary: n st)
  case (Suc k)
  then obtain mid where mid: "fuzz_round cp n st = Inr mid" "fuzz_rounds cp k (Suc n) mid = Inr st'" by auto
  obtain t rows o' events where o': "fz_report mid = fst (record_round (fz_report st) o' n)"
      "fz_files mid = fz_files st @ (log_name n, log_text cp n events)
         # (if kept_round o' then finding_files cp t rows o' (snd (record_round (fz_report st) o' n)) else [])"
    using mid(1) by (elim fuzz_round_cases)
  let ?found = "snd (record_round (fz_report st) o' n)"
  let ?own = "if kept_round o' then finding_files cp t rows o' ?found else []"
  have own: "distinct (map fst ?own)" "set (map fst ?own) \<subseteq> round_names n - {log_name n}" "length ?own = length ?found"
    using finding_names [of ?found n cp t rows o'] recorded_kinds [of _ "fz_report st" o' n] record_dropped [of o' "fz_report st" n]
    by auto
  obtain new where new: "fz_files st' = fz_files mid @ new" "distinct (map fst new)"
      "set (map fst new) \<subseteq> (\<Union>i \<in> {Suc n..<Suc n + k}. round_names i)"
      "length new + length (rp_findings (fz_report mid)) = k + length (rp_findings (fz_report st'))"
    using Suc.IH [OF mid(2)] by blast
  have disjoint: "round_names n \<inter> (\<Union>i \<in> {Suc n..<Suc n + k}. round_names i) = {}"
    unfolding Int_UN_distrib by (simp add: round_names_disjoint)
  let ?all = "(log_name n, log_text cp n events) # ?own @ new"
  have "distinct (map fst ?all) \<and> set (map fst ?all) \<subseteq> (\<Union>i \<in> {n..<n + Suc k}. round_names i)"
    by (rule files_join [OF own(1,2) new(2,3) disjoint])
  moreover have "length ?all + length (rp_findings (fz_report st)) = Suc k + length (rp_findings (fz_report st'))"
    using new(4) own(3) by (simp add: o'(1) record_appends)
  ultimately show ?case using new(1) o'(2) by (intro exI [of _ ?all]) simp
qed simp


section \<open>A sampled round\<close>

lemma hidden_columns [simp]: "tab_columns (hidden_table t) = tab_columns t" "column_names (hidden_table t) = column_names t"
  by (simp_all add: hidden_table_def column_names_def)

lemma sampled_environment:
  assumes "pool_ok pool" "sample_catalog pool nm mn mx rolls = Inr t" "config_ok (config env)"
    and "\<And>src. the_predicate_source env = Some src \<Longrightarrow> source_ok (hidden_table t) src"
  shows "env_ok (env\<lparr>base_table := hidden_table t\<rparr>)"
  using catalog_ok [OF assms(1,2)] assms(3,4) by (simp add: env_ok_def table_ok_def)

lemma forks_from_env:
  assumes "env_ok env" "gr_builders g = PORTABLE_BUILDERS" "[] \<notin> set exposed"
  shows "case generate_forks g fuel env seed exposed s of
      Inl e \<Rightarrow> e = NoExposedNames \<longleftrightarrow> exposed = []
    | Inr (fk, s') \<Rightarrow> exposed \<noteq> [] \<and>
        list_all2 (\<lambda>nm x. row_equivalent (base_table env) (gd_root x) \<and> exposed_of_generated x = Some nm) exposed (fk_forks fk)"
proof (cases "generate_forks g fuel env seed exposed s")
  case (Inl e)
  then show ?thesis using fork_from_error [of g fuel env seed "[]" exposed s] by (auto simp: generate_forks_def split: if_splits)
next
  case (Inr p)
  then show ?thesis using fork_from_sound [OF assms] by (cases p) (auto simp: generate_forks_def split: if_splits)
qed

lemma sampled_hidden_rows:
  assumes "pool_ok pool" "sample_catalog pool nm mn mx rolls = Inr t" "store_ok store"
  shows "base_rows_ok (hidden_table t) (map (stored_row store (hidden_table t)) (sample_rows t n ai rolls'))"
proof -
  have "sample_rows (hidden_table t) n ai rolls' = sample_rows t n ai rolls'" by (simp add: sample_rows_def)
  with sampled_base_rows [OF assms(3), of "hidden_table t" n ai rolls'] catalog_key_typed [OF assms(1,2)] show ?thesis by simp
qed

lemma sampled_forks:
  assumes "pool_ok pool" "sample_catalog pool nm mn mx rolls = Inr t" "store_ok store" "engine_ok E"
    and "config_ok (config env)" "\<And>src. the_predicate_source env = Some src \<Longrightarrow> source_ok (hidden_table t) src"
    and "gr_builders g = PORTABLE_BUILDERS" "[] \<notin> set exposed"
  shows "case generate_forks g fuel (env\<lparr>base_table := hidden_table t\<rparr>) seed exposed s of
      Inl e \<Rightarrow> e = NoExposedNames \<longleftrightarrow> exposed = []
    | Inr (fk, s') \<Rightarrow> list_all2 (\<lambda>name x. exposed_of_generated x = Some name \<and>
        (\<exists>rows. den E (map (stored_row store (hidden_table t)) (sample_rows t n ai rolls')) [] (gd_root x) = Some rows \<and>
           mset rows = mset (map (stored_row store (hidden_table t)) (sample_rows t n ai rolls')))) exposed (fk_forks fk)"
proof -
  have holds: "\<exists>rows. den E (map (stored_row store (hidden_table t)) (sample_rows t n ai rolls')) [] root = Some rows \<and>
      mset rows = mset (map (stored_row store (hidden_table t)) (sample_rows t n ai rolls'))"
    if "row_equivalent (hidden_table t) root" for root
    using that assms(4) sampled_hidden_rows [OF assms(1-3)] unfolding row_equivalent_def by blast
  note sound = forks_from_env [OF sampled_environment [OF assms(1,2,5,6)] assms(7,8), of fuel seed s]
  show ?thesis
  proof (cases "generate_forks g fuel (env\<lparr>base_table := hidden_table t\<rparr>) seed exposed s")
    case (Inr p)
    with sound show ?thesis by (cases p) (auto intro: holds simp del: mset_map elim!: list_all2_mono)
  qed (use sound in simp)
qed

end
