(* ===== verification/Coa_Protocol.thy ===== *)
theory Coa_Protocol
  imports Coa_Round
begin

text \<open>
  The two processes of a round in its query phase: the parent that keeps the queries and the log, the forked
  worker that holds the databases (\<open>_worker\<close>), and the pipe between them, as a step relation.  The worker
  may die at any moment, between two instructions of either side, and the parent may give up waiting.

  The invariant says that at most one query is in flight, that an answer in the pipe is one to that query,
  and that the log has each query before it was sent.  It follows that the sequential \<open>query_loop\<close> of
  \<open>Coa_Round\<close>, with one reply per query, loses nothing.
\<close>


section \<open>States and steps\<close>

datatype worker = Waiting | Working string | Gone exit_status

record 'r session =
  ss_todo :: "string list"
  ss_flight :: "string option"
  ss_results :: "'r query_comparison list"
  ss_crashed :: "(string \<times> string) option"
  ss_over :: bool
  ss_down :: "string list"
  ss_up :: "'r query_comparison list"
  ss_worker :: worker
  ss_events :: "journal_event list"

definition session_start :: "string list \<Rightarrow> 'r session" where
  "session_start queries =
     \<lparr>ss_todo = queries, ss_flight = None, ss_results = [], ss_crashed = None, ss_over = False, ss_down = [], ss_up = [],
      ss_worker = Waiting, ss_events = []\<rparr>"

text \<open>The parent blames the query in flight: with the note of a death, or of a wait that ran out.\<close>

definition blame :: "string \<Rightarrow> string \<Rightarrow> string \<Rightarrow> 'r session \<Rightarrow> 'r session" where
  "blame query what why s =
     s\<lparr>ss_flight := None, ss_crashed := Some (query, why), ss_over := True, ss_down := [],
       ss_events := ss_events s @ [End (''CRASH: engine '' @ what @ '' ('' @ why @ '')'')]\<rparr>"

inductive session_step ::
  "'r wording \<Rightarrow> ('r \<Rightarrow> 'r \<Rightarrow> bool) \<Rightarrow> 'r session \<Rightarrow> 'r session \<Rightarrow> bool"
  for wd :: "'r wording" and close :: "'r \<Rightarrow> 'r \<Rightarrow> bool" where
  send: "\<not> ss_over s \<Longrightarrow> ss_flight s = None \<Longrightarrow> ss_todo s = q # qs \<Longrightarrow> ss_worker s = Waiting \<Longrightarrow>
    session_step wd close s
      (s\<lparr>ss_todo := qs, ss_flight := Some q, ss_down := ss_down s @ [q], ss_events := ss_events s @ [Begin q]\<rparr>)"
| broken_pipe: "\<not> ss_over s \<Longrightarrow> ss_flight s = None \<Longrightarrow> ss_todo s = q # qs \<Longrightarrow> ss_worker s = Gone status \<Longrightarrow>
    session_step wd close s
      (blame q ''died'' (exit_text status) (s\<lparr>ss_todo := qs, ss_events := ss_events s @ [Begin q]\<rparr>))"
| take_query: "ss_worker s = Waiting \<Longrightarrow> ss_down s = q # qs \<Longrightarrow>
    session_step wd close s (s\<lparr>ss_down := qs, ss_worker := Working q\<rparr>)"
| answer: "ss_worker s = Working q \<Longrightarrow>
    session_step wd close s
      (s\<lparr>ss_up := ss_up s @ [compare_one close (wd_row wd) q base equivalent], ss_worker := Waiting\<rparr>)"
| die: "\<forall>status. ss_worker s \<noteq> Gone status \<Longrightarrow> session_step wd close s (s\<lparr>ss_worker := Gone status'\<rparr>)"
| receive: "\<not> ss_over s \<Longrightarrow> ss_flight s = Some q \<Longrightarrow> ss_up s = c # up \<Longrightarrow>
    session_step wd close s
      (s\<lparr>ss_flight := None, ss_up := up, ss_results := ss_results s @ [c],
         ss_events := ss_events s @ [End (verdict (wd_row wd) c)]\<rparr>)"
| end_of_file: "\<not> ss_over s \<Longrightarrow> ss_flight s = Some q \<Longrightarrow> ss_up s = [] \<Longrightarrow> ss_worker s = Gone status \<Longrightarrow>
    session_step wd close s (blame q ''died'' (exit_text status) s)"
| time_out: "\<not> ss_over s \<Longrightarrow> ss_flight s = Some q \<Longrightarrow> ss_up s = [] \<Longrightarrow>
    session_step wd close s
      (blame q ''hung'' (timeout_text (wd_query_timeout wd) @ ''; '' @ exit_text status) (s\<lparr>ss_worker := Gone status\<rparr>))"
| stop: "\<not> ss_over s \<Longrightarrow> ss_flight s = None \<Longrightarrow> session_step wd close s (s\<lparr>ss_over := True\<rparr>)"

inductive reachable ::
  "'r wording \<Rightarrow> ('r \<Rightarrow> 'r \<Rightarrow> bool) \<Rightarrow> string list \<Rightarrow> 'r session \<Rightarrow> bool"
  for wd :: "'r wording" and close :: "'r \<Rightarrow> 'r \<Rightarrow> bool" and queries :: "string list" where
  start: "reachable wd close queries (session_start queries)"
| step: "reachable wd close queries s \<Longrightarrow> session_step wd close s t \<Longrightarrow> reachable wd close queries t"

inductive_cases session_stepE: "session_step wd close s t"


section \<open>The invariant\<close>

definition answered_events :: "'r wording \<Rightarrow> 'r query_comparison list \<Rightarrow> journal_event list" where
  "answered_events wd results = concat (map (\<lambda>c. [Begin (qc_query c), End (verdict (wd_row wd) c)]) results)"

lemma answered_simps [simp]:
  "answered_events wd [] = []"
  "answered_events wd (xs @ ys) = answered_events wd xs @ answered_events wd ys"
  "answered_events wd [c] = [Begin (qc_query c), End (verdict (wd_row wd) c)]"
  by (simp_all add: answered_events_def)

text \<open>Where the one query in flight is: on its way, with the worker, answered, or lost with the worker.\<close>

definition in_flight :: "'r session \<Rightarrow> string \<Rightarrow> bool" where
  "in_flight s q \<longleftrightarrow>
     (ss_down s = [q] \<and> ss_up s = [] \<and> (\<forall>p. ss_worker s \<noteq> Working p)) \<or>
     (ss_down s = [] \<and> ss_up s = [] \<and> ss_worker s = Working q) \<or>
     (ss_down s = [] \<and> (\<exists>c. ss_up s = [c] \<and> qc_query c = q) \<and> (\<forall>p. ss_worker s \<noteq> Working p)) \<or>
     (ss_down s = [] \<and> ss_up s = [] \<and> (\<exists>status. ss_worker s = Gone status))"

definition session_ok :: "'r wording \<Rightarrow> string list \<Rightarrow> 'r session \<Rightarrow> bool" where
  "session_ok wd queries s \<longleftrightarrow>
     (case (ss_crashed s, ss_flight s) of
        (None, None) \<Rightarrow>
          queries = map qc_query (ss_results s) @ ss_todo s \<and> ss_events s = answered_events wd (ss_results s) \<and>
          ss_down s = [] \<and> ss_up s = [] \<and> (\<forall>p. ss_worker s \<noteq> Working p)
      | (None, Some q) \<Rightarrow>
          queries = map qc_query (ss_results s) @ q # ss_todo s \<and>
          ss_events s = answered_events wd (ss_results s) @ [Begin q] \<and> in_flight s q \<and> \<not> ss_over s
      | (Some (q, why), f) \<Rightarrow>
          queries = map qc_query (ss_results s) @ q # ss_todo s \<and> f = None \<and> ss_over s \<and>
          ss_down s = [] \<and> ss_up s = [] \<and> (\<exists>status. ss_worker s = Gone status) \<and>
          (\<exists>what status. (what, why) \<in> {(''died'', exit_text status), (''hung'', timeout_text (wd_query_timeout wd) @ ''; '' @ exit_text status)} \<and>
            ss_events s = answered_events wd (ss_results s) @ [Begin q, End (''CRASH: engine '' @ what @ '' ('' @ why @ '')'')]))"

lemma initial_ok: "session_ok wd queries (session_start queries)"
  by (simp add: session_ok_def session_start_def)

lemma compared_query [simp]: "qc_query (compare_one close repr q b e) = q"
  by (simp add: compare_one_def Let_def split: option.splits)

lemma step_ok:
  assumes "session_step wd close s t" "session_ok wd queries s"
  shows "session_ok wd queries t"
  using assms
proof (cases rule: session_step.cases)
  case (send q qs)
  with assms(2) show ?thesis by (auto simp: session_ok_def in_flight_def split: option.splits)
next
  case (broken_pipe q qs status)
  with assms(2) show ?thesis by (auto simp: session_ok_def blame_def split: option.splits)
next
  case (take_query q qs)
  with assms(2) show ?thesis by (auto simp: session_ok_def in_flight_def split: option.splits)
next
  case (answer q base equivalent)
  with assms(2) show ?thesis by (auto simp: session_ok_def in_flight_def split: option.splits)
next
  case (die status')
  with assms(2) show ?thesis by (auto simp: session_ok_def in_flight_def split: option.splits)
next
  case (receive q c up)
  with assms(2) show ?thesis by (auto simp: session_ok_def in_flight_def split: option.splits)
next
  case (end_of_file q status)
  with assms(2) show ?thesis by (auto simp: session_ok_def in_flight_def blame_def split: option.splits)
next
  case (time_out q status)
  with assms(2) show ?thesis by (auto simp: session_ok_def in_flight_def blame_def split: option.splits)
next
  case stop
  with assms(2) show ?thesis by (auto simp: session_ok_def split: option.splits)
qed

lemma reachable_ok: "reachable wd close queries s \<Longrightarrow> session_ok wd queries s"
  by (induction rule: reachable.induct) (rule initial_ok, rule step_ok)


section \<open>The sequential loop\<close>

lemma loop_answers:
  assumes "\<And>i. i < length rs \<Longrightarrow> w_reply w (k + i) (qc_query (rs ! i)) = Compared (rs ! i)"
    and "\<And>i. i < length rs \<Longrightarrow> \<not> over_budget w deadline (Suc (k + i))"
  shows "query_loop wd w True deadline (map qc_query rs @ qs) k =
    (let r = query_loop wd w True deadline qs (k + length rs)
     in r\<lparr>lr_results := rs @ lr_results r, lr_events := answered_events wd rs @ lr_events r\<rparr>)"
  using assms
proof (induction rs arbitrary: k)
  case (Cons c rs)
  have "query_loop wd w True deadline (map qc_query rs @ qs) (Suc k) =
      (let r = query_loop wd w True deadline qs (Suc k + length rs)
       in r\<lparr>lr_results := rs @ lr_results r, lr_events := answered_events wd rs @ lr_events r\<rparr>)"
    using Cons.prems(1) [of "Suc i" for i] Cons.prems(2) [of "Suc i" for i] by (intro Cons.IH) simp_all
  then show ?case
    using Cons.prems(1) [of 0] Cons.prems(2) [of 0] by (simp add: Let_def jot_def answered_events_def)
qed (simp add: Let_def)

text \<open>A world that answers as the session did, stops the loop where the session stopped, and reports its crash.\<close>

definition world_of :: "'r session \<Rightarrow> 'r query_reply \<Rightarrow> 'r world" where
  "world_of s last_reply =
     \<lparr>w_setup = (\<lambda>statements. SetupFailed [] False),
      w_reply = (\<lambda>k q. if k < length (ss_results s) then Compared (ss_results s ! k) else last_reply),
      w_clock = (\<lambda>tick. if tick \<le> length (ss_results s) then 0 else 1)\<rparr>"

lemma session_is_loop:
  assumes "session_ok wd queries s" "ss_over s"
  shows "\<exists>w deadline. let r = query_loop wd w True deadline queries 0
    in lr_results r = ss_results s \<and> lr_events r = ss_events s \<and>
       (case ss_crashed s of None \<Rightarrow> lr_crashed r = None \<and> lr_note r = None
        | Some (q, why) \<Rightarrow> lr_crashed r = Some q \<and> lr_note r = Some why)"
proof (cases "ss_crashed s")
  case None
  with assms have ok: "queries = map qc_query (ss_results s) @ ss_todo s" "ss_events s = answered_events wd (ss_results s)"
    by (auto simp: session_ok_def split: option.splits)
  let ?w = "world_of s (Died ExitUnknown)"
  have "query_loop wd ?w True (Some 1) (ss_todo s) (length (ss_results s)) = loop_end True"
    by (cases "ss_todo s") (simp_all add: over_budget_def world_of_def)
  then show ?thesis
    unfolding ok(1)
    by (intro exI [of _ ?w] exI [of _ "Some 1"], subst loop_answers)
      (simp_all add: world_of_def over_budget_def loop_end_def ok(2) None)
next
  case (Some p)
  obtain q why where p: "p = (q, why)" by (cases p)
  with Some assms(1) obtain what status where ok: "queries = map qc_query (ss_results s) @ q # ss_todo s"
      "(what, why) \<in> {(''died'', exit_text status), (''hung'', timeout_text (wd_query_timeout wd) @ ''; '' @ exit_text status)}"
      "ss_events s = answered_events wd (ss_results s) @ [Begin q, End (''CRASH: engine '' @ what @ '' ('' @ why @ '')'')]"
    by (auto simp: session_ok_def split: option.splits)
  let ?w = "world_of s (if what = ''died'' then Died status else Hung status)"
  have "query_loop wd ?w True None (q # ss_todo s) (length (ss_results s)) = loop_crash True q what why"
    using ok(2) by (auto simp: over_budget_def world_of_def)
  then show ?thesis
    unfolding ok(1)
    by (intro exI [of _ ?w] exI [of _ None], subst loop_answers)
      (simp_all add: world_of_def over_budget_def loop_crash_def jot_def ok(3) Some p del: query_loop.simps)
qed

end
