(* ===== verification/Coa_Sample_Campaign.thy ===== *)
theory Coa_Sample_Campaign
  imports Coa_Campaign Coa_Sample Coa_Protocol
begin

text \<open>
  Concrete inputs for the rounds and the loop: an engine process that answers every query with the same
  row, a campaign over it, a catalog of three columns, an engine's way to store seed values.
\<close>

definition sample_backend :: "(unit, cell list) backend" where
  "sample_backend =
     \<lparr>be_empty = (), be_run = (\<lambda>db s. Inr db), be_fetch = (\<lambda>db s. Inr [[NumCell TInt 7]]),
      be_describe = (\<lambda>db s. Inr [''INTEGER'']), be_query = (\<lambda>db s. (Fetched [[NumCell TInt 7]], db)),
      be_explains = (\<lambda>db s. True)\<rparr>"

definition sample_adapter :: "cell script_adapter" where
  "sample_adapter =
     \<lparr>sa_banner = ''sample'', sa_ddl = (\<lambda>t. ''CREATE TABLE '' @ tab_name t @ '' (id INTEGER, note VARCHAR(20))''),
      sa_literal = (\<lambda>v. ''NULL''), sa_fork_copy = (\<lambda>t nm. [''CREATE TABLE '' @ nm @ '' AS SELECT * FROM '' @ t]),
      sa_rename_aside = rename_aside_sql\<rparr>"

definition sample_wording :: "cell list wording" where
  "sample_wording =
     \<lparr>wd_floats = \<lparr>ft_general = (\<lambda>x. ''0''), ft_fixed1 = (\<lambda>x. ''0.0''), ft_fixed2 = (\<lambda>x. ''0.00'')\<rparr>,
      wd_row = (\<lambda>r. ''row''), wd_types = (\<lambda>ts. ''types''), wd_error = (\<lambda>e. ''error''),
      wd_setup_timeout = ''600'', wd_query_timeout = ''130''\<rparr>"

definition seed_orders :: table where
  "seed_orders = Table ''orders'' (tab_columns orders) None"

lemma hidden_orders [simp]: "hidden_table seed_orders = orders"
  by (simp add: hidden_table_def seed_orders_def hidden_base_name_def base_suffix_def get_sql_name_def orders_def)

definition sample_queries :: "string list" where
  "sample_queries = [''SELECT id FROM orders'', ''SELECT note FROM orders'']"

definition sample_world :: "cell list world" where
  "sample_world =
     worker_world sample_backend sample_adapter (\<lambda>a b. False) (\<lambda>r. ''row'') (\<lambda>n. 0) seed_orders [] [''orders''] sample_queries []"

lemma sample_world_answers: "answers_queries sample_world"
  unfolding sample_world_def by (rule worker_answers)

definition sample_campaign :: "cell list campaign" where
  "sample_campaign =
     \<lparr>cp_wording = sample_wording, cp_adapter = sample_adapter, cp_simple = simple_spec, cp_rich = rich_spec,
      cp_pool = catalog_type_pool rich_spec, cp_inf = True, cp_mode = RandomCatalog, cp_table = Some seed_orders,
      cp_row_count = 8, cp_generator = portable_generator, cp_fuel = 7, cp_env = sample_env, cp_scheduler = None,
      cp_forks = 1, cp_seed = (\<lambda>n. n), cp_catalog_rolls = (\<lambda>s n. n), cp_row_rolls = (\<lambda>s n. n),
      cp_source_name = ''sample'', cp_queries = (\<lambda>t seed names. sample_queries), cp_worker = (\<lambda>n. sample_world),
      cp_state = (\<lambda>n. start_state), cp_session = [], cp_type_text = (\<lambda>ty. ''type''), cp_limit = 10\<rparr>"

lemma sample_rounds: "\<exists>st. run_fuzz sample_campaign 3 = Inr st"
proof -
  have round: "\<exists>r. campaign_round sample_campaign n = Inr r" for n
    by (simp add: campaign_round_def sample_campaign_def exposed_fork_names_def seed_name_def round_catalog_and_rows_def
        run_round_def seed_orders_def get_sql_name_def split: sum.splits prod.splits)
  show ?thesis
    unfolding run_fuzz_def by (rule short_run [OF round]) (simp add: fuzz_start_def sample_campaign_def)
qed

definition sample_store :: "sql_type \<Rightarrow> cell \<Rightarrow> sqlval" where
  "sample_store ty c =
     (case c of
        NoneCell \<Rightarrow> SNull
      | NumCell t x \<Rightarrow> if integer_keyed ty then SInt \<lfloor>x\<rfloor> else SOther ''number''
      | StrCell s \<Rightarrow> if is_varchar ty then SStr s else SOther s
      | _ \<Rightarrow> SOther ''other'')"

lemma sample_store_ok: "store_ok sample_store"
proof -
  have "\<not> is_dbl (sample_store ty c)" for ty c
    by (cases c) (simp_all add: sample_store_def is_dbl_def)
  then show ?thesis by (simp add: store_ok_def) (simp add: sample_store_def)
qed

definition sample_rolls :: "nat \<Rightarrow> nat" where
  "sample_rolls n = n"

lemma sampled_catalog: "\<exists>t. sample_catalog (catalog_type_pool rich_spec) ''t'' 1 8 sample_rolls = Inr t"
  by (simp add: sample_catalog_def catalog_type_pool_def rich_spec_def)

text \<open>A run gives up exactly when rounds in a row could not be built as often as the limit says: a run that ended
  has a buildable round in every such stretch, and one that gave up ended in one.\<close>

theorem gives_up_when_stuck:
  "case run_fuzz cp rounds of
     Inr st \<Rightarrow> \<exists>os. length os = rounds \<and> outcomes_are cp 0 os \<and>
       list_all (\<lambda>i. ro_setup_error (os ! i) \<noteq> None \<longrightarrow> streak_of (rev (take (Suc i) os)) < cp_limit cp) [0..<rounds]
   | Inl (TooManyUnbuildable m why, st) \<Rightarrow> cp_limit cp \<le> m \<and> (\<exists>os o'. length os < rounds \<and> outcomes_are cp 0 (os @ [o']) \<and>
       ro_setup_error o' = Some why \<and> m = streak_of (rev (os @ [o'])))
   | Inl (e, st) \<Rightarrow> True"
proof (cases "run_fuzz cp rounds")
  case (Inr st)
  from fuzz_streak [OF this [unfolded run_fuzz_def], of "[]"] obtain os where os: "length os = rounds" "outcomes_are cp 0 os"
      "\<forall>i. 0 < i \<and> i \<le> rounds \<and> ro_setup_error (os ! (i - 1)) \<noteq> None \<longrightarrow> streak_of (rev (take i os)) < cp_limit cp"
    by (auto simp: fuzz_start_def)
  then have "list_all (\<lambda>i. ro_setup_error (os ! i) \<noteq> None \<longrightarrow> streak_of (rev (take (Suc i) os)) < cp_limit cp) [0..<rounds]"
    by (auto simp: list_all_iff dest: spec [of _ "Suc _"])
  with os Inr show ?thesis by auto
next
  case (Inl p)
  obtain e st where p: "p = (e, st)" by (cases p)
  show ?thesis
  proof (cases e)
    case (TooManyUnbuildable m why)
    with Inl p have "fuzz_rounds cp rounds 0 fuzz_start = Inl (TooManyUnbuildable m why, st)" by (simp add: run_fuzz_def)
    from fuzz_gives_up [OF this] obtain j mid where j: "j < rounds" "fuzz_rounds cp j 0 fuzz_start = Inr mid"
        "fuzz_round cp j mid = Inl (TooManyUnbuildable m why, st)"
      by auto
    obtain o' where o': "outcome_of cp j = Some o'" "ro_setup_error o' = Some why" "m = Suc (fz_streak mid)" "cp_limit cp \<le> m"
      using fuzz_round_gives_up [OF j(3)] by blast
    obtain os where os: "length os = j" "outcomes_are cp 0 os" "fz_streak mid = streak_of (rev os)"
      using fuzz_streak [OF j(2), of "[]"] by (auto simp: fuzz_start_def)
    have "outcomes_are cp 0 (os @ [o'])" using os(1,2) o'(1) by (auto simp: outcomes_are_def nth_append less_Suc_eq)
    then have "\<exists>os o'. length os < rounds \<and> outcomes_are cp 0 (os @ [o']) \<and> ro_setup_error o' = Some why \<and> m = streak_of (rev (os @ [o']))"
      using os j(1) o' by (intro exI [of _ os] exI [of _ o']) simp
    then show ?thesis using Inl p TooManyUnbuildable o'(4) by simp
  qed (use Inl p in simp_all)
qed

theorem gives_up_when_stuck_witness:
  "\<exists>st os. run_fuzz sample_campaign 3 = Inr st \<and> length os = 3 \<and> outcomes_are sample_campaign 0 os"
  using sample_rounds gives_up_when_stuck [of sample_campaign 3] by fastforce

end
