(* ===== verification/Coa_Typed.thy ===== *)
theory Coa_Typed
  imports Complex_Main Coa_Text Coa_Types "HOL-Library.State_Monad"
begin

text \<open>
  \<open>generators/typed_predicate\<close>: typed boolean predicates over the columns of a table, built at random, then
  printed in one of the dialects.  \<open>random.Random(seed)\<close> is a stream of whole numbers and of fractions, read at one
  position; \<open>build.py\<close> is a program in the state monad over it.
\<close>


section \<open>Dice\<close>

record dice =
  dc_int :: "nat \<Rightarrow> nat"
  dc_real :: "nat \<Rightarrow> rat"
  dc_at :: nat

type_synonym 'a roll = "(dice, 'a) state"

definition roll_below :: "nat \<Rightarrow> nat roll" where
  "roll_below n = State (\<lambda>d. (dc_int d (dc_at d) mod n, d\<lparr>dc_at := Suc (dc_at d)\<rparr>))"

definition roll_real :: "rat roll" where
  "roll_real = State (\<lambda>d. (dc_real d (dc_at d), d\<lparr>dc_at := Suc (dc_at d)\<rparr>))"

definition roll_choice :: "'a list \<Rightarrow> 'a roll" where
  "roll_choice xs = do { k \<leftarrow> roll_below (length xs); State_Monad.return (xs ! k) }"

fun roll_times :: "nat \<Rightarrow> 'a roll \<Rightarrow> 'a list roll" where
  "roll_times 0 m = State_Monad.return []"
| "roll_times (Suc n) m = do { x \<leftarrow> m; xs \<leftarrow> roll_times n m; State_Monad.return (x # xs) }"


section \<open>Trees\<close>

datatype tp_node =
    TColumn string sql_type
  | TIntLit int
  | TLiteral string sql_type
  | TCompare string tp_node tp_node
  | TBoolOp string tp_node tp_node
  | TNot tp_node
  | TIsNull tp_node bool
  | TDistinct tp_node tp_node bool
  | TBetween tp_node tp_node tp_node bool
  | TIn tp_node "tp_node list" bool
  | TLike tp_node tp_node bool
  | TCall string "tp_node list" sql_type
  | TMod tp_node int

abbreviation BooleanType :: sql_type where
  "BooleanType \<equiv> SqlType BOOLEAN None None"

abbreviation DoubleType :: sql_type where
  "DoubleType \<equiv> SqlType DOUBLE None None"

abbreviation VarcharType :: sql_type where
  "VarcharType \<equiv> SqlType VARCHAR None None"

fun tp_type :: "tp_node \<Rightarrow> sql_type" where
  "tp_type (TColumn nm ty) = ty"
| "tp_type (TIntLit i) = IntegerType"
| "tp_type (TLiteral s ty) = ty"
| "tp_type (TCall nm args ty) = ty"
| "tp_type (TMod n k) = tp_type n"
| "tp_type _ = BooleanType"


section \<open>Functions\<close>

text \<open>The type classes a signature names; \<open>isinstance\<close> of one is a predicate on types.\<close>

datatype family = FInteger | FNumeric | FDouble | FVarchar | FBoolean | FDate | FTimestamp | FJsonb | FUuid | FRange

fun in_family :: "family \<Rightarrow> sql_type \<Rightarrow> bool" where
  "in_family FInteger ty = (kind_of ty = INTEGER)"
| "in_family FNumeric ty = is_numeric ty"
| "in_family FDouble ty = is_double ty"
| "in_family FVarchar ty = is_varchar ty"
| "in_family FBoolean ty = is_boolean ty"
| "in_family FDate ty = (kind_of ty = DATE)"
| "in_family FTimestamp ty = (kind_of ty = TIMESTAMP)"
| "in_family FJsonb ty = (kind_of ty = JSONB)"
| "in_family FUuid ty = (kind_of ty = UUID)"
| "in_family FRange ty = (kind_of ty = INT4RANGE)"

datatype func_result = Arg0 | Result sql_type

datatype func_spec = FuncSpec (fs_name: string) (fs_args: "family list") (fs_result: func_result)

definition result_type_for :: "func_spec \<Rightarrow> sql_type list \<Rightarrow> sql_type" where
  "result_type_for spec arg_types = (case fs_result spec of Arg0 \<Rightarrow> hd arg_types | Result ty \<Rightarrow> ty)"

text \<open>\<open>arity\<close> and \<open>matches\<close> of \<open>FuncSpec\<close>.\<close>

definition func_matches :: "func_spec \<Rightarrow> sql_type list \<Rightarrow> bool" where
  "func_matches spec arg_types \<longleftrightarrow> list_all2 in_family (fs_args spec) arg_types"

text \<open>The shapes most catalogs share.\<close>

definition numeric_shapes :: "string \<Rightarrow> func_spec list" where
  "numeric_shapes nm = [FuncSpec nm [FNumeric] Arg0, FuncSpec nm [FDouble] Arg0]"

definition binary_shapes :: "string \<Rightarrow> func_spec list" where
  "binary_shapes nm =
     [FuncSpec nm [FNumeric, FNumeric] Arg0, FuncSpec nm [FDouble, FDouble] Arg0, FuncSpec nm [FVarchar, FVarchar] (Result VarcharType)]"

definition rounding_shapes :: "func_spec list" where
  "rounding_shapes =
     [FuncSpec ''CEIL'' [FNumeric] Arg0, FuncSpec ''CEIL'' [FDouble] (Result DoubleType),
      FuncSpec ''FLOOR'' [FNumeric] Arg0, FuncSpec ''FLOOR'' [FDouble] (Result DoubleType)]"

definition case_shapes :: "func_spec list" where
  "case_shapes = [FuncSpec ''UPPER'' [FVarchar] (Result VarcharType), FuncSpec ''LOWER'' [FVarchar] (Result VarcharType)]"

definition pg_funcs :: "func_spec list" where
  "pg_funcs =
     numeric_shapes ''ABS'' @ rounding_shapes @ numeric_shapes ''SIGN''
     @ [FuncSpec ''CHAR_LENGTH'' [FVarchar] (Result IntegerType)] @ case_shapes
     @ [FuncSpec ''INITCAP'' [FVarchar] (Result VarcharType), FuncSpec ''ASCII'' [FVarchar] (Result IntegerType)]
     @ binary_shapes ''GREATEST'' @ binary_shapes ''LEAST''"

definition duckdb_funcs :: "func_spec list" where
  "duckdb_funcs =
     numeric_shapes ''ABS'' @ rounding_shapes @ numeric_shapes ''SIGN''
     @ [FuncSpec ''LENGTH'' [FVarchar] (Result IntegerType)] @ case_shapes
     @ [FuncSpec ''ends_with'' [FVarchar, FVarchar] (Result BooleanType), FuncSpec ''starts_with'' [FVarchar, FVarchar] (Result BooleanType)]
     @ binary_shapes ''GREATEST'' @ [FuncSpec ''GREATEST'' [FBoolean, FBoolean] (Result BooleanType)]
     @ binary_shapes ''LEAST'' @ [FuncSpec ''LEAST'' [FBoolean, FBoolean] (Result BooleanType)]"

definition mysql_funcs :: "func_spec list" where
  "mysql_funcs =
     numeric_shapes ''ABS'' @ rounding_shapes
     @ [FuncSpec ''SIGN'' [FNumeric] (Result IntegerType), FuncSpec ''SIGN'' [FDouble] (Result IntegerType),
        FuncSpec ''CHAR_LENGTH'' [FVarchar] (Result IntegerType)] @ case_shapes
     @ [FuncSpec ''ASCII'' [FVarchar] (Result IntegerType)] @ binary_shapes ''GREATEST'' @ binary_shapes ''LEAST''"

definition sqlite_funcs :: "func_spec list" where
  "sqlite_funcs =
     numeric_shapes ''ABS'' @ [FuncSpec ''LENGTH'' [FVarchar] (Result IntegerType)] @ case_shapes
     @ map (\<lambda>nm. FuncSpec nm [FVarchar] (Result VarcharType)) [''TRIM'', ''LTRIM'', ''RTRIM'']
     @ [FuncSpec ''REPLACE'' [FVarchar, FVarchar, FVarchar] (Result VarcharType),
        FuncSpec ''SUBSTR'' [FVarchar, FInteger] (Result VarcharType),
        FuncSpec ''SUBSTR'' [FVarchar, FInteger, FInteger] (Result VarcharType),
        FuncSpec ''INSTR'' [FVarchar, FVarchar] (Result IntegerType),
        FuncSpec ''HEX'' [FVarchar] (Result VarcharType), FuncSpec ''QUOTE'' [FVarchar] (Result VarcharType)]
     @ concat (map (\<lambda>nm. [FuncSpec nm [FInteger, FInteger] Arg0, FuncSpec nm [FVarchar, FVarchar] (Result VarcharType)])
         [''IFNULL'', ''NULLIF'', ''COALESCE''])
     @ binary_shapes ''max'' @ binary_shapes ''min''"

definition clickhouse_funcs :: "func_spec list" where
  "clickhouse_funcs =
     [FuncSpec ''ABS'' [FInteger] Arg0, FuncSpec ''ABS'' [FDouble] Arg0, FuncSpec ''CEIL'' [FDouble] (Result DoubleType),
      FuncSpec ''FLOOR'' [FDouble] (Result DoubleType), FuncSpec ''SIGN'' [FInteger] Arg0, FuncSpec ''SIGN'' [FDouble] Arg0,
      FuncSpec ''LENGTH'' [FVarchar] (Result IntegerType)] @ case_shapes
     @ [FuncSpec ''endsWith'' [FVarchar, FVarchar] (Result IntegerType), FuncSpec ''startsWith'' [FVarchar, FVarchar] (Result IntegerType),
        FuncSpec ''position'' [FVarchar, FVarchar] (Result IntegerType), FuncSpec ''substring'' [FVarchar, FInteger] (Result VarcharType)]
     @ concat (map (\<lambda>nm. [FuncSpec nm [FInteger, FInteger] Arg0, FuncSpec nm [FDouble, FDouble] Arg0,
          FuncSpec nm [FVarchar, FVarchar] (Result VarcharType)]) [''GREATEST'', ''LEAST'', ''ifNull''])
     @ concat (map (\<lambda>nm. [FuncSpec nm [FInteger, FInteger] Arg0, FuncSpec nm [FVarchar, FVarchar] (Result VarcharType)])
         [''nullIf'', ''coalesce''])
     @ [FuncSpec ''trim'' [FVarchar] (Result VarcharType), FuncSpec ''reverse'' [FVarchar] (Result VarcharType),
        FuncSpec ''toString'' [FInteger] (Result VarcharType)]"

datatype tp_dialect = TpPostgres | TpDuckDB | TpSqlite | TpClickHouse | TpMysql

text \<open>The names with a catalog and a printer; any other raises \<open>ValueError\<close>.\<close>

definition tp_dialect_of :: "string \<Rightarrow> tp_dialect option" where
  "tp_dialect_of nm =
     (if nm \<in> {''postgres'', ''cratedb''} then Some TpPostgres else if nm = ''duckdb'' then Some TpDuckDB
      else if nm = ''sqlite'' then Some TpSqlite else if nm = ''clickhouse'' then Some TpClickHouse
      else if nm \<in> {''mysql'', ''mariadb'', ''tidb'', ''dolt''} then Some TpMysql else None)"

fun catalog_for :: "tp_dialect \<Rightarrow> func_spec list" where
  "catalog_for TpPostgres = pg_funcs"
| "catalog_for TpDuckDB = duckdb_funcs"
| "catalog_for TpSqlite = sqlite_funcs"
| "catalog_for TpClickHouse = clickhouse_funcs"
| "catalog_for TpMysql = mysql_funcs"


section \<open>Building\<close>

definition comparisons :: "string list" where
  "comparisons = [''='', ''<>'', ''<'', ''<='', ''>'', ''>='']"

definition sql_quote :: "string \<Rightarrow> string" where
  "sql_quote s = [CHR 0x27] @ concat (map (\<lambda>c. if c = CHR 0x27 then [c, c] else [c]) s) @ [CHR 0x27]"

definition tp_strings :: "string list" where
  "tp_strings = ['''', ''a'', ''abc'', ''Zed'', ''o'' @ [CHR 0x27] @ ''brien'', ''trailing '']"

definition like_patterns :: "string list" where
  "like_patterns = [''%'', ''a%'', ''%c'', ''%a%'', ''___'', ''o'' @ [CHR 0x27] @ ''brien'']"

definition type_scaled :: "sql_type \<Rightarrow> bool" where
  "type_scaled ty \<longleftrightarrow> (case get_scale ty of None \<Rightarrow> False | Some k \<Rightarrow> k \<noteq> 0)"

definition scale_or_zero :: "sql_type \<Rightarrow> int" where
  "scale_or_zero ty = (case get_scale ty of None \<Rightarrow> 0 | Some k \<Rightarrow> k)"

definition same_family :: "tp_dialect option \<Rightarrow> sql_type \<Rightarrow> sql_type \<Rightarrow> bool" where
  "same_family d l r =
     (if d = Some TpClickHouse then
        (if kind_of l = INTEGER \<and> kind_of r = INTEGER then True
         else if is_numeric l \<and> is_numeric r \<and> kind_of l \<noteq> INTEGER \<and> kind_of r \<noteq> INTEGER then scale_or_zero l = scale_or_zero r
         else list_ex (\<lambda>f. in_family f l \<and> in_family f r) [FDouble, FVarchar, FBoolean, FDate, FTimestamp])
      else list_ex (\<lambda>f. in_family f l \<and> in_family f r)
        [FNumeric, FDouble, FVarchar, FBoolean, FDate, FTimestamp, FJsonb, FUuid, FRange])"

definition literal_texts :: "sql_type \<Rightarrow> string list" where
  "literal_texts ty =
     (case kind_of ty of
        BOOLEAN \<Rightarrow> [''TRUE'', ''FALSE'']
      | DOUBLE \<Rightarrow> [''0.0'', ''1.5'', ''-0.25'', ''1000.125'']
      | NUMERIC \<Rightarrow> [''0.00'', ''12.34'', ''-5.50'', ''999.99'']
      | DATE \<Rightarrow> map sql_quote [''2024-01-15'', ''1999-12-31'', ''2030-06-01'']
      | TIMESTAMP \<Rightarrow> map sql_quote [''2024-01-15 12:34:56'', ''1999-12-31 23:59:59'']
      | JSONB \<Rightarrow> map (\<lambda>s. sql_quote s @ ''::jsonb'') [''{}'', ''[]'', ''{\"a\": 1}'']
      | UUID \<Rightarrow> map (\<lambda>s. sql_quote s @ ''::uuid'') [''00000000-0000-0000-0000-000000000000'', ''550e8400-e29b-41d4-a716-446655440000'']
      | INT4RANGE \<Rightarrow> map (\<lambda>s. sql_quote s @ ''::int4range'') [''empty'', ''[1,10)'', ''[0,100]'']
      | _ \<Rightarrow> map sql_quote tp_strings)"

definition tp_literal :: "sql_type \<Rightarrow> tp_node roll" where
  "tp_literal ty =
     (if is_numeric ty \<and> \<not> type_scaled ty
      then do { i \<leftarrow> roll_choice [-7, -1, 0, 1, 2, 3, 42, 1000]; State_Monad.return (TIntLit i) }
      else do { s \<leftarrow> roll_choice (literal_texts ty); State_Monad.return (TLiteral s ty) })"

definition tp_compare :: "tp_node \<Rightarrow> tp_node \<Rightarrow> tp_node roll" where
  "tp_compare l r = do { oper \<leftarrow> roll_choice comparisons; State_Monad.return (TCompare oper l r) }"

definition column_node :: "column \<Rightarrow> tp_node" where
  "column_node c = TColumn (col_name c) (col_type c)"

definition peers_of :: "tp_dialect \<Rightarrow> column list \<Rightarrow> string \<Rightarrow> sql_type \<Rightarrow> column list" where
  "peers_of d columns nm ty = filter (\<lambda>c. col_name c \<noteq> nm \<and> same_family (Some d) ty (col_type c)) columns"

definition peer_or_literal :: "tp_dialect \<Rightarrow> column list \<Rightarrow> string \<Rightarrow> sql_type \<Rightarrow> tp_node roll" where
  "peer_or_literal d columns nm ty =
     (let peers = peers_of d columns nm ty
      in if peers = [] then tp_literal ty
         else do { x \<leftarrow> roll_real;
                   if x < 4 / 10 then do { c \<leftarrow> roll_choice peers; State_Monad.return (column_node c) } else tp_literal ty })"

fun pick_args :: "bool \<Rightarrow> family list \<Rightarrow> column list \<Rightarrow> tp_node list option roll" where
  "pick_args is_first [] columns = State_Monad.return (Some [])"
| "pick_args is_first (f # fs) columns =
     (let candidates = filter (\<lambda>c. in_family f (col_type c)) columns
      in if candidates = [] then State_Monad.return None
         else do {
           x \<leftarrow> (if is_first then State_Monad.return 0 else roll_real);
           c \<leftarrow> roll_choice candidates;
           arg \<leftarrow> (if x < 6 / 10 then State_Monad.return (column_node c) else tp_literal (col_type c));
           rest \<leftarrow> pick_args False fs columns;
           State_Monad.return (map_option ((#) arg) rest) })"

definition func_atom :: "tp_dialect \<Rightarrow> column list \<Rightarrow> tp_node option roll" where
  "func_atom d columns =
     (let applicable = filter (\<lambda>s. list_all (\<lambda>f. list_ex (\<lambda>c. in_family f (col_type c)) columns) (fs_args s)) (catalog_for d)
      in if applicable = [] then State_Monad.return None
         else do {
           spec \<leftarrow> roll_choice applicable;
           args \<leftarrow> pick_args True (fs_args spec) columns;
           case args of
             None \<Rightarrow> State_Monad.return None
           | Some xs \<Rightarrow>
               (let result = result_type_for spec (map tp_type xs);
                    call = TCall (fs_name spec) xs result
                in if is_boolean result then State_Monad.return (Some call)
                   else do { l \<leftarrow> tp_literal result; e \<leftarrow> tp_compare call l; State_Monad.return (Some e) }) })"

text \<open>The end of \<open>_atom\<close>: a peer, a remainder, or a literal to compare with.\<close>

definition plain_atom :: "tp_dialect \<Rightarrow> column list \<Rightarrow> column \<Rightarrow> rat \<Rightarrow> tp_node roll" where
  "plain_atom d columns c choice =
     (let ty = col_type c; peers = peers_of d columns (col_name c) ty
      in if choice < 82 / 100 \<and> peers \<noteq> [] then do { p \<leftarrow> roll_choice peers; tp_compare (column_node c) (column_node p) }
         else if choice < 88 / 100 \<and> is_numeric ty \<and> \<not> is_double ty \<and> \<not> type_scaled ty
         then do { i \<leftarrow> roll_choice [0, 1]; tp_compare (TMod (column_node c) 2) (TIntLit i) }
         else do { l \<leftarrow> tp_literal ty; tp_compare (column_node c) l })"

definition ordered_atom :: "tp_dialect \<Rightarrow> column list \<Rightarrow> column \<Rightarrow> rat \<Rightarrow> tp_node roll" where
  "ordered_atom d columns c choice =
     (let ty = col_type c; ref = column_node c;
          decimalish = (d = TpClickHouse \<and> is_numeric ty \<and> kind_of ty \<noteq> INTEGER \<and> type_scaled ty)
      in if choice < 10 / 100 then State_Monad.return (TIsNull ref False)
         else if choice < 16 / 100 then State_Monad.return (TIsNull ref True)
         else if choice < 26 / 100 \<and> d \<noteq> TpClickHouse then
           do { r \<leftarrow> peer_or_literal d columns (col_name c) ty; x \<leftarrow> roll_real; State_Monad.return (TDistinct ref r (x < 5 / 10)) }
         else if choice < 36 / 100 then
           do { lo \<leftarrow> tp_literal ty; hi \<leftarrow> tp_literal ty; x \<leftarrow> roll_real; State_Monad.return (TBetween ref lo hi (x < 25 / 100)) }
         else if choice < 46 / 100 \<and> \<not> decimalish then
           do { n \<leftarrow> roll_below 3; items \<leftarrow> roll_times (Suc n) (tp_literal ty); x \<leftarrow> roll_real;
                State_Monad.return (TIn ref items (x < 25 / 100)) }
         else if choice < 54 / 100 \<and> is_varchar ty then
           do { p \<leftarrow> roll_choice like_patterns; x \<leftarrow> roll_real;
                State_Monad.return (TLike ref (TLiteral (sql_quote p) ty) (x < 25 / 100)) }
         else if choice < 72 / 100 then
           do { built \<leftarrow> func_atom d columns;
                case built of Some e \<Rightarrow> State_Monad.return e | None \<Rightarrow> plain_atom d columns c choice }
         else plain_atom d columns c choice)"

definition tp_atom :: "tp_dialect \<Rightarrow> column list \<Rightarrow> tp_node roll" where
  "tp_atom d columns =
     do { c \<leftarrow> roll_choice columns;
          choice \<leftarrow> roll_real;
          (if ORDERABLE \<notin> get_properties (col_type c) then
             (if choice < 4 / 10 then State_Monad.return (TIsNull (column_node c) False)
              else if choice < 7 / 10 then State_Monad.return (TIsNull (column_node c) True)
              else do { l \<leftarrow> tp_literal (col_type c); State_Monad.return (TCompare ''='' (column_node c) l) })
           else ordered_atom d columns c choice) }"

definition max_predicate_depth :: nat where
  "max_predicate_depth = 2"

text \<open>\<open>_predicate\<close>, with the depth counted down: \<open>fuel\<close> is what is left below the limit.\<close>

fun tp_predicate :: "tp_dialect \<Rightarrow> column list \<Rightarrow> nat \<Rightarrow> tp_node roll" where
  "tp_predicate d columns 0 = tp_atom d columns"
| "tp_predicate d columns (Suc left) =
     do { x \<leftarrow> roll_real;
          if x < 45 / 100 then tp_atom d columns
          else do {
            y \<leftarrow> roll_real;
            if y < 2 / 10 then do { e \<leftarrow> tp_predicate d columns left; State_Monad.return (TNot e) }
            else do {
              l \<leftarrow> tp_predicate d columns left;
              r \<leftarrow> tp_predicate d columns left;
              z \<leftarrow> roll_real;
              State_Monad.return (TBoolOp (if z < 5 / 10 then ''AND'' else ''OR'') l r) } } }"

definition build_predicate :: "table \<Rightarrow> dice \<Rightarrow> tp_dialect \<Rightarrow> tp_node option" where
  "build_predicate t dice d =
     (if tab_columns t = [] then None
      else Some (fst (run_state (tp_predicate d (tab_columns t) max_predicate_depth) dice)))"


section \<open>Printing\<close>

fun is_atomic :: "tp_node \<Rightarrow> bool" where
  "is_atomic (TColumn nm ty) = True"
| "is_atomic (TIntLit i) = True"
| "is_atomic (TLiteral s ty) = True"
| "is_atomic (TMod n k) = True"
| "is_atomic (TCall nm args ty) = True"
| "is_atomic _ = False"

definition bracket_unless :: "bool \<Rightarrow> string \<Rightarrow> string" where
  "bracket_unless atomic s = (if atomic then s else ''('' @ s @ '')'')"

fun print_expr :: "tp_dialect \<Rightarrow> tp_node \<Rightarrow> string" where
  "print_expr d (TColumn nm ty) = nm"
| "print_expr d (TIntLit i) = str_int i"
| "print_expr d (TLiteral s ty) = s"
| "print_expr d (TCompare oper l r) =
     bracket_unless (is_atomic l) (print_expr d l) @ '' '' @ oper @ '' '' @ bracket_unless (is_atomic r) (print_expr d r)"
| "print_expr d (TBoolOp oper l r) =
     bracket_unless (is_atomic l) (print_expr d l) @ '' '' @ oper @ '' '' @ bracket_unless (is_atomic r) (print_expr d r)"
| "print_expr d (TNot e) = ''NOT '' @ bracket_unless (is_atomic e) (print_expr d e)"
| "print_expr d (TIsNull e negated) =
     bracket_unless (is_atomic e) (print_expr d e) @ '' IS '' @ (if negated then ''NOT '' else '''') @ ''NULL''"
| "print_expr d (TDistinct l r negated) =
     (let pl = bracket_unless (is_atomic l) (print_expr d l); pr = bracket_unless (is_atomic r) (print_expr d r)
      in if d = TpMysql then
           (if negated then ''('' @ pl @ '' <=> '' @ pr @ '')'' else ''(NOT ('' @ pl @ '' <=> '' @ pr @ ''))'')
         else pl @ (if negated then '' IS NOT DISTINCT FROM '' else '' IS DISTINCT FROM '') @ pr)"
| "print_expr d (TBetween v lo hi negated) =
     bracket_unless (is_atomic v) (print_expr d v) @ (if negated then '' NOT BETWEEN '' else '' BETWEEN '')
     @ bracket_unless (is_atomic lo) (print_expr d lo) @ '' AND '' @ bracket_unless (is_atomic hi) (print_expr d hi)"
| "print_expr d (TIn v items negated) =
     bracket_unless (is_atomic v) (print_expr d v) @ (if negated then '' NOT IN '' else '' IN '')
     @ ''('' @ join_with '', '' (map (print_expr d) items) @ '')''"
| "print_expr d (TLike v p negated) =
     bracket_unless (is_atomic v) (print_expr d v) @ (if negated then '' NOT LIKE '' else '' LIKE '')
     @ bracket_unless (is_atomic p) (print_expr d p)"
| "print_expr d (TCall nm args ty) = nm @ ''('' @ join_with '', '' (map (print_expr d) args) @ '')''"
| "print_expr d (TMod e k) =
     (if d = TpSqlite then ''('' @ print_expr d e @ '' % '' @ str_int k @ '')''
      else ''MOD('' @ print_expr d e @ '', '' @ str_int k @ '')'')"

definition typed_boolean_predicate :: "tp_dialect \<Rightarrow> table \<Rightarrow> dice \<Rightarrow> string option" where
  "typed_boolean_predicate d t dice = map_option (print_expr d) (build_predicate t dice d)"

end
