(* ===== verification/Coa_Typed_Laws.thy ===== *)
theory Coa_Typed_Laws
  imports Coa_Typed Coa_Gen
begin

text \<open>
  The predicates of \<open>Coa_Typed\<close> are well typed, stay within the table and the function catalog, and print as
  text in which an operand cannot be torn apart: outside quotes and brackets it shows no blank.
\<close>


section \<open>Every outcome of the dice\<close>

lemma pred_return [simp]: "pred_state P (State_Monad.return x) \<longleftrightarrow> P x"
  by (auto dest: pred_stateD [of P "State_Monad.return x" undefined x undefined])

lemma pred_below: "0 < n \<Longrightarrow> (\<And>k. k < n \<Longrightarrow> P k) \<Longrightarrow> pred_state P (roll_below n)"
  by (rule pred_stateI) (auto simp: roll_below_def)

lemma pred_real: "(\<And>x. P x) \<Longrightarrow> pred_state P roll_real"
  by (rule pred_stateI) simp

lemma pred_choice: "xs \<noteq> [] \<Longrightarrow> (\<And>x. x \<in> set xs \<Longrightarrow> P x) \<Longrightarrow> pred_state P (roll_choice xs)"
  unfolding roll_choice_def by (rule bind_predI, rule pred_below) simp_all

lemma pred_weaken: "pred_state P m \<Longrightarrow> (\<And>x. P x \<Longrightarrow> Q x) \<Longrightarrow> pred_state Q m"
  by (rule pred_stateI) (auto dest: pred_stateD)

lemma pred_step: "pred_state P m \<Longrightarrow> (\<And>x. P x \<Longrightarrow> pred_state Q (f x)) \<Longrightarrow> pred_state Q (State_Monad.bind m f)"
  by (rule bind_predI) (rule pred_weaken)

lemma pred_times: "pred_state P m \<Longrightarrow> pred_state (\<lambda>xs. length xs = n \<and> list_all P xs) (roll_times n m)"
  by (induction n) (auto intro!: pred_step [of P m] elim!: pred_step)

lemmas pred_any_real = pred_step [OF pred_real [of "\<lambda>x. True"]]


section \<open>Typing\<close>

definition orderable :: "sql_type \<Rightarrow> bool" where
  "orderable ty \<longleftrightarrow> ORDERABLE \<in> get_properties ty"

fun well_typed :: "tp_dialect \<Rightarrow> column list \<Rightarrow> tp_node \<Rightarrow> bool" where
  "well_typed d cols (TColumn nm ty) = list_ex (\<lambda>c. col_name c = nm \<and> col_type c = ty) cols"
| "well_typed d cols (TIntLit i) = True"
| "well_typed d cols (TLiteral s ty) = (s \<in> set (literal_texts ty) \<or> is_varchar ty \<and> s \<in> set (map sql_quote like_patterns))"
| "well_typed d cols (TCompare oper l r) =
     (oper \<in> set comparisons \<and> well_typed d cols l \<and> well_typed d cols r \<and> same_family None (tp_type l) (tp_type r) \<and>
      (oper = ''='' \<or> orderable (tp_type l)))"
| "well_typed d cols (TBoolOp oper l r) =
     (oper \<in> {''AND'', ''OR''} \<and> well_typed d cols l \<and> well_typed d cols r \<and> is_boolean (tp_type l) \<and> is_boolean (tp_type r))"
| "well_typed d cols (TNot e) = (well_typed d cols e \<and> is_boolean (tp_type e))"
| "well_typed d cols (TIsNull e n) = well_typed d cols e"
| "well_typed d cols (TDistinct l r n) = (well_typed d cols l \<and> well_typed d cols r \<and> same_family None (tp_type l) (tp_type r))"
| "well_typed d cols (TBetween v lo hi n) =
     (well_typed d cols v \<and> well_typed d cols lo \<and> well_typed d cols hi \<and> orderable (tp_type v) \<and>
      same_family None (tp_type v) (tp_type lo) \<and> same_family None (tp_type v) (tp_type hi))"
| "well_typed d cols (TIn v items n) =
     (well_typed d cols v \<and> items \<noteq> [] \<and> list_all (\<lambda>e. well_typed d cols e \<and> same_family None (tp_type v) (tp_type e)) items)"
| "well_typed d cols (TLike v p n) = (well_typed d cols v \<and> well_typed d cols p \<and> is_varchar (tp_type v) \<and> is_varchar (tp_type p))"
| "well_typed d cols (TCall nm args ty) =
     (list_all (well_typed d cols) args \<and>
      list_ex (\<lambda>s. fs_name s = nm \<and> func_matches s (map tp_type args) \<and> ty = result_type_for s (map tp_type args)) (catalog_for d))"
| "well_typed d cols (TMod e k) = (well_typed d cols e \<and> is_numeric (tp_type e) \<and> \<not> type_scaled (tp_type e) \<and> k \<noteq> 0)"

fun connective_depth :: "tp_node \<Rightarrow> nat" where
  "connective_depth (TBoolOp oper l r) = Suc (max (connective_depth l) (connective_depth r))"
| "connective_depth (TNot e) = Suc (connective_depth e)"
| "connective_depth _ = 0"

definition atom_ok :: "tp_dialect \<Rightarrow> column list \<Rightarrow> tp_node \<Rightarrow> bool" where
  "atom_ok d cols e \<longleftrightarrow> well_typed d cols e \<and> is_boolean (tp_type e) \<and> connective_depth e = 0"

lemmas family_defs = same_family_def is_numeric_def is_double_def is_varchar_def is_boolean_def

lemma same_family_refl: "same_family None ty ty"
  by (cases "kind_of ty") (simp_all add: family_defs)

lemma peer_family: "same_family (Some d) l r \<Longrightarrow> same_family None l r"
  by (auto simp: family_defs split: if_splits)

lemma literal_texts_nonempty: "literal_texts ty \<noteq> []"
  by (simp add: literal_texts_def tp_strings_def split: type_kind.splits)

lemma literal_ok: "pred_state (\<lambda>e. well_typed d cols e \<and> same_family None ty (tp_type e)
    \<and> (\<forall>f. in_family f ty \<longrightarrow> in_family f (tp_type e))) (tp_literal ty)"
proof (cases "is_numeric ty \<and> \<not> type_scaled ty")
  case True
  then have family: "same_family None ty IntegerType" by (simp add: family_defs)
  have member: "in_family f IntegerType" if "in_family f ty" for f
    using True that by (cases f) (auto simp: family_defs)
  show ?thesis
    unfolding tp_literal_def if_P [OF True] by (rule pred_step [OF pred_choice], simp, assumption) (simp add: family member)
next
  case False
  show ?thesis
    unfolding tp_literal_def if_not_P [OF False]
    by (rule pred_step [OF pred_choice [OF literal_texts_nonempty]], assumption) (simp add: same_family_refl)
qed

lemma compare_ok:
  assumes "well_typed d cols l" "well_typed d cols r" "same_family None (tp_type l) (tp_type r)" "orderable (tp_type l)"
  shows "pred_state (atom_ok d cols) (tp_compare l r)"
  unfolding tp_compare_def
  by (rule pred_step [OF pred_choice], simp add: comparisons_def, assumption)
    (use assms in \<open>simp add: atom_ok_def is_boolean_def\<close>)

lemma column_ok: "c \<in> set cols \<Longrightarrow> well_typed d cols (column_node c)" "tp_type (column_node c) = col_type c"
  by (auto simp: column_node_def list_ex_iff)

lemma peer_ok:
  "pred_state (\<lambda>e. well_typed d cols e \<and> same_family None ty (tp_type e)) (peer_or_literal d cols nm ty)"
proof -
  have literal: "pred_state (\<lambda>e. well_typed d cols e \<and> same_family None ty (tp_type e)) (tp_literal ty)"
    by (rule pred_weaken [OF literal_ok]) blast
  show ?thesis
  proof (cases "peers_of d cols nm ty = []")
    case False
    have peer: "pred_state (\<lambda>e. well_typed d cols e \<and> same_family None ty (tp_type e))
        (do { c \<leftarrow> roll_choice (peers_of d cols nm ty); State_Monad.return (column_node c) })"
      by (rule pred_step [OF pred_choice [OF False]], assumption) (auto simp: peers_of_def column_ok intro: peer_family)
    show ?thesis
      unfolding peer_or_literal_def Let_def if_not_P [OF False] by (rule pred_any_real) (simp_all add: peer literal)
  qed (simp add: peer_or_literal_def literal)
qed

lemma args_ok:
  "pred_state (\<lambda>r. \<forall>args. r = Some args \<longrightarrow> list_all (well_typed d cols) args \<and> list_all2 in_family fs (map tp_type args))
    (pick_args is_first fs cols)"
proof (induction fs arbitrary: is_first)
  case (Cons f fs)
  let ?candidates = "filter (\<lambda>c. in_family f (col_type c)) cols"
  show ?case
  proof (cases "?candidates = []")
    case False
    have arg: "pred_state (\<lambda>e. well_typed d cols e \<and> in_family f (tp_type e))
        (if x < 6 / 10 then State_Monad.return (column_node c) else tp_literal (col_type c))" if "c \<in> set ?candidates" for c and x :: rat
    proof -
      have "pred_state (\<lambda>e. well_typed d cols e \<and> in_family f (tp_type e)) (tp_literal (col_type c))"
        using that by (intro pred_weaken [OF literal_ok [of d cols]]) simp
      with that show ?thesis by (simp add: column_ok)
    qed
    have "pred_state (\<lambda>x. True) (if is_first then State_Monad.return (0 :: rat) else roll_real)"
      by (simp add: pred_real)
    then show ?thesis
      unfolding pick_args.simps Let_def if_not_P [OF False]
      by (rule pred_step) (rule pred_step [OF pred_choice [OF False]], assumption, rule pred_step [OF arg], assumption,
          rule pred_step [OF Cons.IH], auto)
  qed simp
qed simp

text \<open>What a function of a catalog returns can be compared.\<close>

lemma catalog_results:
  "list_all (\<lambda>s. case fs_result s of Arg0 \<Rightarrow> fs_args s \<noteq> [] \<and> hd (fs_args s) \<in> {FInteger, FNumeric, FDouble} | Result ty \<Rightarrow> orderable ty) (catalog_for d)"
  by (induction d) code_simp+

lemma result_orderable:
  assumes "s \<in> set (catalog_for d)" "list_all2 in_family (fs_args s) types"
  shows "orderable (result_type_for s types)"
proof (cases "fs_result s")
  case Arg0
  with assms(1) catalog_results [of d] have "fs_args s \<noteq> []" "hd (fs_args s) \<in> {FInteger, FNumeric, FDouble}"
    by (auto simp: list_all_iff)
  with assms(2) have "in_family (hd (fs_args s)) (hd types)" by (cases "fs_args s"; cases types) auto
  with \<open>hd (fs_args s) \<in> _\<close> Arg0 show ?thesis
    by (auto simp: result_type_for_def orderable_def get_properties_def is_numeric_def is_double_def)
next
  case (Result ty)
  with assms(1) catalog_results [of d] show ?thesis by (auto simp: list_all_iff result_type_for_def)
qed

lemma func_atom_ok: "pred_state (\<lambda>r. \<forall>e. r = Some e \<longrightarrow> atom_ok d cols e) (func_atom d cols)"
proof -
  let ?applicable = "filter (\<lambda>s. list_all (\<lambda>f. list_ex (\<lambda>c. in_family f (col_type c)) cols) (fs_args s)) (catalog_for d)"
  have call: "pred_state (\<lambda>r. \<forall>e. r = Some e \<longrightarrow> atom_ok d cols e)
      (let result = result_type_for s (map tp_type xs); call = TCall (fs_name s) xs result
       in if is_boolean result then State_Monad.return (Some call)
          else do { l \<leftarrow> tp_literal result; e \<leftarrow> tp_compare call l; State_Monad.return (Some e) })"
    if s: "s \<in> set ?applicable" and xs: "list_all (well_typed d cols) xs" "list_all2 in_family (fs_args s) (map tp_type xs)" for s xs
  proof -
    let ?result = "result_type_for s (map tp_type xs)"
    have typed: "well_typed d cols (TCall (fs_name s) xs ?result)"
      using s xs by (auto simp: list_ex_iff func_matches_def)
    have order: "orderable ?result" using s xs(2) by (auto intro: result_orderable)
    show ?thesis
    proof (cases "is_boolean ?result")
      case True
      with typed show ?thesis by (simp add: atom_ok_def)
    next
      case False
      have "pred_state (\<lambda>r. \<forall>e. r = Some e \<longrightarrow> atom_ok d cols e)
          (do { l \<leftarrow> tp_literal ?result; e \<leftarrow> tp_compare (TCall (fs_name s) xs ?result) l; State_Monad.return (Some e) })"
        by (rule pred_step [OF literal_ok [of d cols]], rule pred_step [OF compare_ok]) (use typed order in simp_all)
      with False show ?thesis by (simp add: Let_def)
    qed
  qed
  show ?thesis
  proof (cases "?applicable = []")
    case False
    show ?thesis
      unfolding func_atom_def Let_def if_not_P [OF False]
      by (rule pred_step [OF pred_choice [OF False]], assumption, rule pred_step [OF args_ok [of d cols]])
        (use call [unfolded Let_def] in \<open>auto split: option.split\<close>)
  qed (simp add: func_atom_def)
qed

lemma plain_atom_ok:
  assumes "c \<in> set cols" "orderable (col_type c)"
  shows "pred_state (atom_ok d cols) (plain_atom d cols c choice)"
proof -
  have peer: "pred_state (atom_ok d cols) (do { p \<leftarrow> roll_choice (peers_of d cols (col_name c) (col_type c)); tp_compare (column_node c) (column_node p) })"
    if "peers_of d cols (col_name c) (col_type c) \<noteq> []"
    by (rule pred_step [OF pred_choice [OF that]], assumption, rule compare_ok)
      (use assms in \<open>auto simp: column_ok peers_of_def intro: peer_family\<close>)
  have remainder: "pred_state (atom_ok d cols) (do { i \<leftarrow> roll_choice [0, 1]; tp_compare (TMod (column_node c) 2) (TIntLit i) })"
    if "is_numeric (col_type c)" "\<not> type_scaled (col_type c)"
    by (rule pred_step [OF pred_choice], simp, assumption, rule compare_ok)
      (use assms that in \<open>simp_all add: column_ok family_defs\<close>)
  have literal: "pred_state (atom_ok d cols) (do { l \<leftarrow> tp_literal (col_type c); tp_compare (column_node c) l })"
    by (rule pred_step [OF literal_ok [of d cols]], rule compare_ok) (use assms in \<open>simp_all add: column_ok\<close>)
  show ?thesis unfolding plain_atom_def Let_def using peer remainder literal by simp
qed

lemma ordered_atom_ok:
  assumes "c \<in> set cols" "orderable (col_type c)"
  shows "pred_state (atom_ok d cols) (ordered_atom d cols c choice)"
proof -
  note typed = column_ok(1) [OF assms(1), of d]
  note plain = plain_atom_ok [OF assms, of d choice]
  have literal: "pred_state (\<lambda>e. well_typed d cols e \<and> same_family None (col_type c) (tp_type e)) (tp_literal (col_type c))"
    by (rule pred_weaken [OF literal_ok]) blast
  have distinct: "pred_state (atom_ok d cols) (do { r \<leftarrow> peer_or_literal d cols (col_name c) (col_type c); x \<leftarrow> roll_real;
      State_Monad.return (TDistinct (column_node c) r (x < 5 / 10)) })"
    by (rule pred_step [OF peer_ok], rule pred_any_real)
      (use typed in \<open>simp_all add: atom_ok_def is_boolean_def column_ok\<close>)
  have between: "pred_state (atom_ok d cols) (do { lo \<leftarrow> tp_literal (col_type c); hi \<leftarrow> tp_literal (col_type c); x \<leftarrow> roll_real;
      State_Monad.return (TBetween (column_node c) lo hi (x < 25 / 100)) })"
    by (rule pred_step [OF literal], rule pred_step [OF literal], rule pred_any_real)
      (use typed assms in \<open>simp_all add: atom_ok_def is_boolean_def column_ok\<close>)
  have within: "pred_state (atom_ok d cols) (do { n \<leftarrow> roll_below 3; items \<leftarrow> roll_times (Suc n) (tp_literal (col_type c)); x \<leftarrow> roll_real;
      State_Monad.return (TIn (column_node c) items (x < 25 / 100)) })"
    by (rule pred_step [OF pred_below [of 3 "\<lambda>n. True"]], simp, simp, rule pred_step [OF pred_times [OF literal]],
        rule pred_any_real)
      (use typed in \<open>auto simp: atom_ok_def is_boolean_def column_ok\<close>)
  have like: "pred_state (atom_ok d cols) (do { p \<leftarrow> roll_choice like_patterns; x \<leftarrow> roll_real;
      State_Monad.return (TLike (column_node c) (TLiteral (sql_quote p) (col_type c)) (x < 25 / 100)) })" if "is_varchar (col_type c)"
    by (rule pred_step [OF pred_choice], simp add: like_patterns_def, assumption, rule pred_any_real)
      (use typed that in \<open>auto simp: atom_ok_def is_boolean_def column_ok\<close>)
  have func: "pred_state (atom_ok d cols) (do { built \<leftarrow> func_atom d cols;
      case built of Some e \<Rightarrow> State_Monad.return e | None \<Rightarrow> plain_atom d cols c choice })"
    by (rule pred_step [OF func_atom_ok]) (use plain in \<open>auto split: option.split\<close>)
  have null: "atom_ok d cols (TIsNull (column_node c) b)" for b
    using typed by (simp add: atom_ok_def is_boolean_def)
  show ?thesis
    unfolding ordered_atom_def Let_def using plain distinct between within like func null by simp
qed

lemma atom_built: "cols \<noteq> [] \<Longrightarrow> pred_state (atom_ok d cols) (tp_atom d cols)"
proof -
  assume cols: "cols \<noteq> []"
  have equal: "pred_state (atom_ok d cols) (do { l \<leftarrow> tp_literal (col_type c); State_Monad.return (TCompare ''='' (column_node c) l) })"
    if "c \<in> set cols" for c
    by (rule pred_step [OF literal_ok [of d cols]])
      (use column_ok(1) [OF that, of d] in \<open>simp add: atom_ok_def is_boolean_def column_ok comparisons_def\<close>)
  have null: "atom_ok d cols (TIsNull (column_node c) b)" if "c \<in> set cols" for c b
    using column_ok(1) [OF that, of d] by (simp add: atom_ok_def is_boolean_def)
  show ?thesis
    unfolding tp_atom_def
    by (rule pred_step [OF pred_choice [OF cols]], assumption, rule pred_any_real, simp)
      (simp add: equal null ordered_atom_ok orderable_def)
qed

lemma predicate_built:
  "cols \<noteq> [] \<Longrightarrow> pred_state (\<lambda>e. well_typed d cols e \<and> is_boolean (tp_type e) \<and> connective_depth e \<le> left) (tp_predicate d cols left)"
proof (induction left)
  case 0
  show ?case unfolding tp_predicate.simps by (rule pred_weaken [OF atom_built [OF 0]]) (simp add: atom_ok_def)
next
  case (Suc left)
  note IH = Suc.IH [OF Suc.prems]
  have atom: "pred_state (\<lambda>e. well_typed d cols e \<and> is_boolean (tp_type e) \<and> connective_depth e \<le> Suc left) (tp_atom d cols)"
    by (rule pred_weaken [OF atom_built [OF Suc.prems]]) (simp add: atom_ok_def)
  have negation: "pred_state (\<lambda>e. well_typed d cols e \<and> is_boolean (tp_type e) \<and> connective_depth e \<le> Suc left)
      (do { e \<leftarrow> tp_predicate d cols left; State_Monad.return (TNot e) })"
    by (rule pred_step [OF IH]) (simp add: is_boolean_def)
  have connective: "pred_state (\<lambda>e. well_typed d cols e \<and> is_boolean (tp_type e) \<and> connective_depth e \<le> Suc left)
      (do { l \<leftarrow> tp_predicate d cols left; r \<leftarrow> tp_predicate d cols left; z \<leftarrow> roll_real;
            State_Monad.return (TBoolOp (if z < 5 / 10 then ''AND'' else ''OR'') l r) })"
    by (rule pred_step [OF IH], rule pred_step [OF IH], rule pred_any_real) (simp_all add: is_boolean_def)
  show ?case
    unfolding tp_predicate.simps
    by (rule pred_any_real, simp, rule if_split [THEN iffD2], intro conjI impI, rule atom,
        rule pred_any_real, simp, rule if_split [THEN iffD2], intro conjI impI, rule negation, rule connective)
qed

lemma build_typed:
  assumes "build_predicate t dice d = Some e"
  shows "well_typed d (tab_columns t) e \<and> is_boolean (tp_type e) \<and> connective_depth e \<le> max_predicate_depth"
  using assms pred_state_run_state [OF predicate_built [of "tab_columns t" d max_predicate_depth], of dice]
  by (auto simp: build_predicate_def split: if_splits)

end
