(* ===== verification/Coa_Typed_Text.thy ===== *)
theory Coa_Typed_Text
  imports Coa_Typed_Laws Coa_Campaign
begin

text \<open>
  The text of a typed predicate.  A scanner that knows quotes and brackets says that an operand is \<^emph>\<open>tight\<close>: it
  is balanced, and outside its own quotes and brackets it has no blank, so no keyword around it can take part
  of it.
\<close>


section \<open>Scanning\<close>

text \<open>State: within quotes, and how many brackets are open.  A doubled quote closes and opens again.\<close>

fun qscan :: "bool \<Rightarrow> bool \<Rightarrow> nat \<Rightarrow> string \<Rightarrow> (bool \<times> nat) option" where
  "qscan strict inq d [] = Some (inq, d)"
| "qscan strict inq d (c # s) =
     (if c = CHR 0x27 then qscan strict (\<not> inq) d s
      else if inq then qscan strict inq d s
      else if c = CHR ''('' then qscan strict inq (Suc d) s
      else if c = CHR '')'' then (case d of 0 \<Rightarrow> None | Suc d' \<Rightarrow> qscan strict inq d' s)
      else if strict \<and> d = 0 \<and> c = CHR '' '' then None
      else qscan strict inq d s)"

definition level :: "string \<Rightarrow> bool" where
  "level s \<longleftrightarrow> qscan False False 0 s = Some (False, 0)"

definition tight :: "string \<Rightarrow> bool" where
  "tight s \<longleftrightarrow> qscan True False 0 s = Some (False, 0)"

lemma qscan_append:
  "qscan strict q d (s @ t) = (case qscan strict q d s of None \<Rightarrow> None | Some (q', d') \<Rightarrow> qscan strict q' d' t)"
  by (induction strict q d s rule: qscan.induct) (auto split: nat.splits)

text \<open>Inside one more bracket nothing is strict.\<close>

lemma qscan_deeper:
  "qscan False q d s = Some (q', d') \<Longrightarrow> qscan strict q (d + Suc k) s = Some (q', d' + Suc k)"
proof (induction "False" q d s arbitrary: q' d' rule: qscan.induct)
  case (2 inq d c s)
  then show ?case by (cases d) (auto split: if_splits)
qed simp

lemma qscan_loose: "qscan True q d s = Some r \<Longrightarrow> qscan False q d s = Some r"
proof (induction True q d s rule: qscan.induct)
  case (2 inq d c s)
  then show ?case by (cases d) (auto split: if_splits)
qed simp

lemma tight_level: "tight s \<Longrightarrow> level s"
  by (auto simp: tight_def level_def dest: qscan_loose)

lemma level_inside: "level s \<Longrightarrow> qscan strict False (Suc d) s = Some (False, Suc d)"
  using qscan_deeper [of False 0 s False 0 strict d] by (simp add: level_def)

lemma tight_bracket: "level s \<Longrightarrow> tight (CHR ''('' # s @ '')'')"
  by (simp add: tight_def qscan_append level_inside)

lemma level_append: "level s \<Longrightarrow> level t \<Longrightarrow> level (s @ t)"
  by (simp add: level_def qscan_append)

lemma tight_append: "tight s \<Longrightarrow> tight t \<Longrightarrow> tight (s @ t)"
  by (simp add: tight_def qscan_append)

lemma level_nil [simp]: "level []"
  by (simp add: level_def)

lemma level_join: "level sep \<Longrightarrow> list_all level xs \<Longrightarrow> level (join_with sep xs)"
  by (induction sep xs rule: join_with.induct) (simp_all add: level_append)

lemma level_pair: "tight s \<Longrightarrow> level m \<Longrightarrow> tight t \<Longrightarrow> level (s @ m @ t)"
  by (intro level_append) (simp_all add: tight_level)

lemma bracket_tight: "level s \<Longrightarrow> tight (bracket_unless False s)"
  by (simp add: bracket_unless_def tight_bracket)

lemma atom_tight: "bracket_unless True s = s"
  by (simp add: bracket_unless_def)

lemma plain_tight: "list_all (\<lambda>c. c \<noteq> CHR 0x27 \<and> c \<noteq> CHR ''('' \<and> c \<noteq> CHR '')'' \<and> c \<noteq> CHR '' '') s \<Longrightarrow> tight s"
  unfolding tight_def by (induction s) auto

lemma str_nat_tight: "tight (str_nat n)"
proof (rule plain_tight)
  have "is_digit c \<Longrightarrow> c \<noteq> CHR 0x27 \<and> c \<noteq> CHR ''('' \<and> c \<noteq> CHR '')'' \<and> c \<noteq> CHR '' ''" for c
    by (auto simp: is_digit_def)
  then show "list_all (\<lambda>c. c \<noteq> CHR 0x27 \<and> c \<noteq> CHR ''('' \<and> c \<noteq> CHR '')'' \<and> c \<noteq> CHR '' '') (str_nat n)"
    using all_digits [of n] by (rule list.pred_mono_strong [rotated]) blast
qed

lemma str_int_tight: "tight (str_int i)"
  using str_nat_tight [of "nat (- i)"] str_nat_tight [of "nat i"] by (auto simp: str_int_def tight_def)


section \<open>What is printed\<close>

text \<open>Columns a predicate can name as they are.\<close>

definition plain_columns :: "column list \<Rightarrow> bool" where
  "plain_columns cols \<longleftrightarrow> list_all (\<lambda>c. tight (col_name c) \<and> nonblank (col_name c)) cols"

lemma literal_texts_ok: "list_all (\<lambda>s. tight s \<and> nonblank s) (literal_texts ty)"
proof -
  have texts: "list_all (\<lambda>s. tight s \<and> nonblank s) (literal_texts (SqlType k None None))" for k
    by (induction k) code_simp+
  have "literal_texts ty = literal_texts (SqlType (kind_of ty) None None)" by (simp add: literal_texts_def)
  with texts show ?thesis by simp
qed

lemma like_texts_ok: "list_all (\<lambda>s. tight s \<and> nonblank s) (map sql_quote like_patterns)"
  by code_simp

lemma comparison_texts_ok: "list_all (\<lambda>s. level (CHR '' '' # s @ '' '') \<and> nonblank s) comparisons"
  by code_simp

lemma function_names_ok: "list_all (\<lambda>s. tight (fs_name s) \<and> nonblank (fs_name s)) (catalog_for d)"
  by (induction d) code_simp+

lemma keyword_levels:
  "level '' AND ''" "level '' OR ''" "level ''NOT ''" "level '' IS ''" "level '' IS NOT ''" "level ''NULL''" "level '' BETWEEN ''"
  "level '' NOT BETWEEN ''" "level '' IN ''" "level '' NOT IN ''" "level '' LIKE ''" "level '' NOT LIKE ''" "level '', ''" "level '' % ''"
  "level '' <=> ''" "level '' IS DISTINCT FROM ''" "level '' IS NOT DISTINCT FROM ''" "level []" "tight ''MOD''"
  by code_simp+

lemma nonblank_append [simp]: "nonblank (s @ t) \<longleftrightarrow> nonblank s \<or> nonblank t"
  by (auto simp: nonblank_def)

lemma nonblank_Cons: "nonblank (c # s) \<longleftrightarrow> c \<notin> {CHR '' '', CHR 0x09, CHR 0x0A, CHR 0x0B, CHR 0x0C, CHR 0x0D} \<or> nonblank s"
  by (auto simp: nonblank_def)

lemma nonblank_bracket [simp]: "nonblank (bracket_unless b s) \<longleftrightarrow> \<not> b \<or> nonblank s"
  by (simp add: bracket_unless_def nonblank_Cons)

lemma printed_nonblank: "well_typed d cols e \<Longrightarrow> plain_columns cols \<Longrightarrow> nonblank (print_expr d e)"
proof (induction d e rule: print_expr.induct)
  case (1 d nm ty)
  then show ?case by (auto simp: plain_columns_def list_ex_iff list_all_iff)
next
  case (2 d i)
  have "nonblank (str_nat n)" for n
  proof -
    obtain c where "c \<in> set (str_nat n)" "is_digit c"
      using all_digits [of n] str_nat_nonempty [of n] by (cases "str_nat n") auto
    moreover from this(2) have "c \<notin> {CHR '' '', CHR 0x09, CHR 0x0A, CHR 0x0B, CHR 0x0C, CHR 0x0D}" by (auto simp: is_digit_def)
    ultimately show ?thesis unfolding nonblank_def by blast
  qed
  then show ?case by (auto simp: str_int_def nonblank_Cons)
next
  case (3 d s ty)
  then show ?case using literal_texts_ok [of ty] like_texts_ok by (auto simp: list_all_iff)
next
  case (4 d oper l r)
  then show ?case using comparison_texts_ok by (auto simp: list_all_iff)
next
  case (12 d nm args ty)
  then show ?case by (simp add: nonblank_Cons)
qed (simp_all add: Let_def nonblank_Cons)

text \<open>Every predicate is balanced, and every operand tight.\<close>

lemma printed_tight:
  "well_typed d cols e \<Longrightarrow> plain_columns cols \<Longrightarrow> level (print_expr d e) \<and> tight (bracket_unless (is_atomic e) (print_expr d e))"
proof (induction d e rule: print_expr.induct)
  case (1 d nm ty)
  then have "tight nm" by (auto simp: plain_columns_def list_ex_iff list_all_iff)
  then show ?case by (simp add: bracket_unless_def tight_level)
next
  case (2 d i)
  then show ?case by (simp add: bracket_unless_def tight_level str_int_tight)
next
  case (3 d s ty)
  then have "tight s" using literal_texts_ok [of ty] like_texts_ok by (auto simp: list_all_iff)
  then show ?case by (simp add: bracket_unless_def tight_level)
next
  case (4 d oper l r)
  then have "level ('' '' @ oper @ '' '')" using comparison_texts_ok by (auto simp: list_all_iff)
  with 4 have "level (bracket_unless (is_atomic l) (print_expr d l) @ ('' '' @ oper @ '' '') @ bracket_unless (is_atomic r) (print_expr d r))"
    by - (rule level_pair, simp_all)
  then have "level (print_expr d (TCompare oper l r))" by simp
  then show ?case by (simp add: bracket_tight del: print_expr.simps)
next
  case (5 d oper l r)
  then have "level ('' '' @ oper @ '' '')" using keyword_levels by auto
  with 5 have "level (bracket_unless (is_atomic l) (print_expr d l) @ ('' '' @ oper @ '' '') @ bracket_unless (is_atomic r) (print_expr d r))"
    by - (rule level_pair, simp_all)
  then have "level (print_expr d (TBoolOp oper l r))" by simp
  then show ?case by (simp add: bracket_tight del: print_expr.simps)
next
  case (6 d e)
  then have "level (print_expr d (TNot e))"
    unfolding print_expr.simps by (intro level_append keyword_levels) (simp add: tight_level)
  then show ?case by (simp add: bracket_tight del: print_expr.simps)
next
  case (7 d e negated)
  then have "level (print_expr d (TIsNull e negated))"
    unfolding print_expr.simps by (intro level_append keyword_levels) (simp_all add: tight_level keyword_levels)
  then show ?case by (simp add: bracket_tight del: print_expr.simps)
next
  case (8 d l r negated)
  let ?pl = "bracket_unless (is_atomic l) (print_expr d l)" and ?pr = "bracket_unless (is_atomic r) (print_expr d r)"
  from 8 have sides: "level ?pl" "level ?pr" by (simp_all add: tight_level)
  then have inner: "level (?pl @ '' <=> '' @ ?pr)" by (intro level_append keyword_levels)
  note outer = level_append [OF keyword_levels(3) tight_level [OF tight_bracket [OF inner]]]
  have "level (print_expr d (TDistinct l r negated))"
  proof (cases "d = TpMysql")
    case True
    with tight_level [OF tight_bracket [OF inner]] tight_level [OF tight_bracket [OF outer]] show ?thesis by (simp add: Let_def)
  next
    case False
    have word: "level (if negated then '' IS NOT DISTINCT FROM '' else '' IS DISTINCT FROM '')"
      by (simp add: keyword_levels)
    from level_append [OF sides(1) level_append [OF word sides(2)]] False show ?thesis by (cases negated) (simp_all add: Let_def)
  qed
  then show ?case by (simp add: bracket_tight del: print_expr.simps)
next
  case (9 d v lo hi negated)
  then have "level (print_expr d (TBetween v lo hi negated))"
    unfolding print_expr.simps by (intro level_append keyword_levels) (simp_all add: tight_level keyword_levels)
  then show ?case by (simp add: bracket_tight del: print_expr.simps)
next
  case (10 d v items negated)
  have items: "level (join_with '', '' (map (print_expr d) items))"
    using 10 by (intro level_join keyword_levels) (auto simp: list_all_iff)
  have operand: "level (bracket_unless (is_atomic v) (print_expr d v))" using 10 by (simp add: tight_level)
  have word: "level (if negated then '' NOT IN '' else '' IN '')" by (simp add: keyword_levels)
  from level_append [OF operand level_append [OF word tight_level [OF tight_bracket [OF items]]]]
  have "level (print_expr d (TIn v items negated))" by (cases negated) simp_all
  then show ?case by (simp add: bracket_tight del: print_expr.simps)
next
  case (11 d v p negated)
  then have "level (print_expr d (TLike v p negated))"
    unfolding print_expr.simps by (intro level_append keyword_levels) (simp_all add: tight_level keyword_levels)
  then show ?case by (simp add: bracket_tight del: print_expr.simps)
next
  case (12 d nm args ty)
  have args: "level (join_with '', '' (map (print_expr d) args))"
    using 12 by (intro level_join keyword_levels) (auto simp: list_all_iff)
  have "tight nm" using 12(2) function_names_ok [of d] by (auto simp: list_ex_iff list_all_iff)
  with tight_bracket [OF args] have "tight (print_expr d (TCall nm args ty))" by (simp add: tight_append)
  then show ?case by (simp add: atom_tight tight_level del: print_expr.simps)
next
  case (13 d e k)
  then have inner: "level (print_expr d e)" by (cases "d = TpSqlite") simp_all
  have sqlite: "level (print_expr d e @ '' % '' @ str_int k)"
    by (intro level_append inner keyword_levels tight_level str_int_tight)
  have other: "level (print_expr d e @ '', '' @ str_int k)"
    by (intro level_append inner keyword_levels tight_level str_int_tight)
  have "tight (print_expr d (TMod e k))"
  proof (cases "d = TpSqlite")
    case True
    with tight_bracket [OF sqlite] show ?thesis by simp
  next
    case False
    with tight_append [OF keyword_levels(19) tight_bracket [OF other]] show ?thesis by simp
  qed
  then show ?case by (simp add: atom_tight tight_level del: print_expr.simps)
qed


text \<open>Every node that \<open>_operand\<close> prints.\<close>

fun tp_operands :: "tp_node \<Rightarrow> tp_node list" where
  "tp_operands (TCompare oper l r) = l # r # tp_operands l @ tp_operands r"
| "tp_operands (TBoolOp oper l r) = l # r # tp_operands l @ tp_operands r"
| "tp_operands (TNot e) = e # tp_operands e"
| "tp_operands (TIsNull e negated) = e # tp_operands e"
| "tp_operands (TDistinct l r negated) = l # r # tp_operands l @ tp_operands r"
| "tp_operands (TBetween v lo hi negated) = v # lo # hi # tp_operands v @ tp_operands lo @ tp_operands hi"
| "tp_operands (TIn v items negated) = v # tp_operands v @ concat (map tp_operands items)"
| "tp_operands (TLike v p negated) = v # p # tp_operands v @ tp_operands p"
| "tp_operands (TCall nm args ty) = concat (map tp_operands args)"
| "tp_operands (TMod e k) = tp_operands e"
| "tp_operands e = []"

lemma operands_typed: "well_typed d cols e \<Longrightarrow> x \<in> set (tp_operands e) \<Longrightarrow> well_typed d cols x"
  by (induction e rule: tp_operands.induct) (auto simp: list_all_iff)

lemma operands_tight:
  assumes "well_typed d cols e" "plain_columns cols"
  shows "list_all (\<lambda>x. tight (bracket_unless (is_atomic x) (print_expr d x))) (tp_operands e)"
  using operands_typed [OF assms(1)] printed_tight [OF _ assms(2), of d] by (auto simp: list_all_iff)


section \<open>As a predicate source\<close>

text \<open>\<open>TypedPredicateSource\<close>: a name, and the text of the predicate the seed gives.\<close>

definition typed_source :: "tp_dialect \<Rightarrow> (nat \<Rightarrow> dice) \<Rightarrow> predicate_source" where
  "typed_source d dice_of =
     \<lparr>source_name = ''typed'', boolean_predicate = (\<lambda>t seed. typed_boolean_predicate d t (dice_of seed))\<rparr>"

lemma typed_source_ok: "plain_columns (tab_columns t) \<Longrightarrow> source_ok t (typed_source d dice_of)"
  using build_typed printed_nonblank by (fastforce simp: source_ok_def typed_source_def typed_boolean_predicate_def)

lemma predicate_text:
  assumes "plain_columns (tab_columns t)" "typed_boolean_predicate d t dice = Some txt"
  shows "level txt \<and> nonblank txt"
  using assms build_typed printed_tight printed_nonblank by (fastforce simp: typed_boolean_predicate_def)


section \<open>On sampled tables\<close>

definition plain_pool :: "spec \<Rightarrow> bool" where
  "plain_pool pool \<longleftrightarrow> list_all (\<lambda>p. tight (fst p) \<and> nonblank (fst p)) pool"

lemma shipped_pools_plain: "plain_pool (catalog_type_pool simple_spec)" "plain_pool (catalog_type_pool rich_spec)"
    "plain_pool (catalog_type_pool postgres_rich_spec)"
  by code_simp+

lemma suffixed_plain: "tight p \<Longrightarrow> nonblank p \<Longrightarrow> tight (suffixed p k) \<and> nonblank (suffixed p k)"
proof -
  assume p: "tight p" "nonblank p"
  have "tight ''_''" by code_simp
  from tight_append [OF p(1) tight_append [OF this str_nat_tight [of k]]] p show ?thesis by (simp add: suffixed_def)
qed

lemma sampled_columns_plain:
  assumes "pool_ok pool" "plain_pool pool" "sample_catalog pool nm mn mx rolls = Inr t"
  shows "plain_columns (tab_columns t)"
proof -
  from catalog_keys [OF assms(1,3)] obtain keys where keys: "fst ` set keys \<subseteq> fst ` set pool"
      "column_names t = pk_column # map (case_prod suffixed) keys"
    by blast
  have "tight pk_column \<and> nonblank pk_column" by code_simp
  moreover have "tight (suffixed p k) \<and> nonblank (suffixed p k)" if "(p, k) \<in> set keys" for p k
  proof -
    from that keys(1) have "p \<in> fst ` set pool" by force
    with assms(2) have "tight p \<and> nonblank p" by (auto simp: plain_pool_def list_all_iff)
    then show ?thesis by (simp add: suffixed_plain)
  qed
  ultimately have "list_all (\<lambda>s. tight s \<and> nonblank s) (column_names t)"
    unfolding keys(2) by (auto simp: list_all_iff)
  then show ?thesis by (auto simp: plain_columns_def column_names_def list_all_iff)
qed

end
