(* ===== verification/Coa_Execute.thy ===== *)
theory Coa_Execute
  imports Coa_Contract Coa_Emit_Order
begin

text \<open>
  The database the emitted statements run on.  It knows nothing of trees: a name stands for a table, a
  stored result or the text of a view, and a query reads what the names after its \<open>FROM\<close> stand for at
  that moment.  \<open>exec_step\<close> runs one setup step, \<open>run_query\<close> one query.  \<open>Coa_Realize\<close> shows that the
  statements of a tree leave under its name the rows \<open>den\<close> gives the tree.
\<close>

datatype stored =
    TableObj "string list" "row list"
  | SnapshotObj "string list" "row list"
  | ViewObj nat eqnode

type_synonym database = "string \<Rightarrow> stored option"
type_synonym relation = "string list \<times> row list"
type_synonym reader = "nat list \<Rightarrow> string \<Rightarrow> relation option"


section \<open>Queries\<close>

text \<open>What stands after \<open>FROM\<close> is a name.\<close>

definition source_rows :: "reader \<Rightarrow> nat list \<Rightarrow> eqnode \<Rightarrow> relation option" where
  "source_rows rd path s = Option.bind (ref_sql s) (rd path)"

definition plain_scope :: "string list \<Rightarrow> scope" where
  "plain_scope names = map (Pair []) names"

definition two_sources :: "reader \<Rightarrow> nat list \<Rightarrow> eqnode \<Rightarrow> eqnode \<Rightarrow> (relation \<times> relation) option" where
  "two_sources rd path l r =
     Option.bind (source_rows rd (0 # path) l) (\<lambda>L. Option.bind (source_rows rd (1 # path) r) (\<lambda>R. Some (L, R)))"

definition same_width :: "relation list \<Rightarrow> bool" where
  "same_width rs \<longleftrightarrow> list_all (\<lambda>r. length (fst r) = length (fst (hd rs))) rs"

fun run_query :: "engine \<Rightarrow> reader \<Rightarrow> nat list \<Rightarrow> eqnode \<Rightarrow> relation option" where
  "run_query E rd path (SelectQuery i s projection w is_distinct group_by qualify order_by) =
     Option.bind (source_rows rd (i # path) s) (\<lambda>(names, rows).
     map_option (Pair (case projection of None \<Rightarrow> names | Some items \<Rightarrow> map pi_alias items))
       (select_rows E (plain_scope names) (en_scan E (i # path) rows) projection w is_distinct group_by qualify order_by))"
| "run_query E rd path (UnionAllQuery i bs) =
     Option.bind (those (map (\<lambda>(k, b). source_rows rd (k # i # path) b) (zip [0..<length bs] bs))) (\<lambda>rs.
     if same_width rs
     then Some (case rs of [] \<Rightarrow> [] | r # _ \<Rightarrow> fst r,
                concat (map (\<lambda>(k, r). en_scan E (k # i # path) (snd r)) (zip [0..<length rs] rs)))
     else None)"
| "run_query E rd path (ExceptAllQuery i l r) =
     Option.bind (two_sources rd (i # path) l r) (\<lambda>(L, R).
     if length (fst L) = length (fst R)
     then Some (fst L, except_all E (en_scan E (0 # i # path) (snd L)) (en_scan E (1 # i # path) (snd R))) else None)"
| "run_query E rd path (IntersectAllQuery i l r) =
     Option.bind (two_sources rd (i # path) l r) (\<lambda>(L, R).
     if length (fst L) = length (fst R)
     then Some (fst L, intersect_all E (en_scan E (0 # i # path) (snd L)) (en_scan E (1 # i # path) (snd R))) else None)"
| "run_query E rd path (JoinQuery i l r cond join_type projection la ra w) =
     Option.bind (two_sources rd (i # path) l r) (\<lambda>(L, R).
     map_option (Pair (map pi_alias projection))
       (join_query_rows E (fst L) (fst R) (en_scan E (0 # i # path) (snd L)) (en_scan E (1 # i # path) (snd R))
          cond join_type projection la ra w))"
| "run_query E rd path (CteQuery i s nm w materialize) =
     Option.bind (source_rows rd (i # path) s) (\<lambda>(names, rows).
     map_option (Pair names) (where_rows E (plain_scope names) w (en_scan E (i # path) rows)))"
| "run_query E rd path (LateralReprojectQuery i s sa la) =
     Option.bind (source_rows rd (i # path) s) (\<lambda>(names, rows).
     map_option (\<lambda>ks. (names_of s, map (\<lambda>r. map (\<lambda>k. r ! k) ks) (en_scan E (i # path) rows)))
       (map_opt (resolve (map (Pair sa) names) (Some sa)) (names_of s)))"
| "run_query E rd path n = None"

text \<open>Views read views; \<open>fuel\<close> bounds how many of them are nested.\<close>

fun read_relation :: "engine \<Rightarrow> database \<Rightarrow> nat \<Rightarrow> reader" where
  "read_relation E db 0 path nm = None"
| "read_relation E db (Suc fuel) path nm =
     (case db nm of
        None \<Rightarrow> None
      | Some (TableObj names rows) \<Rightarrow> Some (names, rows)
      | Some (SnapshotObj names rows) \<Rightarrow> Some (names, rows)
      | Some (ViewObj i q) \<Rightarrow> run_query E (read_relation E db fuel) (i # path) q)"


section \<open>Statements\<close>

text \<open>The object number \<open>i\<close> tells one scan from another; a created name must be new.\<close>

definition write_table :: "database \<Rightarrow> string \<Rightarrow> (string list \<Rightarrow> row list \<Rightarrow> row list option) \<Rightarrow> database option" where
  "write_table db target f =
     (case db target of
        Some (TableObj names rows) \<Rightarrow> map_option (\<lambda>rows'. db(target \<mapsto> TableObj names rows')) (f names rows)
      | _ \<Rightarrow> None)"

fun exec_step :: "engine \<Rightarrow> nat \<Rightarrow> nat \<Rightarrow> setup_step \<Rightarrow> database \<Rightarrow> database option" where
  "exec_step E fuel i (TableObject nm k q d) db =
     (case q of
        Some query \<Rightarrow>
          if db nm = None then map_option (\<lambda>(names, rows). db(nm \<mapsto> TableObj names rows)) (run_query E (read_relation E db fuel) [i] query)
          else None
      | None \<Rightarrow> None)"
| "exec_step E fuel i (ViewObject nm k q d) db =
     (case q of
        Some query \<Rightarrow>
          if db nm \<noteq> None then None
          else if k = ''MATERIALIZED VIEW''
          then map_option (\<lambda>(names, rows). db(nm \<mapsto> SnapshotObj names rows)) (run_query E (read_relation E db fuel) [i] query)
          else Some (db(nm \<mapsto> ViewObj i query))
      | None \<Rightarrow> None)"
| "exec_step E fuel i (DeleteStep target p) db =
     write_table db target (\<lambda>names. delete_rows E (plain_scope names) p)"
| "exec_step E fuel i (InsertStep target columns source_ref p column_list query) db =
     write_table db target (\<lambda>names rows.
       case query of
         Some q \<Rightarrow> Option.bind (run_query E (read_relation E db fuel) [i] q) (\<lambda>(ns, new).
           if length ns = length names then Some (rows @ new) else None)
       | None \<Rightarrow>
           if column_list \<noteq> None \<and> column_list \<noteq> Some names \<or> length columns \<noteq> length names then None
           else Option.bind (read_relation E db fuel [i] source_ref) (\<lambda>(ns, new).
                map_option (append rows) (reinsert_rows E columns ns p (en_scan E [i] new))))"
| "exec_step E fuel i (UpdateStep target assignments p) db =
     write_table db target (\<lambda>names. update_rows E names assignments p)"

fun exec_steps :: "engine \<Rightarrow> nat \<Rightarrow> nat \<Rightarrow> setup_step list \<Rightarrow> database \<Rightarrow> database option" where
  "exec_steps E fuel i [] db = Some db"
| "exec_steps E fuel i (s # ss) db = Option.bind (exec_step E fuel i s db) (exec_steps E fuel i ss)"

definition exec_node :: "engine \<Rightarrow> nat \<Rightarrow> eqnode \<Rightarrow> database \<Rightarrow> database option" where
  "exec_node E fuel n = exec_steps E fuel (node_id n) (steps_of n)"

fun exec_nodes :: "engine \<Rightarrow> nat \<Rightarrow> eqnode list \<Rightarrow> database \<Rightarrow> database option" where
  "exec_nodes E fuel [] db = Some db"
| "exec_nodes E fuel (n # ns) db = Option.bind (exec_node E fuel n db) (exec_nodes E fuel ns)"

text \<open>The order of \<open>emit_equivalence\<close> (lemma \<open>emit_visit\<close>), on a database that holds the base table only.\<close>

definition emission_order :: "eqnode \<Rightarrow> eqnode list" where
  "emission_order n = snd (visit n ({}, []))"

definition base_database :: "table \<Rightarrow> row list \<Rightarrow> database" where
  "base_database t B = [get_sql_name t True \<mapsto> TableObj (column_names t) B]"

definition exec_tree :: "engine \<Rightarrow> nat \<Rightarrow> eqnode \<Rightarrow> database \<Rightarrow> database option" where
  "exec_tree E fuel n = exec_nodes E fuel (emission_order n)"

lemma exec_nodes_append:
  "exec_nodes E fuel (xs @ ys) db = Option.bind (exec_nodes E fuel xs db) (exec_nodes E fuel ys)"
proof (induction xs arbitrary: db)
  case (Cons x xs)
  then show ?case by (cases "exec_node E fuel x db") simp_all
qed simp

end
