(* ===== verification/Coa_Realize.thy ===== *)
theory Coa_Realize
  imports Coa_Execute
begin

text \<open>
  Executing the statements of a tree, node by node in the order of the emitter, leaves a database in which
  the name of the root reads as the rows \<open>den\<close> gives the root.  The tree must be one in which names tell objects
  apart and a table that is written to is read by nobody else (\<open>tree_ok\<close>).
\<close>


section \<open>Well-built trees\<close>

text \<open>Nodes that write into the table of their child.\<close>

fun writes_child :: "eqnode \<Rightarrow> bool" where
  "writes_child (TagPruneDeleteTable i c items tag keep st e) = True"
| "writes_child (InsertExtrasExpansion i c st e) = True"
| "writes_child n = False"

text \<open>The nodes that share one object, from the last that inserts to the one that creates it.\<close>

fun chain :: "eqnode \<Rightarrow> eqnode list" where
  "chain (InsertExtrasExpansion i c st e) = InsertExtrasExpansion i c st e # chain c"
| "chain n = [n]"

definition owner :: "eqnode \<Rightarrow> eqnode" where
  "owner n = last (chain n)"

text \<open>Queries read sources, relations are made of queries or of relations, all leaves are the base table.\<close>

fun node_fits :: "table \<Rightarrow> eqnode \<Rightarrow> bool" where
  "node_fits t (BaseTableSource i t') = (t' = t)"
| "node_fits t (CreateFromQuery i c q st e) = is_query q"
| "node_fits t (DeleteReinsertTable i q t' p st e) = (is_query q \<and> t' = t)"
| "node_fits t (NoopUpdateTable i q a p st e) = is_query q"
| "node_fits t (TagPruneDeleteTable i c items tag keep st e) = is_relation c"
| "node_fits t (InsertExtrasExpansion i c st e) = is_relation c"
| "node_fits t n = list_all is_source (children n)"

definition names_apart :: "table \<Rightarrow> eqnode set \<Rightarrow> bool" where
  "names_apart t N \<longleftrightarrow>
     (\<forall>n \<in> N. is_relation n \<longrightarrow> materialized_name n \<noteq> Some (get_sql_name t True)) \<and>
     (\<forall>m \<in> N. \<forall>n \<in> N. is_relation m \<longrightarrow> is_relation n \<longrightarrow> materialized_name m = materialized_name n \<longrightarrow> owner m = owner n)"

definition written_once :: "eqnode set \<Rightarrow> bool" where
  "written_once N \<longleftrightarrow> (\<forall>w \<in> N. \<forall>c \<in> set (children w). writes_child w \<longrightarrow> (\<forall>p \<in> N. c \<in> set (children p) \<longrightarrow> p = w))"

definition tree_ok :: "table \<Rightarrow> eqnode \<Rightarrow> bool" where
  "tree_ok t n \<longleftrightarrow>
     well_formed n \<and> same_identity n \<and> (\<forall>m \<in> nodes n. node_fits t m) \<and> names_apart t (nodes n) \<and> written_once (nodes n)"

lemma chain_nodes: "m \<in> set (chain n) \<Longrightarrow> m \<in> nodes n"
proof (induction n rule: chain.induct)
  case (1 i c st e)
  then show ?case
    using nodes_trans [OF nodes_child [of c "InsertExtrasExpansion i c st e"]] by auto
qed auto

lemma chain_self [simp]: "n \<in> set (chain n)" "chain n \<noteq> []"
  by (cases n; simp)+

lemma owner_chain: "owner n \<in> set (chain n)"
  by (simp add: owner_def)

lemma chain_parent:
  "m \<in> set (chain n) \<Longrightarrow> m = n \<or> (\<exists>x \<in> set (chain n). m \<in> set (children x) \<and> (\<exists>i st e. x = InsertExtrasExpansion i m st e))"
  by (induction n rule: chain.induct) auto

lemma chain_trans: "m \<in> set (chain n) \<Longrightarrow> set (chain m) \<subseteq> set (chain n)"
  by (induction n rule: chain.induct) auto

lemma owner_extras [simp]: "owner (InsertExtrasExpansion i c st e) = owner c"
  by (simp add: owner_def)

lemma owner_self: "chain n = [n] \<Longrightarrow> owner n = n"
  by (simp add: owner_def)

lemma written_onceD:
  "written_once N \<Longrightarrow> w \<in> N \<Longrightarrow> writes_child w \<Longrightarrow> c \<in> set (children w) \<Longrightarrow> p \<in> N \<Longrightarrow> c \<in> set (children p) \<Longrightarrow> p = w"
  unfolding written_once_def by blast

text \<open>Two nodes of one object stand on one chain.\<close>

lemma same_owner:
  assumes "written_once N" "set (chain m) \<subseteq> N" "set (chain n) \<subseteq> N" "owner m = owner n"
  shows "m \<in> set (chain n) \<or> n \<in> set (chain m)"
  using assms(2-4)
proof (induction m rule: chain.induct)
  case (1 i c st e)
  let ?m = "InsertExtrasExpansion i c st e"
  from 1 have "c \<in> set (chain n) \<or> n \<in> set (chain c)" by simp
  then show ?case
  proof
    assume "c \<in> set (chain n)"
    from chain_parent [OF this] show ?thesis
    proof
      assume "c = n"
      then show ?thesis by simp
    next
      assume "\<exists>x \<in> set (chain n). c \<in> set (children x) \<and> (\<exists>i st e. x = InsertExtrasExpansion i c st e)"
      then obtain x where x: "x \<in> set (chain n)" "c \<in> set (children x)" "writes_child x" by auto
      moreover have "?m \<in> N" using "1.prems"(1) by simp
      moreover have "x \<in> N" using x(1) "1.prems"(2) by blast
      ultimately have "?m = x" by (intro written_onceD [OF assms(1)]) simp_all
      with x(1) show ?thesis by simp
    qed
  qed simp
qed (use owner_chain [of n] in \<open>simp_all add: owner_self\<close>)


section \<open>One query\<close>

lemma scope_names: "plain_scope (names_of n) = scope_of n"
  by (simp add: plain_scope_def scope_of_def)

lemma zip_upt_map: "zip [0..<length xs] (map g (zip [0..<length xs] xs)) = map (\<lambda>(k, x). (k, g (k, x))) (zip [0..<length xs] xs)"
  by (rule nth_equalityI) auto

lemma union_den:
  assumes "\<And>c p rows. c \<in> set bs \<Longrightarrow> den E B p c = Some rows \<Longrightarrow> source_rows rd p c = Some (names_of c, rows)"
    and "den E B p (UnionAllQuery i bs) = Some rows"
  shows "run_query E rd p (UnionAllQuery i bs) = Some (names_of (UnionAllQuery i bs), rows)"
proof -
  let ?zs = "zip [0..<length bs] bs"
  let ?g = "\<lambda>(k, b). (names_of b, the (den E B (k # i # p) b))"
  let ?scan = "\<lambda>(k, b). en_scan E (k # i # p) (the (den E B (k # i # p) b))"
  from assms(2) have width: "list_all (\<lambda>b. length (names_of b) = length (names_of (hd bs))) bs"
    and out: "map_option concat (map_opt (\<lambda>(k, b). map_option (en_scan E (k # i # p)) (den E B (k # i # p) b)) ?zs) = Some rows"
    by (auto simp: those_map_opt split: if_splits)
  have made: "\<exists>r. den E B (k # i # p) b = Some r" if "(k, b) \<in> set ?zs" for k b
  proof -
    from out obtain ys where ys: "list_all2 (\<lambda>x y. (\<lambda>(k, b). map_option (en_scan E (k # i # p)) (den E B (k # i # p) b)) x = Some y) ?zs ys"
      by (auto simp: map_opt_Some)
    from that obtain j where j: "j < length ?zs" "?zs ! j = (k, b)" by (metis in_set_conv_nth)
    from list_all2_nthD [OF ys j(1)] j(2) show ?thesis by (cases "den E B (k # i # p) b") auto
  qed
  have "map_opt (\<lambda>(k, b). source_rows rd (k # i # p) b) ?zs = Some (map ?g ?zs)"
  proof (rule map_opt_total)
    fix x
    assume x: "x \<in> set ?zs"
    obtain k b where kb: "x = (k, b)" by (cases x)
    from made x kb obtain r where "den E B (k # i # p) b = Some r" by blast
    with assms(1) [of b "k # i # p" r] x kb show "(case x of (k, b) \<Rightarrow> source_rows rd (k # i # p) b) = Some (?g x)"
      by (auto dest: set_zip_rightD)
  qed
  moreover have "rows = concat (map ?scan ?zs)"
  proof -
    have "map_opt (\<lambda>(k, b). map_option (en_scan E (k # i # p)) (den E B (k # i # p) b)) ?zs = Some (map ?scan ?zs)"
    proof (rule map_opt_total)
      fix x
      assume "x \<in> set ?zs"
      with made show "(case x of (k, b) \<Rightarrow> map_option (en_scan E (k # i # p)) (den E B (k # i # p) b)) = Some (?scan x)"
        by (cases x) force
    qed
    with out show ?thesis by simp
  qed
  moreover have "map (\<lambda>(k, r). en_scan E (k # i # p) (snd r)) (zip [0..<length bs] (map ?g ?zs)) = map ?scan ?zs"
    unfolding zip_upt_map by (simp add: case_prod_beta)
  moreover have "same_width (map ?g ?zs)"
    using width by (cases bs) (auto simp: same_width_def list_all_iff upt_rec [of 0] dest: set_zip_rightD)
  moreover have "(case map ?g ?zs of [] \<Rightarrow> [] | r # _ \<Rightarrow> fst r) = names_of (UnionAllQuery i bs)"
    by (cases bs) (simp_all add: names_of_def upt_rec [of 0])
  ultimately show ?thesis by (simp add: those_map_opt)
qed

lemma run_query_den:
  assumes "is_query q" "\<And>c p rows. c \<in> set (children q) \<Longrightarrow> den E B p c = Some rows \<Longrightarrow> source_rows rd p c = Some (names_of c, rows)"
    and "den E B p q = Some rows"
  shows "run_query E rd p q = Some (names_of q, rows)"
proof (cases q)
  case (UnionAllQuery i bs)
  with assms union_den [of bs E B rd p i rows] show ?thesis by simp
next
  case (SelectQuery i s projection w d g qf ob)
  with assms(3) obtain R where R: "den E B (i # p) s = Some R"
    "select_rows E (scope_of s) (en_scan E (i # p) R) projection w d g qf ob = Some rows"
    by (auto simp: bind_eq_Some_conv)
  moreover have "names_of q = (case projection of None \<Rightarrow> names_of s | Some items \<Rightarrow> map pi_alias items)"
    by (simp add: SelectQuery names_of_def split: option.split)
  ultimately show ?thesis using assms(2) [of s "i # p" R] by (simp add: SelectQuery scope_names)
next
  case (ExceptAllQuery i l r)
  with assms(3) obtain L R where "den E B (0 # i # p) l = Some L" "den E B (1 # i # p) r = Some R"
    by (auto simp: bind_eq_Some_conv split: if_splits)
  with assms(3) assms(2) [of l "0 # i # p" L] assms(2) [of r "1 # i # p" R] ExceptAllQuery show ?thesis
    by (auto simp: two_sources_def names_of_def split: if_splits)
next
  case (IntersectAllQuery i l r)
  with assms(3) obtain L R where "den E B (0 # i # p) l = Some L" "den E B (1 # i # p) r = Some R"
    by (auto simp: bind_eq_Some_conv split: if_splits)
  with assms(3) assms(2) [of l "0 # i # p" L] assms(2) [of r "1 # i # p" R] IntersectAllQuery show ?thesis
    by (auto simp: two_sources_def names_of_def split: if_splits)
next
  case (JoinQuery i l r cond jt projection la ra w)
  with assms(3) obtain L R where "den E B (0 # i # p) l = Some L" "den E B (1 # i # p) r = Some R"
    by (auto simp: bind_eq_Some_conv)
  with assms(3) assms(2) [of l "0 # i # p" L] assms(2) [of r "1 # i # p" R] JoinQuery show ?thesis
    by (simp add: two_sources_def names_of_def)
next
  case (CteQuery i s nm w m)
  with assms(3) obtain R where "den E B (i # p) s = Some R" by (auto simp: bind_eq_Some_conv)
  moreover have "names_of q = names_of s" by (simp add: CteQuery names_of_def)
  ultimately show ?thesis using assms(3) assms(2) [of s "i # p" R] by (simp add: CteQuery scope_names)
next
  case (LateralReprojectQuery i s sa la)
  with assms(3) obtain R where "den E B (i # p) s = Some R" by (auto simp: bind_eq_Some_conv)
  moreover have "names_of q = names_of s" by (simp add: LateralReprojectQuery names_of_def)
  ultimately show ?thesis using assms(3) assms(2) [of s "i # p" R] by (auto simp: LateralReprojectQuery bind_eq_Some_conv)
qed (use assms(1) in simp_all)


section \<open>What the database holds\<close>

text \<open>What a node has left in the database, as long as nobody writes into its table.\<close>

fun entry_ok :: "engine \<Rightarrow> row list \<Rightarrow> database \<Rightarrow> eqnode \<Rightarrow> bool" where
  "entry_ok E B db (BaseTableSource i t) \<longleftrightarrow> db (get_sql_name t True) = Some (TableObj (column_names t) B)"
| "entry_ok E B db (CreateFromQuery i c q st e) \<longleftrightarrow>
     (\<exists>nm. object_name e = Some nm \<and>
        (if table_class c then \<exists>rows. den E B [i] q = Some rows \<and> db nm = Some (TableObj (names_of q) rows)
         else if stored_class c then \<exists>rows. den E B [i] q = Some rows \<and> db nm = Some (SnapshotObj (names_of q) rows)
         else db nm = Some (ViewObj i q)))"
| "entry_ok E B db (TagPruneDeleteTable i c items tag keep st e) \<longleftrightarrow>
     (\<exists>nm target j rows kept. object_name e = Some nm \<and> materialized_name c = Some target \<and> writable c \<and>
        (\<forall>path. reader_path st path = j # path) \<and> den E B [] c = Some rows \<and>
        delete_rows E (scope_of c) (Some (ne (col tag IntegerType) (int_lit keep))) rows = Some kept \<and>
        db nm = Some (ViewObj i (plain_select j c (Some items) None)) \<and> db target = Some (TableObj (names_of c) kept))"
| "entry_ok E B db n \<longleftrightarrow>
     is_query n \<or> (\<exists>nm rows. materialized_name n = Some nm \<and> den E B [] n = Some rows \<and> db nm = Some (TableObj (names_of n) rows))"

definition live :: "eqnode list \<Rightarrow> eqnode \<Rightarrow> bool" where
  "live ys n \<longleftrightarrow> (\<forall>w \<in> set ys. writes_child w \<longrightarrow> n \<notin> set (children w))"

definition holds :: "engine \<Rightarrow> row list \<Rightarrow> table \<Rightarrow> eqnode list \<Rightarrow> database \<Rightarrow> bool" where
  "holds E B t ys db \<longleftrightarrow>
     db (get_sql_name t True) = Some (TableObj (column_names t) B) \<and>
     (\<forall>nm. db nm \<noteq> None \<longrightarrow> nm = get_sql_name t True \<or> (\<exists>n \<in> set ys. is_relation n \<and> materialized_name n = Some nm)) \<and>
     (\<forall>n \<in> set ys. live ys n \<longrightarrow> entry_ok E B db n)"

lemma entry_keep: "entry_ok E B db n \<Longrightarrow> (\<And>nm. db nm \<noteq> None \<Longrightarrow> db' nm = db nm) \<Longrightarrow> entry_ok E B db' n"
  by (cases n) (auto split: if_splits)

lemma tree_parts:
  assumes "tree_ok t r"
  shows "well_formed r" "\<And>n. n \<in> nodes r \<Longrightarrow> node_fits t n" "names_apart t (nodes r)" "written_once (nodes r)"
  using assms by (simp_all add: tree_ok_def)

lemma names_apartD:
  assumes "names_apart t N"
  shows "n \<in> N \<Longrightarrow> is_relation n \<Longrightarrow> materialized_name n = Some nm \<Longrightarrow> nm \<noteq> get_sql_name t True"
    and "m \<in> N \<Longrightarrow> n \<in> N \<Longrightarrow> is_relation m \<Longrightarrow> is_relation n \<Longrightarrow> materialized_name m = materialized_name n \<Longrightarrow> owner m = owner n"
proof -
  show "nm \<noteq> get_sql_name t True" if "n \<in> N" "is_relation n" "materialized_name n = Some nm"
    using assms [unfolded names_apart_def, THEN conjunct1, rule_format, OF that(1,2)] that(3) by simp
qed (rule assms [unfolded names_apart_def, THEN conjunct2, rule_format])

lemma well_formed_nodes: "well_formed r \<Longrightarrow> n \<in> nodes r \<Longrightarrow> shaped n"
proof (induction r arbitrary: n rule: nodes.induct)
  case (1 r)
  then show ?case unfolding nodes.simps [of r] well_formed.simps [of r] by blast
qed

lemma live_child:
  assumes "written_once N" "set ys \<subseteq> N" "q \<in> N" "\<not> writes_child q" "c \<in> set (children q)"
  shows "live ys c"
  unfolding live_def
proof (intro ballI impI notI)
  fix w
  assume "w \<in> set ys" "writes_child w" "c \<in> set (children w)"
  with assms written_onceD [OF assms(1), of w c q] show False by auto
qed

text \<open>Reading the name of a node.\<close>

lemma names_create: "names_of (CreateFromQuery i c q st e) = names_of q"
  by (simp add: names_of_def)

lemma read_entry:
  assumes "tree_ok t r" "set ys \<subseteq> nodes r" "children_first ys" "holds E B t ys db"
  shows "n \<in> set ys \<Longrightarrow> live ys n \<Longrightarrow> is_source n \<Longrightarrow> height n \<le> k \<Longrightarrow> den E B p n = Some rows \<Longrightarrow>
    Option.bind (ref_sql n) (read_relation E db k p) = Some (names_of n, rows)"
proof (induction n arbitrary: k p rows rule: measure_induct_rule [where f = size])
  case (less n)
  note entry = assms(4) [unfolded holds_def, THEN conjunct2, THEN conjunct2, rule_format, OF less.prems(1,2)]
  have fits: "node_fits t n" and shape: "shaped n"
    using tree_parts(1,2) [OF assms(1)] well_formed_nodes less.prems(1) assms(2) by blast+
  from less.prems(4) height_positive [of n] obtain k' where k: "k = Suc k'" by (cases k) auto
  show ?case
  proof (cases n)
    case (BaseTableSource i t')
    with entry less.prems(5) k show ?thesis by (simp add: ref_sql_def names_of_def)
  next
    case (CreateFromQuery i c q st e)
    from entry CreateFromQuery obtain nm where nm: "object_name e = Some nm" by auto
    then have ref: "ref_sql n = Some nm" by (simp add: CreateFromQuery ref_sql_def materialized_name_def)
    show ?thesis
    proof (cases "stored_class c")
      case True
      with entry less.prems(5) nm ref k CreateFromQuery show ?thesis by (auto simp: names_create split: if_splits)
    next
      case False
      then have plain: "\<not> table_class c" by (auto simp: table_class_def stored_class_def)
      have q: "q \<in> set ys" "is_query q" using less.prems(1) children_first_closed [OF assms(3)] nodes_child [of q n] fits
        by (auto simp: CreateFromQuery)
      have "run_query E (read_relation E db k') (i # p) q = Some (names_of q, rows)"
      proof (rule run_query_den [OF q(2)])
        show "den E B (i # p) q = Some rows" using less.prems(5) False by (simp add: CreateFromQuery)
      next
        fix c p rows
        assume c: "c \<in> set (children q)" and den: "den E B p c = Some rows"
        have "c \<in> set ys" using children_first_closed [OF assms(3) q(1)] nodes_child [OF c] by blast
        moreover have "live ys c"
          using live_child [OF tree_parts(4) [OF assms(1)] assms(2) _ _ c] q assms(2) by (cases q) auto
        moreover have "is_source c"
          using tree_parts(2) [OF assms(1), of q] q assms(2) c by (cases q) (auto simp: list_all_iff)
        moreover have "size c < size n" using children_size [OF c] by (simp add: CreateFromQuery)
        moreover have "height c \<le> k'" using height_child [OF c] height_child [of q n] less.prems(4) k by (simp add: CreateFromQuery)
        ultimately show "source_rows (read_relation E db k') p c = Some (names_of c, rows)"
          unfolding source_rows_def using less.IH den by blast
      qed
      with entry nm ref k False plain show ?thesis by (simp add: CreateFromQuery names_create)
    qed
  next
    case (TagPruneDeleteTable i c items tag keep st e)
    with entry obtain nm target j rows0 kept where t: "object_name e = Some nm" "materialized_name c = Some target" "writable c"
      "\<forall>path. reader_path st path = j # path" "den E B [] c = Some rows0"
      "delete_rows E (scope_of c) (Some (ne (col tag IntegerType) (int_lit keep))) rows0 = Some kept"
      "db nm = Some (ViewObj i (plain_select j c (Some items) None))" "db target = Some (TableObj (names_of c) kept)"
      by auto
    have den: "project_rows E (scope_of c) items (en_scan E (j # i # p) kept) = Some rows"
      using less.prems(5) writable_once [OF t(3), of E B "i # p" "[]"] t by (simp add: TagPruneDeleteTable)
    have "height c < height n" by (rule height_child) (simp add: TagPruneDeleteTable)
    with height_positive [of c] less.prems(4) k have "1 \<le> k'" by linarith
    then obtain k'' where "k' = Suc k''" by (cases k') auto
    moreover have "ref_sql c = Some target" using t(2,3) by (cases c) (simp_all add: ref_sql_def materialized_name_def)
    ultimately have "source_rows (read_relation E db k') (j # i # p) c = Some (names_of c, kept)"
      using t(8) by (simp add: source_rows_def)
    then have "run_query E (read_relation E db k') (i # p) (plain_select j c (Some items) None) = Some (map pi_alias items, rows)"
      using den by (simp add: select_rows_def where_rows_def qualify_rows_def scope_names)
    moreover have "names_of n = map pi_alias items" by (simp add: TagPruneDeleteTable names_of_def)
    ultimately show ?thesis using t k by (simp add: TagPruneDeleteTable ref_sql_def materialized_name_def)
  next
    case (DeleteReinsertTable i q t' w st e)
    with entry less.prems(5) k show ?thesis by (auto simp: ref_sql_def)
  next
    case (NoopUpdateTable i q a w st e)
    with entry less.prems(5) k show ?thesis by (auto simp: ref_sql_def)
  next
    case (InsertExtrasExpansion i c st e)
    with entry less.prems(5) k show ?thesis by (auto simp: ref_sql_def)
  qed (use less.prems(3) in \<open>simp_all add: is_source_def\<close>)
qed


section \<open>One node more\<close>

lemma run_live:
  assumes "tree_ok t r" "set ys \<subseteq> nodes r" "children_first ys" "holds E B t ys db"
    and "is_query q" "\<And>c. c \<in> set (children q) \<Longrightarrow> c \<in> set ys \<and> live ys c \<and> is_source c \<and> height c \<le> k"
    and "den E B p q = Some rows"
  shows "run_query E (read_relation E db k) p q = Some (names_of q, rows)"
proof (rule run_query_den [OF assms(5) _ assms(7)])
  fix c p rows
  assume "c \<in> set (children q)" "den E B p c = Some rows"
  with assms(6) [of c] show "source_rows (read_relation E db k) p c = Some (names_of c, rows)"
    unfolding source_rows_def by (intro read_entry [OF assms(1-4)]) simp_all
qed

lemma node_height: "c \<in> nodes r \<Longrightarrow> height c \<le> height r"
proof (induction r rule: nodes.induct)
  case (1 r)
  from "1.prems" consider "c = r" | d where "d \<in> set (children r)" "c \<in> nodes d" unfolding nodes.simps [of r] by blast
  then show ?case
  proof cases
    case 2
    with "1.IH" height_child [OF 2(1)] show ?thesis by fastforce
  qed simp
qed

lemma node_size: "c \<in> nodes r \<Longrightarrow> size c \<le> size r"
proof (induction r rule: nodes.induct)
  case (1 r)
  from "1.prems" consider "c = r" | d where "d \<in> set (children r)" "c \<in> nodes d" unfolding nodes.simps [of r] by blast
  then show ?case
  proof cases
    case 2
    with "1.IH" children_size [OF 2(1)] show ?thesis by fastforce
  qed simp
qed

text \<open>A query of the tree can run when the nodes below it are there.\<close>

lemma tree_query:
  assumes "tree_ok t r" "set ys \<subseteq> nodes r" "children_first ys" "q \<in> set ys" "is_query q" "height r \<le> k" "c \<in> set (children q)"
  shows "c \<in> set ys \<and> live ys c \<and> is_source c \<and> height c \<le> k"
proof (intro conjI)
  show c: "c \<in> set ys" using children_first_closed [OF assms(3,4)] nodes_child [OF assms(7)] by blast
  show "live ys c"
    using live_child [OF tree_parts(4) [OF assms(1)] assms(2) _ _ assms(7)] assms(2,4,5) by (cases q) auto
  show "is_source c" using tree_parts(2) [OF assms(1), of q] assms(2,4,5,7) by (cases q) (auto simp: list_all_iff)
  show "height c \<le> k" using node_height [of c r] c assms(2,6) by fastforce
qed

lemma live_snoc: "live (ys @ [m]) n \<longleftrightarrow> live ys n \<and> (writes_child m \<longrightarrow> n \<notin> set (children m))"
  by (auto simp: live_def)

text \<open>A node that makes an object of its own takes a name nobody has.\<close>

lemma fresh_name:
  assumes "tree_ok t r" "set ys \<subseteq> nodes r" "children_first ys" "holds E B t ys db"
    and "m \<in> nodes r" "m \<notin> set ys" "is_relation m" "chain m = [m]" "materialized_name m = Some nm"
  shows "db nm = None"
proof (rule ccontr)
  assume "db nm \<noteq> None"
  moreover have "nm \<noteq> get_sql_name t True" by (rule names_apartD(1) [OF tree_parts(3) [OF assms(1)] assms(5,7,9)])
  ultimately obtain n where n: "n \<in> set ys" "is_relation n" "materialized_name n = Some nm"
    using assms(4) unfolding holds_def by blast
  then have "owner m = owner n"
    using names_apartD(2) [OF tree_parts(3) [OF assms(1)] assms(5) _ assms(7), of n] assms(2,9) by auto
  then have "m \<in> nodes n" using owner_self [OF assms(8)] chain_nodes [OF owner_chain [of n]] by simp
  with children_first_closed [OF assms(3) n(1)] assms(6) show False by blast
qed

lemma holds_create:
  assumes "holds E B t ys db" "db nm = None" "is_relation m" "\<not> writes_child m" "materialized_name m = Some nm"
    and "entry_ok E B (db(nm \<mapsto> x)) m"
  shows "holds E B t (ys @ [m]) (db(nm \<mapsto> x))"
proof -
  have "entry_ok E B (db(nm \<mapsto> x)) n" if "entry_ok E B db n" for n
    by (rule entry_keep [OF that]) (use assms(2) in auto)
  with assms show ?thesis by (auto simp: holds_def live_snoc)
qed

text \<open>The names an entry looks at.\<close>

fun entry_nodes :: "eqnode \<Rightarrow> eqnode list" where
  "entry_nodes (TagPruneDeleteTable i c items tag keep st e) = [TagPruneDeleteTable i c items tag keep st e, c]"
| "entry_nodes n = [n]"

lemma entry_uses:
  assumes "entry_ok E B db n" "\<And>u nm. u \<in> set (entry_nodes n) \<Longrightarrow> is_source u \<Longrightarrow> ref_sql u = Some nm \<Longrightarrow> db' nm = db nm"
  shows "entry_ok E B db' n"
proof (cases n)
  case (TagPruneDeleteTable i c items tag keep st e)
  with assms(1) obtain nm target where "object_name e = Some nm" "materialized_name c = Some target" "writable c" by auto
  moreover from this have "ref_sql c = Some target" "is_source c" by (cases c; simp add: ref_sql_def is_source_def materialized_name_def)+
  ultimately show ?thesis
    using assms(1) assms(2) [of n nm] assms(2) [of c target]
    by (simp add: TagPruneDeleteTable ref_sql_def is_source_def materialized_name_def)
qed (use assms(1) assms(2) [of n] in \<open>auto simp: ref_sql_def is_source_def materialized_name_def split: if_splits\<close>)

text \<open>A writer is the only reader of what it writes.\<close>

lemma entry_apart:
  assumes "tree_ok t r" "set ys \<subseteq> nodes r" "children_first ys" "m \<in> nodes r" "m \<notin> set ys" "writes_child m"
    and "c \<in> set (children m)" "c \<in> set ys" "n \<in> set ys" "live (ys @ [m]) n" "u \<in> set (entry_nodes n)" "entry_ok E B db n"
  shows "owner u \<noteq> owner c"
proof
  assume same: "owner u = owner c"
  note once = tree_parts(4) [OF assms(1)]
  have only: "p = w" if "w \<in> set (ys @ [m])" "writes_child w" "d \<in> set (children w)" "p \<in> set (ys @ [m])" "d \<in> set (children p)" for w d p
    using written_onceD [OF once, of w d p] that assms(2,4) by auto
  have below: "set (chain x) \<subseteq> set ys" if "x \<in> set ys" for x
    using chain_nodes [of _ x] children_first_closed [OF assms(3) that] by blast
  have n: "x \<notin> set (ys @ [m]) \<or> \<not> writes_child x \<or> n \<notin> set (children x)" for x
    using assms(10) by (auto simp: live_def)
  have u: "u = n \<or> u \<in> set (children n) \<and> writes_child n \<and> chain n = [n] \<and> \<not> (\<exists>i c st e. n = InsertExtrasExpansion i c st e)"
    using assms(11) by (cases n) auto
  then have uys: "u \<in> set ys" using assms(9) children_first_closed [OF assms(3,9)] nodes_child [of u n] by auto
  have mw: "m \<in> set (ys @ [m])" by simp
  from same_owner [OF once _ _ same] below [OF uys] below [OF assms(8)] assms(2)
  have "u \<in> set (chain c) \<or> c \<in> set (chain u)" by blast
  then consider "u = c" | x i st e where "x \<in> set (chain c)" "x = InsertExtrasExpansion i u st e"
    | x i st e where "x \<in> set (chain u)" "x = InsertExtrasExpansion i c st e"
    using chain_parent by metis
  then show False
  proof cases
    case 1
    with u n [of m] only [OF _ _ _ mw assms(7)] assms(5-7,9) show False by auto
  next
    case 2
    then have x: "x \<in> set ys" "writes_child x" "u \<in> set (children x)" using below [OF assms(8)] by auto
    from u show False
    proof
      assume "u = n"
      with n [of x] x show False by simp
    next
      assume tag: "u \<in> set (children n) \<and> writes_child n \<and> chain n = [n] \<and> \<not> (\<exists>i c st e. n = InsertExtrasExpansion i c st e)"
      then have "x = n" using only [of n u x] x assms(9) by simp
      with tag 2(2) show False by blast
    qed
  next
    case 3
    then have x: "x \<in> set ys" "c \<in> set (children x)" using below [OF uys] by auto
    then have "x = m" using only [OF mw assms(6,7), of x] by simp
    with x(1) assms(5) show False by simp
  qed
qed

lemma entry_defined:
  assumes "entry_ok E B db n" "u \<in> set (entry_nodes n)" "is_source u" "ref_sql u = Some nm"
  shows "db nm \<noteq> None"
proof (cases n)
  case (TagPruneDeleteTable i c items tag keep st e)
  with assms(1) obtain nm0 target where "object_name e = Some nm0" "materialized_name c = Some target" "writable c"
    "db nm0 \<noteq> None" "db target \<noteq> None" by auto
  moreover from this have "ref_sql c = Some target" by (cases c; simp add: ref_sql_def materialized_name_def)
  ultimately show ?thesis using assms(2,4) by (auto simp: TagPruneDeleteTable ref_sql_def materialized_name_def)
qed (use assms in \<open>auto simp: ref_sql_def is_source_def materialized_name_def split: if_splits\<close>)

lemma source_ref: "is_relation c \<Longrightarrow> ref_sql c = materialized_name c" "is_relation c \<Longrightarrow> is_source c"
  by (cases c; simp add: ref_sql_def is_source_def)+

lemma holds_write:
  assumes "tree_ok t r" "set ys \<subseteq> nodes r" "children_first ys" "holds E B t ys db" "m \<in> nodes r" "m \<notin> set ys"
    and "writes_child m" "children m = [c]" "c \<in> set ys" "is_relation c" "is_relation m"
    and "materialized_name c = Some target"
    and "\<And>nm. db nm \<noteq> None \<Longrightarrow> nm \<noteq> target \<Longrightarrow> db' nm = db nm"
    and "\<And>nm. db' nm \<noteq> None \<Longrightarrow> db nm \<noteq> None \<or> materialized_name m = Some nm"
    and "entry_ok E B db' m"
  shows "holds E B t (ys @ [m]) db'"
proof -
  note apart = names_apartD [OF tree_parts(3) [OF assms(1)]]
  have c: "c \<in> nodes r" using assms(2,9) by blast
  have keep: "entry_ok E B db' n" if n: "n \<in> set ys" "live (ys @ [m]) n" for n
  proof -
    from n(2) have "live ys n" by (simp add: live_snoc)
    with n(1) assms(4) have entry: "entry_ok E B db n" by (simp add: holds_def)
    have "db' nm = db nm" if u: "u \<in> set (entry_nodes n)" "is_source u" "ref_sql u = Some nm" for u nm
    proof (rule assms(13) [OF entry_defined [OF entry u]])
      have "owner u \<noteq> owner c"
        by (rule entry_apart [OF assms(1-3,5-7) _ assms(9) n u(1) entry]) (simp add: assms(8))
      have "u \<in> nodes n" using u(1) nodes_child [of u n] by (cases n) auto
      then have un: "u \<in> nodes r" using nodes_trans n(1) assms(2) by blast
      show "nm \<noteq> target"
      proof (cases "is_relation u")
        case True
        with u(3) have "materialized_name u = Some nm" by (simp add: source_ref)
        with apart(2) [OF un c True assms(10)] assms(12) \<open>owner u \<noteq> owner c\<close> show ?thesis by auto
      next
        case False
        with u(2) obtain i t' where "u = BaseTableSource i t'" by (cases u) (auto simp: is_source_def)
        moreover from this have "t' = t" using tree_parts(2) [OF assms(1) un] by simp
        ultimately have "nm = get_sql_name t True" using u(3) by (simp add: ref_sql_def)
        with apart(1) [OF c assms(10,12)] show ?thesis by simp
      qed
    qed
    then show ?thesis by (rule entry_uses [OF entry])
  qed
  have base: "get_sql_name t True \<noteq> target" using apart(1) [OF c assms(10,12)] by simp
  show ?thesis unfolding holds_def
  proof (intro conjI allI impI ballI)
    show "db' (get_sql_name t True) = Some (TableObj (column_names t) B)"
      using assms(4) assms(13) [OF _ base] by (simp add: holds_def)
  next
    fix nm
    assume "db' nm \<noteq> None"
    with assms(14) consider "db nm \<noteq> None" | "materialized_name m = Some nm" by blast
    then show "nm = get_sql_name t True \<or> (\<exists>n \<in> set (ys @ [m]). is_relation n \<and> materialized_name n = Some nm)"
      using assms(4,11) by cases (auto simp: holds_def)
  next
    fix n
    assume "n \<in> set (ys @ [m])" "live (ys @ [m]) n"
    then show "entry_ok E B db' n" using keep assms(15) by auto
  qed
qed

text \<open>Tables.\<close>

lemma table_read:
  assumes "holds E B t ys db" "c \<in> set ys" "live ys c" "writable c"
  shows "\<exists>nm rows. materialized_name c = Some nm \<and> den E B p c = Some rows \<and> db nm = Some (TableObj (names_of c) rows)"
proof -
  have entry: "entry_ok E B db c" using assms(1-3) by (simp add: holds_def)
  have "\<exists>nm rows. materialized_name c = Some nm \<and> den E B [] c = Some rows \<and> db nm = Some (TableObj (names_of c) rows)"
  proof (cases c)
    case (CreateFromQuery i k q st e)
    with entry assms(4) show ?thesis by (auto simp: names_create materialized_name_def table_class_def stored_class_def)
  qed (use entry assms(4) in simp_all)
  then show ?thesis using writable_once [OF assms(4), of E B p "[]"] by metis
qed

section \<open>Executing a node\<close>

lemma created_step:
  "created_object nm (create_keyword c) q =
     (if table_class c then TableObject nm (create_keyword c) (Some q) '''' else ViewObject nm (create_keyword c) (Some q) '''')"
  by (cases c) (simp_all add: created_object_def table_class_def)

lemma materialized_keyword: "create_keyword c = ''MATERIALIZED VIEW'' \<longleftrightarrow> stored_class c \<and> \<not> table_class c"
  by (cases c) (simp_all add: stored_class_def table_class_def)

lemma exec_create:
  assumes "tree_ok t r" "set ys \<subseteq> nodes r" "children_first ys" "holds E B t ys db" "height r \<le> fuel"
    and m: "m = CreateFromQuery i c q st e" "m \<in> nodes r" "m \<notin> set ys" "q \<in> set ys"
    and "den E B p m = Some rows"
  shows "\<exists>db'. exec_node E fuel m db = Some db' \<and> holds E B t (ys @ [m]) db'"
proof -
  have "shaped m" using well_formed_nodes [OF tree_parts(1) [OF assms(1)] m(2)] .
  with m(1) obtain nm where e: "e = created_object nm (create_keyword c) q" "st = [e]" by auto
  then have nm: "object_name e = Some nm" by (simp add: created_step)
  then have name: "materialized_name m = Some nm" by (simp add: m(1) materialized_name_def)
  have fresh: "db nm = None" by (rule fresh_name [OF assms(1-4) m(2,3) _ _ name]) (simp_all add: m(1))
  have q: "is_query q" using tree_parts(2) [OF assms(1) m(2)] by (simp add: m(1))
  have run: "run_query E (read_relation E db fuel) path q = Some (names_of q, out)" if "den E B path q = Some out" for path out
    by (rule run_live [OF assms(1-4) q tree_query [OF assms(1-3) m(4) q assms(5)] that])
  note grow = holds_create [OF assms(4) fresh _ _ name]
  show ?thesis
  proof (cases "stored_class c")
    case True
    with assms(10) have den: "den E B [i] q = Some rows" by (simp add: m(1))
    show ?thesis
    proof (cases "table_class c")
      case True
      have "exec_node E fuel m db = Some (db(nm \<mapsto> TableObj (names_of q) rows))"
        using True fresh run [OF den] by (simp add: exec_node_def m(1) e created_step)
      moreover have "holds E B t (ys @ [m]) (db(nm \<mapsto> TableObj (names_of q) rows))"
        by (rule grow) (use True nm den in \<open>simp_all add: m(1)\<close>)
      ultimately show ?thesis by blast
    next
      case False
      have "exec_node E fuel m db = Some (db(nm \<mapsto> SnapshotObj (names_of q) rows))"
        using True False fresh run [OF den] by (simp add: exec_node_def m(1) e created_step materialized_keyword)
      moreover have "holds E B t (ys @ [m]) (db(nm \<mapsto> SnapshotObj (names_of q) rows))"
        by (rule grow) (use True False nm den in \<open>simp_all add: m(1)\<close>)
      ultimately show ?thesis by blast
    qed
  next
    case False
    then have plain: "\<not> table_class c" by (auto simp: table_class_def stored_class_def)
    have "exec_node E fuel m db = Some (db(nm \<mapsto> ViewObj i q))"
      using False plain fresh by (simp add: exec_node_def m(1) e created_step materialized_keyword)
    moreover have "holds E B t (ys @ [m]) (db(nm \<mapsto> ViewObj i q))"
      by (rule grow) (use False plain nm in \<open>simp_all add: m(1)\<close>)
    ultimately show ?thesis by blast
  qed
qed

lemma exec_delete_reinsert:
  assumes "tree_ok t r" "set ys \<subseteq> nodes r" "children_first ys" "holds E B t ys db" "height r \<le> fuel"
    and m: "m = DeleteReinsertTable i q t' w st e" "m \<in> nodes r" "m \<notin> set ys" "q \<in> set ys"
    and "den E B p m = Some rows"
  shows "\<exists>db'. exec_node E fuel m db = Some db' \<and> holds E B t (ys @ [m]) db'"
proof -
  have "shaped m" using well_formed_nodes [OF tree_parts(1) [OF assms(1)] m(2)] .
  with m(1) obtain nm where e: "e = TableObject nm ''TABLE'' (Some q) ''''"
    "st = [e, DeleteStep nm w, InsertStep nm (names_of q) (get_sql_name t' True) w None None]" by auto
  then have name: "materialized_name m = Some nm" by (simp add: m(1) materialized_name_def)
  have fresh: "db nm = None" by (rule fresh_name [OF assms(1-4) m(2,3) _ _ name]) (simp_all add: m(1))
  have q: "is_query q" "t' = t" using tree_parts(2) [OF assms(1) m(2)] by (simp_all add: m(1))
  have base: "nm \<noteq> get_sql_name t True" "db (get_sql_name t True) = Some (TableObj (column_names t) B)"
    using fresh assms(4) by (auto simp: holds_def)
  from assms(10) obtain stored kept where den: "den E B [i] q = Some stored" "delete_rows E (scope_of q) w stored = Some kept"
    "map_option (append kept) (reinsert_rows E (names_of q) (column_names t) w (en_scan E [i] B)) = Some rows"
    by (auto simp: m(1) q(2) bind_eq_Some_conv)
  have run: "run_query E (read_relation E db fuel) [i] q = Some (names_of q, stored)"
    by (rule run_live [OF assms(1-4) q(1) tree_query [OF assms(1-3) m(4) q(1) assms(5)] den(1)])
  from assms(5) height_positive [of r] obtain k where k: "fuel = Suc k" by (cases fuel) auto
  from den(3) obtain extra where extra: "reinsert_rows E (names_of q) (column_names t) w (en_scan E [i] B) = Some extra" "rows = kept @ extra"
    by auto
  have "exec_node E fuel m db = Some (db(nm \<mapsto> TableObj (names_of q) rows))"
    using fresh run den(2) base extra by (simp add: exec_node_def m(1) e q(2) write_table_def scope_names k)
  moreover have "holds E B t (ys @ [m]) (db(nm \<mapsto> TableObj (names_of q) rows))"
    by (rule holds_create [OF assms(4) fresh _ _ name]) (use name den in \<open>simp_all add: m(1) q(2) names_of_def\<close>)
  ultimately show ?thesis by blast
qed

lemma exec_noop_update:
  assumes "tree_ok t r" "set ys \<subseteq> nodes r" "children_first ys" "holds E B t ys db" "height r \<le> fuel"
    and m: "m = NoopUpdateTable i q a w st e" "m \<in> nodes r" "m \<notin> set ys" "q \<in> set ys"
    and "den E B p m = Some rows"
  shows "\<exists>db'. exec_node E fuel m db = Some db' \<and> holds E B t (ys @ [m]) db'"
proof -
  have "shaped m" using well_formed_nodes [OF tree_parts(1) [OF assms(1)] m(2)] .
  with m(1) obtain nm where e: "e = TableObject nm ''TABLE'' (Some q) ''''" "st = [e, UpdateStep nm a w]" by auto
  then have name: "materialized_name m = Some nm" by (simp add: m(1) materialized_name_def)
  have fresh: "db nm = None" by (rule fresh_name [OF assms(1-4) m(2,3) _ _ name]) (simp_all add: m(1))
  have q: "is_query q" using tree_parts(2) [OF assms(1) m(2)] by (simp add: m(1))
  from assms(10) obtain stored where den: "den E B [i] q = Some stored" "update_rows E (names_of q) a w stored = Some rows"
    by (auto simp: m(1) bind_eq_Some_conv)
  have run: "run_query E (read_relation E db fuel) [i] q = Some (names_of q, stored)"
    by (rule run_live [OF assms(1-4) q tree_query [OF assms(1-3) m(4) q assms(5)] den(1)])
  have "exec_node E fuel m db = Some (db(nm \<mapsto> TableObj (names_of q) rows))"
    using fresh run den(2) by (simp add: exec_node_def m(1) e write_table_def)
  moreover have "holds E B t (ys @ [m]) (db(nm \<mapsto> TableObj (names_of q) rows))"
    by (rule holds_create [OF assms(4) fresh _ _ name]) (use name den in \<open>simp_all add: m(1) names_of_def\<close>)
  ultimately show ?thesis by blast
qed

lemma writer_child_live:
  assumes "tree_ok t r" "set ys \<subseteq> nodes r" "m \<in> nodes r" "m \<notin> set ys" "writes_child m" "c \<in> set (children m)"
  shows "live ys c"
  unfolding live_def
proof (intro ballI impI notI)
  fix w
  assume "w \<in> set ys" "writes_child w" "c \<in> set (children w)"
  with assms written_onceD [OF tree_parts(4) [OF assms(1)], of w c m] show False by auto
qed

lemma exec_tag_prune:
  assumes "tree_ok t r" "set ys \<subseteq> nodes r" "children_first ys" "holds E B t ys db" "height r \<le> fuel"
    and m: "m = TagPruneDeleteTable i c items tag keep st e" "m \<in> nodes r" "m \<notin> set ys" "c \<in> set ys"
    and "den E B p m = Some rows"
  shows "\<exists>db'. exec_node E fuel m db = Some db' \<and> holds E B t (ys @ [m]) db'"
proof -
  let ?mark = "Some (ne (col tag IntegerType) (int_lit keep))"
  have "shaped m" using well_formed_nodes [OF tree_parts(1) [OF assms(1)] m(2)] .
  with m(1) obtain nm target j where e: "materialized_name c = Some target" "e = ViewObject nm ''VIEW'' (Some (plain_select j c (Some items) None)) ''''"
    "st = [DeleteStep target ?mark, e]" by auto
  have name: "materialized_name m = Some nm" by (simp add: m(1) e(2) materialized_name_def)
  have fresh: "db nm = None" by (rule fresh_name [OF assms(1-4) m(2,3) _ _ name]) (simp_all add: m(1))
  have c: "is_relation c" using tree_parts(2) [OF assms(1) m(2)] by (simp add: m(1))
  from assms(10) obtain rows0 kept where den: "writable c" "den E B (i # p) c = Some rows0" "delete_rows E (scope_of c) ?mark rows0 = Some kept"
    by (auto simp: m(1) bind_eq_Some_conv split: if_splits)
  have "live ys c" by (rule writer_child_live [OF assms(1,2) m(2,3)]) (simp_all add: m(1))
  from table_read [OF assms(4) m(4) this den(1), of "i # p"] e(1) den(2)
  have table: "db target = Some (TableObj (names_of c) rows0)" by auto
  let ?db = "db(target \<mapsto> TableObj (names_of c) kept, nm \<mapsto> ViewObj i (plain_select j c (Some items) None))"
  have apart: "nm \<noteq> target" using fresh table by auto
  have "exec_node E fuel m db = Some ?db"
    using table fresh den(3) apart by (simp add: exec_node_def m(1) e write_table_def scope_names)
  moreover have "holds E B t (ys @ [m]) ?db"
  proof (rule holds_write [OF assms(1-4) m(2,3) _ _ m(4) c _ e(1)])
    show "entry_ok E B ?db m"
      using den writable_once [OF den(1), of E B "i # p" "[]"] e apart by (auto simp: m(1))
  qed (use table fresh name in \<open>auto simp: m(1) split: if_splits\<close>)
  ultimately show ?thesis by blast
qed

lemma exec_insert_extras:
  assumes "tree_ok t r" "set ys \<subseteq> nodes r" "children_first ys" "holds E B t ys db" "height r \<le> fuel"
    and m: "m = InsertExtrasExpansion i c st e" "m \<in> nodes r" "m \<notin> set ys" "c \<in> set ys"
    and "den E B p m = Some rows"
  shows "\<exists>db'. exec_node E fuel m db = Some db' \<and> holds E B t (ys @ [m]) db'"
proof -
  have "shaped m" using well_formed_nodes [OF tree_parts(1) [OF assms(1)] m(2)] .
  with m(1) obtain target j projection w where e: "materialized_name c = Some target" "exposed_of c = Some e"
    "st = [InsertStep target [] '''' None None (Some (plain_select j c projection w))]" by auto
  let ?q = "plain_select j c projection w"
  have name: "materialized_name m = Some target" using e(1,2) by (simp add: m(1) materialized_name_def)
  have c: "is_relation c" using tree_parts(2) [OF assms(1) m(2)] by (simp add: m(1))
  from assms(10) obtain stored new where den: "writable c" "length (names_of ?q) = length (names_of c)"
    "den E B [i] c = Some stored" "den E B [i] ?q = Some new" "rows = stored @ new"
    by (auto simp: m(1) e(3) bind_eq_Some_conv split: if_splits)
  have alive: "live ys c" by (rule writer_child_live [OF assms(1,2) m(2,3)]) (simp_all add: m(1))
  from table_read [OF assms(4) m(4) alive den(1), of "[i]"] e(1) den(3)
  have table: "db target = Some (TableObj (names_of c) stored)" by auto
  have "height c \<le> fuel" using node_height [of c r] m(4) assms(2,5) by fastforce
  then have run: "run_query E (read_relation E db fuel) [i] ?q = Some (names_of ?q, new)"
    by (intro run_live [OF assms(1-4) _ _ den(4)]) (use m(4) alive c in \<open>simp_all add: is_source_def\<close>)
  let ?db = "db(target \<mapsto> TableObj (names_of c) rows)"
  have "exec_node E fuel m db = Some ?db"
    using table den(2,5) run by (simp add: exec_node_def m(1) e(3) write_table_def)
  moreover have "holds E B t (ys @ [m]) ?db"
  proof (rule holds_write [OF assms(1-4) m(2,3) _ _ m(4) c _ e(1)])
    have "den E B [] m = Some rows" using assms(10) by (simp add: m(1))
    with name show "entry_ok E B ?db m" by (simp add: m(1) names_of_def)
  qed (use table name in \<open>auto simp: m(1) split: if_splits\<close>)
  ultimately show ?thesis by blast
qed


section \<open>Executing the tree\<close>

text \<open>Every node of a tree with rows has rows.\<close>

lemma child_den: "den E B p n \<noteq> None \<Longrightarrow> c \<in> set (children n) \<Longrightarrow> \<exists>p'. den E B p' c \<noteq> None"
proof (cases n)
  case (UnionAllQuery i bs)
  assume den: "den E B p n \<noteq> None" and c: "c \<in> set (children n)"
  let ?f = "\<lambda>(k, b). map_option (en_scan E (k # i # p)) (den E B (k # i # p) b)"
  from den obtain ys where ys: "list_all2 (\<lambda>x y. ?f x = Some y) (zip [0..<length bs] bs) ys"
    by (auto simp: UnionAllQuery those_map_opt map_opt_Some split: if_splits)
  from c obtain k where k: "k < length bs" "bs ! k = c" by (auto simp: UnionAllQuery in_set_conv_nth)
  from list_all2_nthD [OF ys, of k] k show ?thesis by (cases "den E B (k # i # p) c") auto
next
  case (InsertExtrasExpansion i c' st e)
  assume "den E B p n \<noteq> None" "c \<in> set (children n)"
  then show ?thesis by (auto simp: InsertExtrasExpansion bind_eq_Some_conv split: option.splits if_splits)
qed (force simp: bind_eq_Some_conv split: if_splits)+

lemma node_den: "n \<in> nodes r \<Longrightarrow> den E B p r \<noteq> None \<Longrightarrow> \<exists>p'. den E B p' n \<noteq> None"
proof (induction r arbitrary: p rule: nodes.induct)
  case (1 r)
  from "1.prems"(1) consider "n = r" | c where "c \<in> set (children r)" "n \<in> nodes c" unfolding nodes.simps [of r] by blast
  then show ?case
  proof cases
    case 2
    from child_den [OF "1.prems"(2) 2(1)] obtain p' where "den E B p' c \<noteq> None" by blast
    with "1.IH" 2 show ?thesis by blast
  qed (use "1.prems"(2) in blast)
qed

lemma exec_node_holds:
  assumes "tree_ok t r" "set ys \<subseteq> nodes r" "children_first ys" "holds E B t ys db" "height r \<le> fuel"
    and "m \<in> nodes r" "m \<notin> set ys" "set (children m) \<subseteq> set ys" "den E B p m = Some rows"
  shows "\<exists>db'. exec_node E fuel m db = Some db' \<and> holds E B t (ys @ [m]) db'"
proof (cases "is_relation m")
  case False
  then have "\<not> writes_child m" "steps_of m = []" by (cases m; simp)+
  moreover have "entry_ok E B db m"
    using False tree_parts(2) [OF assms(1,6)] assms(4) by (cases m) (simp_all add: holds_def)
  ultimately show ?thesis using assms(4) by (auto simp: exec_node_def holds_def live_snoc)
next
  case True
  show ?thesis
  proof (cases m)
    case (CreateFromQuery i c q st e)
    show ?thesis by (rule exec_create [OF assms(1-5) CreateFromQuery assms(6,7) _ assms(9)]) (use assms(8) in \<open>simp add: CreateFromQuery\<close>)
  next
    case (DeleteReinsertTable i q t' w st e)
    show ?thesis by (rule exec_delete_reinsert [OF assms(1-5) DeleteReinsertTable assms(6,7) _ assms(9)]) (use assms(8) in \<open>simp add: DeleteReinsertTable\<close>)
  next
    case (NoopUpdateTable i q a w st e)
    show ?thesis by (rule exec_noop_update [OF assms(1-5) NoopUpdateTable assms(6,7) _ assms(9)]) (use assms(8) in \<open>simp add: NoopUpdateTable\<close>)
  next
    case (TagPruneDeleteTable i c items tag keep st e)
    show ?thesis by (rule exec_tag_prune [OF assms(1-5) TagPruneDeleteTable assms(6,7) _ assms(9)]) (use assms(8) in \<open>simp add: TagPruneDeleteTable\<close>)
  next
    case (InsertExtrasExpansion i c st e)
    show ?thesis by (rule exec_insert_extras [OF assms(1-5) InsertExtrasExpansion assms(6,7) _ assms(9)]) (use assms(8) in \<open>simp add: InsertExtrasExpansion\<close>)
  qed (use True in simp_all)
qed

lemma exec_prefix:
  assumes "tree_ok t r" "den E B p r \<noteq> None" "height r \<le> fuel"
  shows "set ys \<subseteq> nodes r \<Longrightarrow> distinct ys \<Longrightarrow> children_first ys \<Longrightarrow>
    \<exists>db. exec_nodes E fuel ys (base_database t B) = Some db \<and> holds E B t ys db"
proof (induction ys rule: rev_induct)
  case Nil
  then show ?case by (auto simp: holds_def base_database_def split: if_splits)
next
  case (snoc m ys)
  from snoc.prems have parts: "set ys \<subseteq> nodes r" "distinct ys" "m \<in> nodes r" "m \<notin> set ys" by auto
  from snoc.prems(3) have order: "children_first ys" "set (children m) \<subseteq> set ys" by (simp_all add: children_first_snoc)
  from snoc.IH [OF parts(1,2) order(1)] obtain db where db: "exec_nodes E fuel ys (base_database t B) = Some db" "holds E B t ys db" by blast
  from node_den [OF parts(3) assms(2)] obtain p' rows where "den E B p' m = Some rows" by auto
  from exec_node_holds [OF assms(1) parts(1) order(1) db(2) assms(3) parts(3,4) order(2) this] db(1)
  show ?case by (auto simp: exec_nodes_append)
qed

lemma tree_realized:
  assumes "tree_ok t r" "is_relation r" "den E B [] r = Some rows" "height r \<le> fuel"
  shows "\<exists>db nm. exec_tree E fuel r (base_database t B) = Some db \<and> materialized_name r = Some nm \<and>
    read_relation E db fuel [] nm = Some (names_of r, rows) \<and> db (get_sql_name t True) = Some (TableObj (column_names t) B) \<and>
    (\<forall>x. db x \<noteq> None \<longrightarrow> x = get_sql_name t True \<or> (\<exists>m \<in> nodes r. is_relation m \<and> materialized_name m = Some x))"
proof -
  have "build_order r (emission_order r)"
    unfolding emission_order_def by (rule visit_order) (use assms(1) in \<open>simp add: tree_ok_def\<close>)
  then have order: "set (emission_order r) = nodes r" "distinct (emission_order r)" "children_first (emission_order r)"
    by (simp_all add: build_order_def)
  have "set (emission_order r) \<subseteq> nodes r" using order(1) by simp
  from exec_prefix [OF assms(1) _ assms(4) this order(2,3), of E B "[]"] assms(3)
  obtain db where db: "exec_nodes E fuel (emission_order r) (base_database t B) = Some db" "holds E B t (emission_order r) db" by auto
  have alone: "live (emission_order r) r"
    unfolding live_def
  proof (intro ballI impI notI)
    fix w
    assume "w \<in> set (emission_order r)" "r \<in> set (children w)"
    then show False using node_size [of w r] children_size [of r w] order(1) by auto
  qed
  have "Option.bind (ref_sql r) (read_relation E db fuel []) = Some (names_of r, rows)"
    by (rule read_entry [OF assms(1) _ order(3) db(2) _ alone _ assms(4,3)]) (use order(1) assms(2) in \<open>simp_all add: is_source_def\<close>)
  then obtain nm where "materialized_name r = Some nm" "read_relation E db fuel [] nm = Some (names_of r, rows)"
    using source_ref(1) [OF assms(2)] by (auto simp: bind_eq_Some_conv)
  moreover have "db (get_sql_name t True) = Some (TableObj (column_names t) B)"
    "\<forall>x. db x \<noteq> None \<longrightarrow> x = get_sql_name t True \<or> (\<exists>m \<in> nodes r. is_relation m \<and> materialized_name m = Some x)"
    using db(2) order(1) unfolding holds_def by simp_all
  ultimately show ?thesis using db(1) unfolding exec_tree_def by blast
qed

end
