(* ===== verification/Coa_Alloc.thy ===== *)
theory Coa_Alloc
  imports Coa_Realize Coa_Names Coa_Steps
begin

text \<open>
  Where the nodes of a run come from.  The identities and the object names a step hands out are new, so the
  nodes a builder has made are a pool that can be told apart and that grows; a table that is written to goes
  to its writer.  \<open>good\<close> describes a pool, \<open>allocates\<close> a step on pools; \<open>Coa_Alloc_Builders\<close> walks the builders.
\<close>


section \<open>Pools\<close>

definition minted :: "context_env \<Rightarrow> string set" where
  "minted env = {tab_name (base_table env) @ ''_'' @ kind @ ''_'' @ str_nat k |kind k. True}"

definition closed_nodes :: "eqnode set \<Rightarrow> bool" where
  "closed_nodes N \<longleftrightarrow> (\<forall>n \<in> N. set (children n) \<subseteq> N)"

definition new_name :: "context_env \<Rightarrow> string set \<Rightarrow> gen_state \<Rightarrow> gen_state \<Rightarrow> string \<Rightarrow> bool" where
  "new_name env X s0 s nm \<longleftrightarrow> nm \<in> X \<or> nm \<in> issued s \<and> nm \<notin> issued s0 \<and> nm \<in> minted env"

definition grows :: "gen_state \<Rightarrow> gen_state \<Rightarrow> bool" where
  "grows s s' \<longleftrightarrow> next_id s \<le> next_id s' \<and> issued s \<subseteq> issued s'"

definition one_owner :: "eqnode set \<Rightarrow> bool" where
  "one_owner N \<longleftrightarrow>
     (\<forall>m \<in> N. \<forall>n \<in> N. is_relation m \<longrightarrow> is_relation n \<longrightarrow> materialized_name m = materialized_name n \<longrightarrow> owner m = owner n)"

text \<open>The nodes made between two states; \<open>X\<close> holds the names given from outside.\<close>

definition good :: "context_env \<Rightarrow> string set \<Rightarrow> gen_state \<Rightarrow> gen_state \<Rightarrow> eqnode set \<Rightarrow> bool" where
  "good env X s0 s N \<longleftrightarrow>
     grows s0 s \<and> closed_nodes N \<and> inj_on node_id N \<and> written_once N \<and>
     (\<forall>n \<in> N. next_id s0 \<le> node_id n \<and> node_id n < next_id s \<and> node_fits (base_table env) n) \<and>
     (\<forall>n \<in> N. is_relation n \<longrightarrow> (\<exists>nm. materialized_name n = Some nm \<and> new_name env X s0 s nm)) \<and> one_owner N"

lemma grows_refl [simp]: "grows s s"
  by (simp add: grows_def)

lemma grows_trans: "grows s t \<Longrightarrow> grows t u \<Longrightarrow> grows s u"
  by (auto simp: grows_def)

lemma good_empty: "grows s0 s \<Longrightarrow> good env X s0 s {}"
  by (simp add: good_def closed_nodes_def written_once_def one_owner_def)

lemma good_later: "good env X s0 s N \<Longrightarrow> grows s s' \<Longrightarrow> good env X s0 s' N"
  unfolding good_def new_name_def grows_def by fastforce

lemma good_names: "good env {} s0 s N \<Longrightarrow> good env X s0 s N"
  unfolding good_def new_name_def by fastforce

lemma closed_nodesD: "closed_nodes N \<Longrightarrow> n \<in> N \<Longrightarrow> nodes n \<subseteq> N"
proof (induction n rule: nodes.induct)
  case (1 n)
  then show ?case unfolding nodes.simps [of n] closed_nodes_def by blast
qed

lemma closed_nodes_of [simp]: "closed_nodes (nodes n)"
  unfolding closed_nodes_def using nodes_child nodes_trans by blast

lemma good_subset:
  assumes "good env X s0 s N" "M \<subseteq> N" "closed_nodes M"
  shows "good env X s0 s M"
proof -
  have "written_once M" "one_owner M"
    using assms(1,2) unfolding good_def written_once_def one_owner_def by blast+
  with assms show ?thesis unfolding good_def by (auto intro: inj_on_subset)
qed

lemma good_node: "good env X s0 s N \<Longrightarrow> n \<in> N \<Longrightarrow> good env X s0 s (nodes n)"
  by (rule good_subset) (auto simp: good_def dest: closed_nodesD)

text \<open>Pools made one after the other.\<close>

lemma good_disjoint: "good env X s0 s M \<Longrightarrow> good env Y s s' N \<Longrightarrow> M \<inter> N = {}"
  unfolding good_def by fastforce

lemma good_union:
  assumes M: "good env {} s0 s M" and N: "good env {} s s' N"
  shows "good env {} s0 s' (M \<union> N)"
proof -
  have apart: "node_id m \<noteq> node_id n" if "m \<in> M" "n \<in> N" for m n
    using M N that unfolding good_def by fastforce
  have g: "grows s0 s" "grows s s'" using M N by (simp_all add: good_def)
  have names: "materialized_name m \<noteq> materialized_name n" if "m \<in> M" "is_relation m" "n \<in> N" "is_relation n" for m n
  proof -
    from M that obtain a where "materialized_name m = Some a" "a \<in> issued s" unfolding good_def new_name_def by fastforce
    moreover from N that obtain b where "materialized_name n = Some b" "b \<notin> issued s" unfolding good_def new_name_def by fastforce
    ultimately show ?thesis by auto
  qed
  have "node_id ` M \<inter> node_id ` N = {}" using apart by fastforce
  then have "inj_on node_id (M \<union> N)" using M N unfolding good_def inj_on_Un by blast
  moreover have "closed_nodes (M \<union> N)" using M N by (auto simp: good_def closed_nodes_def)
  moreover have "written_once (M \<union> N)"
    unfolding written_once_def
  proof (intro ballI impI)
    fix w c p
    assume w: "w \<in> M \<union> N" "c \<in> set (children w)" "writes_child w" and p: "p \<in> M \<union> N" "c \<in> set (children p)"
    have closed: "closed_nodes M" "closed_nodes N" "written_once M" "written_once N" using M N by (simp_all add: good_def)
    from w p consider "w \<in> M" "p \<in> M" | "w \<in> N" "p \<in> N" | "c \<in> M" "c \<in> N"
      using closed(1,2) unfolding closed_nodes_def by blast
    then show "p = w" using written_onceD closed(3,4) w p apart by cases (blast, blast, force)
  qed
  moreover have "\<forall>n \<in> M \<union> N. next_id s0 \<le> node_id n \<and> node_id n < next_id s' \<and> node_fits (base_table env) n"
    using M N g unfolding good_def grows_def by fastforce
  moreover have "\<exists>nm. materialized_name n = Some nm \<and> new_name env {} s0 s' nm" if "n \<in> M \<union> N" "is_relation n" for n
    using that M N g unfolding good_def new_name_def grows_def by blast
  moreover have "owner m = owner n" if "m \<in> M \<union> N" "n \<in> M \<union> N" "is_relation m" "is_relation n"
    "materialized_name m = materialized_name n" for m n
  proof -
    from that names have "m \<in> M \<and> n \<in> M \<or> m \<in> N \<and> n \<in> N" by (metis UnE)
    with M N that show ?thesis unfolding good_def one_owner_def by blast
  qed
  then have "one_owner (M \<union> N)" unfolding one_owner_def by blast
  ultimately show ?thesis using grows_trans [OF g] unfolding good_def by blast
qed

text \<open>Nodes nobody writes to, and nodes nobody reads.\<close>

definition unwritten :: "eqnode set \<Rightarrow> eqnode \<Rightarrow> bool" where
  "unwritten N c \<longleftrightarrow> (\<forall>w \<in> N. writes_child w \<longrightarrow> c \<notin> set (children w))"

definition avail :: "eqnode set \<Rightarrow> eqnode list \<Rightarrow> bool" where
  "avail N L \<longleftrightarrow> (\<forall>c \<in> set L. c \<in> N \<and> unwritten N c)"

text \<open>One node more: a query, a leaf, or a relation with a name of its own.\<close>

lemma good_insert:
  assumes N: "good env {} s0 s N" and "grows s s'" "set (children n) \<subseteq> N" "\<forall>c \<in> set (children n). unwritten N c"
    and "next_id s \<le> node_id n" "node_id n < next_id s'" "node_fits (base_table env) n" "\<not> writes_child n" "chain n = [n]"
    and "is_relation n \<Longrightarrow> \<exists>nm. materialized_name n = Some nm \<and> (nm \<in> issued s \<longrightarrow> nm \<notin> minted env) \<and> new_name env X s s' nm"
  shows "good env X s0 s' (insert n N) \<and> n \<notin> N"
proof -
  have g: "grows s0 s" using N by (simp add: good_def)
  have ids: "node_id m \<noteq> node_id n" if "m \<in> N" for m using N that assms(5) unfolding good_def by fastforce
  then have new: "n \<notin> N" by blast
  have names: "materialized_name m \<noteq> materialized_name n" if "m \<in> N" "is_relation m" "is_relation n" for m
  proof -
    from N that obtain a where "materialized_name m = Some a" "a \<in> issued s" "a \<in> minted env"
      unfolding good_def new_name_def by fastforce
    moreover from assms(10) [OF that(3)] obtain b where "materialized_name n = Some b" "b \<in> issued s \<longrightarrow> b \<notin> minted env" by blast
    ultimately show ?thesis by auto
  qed
  have "node_id n \<notin> node_id ` N" using ids by fastforce
  then have "inj_on node_id (insert n N)" using N new by (simp add: good_def)
  moreover have "closed_nodes (insert n N)" using N assms(3) by (auto simp: good_def closed_nodes_def)
  moreover have "written_once (insert n N)"
    unfolding written_once_def
  proof (intro ballI impI)
    fix w c p
    assume w: "w \<in> insert n N" "c \<in> set (children w)" "writes_child w" and p: "p \<in> insert n N" "c \<in> set (children p)"
    then have "w \<in> N" using assms(8) by blast
    moreover from this w assms(4) have "c \<notin> set (children n)" unfolding unwritten_def by blast
    ultimately show "p = w" using p w N written_onceD [of N w c p] by (auto simp: good_def)
  qed
  moreover have "\<forall>m \<in> insert n N. next_id s0 \<le> node_id m \<and> node_id m < next_id s' \<and> node_fits (base_table env) m"
    using N g assms(2,5-7) unfolding good_def grows_def by fastforce
  moreover have "\<exists>nm. materialized_name m = Some nm \<and> new_name env X s0 s' nm" if "m \<in> insert n N" "is_relation m" for m
    using that N g assms(2,10) unfolding good_def new_name_def grows_def by blast
  moreover have "owner k = owner m" if "k \<in> insert n N" "m \<in> insert n N" "is_relation k" "is_relation m"
    "materialized_name k = materialized_name m" for k m
  proof -
    from that names have "k = m \<or> k \<in> N \<and> m \<in> N" by (metis insertE)
    with N that show ?thesis unfolding good_def one_owner_def by blast
  qed
  then have "one_owner (insert n N)" unfolding one_owner_def by blast
  ultimately show ?thesis using grows_trans [OF g assms(2)] new unfolding good_def by blast
qed

lemma avail_insert:
  assumes "good env {} s0 s N" "n \<notin> N" "avail N L" "\<not> writes_child n"
  shows "avail (insert n N) (n # L)"
proof -
  have "n \<notin> set (children w)" if "w \<in> N" for w using assms(1,2) that by (auto simp: good_def closed_nodes_def)
  with assms(3,4) children_size [of n n] show ?thesis by (auto simp: avail_def unwritten_def)
qed

lemma avail_union:
  assumes "good env {} s0 s M" "good env {} s s' (nodes n)" "avail M L"
  shows "avail (M \<union> nodes n) (n # L)"
proof -
  note apart = good_disjoint [OF assms(1,2)]
  have "unwritten (M \<union> nodes n) n"
    unfolding unwritten_def
  proof (intro ballI impI notI)
    fix w
    assume n: "n \<in> set (children w)" and "w \<in> M \<union> nodes n"
    from this(2) show False
    proof
      assume "w \<in> M"
      with assms(1) n have "n \<in> M" by (auto simp: good_def closed_nodes_def)
      with apart show False by auto
    next
      assume "w \<in> nodes n"
      with node_size [of w n] children_size [OF n] show False by simp
    qed
  qed
  moreover have "unwritten (M \<union> nodes n) c" if "c \<in> M" "unwritten M c" for c
    unfolding unwritten_def
  proof (intro ballI impI notI)
    fix w
    assume w: "w \<in> M \<union> nodes n" "writes_child w" "c \<in> set (children w)"
    then have "w \<in> nodes n" using that(2) by (auto simp: unwritten_def)
    then have "c \<in> nodes n" using w(3) nodes_child nodes_trans by blast
    with apart that(1) show False by auto
  qed
  ultimately show ?thesis using assms(3) by (auto simp: avail_def)
qed

section \<open>Steps on pools\<close>

text \<open>
  \<open>allocates env X L m C F\<close>: with the nodes \<open>L\<close> of a pool at hand, \<open>m\<close> extends the pool, keeps them at hand, adds the
  nodes \<open>F x\<close> of its value \<open>x\<close>, and \<open>C x\<close> holds.
\<close>

definition allocates ::
  "context_env \<Rightarrow> string set \<Rightarrow> eqnode list \<Rightarrow> 'a gen \<Rightarrow> ('a \<Rightarrow> bool) \<Rightarrow> ('a \<Rightarrow> eqnode list) \<Rightarrow> bool" where
  "allocates env X L m C F \<longleftrightarrow>
     (\<forall>s0 s N. good env {} s0 s N \<longrightarrow> avail N L \<longrightarrow>
        (case m s of Inl e \<Rightarrow> True
         | Inr (x, s') \<Rightarrow> C x \<and> (\<exists>N'. good env X s0 s' N' \<and> avail N' (F x @ L))))"

abbreviation result_nodes :: "eqnode option \<Rightarrow> eqnode list" where
  "result_nodes r \<equiv> (case r of None \<Rightarrow> [] | Some n \<Rightarrow> [n])"

lemma poolI:
  assumes "\<And>s0 s N x s'. good env {} s0 s N \<Longrightarrow> avail N L \<Longrightarrow> m s = Inr (x, s') \<Longrightarrow>
      C x \<and> (\<exists>N'. good env X s0 s' N' \<and> avail N' (F x @ L))"
  shows "allocates env X L m C F"
  unfolding allocates_def using assms by (auto split: sum.split)

lemma poolD:
  assumes "allocates env X L m C F" "good env {} s0 s N" "avail N L" "m s = Inr (x, s')"
  shows "C x \<and> (\<exists>N'. good env X s0 s' N' \<and> avail N' (F x @ L))"
  using assms unfolding allocates_def by fastforce

lemma avail_subset: "avail N L \<Longrightarrow> set L' \<subseteq> set L \<Longrightarrow> avail N L'"
  by (auto simp: avail_def)

lemma pool_bind:
  assumes "allocates env {} L m C G" "\<And>x. C x \<Longrightarrow> allocates env X (G x @ L) (f x) D F"
  shows "allocates env X L (gbind m f) D F"
proof (rule poolI)
  fix s0 s N y s'
  assume N: "good env {} s0 s N" "avail N L" "gbind m f s = Inr (y, s')"
  then obtain x s1 where m: "m s = Inr (x, s1)" "f x s1 = Inr (y, s')" by (auto simp: gbind_def split: sum.splits)
  from poolD [OF assms(1) N(1,2) m(1)] obtain N1 where "C x" and N1: "good env {} s0 s1 N1" "avail N1 (G x @ L)" by blast
  from poolD [OF assms(2) [OF this(1)] N1 m(2)] obtain N' where "D y" "good env X s0 s' N'" "avail N' (F y @ G x @ L)" by blast
  moreover from this(3) have "avail N' (F y @ L)" by (rule avail_subset) auto
  ultimately show "D y \<and> (\<exists>N'. good env X s0 s' N' \<and> avail N' (F y @ L))" by blast
qed

lemma pool_return: "C x \<Longrightarrow> set (F x) \<subseteq> set L \<Longrightarrow> allocates env X L (greturn x) C F"
  by (rule poolI) (auto simp: greturn_def avail_def intro: good_names)

lemma pool_raise: "allocates env X L (graise e) C F"
  by (rule poolI) (simp add: graise_def)

lemma pool_obind:
  assumes "allocates env {} L m (\<lambda>r. \<forall>x. r = Some x \<longrightarrow> C x) (\<lambda>r. case r of None \<Rightarrow> [] | Some x \<Rightarrow> G x)"
    and "\<And>x. C x \<Longrightarrow> allocates env X (G x @ L) (f x) D F" "D None" "F None = []"
  shows "allocates env X L (obind m f) D F"
  unfolding obind_def
  by (rule pool_bind [OF assms(1)]) (auto split: option.split intro: assms(2) pool_return simp: assms(3,4))

text \<open>Steps that make no node.\<close>

definition inert :: "'a gen \<Rightarrow> bool" where
  "inert m \<longleftrightarrow> (\<forall>s x s'. m s = Inr (x, s') \<longrightarrow> grows s s')"

lemma inertD: "inert m \<Longrightarrow> m s = Inr (x, s') \<Longrightarrow> grows s s'"
  by (simp add: inert_def)

lemma inert_bind: "inert m \<Longrightarrow> (\<And>x. inert (f x)) \<Longrightarrow> inert (gbind m f)"
  unfolding inert_def gbind_def by (fastforce split: sum.splits intro: grows_trans)

lemma inert_return: "inert (greturn x)"
  by (simp add: inert_def greturn_def)

lemma inert_raise: "inert (graise e)"
  by (simp add: inert_def graise_def)

lemma inert_obind: "inert m \<Longrightarrow> (\<And>x. inert (f x)) \<Longrightarrow> inert (obind m f)"
  unfolding obind_def by (intro inert_bind) (auto split: option.split intro: inert_return)

lemma inert_read: "inert (gread f)"
  by (simp add: inert_def gread_def)

lemma inert_modify: "(\<And>s. grows s (f s)) \<Longrightarrow> inert (gmodify f)"
  by (simp add: inert_def gmodify_def)

lemma inert_lift: "inert (glift r)"
  by (auto simp: inert_def glift_def split: sum.splits)

lemma inert_assert: "inert (gassert b)"
  by (simp add: gassert_def inert_return inert_raise)

lemma inert_map: "(\<And>x. inert (f x)) \<Longrightarrow> inert (gmap f xs)"
  by (induction xs) (auto intro: inert_bind inert_return)

lemma grows_counts: "issued (s\<lparr>counters := bump_count p (counters s)\<rparr>) \<supseteq> issued s"
  by (auto simp: issued_bump)

lemma inert_name: "inert (generate_object_name p)"
  unfolding generate_object_name_def
  by (intro inert_bind inert_read inert_return inert_modify) (simp add: grows_def grows_counts)

lemma grows_fields:
  "grows s (s\<lparr>position := k\<rparr>)" "grows s (s\<lparr>predicate_origin := o1\<rparr>)" "grows s (s\<lparr>clock := c\<rparr>)" "grows s (s\<lparr>depth := d\<rparr>)"
  "grows s (s\<lparr>next_id := Suc (next_id s)\<rparr>)"
  by (simp_all add: grows_def issued_def)

lemma inert_draw: "inert draw"
  unfolding draw_def by (intro inert_bind inert_read inert_return inert_modify) (simp add: grows_fields)

lemma inert_randrange: "inert (randrange n)"
  unfolding randrange_def by (intro inert_bind inert_draw inert_return)

lemma inert_choice: "inert (random_choice xs)"
  unfolding random_choice_def by (auto intro: inert_bind inert_draw inert_return inert_raise)

lemma inert_choose: "inert (choose_one xs)"
  unfolding choose_one_def Let_def by (auto intro: inert_bind inert_draw inert_return inert_raise)

lemma inert_note: "inert (note_origin who)"
  unfolding note_origin_def by (intro inert_modify) (simp add: grows_fields)

lemma inert_key: "inert (select_key env xs)"
  unfolding select_key_def by (intro inert_bind inert_choose) (auto intro: inert_choice inert_return inert_raise split: list.split)

lemma inert_predicate: "inert (generated_predicate_for env)"
  unfolding generated_predicate_for_def
  by (auto intro!: inert_bind inert_note inert_return inert_randrange inert_assert split: option.split)

lemmas inert_rules =
  inert_return inert_raise inert_choose inert_choice inert_name inert_key inert_predicate inert_note inert_randrange
  inert_lift inert_assert inert_bind inert_obind

lemma pool_inert:
  assumes "inert m" "\<And>x. allocates env X L (f x) C F"
  shows "allocates env X L (gbind m f) C F"
proof (rule pool_bind [where C = "\<lambda>x. True" and G = "\<lambda>x. []"])
  show "allocates env {} L m (\<lambda>x. True) (\<lambda>x. [])"
    by (rule poolI) (auto intro: good_later inertD [OF assms(1)])
qed (simp add: assms(2))

lemma pool_inert_some:
  assumes "inert m" "\<And>x. allocates env X L (f x) C F" "C None" "F None = []"
  shows "allocates env X L (obind m f) C F"
  unfolding obind_def
  by (rule pool_inert [OF assms(1)]) (auto split: option.split intro: assms(2) pool_return simp: assms(3,4))

section \<open>Making nodes\<close>

lemma new_id_step: "new_id s = Inr (next_id s, s\<lparr>next_id := Suc (next_id s)\<rparr>)"
  by (simp add: new_id_def gbind_def gread_def gmodify_def greturn_def)

lemma pool_new:
  assumes "\<And>i. node_id (mk i) = i" "\<And>i. set (children (mk i)) \<subseteq> set L" "\<And>i. node_fits (base_table env) (mk i)"
    and "\<And>i. \<not> is_relation (mk i)"
    and "\<And>i. allocates env X (mk i # L) (f (mk i)) C F"
  shows "allocates env X L (gbind new_id (\<lambda>i. f (mk i))) C F"
proof (rule poolI)
  fix s0 s N y s'
  assume N: "good env {} s0 s N" "avail N L" "gbind new_id (\<lambda>i. f (mk i)) s = Inr (y, s')"
  let ?n = "mk (next_id s)" and ?s = "s\<lparr>next_id := Suc (next_id s)\<rparr>"
  have shape: "\<not> writes_child ?n" "chain ?n = [?n]" using assms(4) [of "next_id s"] by (cases ?n; simp)+
  have kids: "set (children ?n) \<subseteq> N" "\<forall>c \<in> set (children ?n). unwritten N c"
    using assms(2) [of "next_id s"] N(2) by (auto simp: avail_def)
  have "good env {} s0 ?s (insert ?n N) \<and> ?n \<notin> N"
    by (rule good_insert [OF N(1) grows_fields(5) kids _ _ assms(3) shape]) (simp_all add: assms(1,4))
  then have "good env {} s0 ?s (insert ?n N)" "avail (insert ?n N) (?n # L)"
    using avail_insert [OF N(1) _ N(2) shape(1)] by auto
  from poolD [OF assms(5) this, of y s'] N(3)
  have "C y" and "\<exists>N'. good env X s0 s' N' \<and> avail N' (F y @ ?n # L)" by (simp_all add: gbind_def new_id_step)
  then show "C y \<and> (\<exists>N'. good env X s0 s' N' \<and> avail N' (F y @ L))" by (auto simp: avail_def)
qed

lemma pool_base:
  assumes "\<And>n. is_source n \<Longrightarrow> allocates env X (n # L) (f n) C F"
  shows "allocates env X L (gbind (mk_base (base_table env)) f) C F"
  unfolding mk_base_def gbind_assoc gbind_return
  by (rule pool_new [where mk = "\<lambda>i. BaseTableSource i (base_table env)"]) (simp_all add: assms is_source_def)

lemma pool_select_full:
  assumes "k \<in> set L" "is_source k" "\<And>q. is_query q \<Longrightarrow> allocates env X (q # L) (f q) C F"
  shows "allocates env X L (gbind (mk_select_full k p w d g qf ob) f) C F"
  unfolding mk_select_full_def gbind_assoc gbind_return
  by (rule pool_new [where mk = "\<lambda>i. SelectQuery i k p w d g qf ob"]) (simp_all add: assms)

lemma pool_select:
  assumes "k \<in> set L" "is_source k" "\<And>q. is_query q \<Longrightarrow> allocates env X (q # L) (f q) C F"
  shows "allocates env X L (gbind (mk_select k p w) f) C F"
  unfolding mk_select_def by (rule pool_select_full [OF assms])

lemma pool_union:
  assumes "set bs \<subseteq> set L" "list_all is_source bs" "\<And>q. is_query q \<Longrightarrow> allocates env X (q # L) (f q) C F"
  shows "allocates env X L (gbind (mk_union bs) f) C F"
proof (cases "2 \<le> length bs")
  case True
  show ?thesis
    unfolding mk_union_def gbind_assoc gbind_return
    by (rule pool_inert [OF inert_assert], rule pool_new [where mk = "\<lambda>i. UnionAllQuery i bs"]) (simp_all add: assms)
next
  case False
  then show ?thesis by (intro poolI) (simp add: mk_union_def gbind_def gassert_def graise_def)
qed

lemma pool_except:
  assumes "l \<in> set L" "r \<in> set L" "is_source l" "is_source r" "\<And>q. is_query q \<Longrightarrow> allocates env X (q # L) (f q) C F"
  shows "allocates env X L (gbind (mk_except l r) f) C F"
  unfolding mk_except_def gbind_assoc gbind_return
  by (rule pool_new [where mk = "\<lambda>i. ExceptAllQuery i l r"]) (simp_all add: assms)

lemma pool_intersect:
  assumes "l \<in> set L" "r \<in> set L" "is_source l" "is_source r" "\<And>q. is_query q \<Longrightarrow> allocates env X (q # L) (f q) C F"
  shows "allocates env X L (gbind (mk_intersect l r) f) C F"
  unfolding mk_intersect_def gbind_assoc gbind_return
  by (rule pool_new [where mk = "\<lambda>i. IntersectAllQuery i l r"]) (simp_all add: assms)

lemma pool_join:
  assumes "l \<in> set L" "r \<in> set L" "is_source l" "is_source r" "\<And>q. is_query q \<Longrightarrow> allocates env X (q # L) (f q) C F"
  shows "allocates env X L (gbind (mk_join l r cond jt p la ra w) f) C F"
  unfolding mk_join_def gbind_assoc gbind_return
  by (rule pool_new [where mk = "\<lambda>i. JoinQuery i l r cond jt p la ra w"]) (simp_all add: assms)

lemma pool_cte:
  assumes "k \<in> set L" "is_source k" "\<And>q. is_query q \<Longrightarrow> allocates env X (q # L) (f q) C F"
  shows "allocates env X L (gbind (mk_cte k nm w m) f) C F"
  unfolding mk_cte_def gbind_assoc gbind_return
  by (rule pool_new [where mk = "\<lambda>i. CteQuery i k nm w m"]) (simp_all add: assms)

lemma pool_lateral:
  assumes "k \<in> set L" "is_source k" "\<And>q. is_query q \<Longrightarrow> allocates env X (q # L) (f q) C F"
  shows "allocates env X L (gbind (mk_lateral k) f) C F"
  unfolding mk_lateral_def gbind_assoc gbind_return
  by (rule pool_new [where mk = "\<lambda>i. LateralReprojectQuery i k ''s'' ''l''"]) (simp_all add: assms)


section \<open>Making objects\<close>

definition given_names :: "string option \<Rightarrow> string set" where
  "given_names given = (case given of None \<Rightarrow> {} | Some nm \<Rightarrow> {nm})"

lemma chain_single: "\<not> writes_child n \<Longrightarrow> chain n = [n]"
  by (cases n) simp_all

lemma mint_step:
  assumes "mint env label s = Inr (nm, s')"
  shows "nm \<notin> issued s" "nm \<in> minted env" "nm \<in> issued s'" "grows s s'" "next_id s' = next_id s"
proof -
  let ?p = "tab_name (base_table env) @ ''_'' @ label"
  from assms have nm: "nm = ?p @ ''_'' @ str_nat (Suc (count_of (counters s) ?p))"
    and s': "s' = s\<lparr>counters := bump_count ?p (counters s)\<rparr>"
    by (auto simp: mint_def generate_object_name_def gbind_def gread_def gmodify_def greturn_def)
  show "nm \<notin> issued s" unfolding nm issued_iff by simp
  show "nm \<in> minted env" unfolding nm minted_def by auto
  show "nm \<in> issued s'" unfolding nm s' issued_bump by simp
  show "grows s s'" "next_id s' = next_id s" unfolding s' grows_def by (simp_all add: grows_counts)
qed

lemma take_name_step:
  assumes "take_name env given label s = Inr (nm, s')" "given_names given \<inter> minted env = {}"
  shows "(nm \<in> issued s \<longrightarrow> nm \<notin> minted env) \<and> new_name env (given_names given) s s' nm \<and> grows s s' \<and> next_id s' = next_id s"
proof (cases "given = None \<or> given = Some []")
  case True
  with assms(1) have "mint env label s = Inr (nm, s')" by (auto simp: take_name_def)
  from mint_step [OF this] show ?thesis by (simp add: new_name_def)
next
  case False
  with assms(1) have "given = Some nm" "s' = s" by (auto simp: take_name_def greturn_def split: option.splits if_splits)
  with assms(2) show ?thesis by (auto simp: new_name_def given_names_def)
qed

lemma pool_object:
  assumes "\<And>i nm. node_id (mk i nm) = i" "\<And>i nm. children (mk i nm) = [q]" "\<And>i nm. node_fits (base_table env) (mk i nm)"
    and "\<And>i nm. is_relation (mk i nm)" "\<And>i nm. materialized_name (mk i nm) = Some nm" "\<And>i nm. \<not> writes_child (mk i nm)"
    and "q \<in> set L" "given_names given \<inter> minted env = {}"
  shows "allocates env (given_names given) L (gbind (take_name env given label) (\<lambda>nm. gbind new_id (\<lambda>i. greturn (mk i nm)))) is_relation (\<lambda>n. [n])"
proof (rule poolI)
  fix s0 s N n s'
  assume N: "good env {} s0 s N" "avail N L"
    and run: "gbind (take_name env given label) (\<lambda>nm. gbind new_id (\<lambda>i. greturn (mk i nm))) s = Inr (n, s')"
  then obtain nm s1 where nm: "take_name env given label s = Inr (nm, s1)" and n: "n = mk (next_id s1) nm"
    and s': "s' = s1\<lparr>next_id := Suc (next_id s1)\<rparr>"
    by (auto simp: gbind_def new_id_step greturn_def split: sum.splits)
  note name = take_name_step [OF nm assms(8)]
  have g: "grows s s'" using name grows_trans [OF _ grows_fields(5) [of s1]] by (simp add: s')
  have shape: "\<not> writes_child n" "chain n = [n]" using chain_single [OF assms(6)] n assms(6) by simp_all
  have kids: "set (children n) \<subseteq> N" "\<forall>c \<in> set (children n). unwritten N c"
    using assms(7) N(2) by (auto simp: n assms(2) avail_def)
  have "new_name env (given_names given) s s' nm" using name by (auto simp: new_name_def s' issued_def)
  then have "good env (given_names given) s0 s' (insert n N) \<and> n \<notin> N"
    using name by (intro good_insert [OF N(1) g kids _ _ _ shape]) (simp_all add: n s' assms(1,3,5))
  moreover from this have "avail (insert n N) (n # L)" by (intro avail_insert [OF N(1) _ N(2) shape(1)]) simp
  ultimately show "is_relation n \<and> (\<exists>N'. good env (given_names given) s0 s' N' \<and> avail N' ([n] @ L))"
    using n assms(4) by auto
qed

lemma pool_create_as:
  assumes "q \<in> set L" "is_query q" "given_names given \<inter> minted env = {}"
  shows "allocates env (given_names given) L (create_as env c q given) is_relation (\<lambda>n. [n])"
  unfolding create_as_def Let_def
  by (rule pool_object [where mk = "\<lambda>i nm. CreateFromQuery i c q [created_object nm (create_keyword c) q] (created_object nm (create_keyword c) q)"])
    (use assms in \<open>simp_all add: materialized_name_def created_step\<close>)

lemma pool_create:
  assumes "q \<in> set L" "is_query q" "\<And>n. is_relation n \<Longrightarrow> allocates env X (n # L) (f n) C F"
  shows "allocates env X L (gbind (create_as env c q None) f) C F"
  by (rule pool_bind [OF pool_create_as [OF assms(1,2), of None, unfolded given_names_def option.case]]) (simp_all add: assms(3))

lemma pool_some:
  assumes "allocates env X L m C (\<lambda>n. [n])"
  shows "allocates env X L (gsome m) (\<lambda>_. True) result_nodes"
proof (rule poolI)
  fix s0 s N r s'
  assume N: "good env {} s0 s N" "avail N L" and "gsome m s = Inr (r, s')"
  then obtain n where "m s = Inr (n, s')" "r = Some n" by (auto simp: gsome_def gbind_def greturn_def split: sum.splits)
  with poolD [OF assms N] show "True \<and> (\<exists>N'. good env X s0 s' N' \<and> avail N' (result_nodes r @ L))" by auto
qed

end
