(* ===== verification/Coa_Alloc_Builders.thy ===== *)
theory Coa_Alloc_Builders
  imports Coa_Alloc
begin

text \<open>
  Every portable builder makes its nodes in a pool: the interface \<open>node_supplier\<close> is what a builder relies on,
  the interpretation at the end is the factory itself.
\<close>


section \<open>Requests without a name\<close>

definition unexposed :: "constraint option list \<Rightarrow> bool" where
  "unexposed cons \<longleftrightarrow> list_all (\<lambda>c. map_option type_of_constraint c \<noteq> Some ExposedNameC) cons"

lemma extend_unexposed:
  "extend_constraints cs cons = Inr cs' \<Longrightarrow> unexposed cons \<Longrightarrow> ExposedNameC \<notin> set (constraint_types cs) \<Longrightarrow>
     ExposedNameC \<notin> set (constraint_types cs')"
proof (induction cs cons arbitrary: cs' rule: extend_constraints.induct)
  case (3 cs c xs)
  then obtain cs1 where cs1: "add_constraint cs c = Inr cs1" "extend_constraints cs1 xs = Inr cs'" by auto
  have "ExposedNameC \<notin> set (constraint_types cs1)"
    using add_types [OF cs1(1)] 3 by (auto simp: unexposed_def)
  with 3 cs1 show ?case by (auto simp: unexposed_def)
qed (auto simp: unexposed_def)

lemma made_unexposed: "make_constraint_set cons = Inr cs \<Longrightarrow> unexposed cons \<Longrightarrow> exposed_name cs = None"
  unfolding make_constraint_set_def
  by (rule payload_None(2)) (auto dest!: extend_unexposed simp: constraint_types_def)

lemma unexposed_simps [simp]:
  "unexposed []"
  "unexposed (None # xs) \<longleftrightarrow> unexposed xs"
  "unexposed (Some c # xs) \<longleftrightarrow> type_of_constraint c \<noteq> ExposedNameC \<and> unexposed xs"
  "t \<noteq> ExposedNameC \<Longrightarrow> unexposed (get_optional_constraint cs t # xs) \<longleftrightarrow> unexposed xs"
  by (auto simp: unexposed_def dest: get_optional_type)


section \<open>The interface\<close>

locale node_supplier =
  fixes sub :: request and env :: context_env
  assumes supplies: "sub k cs s = Inr (r, s') \<Longrightarrow> exposed_name cs = None \<Longrightarrow>
      grows s s' \<and> (\<forall>n. r = Some n \<longrightarrow> is_instance n k \<and> good env {} s s' (nodes n))"
begin

lemma pool_sub:
  assumes "exposed_name cs = None"
  shows "allocates env {} L (sub k cs) (\<lambda>r. \<forall>n. r = Some n \<longrightarrow> is_instance n k) result_nodes"
proof (rule poolI)
  fix s0 s N r s'
  assume N: "good env {} s0 s N" "avail N L" and r: "sub k cs s = Inr (r, s')"
  note made = supplies [OF r assms]
  show "(\<forall>n. r = Some n \<longrightarrow> is_instance n k) \<and> (\<exists>N'. good env {} s0 s' N' \<and> avail N' (result_nodes r @ L))"
  proof (cases r)
    case None
    with N made show ?thesis by (auto intro: good_later)
  next
    case (Some n)
    with made have n: "is_instance n k" "good env {} s s' (nodes n)" by auto
    with good_union [OF N(1) n(2)] avail_union [OF N(1) n(2) N(2)] Some show ?thesis by auto
  qed
qed

lemma pool_ask_step:
  assumes "unexposed cons"
  shows "allocates env {} L (ask sub k cons) (\<lambda>r. \<forall>n. r = Some n \<longrightarrow> is_instance n k) result_nodes"
proof (cases "make_constraint_set cons")
  case (Inl e)
  then show ?thesis by (intro poolI) (simp add: ask_def gbind_def glift_def)
next
  case (Inr cs)
  have "ask sub k cons = sub k cs" by (rule ext) (simp add: ask_def Inr gbind_def glift_def)
  with pool_sub made_unexposed [OF Inr assms] show ?thesis by simp
qed

lemma pool_ask_some:
  assumes "unexposed cons" "\<And>n. is_instance n k \<Longrightarrow> allocates env X (n # L) (f n) C F" "C None" "F None = []"
  shows "allocates env X L (obind (ask sub k cons) f) C F"
  by (rule pool_obind [where C = "\<lambda>n. is_instance n k" and G = "\<lambda>n. [n]"])
    (use pool_ask_step [OF assms(1)] assms(2-4) in simp_all)

lemma pool_ask:
  assumes "unexposed cons" "\<And>r. \<forall>n. r = Some n \<longrightarrow> is_instance n k \<Longrightarrow> allocates env X (result_nodes r @ L) (f r) C F"
  shows "allocates env X L (gbind (ask sub k cons) f) C F"
  by (rule pool_bind [OF pool_ask_step [OF assms(1)] assms(2)])

lemma pool_source:
  assumes "\<And>n. is_source n \<Longrightarrow> allocates env X (n # L) (f n) C F" "C None" "F None = []"
  shows "allocates env X L (obind (dispatch_source sub ocs) f) C F"
  unfolding dispatch_source_def
  by (rule pool_ask_some) (use assms in \<open>auto split: option.split\<close>)

lemma pool_key:
  assumes "\<And>kr. is_relation (kr_relation kr) \<Longrightarrow> allocates env X (kr_relation kr # L) (f kr) C F" "C None" "F None = []"
  shows "allocates env X L (obind (materialize_row_key sub env nm) f) C F"
proof (rule pool_obind [where C = "\<lambda>kr. is_relation (kr_relation kr)" and G = "\<lambda>kr. [kr_relation kr]"])
  show "allocates env {} L (materialize_row_key sub env nm) (\<lambda>r. \<forall>kr. r = Some kr \<longrightarrow> is_relation (kr_relation kr))
      (\<lambda>r. case r of None \<Rightarrow> [] | Some kr \<Rightarrow> [kr_relation kr])"
    unfolding materialize_row_key_def Let_def
    by (cases "passthrough_items env")
      (auto intro!: pool_return pool_ask split: option.split)
qed (use assms in simp_all)

end

lemmas pool_norm = gbind_assoc gbind_return obind_some obind_return obind_gbind obind_obind gsome_bind gsome_return

section \<open>The builders\<close>

text \<open>What a builder does to the pool: one node more, of the name the request gives.\<close>

abbreviation makes_node :: "context_env \<Rightarrow> constraint_set \<Rightarrow> eqnode option gen \<Rightarrow> bool" where
  "makes_node env cs m \<equiv> allocates env (given_names (exposed_name cs)) [] m (\<lambda>r. True) result_nodes"

lemma pool_done: "n \<in> set L \<Longrightarrow> allocates env X L (greturn (Some n)) (\<lambda>r. True) result_nodes"
  by (rule pool_return) simp_all

lemma pool_nothing: "allocates env X L (greturn None) (\<lambda>r. True) result_nodes"
  by (rule pool_return) simp_all

lemma pool_if: "(b \<Longrightarrow> allocates env X L m C F) \<Longrightarrow> (\<not> b \<Longrightarrow> allocates env X L m' C F) \<Longrightarrow> allocates env X L (if b then m else m') C F"
  by simp

lemma relation_source: "is_relation n \<Longrightarrow> is_source n"
  by (simp add: is_source_def)

lemmas pool_ends = pool_done pool_nothing pool_raise

lemmas pool_makes =
  pool_select pool_select_full pool_union pool_except pool_intersect pool_join pool_cte pool_lateral pool_create

context node_supplier begin

lemmas pool_asks = pool_source pool_key pool_ask_some

lemma base_source_nodes: "makes_node env cs (build_base_table_source sub env cs)"
  unfolding build_base_table_source_def gsome_def by (rule pool_base, rule pool_done) simp

lemma select_nodes:
  "makes_node env cs (build_select_star sub env cs)"
  "makes_node env cs (build_explicit_projection sub env cs)"
  "makes_node env cs (build_cte sfx mt sub env cs)"
  "makes_node env cs (build_lateral sub env cs)"
  "makes_node env cs (build_qualify sub env cs)"
  "makes_node env cs (build_ordered_scan sub env cs)"
  unfolding build_select_star_def build_explicit_projection_def build_cte_def build_lateral_def build_qualify_def
    build_ordered_scan_def Let_def gsome_def pool_norm
  by (rule pool_if pool_ends pool_asks pool_inert [OF inert_name] | rule pool_makes | simp)+
end

text \<open>Loops.\<close>

lemma pool_map:
  assumes "\<And>x L'. set L \<subseteq> set L' \<Longrightarrow> allocates env {} L' (g x) R (\<lambda>n. [n])" "set L \<subseteq> set L1"
  shows "allocates env {} L1 (gmap g xs) (list_all R) (\<lambda>ns. ns)"
  using assms(2)
proof (induction xs arbitrary: L1)
  case Nil
  then show ?case by (simp add: pool_return)
next
  case (Cons x xs)
  show ?case
    unfolding gmap.simps
  proof (rule pool_bind [OF assms(1) [OF Cons.prems]])
    fix y
    assume y: "R y"
    show "allocates env {} ([y] @ L1) (gbind (gmap g xs) (\<lambda>ys. greturn (y # ys))) (list_all R) (\<lambda>ns. ns)"
      by (rule pool_bind [OF Cons.IH]) (use Cons.prems y in \<open>auto intro!: pool_return\<close>)
  qed
qed

lemma pool_map_some:
  assumes "\<And>x L. allocates env {} L (g x) (\<lambda>r. \<forall>n. r = Some n \<longrightarrow> R n) result_nodes"
  shows "allocates env {} L (gmap_some g xs) (\<lambda>r. \<forall>ns. r = Some ns \<longrightarrow> list_all R ns) (\<lambda>r. case r of None \<Rightarrow> [] | Some ns \<Rightarrow> ns)"
proof (induction xs arbitrary: L)
  case Nil
  then show ?case by (simp add: pool_return)
next
  case (Cons x xs)
  show ?case
    unfolding gmap_some.simps
  proof (rule pool_obind [where G = "\<lambda>n. [n]", OF assms])
    fix y
    assume y: "R y"
    show "allocates env {} ([y] @ L) (obind (gmap_some g xs) (\<lambda>ys. greturn (Some (y # ys)))) (\<lambda>r. \<forall>ns. r = Some ns \<longrightarrow> list_all R ns)
        (\<lambda>r. case r of None \<Rightarrow> [] | Some ns \<Rightarrow> ns)"
      by (rule pool_obind [OF Cons.IH]) (use y in \<open>auto intro!: pool_return\<close>)
  qed simp_all
qed

lemma pool_split: "(\<And>a b. x = (a, b) \<Longrightarrow> allocates env X L (f a b) C F) \<Longrightarrow> allocates env X L (case x of (a, b) \<Rightarrow> f a b) C F"
  by (cases x) simp

lemma inert_integer_key: "inert (pick_integer_key env)"
  unfolding pick_integer_key_def Let_def by (auto intro: inert_rules)

lemma inert_free: "inert (free_predicate env)"
  unfolding free_predicate_def Let_def by (auto intro!: inert_rules split: option.split)

lemma inert_mutation: "inert (mutation_predicate env)"
  unfolding mutation_predicate_def by (auto intro!: inert_rules inert_integer_key split: option.split prod.split)

lemma inert_plan: "inert (assignment_plan a env)"
proof -
  have "inert (per_column_plan specs cols plan)" for specs cols plan
    by (induction specs cols plan rule: per_column_plan.induct) (auto simp: Let_def simp del: fun_upd_apply intro!: inert_rules)
  then show ?thesis by (cases a) (simp_all add: inert_return)
qed

lemmas pool_inerts =
  pool_inert [OF inert_name] pool_inert [OF inert_choose] pool_inert [OF inert_choice] pool_inert_some [OF inert_integer_key]
  pool_inert_some [OF inert_predicate] pool_inert_some [OF inert_free] pool_inert [OF inert_mutation]

context node_supplier begin

lemma pool_branches:
  assumes "\<And>bs. list_all is_relation bs \<Longrightarrow> allocates env X (bs @ L) (f bs) C F" "C None" "F None = []"
  shows "allocates env X L (obind (gmap_some (branch sub cs) ps) f) C F"
proof (rule pool_obind [where C = "list_all is_relation" and G = "\<lambda>bs. bs"])
  have "allocates env {} L (branch sub cs p) (\<lambda>r. \<forall>n. r = Some n \<longrightarrow> is_relation n) result_nodes" for L p
    unfolding branch_def using pool_ask_step [of "[Some (RowFilterConstraint (conjoin (current_filter cs) p))]" L WantRelation] by simp
  then show "allocates env {} L (gmap_some (branch sub cs) ps) (\<lambda>r. \<forall>ns. r = Some ns \<longrightarrow> list_all is_relation ns)
      (\<lambda>r. case r of None \<Rightarrow> [] | Some bs \<Rightarrow> bs)"
    by (rule pool_map_some)
qed (use assms in simp_all)

lemma relations_sources: "list_all is_relation bs \<Longrightarrow> list_all is_source bs"
  by (auto simp: list_all_iff relation_source)

lemma more_select_nodes:
  "makes_node env cs (build_add_drop_column sub env cs)"
  "makes_node env cs (build_distinct_as_group_by sub env cs)"
  "makes_node env cs (build_projection sub env cs)"
  unfolding build_add_drop_column_def build_distinct_as_group_by_def build_projection_def Let_def gsome_def pool_norm
    generate_column_name_def
  by (cases "column_rewrite cs";
      (rule pool_if pool_ends pool_asks pool_inerts | rule pool_makes | simp add: relation_source | (simp; fail))+)+

lemma split_nodes:
  "makes_node env cs (build_partition_union sub env cs)"
  "makes_node env cs (build_tlp_union sub env cs)"
  "makes_node env cs (build_distinct_union_duplicate sub env cs)"
  unfolding build_partition_union_def build_tlp_union_def build_distinct_union_duplicate_def Let_def gsome_def pool_norm
    generate_column_name_def
  by (rule pool_if pool_ends pool_asks pool_inerts pool_branches pool_split | rule pool_makes
      | simp add: relation_source relations_sources)+

lemma rank_mod_nodes: "makes_node env cs (build_rank_mod_union sub env cs)"
  unfolding build_rank_mod_union_def Let_def gsome_def pool_norm generate_column_name_def
proof (rule pool_inerts pool_asks pool_if pool_ends | (simp; fail))+
  fix modulus rank_name kr
  assume kr: "is_relation (kr_relation kr)"
  let ?L = "[kr_relation kr]"
  show "allocates env (given_names (exposed_name cs)) ?L (gbind (gmap (\<lambda>residue.
      gbind (mk_select (kr_relation kr) (Some (kr_items kr)) (Some (eq (mod_e (col rank_name IntegerType) (int modulus)) (int_lit (int residue)))))
        (\<lambda>query. create_as env CreateView query None)) [0..<modulus])
     (\<lambda>branches. gbind (mk_union branches) (\<lambda>x. greturn (Some x)))) (\<lambda>r. True) result_nodes"
  proof (rule pool_bind [OF pool_map [where L = ?L, where R = is_relation, OF _ subset_refl]])
    fix residue L'
    assume L': "set ?L \<subseteq> set L'"
    show "allocates env {} L' (gbind (mk_select (kr_relation kr) (Some (kr_items kr))
        (Some (eq (mod_e (col rank_name IntegerType) (int modulus)) (int_lit (int residue))))) (\<lambda>query. create_as env CreateView query None))
        is_relation (\<lambda>n. [n])"
      by (rule pool_select, use L' in simp, rule relation_source [OF kr], rule pool_create_as [of _ _ None, unfolded given_names_def option.case])
        simp_all
  next
    fix bs
    assume "list_all is_relation bs"
    then show "allocates env (given_names (exposed_name cs)) (bs @ ?L) (gbind (mk_union bs) (\<lambda>x. greturn (Some x))) (\<lambda>r. True) result_nodes"
      by (intro pool_union pool_done) (auto simp: relations_sources)
  qed
qed simp_all

lemma two_sided_nodes:
  assumes "unexposed cons" "\<And>l r L. is_relation l \<Longrightarrow> is_relation r \<Longrightarrow> {l, r} \<subseteq> set L \<Longrightarrow> allocates env X L (combine l r) D (\<lambda>n. [n])"
  shows "allocates env X [] (two_sides sub cons combine) (\<lambda>r. True) result_nodes"
  unfolding two_sides_def
proof (rule pool_ask, simp, rule pool_ask [OF assms(1)])
  fix l r
  assume l: "\<forall>n. l = Some n \<longrightarrow> is_instance n WantRelation" and r: "\<forall>n. r = Some n \<longrightarrow> is_instance n WantRelation"
  show "allocates env X (result_nodes r @ result_nodes l @ []) (case (l, r) of (Some l, Some r) \<Rightarrow> gsome (combine l r) | _ \<Rightarrow> greturn None)
      (\<lambda>r. True) result_nodes"
    using l r by (cases l; cases r) (auto intro!: pool_nothing pool_some [OF assms(2)])
qed

lemma combined_nodes:
  "makes_node env cs (build_union_empty sub env cs)"
  "makes_node env cs (build_except_empty sub env cs)"
  "makes_node env cs (build_intersect_self sub env cs)"
  "makes_node env cs (build_left_join_empty sub env cs)"
proof -
  have query: "allocates env X L m (\<lambda>n. True) (\<lambda>n. [n])" if "allocates env X L (gbind m greturn) (\<lambda>n. True) (\<lambda>n. [n])" for X L and m :: "eqnode gen"
  proof -
    have "gbind m greturn = m" by (rule ext) (simp add: gbind_def greturn_def split: sum.split prod.split)
    with that show ?thesis by simp
  qed
  have ended: "allocates env X (n # L) (greturn n) (\<lambda>n. True) (\<lambda>n. [n])" for X L n
    by (rule pool_return) simp_all
  show "makes_node env cs (build_union_empty sub env cs)"
    unfolding build_union_empty_def
    by (rule two_sided_nodes [where D = "\<lambda>n. True"]) (simp, rule query, rule pool_union, simp_all add: relation_source ended)
  show "makes_node env cs (build_except_empty sub env cs)"
    unfolding build_except_empty_def
    by (rule two_sided_nodes [where D = "\<lambda>n. True"]) (simp, rule query, rule pool_except, simp_all add: relation_source ended)
  show "makes_node env cs (build_intersect_self sub env cs)"
    unfolding build_intersect_self_def
    by (rule two_sided_nodes [where D = "\<lambda>n. True"]) (simp, rule query, rule pool_intersect, simp_all add: relation_source ended)
  have join: "allocates env X [] (two_sides sub [Some (RowFilterConstraint empty_predicate)] (\<lambda>l r.
             mk_join l r (Some (eq (int_lit 1) (int_lit 1))) ''LEFT OUTER''
               (qualified_items ''l'' (passthrough_items env)) ''l'' ''r'' None)) (\<lambda>r. True) result_nodes" for X
    by (rule two_sided_nodes [where D = "\<lambda>n. True"]) (simp, rule query, rule pool_join, simp_all add: relation_source ended)
  show "makes_node env cs (build_left_join_empty sub env cs)"
    unfolding build_left_join_empty_def using join pool_nothing by simp
qed
end

end
