(* ===== verification/Coa_Alloc_Factory.thy ===== *)
theory Coa_Alloc_Factory
  imports Coa_Alloc_Builders
begin

text \<open>
  The remaining portable builders on pools (joins, expansions, tables that are written to), then the dispatch:
  every tree \<open>build_subtree\<close> returns tells its objects apart and writes each table from one place.
\<close>


section \<open>Rewriters and joins\<close>

lemma inert_codec: "inert (codec_rewriter a env)"
  unfolding codec_rewriter_def by (intro inert_bind inert_plan inert_return)

lemma rewriter_steps:
  "inert (eet_rewriter env)" "eet_rewriter env s = Inr (f, s') \<Longrightarrow> inert (f nm ty)"
  "inert (window_rewriter env)" "window_rewriter env s = Inr (f, s') \<Longrightarrow> inert (f nm ty)"
  "codec_rewriter a env s = Inr (f, s') \<Longrightarrow> inert (f nm ty)"
proof -
  show "inert (eet_rewriter env)"
    unfolding eet_rewriter_def by (auto intro!: inert_bind inert_free inert_return split: option.split)
  show "inert (window_rewriter env)"
    unfolding window_rewriter_def Let_def by (intro inert_bind inert_choose inert_return)
  show "inert (f nm ty)" if "eet_rewriter env s = Inr (f, s')"
    using that unfolding eet_rewriter_def gbind_def
    by (auto simp: greturn_def split: sum.splits option.splits intro!: inert_obind inert_free inert_return [unfolded greturn_def])
  show "inert (f nm ty)" if "window_rewriter env s = Inr (f, s')"
    using that unfolding window_rewriter_def gbind_def Let_def
    by (auto simp: greturn_def [of "\<lambda>nm ty. X nm ty" for X] split: sum.splits intro!: inert_return)
  show "inert (f nm ty)" if "codec_rewriter a env s = Inr (f, s')"
    using that unfolding codec_rewriter_def gbind_def
    by (auto simp: greturn_def [of "\<lambda>nm ty. X nm ty" for X] split: sum.splits intro!: inert_return)
qed

lemma inert_bind_run: "inert m \<Longrightarrow> (\<And>s x s'. m s = Inr (x, s') \<Longrightarrow> inert (f x)) \<Longrightarrow> inert (gbind m f)"
  unfolding inert_def gbind_def by (fastforce split: sum.splits intro: grows_trans)

context node_supplier begin

lemma column_rewrite_nodes:
  assumes "inert (w env)" "\<And>s f s' nm ty. w env s = Inr (f, s') \<Longrightarrow> inert (f nm ty)"
  shows "makes_node env cs (column_rewrite_build w sub env cs)"
proof -
  let ?items = "\<lambda>rewrite. gmap (\<lambda>c. gbind (rewrite (col_name c) (col_type c)) (\<lambda>rewritten.
        greturn (case rewritten of
            None \<Rightarrow> (ProjectionItem (col_name c) (col (col_name c) (col_type c)) (col_type c), False)
          | Some e \<Rightarrow> (ProjectionItem (col_name c) e (col_type c), True)))) (tab_columns (base_table env))"
  have "column_rewrite_build w sub env cs = gbind (gbind (w env) ?items) (\<lambda>items.
     if \<not> list_ex snd items then greturn None
     else obind (dispatch_source sub None) (\<lambda>source. gsome (mk_select source (Some (map fst items)) None)))"
    unfolding column_rewrite_build_def gbind_assoc ..
  moreover have "inert (gbind (w env) ?items)"
    by (rule inert_bind_run [OF assms(1)]) (auto intro!: inert_map inert_bind assms(2) inert_return)
  ultimately show ?thesis
    unfolding gsome_def
    by (simp only:) (rule pool_inert, assumption, (rule pool_if pool_ends pool_asks | rule pool_makes | simp)+)
qed

lemma rewriting_nodes:
  "makes_node env cs (build_codec a sub env cs)"
  "makes_node env cs (build_eet_case sub env cs)"
  "makes_node env cs (build_window_rewrite sub env cs)"
  unfolding build_codec_def build_eet_case_def build_window_rewrite_def
  by (rule column_rewrite_nodes, rule inert_codec, erule rewriter_steps(5))
    (rule column_rewrite_nodes, rule rewriter_steps(1), erule rewriter_steps(2),
     rule column_rewrite_nodes, rule rewriter_steps(3), erule rewriter_steps(4))

lemma eet_filter_nodes: "makes_node env cs (build_eet_filter sub env cs)"
  unfolding build_eet_filter_def gsome_def
  by (rule pool_inert_some [OF inert_free] pool_ends pool_asks | rule pool_makes | simp)+

lemma join_nodes:
  "makes_node env cs (build_semi_join sub env cs)"
  "makes_node env cs (build_flag_join sub env cs)"
  "makes_node env cs (build_sequence_join sub env cs)"
  "makes_node env cs (build_cross_join sub env cs)"
  unfolding build_semi_join_def build_flag_join_def build_sequence_join_def build_cross_join_def Let_def gsome_def pool_norm
    generate_column_name_def
  by (rule pool_if pool_ends pool_asks pool_inerts | rule pool_makes | simp add: relation_source)+

end

section \<open>Relations of the requested name\<close>

abbreviation allowed_name :: "context_env \<Rightarrow> constraint_set \<Rightarrow> bool" where
  "allowed_name env cs \<equiv> given_names (exposed_name cs) \<inter> minted env = {}"

lemma pool_create_last:
  "q \<in> set L \<Longrightarrow> is_query q \<Longrightarrow> given_names given \<inter> minted env = {} \<Longrightarrow>
     allocates env (given_names given) L (gsome (create_as env c q given)) (\<lambda>_. True) result_nodes"
  by (rule pool_some [OF pool_create_as])

lemma pool_end: "allocates env X L (gbind m greturn) C F \<Longrightarrow> allocates env X L m C F"
proof -
  have "gbind m greturn = m" by (rule ext) (simp add: gbind_def greturn_def split: sum.split prod.split)
  then show "allocates env X L (gbind m greturn) C F \<Longrightarrow> allocates env X L m C F" by simp
qed

lemma pool_wrap:
  assumes "q \<in> set L" "is_query q" "given_names given \<inter> minted env = {}"
  shows "allocates env (given_names given) L (wrap_query env cls q given) is_relation (\<lambda>n. [n])"
  unfolding wrap_query_def
  by (rule pool_if) (use assms in \<open>auto intro!: pool_create pool_select pool_create_as simp: relation_source\<close>)

lemma pool_delete_reinsert:
  assumes "q \<in> set L" "is_query q" "given_names given \<inter> minted env = {}"
  shows "allocates env (given_names given) L (delete_reinsert_build env q (base_table env) p given) is_relation (\<lambda>n. [n])"
  unfolding delete_reinsert_build_def Let_def
  by (rule pool_object [where mk = "\<lambda>i nm. DeleteReinsertTable i q (base_table env) p
        [TableObject nm ''TABLE'' (Some q) '''', DeleteStep nm p,
         InsertStep nm (map fst (get_signature q)) (get_sql_name (base_table env) True) p None None]
        (TableObject nm ''TABLE'' (Some q) '''')"])
    (use assms in \<open>simp_all add: materialized_name_def\<close>)

lemma pool_noop_update:
  assumes "q \<in> set L" "is_query q" "given_names given \<inter> minted env = {}"
  shows "allocates env (given_names given) L (noop_update_build env q a p given) is_relation (\<lambda>n. [n])"
  unfolding noop_update_build_def Let_def
  by (rule pool_object [where mk = "\<lambda>i nm. NoopUpdateTable i q a p [TableObject nm ''TABLE'' (Some q) '''', UpdateStep nm a p]
        (TableObject nm ''TABLE'' (Some q) '''')"])
    (use assms in \<open>simp_all add: materialized_name_def\<close>)

context node_supplier begin

lemma create_nodes:
  assumes "allowed_name env cs"
  shows "makes_node env cs (build_create cls sub env cs)"
    "makes_node env cs (build_delete_reinsert sub env cs)"
    "makes_node env cs (build_noop_update sub env cs)"
  unfolding build_create_def query_constraints_def build_delete_reinsert_def build_noop_update_def Let_def
  by (rule pool_if pool_ends pool_asks pool_inerts pool_some pool_wrap pool_delete_reinsert pool_noop_update
      | simp add: assms)+

lemma reduced_nodes:
  assumes "\<And>child tag. is_relation child \<Longrightarrow> allocates env X (child # L) (f (child, passthrough_items env, tag)) C F" "C None" "F None = []"
  shows "allocates env X L (obind (build_reduced d sub env) f) C F"
  unfolding build_reduced_def Let_def generate_column_name_def
proof (rule pool_obind [where C = "\<lambda>(child, items, tag). is_relation child \<and> items = passthrough_items env" and G = "\<lambda>(child, items, tag). [child]"])
  show "allocates env {} L (if passthrough_items env = [] then greturn None
       else gbind (generate_object_name ''eq_tag'') (\<lambda>tag_col.
           obind (ask sub WantRelation
                    (Some (TagChannelConstraint tag_col keep_mark)
                     # (if d then [Some AcceptsDmlConstraint] else []))) (\<lambda>child.
           greturn (Some (child, passthrough_items env, tag_col)))))
     (\<lambda>r. \<forall>x. r = Some x \<longrightarrow> (case x of (child, items, tag) \<Rightarrow> is_relation child \<and> items = passthrough_items env))
     (\<lambda>r. case r of None \<Rightarrow> [] | Some x \<Rightarrow> (case x of (child, items, tag) \<Rightarrow> [child]))"
    by (rule pool_if pool_asks pool_inerts | rule pool_return | simp)+
qed (use assms in auto)

lemma keyed_nodes:
  assumes "\<And>child key. is_relation child \<Longrightarrow> allocates env X (child # L) (f (child, passthrough_items env, key)) C F" "C None" "F None = []"
  shows "allocates env X L (obind (build_keyed sub env) f) C F"
  unfolding build_keyed_def Let_def generate_column_name_def
proof (rule pool_obind [where C = "\<lambda>(child, items, tag). is_relation child \<and> items = passthrough_items env" and G = "\<lambda>(child, items, tag). [child]"])
  show "allocates env {} L (if passthrough_items env = [] then greturn None
       else gbind (generate_object_name ''eq_key'') (\<lambda>key_col.
           obind (ask sub WantRelation [Some (KeyChannelConstraint (KeySpec key_col IDENTITY False))]) (\<lambda>child.
           greturn (Some (child, passthrough_items env, key_col)))))
     (\<lambda>r. \<forall>x. r = Some x \<longrightarrow> (case x of (child, items, tag) \<Rightarrow> is_relation child \<and> items = passthrough_items env))
     (\<lambda>r. case r of None \<Rightarrow> [] | Some x \<Rightarrow> (case x of (child, items, tag) \<Rightarrow> [child]))"
    by (rule pool_if pool_asks pool_inerts | rule pool_return | simp)+
qed (use assms in auto)

lemma pool_drop_key:
  assumes "q \<in> set L" "is_query q" "allowed_name env cs"
  shows "allocates env (given_names (exposed_name cs)) L (drop_key_view env cs items q) (\<lambda>r. True) result_nodes"
  unfolding drop_key_view_def
  by (rule pool_create [OF assms(1,2)], rule pool_select) (simp_all add: relation_source pool_create_last assms(3))

lemma reducer_nodes:
  assumes "allowed_name env cs"
  shows "makes_node env cs (build_tag_prune_filter sub env cs)"
    "makes_node env cs (build_key_distinct sub env cs)"
    "makes_node env cs (build_key_group sub env cs)"
    "makes_node env cs (build_key_window sub env cs)"
    "makes_node env cs (build_key_qualify sub env cs)"
  unfolding build_tag_prune_filter_def build_key_distinct_def build_key_group_def build_key_window_def build_key_qualify_def
    Let_def
  by (rule pool_if pool_ends reduced_nodes keyed_nodes pool_select pool_select_full pool_create_last pool_drop_key
      | simp add: assms relation_source)+

lemma explode_nodes:
  "makes_node env cs (build_tag_explode sub env cs)"
  "makes_node env cs (build_key_explode sub env cs)"
  unfolding build_tag_explode_def build_key_explode_def Let_def gsome_def
  by (cases "tag_channel cs"; cases "key_channel cs";
      (rule pool_if pool_ends pool_asks pool_inerts pool_split | rule pool_makes | simp add: relation_source | (auto simp: relation_source list_all_iff; fail))+)+

end

section \<open>Writers\<close>

lemma good_earlier: "good env X s s' N \<Longrightarrow> grows s0 s \<Longrightarrow> good env X s0 s' N"
  unfolding good_def new_name_def grows_def by fastforce

text \<open>A writer on top of a tree of its own: its child is nobody else's.\<close>

lemma good_writer:
  assumes N: "good env {} s0 s (nodes c)" and w: "children w = [c]" "writes_child w" "node_fits (base_table env) w"
    and g: "grows s s'" and i: "next_id s \<le> node_id w" "node_id w < next_id s'"
    and name: "owner w = owner c \<and> materialized_name w = materialized_name c \<and> is_relation c
      \<or> owner w = w \<and> (\<exists>nm. materialized_name w = Some nm \<and> (nm \<in> issued s \<longrightarrow> nm \<notin> minted env) \<and> new_name env X s s' nm)"
  shows "good env X s0 s' (nodes w)"
proof -
  have nodes_w: "nodes w = insert w (nodes c)" using w(1) by (subst nodes.simps) simp
  have g0: "grows s0 s" using N by (simp add: good_def)
  have ids: "node_id m \<noteq> node_id w" if "m \<in> nodes c" for m using N that i unfolding good_def by fastforce
  then have new: "w \<notin> nodes c" by blast
  have unread: "c \<notin> set (children p)" if "p \<in> nodes c" for p
    using node_size [OF that] children_size [of c p] by auto
  have "node_id w \<notin> node_id ` nodes c" using ids by fastforce
  then have "inj_on node_id (insert w (nodes c))" using N new by (simp add: good_def)
  moreover have "closed_nodes (insert w (nodes c))" using N w(1) by (auto simp: good_def closed_nodes_def)
  moreover have "written_once (insert w (nodes c))"
    unfolding written_once_def
  proof (intro ballI impI)
    fix v d p
    assume v: "v \<in> insert w (nodes c)" "d \<in> set (children v)" "writes_child v" and p: "p \<in> insert w (nodes c)" "d \<in> set (children p)"
    show "p = v"
    proof (cases "v = w \<or> p = w")
      case True
      then have "d = c" using v(2) p(2) w(1) by auto
      with v p unread show ?thesis by auto
    next
      case False
      with v p have "v \<in> nodes c" "p \<in> nodes c" by auto
      with N v p show ?thesis using written_onceD [of "nodes c" v d p] by (simp add: good_def)
    qed
  qed
  moreover have "\<forall>m \<in> insert w (nodes c). next_id s0 \<le> node_id m \<and> node_id m < next_id s' \<and> node_fits (base_table env) m"
    using N g0 g i w(3) unfolding good_def grows_def by fastforce
  moreover have named: "\<exists>nm. materialized_name m = Some nm \<and> new_name env X s0 s' nm" if "m \<in> insert w (nodes c)" "is_relation m" for m
  proof -
    have old: "\<exists>nm. materialized_name m = Some nm \<and> new_name env X s0 s' nm" if "m \<in> nodes c" "is_relation m" for m
      using that N g unfolding good_def new_name_def grows_def by blast
    have "\<exists>nm. materialized_name w = Some nm \<and> new_name env X s0 s' nm"
      using name old [of c] g0 unfolding new_name_def grows_def by auto
    with old that show ?thesis by blast
  qed
  moreover have "one_owner (insert w (nodes c))"
    unfolding one_owner_def
  proof (intro ballI impI)
    have old: "owner k = owner m"
      if "k \<in> nodes c" "m \<in> nodes c" "is_relation k" "is_relation m" "materialized_name k = materialized_name m" for k m
      using that N unfolding good_def one_owner_def by blast
    have only: "owner m = owner w" if hyp: "m \<in> nodes c" "is_relation m" "materialized_name m = materialized_name w" for m
      using name
    proof
      assume "owner w = owner c \<and> materialized_name w = materialized_name c \<and> is_relation c"
      with old [of m c] hyp show ?thesis by simp
    next
      assume "owner w = w \<and> (\<exists>nm. materialized_name w = Some nm \<and> (nm \<in> issued s \<longrightarrow> nm \<notin> minted env) \<and> new_name env X s s' nm)"
      then obtain nm where nm: "materialized_name m = Some nm" "nm \<in> issued s \<longrightarrow> nm \<notin> minted env" using hyp(3) by metis
      moreover have "\<exists>nm. materialized_name m = Some nm \<and> new_name env {} s0 s nm" using N hyp(1,2) unfolding good_def by blast
      then have "nm \<in> issued s \<and> nm \<in> minted env" using nm(1) unfolding new_name_def by simp
      ultimately show ?thesis by blast
    qed
    fix k m
    assume km: "k \<in> insert w (nodes c)" "m \<in> insert w (nodes c)" "is_relation k" "is_relation m"
      "materialized_name k = materialized_name m"
    from km(1,2) consider "k = w" "m = w" | "k = w" "m \<in> nodes c" | "k \<in> nodes c" "m = w" | "k \<in> nodes c" "m \<in> nodes c" by blast
    then show "owner k = owner m"
    proof cases
      case 1
      then show ?thesis by simp
    next
      case 2
      show ?thesis unfolding 2(1) by (rule only [symmetric], rule 2(2), rule km(4), rule km(5) [unfolded 2(1), symmetric])
    next
      case 3
      show ?thesis unfolding 3(2) by (rule only, rule 3(1), rule km(3), rule km(5) [unfolded 3(2)])
    next
      case 4
      show ?thesis by (rule old [OF 4 km(3-5)])
    qed
  qed
  ultimately show ?thesis using grows_trans [OF g0 g] unfolding good_def nodes_w by blast
qed

text \<open>A builder whose only node request is the writer's child.\<close>

lemma makes_writer:
  assumes "\<And>s n s'. m s = Inr (Some n, s') \<Longrightarrow> good env (given_names (exposed_name cs)) s s' (nodes n)"
    and "\<And>s s'. m s = Inr (None, s') \<Longrightarrow> grows s s'"
  shows "makes_node env cs m"
proof (rule poolI)
  fix s0 s N r s'
  assume N: "good env {} s0 s N" and r: "m s = Inr (r, s')"
  then have g: "grows s0 s" by (simp add: good_def)
  show "True \<and> (\<exists>N'. good env (given_names (exposed_name cs)) s0 s' N' \<and> avail N' (result_nodes r @ []))"
  proof (cases r)
    case None
    with good_empty [OF grows_trans [OF g assms(2)]] r show ?thesis by (auto simp: avail_def)
  next
    case (Some n)
    have "c \<notin> set (children w)" if "c = n" "w \<in> nodes n" for c w
      using node_size [OF that(2)] children_size [of c w] that(1) by auto
    then have "avail (nodes n) [n]" by (simp add: avail_def unwritten_def)
    with good_earlier [OF assms(1) g] r Some show ?thesis by auto
  qed
qed

context node_supplier begin

lemma ask_supplies:
  assumes "ask sub k cons s = Inr (r, s')" "unexposed cons"
  shows "grows s s' \<and> (\<forall>n. r = Some n \<longrightarrow> is_instance n k \<and> good env {} s s' (nodes n))"
proof -
  from assms(1) obtain cs where "make_constraint_set cons = Inr cs" "sub k cs s = Inr (r, s')"
    by (auto simp: ask_def gbind_def glift_def split: sum.splits)
  with supplies made_unexposed assms(2) show ?thesis by blast
qed

lemma extras_nodes:
  assumes "unexposed cons"
  shows "makes_node env cs (obind (ask sub WantRelation cons) (\<lambda>child. gbind (child_name child) (\<lambda>target.
     gbind (mk_select child p w) (\<lambda>query. gsome (insert_extras_build child (f target query))))))" (is "makes_node env cs ?m")
proof (rule makes_writer)
  fix s s'
  assume "?m s = Inr (None, s')"
  then obtain s1 where "ask sub WantRelation cons s = Inr (None, s1)" "s' = s1"
    by (auto simp: obind_def gbind_def gsome_def greturn_def split: sum.splits option.splits prod.splits)
  with ask_supplies assms show "grows s s'" by blast
next
  fix s n s'
  assume "?m s = Inr (Some n, s')"
  then obtain c s1 nm q s2 where c: "ask sub WantRelation cons s = Inr (Some c, s1)" and nm: "child_name c s1 = Inr (nm, s1)"
    and q: "mk_select c p w s1 = Inr (q, s2)" and n: "insert_extras_build c (f nm q) s2 = Inr (n, s')"
    by (auto simp: obind_def gbind_def gsome_def greturn_def child_name_def graise_def split: sum.splits option.splits prod.splits)
  from ask_supplies [OF c assms] have made: "is_relation c" "good env {} s s1 (nodes c)" by auto
  from q have s2: "s2 = s1\<lparr>next_id := Suc (next_id s1)\<rparr>"
    by (auto simp: mk_select_def mk_select_full_def gbind_def new_id_step greturn_def)
  from n obtain e where e: "exposed_of c = Some e" and n: "n = InsertExtrasExpansion (next_id s2) c [f nm q] e"
    and s': "s' = s2\<lparr>next_id := Suc (next_id s2)\<rparr>"
    by (auto simp: insert_extras_build_def child_exposed_def gbind_def new_id_step greturn_def graise_def split: option.splits)
  have g: "grows s1 s'" unfolding s2 s' by (simp add: grows_def issued_def)
  show "good env (given_names (exposed_name cs)) s s' (nodes n)"
    by (rule good_writer [OF made(2) _ _ _ g]) (use made(1) e in \<open>simp_all add: n s2 s' materialized_name_def\<close>)
qed

lemma writer_nodes:
  "makes_node env cs (build_tag_insert_extras sub env cs)"
  "makes_node env cs (build_key_insert_extras sub env cs)"
  unfolding build_tag_insert_extras_def build_key_insert_extras_def Let_def
  by (cases "tag_channel cs"; cases "key_channel cs"; simp;
      (rule pool_if pool_nothing extras_nodes pool_split | simp add: pool_nothing)+)+

lemma tag_prune_nodes:
  assumes "allowed_name env cs"
  shows "makes_node env cs (build_tag_prune_delete sub env cs)" (is "makes_node env cs ?m")
proof (rule makes_writer)
  have reduced: "grows s s' \<and> (\<forall>c items tag. r = Some (c, items, tag) \<longrightarrow> is_relation c \<and> good env {} s s' (nodes c))"
    if "build_reduced True sub env s = Inr (r, s')" for s r s'
  proof (cases "passthrough_items env = []")
    case True
    with that show ?thesis by (simp add: build_reduced_def greturn_def)
  next
    case False
    with that obtain tag s1 c where tag: "generate_object_name ''eq_tag'' s = Inr (tag, s1)"
      and c: "ask sub WantRelation [Some (TagChannelConstraint tag keep_mark), Some AcceptsDmlConstraint] s1 = Inr (c, s')"
      and r: "r = map_option (\<lambda>c. (c, passthrough_items env, tag)) c"
      by (auto simp: build_reduced_def generate_column_name_def Let_def obind_def gbind_def greturn_def
          split: sum.splits option.splits prod.splits if_splits)
    have "grows s s1" by (rule inertD [OF inert_name tag])
    with ask_supplies [OF c] r show ?thesis by (auto intro: grows_trans good_earlier)
  qed
  {
    fix s s'
    assume "?m s = Inr (None, s')"
    then have "build_reduced True sub env s = Inr (None, s')"
      by (auto simp: build_tag_prune_delete_def obind_def gbind_def gsome_def greturn_def split: sum.splits option.splits prod.splits)
    with reduced show "grows s s'" by blast
  }
  fix s n s'
  assume "?m s = Inr (Some n, s')"
  then obtain c items tag s1 where c: "build_reduced True sub env s = Inr (Some (c, items, tag), s1)"
    and n: "tag_prune_delete_build env c items tag keep_mark (exposed_name cs) s1 = Inr (n, s')"
    by (auto simp: build_tag_prune_delete_def obind_def gbind_def gsome_def greturn_def split: sum.splits option.splits prod.splits)
  from n obtain nm s2 st q where nm: "take_name env (exposed_name cs) ''view'' s1 = Inr (nm, s2)"
    and n: "n = TagPruneDeleteTable (Suc (next_id s2)) c items tag keep_mark st (ViewObject nm ''VIEW'' (Some q) '''')"
    and s': "s' = s2\<lparr>next_id := Suc (Suc (next_id s2))\<rparr>"
    by (auto simp: tag_prune_delete_build_def child_name_def Let_def gbind_def new_id_step greturn_def graise_def mk_select_def
        mk_select_full_def split: option.splits sum.splits prod.splits)
  note name = take_name_step [OF nm assms]
  from reduced [OF c] have made: "is_relation c" "good env {} s s1 (nodes c)" by auto
  have g: "grows s1 s'" using name unfolding s' grows_def issued_def by auto
  have "new_name env (given_names (exposed_name cs)) s1 s' nm" using name by (auto simp: new_name_def s' issued_def)
  then show "good env (given_names (exposed_name cs)) s s' (nodes n)"
    using name made(1)
    by (intro good_writer [OF made(2) _ _ _ g]) (simp_all add: n s' materialized_name_def owner_self)
qed

end

section \<open>The dispatch\<close>

abbreviation supplied :: "context_env \<Rightarrow> string set \<Rightarrow> gen_state \<Rightarrow> eqnode option \<Rightarrow> gen_state \<Rightarrow> bool" where
  "supplied env X s r s' \<equiv> grows s s' \<and> (\<forall>n. r = Some n \<longrightarrow> good env X s s' (nodes n))"

lemma makes_supplied:
  assumes "makes_node env cs m" "m s = Inr (r, s')"
  shows "supplied env (given_names (exposed_name cs)) s r s'"
proof -
  obtain N where "good env (given_names (exposed_name cs)) s s' N" "avail N (result_nodes r @ [])"
    using poolD [OF assms(1) good_empty [OF grows_refl] _ assms(2)] by (auto simp: avail_def)
  then have "grows s s'" "\<forall>n. r = Some n \<longrightarrow> n \<in> N" by (auto simp: good_def avail_def split: option.splits)
  with \<open>good env _ s s' N\<close> show ?thesis by (auto intro: good_node)
qed

lemma enter_step: "gbind enter_builder f s = f (node_total s) (s\<lparr>depth := Suc (depth s)\<rparr>)"
  by (simp add: enter_builder_def gbind_def gread_def gmodify_def greturn_def)

lemma gbind_Inr: "gbind m f s = Inr y \<Longrightarrow> \<exists>x s1. m s = Inr (x, s1) \<and> f x s1 = Inr y"
  by (auto simp: gbind_def split: sum.splits)

context node_supplier begin

lemma builder_nodes:
  assumes "b \<in> set PORTABLE_BUILDERS" "allowed_name env cs"
  shows "makes_node env cs (b_build b sub env cs)"
  using assms(1)
  by (auto simp: PORTABLE_BUILDERS_def create_builders_def query_builders_def expansion_builders_def builder_of_def leaf_builder_def
      simp del: Coa_Rewrites.build_create_def
      intro: base_source_nodes select_nodes more_select_nodes split_nodes rank_mod_nodes combined_nodes rewriting_nodes eet_filter_nodes
        join_nodes create_nodes [OF assms(2)] reducer_nodes [OF assms(2)] explode_nodes writer_nodes tag_prune_nodes [OF assms(2)])

lemma run_nodes:
  assumes "b \<in> set PORTABLE_BUILDERS" "allowed_name env cs" "run_builder b sub env cs s = Inr (r, s')"
  shows "supplied env (given_names (exposed_name cs)) s r s'"
proof -
  from assms(3) have "b_build b sub env cs s = Inr (r, s')"
    by (auto simp: run_builder_def obind_def gbind_def greturn_def gassert_def graise_def split: sum.splits option.splits prod.splits if_splits)
  with makes_supplied [OF builder_nodes [OF assms(1,2)]] show ?thesis by blast
qed

lemma try_nodes:
  assumes "allowed_name env cs" "set bs \<subseteq> set PORTABLE_BUILDERS" "try_builders sub env cs bs s = Inr (r, s')"
  shows "supplied env (given_names (exposed_name cs)) s r s'"
  using assms(2,3)
proof (induction bs arbitrary: s)
  case Nil
  then show ?case by (simp add: greturn_def)
next
  case (Cons b bs)
  let ?s = "s\<lparr>depth := Suc (depth s)\<rparr>"
  have enter: "grows s ?s" by (rule grows_fields)
  from gbind_Inr [OF Cons.prems(2) [unfolded try_builders.simps enter_step]]
  obtain r1 s1 where run: "run_builder b sub env cs ?s = Inr (r1, s1)"
    and rest: "(case r1 of Some n \<Rightarrow> gbind (commit_builder (b_name b)) (\<lambda>_. greturn (Some n))
         | None \<Rightarrow> gbind (abandon_builder (node_total s)) (\<lambda>_. try_builders sub env cs bs)) s1 = Inr (r, s')"
    by blast
  have b: "supplied env (given_names (exposed_name cs)) ?s r1 s1"
    by (rule run_nodes [OF _ assms(1) run]) (use Cons.prems(1) in simp)
  show ?case
  proof (cases r1)
    case None
    let ?s1 = "s1\<lparr>depth := depth s1 - 1, node_total := node_total s\<rparr>"
    have "grows s1 ?s1" by (simp add: grows_def issued_def)
    then have "grows s ?s1" using b enter by (blast intro: grows_trans)
    moreover from rest None have "try_builders sub env cs bs ?s1 = Inr (r, s')"
      by (simp add: abandon_builder_def gbind_def gmodify_def)
    with Cons have "supplied env (given_names (exposed_name cs)) ?s1 r s'" by simp
    ultimately show ?thesis by (blast intro: grows_trans good_earlier)
  next
    case (Some n)
    with rest have r: "r = Some n" and "s' = s1\<lparr>node_total := Suc (node_total s1), nodes_attempted := Suc (nodes_attempted s1),
        chosen := bump_count (b_name b) (chosen s1), depth := depth s1 - 1\<rparr>"
      by (simp_all add: commit_builder_def gbind_def gmodify_def greturn_def)
    then have s': "grows s1 s'" by (simp add: grows_def issued_def)
    with r b Some enter show ?thesis by (auto intro: grows_trans good_earlier good_later)
  qed
qed

end

lemma inert_shuffle: "inert (weighted_shuffle xs w)"
proof -
  have "inert (draw_keys ys)" for ys :: "('a \<times> int) list"
    by (induction ys rule: draw_keys.induct) (auto simp: draw_exp_def intro!: inert_bind inert_return inert_draw inert_read inert_modify grows_fields)
  then show ?thesis unfolding weighted_shuffle_def Let_def by (auto intro: inert_bind inert_return)
qed

lemma dispatch_nodes:
  assumes "node_supplier sub env" "allowed_name env cs" "dispatch PORTABLE_BUILDERS sub env k cs s = Inr (r, s')"
  shows "supplied env (given_names (exposed_name cs)) s r s'"
proof (cases "filter_builders PORTABLE_BUILDERS (config env) k cs s")
  case None
  with assms(3) show ?thesis by (simp add: dispatch_def gbind_def gread_def greturn_def)
next
  case (Some bs)
  let ?w = "builder_weight (config env) (depth s)"
  have "gbind (weighted_shuffle bs ?w) (try_builders sub env cs) s = Inr (r, s')"
    using assms(3) Some by (simp add: dispatch_def gbind_def gread_def)
  then obtain ys s1 where ys: "weighted_shuffle bs ?w s = Inr (ys, s1)" and t: "try_builders sub env cs ys s1 = Inr (r, s')"
    using gbind_Inr by blast
  have "mset ys = mset (filter (\<lambda>b. 0 < ?w b) bs)"
    using gspec_shuffle [of "depth s" "\<lambda>_. True" bs ?w] ys unfolding gspec_def by fastforce
  then have "set ys \<subseteq> set bs" by (metis filter_is_subset set_mset_mset)
  moreover have "set bs \<subseteq> set PORTABLE_BUILDERS"
    using Some by (auto simp: filter_builders_def Let_def split: if_splits)
  ultimately have "supplied env (given_names (exposed_name cs)) s1 r s'"
    using node_supplier.try_nodes [OF assms(1,2) _ t] by blast
  moreover have "grows s s1" by (rule inertD [OF inert_shuffle ys])
  ultimately show ?thesis by (blast intro: grows_trans good_earlier)
qed

lemma subtree_nodes:
  assumes "build_subtree PORTABLE_BUILDERS fuel env k cs s = Inr (r, s')" "allowed_name env cs"
  shows "grows s s' \<and> (\<forall>n. r = Some n \<longrightarrow> is_instance n k \<and> good env (given_names (exposed_name cs)) s s' (nodes n))"
  using assms
proof (induction fuel arbitrary: k cs s r s')
  case 0
  then show ?case by (simp add: graise_def)
next
  case (Suc fuel)
  have "node_supplier (build_subtree PORTABLE_BUILDERS fuel env) env"
    by (rule node_supplier.intro, drule Suc.IH) (simp_all add: given_names_def)
  note made = dispatch_nodes [OF this Suc.prems(2)]
  from gbind_Inr [OF Suc.prems(1) [unfolded build_subtree.simps]] obtain s1 where
    d: "check_deadline env s = Inr ((), s1)" and
    "obind (dispatch PORTABLE_BUILDERS (build_subtree PORTABLE_BUILDERS fuel env) env k cs) (\<lambda>n.
        gbind (gassert (is_instance n k)) (\<lambda>_. greturn (Some n))) s1 = Inr (r, s')" by auto
  from gbind_Inr [OF this(2) [unfolded obind_def]] obtain x s2 where
    x: "dispatch PORTABLE_BUILDERS (build_subtree PORTABLE_BUILDERS fuel env) env k cs s1 = Inr (x, s2)"
    and rest: "(case x of None \<Rightarrow> greturn None | Some n \<Rightarrow> gbind (gassert (is_instance n k)) (\<lambda>_. greturn (Some n))) s2 = Inr (r, s')"
    by blast
  have "x = r \<and> s2 = s' \<and> (\<forall>n. r = Some n \<longrightarrow> is_instance n k)"
    using rest by (cases x) (auto simp: gbind_def gassert_def greturn_def graise_def split: if_splits)
  with x have "dispatch PORTABLE_BUILDERS (build_subtree PORTABLE_BUILDERS fuel env) env k cs s1 = Inr (r, s')"
    "\<forall>n. r = Some n \<longrightarrow> is_instance n k" by simp_all
  moreover have "inert (check_deadline env)"
    unfolding check_deadline_def
    by (auto intro!: inert_bind inert_read inert_modify inert_return inert_raise grows_fields)
  then have "grows s s1" using d by (rule inertD)
  ultimately show ?case using made by (blast intro: grows_trans good_earlier)
qed

interpretation factory: node_supplier "build_subtree PORTABLE_BUILDERS fuel env" env for fuel env
  by (rule node_supplier.intro, drule subtree_nodes) (simp_all add: given_names_def)

end
