(* ===== verification/Coa_Frame.thy ===== *)
theory Coa_Frame
  imports Coa_Execute
begin

text \<open>
  The frame rule of \<open>Coa_Execute\<close>: statements that run on a database run the same with more objects beside,
  as long as they do not create one of those.
\<close>

definition reads_more :: "reader \<Rightarrow> reader \<Rightarrow> bool" where
  "reads_more rd rd' \<longleftrightarrow> (\<forall>p nm v. rd p nm = Some v \<longrightarrow> rd' p nm = Some v)"

lemma source_mono: "reads_more rd rd' \<Longrightarrow> source_rows rd p s = Some v \<Longrightarrow> source_rows rd' p s = Some v"
  by (cases "ref_sql s"; cases v) (auto simp: reads_more_def source_rows_def)

lemma two_mono: "reads_more rd rd' \<Longrightarrow> two_sources rd p l r = Some v \<Longrightarrow> two_sources rd' p l r = Some v"
  by (cases v) (auto simp: two_sources_def bind_eq_Some_conv intro: source_mono)

lemma those_mono:
  "(\<And>x v. x \<in> set xs \<Longrightarrow> f x = Some v \<Longrightarrow> g x = Some v) \<Longrightarrow> those (map f xs) = Some vs \<Longrightarrow> those (map g xs) = Some vs"
  by (induction xs arbitrary: vs) (fastforce split: option.splits)+

lemma run_query_mono:
  assumes "reads_more rd rd'" "run_query E rd p q = Some out"
  shows "run_query E rd' p q = Some out"
proof (cases q)
  case (UnionAllQuery i bs)
  let ?rows = "\<lambda>rd. those (map (\<lambda>(k, b). source_rows rd (k # i # p) b) (zip [0..<length bs] bs))"
  from assms(2) obtain rs where rs: "?rows rd = Some rs" by (auto simp: UnionAllQuery bind_eq_Some_conv)
  then have "?rows rd' = Some rs"
    by (rule those_mono [rotated]) (auto intro: source_mono [OF assms(1)])
  with rs assms(2) show ?thesis by (simp add: UnionAllQuery)
next
  case (SelectQuery i s pr w d g qf ob)
  with assms(2) obtain v where "source_rows rd (i # p) s = Some v" by (auto simp: bind_eq_Some_conv)
  with source_mono [OF assms(1) this] assms(2) SelectQuery show ?thesis by simp
next
  case (CteQuery i s nm w m)
  with assms(2) obtain v where "source_rows rd (i # p) s = Some v" by (auto simp: bind_eq_Some_conv)
  with source_mono [OF assms(1) this] assms(2) CteQuery show ?thesis by simp
next
  case (LateralReprojectQuery i s sa la)
  with assms(2) obtain v where "source_rows rd (i # p) s = Some v" by (auto simp: bind_eq_Some_conv)
  with source_mono [OF assms(1) this] assms(2) LateralReprojectQuery show ?thesis by simp
next
  case (ExceptAllQuery i l r)
  with assms(2) obtain v where "two_sources rd (i # p) l r = Some v" by (auto simp: bind_eq_Some_conv)
  with two_mono [OF assms(1) this] assms(2) ExceptAllQuery show ?thesis by simp
next
  case (IntersectAllQuery i l r)
  with assms(2) obtain v where "two_sources rd (i # p) l r = Some v" by (auto simp: bind_eq_Some_conv)
  with two_mono [OF assms(1) this] assms(2) IntersectAllQuery show ?thesis by simp
next
  case (JoinQuery i l r c j pr la ra w)
  with assms(2) obtain v where "two_sources rd (i # p) l r = Some v" by (auto simp: bind_eq_Some_conv)
  with two_mono [OF assms(1) this] assms(2) JoinQuery show ?thesis by simp
qed (use assms(2) in simp_all)

lemma read_mono:
  assumes "db \<subseteq>\<^sub>m db'"
  shows "reads_more (read_relation E db k) (read_relation E db' k)"
proof (induction k)
  case (Suc k)
  show ?case
    unfolding reads_more_def
  proof (intro allI impI)
    fix p nm v
    assume r: "read_relation E db (Suc k) p nm = Some v"
    then obtain x where x: "db nm = Some x" by (cases "db nm") auto
    moreover have "db' nm = Some x" using assms x by (metis map_le_def domI)
    ultimately show "read_relation E db' (Suc k) p nm = Some v"
      using r run_query_mono [OF Suc] by (auto split: stored.splits)
  qed
qed (simp add: reads_more_def)

lemma write_frame:
  assumes "write_table db target f = Some db1" "\<And>names rows out. f names rows = Some out \<Longrightarrow> f' names rows = Some out"
  shows "write_table (other ++ db) target f' = Some (other ++ db1) \<and> dom db \<subseteq> dom db1"
proof -
  from assms(1) obtain names rows out where "db target = Some (TableObj names rows)" "f names rows = Some out"
    "db1 = db(target \<mapsto> TableObj names out)"
    by (auto simp: write_table_def split: option.splits stored.splits)
  with assms(2) show ?thesis by (auto simp: write_table_def map_add_Some_iff)
qed

lemma create_frame: "dom other \<inter> dom (db(nm \<mapsto> x)) = {} \<Longrightarrow> db nm = None \<Longrightarrow> (other ++ db) nm = None"
  by (auto simp: map_add_None)

lemma exec_step_frame:
  assumes "exec_step E k i s db = Some db1" "dom other \<inter> dom db1 = {}"
  shows "exec_step E k i s (other ++ db) = Some (other ++ db1) \<and> dom db \<subseteq> dom db1"
proof -
  have more: "reads_more (read_relation E db k) (read_relation E (other ++ db) k)" by (rule read_mono) simp
  note query = run_query_mono [OF more]
  show ?thesis
  proof (cases s)
    case (TableObject nm kw q d)
    with assms(1) obtain query0 names rows where "q = Some query0" "db nm = None" "run_query E (read_relation E db k) [i] query0 = Some (names, rows)"
      "db1 = db(nm \<mapsto> TableObj names rows)" by (auto split: option.splits if_splits)
    with query create_frame [of other db nm "TableObj names rows"] assms(2) TableObject show ?thesis by (auto simp del: dom_fun_upd)
  next
    case (ViewObject nm kw q d)
    with assms(1) obtain query0 where q: "q = Some query0" "db nm = None" by (auto split: option.splits if_splits)
    show ?thesis
    proof (cases "kw = ''MATERIALIZED VIEW''")
      case True
      with assms(1) q ViewObject obtain names rows where "run_query E (read_relation E db k) [i] query0 = Some (names, rows)"
        "db1 = db(nm \<mapsto> SnapshotObj names rows)" by (auto split: option.splits if_splits)
      with q True query create_frame [of other db nm "SnapshotObj names rows"] assms(2) ViewObject show ?thesis by (auto simp del: dom_fun_upd)
    next
      case False
      with assms(1) q ViewObject have "db1 = db(nm \<mapsto> ViewObj i query0)" by auto
      with q False create_frame [of other db nm "ViewObj i query0"] assms(2) ViewObject show ?thesis by (auto simp del: dom_fun_upd)
    qed
  next
    case (DeleteStep target p)
    with assms(1) show ?thesis using write_frame [of db target _ db1 _ other] by simp
  next
    case (UpdateStep target a p)
    with assms(1) show ?thesis using write_frame [of db target _ db1 _ other] by simp
  next
    case (InsertStep target columns r p cl q)
    have "exec_step E k i s db = Some db1 \<Longrightarrow> ?thesis"
      unfolding InsertStep exec_step.simps
    proof (erule write_frame, cases q)
      case (Some query0)
      then show "(case q of None \<Rightarrow> if cl \<noteq> None \<and> cl \<noteq> Some names \<or> length columns \<noteq> length names then None
                    else Option.bind (read_relation E (other ++ db) k [i] r) (\<lambda>(ns, new). map_option (append rows) (reinsert_rows E columns ns p (en_scan E [i] new)))
                 | Some q \<Rightarrow> Option.bind (run_query E (read_relation E (other ++ db) k) [i] q) (\<lambda>(ns, new). if length ns = length names then Some (rows @ new) else None))
              = Some out"
        if "(case q of None \<Rightarrow> if cl \<noteq> None \<and> cl \<noteq> Some names \<or> length columns \<noteq> length names then None
                    else Option.bind (read_relation E db k [i] r) (\<lambda>(ns, new). map_option (append rows) (reinsert_rows E columns ns p (en_scan E [i] new)))
                 | Some q \<Rightarrow> Option.bind (run_query E (read_relation E db k) [i] q) (\<lambda>(ns, new). if length ns = length names then Some (rows @ new) else None))
              = Some out" for names rows out
        using that query by (fastforce simp: bind_eq_Some_conv split: if_splits)
    qed (use more in \<open>auto simp: bind_eq_Some_conv reads_more_def split: if_splits\<close>)
    with assms(1) show ?thesis by simp
  qed
qed

lemma exec_steps_frame:
  "exec_steps E k i ss db = Some db1 \<Longrightarrow> dom other \<inter> dom db1 = {} \<Longrightarrow>
     exec_steps E k i ss (other ++ db) = Some (other ++ db1) \<and> dom db \<subseteq> dom db1"
proof (induction ss arbitrary: db)
  case (Cons s ss)
  from Cons.prems(1) obtain db' where s: "exec_step E k i s db = Some db'" "exec_steps E k i ss db' = Some db1"
    by (auto simp: bind_eq_Some_conv)
  have rest: "exec_steps E k i ss (other ++ db') = Some (other ++ db1)" "dom db' \<subseteq> dom db1"
    using Cons.IH [OF s(2) Cons.prems(2)] by auto
  then have "dom other \<inter> dom db' = {}" using Cons.prems(2) by blast
  from exec_step_frame [OF s(1) this] rest(1) show ?case using subset_trans [OF _ rest(2), of "dom db"] by simp
qed auto

text \<open>The frame rule for the statements of a list of nodes.\<close>

lemma exec_nodes_frame:
  "exec_nodes E k ns db = Some db1 \<Longrightarrow> dom other \<inter> dom db1 = {} \<Longrightarrow>
     exec_nodes E k ns (other ++ db) = Some (other ++ db1) \<and> dom db \<subseteq> dom db1"
proof (induction ns arbitrary: db)
  case (Cons n ns)
  from Cons.prems(1) obtain db' where s: "exec_node E k n db = Some db'" "exec_nodes E k ns db' = Some db1"
    by (auto simp: bind_eq_Some_conv)
  have rest: "exec_nodes E k ns (other ++ db') = Some (other ++ db1)" "dom db' \<subseteq> dom db1"
    using Cons.IH [OF s(2) Cons.prems(2)] by auto
  then have "dom other \<inter> dom db' = {}" using Cons.prems(2) by blast
  from exec_steps_frame [OF s(1) [unfolded exec_node_def] this] rest(1) show ?case
    using subset_trans [OF _ rest(2), of "dom db"] by (simp add: exec_node_def)
qed auto

end
