(* ===== verification/Coa_Runs.thy ===== *)
theory Coa_Runs
  imports Coa_Alloc_Factory Coa_Frame Coa_Sample
begin

text \<open>
  Runs of the generator on a database: the tree \<open>build_root\<close> returns can be emitted and executed, alone or
  after other forks, and leaves the rows of the base table under the name that was asked for.
\<close>


section \<open>The tree of a run\<close>

text \<open>Names the minting cannot give: the requested one is neither minted nor the base table.\<close>

definition fresh_root :: "context_env \<Rightarrow> string \<Rightarrow> bool" where
  "fresh_root env nm \<longleftrightarrow> nm \<noteq> [] \<and> nm \<notin> minted env \<and> nm \<noteq> get_sql_name (base_table env) True"

definition base_unminted :: "context_env \<Rightarrow> bool" where
  "base_unminted env \<longleftrightarrow> get_sql_name (base_table env) True \<notin> minted env"

lemma new_name_apart:
  "new_name env X s0 s nm \<Longrightarrow> base_unminted env \<Longrightarrow> get_sql_name (base_table env) True \<notin> X \<Longrightarrow>
     nm \<noteq> get_sql_name (base_table env) True"
  by (auto simp: new_name_def base_unminted_def)

lemma good_tree_ok:
  assumes "good env X s0 s (nodes n)" "well_formed n" "base_unminted env" "get_sql_name (base_table env) True \<notin> X"
  shows "tree_ok (base_table env) n"
proof -
  have "names_apart (base_table env) (nodes n)"
    unfolding names_apart_def
  proof (intro conjI ballI impI)
    fix m
    assume m: "m \<in> nodes n" "is_relation m"
    then obtain nm where "materialized_name m = Some nm" "new_name env X s0 s nm" using assms(1) unfolding good_def by blast
    with new_name_apart [OF _ assms(3,4)] show "materialized_name m \<noteq> Some (get_sql_name (base_table env) True)" by auto
  next
    have "one_owner (nodes n)" using assms(1) by (simp add: good_def)
    then show "owner k = owner m"
      if "k \<in> nodes n" "m \<in> nodes n" "is_relation k" "is_relation m" "materialized_name k = materialized_name m" for k m
      unfolding one_owner_def using that by blast
  qed
  with assms(1,2) show ?thesis by (simp add: tree_ok_def good_def same_identity_def)
qed

lemma built_well_formed:
  assumes "env_ok env" "root_name env given \<noteq> []" "gr_builders g = PORTABLE_BUILDERS"
    and "build_root g fuel env seed given names s = Inr (built, s')"
  shows "well_formed built"
proof -
  have "gspec 0 (run_error 0 fuel env) (build_subtree PORTABLE_BUILDERS fuel env WantRelation [ExposedNameConstraint (root_name env given)])
      (\<lambda>r. \<forall>n. r = Some n \<longrightarrow> well_formed n)"
    by (rule gspec_weaken [OF factory.served [OF assms(1) exposed_request(1) [OF assms(2)]]]) (auto simp: post_def)
  with assms(3,4) show ?thesis
    by (fastforce simp: gspec_def build_root_def split: sum.splits option.splits)
qed

lemma built_good:
  assumes "gr_builders g = PORTABLE_BUILDERS" "root_name env given \<notin> minted env"
    and "build_root g fuel env seed given names s = Inr (built, s')"
  shows "is_relation built \<and>
    good env {root_name env given} (open_context (map_option (gr_seed g) seed) names s) s' (nodes built)"
proof -
  let ?cs = "[ExposedNameConstraint (root_name env given)]"
  have "build_subtree PORTABLE_BUILDERS fuel env WantRelation ?cs (open_context (map_option (gr_seed g) seed) names s) = Inr (Some built, s')"
    using assms(1,3) by (auto simp: build_root_def split: sum.splits option.splits prod.splits)
  from subtree_nodes [OF this] assms(2) show ?thesis by (simp add: exposed_request(3) given_names_def)
qed

lemma built_tree_ok:
  assumes "env_ok env" "gr_builders g = PORTABLE_BUILDERS" "fresh_root env (root_name env given)" "base_unminted env"
    and "build_root g fuel env seed given names s = Inr (built, s')"
  shows "tree_ok (base_table env) built" "is_relation built"
proof -
  have root: "root_name env given \<noteq> []" "root_name env given \<notin> minted env" using assms(3) by (simp_all add: fresh_root_def)
  note good = built_good [OF assms(2) root(2) assms(5)]
  then show "is_relation built" by simp
  show "tree_ok (base_table env) built"
    by (rule good_tree_ok [OF good [THEN conjunct2] built_well_formed [OF assms(1) root(1) assms(2,5)] assms(4)])
      (use assms(3) in \<open>auto simp: fresh_root_def\<close>)
qed

text \<open>The result of executing one run.\<close>

lemma run_executes:
  assumes "env_ok env" "gr_builders g = PORTABLE_BUILDERS" "fresh_root env (root_name env given)" "base_unminted env"
    and "engine_ok E" "base_rows_ok (base_table env) B"
    and "build_root g fuel env seed given names s = Inr (built, s')" "height built \<le> n"
  shows "\<exists>db rows. exec_tree E n built (base_database (base_table env) B) = Some db
    \<and> read_relation E db n [] (root_name env given) = Some (column_names (base_table env), rows) \<and> mset rows = mset B
    \<and> db (get_sql_name (base_table env) True) = Some (TableObj (column_names (base_table env)) B)
    \<and> (\<forall>x. db x \<noteq> None \<longrightarrow> x = get_sql_name (base_table env) True
         \<or> new_name env {root_name env given} (open_context (map_option (gr_seed g) seed) names s) s' x)"
proof -
  note ok = built_tree_ok [OF assms(1-4,7)]
  have root: "root_name env given \<noteq> []" "root_name env given \<notin> minted env" using assms(3) by (simp_all add: fresh_root_def)
  have eq: "row_equivalent (base_table env) built" "materialized_name built = Some (root_name env given)"
    using build_root_cases [OF assms(1) root(1) assms(2), of fuel seed names s] assms(7) by simp_all
  then obtain rows where rows: "den E B [] built = Some rows" "mset rows = mset B"
    using assms(5,6) unfolding row_equivalent_def by blast
  have "names_of built = column_names (base_table env)"
    using eq(1) by (simp add: row_equivalent_def names_of_def)
  moreover have "\<exists>x. materialized_name m = Some x \<and> new_name env {root_name env given} (open_context (map_option (gr_seed g) seed) names s) s' x"
    if "m \<in> nodes built" "is_relation m" for m
    using built_good [OF assms(2) root(2) assms(7)] that unfolding good_def by blast
  ultimately show ?thesis using tree_realized [OF ok(1,2) rows(1) assms(8)] eq(2) rows(2) by fastforce
qed

section \<open>Emission\<close>

text \<open>The only error of emitting a tree that has rows: an expression the dialect does not spell.\<close>

definition only_render :: "spelling \<Rightarrow> 'a emit \<Rightarrow> bool" where
  "only_render sp r \<longleftrightarrow> (\<forall>x. r = Inl x \<longrightarrow> (\<exists>e why. x = RenderFailed why \<and> expr_sql sp e = Inl why))"

lemma only_render_Inr [simp]: "only_render sp (Inr x)"
  by (simp add: only_render_def)

lemma only_render_bind: "only_render sp m \<Longrightarrow> (\<And>x. m = Inr x \<Longrightarrow> only_render sp (f x)) \<Longrightarrow> only_render sp (ebind m f)"
  by (cases m) (auto simp: only_render_def ebind_def)

lemma only_render_sequence: "list_all (only_render sp) ms \<Longrightarrow> only_render sp (esequence ms)"
  by (induction ms) (auto intro!: only_render_bind)

lemma only_render_expr [simp]: "only_render sp (sql_of sp e)"
  by (auto simp: only_render_def sql_of_def split: sum.split)

lemma only_render_clause [simp]: "only_render sp (clause_sql sp k e)"
  by (auto simp: clause_sql_def split: option.split intro!: only_render_bind)

lemma only_render_list: "(\<And>x. x \<in> set xs \<Longrightarrow> only_render sp (f x)) \<Longrightarrow> only_render sp (list_sql f xs)"
  unfolding list_sql_def by (auto intro!: only_render_bind only_render_sequence simp: list_all_iff)

lemma only_render_items [simp]: "only_render sp (projection_sql sp it)" "only_render sp (list_sql (projection_sql sp) items)"
  "only_render sp (list_sql (sql_of sp) es)"
  by (auto simp: projection_sql_def intro!: only_render_bind only_render_list)

lemma source_named:
  assumes "is_source n" "shaped n"
  shows "ref_sql n \<noteq> None"
proof (cases n)
  case (CreateFromQuery i c q st e)
  with assms(2) show ?thesis by (auto simp: ref_sql_def materialized_name_def created_step)
next
  case (InsertExtrasExpansion i c st e)
  with assms(2) have "materialized_name n = materialized_name c" "materialized_name c \<noteq> None"
    by (simp_all add: materialized_name_def) auto
  then show ?thesis by (simp add: InsertExtrasExpansion ref_sql_def)
qed (use assms in \<open>auto simp: ref_sql_def materialized_name_def is_source_def\<close>)

lemma only_render_ref: "ref_sql n \<noteq> None \<Longrightarrow> only_render sp (ref_of n)" "ref_sql n \<noteq> None \<Longrightarrow> only_render sp (star_from n)"
  by (auto simp: ref_of_def star_from_def intro!: only_render_bind)

lemma only_render_select:
  "ref_sql s \<noteq> None \<Longrightarrow> only_render sp (select_sql sp s p w d g q ob)"
  unfolding select_sql_def Let_def
  by (auto intro!: only_render_bind only_render_ref split: option.split)

lemma only_render_query:
  assumes "is_query q" "\<And>c. c \<in> set (children q) \<Longrightarrow> ref_sql c \<noteq> None" "den E B p q \<noteq> None"
  shows "only_render sp (render_query sp q)"
proof (cases q)
  case (JoinQuery i l r c j pr la ra w)
  have cond: "map upper_char j = ''CROSS'' \<or> c \<noteq> None"
  proof (cases "j = ''CROSS''")
    case True
    then show ?thesis by (simp add: upper_char_def)
  next
    case False
    with assms(3) show ?thesis by (cases c) (simp_all add: JoinQuery join_query_rows_def Let_def on_verdicts_def bind_eq_Some_conv)
  qed
  have on: "only_render sp (if map upper_char j = ''CROSS'' then Inr ''''
      else if c = None then Inl JoinWithoutCondition else clause_sql sp '' ON '' c)"
    using cond by (cases "map upper_char j = ''CROSS''"; cases c) (simp_all only: if_True if_False refl not_True_eq_False option.distinct
      only_render_Inr only_render_clause not_None_eq simp_thms)
  have "ref_sql l \<noteq> None" "ref_sql r \<noteq> None" using assms(2) by (simp_all only: JoinQuery children.simps) simp_all
  then show ?thesis
    unfolding JoinQuery render_query.simps join_sql_def
    by (intro only_render_bind only_render_ref only_render_items only_render_clause on only_render_Inr)
qed (use assms(1,2) in \<open>auto simp: cte_sql_def lateral_sql_def Let_def
      intro!: only_render_bind only_render_ref only_render_sequence only_render_select simp: list_all_iff\<close>)

lemma only_render_steps: "list_all (\<lambda>s. only_render sp (emit_step sp s)) ss \<Longrightarrow> only_render sp (emit_steps sp ss)"
  unfolding emit_steps_def by (auto intro!: only_render_bind only_render_sequence simp: list_all_iff)

lemma only_render_create:
  "only_render sp (render_query sp q) \<Longrightarrow> only_render sp (create_as_select sp nm k (Some q) d)"
  unfolding create_as_select_def by (auto intro!: only_render_bind)

lemma only_render_actions [simp]:
  "only_render sp (emit_step sp (DeleteStep target p))" "only_render sp (emit_step sp (UpdateStep target a w))"
  "only_render sp (emit_step sp (InsertStep target columns r w cl None))"
  by (auto simp: Let_def intro!: only_render_bind only_render_list)

lemma only_render_objects:
  assumes "only_render sp (render_query sp q)"
  shows "only_render sp (emit_step sp (TableObject nm k (Some q) d))" "only_render sp (emit_step sp (ViewObject nm k (Some q) d))"
    "only_render sp (emit_step sp (InsertStep target columns r w cl (Some q)))"
  using assms by (auto intro!: only_render_bind only_render_create)

lemma only_render_node:
  assumes "shaped n" "node_fits t n" "\<And>c. c \<in> set (children n) \<Longrightarrow> shaped c \<and> node_fits t c" "den E B p n \<noteq> None"
    and "\<And>c d. c \<in> set (children n) \<Longrightarrow> d \<in> set (children c) \<Longrightarrow> shaped d"
  shows "only_render sp (node_statements sp n)"
proof (cases "is_relation n")
  case True
  have query: "only_render sp (render_query sp q)" if q: "q \<in> set (children n)" "is_query q" for q
  proof -
    obtain p' where "den E B p' q \<noteq> None" using child_den [OF assms(4) q(1)] by blast
    moreover have "ref_sql c \<noteq> None" if "c \<in> set (children q)" for c
      by (rule source_named [OF _ assms(5) [OF q(1) that]])
        (use assms(3) [OF q(1)] q(2) that in \<open>cases q; auto simp: list_all_iff\<close>)
    ultimately show ?thesis by (intro only_render_query [OF q(2)])
  qed
  have reread: "only_render sp (render_query sp (plain_select j c pr w))" if "c \<in> set (children n)" "is_relation c" for j c pr w
    using source_named [OF source_ref(2) [OF that(2)]] assms(3) [OF that(1)] by (simp add: only_render_select)
  have "list_all (\<lambda>s. only_render sp (emit_step sp s)) (steps_of n)"
  proof (cases n)
    case (CreateFromQuery i c q st e)
    with query [of q] assms(1,2) show ?thesis by (auto simp: created_step only_render_objects simp del: emit_step.simps)
  next
    case (DeleteReinsertTable i q t' w st e)
    with query [of q] assms(1,2) show ?thesis by (auto simp: only_render_objects simp del: emit_step.simps)
  next
    case (NoopUpdateTable i q a w st e)
    with query [of q] assms(1,2) show ?thesis by (auto simp: only_render_objects simp del: emit_step.simps)
  next
    case (TagPruneDeleteTable i c items tag keep st e)
    with reread [of c] assms(1,2) show ?thesis by (auto simp: only_render_objects simp del: emit_step.simps render_query.simps)
  next
    case (InsertExtrasExpansion i c st e)
    with reread [of c] assms(1,2) show ?thesis by (auto simp: only_render_objects simp del: emit_step.simps render_query.simps)
  qed (use True in simp_all)
  then show ?thesis using True by (simp add: node_statements_def only_render_steps)
qed (simp add: node_statements_def)

lemma emission_renders:
  assumes "tree_ok t r" "den E B p r \<noteq> None"
  shows "only_render sp (emit_equivalence sp r)"
proof -
  have order: "build_order r (emission_order r)"
    unfolding emission_order_def by (rule visit_order) (use assms(1) in \<open>simp add: tree_ok_def\<close>)
  have "only_render sp (node_statements sp n)" if n: "n \<in> nodes r" for n
  proof -
    note parts = tree_parts(2) [OF assms(1)] well_formed_nodes [OF tree_parts(1) [OF assms(1)]]
    have below: "c \<in> nodes r" if "c \<in> set (children m)" "m \<in> nodes r" for c m
      using nodes_child [OF that(1)] nodes_trans [OF that(2)] by blast
    obtain p' where den: "den E B p' n \<noteq> None" using node_den [OF n assms(2)] by blast
    show ?thesis
      by (rule only_render_node [OF parts(2) [OF n] parts(1) [OF n] _ den]) (use parts below n in blast)+
  qed
  then have "list_all (only_render sp) (map (node_statements sp) (emission_order r))"
    using order by (auto simp: list_all_iff build_order_def)
  then show ?thesis
    unfolding emit_visit emit_nodes_def emission_order_def [symmetric] by (auto intro!: only_render_bind only_render_sequence)
qed

section \<open>Forks\<close>

fun exec_trees :: "engine \<Rightarrow> nat \<Rightarrow> eqnode list \<Rightarrow> database \<Rightarrow> database option" where
  "exec_trees E k [] db = Some db"
| "exec_trees E k (n # ns) db = Option.bind (exec_tree E k n db) (exec_trees E k ns)"

text \<open>What a database holds after some forks: the base table, their roots \<open>P\<close>, and minted objects.\<close>

definition holds_forks :: "context_env \<Rightarrow> row list \<Rightarrow> string set \<Rightarrow> string counter \<Rightarrow> database \<Rightarrow> bool" where
  "holds_forks env B P names db \<longleftrightarrow>
     db (get_sql_name (base_table env) True) = Some (TableObj (column_names (base_table env)) B) \<and>
     (\<forall>x. db x \<noteq> None \<longrightarrow> x = get_sql_name (base_table env) True \<or> x \<in> P
        \<or> x \<in> minted env \<and> (\<forall>s. x \<in> issued (s\<lparr>counters := names\<rparr>)))"

lemma issued_cong: "counters s = counters t \<Longrightarrow> issued s = issued t"
  by (simp add: issued_def)

lemma new_beside:
  assumes "new_name env {nm} (open_context r (Some names) s) s' x" "fresh_root env nm" "base_unminted env"
    and "holds_forks env B P names db" "nm \<notin> P" "P \<inter> minted env = {}"
  shows "db x = None \<and> x \<noteq> get_sql_name (base_table env) True"
proof -
  have "x \<notin> issued (s\<lparr>counters := names\<rparr>)" if "x \<notin> issued (open_context r (Some names) s)"
    using that issued_cong [of "open_context r (Some names) s" "s\<lparr>counters := names\<rparr>"] by (simp add: open_context_def)
  with assms show ?thesis
    unfolding new_name_def fresh_root_def base_unminted_def holds_forks_def by blast
qed

text \<open>One fork on a database that holds the base table and other objects.\<close>

lemma run_beside:
  assumes "env_ok env" "gr_builders g = PORTABLE_BUILDERS" "fresh_root env nm" "base_unminted env"
    and "engine_ok E" "base_rows_ok (base_table env) B"
    and run: "build_root g fuel env seed (Some nm) (Some names) s = Inr (built, s')" "height built \<le> n"
    and db: "holds_forks env B P names db" "nm \<notin> P" "P \<inter> minted env = {}"
  shows "\<exists>db' rows. exec_tree E n built db = Some db' \<and> db \<subseteq>\<^sub>m db' \<and> holds_forks env B (insert nm P) (counters s') db'
    \<and> read_relation E db' n [] nm = Some (column_names (base_table env), rows) \<and> mset rows = mset B"
proof -
  let ?sql = "get_sql_name (base_table env) True" and ?base = "base_database (base_table env) B"
    and ?s0 = "open_context (map_option (gr_seed g) seed) (Some names) s" and ?other = "db(get_sql_name (base_table env) True := None)"
  have root: "root_name env (Some nm) = nm" by (simp add: root_name_def)
  from run_executes [OF assms(1,2) _ assms(4-6) run] assms(3) obtain db1 rows where
    db1: "exec_tree E n built ?base = Some db1" "read_relation E db1 n [] nm = Some (column_names (base_table env), rows)"
      "mset rows = mset B" "db1 ?sql = Some (TableObj (column_names (base_table env)) B)"
    and names: "\<forall>x. db1 x \<noteq> None \<longrightarrow> x = ?sql \<or> new_name env {nm} ?s0 s' x"
    unfolding root by auto
  have grows: "issued ?s0 \<subseteq> issued s'"
    using built_good [OF assms(2) _ run(1)] assms(3) by (simp add: root fresh_root_def good_def grows_def)
  have sql: "db ?sql = Some (TableObj (column_names (base_table env)) B)" using db(1) by (simp add: holds_forks_def)
  have apart: "db1 x = None \<or> ?other x = None" for x
    using names new_beside [OF _ assms(3,4) db] by (cases "db1 x") auto
  have disjoint: "dom ?other \<inter> dom db1 = {}" using apart by (metis disjoint_iff domIff)
  have "?other ++ ?base = db" using sql by (auto simp: base_database_def map_add_def split: option.splits)
  moreover have "exec_tree E n built (?other ++ ?base) = Some (?other ++ db1)"
    using exec_nodes_frame [OF db1(1) [unfolded exec_tree_def] disjoint] by (simp only: exec_tree_def)
  ultimately have "exec_tree E n built db = Some (?other ++ db1)" by simp
  moreover have "db \<subseteq>\<^sub>m ?other ++ db1"
    unfolding map_le_def
  proof
    fix x
    assume "x \<in> dom db"
    then show "db x = (?other ++ db1) x" using sql db1(4) apart [of x] by (cases "x = ?sql") (auto simp: map_add_def split: option.splits)
  qed
  moreover have "read_relation E (?other ++ db1) n [] nm = Some (column_names (base_table env), rows)"
    using read_mono [of db1 "?other ++ db1" E n] db1(2) by (simp add: reads_more_def)
  moreover have "holds_forks env B (insert nm P) (counters s') (?other ++ db1)"
    unfolding holds_forks_def
  proof (intro conjI allI impI)
    show "(?other ++ db1) ?sql = Some (TableObj (column_names (base_table env)) B)" using db1(4) by simp
    fix x
    assume "(?other ++ db1) x \<noteq> None"
    then consider "db1 x \<noteq> None" | "db x \<noteq> None" by (auto split: if_splits)
    then show "x = ?sql \<or> x \<in> insert nm P \<or> x \<in> minted env \<and> (\<forall>s. x \<in> issued (s\<lparr>counters := counters s'\<rparr>))"
    proof cases
      case 1
      with names have "x = ?sql \<or> x = nm \<or> x \<in> issued s' \<and> x \<in> minted env" by (auto simp: new_name_def)
      moreover have "issued (t\<lparr>counters := counters s'\<rparr>) = issued s'" for t by (rule issued_cong) simp
      ultimately show ?thesis by auto
    next
      case 2
      have "issued (t\<lparr>counters := names\<rparr>) \<subseteq> issued (t\<lparr>counters := counters s'\<rparr>)" for t
        using grows issued_cong [of ?s0 "t\<lparr>counters := names\<rparr>"] issued_cong [of s' "t\<lparr>counters := counters s'\<rparr>"]
        by (simp add: open_context_def)
      with 2 db(1) show ?thesis unfolding holds_forks_def by blast
    qed
  qed
  ultimately show ?thesis using db1(3) by blast
qed

lemma generate_built:
  "generate g fuel env seed given names s = Inr (x, s') \<Longrightarrow> build_root g fuel env seed given names s = Inr (gd_root x, s')
     \<and> emit_equivalence (gr_spelling g) (gd_root x) = Inr (gd_statements x)"
  by (auto simp: generate_def ebind_def split: sum.splits prod.splits)

lemma forks_beside:
  assumes "env_ok env" "gr_builders g = PORTABLE_BUILDERS" "base_unminted env" "engine_ok E" "base_rows_ok (base_table env) B"
  shows "fork_from g fuel env seed names exposed s = Inr (fk, s') \<Longrightarrow> list_all (fresh_root env) exposed \<Longrightarrow> distinct exposed \<Longrightarrow>
    set exposed \<inter> P = {} \<Longrightarrow> P \<inter> minted env = {} \<Longrightarrow> holds_forks env B P names db \<Longrightarrow>
    \<forall>x \<in> set (fk_forks fk). height (gd_root x) \<le> n \<Longrightarrow>
    \<exists>db'. exec_trees E n (map gd_root (fk_forks fk)) db = Some db' \<and> db \<subseteq>\<^sub>m db'
      \<and> list_all (\<lambda>nm. \<exists>rows. read_relation E db' n [] nm = Some (column_names (base_table env), rows) \<and> mset rows = mset B) exposed"
proof (induction exposed arbitrary: seed names s fk s' P db)
  case (Cons nm rest)
  from Cons.prems(1) obtain x t fk' where x: "generate g fuel env (Some seed) (Some nm) (Some names) s = Inr (x, t)"
    and rest: "fork_from g fuel env (Suc seed) (counters t) rest t = Inr (fk', s')" and fk: "fk_forks fk = x # fk_forks fk'"
    by auto
  have nm: "fresh_root env nm" "nm \<notin> P" "nm \<notin> minted env" "height (gd_root x) \<le> n"
    using Cons.prems by (auto simp: fk fresh_root_def)
  from run_beside [OF assms(1,2) nm(1) assms(3-5) conjunct1 [OF generate_built [OF x]] nm(4) Cons.prems(6) nm(2) Cons.prems(5)]
  obtain db1 rows where db1: "exec_tree E n (gd_root x) db = Some db1" "db \<subseteq>\<^sub>m db1"
    "holds_forks env B (insert nm P) (counters t) db1"
    "read_relation E db1 n [] nm = Some (column_names (base_table env), rows)" "mset rows = mset B" by blast
  have "\<exists>db'. exec_trees E n (map gd_root (fk_forks fk')) db1 = Some db' \<and> db1 \<subseteq>\<^sub>m db'
      \<and> list_all (\<lambda>nm. \<exists>rows. read_relation E db' n [] nm = Some (column_names (base_table env), rows) \<and> mset rows = mset B) rest"
    by (rule Cons.IH [OF rest _ _ _ _ db1(3)]) (use Cons.prems nm in \<open>auto simp: fk\<close>)
  then obtain db' where db': "exec_trees E n (map gd_root (fk_forks fk')) db1 = Some db'" "db1 \<subseteq>\<^sub>m db'"
    "list_all (\<lambda>nm. \<exists>rows. read_relation E db' n [] nm = Some (column_names (base_table env), rows) \<and> mset rows = mset B) rest"
    by blast
  moreover have "read_relation E db' n [] nm = Some (column_names (base_table env), rows)"
    using read_mono [OF db'(2), of E n] db1(4) by (simp add: reads_more_def)
  ultimately show ?case using db1 map_le_trans [OF db1(2) db'(2)] by (auto simp: fk)
qed auto

section \<open>Spellings that spell everything\<close>

definition total_spelling :: "spelling \<Rightarrow> bool" where
  "total_spelling sp \<longleftrightarrow> (\<forall>t. \<exists>s. type_sql sp t = Inr s) \<and> (\<forall>c x. \<exists>s. value_codec_sql sp c x = Inr s)"

lemma spellings_total:
  "total_spelling postgres_spelling" "total_spelling mysql_spelling" "total_spelling clickhouse_spelling" "total_spelling crate_spelling"
proof -
  have "\<exists>s. postgres_type_sql t = Inr s" for t
    by (cases "kind_of t") (simp_all add: postgres_type_sql_def)
  then show "total_spelling postgres_spelling" "total_spelling mysql_spelling" "total_spelling clickhouse_spelling" "total_spelling crate_spelling"
    by (simp_all add: total_spelling_def spelling_defs postgres_value_codec_sql_def mysql_value_codec_sql_def clickhouse_value_codec_sql_def Let_def)
qed

lemma ebind_ok: "\<exists>x. m = Inr x \<Longrightarrow> (\<And>x. \<exists>y. f x = Inr y) \<Longrightarrow> \<exists>y. ebind m f = Inr y"
  by auto

lemma expr_total: "total_spelling sp \<Longrightarrow> \<exists>s. expr_sql sp e = Inr s"
proof (induction sp e rule: expr_sql.induct)
  case (5 sp t)
  then obtain s where "type_sql sp t = Inr s" unfolding total_spelling_def by blast
  then show ?case by simp
next
  case (15 sp f p ob fr ty)
  then have "\<exists>xs. esequence (map (expr_sql sp) p) = Inr xs" "\<exists>xs. esequence (map (expr_sql sp) ob) = Inr xs"
    by (auto intro!: esequence_ok)
  then show ?case by auto
next
  case (16 sp f a p ob fr ty)
  then have "\<exists>xs. esequence (map (expr_sql sp) p) = Inr xs" "\<exists>xs. esequence (map (expr_sql sp) ob) = Inr xs"
    by (auto intro!: esequence_ok)
  with 16 show ?case by auto
qed (auto simp: total_spelling_def intro!: ebind_ok)

lemma total_emission: "total_spelling sp \<Longrightarrow> only_render sp r \<Longrightarrow> \<exists>x. r = Inr x"
  using expr_total [of sp] by (cases r) (auto simp: only_render_def, metis sum.distinct(1))

lemma generate_emits:
  assumes "env_ok env" "gr_builders g = PORTABLE_BUILDERS" "fresh_root env (root_name env given)" "base_unminted env"
    and "build_root g fuel env seed given names s = Inr (built, s')"
  shows "only_render (gr_spelling g) (emit_equivalence (gr_spelling g) built)"
proof -
  have "root_name env given \<noteq> []" using assms(3) by (simp add: fresh_root_def)
  then have "row_equivalent (base_table env) built"
    using build_root_cases [OF assms(1) _ assms(2), of given fuel seed names s] assms(5) by simp
  moreover have "engine_ok reference_engine" "base_rows_ok (base_table env) []"
    by (simp_all add: reference_ok base_rows_ok_def)
  ultimately have "den reference_engine [] [] built \<noteq> None" unfolding row_equivalent_def by blast
  then show ?thesis by (rule emission_renders [OF built_tree_ok(1) [OF assms]])
qed

lemma forks_returned:
  assumes "always_builds (config env)" "env_ok env" "gr_builders g = PORTABLE_BUILDERS" "base_unminted env"
    and "max_depth (config env) < fuel" "\<And>t. \<not> deadline_passed env t" "total_spelling (gr_spelling g)"
  shows "list_all (fresh_root env) exposed \<Longrightarrow> \<exists>fk s'. fork_from g fuel env seed names exposed s = Inr (fk, s')"
proof (induction exposed arbitrary: seed names s)
  case (Cons nm rest)
  have root: "fresh_root env (root_name env (Some nm))" "root_name env (Some nm) \<noteq> []"
    using Cons.prems by (simp_all add: root_name_def fresh_root_def)
  from root_built [OF assms(1,2) root(2) assms(3,5,6)] obtain built t
    where built: "build_root g fuel env (Some seed) (Some nm) (Some names) s = Inr (built, t)" by blast
  from total_emission [OF assms(7) generate_emits [OF assms(2,3) root(1) assms(4) built]]
  obtain x where x: "generate g fuel env (Some seed) (Some nm) (Some names) s = Inr (x, t)"
    by (auto simp: generate_def built)
  from Cons obtain fk s' where "fork_from g fuel env (Suc seed) (counters t) rest t = Inr (fk, s')" by fastforce
  with x show ?case by auto
qed simp

section \<open>The sample\<close>

lemma sample_names:
  "base_unminted sample_env" "fresh_root sample_env ''orders0''" "fresh_root sample_env ''orders1''"
  by (simp_all add: base_unminted_def fresh_root_def minted_def orders_def get_sql_name_def)

lemma sample_forks: "\<exists>fk s'. generate_forks portable_generator 7 sample_env 0 [''orders0'', ''orders1''] start_state = Inr (fk, s')"
  using forks_returned [of sample_env portable_generator 7 "[''orders0'', ''orders1'']" 0 "[]" start_state]
  by (simp add: generate_forks_def sample_always_builds sample_env_ok sample_names portable_generator_def spellings_total
      del: fork_from.simps)

lemma holds_forks_base: "holds_forks env B {} [] (base_database (base_table env) B)"
  by (simp add: holds_forks_def base_database_def)

lemma fork_statements:
  "fork_from g fuel env seed names exposed s = Inr (fk, s') \<Longrightarrow>
     list_all (\<lambda>x. emit_nodes (gr_spelling g) (emission_order (gd_root x)) = Inr (gd_statements x)) (fk_forks fk)"
proof (induction exposed arbitrary: seed names s fk s')
  case (Cons nm rest)
  then obtain x t fk' where x: "generate g fuel env (Some seed) (Some nm) (Some names) s = Inr (x, t)"
    and rest: "fork_from g fuel env (Suc seed) (counters t) rest t = Inr (fk', s')" and fk: "fk_forks fk = x # fk_forks fk'"
    by auto
  from Cons.IH [OF rest] generate_built [OF x] show ?case by (simp add: fk emit_visit emission_order_def)
qed auto

end
