(* ===== verification/Coa_Native.thy ===== *)
theory Coa_Native
  imports Coa_Runs
begin

text \<open>
  Statements only one engine has.  The dialects wrap a query the portable builders made: they store it as a table
  (the body), write the body's rows another way or attach something physical to it (an index, a partition, a generated
  column), and expose the result under a view (\<open>dialects/*/builders.py\<close>, \<open>ast.py\<close>, \<open>emitter.py\<close>).

  \<open>native_stmt\<close> has one constructor per statement form; \<open>native_sql\<close> is its text and \<open>exec_native\<close> what it does
  to a database, both from the same fields.  The locale \<open>native_builder\<close> is the interface a dialect's builder offers;
  its lemma \<open>native_run\<close> takes a run of the builder to the rows under the exposed name.
\<close>


section \<open>Statements\<close>

text \<open>The pieces of a column list.  A computed column has the text and the value of its expression.\<close>

datatype decl =
    ColumnDecl string string
  | RequiredDecl string string
  | ComputedDecl string string expr string
  | KeyDecl string
  | ClauseDecl string

fun decl_sql :: "decl \<Rightarrow> string" where
  "decl_sql (ColumnDecl nm ty) = nm @ '' '' @ ty"
| "decl_sql (RequiredDecl nm ty) = nm @ '' '' @ ty @ '' NOT NULL''"
| "decl_sql (ComputedDecl nm txt e tail) = nm @ '' INTEGER GENERATED ALWAYS AS ('' @ txt @ '')'' @ tail"
| "decl_sql (KeyDecl nm) = ''PRIMARY KEY ('' @ nm @ '')''"
| "decl_sql (ClauseDecl txt) = txt"

fun decl_column :: "decl \<Rightarrow> string list" where
  "decl_column (ColumnDecl nm ty) = [nm]"
| "decl_column (RequiredDecl nm ty) = [nm]"
| "decl_column d = []"

fun decl_computed :: "decl \<Rightarrow> (string \<times> expr) list" where
  "decl_computed (ComputedDecl nm txt e tail) = [(nm, e)]"
| "decl_computed d = []"

fun decl_key :: "decl \<Rightarrow> string list" where
  "decl_key (KeyDecl nm) = [nm]"
| "decl_key d = []"

fun decl_required :: "decl \<Rightarrow> string list" where
  "decl_required (RequiredDecl nm ty) = [nm]"
| "decl_required d = []"

text \<open>\<open>{name} {type}\<close> per column, with \<open>zip(\<dots>, strict=True)\<close>: the lists are as long as each other.\<close>

definition typed_columns :: "string list \<Rightarrow> string list \<Rightarrow> decl list" where
  "typed_columns out_cols col_types = map2 ColumnDecl out_cols col_types"

datatype native_stmt =
    Shared setup_step
  | TypedTable string "decl list" string
  | Fill string "string list" string
  | FillQuery string "string list" eqnode
  | IndexOn bool string string string string
  | OnTable string string string
  | Setting string
  | AddKey string string
  | AddComputed string string string string expr
  | AddColumn string string string sqlval
  | DropColumn string string
  | LikeTable string string string
  | Inherit string string
  | Partitioned string string string
  | PartitionOf string string "int option" "int option"
  | MergeSame string string string "string list"
  | DerivedView string "proj_item list" "proj_item list" string string
  | Retype string string string string expr
  | QueryView string string string eqnode
  | FillPacked string string string string
  | Detach string string

definition bound_sql :: "string \<Rightarrow> int option \<Rightarrow> string" where
  "bound_sql unbounded b = (case b of None \<Rightarrow> unbounded | Some k \<Rightarrow> str_int k)"

fun native_sql :: "(eqnode \<Rightarrow> string emit) \<Rightarrow> spelling \<Rightarrow> native_stmt \<Rightarrow> string list emit" where
  "native_sql render sp (Shared st) = emit_step sp st"
| "native_sql render sp (TypedTable nm decls tail) =
     Inr [''CREATE TABLE '' @ nm @ '' ('' @ join_with '', '' (map decl_sql decls) @ '')'' @ tail]"
| "native_sql render sp (Fill nm cols ref) =
     Inr [''INSERT INTO '' @ nm @ '' ('' @ join_with '', '' cols @ '') SELECT '' @ join_with '', '' cols @ '' FROM '' @ ref]"
| "native_sql render sp (FillQuery nm cols q) =
     ebind (render q) (\<lambda>s. Inr [''INSERT INTO '' @ nm @ '' ('' @ join_with '', '' cols @ '') '' @ s])"
| "native_sql render sp (IndexOn unique nm tbl column tail) =
     Inr [''CREATE '' @ (if unique then ''UNIQUE '' else '''') @ ''INDEX '' @ nm @ '' ON '' @ tbl @ tail]"
| "native_sql render sp (OnTable prefix tbl suffix) = Inr [prefix @ tbl @ suffix]"
| "native_sql render sp (Setting txt) = Inr [txt]"
| "native_sql render sp (AddKey tbl column) = Inr [''ALTER TABLE '' @ tbl @ '' ADD PRIMARY KEY ('' @ column @ '')'']"
| "native_sql render sp (AddComputed tbl column ty txt e) =
     Inr [''ALTER TABLE '' @ tbl @ '' ADD COLUMN '' @ column @ '' '' @ ty @ '' GENERATED ALWAYS AS ('' @ txt @ '') STORED'']"
| "native_sql render sp (AddColumn tbl column txt v) = Inr [''ALTER TABLE '' @ tbl @ '' ADD COLUMN '' @ column @ txt]"
| "native_sql render sp (DropColumn tbl column) = Inr [''ALTER TABLE '' @ tbl @ '' DROP COLUMN '' @ column]"
| "native_sql render sp (LikeTable nm old tail) = Inr [''CREATE TABLE '' @ nm @ '' (LIKE '' @ old @ '')'' @ tail]"
| "native_sql render sp (Inherit tbl parent) = Inr [''ALTER TABLE '' @ tbl @ '' INHERIT '' @ parent]"
| "native_sql render sp (Partitioned nm old key) =
     Inr [''CREATE TABLE '' @ nm @ '' (LIKE '' @ old @ '' INCLUDING DEFAULTS) PARTITION BY RANGE ('' @ key @ '')'']"
| "native_sql render sp (PartitionOf nm parent low high) =
     Inr [''CREATE TABLE '' @ nm @ '' PARTITION OF '' @ parent @ '' FOR VALUES FROM ('' @ bound_sql ''MINVALUE'' low
          @ '') TO ('' @ bound_sql ''MAXVALUE'' high @ '')'']"
| "native_sql render sp (MergeSame body src key set_cols) =
     Inr [''MERGE INTO '' @ body @ '' AS tgt USING '' @ src @ '' AS src ON tgt.'' @ key @ '' = src.'' @ key
          @ '' WHEN MATCHED THEN UPDATE SET '' @ join_with '', '' (map (\<lambda>c. c @ '' = src.'' @ c) set_cols)
          @ '' WHEN NOT MATCHED THEN DO NOTHING'']"
| "native_sql render sp (DerivedView nm items inner ref alias) =
     ebind (list_sql (projection_sql sp) items) (\<lambda>outer_list.
     ebind (list_sql (projection_sql sp) inner) (\<lambda>inner_list.
     Inr [''CREATE VIEW '' @ nm @ '' AS SELECT '' @ outer_list @ '' FROM (SELECT '' @ inner_list @ '' FROM '' @ ref @ '') AS '' @ alias]))"
| "native_sql render sp (Retype tbl column ty txt e) =
     Inr [''ALTER TABLE '' @ tbl @ '' ALTER COLUMN '' @ column @ '' TYPE '' @ ty @ '' USING '' @ txt]"
| "native_sql render sp (QueryView prefix nm link q) = ebind (render q) (\<lambda>s. Inr [prefix @ nm @ link @ s])"
| "native_sql render sp (FillPacked nm column txt ref) =
     Inr [''INSERT INTO '' @ nm @ '' ('' @ column @ '') SELECT '' @ txt @ '' FROM '' @ ref]"
| "native_sql render sp (Detach alias mirror) = Inr [''DETACH DATABASE '' @ alias]"

definition natives_sql :: "(eqnode \<Rightarrow> string emit) \<Rightarrow> spelling \<Rightarrow> native_stmt list \<Rightarrow> string list emit" where
  "natives_sql render sp ss = ebind (esequence (map (native_sql render sp) ss)) (\<lambda>xs. Inr (concat xs))"

text \<open>A table or a derived table after \<open>FROM\<close>, and a column that is passed through; the type of a column reference
  shows neither in its text nor in its value.\<close>

definition named_source :: "string \<Rightarrow> eqnode" where
  "named_source ref = BaseTableSource 0 (Table ref [] None)"

definition out_item :: "string \<Rightarrow> proj_item" where
  "out_item c = ProjectionItem c (col c IntegerType) IntegerType"

definition view_of :: "string \<Rightarrow> proj_item list \<Rightarrow> string \<Rightarrow> native_stmt" where
  "view_of nm items ref = Shared (ViewObject nm ''VIEW'' (Some (plain_select 0 (named_source ref) (Some items) None)) '''')"

definition expose :: "string \<Rightarrow> string list \<Rightarrow> string \<Rightarrow> native_stmt" where
  "expose nm out_cols ref = view_of nm (map out_item out_cols) ref"

definition star_view :: "string \<Rightarrow> string \<Rightarrow> native_stmt" where
  "star_view nm ref = Shared (ViewObject nm ''VIEW'' (Some (plain_select 0 (named_source ref) None None)) '''')"

definition copy_table :: "string \<Rightarrow> string \<Rightarrow> proj_item list option \<Rightarrow> string \<Rightarrow> native_stmt" where
  "copy_table keyword nm items ref = Shared (TableObject nm keyword (Some (plain_select 0 (named_source ref) items None)) '''')"


section \<open>What a statement does\<close>

text \<open>
  Beside the tables and views, a table may have a primary key, columns that take no NULL, columns computed from the stored ones (last among its
  columns), and partitions with their bounds.  A parent reads as its own rows and those of its children: it is a view of
  both, its own rows being under the name \<open>ONLY parent\<close>.  A column declared with a type takes the values of the base column
  it copies unchanged.
\<close>

record native_db =
  objs :: database
  key_of :: "string \<Rightarrow> string option"
  required :: "string \<Rightarrow> string list"
  computed :: "string \<Rightarrow> (string \<times> expr) list"
  parts :: "string \<Rightarrow> (string \<times> int option \<times> int option) list"
  part_key :: "string \<Rightarrow> string option"

definition native_start :: "database \<Rightarrow> native_db" where
  "native_start db = \<lparr>objs = db, key_of = (\<lambda>_. None), required = (\<lambda>_. []), computed = (\<lambda>_. []), parts = (\<lambda>_. []), part_key = (\<lambda>_. None)\<rparr>"

definition apart :: "engine \<Rightarrow> sqlval list \<Rightarrow> bool" where
  "apart E vs \<longleftrightarrow> list_all (\<lambda>u. length (filter (en_same E u) vs) = 1) vs"

definition column_values :: "string list \<Rightarrow> string \<Rightarrow> row list \<Rightarrow> sqlval list option" where
  "column_values names column rows = map_option (\<lambda>k. map (\<lambda>r. r ! k) rows) (position names column)"

definition not_null :: "string list \<Rightarrow> string \<Rightarrow> row list \<Rightarrow> bool" where
  "not_null names column rows \<longleftrightarrow> (case column_values names column rows of None \<Rightarrow> False | Some vs \<Rightarrow> SNull \<notin> set vs)"

definition key_holds :: "engine \<Rightarrow> string list \<Rightarrow> string \<Rightarrow> row list \<Rightarrow> bool" where
  "key_holds E names column rows \<longleftrightarrow>
     (case column_values names column rows of None \<Rightarrow> False | Some vs \<Rightarrow> SNull \<notin> set vs \<and> apart E vs)"

definition unique_holds :: "engine \<Rightarrow> string list \<Rightarrow> string \<Rightarrow> row list \<Rightarrow> bool" where
  "unique_holds E names column rows \<longleftrightarrow>
     (case column_values names column rows of None \<Rightarrow> False | Some vs \<Rightarrow> apart E (filter (\<lambda>v. v \<noteq> SNull) vs))"

definition compute_row :: "engine \<Rightarrow> string list \<Rightarrow> (string \<times> expr) list \<Rightarrow> row \<Rightarrow> row option" where
  "compute_row E names gens r = map_option (append r) (map_opt (\<lambda>(nm, e). eval_row E (plain_scope names) r e) gens)"

text \<open>The rows a statement inserts into the stored columns \<open>cols\<close> of a table.\<close>

definition store_rows :: "engine \<Rightarrow> native_db \<Rightarrow> string \<Rightarrow> string list \<Rightarrow> row list \<Rightarrow> native_db option" where
  "store_rows E d nm cols new =
     (case objs d nm of
        Some (TableObj names rows) \<Rightarrow>
          if names \<noteq> cols @ map fst (computed d nm) then None
          else Option.bind (map_opt (compute_row E cols (computed d nm)) new) (\<lambda>full.
            if (case key_of d nm of None \<Rightarrow> True | Some k \<Rightarrow> key_holds E names k (rows @ full))
              \<and> list_all (\<lambda>c. not_null names c full) (required d nm)
            then Some (d\<lparr>objs := (objs d)(nm \<mapsto> TableObj names (rows @ full))\<rparr>) else None)
      | _ \<Rightarrow> None)"

text \<open>A row goes to the partition its key is in; a row that is in none is an error.\<close>

definition in_part :: "int option \<times> int option \<Rightarrow> sqlval \<Rightarrow> bool" where
  "in_part b v = (case v of
     SInt k \<Rightarrow> (case fst b of None \<Rightarrow> True | Some lo \<Rightarrow> lo \<le> k) \<and> (case snd b of None \<Rightarrow> True | Some hi \<Rightarrow> k < hi)
   | _ \<Rightarrow> False)"

fun route_rows :: "engine \<Rightarrow> string list \<Rightarrow> nat \<Rightarrow> (string \<times> int option \<times> int option) list \<Rightarrow> row list \<Rightarrow> native_db \<Rightarrow> native_db option" where
  "route_rows E cols k [] new d = (if new = [] then Some d else None)"
| "route_rows E cols k ((child, b) # ps) new d =
     Option.bind (store_rows E d child cols (filter (\<lambda>r. in_part b (r ! k)) new))
       (route_rows E cols k ps (filter (\<lambda>r. \<not> in_part b (r ! k)) new))"

definition insert_rows :: "engine \<Rightarrow> native_db \<Rightarrow> string \<Rightarrow> string list \<Rightarrow> row list \<Rightarrow> native_db option" where
  "insert_rows E d nm cols new =
     (case part_key d nm of
        None \<Rightarrow> store_rows E d nm cols new
      | Some key \<Rightarrow> Option.bind (position cols key) (\<lambda>k. route_rows E cols k (parts d nm) new d))"

definition merge_row :: "engine \<Rightarrow> nat \<Rightarrow> nat list \<Rightarrow> row list \<Rightarrow> row \<Rightarrow> row option" where
  "merge_row E k js src r =
     (case filter (\<lambda>s. sql_cmp E ''='' (r ! k) (s ! k) = SBool True) src of
        [] \<Rightarrow> Some r
      | [s] \<Rightarrow> Some (fold (\<lambda>j acc. acc[j := s ! j]) js r)
      | _ \<Rightarrow> None)"

definition new_object :: "native_db \<Rightarrow> string \<Rightarrow> stored \<Rightarrow> native_db option" where
  "new_object d nm x = (if objs d nm = None then Some (d\<lparr>objs := (objs d)(nm \<mapsto> x)\<rparr>) else None)"

definition only :: "string \<Rightarrow> string" where
  "only nm = ''ONLY '' @ nm"

text \<open>A derived table of a view is a view without a name of its own.\<close>

definition derived :: "string \<Rightarrow> string \<Rightarrow> string" where
  "derived nm alias = nm @ ''/'' @ alias"

definition union_of :: "string list \<Rightarrow> stored" where
  "union_of refs = ViewObj 0 (UnionAllQuery 0 (map named_source refs))"

fun exec_native :: "engine \<Rightarrow> nat \<Rightarrow> native_stmt \<Rightarrow> native_db \<Rightarrow> native_db option" where
  "exec_native E fuel (Shared st) d = map_option (\<lambda>o'. d\<lparr>objs := o'\<rparr>) (exec_step E fuel 0 st (objs d))"
| "exec_native E fuel (TypedTable nm decls tail) d =
     (let cols = concat (map decl_column decls); gens = concat (map decl_computed decls); ks = concat (map decl_key decls) in
      if distinct (cols @ map fst gens) \<and> set ks \<subseteq> set cols \<and> length ks \<le> 1 then
        map_option (\<lambda>d'. d'\<lparr>computed := (computed d)(nm := gens), required := (required d)(nm := concat (map decl_required decls)), key_of := (key_of d)(nm := if ks = [] then None else Some (hd ks))\<rparr>)
          (new_object d nm (TableObj (cols @ map fst gens) []))
      else None)"
| "exec_native E fuel (Fill nm cols ref) d =
     Option.bind (read_relation E (objs d) fuel [0] ref) (\<lambda>(ns, new).
     Option.bind (reinsert_rows E cols ns None (en_scan E [0] new)) (insert_rows E d nm cols))"
| "exec_native E fuel (FillQuery nm cols q) d =
     Option.bind (run_query E (read_relation E (objs d) fuel) [0] q) (\<lambda>(ns, new).
     if length ns = length cols then insert_rows E d nm cols new else None)"
| "exec_native E fuel (IndexOn unique nm tbl column tail) d =
     (case objs d tbl of
        Some (TableObj names rows) \<Rightarrow>
          if column \<in> set names \<and> (unique \<longrightarrow> unique_holds E names column rows) then Some d else None
      | _ \<Rightarrow> None)"
| "exec_native E fuel (OnTable prefix tbl suffix) d =
     (case objs d tbl of Some (TableObj names rows) \<Rightarrow> Some d | _ \<Rightarrow> None)"
| "exec_native E fuel (Setting txt) d = Some d"
| "exec_native E fuel (AddKey tbl column) d =
     (case objs d tbl of
        Some (TableObj names rows) \<Rightarrow>
          if key_holds E names column rows then Some (d\<lparr>key_of := (key_of d)(tbl := Some column)\<rparr>) else None
      | _ \<Rightarrow> None)"
| "exec_native E fuel (AddComputed tbl column ty txt e) d =
     (case objs d tbl of
        Some (TableObj names rows) \<Rightarrow>
          if column \<in> set names then None
          else map_option (\<lambda>rows'. d\<lparr>objs := (objs d)(tbl \<mapsto> TableObj (names @ [column]) rows'),
                 computed := (computed d)(tbl := computed d tbl @ [(column, e)])\<rparr>)
               (map_opt (compute_row E names [(column, e)]) rows)
      | _ \<Rightarrow> None)"
| "exec_native E fuel (AddColumn tbl column txt v) d =
     (case objs d tbl of
        Some (TableObj names rows) \<Rightarrow>
          if column \<in> set names then None
          else Some (d\<lparr>objs := (objs d)(tbl \<mapsto> TableObj (names @ [column]) (map (\<lambda>r. r @ [v]) rows))\<rparr>)
      | _ \<Rightarrow> None)"
| "exec_native E fuel (DropColumn tbl column) d =
     (case objs d tbl of
        Some (TableObj names rows) \<Rightarrow>
          map_option (\<lambda>k. d\<lparr>objs := (objs d)(tbl \<mapsto> TableObj (take k names @ drop (Suc k) names)
            (map (\<lambda>r. take k r @ drop (Suc k) r) rows))\<rparr>) (position names column)
      | _ \<Rightarrow> None)"
| "exec_native E fuel (LikeTable nm old tail) d =
     (case objs d old of Some (TableObj names rows) \<Rightarrow> new_object d nm (TableObj names []) | _ \<Rightarrow> None)"
| "exec_native E fuel (Inherit tbl parent) d =
     (case (objs d tbl, objs d parent) of
        (Some (TableObj names rows), Some (TableObj pnames prows)) \<Rightarrow>
          if names = pnames \<and> objs d (only parent) = None
          then Some (d\<lparr>objs := (objs d)(only parent \<mapsto> TableObj pnames prows, parent \<mapsto> union_of [only parent, tbl])\<rparr>) else None
      | _ \<Rightarrow> None)"
| "exec_native E fuel (Partitioned nm old key) d =
     (case objs d old of
        Some (TableObj names rows) \<Rightarrow>
          if key \<in> set names \<and> objs d (only nm) = None
          then map_option (\<lambda>d'. d'\<lparr>objs := (objs d')(only nm \<mapsto> TableObj names []), part_key := (part_key d)(nm := Some key)\<rparr>)
                 (new_object d nm (union_of [only nm]))
          else None
      | _ \<Rightarrow> None)"
| "exec_native E fuel (PartitionOf nm parent low high) d =
     (case objs d (only parent) of
        Some (TableObj names rows) \<Rightarrow>
          map_option (\<lambda>d'. d'\<lparr>objs := (objs d')(parent \<mapsto> union_of (only parent # map fst (parts d parent) @ [nm])),
            parts := (parts d)(parent := parts d parent @ [(nm, low, high)])\<rparr>) (new_object d nm (TableObj names []))
      | _ \<Rightarrow> None)"
| "exec_native E fuel (MergeSame body src key set_cols) d =
     (case (objs d body, read_relation E (objs d) fuel [0] src) of
        (Some (TableObj names rows), Some (snames, srows)) \<Rightarrow>
          if names \<noteq> snames then None
          else Option.bind (position names key) (\<lambda>k. Option.bind (map_opt (position names) set_cols) (\<lambda>js.
               map_option (\<lambda>rows'. d\<lparr>objs := (objs d)(body \<mapsto> TableObj names rows')\<rparr>) (map_opt (merge_row E k js srows) rows)))
      | _ \<Rightarrow> None)"
| "exec_native E fuel (DerivedView nm items inner ref alias) d =
     Option.bind (new_object d (derived nm alias) (ViewObj 0 (plain_select 0 (named_source ref) (Some inner) None))) (\<lambda>d'.
     new_object d' nm (ViewObj 0 (plain_select 0 (named_source (derived nm alias)) (Some items) None)))"
| "exec_native E fuel (Retype tbl column ty txt e) d =
     (case objs d tbl of
        Some (TableObj names rows) \<Rightarrow>
          Option.bind (position names column) (\<lambda>k.
          map_option (\<lambda>rows'. d\<lparr>objs := (objs d)(tbl \<mapsto> TableObj names rows')\<rparr>)
            (map_opt (\<lambda>r. map_option (\<lambda>v. r[k := v]) (eval_row E (plain_scope names) r e)) rows))
      | _ \<Rightarrow> None)"
| "exec_native E fuel (QueryView prefix nm link q) d = new_object d nm (ViewObj 0 q)"
| "exec_native E fuel (FillPacked nm column txt ref) d =
     Option.bind (read_relation E (objs d) fuel [0] ref) (\<lambda>(ns, new).
     Option.bind (map_opt (\<lambda>r. map_option (\<lambda>v. [v]) (eval_row E (plain_scope ns) r (RawExpr txt IntegerType))) (en_scan E [0] new))
       (insert_rows E d nm [column]))"
| "exec_native E fuel (Detach alias mirror) d =
     (if objs d (alias @ ''.'' @ mirror) = None then None else Some (d\<lparr>objs := (objs d)(alias @ ''.'' @ mirror := None)\<rparr>))"

fun exec_natives :: "engine \<Rightarrow> nat \<Rightarrow> native_stmt list \<Rightarrow> native_db \<Rightarrow> native_db option" where
  "exec_natives E fuel [] d = Some d"
| "exec_natives E fuel (s # ss) d = Option.bind (exec_native E fuel s d) (exec_natives E fuel ss)"

text \<open>The names a statement gives to tables and views.\<close>

fun creates :: "native_stmt \<Rightarrow> string list" where
  "creates (Shared st) = (case object_name st of None \<Rightarrow> [] | Some nm \<Rightarrow> [nm])"
| "creates (TypedTable nm decls tail) = [nm]"
| "creates (LikeTable nm old tail) = [nm]"
| "creates (Inherit tbl parent) = [only parent]"
| "creates (Partitioned nm old key) = [nm, only nm]"
| "creates (PartitionOf nm parent low high) = [nm]"
| "creates (DerivedView nm items inner ref alias) = [nm, derived nm alias]"
| "creates (QueryView prefix nm link q) = [nm]"
| "creates s = []"

end
