(* ===== verification/Coa_Native_Laws.thy ===== *)
theory Coa_Native_Laws
  imports Coa_Native
begin

text \<open>
  What each native statement leaves to read: \<open>exposes\<close> says that a name reads as given columns and rows, for every
  reader.  One lemma per statement form; the dialects chain them.
\<close>


section \<open>Reading\<close>

definition exposes :: "engine \<Rightarrow> database \<Rightarrow> nat \<Rightarrow> string \<Rightarrow> string list \<Rightarrow> row list \<Rightarrow> bool" where
  "exposes E db f nm names B \<longleftrightarrow> (\<forall>path. \<exists>rows. read_relation E db f path nm = Some (names, rows) \<and> mset rows = mset B)"

lemma exposesD:
  assumes "exposes E db f nm names B"
  obtains rows where "read_relation E db f path nm = Some (names, rows)" "mset rows = mset B"
  using assms unfolding exposes_def by blast

lemma exposes_table: "db nm = Some (TableObj names rows) \<Longrightarrow> mset rows = mset B \<Longrightarrow> exposes E db (Suc f) nm names B"
  by (simp add: exposes_def)

lemma exposes_later: "exposes E db f nm names B \<Longrightarrow> db \<subseteq>\<^sub>m db' \<Longrightarrow> exposes E db' f nm names B"
  using read_mono [of db db' E f] unfolding exposes_def reads_more_def by blast

lemma map_le_new: "db nm = None \<Longrightarrow> db \<subseteq>\<^sub>m db(nm \<mapsto> x)"
  by (auto simp: map_le_def)

lemma exposes_beside: "exposes E db f nm names B \<Longrightarrow> db other = None \<Longrightarrow> exposes E (db(other \<mapsto> x)) f nm names B"
  by (rule exposes_later [OF _ map_le_new])

lemma named_read [simp]: "source_rows rd path (named_source ref) = rd path ref"
  by (simp add: source_rows_def named_source_def ref_sql_def get_sql_name_def)

lemma named_ref [simp]: "ref_sql (named_source ref) = Some ref"
  by (simp add: named_source_def ref_sql_def get_sql_name_def)


section \<open>Views and copies\<close>

text \<open>A list of expressions that gives \<open>g r\<close> on every row \<open>r\<close>.\<close>

definition items_give :: "engine \<Rightarrow> string list \<Rightarrow> proj_item list \<Rightarrow> row list \<Rightarrow> (row \<Rightarrow> row) \<Rightarrow> bool" where
  "items_give E names items B g \<longleftrightarrow> list_all (scalar \<circ> pi_expr) items
     \<and> (\<forall>r \<in> set B. map_opt (\<lambda>it. eval_row E (plain_scope names) r (pi_expr it)) items = Some (g r))"

lemma items_give_perm: "items_give E names items B g \<Longrightarrow> mset rows = mset B \<Longrightarrow> items_give E names items rows g"
  unfolding items_give_def by (metis set_mset_mset)

lemma run_items:
  assumes "engine_ok E" "items_give E names items B g" "rd (j # path) ref = Some (names, rows)" "mset rows = mset B"
  shows "\<exists>out. run_query E rd path (plain_select j (named_source ref) (Some items) None) = Some (map pi_alias items, out)
    \<and> mset out = mset (map g B)"
proof -
  have scan: "mset (en_scan E (j # path) rows) = mset B" using assms(1,4) by simp
  from items_give_perm [OF assms(2) scan] have "project_rows E (plain_scope names) items (en_scan E (j # path) rows) = Some (map g (en_scan E (j # path) rows))"
    by (intro project_rows_values) (auto simp: items_give_def list_all_iff)
  then have "run_query E rd path (plain_select j (named_source ref) (Some items) None) = Some (map pi_alias items, map g (en_scan E (j # path) rows))"
    using assms(3) by (simp add: select_rows_def where_rows_def qualify_rows_def)
  then show ?thesis using scan by simp
qed

lemma exec_view:
  assumes "objs d nm = None"
  shows "\<exists>q. exec_native E k (view_of nm items ref) d = Some (d\<lparr>objs := (objs d)(nm \<mapsto> ViewObj 0 q)\<rparr>)
    \<and> q = plain_select 0 (named_source ref) (Some items) None"
  using assms by (simp add: view_of_def)

lemma view_exposes:
  assumes "engine_ok E" "exposes E db f ref names B" "items_give E names items B g" "db nm = None"
  shows "exposes E (db(nm \<mapsto> ViewObj 0 (plain_select 0 (named_source ref) (Some items) None))) (Suc f) nm (map pi_alias items) (map g B)"
  unfolding exposes_def
proof
  fix path
  let ?db = "db(nm \<mapsto> ViewObj 0 (plain_select 0 (named_source ref) (Some items) None))"
  have "exposes E ?db f ref names B" by (rule exposes_beside [OF assms(2,4)])
  from exposesD [OF this, of "0 # 0 # path"] obtain rows where "read_relation E ?db f (0 # 0 # path) ref = Some (names, rows)" "mset rows = mset B" .
  from run_items [OF assms(1,3), of "read_relation E ?db f" 0 "0 # path" ref rows] this
  show "\<exists>rows. read_relation E ?db (Suc f) path nm = Some (map pi_alias items, rows) \<and> mset rows = mset (map g B)" by simp
qed

text \<open>The columns themselves.\<close>

lemma out_item_simps [simp]: "pi_alias (out_item c) = c" "map pi_alias (map out_item cols) = cols" "scalar (pi_expr (out_item c))"
  "pi_expr (out_item c) = ColumnRef c IntegerType None"
  by (simp_all add: out_item_def o_def col_def)

lemma eval_out:
  assumes "distinct names" "k < length names"
  shows "eval_row E (plain_scope names) r (ColumnRef (names ! k) ty None) = Some (r ! k)"
  using resolve_plain(1) [OF assms, of "[]"] by (simp add: eval_row_def plain_scope_def)

lemma out_items_plain: "map out_item cols = plain_items (map (\<lambda>c. (c, IntegerType)) cols)"
  by (simp add: plain_items_def out_item_def)

lemma items_give_prefix:
  assumes "distinct (names @ extra)" "\<forall>r \<in> set B. length r = length (names @ extra)"
  shows "items_give E (names @ extra) (map out_item names) B (take (length names))"
  using eval_plain_prefix [OF assms(1), of _ "map (\<lambda>c. (c, IntegerType)) names" E "[]"] assms(2)
  by (auto simp: items_give_def plain_scope_def out_items_plain [symmetric] o_def list_all_iff)

lemma items_give_columns:
  assumes "distinct names" "\<forall>r \<in> set B. length r = length names"
  shows "items_give E names (map out_item names) B (\<lambda>r. r)"
  using items_give_prefix [of names "[]" B E] assms by (simp add: items_give_def)

lemma exposes_view:
  assumes "engine_ok E" "exposes E (objs d) f ref names B" "objs d nm = None" "distinct names" "\<forall>r \<in> set B. length r = length names"
  shows "\<exists>d'. exec_native E k (expose nm names ref) d = Some d' \<and> exposes E (objs d') (Suc f) nm names B"
  using view_exposes [OF assms(1,2) items_give_columns [OF assms(4,5)] assms(3)] exec_view [of d nm E k "map out_item names" ref] assms(3)
  by (auto simp: expose_def o_def)


section \<open>Keys\<close>

lemma apart_perm: "mset us = mset vs \<Longrightarrow> apart E us = apart E vs"
proof -
  assume *: "mset us = mset vs"
  then have "length (filter p us) = length (filter p vs)" for p by (metis mset_filter size_mset)
  moreover have "set us = set vs" using * by (metis set_mset_mset)
  ultimately show ?thesis by (simp add: apart_def list_all_iff)
qed

lemma key_perm:
  assumes "mset rows = mset B"
  shows "key_holds E names column rows = key_holds E names column B" "unique_holds E names column rows = unique_holds E names column B"
proof -
  have map: "mset (map f rows) = mset (map f B)" for f :: "row \<Rightarrow> sqlval" using assms by simp
  have filter: "mset (filter p (map f rows)) = mset (filter p (map f B))" for p and f :: "row \<Rightarrow> sqlval"
    by (simp only: mset_filter map)
  show "key_holds E names column rows = key_holds E names column B" "unique_holds E names column rows = unique_holds E names column B"
    by (cases "position names column";
        simp only: key_holds_def unique_holds_def column_values_def option.map option.case mset_eq_setD [OF map] apart_perm [OF map] apart_perm [OF filter])+
qed

lemma key_unique: "key_holds E names column B \<Longrightarrow> unique_holds E names column B"
proof -
  assume key: "key_holds E names column B"
  then obtain vs where vs: "column_values names column B = Some vs" "SNull \<notin> set vs" "apart E vs"
    by (auto simp: key_holds_def split: option.splits)
  then have "filter (\<lambda>v. v \<noteq> SNull) vs = vs" by (intro filter_True) auto
  with vs show ?thesis by (simp add: unique_holds_def)
qed

text \<open>A key column stays one when columns are added after it.\<close>

lemma position_Some: "distinct names \<Longrightarrow> k < length names \<Longrightarrow> position names (names ! k) = Some k"
  by (simp add: position_def resolve_plain)

lemma position_member: "distinct names \<Longrightarrow> column \<in> set names \<Longrightarrow> \<exists>k < length names. names ! k = column \<and> position names column = Some k"
  using position_Some by (metis in_set_conv_nth)

lemma position_in: "position names column = Some k \<Longrightarrow> column \<in> set names"
proof -
  assume "position names column = Some k"
  then have "filter (\<lambda>i. snd (plain_scope names ! i) = column) [0..<length names] = [k]"
    by (auto simp: position_def resolve_def plain_scope_def split: list.splits)
  then have "k \<in> set (filter (\<lambda>i. snd (plain_scope names ! i) = column) [0..<length names])" by simp
  then show ?thesis by (auto simp: plain_scope_def)
qed

lemma key_column: "key_holds E names column B \<Longrightarrow> column \<in> set names"
  by (auto simp: key_holds_def column_values_def position_in split: option.splits)

lemma key_extend:
  assumes "key_holds E names column B" "distinct (names @ extra)" "\<forall>r \<in> set B. length r = length names"
  shows "key_holds E (names @ extra) column (map (\<lambda>r. r @ f r) B)"
proof -
  from key_column [OF assms(1)] assms(2) obtain k where k: "k < length names" "names ! k = column" "position names column = Some k"
    using position_member [of names column] by auto
  have "position (names @ extra) ((names @ extra) ! k) = Some k" using assms(2) k(1) by (intro position_Some) auto
  then have "position (names @ extra) column = Some k" using k by (simp add: nth_append)
  moreover have "map (\<lambda>r. r ! k) (map (\<lambda>r. r @ f r) B) = map (\<lambda>r. r ! k) B"
    using assms(3) k(1) by (simp add: nth_append)
  ultimately show ?thesis using assms(1) k(3) by (simp only: key_holds_def column_values_def option.map)
qed

lemma not_null_extend:
  assumes "not_null names column B" "distinct (names @ extra)" "\<forall>r \<in> set B. length r = length names"
  shows "not_null (names @ extra) column (map (\<lambda>r. r @ f r) B)"
proof -
  obtain k0 where "position names column = Some k0" using assms(1) by (auto simp: not_null_def column_values_def split: option.splits)
  from position_in [OF this] assms(2) obtain k where k: "k < length names" "names ! k = column" "position names column = Some k"
    using position_member [of names column] by auto
  have "position (names @ extra) ((names @ extra) ! k) = Some k" using assms(2) k(1) by (intro position_Some) auto
  then have "position (names @ extra) column = Some k" using k by (simp add: nth_append)
  moreover have "map (\<lambda>r. r ! k) (map (\<lambda>r. r @ f r) B) = map (\<lambda>r. r ! k) B"
    using assms(3) k(1) by (simp add: nth_append)
  ultimately show ?thesis using assms(1) k(3) by (simp only: not_null_def column_values_def option.map)
qed

lemma not_null_perm: "mset rows = mset B \<Longrightarrow> not_null names column rows = not_null names column B"
proof -
  assume "mset rows = mset B"
  then have "set rows = set B" by (rule mset_eq_setD)
  then show ?thesis by (simp add: not_null_def column_values_def split: option.split)
qed

lemma key_not_null: "key_holds E names column B \<Longrightarrow> not_null names column B"
  by (auto simp: key_holds_def not_null_def split: option.splits)


section \<open>Tables\<close>

definition fresh_in :: "native_db \<Rightarrow> string list \<Rightarrow> bool" where
  "fresh_in d xs \<longleftrightarrow> distinct xs \<and> (\<forall>x \<in> set xs. objs d x = None)"

text \<open>A table that holds some rows, and one that holds them with computed columns after the stored ones.\<close>

definition stores :: "native_db \<Rightarrow> string \<Rightarrow> string list \<Rightarrow> row list \<Rightarrow> bool" where
  "stores d nm names B \<longleftrightarrow> (\<exists>rows. objs d nm = Some (TableObj names rows) \<and> mset rows = mset B)"

lemma stores_exposes: "stores d nm names B \<Longrightarrow> exposes E (objs d) (Suc f) nm names B"
  by (auto simp: stores_def intro: exposes_table)

lemma exec_natives_append:
  "exec_natives E f (xs @ ys) d = Option.bind (exec_natives E f xs d) (exec_natives E f ys)"
proof (induction xs arbitrary: d)
  case (Cons x xs)
  then show ?case by (cases "exec_native E f x d") simp_all
qed simp

lemma exec_on_table: "stores d tbl names B \<Longrightarrow> exec_native E f (OnTable prefix tbl suffix) d = Some d"
  by (auto simp: stores_def)

lemma exec_index: "stores d tbl names B \<Longrightarrow> column \<in> set names \<Longrightarrow> exec_native E f (IndexOn False nm tbl column tail) d = Some d"
  by (auto simp: stores_def)

lemma exec_unique:
  "stores d tbl names B \<Longrightarrow> unique_holds E names column B \<Longrightarrow> exec_native E f (IndexOn True nm tbl column tail) d = Some d"
proof -
  assume "stores d tbl names B" "unique_holds E names column B"
  then obtain rows where rows: "objs d tbl = Some (TableObj names rows)" "unique_holds E names column rows"
    unfolding stores_def using key_perm(2) by blast
  moreover have "column \<in> set names"
    using rows(2) by (cases "position names column") (auto simp: unique_holds_def column_values_def position_in)
  ultimately show ?thesis by simp
qed

text \<open>An empty table with declared columns, filled from what is exposed.\<close>

lemma typed_copy:
  assumes "engine_ok E" "exposes E (objs d) f ref cols B" "objs d child = None" "part_key d child = None"
    and "concat (map decl_column decls) = cols" "concat (map decl_computed decls) = gens" "concat (map decl_key decls) = ks"
    and "distinct (cols @ map fst gens)" "\<forall>r \<in> set B. length r = length cols"
    and "\<forall>r \<in> set B. compute_row E cols gens r = Some (r @ ext r)"
    and "ks = [] \<or> (\<exists>k. ks = [k] \<and> key_holds E cols k B)"
    and "\<forall>c \<in> set (concat (map decl_required decls)). not_null cols c B"
  shows "\<exists>d'. exec_natives E f [TypedTable child decls tail, Fill child cols ref] d = Some d'
    \<and> stores d' child (cols @ map fst gens) (map (\<lambda>r. r @ ext r) B) \<and> (\<forall>x. x \<noteq> child \<longrightarrow> objs d' x = objs d x)"
proof -
  let ?names = "cols @ map fst gens"
  let ?d = "d\<lparr>objs := (objs d)(child \<mapsto> TableObj ?names []), computed := (computed d)(child := gens),
      required := (required d)(child := concat (map decl_required decls)), key_of := (key_of d)(child := if ks = [] then None else Some (hd ks))\<rparr>"
  have "set ks \<subseteq> set cols" "length ks \<le> 1" using assms(11) key_column by auto
  with assms(3,5-8) have first: "exec_native E f (TypedTable child decls tail) d = Some ?d"
    by (auto simp: new_object_def Let_def)
  have "exposes E (objs ?d) f ref cols B" using exposes_beside [OF assms(2,3)] by simp
  from exposesD [OF this, of "[0]"] obtain rows where rows: "read_relation E (objs ?d) f [0] ref = Some (cols, rows)" "mset rows = mset B" .
  let ?new = "en_scan E [0] rows"
  have new: "mset ?new = mset B" using assms(1) rows(2) by simp
  then have set: "set ?new = set B" by (rule mset_eq_setD)
  have reinsert: "reinsert_rows E cols cols None ?new = Some ?new"
    by (rule reinsert_same_columns) (use assms(8,9) set in \<open>auto simp: where_rows_def\<close>)
  have full: "map_opt (compute_row E cols gens) ?new = Some (map (\<lambda>r. r @ ext r) ?new)"
    by (rule map_opt_total) (use assms(10) set in auto)
  have "key_holds E ?names k (map (\<lambda>r. r @ ext r) ?new)" if "ks = [k]" for k
    by (rule key_extend) (use assms(8,9,11) that set key_perm(1) [OF new, of E cols k] in simp_all)
  then have "case key_of ?d child of None \<Rightarrow> True | Some k \<Rightarrow> key_holds E ?names k ([] @ map (\<lambda>r. r @ ext r) ?new)"
    using assms(11) by auto
  then have key: "(case key_of ?d child of None \<Rightarrow> True | Some k \<Rightarrow> key_holds E ?names k ([] @ map (\<lambda>r. r @ ext r) ?new)) = True"
    by simp
  have "list_all (\<lambda>c. not_null ?names c (map (\<lambda>r. r @ ext r) ?new)) (required ?d child)"
    using not_null_extend [of cols _ ?new "map fst gens" ext] not_null_perm [OF new] assms(8,9,12) set by (simp add: list_all_iff)
  then have req: "list_all (\<lambda>c. not_null ?names c (map (\<lambda>r. r @ ext r) ?new)) (required ?d child) = True" by simp
  have objs: "objs ?d child = Some (TableObj ?names [])" "computed ?d child = gens" "part_key ?d child = None" using assms(4) by simp_all
  have "insert_rows E ?d child cols ?new = Some (?d\<lparr>objs := (objs ?d)(child \<mapsto> TableObj ?names ([] @ map (\<lambda>r. r @ ext r) ?new))\<rparr>)"
    unfolding insert_rows_def store_rows_def objs option.case stored.case full bind.bind_lunit key req by simp
  moreover have "exec_native E f (Fill child cols ref) ?d = insert_rows E ?d child cols ?new"
    unfolding exec_native.simps rows(1) bind.bind_lunit prod.case reinsert ..
  ultimately have second: "exec_native E f (Fill child cols ref) ?d
      = Some (?d\<lparr>objs := (objs ?d)(child \<mapsto> TableObj ?names (map (\<lambda>r. r @ ext r) ?new))\<rparr>)" by simp
  show ?thesis unfolding exec_natives.simps first bind.bind_lunit second using new by (auto simp: stores_def)
qed

text \<open>The common case: no computed column and no key.\<close>

lemma typed_columns_decls:
  assumes "length out_cols = length col_types"
  shows "concat (map decl_column (typed_columns out_cols col_types)) = out_cols"
    "concat (map decl_computed (typed_columns out_cols col_types)) = []" "concat (map decl_key (typed_columns out_cols col_types)) = []"
    "concat (map decl_required (typed_columns out_cols col_types)) = []"
  using assms unfolding typed_columns_def by (induction out_cols col_types rule: list_induct2) simp_all


section \<open>The forms the dialects share\<close>

lemma length_rows: "base_rows_ok t B \<Longrightarrow> \<forall>r \<in> set B. length r = length (column_names t)"
  by (auto simp: base_rows_ok_def row_ok_length)

lemma exec_chain:
  "exec_natives E f xs d = Some d1 \<Longrightarrow> exec_natives E f ys d1 = Some d2 \<Longrightarrow> exec_natives E f (xs @ ys) d = Some d2"
  by (simp add: exec_natives_append)

text \<open>Statements that leave the stored rows alone, then the view.\<close>

lemma body_exposed:
  assumes "engine_ok E" "stores d b names B" "distinct names" "\<forall>r \<in> set B. length r = length names"
    and "exec_natives E f ss d = Some d" "objs d nm = None"
  shows "\<exists>d'. exec_natives E f (ss @ [expose nm names b]) d = Some d' \<and> exposes E (objs d') (Suc (Suc k)) nm names B"
proof -
  from exposes_view [OF assms(1) stores_exposes [OF assms(2)] assms(6,3,4)] obtain d'
    where "exec_native E f (expose nm names b) d = Some d'" "exposes E (objs d') (Suc (Suc k)) nm names B" by blast
  then show ?thesis using assms(5) by (auto simp: exec_natives_append)
qed

lemma take_append: "length r = n \<Longrightarrow> take n (r @ s) = r"
  by simp

text \<open>A typed copy, statements that leave its rows alone, then the view of the stored columns.\<close>

lemma typed_child_exposed:
  assumes "engine_ok E" "exposes E (objs d) (Suc f) b cols B" "fresh_in d [child, nm]" "part_key d child = None"
    and "concat (map decl_column decls) = cols" "concat (map decl_computed decls) = gens" "concat (map decl_key decls) = ks"
    and "distinct (cols @ map fst gens)" "\<forall>r \<in> set B. length r = length cols"
    and "\<forall>r \<in> set B. compute_row E cols gens r = Some (r @ ext r)"
    and "ks = [] \<or> (\<exists>k. ks = [k] \<and> key_holds E cols k B)"
    and "\<forall>c \<in> set (concat (map decl_required decls)). not_null cols c B"
    and mids: "\<And>d1. stores d1 child (cols @ map fst gens) (map (\<lambda>r. r @ ext r) B) \<Longrightarrow> exec_natives E (Suc f) mids d1 = Some d1"
  shows "\<exists>d'. exec_natives E (Suc f) ([TypedTable child decls tail, Fill child cols b] @ mids @ [expose nm cols child]) d = Some d'
    \<and> exposes E (objs d') (Suc (Suc k)) nm cols B"
proof -
  have fresh: "objs d child = None" "objs d nm = None" "nm \<noteq> child" using assms(3) by (auto simp: fresh_in_def)
  from typed_copy [OF assms(1,2) fresh(1) assms(4-12), of tail]
  obtain d1 where d1: "exec_natives E (Suc f) [TypedTable child decls tail, Fill child cols b] d = Some d1"
    "stores d1 child (cols @ map fst gens) (map (\<lambda>r. r @ ext r) B)" "objs d1 nm = None"
    using fresh(2,3) by auto
  have "\<forall>r \<in> set (map (\<lambda>r. r @ ext r) B). length r = length (cols @ map fst gens)"
  proof
    fix r'
    assume "r' \<in> set (map (\<lambda>r. r @ ext r) B)"
    then obtain r where r: "r \<in> set B" "r' = r @ ext r" by auto
    from assms(10) r(1) obtain vs where "map_opt (\<lambda>(nm, e). eval_row E (plain_scope cols) r e) gens = Some vs" "ext r = vs"
      by (auto simp: compute_row_def)
    then show "length r' = length (cols @ map fst gens)" using r assms(9) by (simp add: map_opt_length)
  qed
  from view_exposes [OF assms(1) stores_exposes [OF d1(2)] items_give_prefix [OF assms(8) this] d1(3), of k]
  have "exposes E ((objs d1)(nm \<mapsto> ViewObj 0 (plain_select 0 (named_source child) (Some (map out_item cols)) None))) (Suc (Suc k)) nm cols
      (map (take (length cols)) (map (\<lambda>r. r @ ext r) B))"
    by (simp add: o_def)
  moreover have "map (take (length cols)) (map (\<lambda>r. r @ ext r) B) = B"
    using assms(9) by (auto intro!: map_idI)
  moreover have "exec_natives E (Suc f) [expose nm cols child] d1
      = Some (d1\<lparr>objs := (objs d1)(nm \<mapsto> ViewObj 0 (plain_select 0 (named_source child) (Some (map out_item cols)) None))\<rparr>)"
    using exec_view [OF d1(3), of E "Suc f" "map out_item cols" child] by (simp add: expose_def del: exec_native.simps)
  ultimately show ?thesis using exec_chain [OF d1(1) exec_chain [OF mids [OF d1(2)]]] by (metis native_db.select_convs(1) native_db.simps(6) native_db.surjective native_db.update_convs(1))
qed

lemma compute_none: "compute_row E cols [] r = Some (r @ [])"
  by (simp add: compute_row_def)

text \<open>The common case: columns with their types and nothing else.\<close>

lemma plain_child_exposed:
  assumes "engine_ok E" "exposes E (objs d) (Suc f) b cols B" "fresh_in d [child, nm]" "part_key d child = None"
    and "concat (map decl_column decls) = cols" "concat (map decl_computed decls) = []" "concat (map decl_key decls) = []"
    and "concat (map decl_required decls) = []" "distinct cols" "\<forall>r \<in> set B. length r = length cols"
    and "\<And>d1. stores d1 child cols B \<Longrightarrow> exec_natives E (Suc f) mids d1 = Some d1"
  shows "\<exists>d'. exec_natives E (Suc f) ([TypedTable child decls tail, Fill child cols b] @ mids @ [expose nm cols child]) d = Some d'
    \<and> exposes E (objs d') (Suc (Suc k)) nm cols B"
  by (rule typed_child_exposed [OF assms(1-7), where ext = "\<lambda>r. []"]) (use assms(8-11) compute_none in simp_all)

text \<open>A view of a derived table: packing and unpacking gives the row back.\<close>

lemma derived_exposed:
  assumes "engine_ok E" "stores d b names B" "fresh_in d [nm, derived nm alias]"
    and "items_give E names inner B g" "items_give E (map pi_alias inner) items (map g B) h" "map pi_alias items = names"
    and "\<forall>r \<in> set B. h (g r) = r"
  shows "\<exists>d'. exec_native E f (DerivedView nm items inner b alias) d = Some d' \<and> exposes E (objs d') (Suc (Suc (Suc k))) nm names B"
proof -
  let ?x = "derived nm alias" and ?v = "ViewObj 0 (plain_select 0 (named_source b) (Some inner) None)"
  have fresh: "objs d ?x = None" "objs d nm = None" "nm \<noteq> ?x" using assms(3) by (auto simp: fresh_in_def)
  have one: "exposes E ((objs d)(?x \<mapsto> ?v)) (Suc (Suc k)) ?x (map pi_alias inner) (map g B)"
    by (rule view_exposes [OF assms(1) stores_exposes [OF assms(2)] assms(4) fresh(1)])
  have view: "exposes E ((objs d)(?x \<mapsto> ?v, nm \<mapsto> ViewObj 0 (plain_select 0 (named_source ?x) (Some items) None)))
      (Suc (Suc (Suc k))) nm (map pi_alias items) (map h (map g B))"
    by (rule view_exposes [OF assms(1) one assms(5)]) (use fresh in simp)
  have same: "map h (map g B) = B" using assms(7) by (simp add: map_idI)
  have "exec_native E f (DerivedView nm items inner b alias) d
      = Some (d\<lparr>objs := (objs d)(?x \<mapsto> ?v, nm \<mapsto> ViewObj 0 (plain_select 0 (named_source ?x) (Some items) None))\<rparr>)"
    using fresh by (simp add: new_object_def)
  then show ?thesis using view [unfolded same assms(6)] by simp
qed

end
