(* ===== verification/Coa_Native_Run.thy ===== *)
theory Coa_Native_Run
  imports Coa_Native_Laws
begin

text \<open>
  A dialect's builder over the factory: \<open>CreateFromQueryBuilder._build\<close> of \<open>equivalence/builders/creates.py\<close> with the
  \<open>_wrap\<close> of the dialect, and the interface such a builder offers, with what follows from it for a whole run.
  The query comes from the portable builders.
\<close>


section \<open>Builders\<close>

text \<open>A native relation: an identity, the stored query below it, and the object that is its only setup step.\<close>

datatype 'o native_node = NativeNode (nn_id: nat) (nn_body: eqnode) (nn_object: 'o)

type_synonym 'a guard = "eqnode \<Rightarrow> 'a option gen"
type_synonym ('a, 'o) alter = "'a \<Rightarrow> context_env \<Rightarrow> eqnode \<Rightarrow> string option \<Rightarrow> 'o native_node option gen"

text \<open>\<open>name = exposed_name or namer.mint("view")\<close>, and the object over \<open>body.materialized_name\<close>.\<close>

definition native_make ::
  "context_env \<Rightarrow> string option \<Rightarrow> eqnode \<Rightarrow> (string \<Rightarrow> string \<Rightarrow> 'o gen) \<Rightarrow> 'o native_node option gen" where
  "native_make env given body mk =
     gbind (take_name env given ''view'') (\<lambda>nm.
     gbind (child_name body) (\<lambda>ref.
     gbind (mk nm ref) (\<lambda>obj.
     gbind new_id (\<lambda>i. greturn (Some (NativeNode i body obj))))))"

text \<open>\<open>_wrap\<close>: look at the query and decline, or put it under a table or a view (some builders take it as it is) and build
  the object.\<close>

definition native_body :: "create_class option \<Rightarrow> context_env \<Rightarrow> eqnode \<Rightarrow> eqnode gen" where
  "native_body cls env query = (case cls of None \<Rightarrow> greturn query | Some c \<Rightarrow> create_as env c query None)"

definition native_wrap ::
  "create_class option \<Rightarrow> 'a guard \<Rightarrow> ('a, 'o) alter \<Rightarrow> context_env \<Rightarrow> eqnode \<Rightarrow> string option \<Rightarrow> 'o native_node option gen" where
  "native_wrap cls guard alter env query given =
     obind (guard query) (\<lambda>a. gbind (native_body cls env query) (\<lambda>body. alter a env body given))"

definition native_build ::
  "create_class option \<Rightarrow> 'a guard \<Rightarrow> ('a, 'o) alter \<Rightarrow> request \<Rightarrow> context_env \<Rightarrow> constraint_set \<Rightarrow> 'o native_node option gen" where
  "native_build cls guard alter sub env cs =
     obind (ask sub WantQuery (query_constraints cs)) (\<lambda>query. native_wrap cls guard alter env query (exposed_name cs))"

text \<open>Guards that look at the query only, and those that draw one of some variants.\<close>

definition look :: "(eqnode \<Rightarrow> 'a option) \<Rightarrow> 'a guard" where
  "look f query = greturn (f query)"

definition draw_variant :: "(eqnode \<Rightarrow> 'a list) \<Rightarrow> 'a guard" where
  "draw_variant f query = (if f query = [] then greturn None else gbind (random_choice (f query)) (\<lambda>a. greturn (Some a)))"

definition quiet :: "'a guard \<Rightarrow> bool" where
  "quiet guard \<longleftrightarrow> (\<forall>q s r s'. guard q s = Inr (r, s') \<longrightarrow> issued s' = issued s \<and> next_id s' = next_id s)"

lemma quiet_look [simp]: "quiet (look f)"
  by (simp add: quiet_def look_def greturn_def)

lemma draw_variant_in: "draw_variant f q s = Inr (Some a, s') \<Longrightarrow> a \<in> set (f q)"
  by (auto simp: draw_variant_def random_choice_def draw_def gbind_def gread_def gmodify_def greturn_def split: if_splits)

lemma quiet_draw [simp]: "quiet (draw_variant f)"
  by (auto simp: quiet_def draw_variant_def random_choice_def draw_def gbind_def gread_def gmodify_def greturn_def graise_def
      split: if_splits intro!: issued_cong)

lemma look_Some: "look f q s = Inr (Some a, s') \<longleftrightarrow> f q = Some a \<and> s' = s"
  by (auto simp: look_def greturn_def)


section \<open>The stored query\<close>

lemma root_unwritten: "unwritten (nodes q) q"
  unfolding unwritten_def using node_size children_size by (metis leD)

lemma query_made:
  assumes "env_ok env" "build_subtree PORTABLE_BUILDERS fuel env WantQuery [] s = Inr (Some q, s1)"
  shows "is_query q" "delivers (base_table env) [] q" "row_equivalent (base_table env) q" "get_signature q = table_signature (base_table env)"
    "good env {} s s1 (nodes q)" "grows s s1"
proof -
  have "request_ok (base_table env) []"
    by (simp add: request_ok_def constraint_types_def payload_defs get_optional_constraint_def)
  from factory_result [OF assms(1) this assms(2)] have q: "is_query q" "post (base_table env) [] q" by simp_all
  then show "is_query q" by simp
  show plain: "delivers (base_table env) [] q"
    by (rule post_delivers [OF q(2)]) (simp_all add: no_channel_def payload_defs get_optional_constraint_def)
  then show "row_equivalent (base_table env) q"
    by (auto simp: row_equivalent_def delivers_def wanted_def current_filter_def get_optional_constraint_def payload_defs)
  show "get_signature q = table_signature (base_table env)" using plain by (simp add: delivers_def)
  from subtree_nodes [OF assms(2)] show "good env {} s s1 (nodes q)" "grows s s1"
    by (simp_all add: given_names_def exposed_name_def get_optional_constraint_def)
qed

lemma body_made:
  assumes "env_ok env" "base_unminted env" "build_subtree PORTABLE_BUILDERS fuel env WantQuery [] s = Inr (Some q, s1)"
    and "create_as env c q None s1' = Inr (body, s2)" "issued s1' = issued s1" "next_id s1' = next_id s1"
  shows "tree_ok (base_table env) body" "row_equivalent (base_table env) body" "is_relation body" "table_class c \<Longrightarrow> writable body"
    "get_signature body = table_signature (base_table env)" "good env {} s s2 (nodes body)" "grows s s2"
proof -
  note q = query_made [OF assms(1,3)]
  have step: "grows s1 s1'" using assms(5,6) by (simp add: grows_def)
  have "avail (nodes q) [q]" by (simp add: avail_def root_unwritten)
  moreover have "allocates env {} [q] (create_as env c q None) is_relation (\<lambda>n. [n])"
    using pool_create_as [of q "[q]" None env c] q(1) by (simp add: given_names_def)
  ultimately obtain N where N: "is_relation body" "good env {} s s2 N" "body \<in> N"
    using poolD [of env "{}" "[q]" "create_as env c q None" is_relation "\<lambda>n. [n]" s s1' "nodes q" body s2]
      good_later [OF q(5) step] assms(4) by (auto simp: avail_def)
  then show "is_relation body" "good env {} s s2 (nodes body)" by (auto intro: good_node)
  then show "grows s s2" by (simp add: good_def)
  obtain nm i where body: "body = CreateFromQuery i c q [created_object nm (create_keyword c) q] (created_object nm (create_keyword c) q)"
    using assms(4) by (auto simp: create_as_def gbind_def Let_def greturn_def split: sum.splits prod.splits)
  from create_delivers [OF q(2)] have del: "delivers (base_table env) [] body" unfolding body .
  then show "row_equivalent (base_table env) body"
    by (auto simp: row_equivalent_def delivers_def wanted_def current_filter_def get_optional_constraint_def payload_defs)
  show "table_class c \<Longrightarrow> writable body" by (simp add: body)
  show "get_signature body = table_signature (base_table env)" using del by (simp add: delivers_def)
  show "tree_ok (base_table env) body"
    by (rule good_tree_ok [OF good_node [OF N(2,3)] _ assms(2)]) (use del in \<open>simp_all add: delivers_def\<close>)
qed

text \<open>A relation reads as the rows, a query runs to them, whoever reads.\<close>

definition answers :: "engine \<Rightarrow> database \<Rightarrow> nat \<Rightarrow> eqnode \<Rightarrow> string list \<Rightarrow> row list \<Rightarrow> bool" where
  "answers E db f q names B \<longleftrightarrow> (\<forall>path. \<exists>rows. run_query E (read_relation E db f) path q = Some (names, rows) \<and> mset rows = mset B)"

definition body_holds :: "engine \<Rightarrow> native_db \<Rightarrow> nat \<Rightarrow> create_class option \<Rightarrow> eqnode \<Rightarrow> string list \<Rightarrow> row list \<Rightarrow> bool" where
  "body_holds E d f cls body names B \<longleftrightarrow>
     (case cls of None \<Rightarrow> answers E (objs d) f body names B
      | Some c \<Rightarrow> \<exists>b. materialized_name body = Some b \<and> exposes E (objs d) f b names B \<and> (table_class c \<longrightarrow> stores d b names B))"

lemma tree_done:
  assumes "tree_ok t r" "row_equivalent t r" "engine_ok E" "base_rows_ok t B" "height r \<le> fuel"
  shows "\<exists>db. exec_tree E fuel r (base_database t B) = Some db
    \<and> (is_query r \<longrightarrow> answers E db fuel r (column_names t) B)
    \<and> (is_relation r \<longrightarrow> (\<exists>nm. materialized_name r = Some nm \<and> exposes E db fuel nm (column_names t) B
        \<and> (writable r \<longrightarrow> (\<exists>rows. db nm = Some (TableObj (column_names t) rows) \<and> mset rows = mset B))))
    \<and> (\<forall>x. db x \<noteq> None \<longrightarrow> x = get_sql_name t True \<or> (\<exists>m \<in> nodes r. is_relation m \<and> materialized_name m = Some x))"
proof -
  have "build_order r (emission_order r)"
    unfolding emission_order_def by (rule visit_order) (use assms(1) in \<open>simp add: tree_ok_def\<close>)
  then have order: "set (emission_order r) = nodes r" "distinct (emission_order r)" "children_first (emission_order r)"
    by (simp_all add: build_order_def)
  have within: "set (emission_order r) \<subseteq> nodes r" using order(1) by simp
  have den: "\<exists>rows. den E B p r = Some rows \<and> mset rows = mset B" for p
    using assms(2-4) unfolding row_equivalent_def by blast
  have names: "names_of r = column_names t" using assms(2) by (simp add: row_equivalent_def names_of_def)
  from exec_prefix [OF assms(1) _ assms(5) within order(2,3), of E B "[]"] den [of "[]"]
  obtain db where db: "exec_nodes E fuel (emission_order r) (base_database t B) = Some db" "holds E B t (emission_order r) db" by auto
  have self: "r \<in> set (emission_order r)" using order(1) by simp
  have alone: "live (emission_order r) r"
    unfolding live_def using root_unwritten [of r] order(1) by (auto simp: unwritten_def)
  have "answers E db fuel r (column_names t) B" if "is_query r"
    unfolding answers_def
  proof
    fix path
    from den obtain rows where rows: "den E B path r = Some rows" "mset rows = mset B" by blast
    have "run_query E (read_relation E db fuel) path r = Some (names_of r, rows)"
      by (rule run_live [OF assms(1) within order(3) db(2) that tree_query [OF assms(1) within order(3) self that assms(5)] rows(1)])
    with rows(2) names show "\<exists>rows. run_query E (read_relation E db fuel) path r = Some (column_names t, rows) \<and> mset rows = mset B" by simp
  qed
  moreover have "\<exists>nm. materialized_name r = Some nm \<and> exposes E db fuel nm (column_names t) B
      \<and> (writable r \<longrightarrow> (\<exists>rows. db nm = Some (TableObj (column_names t) rows) \<and> mset rows = mset B))" if rel: "is_relation r"
  proof -
    have read: "\<exists>rows. Option.bind (materialized_name r) (read_relation E db fuel p) = Some (column_names t, rows) \<and> mset rows = mset B" for p
      using den [of p] read_entry [OF assms(1) within order(3) db(2) self alone source_ref(2) [OF rel] assms(5)]
      by (metis source_ref(1) [OF rel] names)
    then obtain nm where nm: "materialized_name r = Some nm" by (auto simp: bind_eq_Some_conv)
    have "exposes E db fuel nm (column_names t) B" using read by (simp add: nm exposes_def)
    moreover have "\<exists>rows. db nm = Some (TableObj (column_names t) rows) \<and> mset rows = mset B" if "writable r"
      using table_read [OF db(2) self alone that, of "[]"] den [of "[]"] nm names by auto
    ultimately show ?thesis using nm by blast
  qed
  moreover have "\<forall>x. db x \<noteq> None \<longrightarrow> x = get_sql_name t True \<or> (\<exists>m \<in> nodes r. is_relation m \<and> materialized_name m = Some x)"
    using db(2) order(1) unfolding holds_def by simp
  ultimately show ?thesis using db(1) by (auto simp: exec_tree_def)
qed


section \<open>Names\<close>

text \<open>What the dialects append to the exposed name to name their own tables.\<close>

definition native_suffixes :: "string list" where
  "native_suffixes = ['''', ''_tbl'', ''_part'', ''_part_lo'', ''_part_hi'', ''_macro()'', ''_att.mirror'', ''_att_db.mirror'',
     ''_wor'', ''_gen'', ''_strict'', ''_wri'']"

definition clear_name :: "context_env \<Rightarrow> string \<Rightarrow> bool" where
  "clear_name env c \<longleftrightarrow> c \<notin> minted env \<and> c \<noteq> get_sql_name (base_table env) True"

definition clear_names :: "context_env \<Rightarrow> string \<Rightarrow> bool" where
  "clear_names env nm \<longleftrightarrow> nm \<noteq> [] \<and> list_all (\<lambda>u. clear_name env (nm @ u)) native_suffixes
     \<and> (\<forall>p. clear_name env (only p) \<and> clear_name env (derived nm p) \<and> clear_name env (nm @ ''_sch.'' @ p) \<and> nm \<noteq> only p)"

definition own_names :: "context_env \<Rightarrow> string \<Rightarrow> gen_state \<Rightarrow> gen_state \<Rightarrow> string list \<Rightarrow> bool" where
  "own_names env nm s s' cs \<longleftrightarrow> distinct cs \<and>
     (\<forall>c \<in> set cs. (\<exists>u \<in> set native_suffixes. c = nm @ u) \<or> (\<exists>p. c = only p \<or> c = derived nm p \<or> c = nm @ ''_sch.'' @ p) \<or> c \<in> issued s' \<and> c \<notin> issued s \<and> c \<in> minted env)"

lemma minted_issued: "base_unminted env \<Longrightarrow> c \<in> minted env \<Longrightarrow> c \<noteq> get_sql_name (base_table env) True"
  by (auto simp: base_unminted_def)

lemma own_fresh:
  assumes "own_names env nm s2 s' cs" "clear_names env nm" "base_unminted env" "good env {} s s2 (nodes r)"
    and "\<forall>x. db x \<noteq> None \<longrightarrow> x = get_sql_name (base_table env) True \<or> (\<exists>m \<in> nodes r. is_relation m \<and> materialized_name m = Some x)"
  shows "fresh_in (native_start db) cs"
proof -
  have "db c = None" if c: "c \<in> set cs" for c
  proof (rule ccontr)
    assume "db c \<noteq> None"
    then have "c = get_sql_name (base_table env) True \<or> c \<in> issued s2 \<and> c \<in> minted env"
      using assms(4,5) unfolding good_def new_name_def by fastforce
    moreover have "clear_name env c \<or> c \<notin> issued s2 \<and> c \<in> minted env"
      using assms(1,2) c by (fastforce simp: own_names_def clear_names_def list_all_iff)
    ultimately show False using minted_issued [OF assms(3)] by (auto simp: clear_name_def)
  qed
  with assms(1) show ?thesis by (simp add: fresh_in_def own_names_def native_start_def)
qed


section \<open>The interface\<close>

text \<open>
  \<open>cls\<close> is what the query is put under, \<open>guard\<close> looks at the query, \<open>alter\<close> builds the object over the body, \<open>plan\<close> is
  the emitter's \<open>visit\<close> method and \<open>suits\<close> says which rows the object is possible on (a unique key, where it needs one).
\<close>

locale native_builder =
  fixes cls :: "create_class option" and guard :: "'a guard" and alter :: "('a, 'o) alter" and plan :: "'o \<Rightarrow> native_stmt list"
    and suits :: "engine \<Rightarrow> table \<Rightarrow> row list \<Rightarrow> bool"
  assumes guarded: "quiet guard"
    and altered: "alter a env body (Some nm) s = Inr (Some x, s') \<Longrightarrow> clear_names env nm \<Longrightarrow>
      nn_body x = body \<and> own_names env nm s s' (concat (map creates (plan (nn_object x))))"
    and shown: "guard q s0 = Inr (Some a, s1) \<Longrightarrow> get_signature q = table_signature t \<Longrightarrow> get_signature body = table_signature t \<Longrightarrow>
      alter a env body (Some nm) s = Inr (Some x, s') \<Longrightarrow> nm \<noteq> [] \<Longrightarrow> base_table env = t \<Longrightarrow>
      engine_ok E \<Longrightarrow> table_ok t \<Longrightarrow> base_rows_ok t B \<Longrightarrow> suits E t B \<Longrightarrow>
      body_holds E (native_start db) (Suc f) cls body (column_names t) B \<Longrightarrow>
      fresh_in (native_start db) (concat (map creates (plan (nn_object x)))) \<Longrightarrow>
      \<exists>d'. exec_natives E (Suc f) (plan (nn_object x)) (native_start db) = Some d' \<and> exposes E (objs d') (Suc (Suc (Suc f))) nm (column_names t) B"
begin

lemma native_run:
  assumes "env_ok env" "base_unminted env" "clear_names env nm" "engine_ok E" "base_rows_ok (base_table env) B" "suits E (base_table env) B"
    and built: "native_build cls guard alter (build_subtree PORTABLE_BUILDERS fuel env) env [ExposedNameConstraint nm] s = Inr (Some x, s')"
    and "height (nn_body x) \<le> Suc f"
  shows "\<exists>db d' rows. exec_tree E (Suc f) (nn_body x) (base_database (base_table env) B) = Some db
    \<and> exec_natives E (Suc f) (plan (nn_object x)) (native_start db) = Some d'
    \<and> read_relation E (objs d') (Suc (Suc (Suc f))) [] nm = Some (column_names (base_table env), rows) \<and> mset rows = mset B"
proof -
  have "query_constraints [ExposedNameConstraint nm] = [None, None]" "exposed_name [ExposedNameConstraint nm] = Some nm"
    by (simp_all add: query_constraints_def get_optional_constraint_def exposed_name_def)
  then obtain q s1 a s1' body s2 where q: "build_subtree PORTABLE_BUILDERS fuel env WantQuery [] s = Inr (Some q, s1)"
    and a: "guard q s1 = Inr (Some a, s1')" and body: "native_body cls env q s1' = Inr (body, s2)"
    and x: "alter a env body (Some nm) s2 = Inr (Some x, s')"
    using built by (auto simp: native_build_def native_wrap_def ask_def make_constraint_set_def obind_def gbind_def glift_def greturn_def
        split: sum.splits option.splits prod.splits)
  have quiet: "issued s1' = issued s1" "next_id s1' = next_id s1" using guarded a by (simp_all add: quiet_def)
  have ok: "nm \<noteq> []" "table_ok (base_table env)" using assms(1,3) by (simp_all add: clear_names_def env_ok_def)
  note query = query_made [OF assms(1) q]
  have made: "tree_ok (base_table env) body \<and> row_equivalent (base_table env) body \<and> get_signature body = table_signature (base_table env)
      \<and> good env {} s s2 (nodes body) \<and> (if cls = None then is_query body else is_relation body \<and> (table_class (the cls) \<longrightarrow> writable body))"
  proof (cases cls)
    case None
    then have "body = q" "s2 = s1'" using body by (simp_all add: native_body_def greturn_def)
    moreover have "good env {} s s1' (nodes q)" using good_later [OF query(5)] quiet by (simp add: grows_def)
    moreover have "tree_ok (base_table env) q"
      by (rule good_tree_ok [OF query(5) _ assms(2)]) (use query(2) in \<open>simp_all add: delivers_def\<close>)
    ultimately show ?thesis using None query(1,3,4) by simp
  next
    case (Some c)
    then have "create_as env c q None s1' = Inr (body, s2)" using body by (simp add: native_body_def)
    from body_made [OF assms(1,2) q this quiet] show ?thesis using Some by simp
  qed
  note own = altered [OF x assms(3)]
  from tree_done [of "base_table env" body E B "Suc f"] made assms(4,5,8) own
  obtain db where db: "exec_tree E (Suc f) (nn_body x) (base_database (base_table env) B) = Some db"
    and query_holds: "is_query body \<longrightarrow> answers E db (Suc f) body (column_names (base_table env)) B"
    and holds: "is_relation body \<longrightarrow> (\<exists>b. materialized_name body = Some b \<and> exposes E db (Suc f) b (column_names (base_table env)) B
        \<and> (writable body \<longrightarrow> (\<exists>rows. db b = Some (TableObj (column_names (base_table env)) rows) \<and> mset rows = mset B)))"
    and names: "\<forall>x. db x \<noteq> None \<longrightarrow> x = get_sql_name (base_table env) True \<or> (\<exists>m \<in> nodes body. is_relation m \<and> materialized_name m = Some x)"
    by auto
  have "body_holds E (native_start db) (Suc f) cls body (column_names (base_table env)) B"
  proof (cases cls)
    case None
    then show ?thesis using made query_holds by (simp add: body_holds_def native_start_def)
  next
    case (Some c)
    then show ?thesis using made holds by (auto simp: body_holds_def native_start_def stores_def)
  qed
  from shown [OF a query(4) _ x ok(1) refl assms(4) ok(2) assms(5,6) this own_fresh [OF _ assms(3,2) _ names]] own made
  obtain d' where d': "exec_natives E (Suc f) (plan (nn_object x)) (native_start db) = Some d'"
    "exposes E (objs d') (Suc (Suc (Suc f))) nm (column_names (base_table env)) B" by blast
  with db show ?thesis by (meson exposesD)
qed

end

text \<open>What \<open>native_make\<close> leaves: the body, its name, the object, and the names the object took.\<close>

lemma native_made:
  assumes "native_make env (Some nm) body mk s = Inr (Some x, s')" "nm \<noteq> []"
  shows "\<exists>b s1. materialized_name body = Some b \<and> mk nm b s = Inr (nn_object x, s1) \<and> nn_body x = body \<and> issued s' = issued s1"
  using assms by (auto simp: native_make_def take_name_def child_name_def gbind_def greturn_def graise_def new_id_step
      split: option.splits sum.splits intro!: issued_cong)

lemma made_step:
  assumes "native_make env (Some nm) body (\<lambda>nm ref. greturn (mk nm ref)) s = Inr (Some x, s')" "nm \<noteq> []"
  shows "\<exists>b. materialized_name body = Some b \<and> nn_body x = body \<and> nn_object x = mk nm b \<and> issued s' = issued s"
  using native_made [OF assms] by (auto simp: greturn_def)

lemma mint_new: "mint env label s = Inr (c, s') \<Longrightarrow> c \<in> issued s' \<and> c \<notin> issued s \<and> c \<in> minted env \<and> issued s \<subseteq> issued s'"
  using mint_step [of env label s c s'] by (simp add: grows_def)

lemma body_table:
  assumes "body_holds E d f (Some CreateTable) body names B" "materialized_name body = Some b"
  shows "stores d b names B" "exposes E (objs d) f b names B"
  using assms by (auto simp: body_holds_def table_class_def stored_class_def)

lemma body_view:
  assumes "body_holds E d f (Some c) body names B" "materialized_name body = Some b"
  shows "exposes E (objs d) f b names B"
  using assms by (auto simp: body_holds_def)


section \<open>A builder that is not declined\<close>

text \<open>Where the portable builders return a query whatever the draws, so does a builder that accepts every query.\<close>

lemma query_built:
  assumes "always_builds (config env)" "env_ok env" "max_depth (config env) < fuel" "\<And>t. \<not> deadline_passed env t" "at_state 1 0 s"
  shows "\<exists>q s1. build_subtree PORTABLE_BUILDERS fuel env WantQuery [] s = Inr (Some q, s1)"
proof -
  have "3 \<le> fuel" using assms(1,3) by (simp add: always_builds_def)
  then have "fuel = Suc (Suc (fuel - 2))" by linarith
  then obtain n where fuel: "fuel = Suc (Suc n)" by blast
  from yields_query [OF assms(1,2), of n] have some: "case build_subtree PORTABLE_BUILDERS fuel env WantQuery [] s of
      Inl e \<Rightarrow> True | Inr (r, s') \<Rightarrow> r \<noteq> None"
    unfolding yields_def fuel using assms(5) by blast
  have "\<not> run_error 1 fuel env e" for e using assms(3,4) by (auto simp: run_error_def)
  moreover have "gspec 1 (run_error 1 fuel env) (build_subtree PORTABLE_BUILDERS fuel env WantQuery [])
      (\<lambda>r. \<forall>n. r = Some n \<longrightarrow> is_instance n WantQuery \<and> post (base_table env) [] n)"
    by (rule factory_serves [OF assms(2) request_Nil])
  ultimately show ?thesis using some assms(5) unfolding gspec_def by (fastforce split: sum.splits)
qed

lemma native_returned:
  assumes "always_builds (config env)" "env_ok env" "max_depth (config env) < fuel" "\<And>t. \<not> deadline_passed env t" "at_state 1 0 s"
    and "\<And>q. get_signature q = table_signature (base_table env) \<Longrightarrow> f q \<noteq> None"
    and "\<And>a body r s. materialized_name body = Some r \<Longrightarrow> \<exists>x s'. alter a env body (Some nm) s = Inr (Some x, s')"
  shows "\<exists>x s'. native_build (Some c) (look f) alter (build_subtree PORTABLE_BUILDERS fuel env) env [ExposedNameConstraint nm] s = Inr (Some x, s')"
proof -
  obtain q s1 where q: "build_subtree PORTABLE_BUILDERS fuel env WantQuery [] s = Inr (Some q, s1)" using query_built [OF assms(1-5)] by blast
  from assms(6) [OF query_made(4) [OF assms(2) q]] obtain a where a: "f q = Some a" by blast
  obtain i s2 b where body: "create_as env c q None s1 = Inr (b, s2)" "materialized_name b \<noteq> None"
    by (auto simp: create_as_def take_name_def mint_def generate_object_name_def gbind_def gread_def gmodify_def greturn_def Let_def new_id_step
        materialized_name_def created_object_def)
  then obtain r where "materialized_name b = Some r" by blast
  from assms(7) [OF this, of a s2] obtain x s' where "alter a env b (Some nm) s2 = Inr (Some x, s')" by blast
  moreover have "query_constraints [ExposedNameConstraint nm] = [None, None]" "exposed_name [ExposedNameConstraint nm] = Some nm"
    by (simp_all add: query_constraints_def get_optional_constraint_def exposed_name_def)
  ultimately show ?thesis using q a body(1)
    by (auto simp: native_build_def native_wrap_def native_body_def look_def ask_def make_constraint_set_def obind_def gbind_def glift_def greturn_def)
qed

lemma native_make_returns:
  assumes "materialized_name body = Some r" "nm \<noteq> []" "\<And>s. \<exists>y s'. mk nm r s = Inr (y, s')"
  shows "\<exists>x s'. native_make env (Some nm) body mk s = Inr (Some x, s')"
  using assms(3) [of s] by (auto simp: native_make_def take_name_def child_name_def gbind_def greturn_def new_id_step assms(1,2))

end
