(* ===== verification/Coa_Mysql.thy ===== *)
theory Coa_Mysql
  imports Coa_Native_Run
begin

text \<open>
  The builders only MySQL and TiDB have: \<open>dialects/mysql/ast.py\<close>, \<open>builders.py\<close>, the object visits of
  \<open>dialects/mysql/emitter.py\<close>, and \<open>dialects/tidb/ast.py\<close>, \<open>builders.py\<close>, \<open>emitter.py\<close>.  A builder is its guard on
  the query, the object it makes, and the statements the emitter writes for the object.
\<close>


section \<open>Columns\<close>

definition out_cols_of :: "eqnode \<Rightarrow> string list" where
  "out_cols_of query = map fst (get_signature query)"

definition first_text_col :: "eqnode \<Rightarrow> string option" where
  "first_text_col query = map_option fst (find (\<lambda>(nm, ty). is_varchar ty) (get_signature query))"

definition PK_COLUMN :: string where
  "PK_COLUMN = ''c_pk''"

definition mysql_type :: "sql_type \<Rightarrow> string" where
  "mysql_type t =
     (if kind_of t = BOOLEAN then ''TINYINT(1)''
      else if kind_of t = DOUBLE then ''DOUBLE''
      else if kind_of t = INTEGER then ''BIGINT''
      else if is_numeric t then
        (if get_scale t \<in> {None, Some 0} then ''BIGINT''
         else with_params ''DECIMAL'' (Some (precision_or t 38)) (get_scale t))
      else if kind_of t = DATE then ''DATE''
      else if kind_of t = TIMESTAMP then ''DATETIME(6)''
      else ''VARCHAR(255)'')"


section \<open>Objects\<close>

datatype mysql_index_kind = PLAIN | PREFIX | UNIQUE | INVISIBLE

datatype mysql_object =
    MySqlIndexObject string string string "string list" mysql_index_kind string int
  | MySqlTableOptionObject string string string "string list" "string list" string
  | MySqlJsonPackRoundTripObject string string "(string \<times> string \<times> bool) list"

text \<open>What a guard found in the query, and the three \<open>build\<close> methods.\<close>

datatype mysql_spec =
    IndexSpec mysql_index_kind string int "string list"
  | TableSpec "string list" "string list" string
  | JsonSpec "(string \<times> string \<times> bool) list"

fun mysql_object_of :: "mysql_spec \<Rightarrow> string \<Rightarrow> string \<Rightarrow> mysql_object" where
  "mysql_object_of (IndexSpec k target prefix_length cols) nm ref =
     MySqlIndexObject nm ref (nm @ ''_idx'') cols k target prefix_length"
| "mysql_object_of (TableSpec cols tys eng) nm ref = MySqlTableOptionObject nm ref (nm @ ''_tbl'') cols tys eng"
| "mysql_object_of (JsonSpec columns) nm ref = MySqlJsonPackRoundTripObject nm ref columns"

definition mysql_alter :: "(mysql_spec, mysql_object) alter" where
  "mysql_alter spec env body given = native_make env given body (\<lambda>nm ref. greturn (mysql_object_of spec nm ref))"


section \<open>Builders\<close>

datatype mysql_builder =
    MySqlPlainIndexBuilder | MySqlPrefixIndexBuilder | MySqlInvisibleIndexBuilder | MySqlUniqueIndexBuilder
  | MySqlInnodbTableBuilder | MySqlJsonPackRoundTripBuilder

definition index_spec :: "mysql_index_kind \<Rightarrow> eqnode \<Rightarrow> mysql_spec option" where
  "index_spec k query =
     (case out_cols_of query of [] \<Rightarrow> None | c # cs \<Rightarrow> Some (IndexSpec k c 10 (c # cs)))"

definition json_column :: "string \<times> sql_type \<Rightarrow> string \<times> string \<times> bool" where
  "json_column = (\<lambda>(nm, ty). (nm, mysql_cast_type ty, \<not> (is_boolean ty \<or> is_double ty \<or> is_numeric ty)))"

fun mysql_guard :: "mysql_builder \<Rightarrow> eqnode \<Rightarrow> mysql_spec option" where
  "mysql_guard MySqlPlainIndexBuilder query = index_spec PLAIN query"
| "mysql_guard MySqlPrefixIndexBuilder query =
     map_option (\<lambda>c. IndexSpec PREFIX c 10 (out_cols_of query)) (first_text_col query)"
| "mysql_guard MySqlInvisibleIndexBuilder query = index_spec INVISIBLE query"
| "mysql_guard MySqlUniqueIndexBuilder query =
     (if PK_COLUMN \<in> set (out_cols_of query) then Some (IndexSpec UNIQUE PK_COLUMN 10 (out_cols_of query)) else None)"
| "mysql_guard MySqlInnodbTableBuilder query =
     (if get_signature query = [] then None
      else Some (TableSpec (out_cols_of query) (map (mysql_type \<circ> snd) (get_signature query)) ''InnoDB''))"
| "mysql_guard MySqlJsonPackRoundTripBuilder query =
     (if get_signature query = [] \<or> \<not> distinct (out_cols_of query) then None
      else Some (JsonSpec (map json_column (get_signature query))))"


section \<open>The emitter\<close>

definition json_extracted :: "string \<Rightarrow> string" where
  "json_extracted nm = ''JSON_EXTRACT(eq_json.j, '' @ quoted (''$.'' @ nm) @ '')''"

definition json_unpack :: "string \<Rightarrow> string \<times> string \<times> bool \<Rightarrow> proj_item" where
  "json_unpack collation = (\<lambda>(nm, cast_type, needs_unquote).
     let extracted = json_extracted nm;
         inner = (if needs_unquote then ''JSON_UNQUOTE('' @ extracted @ '')'' else extracted);
         cast_expr = ''CAST('' @ inner @ '' AS '' @ cast_type @ '')''
           @ (if take 4 cast_type = ''CHAR'' then '' COLLATE '' @ collation else '''')
     in ProjectionItem nm (RawExpr (''CASE WHEN '' @ extracted @ '' = CAST('' @ quoted ''null'' @ '' AS JSON) THEN NULL ELSE ''
          @ cast_expr @ '' END'') IntegerType) IntegerType)"

definition json_pack :: "(string \<times> string \<times> bool) list \<Rightarrow> proj_item" where
  "json_pack columns = ProjectionItem ''j'' (RawExpr (''JSON_OBJECT('' @ join_with '', '' (map (\<lambda>(nm, ty, u). quoted nm @ '', '' @ nm) columns)
     @ '')'') IntegerType) IntegerType"

fun mysql_visit :: "string \<Rightarrow> mysql_object \<Rightarrow> native_stmt list" where
  "mysql_visit collation (MySqlIndexObject nm ref ix cols k target prefix_length) =
     (let keyed = (if k = PREFIX then target @ ''('' @ str_int prefix_length @ '')'' else target) in
      [IndexOn (k = UNIQUE) ix ref target ('' ('' @ keyed @ '')'')]
      @ (if k = INVISIBLE then [OnTable ''ALTER TABLE '' ref ('' ALTER INDEX '' @ ix @ '' INVISIBLE'')] else [])
      @ [expose nm cols ref])"
| "mysql_visit collation (MySqlTableOptionObject nm ref child cols tys eng) =
     [TypedTable child (typed_columns cols tys) ('' ENGINE='' @ eng), Fill child cols ref, expose nm cols child]"
| "mysql_visit collation (MySqlJsonPackRoundTripObject nm ref columns) =
     [DerivedView nm (map (json_unpack collation) columns) [json_pack columns] ref ''eq_json'']"


section \<open>What the objects hold\<close>

text \<open>MySQL's JSON functions give back what was packed, for every column of the table.\<close>

definition json_lossless :: "string \<Rightarrow> engine \<Rightarrow> table \<Rightarrow> row list \<Rightarrow> bool" where
  "json_lossless collation E t B \<longleftrightarrow>
     (let columns = map json_column (table_signature t);
          packed = (\<lambda>r. map_opt (\<lambda>it. eval_row E (plain_scope (column_names t)) r (pi_expr it)) [json_pack columns])
      in \<forall>r \<in> set B. case packed r of None \<Rightarrow> False
           | Some p \<Rightarrow> map_opt (\<lambda>it. eval_row E (plain_scope [''j'']) p (pi_expr it)) (map (json_unpack collation) columns) = Some r)"

fun mysql_suits :: "string \<Rightarrow> mysql_builder \<Rightarrow> engine \<Rightarrow> table \<Rightarrow> row list \<Rightarrow> bool" where
  "mysql_suits collation MySqlUniqueIndexBuilder E t B = unique_holds E (column_names t) PK_COLUMN B"
| "mysql_suits collation MySqlJsonPackRoundTripBuilder E t B = json_lossless collation E t B"
| "mysql_suits collation b E t B = True"

lemma out_cols_signature: "get_signature q = table_signature t \<Longrightarrow> out_cols_of q = column_names t"
  by (simp add: out_cols_of_def)

lemma first_text_member: "first_text_col q = Some c \<Longrightarrow> c \<in> set (out_cols_of q)"
proof -
  assume "first_text_col q = Some c"
  then obtain p where "find (\<lambda>(nm, ty). is_varchar ty) (get_signature q) = Some p" "c = fst p" by (auto simp: first_text_col_def)
  then have "p \<in> set (get_signature q)" by (auto simp: find_Some_iff in_set_conv_nth)
  then show ?thesis using \<open>c = fst p\<close> by (auto simp: out_cols_of_def)
qed

lemma signature_lengths: "length (map f (table_signature t)) = length (column_names t)"
  by simp

lemma index_shown:
  assumes "engine_ok E" "table_ok t" "base_rows_ok t B" "stores d b (column_names t) B" "objs d nm = None"
    and "target \<in> set (column_names t)" "k = UNIQUE \<longrightarrow> unique_holds E (column_names t) target B"
  shows "\<exists>d'. exec_natives E (Suc f) (mysql_visit collation (MySqlIndexObject nm b ix (column_names t) k target n)) d = Some d'
    \<and> exposes E (objs d') (Suc (Suc j)) nm (column_names t) B"
proof -
  let ?key = "'' ('' @ (if k = PREFIX then target @ ''('' @ str_int n @ '')'' else target) @ '')''"
  have one: "exec_native E (Suc f) (IndexOn (k = UNIQUE) ix b target ?key) d = Some d"
    using assms(4,6,7) exec_unique exec_index by (cases "k = UNIQUE") (simp_all del: exec_native.simps)
  have "exec_natives E (Suc f) ([IndexOn (k = UNIQUE) ix b target ?key]
      @ (if k = INVISIBLE then [OnTable ''ALTER TABLE '' b ('' ALTER INDEX '' @ ix @ '' INVISIBLE'')] else [])) d = Some d"
    using one exec_on_table [OF assms(4)] by (simp del: exec_native.simps)
  from body_exposed [OF assms(1,4) table_ok_distinct [OF assms(2)] length_rows [OF assms(3)] this assms(5)] show ?thesis
    by (simp add: Let_def del: exec_natives.simps exec_native.simps)
qed

lemma json_shown:
  assumes "engine_ok E" "table_ok t" "stores d b (column_names t) B" "fresh_in d [nm, derived nm ''eq_json'']" "json_lossless collation E t B"
  shows "\<exists>d'. exec_natives E f (mysql_visit collation (MySqlJsonPackRoundTripObject nm b (map json_column (table_signature t)))) d = Some d'
    \<and> exposes E (objs d') (Suc (Suc (Suc j))) nm (column_names t) B"
proof -
  let ?cols = "map json_column (table_signature t)"
  let ?pack = "\<lambda>r. map_opt (\<lambda>it. eval_row E (plain_scope (column_names t)) r (pi_expr it)) [json_pack ?cols]"
  let ?unpack = "\<lambda>p. map_opt (\<lambda>it. eval_row E (plain_scope [''j'']) p (pi_expr it)) (map (json_unpack collation) ?cols)"
  have each: "\<exists>p. ?pack r = Some p \<and> ?unpack p = Some r" if "r \<in> set B" for r
    using assms(5) that by (auto simp: json_lossless_def Let_def split: option.splits)
  have scalars: "scalar (pi_expr (json_pack cs))" "scalar (pi_expr (json_unpack collation c))" for cs c
    by (simp_all add: json_pack_def json_unpack_def Let_def split: prod.split)
  have inner: "items_give E (column_names t) [json_pack ?cols] B (\<lambda>r. the (?pack r))"
    using each scalars by (fastforce simp: items_give_def)
  have outer: "items_give E (map pi_alias [json_pack ?cols]) (map (json_unpack collation) ?cols) (map (\<lambda>r. the (?pack r)) B) (\<lambda>p. the (?unpack p))"
  proof -
    have j: "map pi_alias [json_pack ?cols] = [''j'']" by (simp add: json_pack_def)
    have "list_all (scalar \<circ> pi_expr) (map (json_unpack collation) ?cols)" using scalars(2) by (simp add: list_all_iff)
    moreover have "\<forall>p \<in> set (map (\<lambda>r. the (?pack r)) B). ?unpack p = Some (the (?unpack p))"
    proof
      fix p
      assume "p \<in> set (map (\<lambda>r. the (?pack r)) B)"
      then obtain r where "r \<in> set B" "p = the (?pack r)" by auto
      with each [of r] show "?unpack p = Some (the (?unpack p))" by auto
    qed
    ultimately show ?thesis unfolding items_give_def j by blast
  qed
  have names: "map pi_alias (map (json_unpack collation) ?cols) = column_names t"
    by (simp add: table_signature_def column_names_def json_unpack_def json_column_def Let_def)
  show ?thesis
    using derived_exposed [OF assms(1,3,4) inner outer names] each by fastforce
qed

interpretation mysql: native_builder "Some CreateTable" "look (mysql_guard b)" mysql_alter "mysql_visit collation" "mysql_suits collation b"
  for b collation
proof
  show "quiet (look (mysql_guard b))" by simp
next
  fix spec env body nm s x s'
  assume made: "mysql_alter spec env body (Some nm) s = Inr (Some x, s')" and clear: "clear_names env nm"
  then have "nm \<noteq> []" by (simp add: clear_names_def)
  from made_step [OF made [unfolded mysql_alter_def] this] obtain r where
    r: "nn_body x = body" "nn_object x = mysql_object_of spec nm r" by blast
  have "own_names env nm s s' (concat (map creates (mysql_visit collation (mysql_object_of spec nm r))))"
    by (cases spec) (auto simp: own_names_def native_suffixes_def expose_def view_of_def derived_def Let_def)
  with r show "nn_body x = body \<and> own_names env nm s s' (concat (map creates (mysql_visit collation (nn_object x))))" by simp
next
  fix q s0 a s1 t body env nm s x s' E B db f
  assume drawn: "look (mysql_guard b) q s0 = Inr (Some a, s1)" and sig: "get_signature q = table_signature t"
    and made: "mysql_alter a env body (Some nm) s = Inr (Some x, s')" "nm \<noteq> []"
    and ok: "engine_ok E" "table_ok t" "base_rows_ok t B" and suits: "mysql_suits collation b E t B"
    and holds: "body_holds E (native_start db) (Suc f) (Some CreateTable) body (column_names t) B"
    and fresh: "fresh_in (native_start db) (concat (map creates (mysql_visit collation (nn_object x))))"
  from drawn have guard: "mysql_guard b q = Some a" by (simp add: look_Some)
  from made_step [OF made(1) [unfolded mysql_alter_def] made(2)] obtain r where
    r: "materialized_name body = Some r" and x: "nn_object x = mysql_object_of a nm r" by auto
  note stored = body_table(1) [OF holds r]
  note cols = out_cols_signature [OF sig]
  show "\<exists>d'. exec_natives E (Suc f) (mysql_visit collation (nn_object x)) (native_start db) = Some d'
      \<and> exposes E (objs d') (Suc (Suc (Suc f))) nm (column_names t) B"
  proof (cases a)
    case (IndexSpec k target n cs)
    have "cs = column_names t \<and> target \<in> set (column_names t) \<and> (k = UNIQUE \<longrightarrow> unique_holds E (column_names t) target B)"
      using guard suits first_text_member [of q] IndexSpec
      by (cases b) (auto simp: index_spec_def cols PK_COLUMN_def split: list.splits if_splits)
    moreover have "objs (native_start db) nm = None"
      using fresh by (auto simp: x IndexSpec fresh_in_def expose_def view_of_def Let_def)
    ultimately show ?thesis using index_shown [OF ok stored] by (simp add: x IndexSpec del: mysql_visit.simps exec_natives.simps)
  next
    case (TableSpec cs tys eng)
    have spec: "cs = column_names t" "length cs = length tys"
      using guard TableSpec sig by (cases b; auto simp: index_spec_def cols split: list.splits if_splits)+
    have "fresh_in (native_start db) [nm @ ''_tbl'', nm]"
      using fresh by (auto simp: x TableSpec fresh_in_def expose_def view_of_def)
    from plain_child_exposed [OF ok(1) stores_exposes [OF stored] this, where mids = "[]" and decls = "typed_columns cs tys"] show ?thesis
      using typed_columns_decls [OF spec(2)] table_ok_distinct [OF ok(2)] length_rows [OF ok(3)]
      by (simp add: x TableSpec spec(1) native_start_def del: exec_native.simps)
  next
    case (JsonSpec columns)
    have spec: "columns = map json_column (table_signature t)" "json_lossless collation E t B"
      using guard suits sig JsonSpec by (cases b; auto simp: index_spec_def split: list.splits if_splits)+
    have "fresh_in (native_start db) [nm, derived nm ''eq_json'']" using fresh by (simp add: x JsonSpec fresh_in_def)
    from json_shown [OF ok(1,2) stored this spec(2), where f = "Suc f" and j = f] show ?thesis
      by (simp only: x JsonSpec spec(1) mysql_object_of.simps)
  qed
qed

end
