(* ===== verification/Coa_Native_Forms.thy ===== *)
theory Coa_Native_Forms
  imports Coa_Native_Run
begin

text \<open>
  The statement forms single dialects use: copies, merged and retyped rows, computed columns, inheritance, partitions,
  packed rows.  Each lemma says when the form runs and what can be read after it.
\<close>


section \<open>Copies and views of everything\<close>

lemma run_star:
  assumes "engine_ok E" "rd (j # path) ref = Some (names, rows)" "mset rows = mset B"
  shows "\<exists>out. run_query E rd path (plain_select j (named_source ref) None None) = Some (names, out) \<and> mset out = mset B"
  using assms by (simp add: select_rows_def where_rows_def qualify_rows_def)

lemma star_exposes:
  assumes "engine_ok E" "exposes E (objs d) f ref names B" "objs d nm = None"
  shows "\<exists>d'. exec_native E k (star_view nm ref) d = Some d' \<and> exposes E (objs d') (Suc f) nm names B"
proof -
  let ?db = "(objs d)(nm \<mapsto> ViewObj 0 (plain_select 0 (named_source ref) None None))"
  have "exposes E ?db (Suc f) nm names B"
    unfolding exposes_def
  proof
    fix path
    have "exposes E ?db f ref names B" by (rule exposes_beside [OF assms(2,3)])
    from exposesD [OF this, of "0 # 0 # path"] obtain rows where "read_relation E ?db f (0 # 0 # path) ref = Some (names, rows)" "mset rows = mset B" .
    from run_star [OF assms(1), of "read_relation E ?db f" 0 "0 # path", OF this]
    show "\<exists>rows. read_relation E ?db (Suc f) path nm = Some (names, rows) \<and> mset rows = mset B" by simp
  qed
  then show ?thesis using assms(3) by (simp add: star_view_def)
qed

lemma copied:
  assumes "engine_ok E" "exposes E (objs d) f ref names B" "objs d nm = None"
    and "items = None \<or> items = Some (map out_item names) \<and> distinct names \<and> (\<forall>r \<in> set B. length r = length names)"
  shows "\<exists>rows. exec_native E f (copy_table keyword nm items ref) d = Some (d\<lparr>objs := (objs d)(nm \<mapsto> TableObj names rows)\<rparr>)
    \<and> mset rows = mset B"
proof -
  from exposesD [OF assms(2), of "0 # [0]"] obtain rows where rows: "read_relation E (objs d) f (0 # [0]) ref = Some (names, rows)" "mset rows = mset B" .
  have "\<exists>out. run_query E (read_relation E (objs d) f) [0] (plain_select 0 (named_source ref) items None) = Some (names, out) \<and> mset out = mset B"
  proof (cases items)
    case None
    then show ?thesis using run_star [OF assms(1), of "read_relation E (objs d) f" 0 "[0]", OF rows] by simp
  next
    case (Some its)
    then show ?thesis
      using run_items [OF assms(1) items_give_columns, of names B "read_relation E (objs d) f" 0 "[0]", OF _ _ rows] assms(4) by (auto simp: o_def)
  qed
  then show ?thesis using assms(3) by (auto simp: copy_table_def)
qed

lemma copied_stores:
  assumes "engine_ok E" "exposes E (objs d) f ref names B" "objs d nm = None"
    and "items = None \<or> items = Some (map out_item names) \<and> distinct names \<and> (\<forall>r \<in> set B. length r = length names)"
  shows "\<exists>d'. exec_native E f (copy_table keyword nm items ref) d = Some d' \<and> stores d' nm names B \<and> (\<forall>x. x \<noteq> nm \<longrightarrow> objs d' x = objs d x)"
  using copied [OF assms, of keyword] by (auto simp: stores_def)


section \<open>Columns\<close>

text \<open>An expression gives back the value of a column.\<close>

definition gives :: "engine \<Rightarrow> string list \<Rightarrow> expr \<Rightarrow> string \<Rightarrow> row list \<Rightarrow> bool" where
  "gives E names e c B \<longleftrightarrow> (\<forall>r \<in> set B. eval_row E (plain_scope names) r e = eval_row E (plain_scope names) r (ColumnRef c IntegerType None))"

lemma stores_perm: "stores d b names B \<Longrightarrow> mset B = mset C \<Longrightarrow> stores d b names C"
  by (auto simp: stores_def)

lemma exec_retype:
  assumes "stores d b names B" "distinct names" "\<forall>r \<in> set B. length r = length names" "c \<in> set names" "gives E names e c B"
  shows "\<exists>d'. exec_native E f (Retype b c ty txt e) d = Some d' \<and> stores d' b names B \<and> (\<forall>x. x \<noteq> b \<longrightarrow> objs d' x = objs d x)"
proof -
  obtain rows where rows: "objs d b = Some (TableObj names rows)" "mset rows = mset B" using assms(1) by (auto simp: stores_def)
  obtain k where k: "k < length names" "names ! k = c" "position names c = Some k" using position_member [OF assms(2,4)] by blast
  have "map_opt (\<lambda>r. map_option (\<lambda>v. r[k := v]) (eval_row E (plain_scope names) r e)) rows = Some (map (\<lambda>r. r) rows)"
  proof (rule map_opt_total)
    fix r
    assume "r \<in> set rows"
    then have "r \<in> set B" using rows(2) by (metis mset_eq_setD)
    then have "eval_row E (plain_scope names) r e = Some (r ! k)"
      using assms(5) eval_out [OF assms(2) k(1)] k(2) by (simp add: gives_def)
    then show "map_option (\<lambda>v. r[k := v]) (eval_row E (plain_scope names) r e) = Some r" by simp
  qed
  then show ?thesis using rows k(3) by (simp add: stores_def)
qed

lemma exec_add_computed:
  assumes "stores d b names B" "c \<notin> set names" "\<forall>r \<in> set B. eval_row E (plain_scope names) r e = Some (g r)"
  shows "\<exists>d'. exec_native E f (AddComputed b c ty txt e) d = Some d' \<and> stores d' b (names @ [c]) (map (\<lambda>r. r @ [g r]) B)
    \<and> (\<forall>x. x \<noteq> b \<longrightarrow> objs d' x = objs d x)"
proof -
  obtain rows where rows: "objs d b = Some (TableObj names rows)" "mset rows = mset B" using assms(1) by (auto simp: stores_def)
  have "map_opt (compute_row E names [(c, e)]) rows = Some (map (\<lambda>r. r @ [g r]) rows)"
  proof (rule map_opt_total)
    fix r
    assume "r \<in> set rows"
    then have "r \<in> set B" using rows(2) by (metis mset_eq_setD)
    then show "compute_row E names [(c, e)] r = Some (r @ [g r])" using assms(3) by (simp add: compute_row_def map_opt_def)
  qed
  then show ?thesis using rows assms(2) by (simp add: stores_def)
qed

text \<open>A column added and dropped again.\<close>

lemma exec_add_drop:
  assumes "stores d b names B" "c \<notin> set names" "distinct names" "\<forall>r \<in> set B. length r = length names"
  shows "\<exists>d'. exec_natives E f [AddColumn b c txt v, DropColumn b c] d = Some d' \<and> stores d' b names B \<and> (\<forall>x. x \<noteq> b \<longrightarrow> objs d' x = objs d x)"
proof -
  obtain rows where rows: "objs d b = Some (TableObj names rows)" "mset rows = mset B" using assms(1) by (auto simp: stores_def)
  have len: "\<forall>r \<in> set rows. length r = length names" using assms(4) rows(2) by (metis mset_eq_setD)
  have "position (names @ [c]) ((names @ [c]) ! length names) = Some (length names)"
    by (rule position_Some) (use assms(2,3) in simp_all)
  then have "position (names @ [c]) c = Some (length names)" by simp
  moreover have "map (\<lambda>r. take (length names) r @ drop (Suc (length names)) r) (map (\<lambda>r. r @ [v]) rows) = rows"
    using len by (simp add: map_idI)
  ultimately show ?thesis using rows assms(2) by (simp add: stores_def o_def)
qed


section \<open>Merging a table with its own copy\<close>

text \<open>The key is a whole number where it is there, and then only one row has it.\<close>

definition int_key :: "string list \<Rightarrow> string \<Rightarrow> row list \<Rightarrow> bool" where
  "int_key names key B \<longleftrightarrow>
     (case column_values names key B of None \<Rightarrow> False
      | Some vs \<Rightarrow> list_all (\<lambda>v. case v of SNull \<Rightarrow> True | SInt k \<Rightarrow> length (filter (\<lambda>u. u = v) vs) = 1 | _ \<Rightarrow> False) vs)"

lemma int_key_perm:
  assumes "mset rows = mset B"
  shows "int_key names key rows = int_key names key B"
proof -
  have map: "mset (map f rows) = mset (map f B)" for f :: "row \<Rightarrow> sqlval" using assms by simp
  have count: "length (filter p (map f rows)) = length (filter p (map f B))" for p and f :: "row \<Rightarrow> sqlval"
    by (metis map mset_filter size_mset)
  show ?thesis
    by (cases "position names key") (simp_all only: int_key_def column_values_def option.map option.case list_all_iff mset_eq_setD [OF map] count)
qed

lemma fold_self: "fold (\<lambda>j acc. acc[j := r ! j]) js r = r"
  by (induction js) simp_all

lemma one_in_filter: "length (filter P xs) = 1 \<Longrightarrow> x \<in> set xs \<Longrightarrow> P x \<Longrightarrow> filter P xs = [x]"
proof -
  assume "length (filter P xs) = 1" "x \<in> set xs" "P x"
  then obtain y where y: "filter P xs = [y]" by (auto simp: length_Suc_conv)
  have "x \<in> set (filter P xs)" using \<open>x \<in> set xs\<close> \<open>P x\<close> by simp
  then have "x \<in> set [y]" by (simp only: y)
  with y show ?thesis by simp
qed

definition key_like :: "sqlval \<Rightarrow> bool" where
  "key_like v \<longleftrightarrow> (case v of SNull \<Rightarrow> True | SInt k \<Rightarrow> True | _ \<Rightarrow> False)"

lemma int_equal: "engine_ok E \<Longrightarrow> key_like v \<Longrightarrow> sql_cmp E ''='' (SInt i) v = SBool True \<longleftrightarrow> v = SInt i"
proof -
  assume "engine_ok E" "key_like v"
  from this(1) have "\<forall>a b. en_cmp E ''='' (SInt a) (SInt b) \<longleftrightarrow> a = b" unfolding engine_ok_def by (rule conjunct1)
  with \<open>key_like v\<close> show ?thesis by (cases v) (auto simp: key_like_def sql_cmp_def)
qed

lemma int_keyD:
  assumes "int_key names key src" "position names key = Some k" "r \<in> set src"
  shows "key_like (r ! k)" "r ! k = SInt i \<Longrightarrow> length (filter (\<lambda>s. s ! k = SInt i) src) = 1"
proof -
  have *: "case r ! k of SNull \<Rightarrow> True | SInt j \<Rightarrow> length (filter (\<lambda>u. u = r ! k) (map (\<lambda>r. r ! k) src)) = 1 | _ \<Rightarrow> False"
    using assms by (simp add: int_key_def column_values_def list_all_iff)
  then show "key_like (r ! k)" by (cases "r ! k") (simp_all add: key_like_def)
  show "length (filter (\<lambda>s. s ! k = SInt i) src) = 1" if "r ! k = SInt i"
    using * unfolding that by (simp add: filter_map o_def)
qed

lemma merge_same:
  assumes "engine_ok E" "int_key names key src" "position names key = Some k" "r \<in> set src"
  shows "merge_row E k js src r = Some r"
proof (cases "r ! k = SNull")
  case True
  then show ?thesis by (simp add: merge_row_def sql_cmp_def)
next
  case False
  with int_keyD(1) [OF assms(2-4)] obtain i where i: "r ! k = SInt i" by (cases "r ! k") (simp_all add: key_like_def)
  have "filter (\<lambda>s. sql_cmp E ''='' (r ! k) (s ! k) = SBool True) src = filter (\<lambda>s. s ! k = SInt i) src"
    using int_equal [OF assms(1) int_keyD(1) [OF assms(2,3)]] by (intro filter_cong) (simp_all add: i)
  also have "\<dots> = [r]" by (rule one_in_filter [OF int_keyD(2) [OF assms(2-4) i] assms(4) i])
  finally show ?thesis by (simp add: merge_row_def fold_self)
qed

lemma exec_merge:
  assumes "engine_ok E" "stores d b names B" "stores d src names B" "int_key names key B" "distinct names" "set set_cols \<subseteq> set names"
  shows "\<exists>d'. exec_native E (Suc f) (MergeSame b src key set_cols) d = Some d' \<and> stores d' b names B \<and> (\<forall>x. x \<noteq> b \<longrightarrow> objs d' x = objs d x)"
proof -
  obtain rows srows where rows: "objs d b = Some (TableObj names rows)" "mset rows = mset B"
    and srows: "objs d src = Some (TableObj names srows)" "mset srows = mset B" using assms(2,3) by (auto simp: stores_def)
  have key: "int_key names key srows" using assms(4) int_key_perm [OF srows(2)] by simp
  then obtain k where k: "position names key = Some k" by (auto simp: int_key_def column_values_def split: option.splits)
  have "\<exists>j. position names c = Some j" if "c \<in> set set_cols" for c
    using position_member [OF assms(5), of c] assms(6) that by blast
  then have "map_opt (position names) set_cols = Some (map (\<lambda>c. the (position names c)) set_cols)"
    by (intro map_opt_total) force
  moreover have "map_opt (merge_row E k (map (\<lambda>c. the (position names c)) set_cols) srows) rows = Some (map (\<lambda>r. r) rows)"
  proof (rule map_opt_total)
    fix r
    assume "r \<in> set rows"
    then have "r \<in> set srows" using rows(2) srows(2) by (metis mset_eq_setD)
    with merge_same [OF assms(1) key k] show "merge_row E k (map (\<lambda>c. the (position names c)) set_cols) srows r = Some r" by blast
  qed
  ultimately show ?thesis using rows srows(1) k by (simp add: stores_def)
qed


section \<open>Tables made of tables\<close>

definition table_rows :: "database \<Rightarrow> string \<Rightarrow> row list" where
  "table_rows db nm = (case db nm of Some (TableObj names rows) \<Rightarrow> rows | _ \<Rightarrow> [])"

lemma mset_concat_scans:
  assumes "engine_ok E"
  shows "mset (concat (map (\<lambda>(k, r). en_scan E (f k) (snd r)) (zip [m..<m + length rs] rs))) = mset (concat (map snd rs))"
proof (induction rs arbitrary: m)
  case (Cons r rs)
  have split: "[m..<m + length (r # rs)] = m # [Suc m..<Suc m + length rs]" by (simp add: upt_conv_Cons del: upt_Suc)
  have scan: "mset (en_scan E p xs) = mset xs" for p xs using assms by simp
  show ?case unfolding split using Cons.IH [of "Suc m"] by (simp add: scan del: upt_Suc)
qed simp

lemma union_tables:
  assumes "engine_ok E" "db nm = Some (union_of refs)" "refs \<noteq> []" "\<forall>ref \<in> set refs. \<exists>rows. db ref = Some (TableObj names rows)"
    and "mset (concat (map (table_rows db) refs)) = mset B"
  shows "exposes E db (Suc (Suc f)) nm names B"
  unfolding exposes_def
proof
  fix path
  let ?rs = "map (\<lambda>ref. (names, table_rows db ref)) refs"
  have read: "read_relation E db (Suc f) p ref = Some (names, table_rows db ref)" if "ref \<in> set refs" for ref p
    using assms(4) that by (auto simp: table_rows_def)
  have "map_opt (\<lambda>(k, b). source_rows (read_relation E db (Suc f)) (k # 0 # 0 # path) b) (zip [0..<length refs] (map named_source refs))
      = Some (map (\<lambda>(k, b). (names, table_rows db (the (ref_sql b)))) (zip [0..<length refs] (map named_source refs)))"
  proof (rule map_opt_total)
    fix x
    assume "x \<in> set (zip [0..<length refs] (map named_source refs))"
    then have "snd x \<in> set (map named_source refs)" by (metis prod.collapse set_zip_rightD)
    then obtain k ref where "x = (k, named_source ref)" "ref \<in> set refs" by (cases x rule: prod.exhaust) auto
    then show "(case x of (k, b) \<Rightarrow> source_rows (read_relation E db (Suc f)) (k # 0 # 0 # path) b)
        = Some (case x of (k, b) \<Rightarrow> (names, table_rows db (the (ref_sql b))))" using read by (simp del: read_relation.simps)
  qed
  moreover have "map (\<lambda>(k, b). (names, table_rows db (the (ref_sql b)))) (zip [0..<length refs] (map named_source refs)) = ?rs"
    by (rule nth_equalityI) simp_all
  ultimately have "those (map (\<lambda>(k, b). source_rows (read_relation E db (Suc f)) (k # 0 # 0 # path) b) (zip [0..<length refs] (map named_source refs))) = Some ?rs"
    by (simp add: map_opt_def del: read_relation.simps)
  then have "read_relation E db (Suc (Suc f)) path nm
      = Some (names, concat (map (\<lambda>(k, r). en_scan E (k # 0 # 0 # path) (snd r)) (zip [0..<length ?rs] ?rs)))"
    using assms(2,3) by (simp add: union_of_def same_width_def list_all_iff hd_map split: list.split del: read_relation.simps(1)) auto
  moreover have "mset (concat (map (\<lambda>(k, r). en_scan E (k # 0 # 0 # path) (snd r)) (zip [0..<length ?rs] ?rs))) = mset B"
    using mset_concat_scans [OF assms(1), of "\<lambda>k. k # 0 # 0 # path" 0 ?rs] assms(5) by (simp add: o_def)
  ultimately show "\<exists>rows. read_relation E db (Suc (Suc f)) path nm = Some (names, rows) \<and> mset rows = mset B" by blast
qed

lemma exec_inherit:
  assumes "engine_ok E" "stores d b names B" "fresh_in d [parent, only parent]"
  shows "\<exists>d'. exec_natives E k [LikeTable parent b tail, Inherit b parent] d = Some d' \<and> exposes E (objs d') (Suc (Suc f)) parent names B
    \<and> (\<forall>x. x \<notin> {parent, only parent} \<longrightarrow> objs d' x = objs d x)"
proof -
  obtain rows where rows: "objs d b = Some (TableObj names rows)" "mset rows = mset B" using assms(2) by (auto simp: stores_def)
  have fresh: "objs d parent = None" "objs d (only parent) = None" "parent \<noteq> only parent" "b \<noteq> parent" "b \<noteq> only parent"
    using assms(3) rows by (auto simp: fresh_in_def)
  let ?db = "(objs d)(parent \<mapsto> TableObj names [], only parent \<mapsto> TableObj names [], parent \<mapsto> union_of [only parent, b])"
  have "exec_natives E k [LikeTable parent b tail, Inherit b parent] d = Some (d\<lparr>objs := ?db\<rparr>)"
    using rows fresh by (simp add: new_object_def)
  moreover have "exposes E ?db (Suc (Suc f)) parent names B"
    by (rule union_tables [OF assms(1), where refs = "[only parent, b]"]) (use rows fresh in \<open>auto simp: table_rows_def\<close>)
  ultimately show ?thesis by auto
qed

text \<open>A table in two ranges, filled row by row.\<close>

lemma in_halves: "in_part (None, Some n) v \<noteq> in_part (Some n, None) v \<longleftrightarrow> (\<exists>i. v = SInt i)"
  by (cases v) (auto simp: in_part_def)

lemma only_apart [simp]: "only p \<noteq> p" "p \<noteq> only p"
proof -
  have "length (only p) \<noteq> length p" by (simp add: only_def)
  then show "only p \<noteq> p" "p \<noteq> only p" by auto
qed

lemma exec_partitioned:
  assumes "objs d old = Some (TableObj names rows)" "key \<in> set names" "objs d p = None" "objs d (only p) = None"
  shows "exec_native E f (Partitioned p old key) d
    = Some (d\<lparr>objs := (objs d)(p \<mapsto> union_of [only p], only p \<mapsto> TableObj names []), part_key := (part_key d)(p := Some key)\<rparr>)"
  using assms by (simp add: new_object_def)

lemma exec_partition_of:
  assumes "objs d (only p) = Some (TableObj names rows)" "objs d nm = None"
  shows "exec_native E f (PartitionOf nm p low high) d
    = Some (d\<lparr>objs := (objs d)(nm \<mapsto> TableObj names [], p \<mapsto> union_of (only p # map fst (parts d p) @ [nm])),
        parts := (parts d)(p := parts d p @ [(nm, low, high)])\<rparr>)"
  using assms by (simp add: new_object_def)

lemma compute_nothing: "map_opt (compute_row E names []) xs = Some xs"
  using map_opt_total [of xs "compute_row E names []" "\<lambda>r. r"] by (simp add: compute_row_def)

lemma store_plain:
  assumes "objs d nm = Some (TableObj names rows)" "computed d nm = []" "key_of d nm = None" "required d nm = []"
  shows "store_rows E d nm names new = Some (d\<lparr>objs := (objs d)(nm \<mapsto> TableObj names (rows @ new))\<rparr>)"
  using assms by (simp add: store_rows_def compute_nothing)

lemma split_halves:
  assumes "\<forall>r \<in> set rows. \<exists>i. r ! k = SInt i"
  shows "filter (\<lambda>r. in_part (Some n, None) (r ! k)) (filter (\<lambda>r. \<not> in_part (None, Some n) (r ! k)) rows) = filter (\<lambda>r. \<not> in_part (None, Some n) (r ! k)) rows"
    "filter (\<lambda>r. \<not> in_part (Some n, None) (r ! k)) (filter (\<lambda>r. \<not> in_part (None, Some n) (r ! k)) rows) = []"
proof -
  have every: "\<forall>r \<in> set (filter (\<lambda>r. \<not> in_part (None, Some n) (r ! k)) rows). in_part (Some n, None) (r ! k)"
    using assms in_halves [of n] by auto
  show "filter (\<lambda>r. in_part (Some n, None) (r ! k)) (filter (\<lambda>r. \<not> in_part (None, Some n) (r ! k)) rows) = filter (\<lambda>r. \<not> in_part (None, Some n) (r ! k)) rows"
    by (rule filter_True [OF every])
  show "filter (\<lambda>r. \<not> in_part (Some n, None) (r ! k)) (filter (\<lambda>r. \<not> in_part (None, Some n) (r ! k)) rows) = []"
    by (rule filter_False) (use every in blast)
qed

lemma exec_partition:
  assumes "engine_ok E" "stores (native_start db) b names B" "fresh_in (native_start db) [p, only p, lo, hi]"
    and "distinct names" "\<forall>r \<in> set B. length r = length names" "position names key = Some k" "\<forall>r \<in> set B. \<exists>i. r ! k = SInt i"
  shows "\<exists>d'. exec_natives E (Suc j) [Partitioned p b key, PartitionOf lo p None (Some n), PartitionOf hi p (Some n) None, Fill p names b]
        (native_start db) = Some d'
    \<and> exposes E (objs d') (Suc (Suc f)) p names B \<and> objs d' p = Some (union_of [only p, lo, hi])
    \<and> (\<forall>x. x \<notin> {p, only p, lo, hi} \<longrightarrow> objs d' x = db x)"
proof -
  obtain rows where rows: "db b = Some (TableObj names rows)" "mset rows = mset B" using assms(2) by (auto simp: stores_def native_start_def)
  have fresh: "db p = None" "db (only p) = None" "db lo = None" "db hi = None" "distinct [p, only p, lo, hi]"
    using assms(3) by (auto simp: fresh_in_def native_start_def)
  have apart: "b \<notin> {p, only p, lo, hi}" using fresh rows by auto
  have other: "lo \<noteq> p" "lo \<noteq> only p" "hi \<noteq> p" "hi \<noteq> only p" "hi \<noteq> lo" using fresh(5) by auto
  let ?new = "en_scan E [0] rows"
  have new: "mset ?new = mset B" using assms(1) rows(2) by simp
  then have set: "set ?new = set B" by (rule mset_eq_setD)
  let ?los = "filter (\<lambda>r. in_part (None, Some n) (r ! k)) ?new" and ?his = "filter (\<lambda>r. \<not> in_part (None, Some n) (r ! k)) ?new"
  have all: "filter (\<lambda>r. in_part (Some n, None) (r ! k)) ?his = ?his" "filter (\<lambda>r. \<not> in_part (Some n, None) (r ! k)) ?his = []"
    by (rule split_halves, use assms(7) set in simp)+
  have reinsert: "reinsert_rows E names names None ?new = Some ?new"
    by (rule reinsert_same_columns) (use assms(4,5) set in \<open>auto simp: where_rows_def\<close>)
  have "key \<in> set names" by (rule position_in [OF assms(6)])
  with rows(1) fresh(1,2) obtain d1 where d1: "exec_native E (Suc j) (Partitioned p b key) (native_start db) = Some d1"
    "objs d1 = db(p \<mapsto> union_of [only p], only p \<mapsto> TableObj names [])" "part_key d1 p = Some key" "parts d1 p = []"
    "computed d1 = (\<lambda>_. [])" "key_of d1 = (\<lambda>_. None)" "required d1 = (\<lambda>_. [])"
    using exec_partitioned [of "native_start db" b names rows key p E "Suc j"] by (simp add: native_start_def del: exec_native.simps)
  obtain d2 where d2: "exec_native E (Suc j) (PartitionOf lo p None (Some n)) d1 = Some d2"
    "objs d2 = (objs d1)(lo \<mapsto> TableObj names [], p \<mapsto> union_of [only p, lo])" "part_key d2 p = Some key" "parts d2 p = [(lo, None, Some n)]"
    "computed d2 = (\<lambda>_. [])" "key_of d2 = (\<lambda>_. None)" "required d2 = (\<lambda>_. [])"
    using exec_partition_of [of d1 p names "[]" lo E "Suc j" None "Some n"] d1(2-7) fresh(3) other by (simp del: exec_native.simps)
  obtain d3 where d3: "exec_native E (Suc j) (PartitionOf hi p (Some n) None) d2 = Some d3"
    "objs d3 = (objs d2)(hi \<mapsto> TableObj names [], p \<mapsto> union_of [only p, lo, hi])" "part_key d3 p = Some key"
    "parts d3 p = [(lo, None, Some n), (hi, Some n, None)]" "computed d3 = (\<lambda>_. [])" "key_of d3 = (\<lambda>_. None)" "required d3 = (\<lambda>_. [])"
    using exec_partition_of [of d2 p names "[]" hi E "Suc j" "Some n" None] d1(2) d2(2-7) fresh(4) other by (simp del: exec_native.simps)
  have at: "objs d3 lo = Some (TableObj names [])" "objs d3 hi = Some (TableObj names [])" "objs d3 p = Some (union_of [only p, lo, hi])"
    "objs d3 (only p) = Some (TableObj names [])" "objs d3 b = Some (TableObj names rows)" "\<forall>x. x \<notin> {p, only p, lo, hi} \<longrightarrow> objs d3 x = db x"
    using d1(2) d2(2) d3(2) rows(1) fresh(5) apart by auto
  let ?db = "(objs d3)(lo \<mapsto> TableObj names ?los, hi \<mapsto> TableObj names ?his)"
  have lo: "store_rows E d3 lo names ?los = Some (d3\<lparr>objs := (objs d3)(lo \<mapsto> TableObj names ?los)\<rparr>)"
    using store_plain [OF at(1)] d3(5-7) by simp
  have hi: "store_rows E (d3\<lparr>objs := (objs d3)(lo \<mapsto> TableObj names ?los)\<rparr>) hi names ?his = Some (d3\<lparr>objs := ?db\<rparr>)"
    using store_plain [of "d3\<lparr>objs := (objs d3)(lo \<mapsto> TableObj names ?los)\<rparr>" hi names "[]" E ?his] at(2) d3(5-7) other by simp
  have filled: "insert_rows E d3 p names ?new = Some (d3\<lparr>objs := ?db\<rparr>)"
    using d3(3,4) assms(6) by (simp add: insert_rows_def lo hi all del: filter_filter)
  have read: "read_relation E (objs d3) (Suc j) [0] b = Some (names, rows)" using at(5) by simp
  have fill: "exec_native E (Suc j) (Fill p names b) d3 = Some (d3\<lparr>objs := ?db\<rparr>)"
    unfolding exec_native.simps read bind.bind_lunit prod.case reinsert filled ..
  have run: "exec_natives E (Suc j) [Partitioned p b key, PartitionOf lo p None (Some n), PartitionOf hi p (Some n) None, Fill p names b] (native_start db)
      = Some (d3\<lparr>objs := ?db\<rparr>)"
    unfolding exec_natives.simps d1(1) bind.bind_lunit d2(1) d3(1) fill ..
  have "exposes E ?db (Suc (Suc f)) p names B"
  proof (rule union_tables [OF assms(1), where refs = "[only p, lo, hi]"])
    show "mset (concat (map (table_rows ?db) [only p, lo, hi])) = mset B"
      using fresh(5) new at(4) by (simp add: table_rows_def flip: multiset_partition)
  qed (use fresh(5) at(3,4) in auto)
  moreover have "?db p = Some (union_of [only p, lo, hi])" "\<forall>x. x \<notin> {p, only p, lo, hi} \<longrightarrow> ?db x = db x"
    using at(3,6) fresh(5) by auto
  ultimately show ?thesis using run by auto
qed


section \<open>Views that read a column another way\<close>

definition read_as :: "(string \<Rightarrow> expr) \<Rightarrow> string \<Rightarrow> proj_item" where
  "read_as ex c = ProjectionItem c (ex c) IntegerType"

lemma read_as_names [simp]: "map pi_alias (map (read_as ex) cols) = cols"
  by (simp add: read_as_def o_def)

lemma items_read_as:
  assumes "distinct names" "\<forall>r \<in> set B. length r = length names" "\<And>c. c \<in> set names \<Longrightarrow> scalar (ex c) \<and> gives E names (ex c) c B"
  shows "items_give E names (map (read_as ex) names) B (\<lambda>r. r)"
proof -
  have "map_opt (\<lambda>it. eval_row E (plain_scope names) r (pi_expr it)) (map (read_as ex) names) = Some r" if "r \<in> set B" for r
    unfolding map_opt_Some list_all2_conv_all_nth
  proof (intro conjI allI impI)
    show "length (map (read_as ex) names) = length r" using assms(2) that by simp
    fix k
    assume "k < length (map (read_as ex) names)"
    then have k: "k < length names" by simp
    with assms(3) [of "names ! k"] that eval_out [OF assms(1) k] show "eval_row E (plain_scope names) r (pi_expr (map (read_as ex) names ! k)) = Some (r ! k)"
      by (simp add: gives_def read_as_def)
  qed
  then show ?thesis using assms(3) by (simp add: items_give_def list_all_iff read_as_def)
qed

lemma gives_itself: "gives E names (ColumnRef c ty None) c B"
  by (simp add: gives_def eval_row_def)

lemma read_as_exposed:
  assumes "engine_ok E" "exposes E (objs d) f b names B" "objs d nm = None" "distinct names" "\<forall>r \<in> set B. length r = length names"
    and "\<And>c. c \<in> set names \<Longrightarrow> scalar (ex c) \<and> gives E names (ex c) c B"
  shows "\<exists>d'. exec_native E k (view_of nm (map (read_as ex) names) b) d = Some d' \<and> exposes E (objs d') (Suc f) nm names B"
proof -
  have "items_give E names (map (read_as ex) names) B (\<lambda>r. r)" by (rule items_read_as [OF assms(4-6)])
  from view_exposes [OF assms(1,2) this assms(3), unfolded read_as_names] exec_view [OF assms(3), of E k "map (read_as ex) names" b]
  show ?thesis by (auto simp del: exec_native.simps)
qed

text \<open>A column replaced by the one computed from it.\<close>

lemma items_instead:
  assumes "distinct (names @ [gen])" "\<forall>r \<in> set B. length r = length names" "target \<in> set names" "gives E names e target B"
    and "\<forall>r \<in> set B. eval_row E (plain_scope names) r e = Some (g r)"
  shows "items_give E (names @ [gen]) (map (read_as (\<lambda>c. ColumnRef (if c = target then gen else c) IntegerType None)) names)
    (map (\<lambda>r. r @ [g r]) B) (take (length names))"
proof -
  let ?ex = "\<lambda>c. ColumnRef (if c = target then gen else c) IntegerType None"
  have "map_opt (\<lambda>it. eval_row E (plain_scope (names @ [gen])) (r @ [g r]) (pi_expr it)) (map (read_as ?ex) names) = Some r" if r: "r \<in> set B" for r
    unfolding map_opt_Some list_all2_conv_all_nth
  proof (intro conjI allI impI)
    show "length (map (read_as ?ex) names) = length r" using assms(2) r by simp
    fix k
    assume "k < length (map (read_as ?ex) names)"
    then have k: "k < length names" by simp
    have len: "length r = length names" using assms(2) r by simp
    show "eval_row E (plain_scope (names @ [gen])) (r @ [g r]) (pi_expr (map (read_as ?ex) names ! k)) = Some (r ! k)"
    proof (cases "names ! k = target")
      case True
      have "eval_row E (plain_scope names) r (ColumnRef target IntegerType None) = Some (r ! k)"
        using eval_out [of names k E r IntegerType] assms(1) k True by simp
      moreover have "eval_row E (plain_scope names) r e = eval_row E (plain_scope names) r (ColumnRef target IntegerType None)"
        using assms(4) r unfolding gives_def by blast
      ultimately have "g r = r ! k" using assms(5) r by (metis option.inject)
      have "(names @ [gen]) ! length names = gen" "(r @ [g r]) ! length names = g r" using len by (simp_all add: nth_append)
      with eval_out [OF assms(1), of "length names" E "r @ [g r]" IntegerType] \<open>g r = r ! k\<close> k True show ?thesis by (simp add: read_as_def)
    next
      case False
      with eval_out [OF assms(1), of k E "r @ [g r]" IntegerType] k show ?thesis by (simp add: read_as_def nth_append len)
    qed
  qed
  then show ?thesis using assms(2) by (auto simp: items_give_def list_all_iff read_as_def)
qed

lemma computed_exposed:
  assumes "engine_ok E" "stores d b names B" "objs d nm = None" "distinct names" "\<forall>r \<in> set B. length r = length names"
    and "gen \<notin> set names" "target \<in> set names" "gives E names e target B"
  shows "\<exists>d'. exec_natives E k [AddComputed b gen ty txt e, view_of nm (map (read_as (\<lambda>c. ColumnRef (if c = target then gen else c) IntegerType None)) names) b] d
      = Some d' \<and> exposes E (objs d') (Suc (Suc f)) nm names B"
proof -
  obtain j where j: "j < length names" "names ! j = target" using assms(7) by (auto simp: in_set_conv_nth)
  have vals: "\<forall>r \<in> set B. eval_row E (plain_scope names) r e = Some (r ! j)"
    using assms(8) eval_out [OF assms(4) j(1)] j(2) by (simp add: gives_def)
  have "objs d b \<noteq> None" using assms(2) by (auto simp: stores_def)
  with assms(3) have "nm \<noteq> b" by auto
  with exec_add_computed [OF assms(2,6) vals, of k ty "txt"] assms(3) obtain d1 where
    d1: "exec_native E k (AddComputed b gen ty txt e) d = Some d1" "stores d1 b (names @ [gen]) (map (\<lambda>r. r @ [r ! j]) B)" "objs d1 nm = None"
    by auto
  have same: "map (take (length names)) (map (\<lambda>r. r @ [r ! j]) B) = B" using assms(5) by (simp add: map_idI)
  have "distinct (names @ [gen])" using assms(4,6) by simp
  from view_exposes [OF assms(1) stores_exposes [OF d1(2)] items_instead [OF this assms(5,7,8) vals] d1(3), of f, unfolded same read_as_names]
  show ?thesis using exec_view [OF d1(3), of E k _ b] d1(1) by (auto simp del: exec_native.simps)
qed


section \<open>Objects over the query itself\<close>

definition query_make :: "context_env \<Rightarrow> string option \<Rightarrow> eqnode \<Rightarrow> (string \<Rightarrow> 'o) \<Rightarrow> 'o native_node option gen" where
  "query_make env given body mk =
     gbind (take_name env given ''view'') (\<lambda>nm. gbind new_id (\<lambda>i. greturn (Some (NativeNode i body (mk nm)))))"

lemma query_made_step:
  assumes "query_make env (Some nm) body mk s = Inr (Some x, s')" "nm \<noteq> []"
  shows "nn_body x = body \<and> nn_object x = mk nm \<and> issued s' = issued s"
  using assms by (auto simp: query_make_def take_name_def gbind_def greturn_def new_id_step intro!: issued_cong)

lemma query_view_exposed:
  assumes "answers E (objs d) f q names B" "objs d nm = None"
  shows "\<exists>d'. exec_native E k (QueryView prefix nm link q) d = Some d' \<and> exposes E (objs d') (Suc f) nm names B
    \<and> (\<forall>x. x \<noteq> nm \<longrightarrow> objs d' x = objs d x)"
proof -
  have more: "reads_more (read_relation E (objs d) f) (read_relation E ((objs d)(nm \<mapsto> ViewObj 0 q)) f)"
    by (rule read_mono, rule map_le_new) (rule assms(2))
  have "exposes E ((objs d)(nm \<mapsto> ViewObj 0 q)) (Suc f) nm names B"
    unfolding exposes_def
  proof
    fix path
    from assms(1) obtain rows where "run_query E (read_relation E (objs d) f) (0 # path) q = Some (names, rows)" "mset rows = mset B"
      unfolding answers_def by blast
    with run_query_mono [OF more this(1)] show "\<exists>rows. read_relation E ((objs d)(nm \<mapsto> ViewObj 0 q)) (Suc f) path nm = Some (names, rows) \<and> mset rows = mset B"
      by simp
  qed
  then show ?thesis using assms(2) by (simp add: new_object_def)
qed


section \<open>Chaining\<close>

lemma then_exposed:
  assumes "exec_natives E k ss d = Some d1" "engine_ok E" "exposes E (objs d1) f ref names B" "objs d1 nm = None"
    and "distinct names" "\<forall>r \<in> set B. length r = length names"
  shows "\<exists>d'. exec_natives E k (ss @ [expose nm names ref]) d = Some d' \<and> exposes E (objs d') (Suc f) nm names B"
  using exposes_view [OF assms(2-6), of k] assms(1) by (auto simp: exec_natives_append simp del: exec_native.simps)

lemma reads_deeper: "reads_more (read_relation E db k) (read_relation E db (Suc k))"
proof (induction k)
  case (Suc k)
  show ?case
    unfolding reads_more_def
  proof (intro allI impI)
    fix p nm v
    assume r: "read_relation E db (Suc k) p nm = Some v"
    show "read_relation E db (Suc (Suc k)) p nm = Some v"
    proof (cases "db nm")
      case (Some x)
      then show ?thesis
      proof (cases x)
        case (ViewObj i q)
        with r Some have "run_query E (read_relation E db k) (i # p) q = Some v" by simp
        from run_query_mono [OF Suc.IH this] show ?thesis
          by (simp only: read_relation.simps(2) [of E db "Suc k"] Some ViewObj option.case stored.case)
      qed (use r Some in simp_all)
    qed (use r in simp)
  qed
qed (simp add: reads_more_def)

lemma exposes_deeper: "exposes E db f nm names B \<Longrightarrow> exposes E db (Suc f) nm names B"
  using reads_deeper [of E db f] unfolding exposes_def reads_more_def by blast

lemma exec_add_key:
  assumes "stores d b names B" "key_holds E names column B"
  shows "\<exists>d'. exec_native E f (AddKey b column) d = Some d' \<and> objs d' = objs d"
proof -
  obtain rows where "objs d b = Some (TableObj names rows)" "key_holds E names column rows"
    using assms key_perm(1) [of _ B E names column] unfolding stores_def by blast
  then show ?thesis by simp
qed

lemma stores_same: "stores d b names B \<Longrightarrow> objs d' b = objs d b \<Longrightarrow> stores d' b names B"
  by (simp add: stores_def)

section \<open>Tables made with their columns\<close>

lemma answers_beside: "answers E db f q names B \<Longrightarrow> db nm = None \<Longrightarrow> answers E (db(nm \<mapsto> x)) f q names B"
proof -
  assume ans: "answers E db f q names B" and "db nm = None"
  from map_le_new [of db nm x, OF this(2)] have more: "reads_more (read_relation E db f) (read_relation E (db(nm \<mapsto> x)) f)" by (rule read_mono)
  show ?thesis
    unfolding answers_def
  proof
    fix path
    from ans obtain rows where "run_query E (read_relation E db f) path q = Some (names, rows)" "mset rows = mset B"
      unfolding answers_def by blast
    with run_query_mono [OF more this(1)]
    show "\<exists>rows. run_query E (read_relation E (db(nm \<mapsto> x)) f) path q = Some (names, rows) \<and> mset rows = mset B" by blast
  qed
qed

text \<open>A new table with stored columns only takes any rows.\<close>

lemma exec_typed:
  assumes "objs d child = None" "concat (map decl_column decls) = cols" "concat (map decl_computed decls) = []"
    "concat (map decl_key decls) = []" "concat (map decl_required decls) = []" "distinct cols"
  shows "\<exists>d1. exec_native E f (TypedTable child decls tail) d = Some d1 \<and> objs d1 = (objs d)(child \<mapsto> TableObj cols [])
    \<and> computed d1 child = [] \<and> key_of d1 child = None \<and> required d1 child = [] \<and> part_key d1 = part_key d"
  unfolding exec_native.simps assms(2-5) Let_def using assms(1,6) by (simp add: new_object_def)

lemma insert_plain:
  assumes "objs d nm = Some (TableObj names rows)" "computed d nm = []" "key_of d nm = None" "required d nm = []" "part_key d nm = None"
  shows "insert_rows E d nm names new = Some (d\<lparr>objs := (objs d)(nm \<mapsto> TableObj names (rows @ new))\<rparr>)"
  using store_plain [OF assms(1-4)] assms(5) by (simp add: insert_rows_def)

text \<open>Where an engine has no \<open>CREATE TABLE \<dots> AS\<close>: a typed table filled from the query holds what the copy would.\<close>

lemma typed_ctas:
  assumes "answers E (objs d) f q cols B" "objs d child = None" "part_key d child = None"
    and "concat (map decl_column decls) = cols" "concat (map decl_computed decls) = []" "concat (map decl_key decls) = []"
    and "concat (map decl_required decls) = []" "distinct cols"
  shows "\<exists>d'. exec_natives E f [TypedTable child decls tail, FillQuery child cols q] d = Some d' \<and> stores d' child cols B
    \<and> (\<forall>x. x \<noteq> child \<longrightarrow> objs d' x = objs d x)"
proof -
  from exec_typed [OF assms(2,4-8), of E f tail] obtain d1 where d1: "exec_native E f (TypedTable child decls tail) d = Some d1"
    "objs d1 = (objs d)(child \<mapsto> TableObj cols [])" "computed d1 child = []" "key_of d1 child = None" "required d1 child = []" "part_key d1 = part_key d"
    by blast
  have "answers E (objs d1) f q cols B" unfolding d1(2) by (rule answers_beside [OF assms(1,2)])
  then obtain rows where rows: "run_query E (read_relation E (objs d1) f) [0] q = Some (cols, rows)" "mset rows = mset B"
    unfolding answers_def by blast
  have "exec_native E f (FillQuery child cols q) d1 = Some (d1\<lparr>objs := (objs d1)(child \<mapsto> TableObj cols rows)\<rparr>)"
    using insert_plain [of d1 child cols "[]" E rows] d1(2-6) assms(3) rows(1) by simp
  then show ?thesis using d1(1,2) rows(2) by (simp add: stores_def del: exec_native.simps)
qed

text \<open>Every row packed into one value, and each column read from it again.\<close>

lemma packed_exposed:
  assumes "engine_ok E" "exposes E (objs d) (Suc f) b names B" "fresh_in d [child, nm]" "part_key d child = None"
    and "\<forall>r \<in> set B. eval_row E (plain_scope names) r (RawExpr txt IntegerType) = Some (p r)"
    and "items_give E [obj] items (map (\<lambda>r. [p r]) B) g" "\<forall>r \<in> set B. g [p r] = r" "map pi_alias items = names"
  shows "\<exists>d'. exec_natives E (Suc f) [TypedTable child [ColumnDecl obj ty] tail, FillPacked child obj txt b, view_of nm items child] d = Some d'
    \<and> exposes E (objs d') (Suc (Suc k)) nm names B"
proof -
  have fresh: "objs d child = None" "objs d nm = None" "nm \<noteq> child" using assms(3) by (auto simp: fresh_in_def)
  from exec_typed [OF fresh(1), of "[ColumnDecl obj ty]" "[obj]" E "Suc f" tail] obtain d1
    where d1: "exec_native E (Suc f) (TypedTable child [ColumnDecl obj ty] tail) d = Some d1"
    "objs d1 = (objs d)(child \<mapsto> TableObj [obj] [])" "computed d1 child = []" "key_of d1 child = None" "required d1 child = []" "part_key d1 = part_key d"
    by (auto simp del: exec_native.simps)
  have "exposes E (objs d1) (Suc f) b names B" unfolding d1(2) by (rule exposes_beside [OF assms(2) fresh(1)])
  from exposesD [OF this, of "[0]"] obtain rows where rows: "read_relation E (objs d1) (Suc f) [0] b = Some (names, rows)" "mset rows = mset B" .
  let ?new = "map (\<lambda>r. [p r]) (en_scan E [0] rows)"
  have scan: "mset (en_scan E [0] rows) = mset B" using assms(1) rows(2) by simp
  have "map_opt (\<lambda>r. map_option (\<lambda>v. [v]) (eval_row E (plain_scope names) r (RawExpr txt IntegerType))) (en_scan E [0] rows) = Some ?new"
    by (rule map_opt_total) (use assms(5) mset_eq_setD [OF scan] in simp)
  then have "exec_native E (Suc f) (FillPacked child obj txt b) d1 = insert_rows E d1 child [obj] ?new"
    unfolding exec_native.simps rows(1) bind.bind_lunit prod.case by simp
  also have "\<dots> = Some (d1\<lparr>objs := (objs d1)(child \<mapsto> TableObj [obj] ?new)\<rparr>)"
    using insert_plain [of d1 child "[obj]" "[]" E ?new] d1(2-6) assms(4) by simp
  finally obtain d2 where d2: "exec_native E (Suc f) (FillPacked child obj txt b) d1 = Some d2"
    "objs d2 = (objs d1)(child \<mapsto> TableObj [obj] ?new)" by simp
  have "mset ?new = mset (map (\<lambda>r. [p r]) B)" using scan by simp
  then have "exposes E (objs d2) (Suc k) child [obj] (map (\<lambda>r. [p r]) B)"
    using exposes_table [of "objs d2" child "[obj]" ?new] d2(2) by simp
  moreover have new: "objs d2 nm = None" using d2(2) d1(2) fresh by simp
  ultimately have "exposes E ((objs d2)(nm \<mapsto> ViewObj 0 (plain_select 0 (named_source child) (Some items) None))) (Suc (Suc k)) nm
      (map pi_alias items) (map g (map (\<lambda>r. [p r]) B))"
    by (intro view_exposes [OF assms(1) _ assms(6)])
  moreover have "map g (map (\<lambda>r. [p r]) B) = B" using assms(7) by (simp add: map_idI)
  ultimately show ?thesis
    using exec_view [OF new, of E "Suc f" items child] d1(1) d2(1) assms(8) by (auto simp del: exec_native.simps)
qed

end
