(* ===== verification/Coa_Fence.thy ===== *)
theory Coa_Fence
  imports Coa_Text "HOL-Library.List_Lexorder" "HOL-Library.Char_ord"
begin

text \<open>
  \<open>dialects/cratedb/refresh.py\<close> and the connection of \<open>dialects/cratedb/adapter.py\<close> that uses it.  CrateDB shows
  the rows a statement wrote only after a \<open>REFRESH TABLE\<close>; the fence reads every statement, remembers which tables
  it wrote, and refreshes them before the next statement that may read.

  A regular expression is the list of its matches in the order Python's matcher tries them, a match being the text
  captured and the text left; the match \<open>re.match\<close> returns is the first.  Strings are of one-byte code points.
\<close>


section \<open>Patterns\<close>

type_synonym 'a pattern = "string \<Rightarrow> ('a \<times> string) list"

definition p_text :: "string \<Rightarrow> string pattern" where
  "p_text w s = (if map lower_char (take (length w) s) = map lower_char w then [(take (length w) s, drop (length w) s)] else [])"

text \<open>\<open>[\<dots>]*\<close> and \<open>[\<dots>]+\<close>: the longest run first.\<close>

fun p_many :: "(char \<Rightarrow> bool) \<Rightarrow> string pattern" where
  "p_many p [] = [([], [])]"
| "p_many p (c # s) = (if p c then map (\<lambda>(a, r). (c # a, r)) (p_many p s) @ [([], c # s)] else [([], c # s)])"

definition p_some :: "(char \<Rightarrow> bool) \<Rightarrow> string pattern" where
  "p_some p s = filter (\<lambda>(a, r). a \<noteq> []) (p_many p s)"

definition p_char :: "(char \<Rightarrow> bool) \<Rightarrow> string pattern" where
  "p_char p s = (case s of [] \<Rightarrow> [] | c # r \<Rightarrow> if p c then [([c], r)] else [])"

definition p_seq :: "string pattern \<Rightarrow> string pattern \<Rightarrow> string pattern" where
  "p_seq f g s = concat (map (\<lambda>(a, r). map (\<lambda>(b, t). (a @ b, t)) (g r)) (f s))"

definition p_alt :: "string pattern \<Rightarrow> string pattern \<Rightarrow> string pattern" where
  "p_alt f g s = f s @ g s"

definition p_opt :: "string pattern \<Rightarrow> string pattern" where
  "p_opt f = p_alt f (\<lambda>s. [([], s)])"

text \<open>A group whose text is dropped before one that is kept, and the other way round.\<close>

definition p_skip :: "string pattern \<Rightarrow> 'a pattern \<Rightarrow> 'a pattern" where
  "p_skip f g s = concat (map (\<lambda>(a, r). g r) (f s))"

definition p_keep :: "'a pattern \<Rightarrow> string pattern \<Rightarrow> 'a pattern" where
  "p_keep f g s = concat (map (\<lambda>(a, r). map (\<lambda>(b, t). (a, t)) (g r)) (f s))"

text \<open>\<open>\w\<close>, and \<open>\b\<close> after a word.\<close>

definition word_char :: "char \<Rightarrow> bool" where
  "word_char c =
     (let n = (of_char c :: int)
      in 48 \<le> n \<and> n \<le> 57 \<or> 65 \<le> n \<and> n \<le> 90 \<or> 97 \<le> n \<and> n \<le> 122 \<or> n = 95
         \<or> n \<in> {0xAA, 0xB2, 0xB3, 0xB5, 0xB9, 0xBA, 0xBC, 0xBD, 0xBE} \<or> 192 \<le> n \<and> n \<noteq> 215 \<and> n \<noteq> 247)"

definition p_word_end :: "string pattern" where
  "p_word_end s = (case s of [] \<Rightarrow> [([], [])] | c # r \<Rightarrow> if word_char c then [] else [([], s)])"

definition blanks0 :: "string pattern" where "blanks0 = p_many is_blank"
definition blanks1 :: "string pattern" where "blanks1 = p_some is_blank"

text \<open>The words of a statement, with blanks after each.\<close>

fun p_words :: "string list \<Rightarrow> string pattern" where
  "p_words [] = (\<lambda>s. [([], s)])"
| "p_words (w # ws) = p_seq (p_text w) (p_seq blanks1 (p_words ws))"

definition matches :: "'a pattern \<Rightarrow> string \<Rightarrow> 'a option" where
  "matches f s = (case f s of [] \<Rightarrow> None | (a, r) # _ \<Rightarrow> Some a)"


section \<open>Names\<close>

definition ident_start :: "char \<Rightarrow> bool" where
  "ident_start c = (let n = (of_char c :: int) in 65 \<le> n \<and> n \<le> 90 \<or> 97 \<le> n \<and> n \<le> 122 \<or> n = 95)"

definition ident_char :: "char \<Rightarrow> bool" where
  "ident_char c = (let n = (of_char c :: int) in ident_start c \<or> 48 \<le> n \<and> n \<le> 57 \<or> n = 36)"

definition p_ident :: "string pattern" where
  "p_ident = p_alt (p_seq (p_text [CHR 0x22]) (p_seq (p_some (\<lambda>c. c \<noteq> CHR 0x22)) (p_text [CHR 0x22])))
                   (p_seq (p_char ident_start) (p_many ident_char))"

definition p_qualified :: "string pattern" where
  "p_qualified = p_seq (p_opt (p_seq p_ident (p_seq blanks0 (p_seq (p_text ''.'') blanks0)))) p_ident"

text \<open>\<open>re.sub(r"\s*\.\s*", ".", name)\<close> and \<open>name.split(".")\<close>.\<close>

function squeeze_dots :: "string \<Rightarrow> string" where
  "squeeze_dots [] = []"
| "squeeze_dots (c # s) =
     (case dropWhile is_blank (c # s) of
        [] \<Rightarrow> c # squeeze_dots s
      | d # r \<Rightarrow> if d = CHR ''.'' then CHR ''.'' # squeeze_dots (dropWhile is_blank r) else c # squeeze_dots s)"
  by pat_completeness auto
termination
proof (relation "measure length", goal_cases)
  case (3 c s d r)
  then have "length (d # r) \<le> length (c # s)" by (metis length_dropWhile_le)
  then show ?case using length_dropWhile_le [of is_blank r] by simp
qed simp_all

fun split_dots :: "string \<Rightarrow> string list" where
  "split_dots [] = [[]]"
| "split_dots (c # s) =
     (if c = CHR ''.'' then [] # split_dots s
      else case split_dots s of [] \<Rightarrow> [[c]] | p # ps \<Rightarrow> (c # p) # ps)"

definition normalize :: "string \<Rightarrow> string" where
  "normalize name =
     join_with ''.'' (map (\<lambda>p. if starts_with [CHR 0x22] p then p else lower p) (split_dots (squeeze_dots (strip name))))"


section \<open>Classifying a statement\<close>

datatype verb = INSERT_VALUES | WRITE | READ | RENAME | CREATE_TABLE | CREATE_VIEW | DROP | OPAQUE

datatype effect = Effect (effect_verb: verb) (effect_targets: "string list") (renamed_to: "string option")

definition may_read :: "effect \<Rightarrow> bool" where
  "may_read e \<longleftrightarrow> effect_verb e \<noteq> INSERT_VALUES"

text \<open>Blanks, line comments and block comments at the start.\<close>

fun after_line :: "string \<Rightarrow> string option" where
  "after_line [] = None"
| "after_line (c # s) = (if c = newline then Some s else after_line s)"

fun after_block :: "string \<Rightarrow> string option" where
  "after_block s = (if starts_with ''*/'' s then Some (drop 2 s) else case s of [] \<Rightarrow> None | c # r \<Rightarrow> after_block r)"

declare after_block.simps [simp del]

lemma after_line_shorter: "after_line s = Some r \<Longrightarrow> length r < length s"
  by (induction s) (auto split: if_splits)

lemma after_block_shorter: "after_block s = Some r \<Longrightarrow> length r < length s"
proof (induction s rule: after_block.induct)
  case (1 s)
  show ?case
  proof (cases "starts_with ''*/'' s")
    case True
    then have "length s \<ge> 2" by (auto simp: starts_with_def dest: arg_cong [of _ _ length])
    then show ?thesis using 1 True by (auto simp: after_block.simps [of s])
  next
    case False
    with 1 obtain c t where "s = c # t" "after_block t = Some r" by (auto simp: after_block.simps [of s] split: list.splits)
    with "1.IH" [OF False] have "length r < length t" by simp
    with \<open>s = c # t\<close> show ?thesis by simp
  qed
qed

function strip_noise :: "string \<Rightarrow> string" where
  "strip_noise s =
     (case s of
        [] \<Rightarrow> []
      | c # r \<Rightarrow>
          if is_blank c then strip_noise r
          else if starts_with ''--'' s then (case after_line (drop 2 s) of None \<Rightarrow> s | Some t \<Rightarrow> strip_noise t)
          else if starts_with ''/*'' s then (case after_block (drop 2 s) of None \<Rightarrow> s | Some t \<Rightarrow> strip_noise t)
          else s)"
  by pat_completeness auto
termination
  by (relation "measure length") (auto dest!: after_line_shorter after_block_shorter)

declare strip_noise.simps [simp del]

definition bare_statement :: "string \<Rightarrow> string" where
  "bare_statement sql = strip (rstrip_chars (\<lambda>c. c = CHR '';'') (strip (strip_noise sql)))"

definition p_if_exists :: "string list \<Rightarrow> string pattern" where
  "p_if_exists ws = p_opt (p_words ws)"

definition p_insert :: "string pattern" where
  "p_insert = p_skip (p_words [''INSERT'', ''INTO'']) p_qualified"

definition p_insert_values :: "string pattern" where
  "p_insert_values =
     p_skip (p_words [''INSERT'', ''INTO'']) (p_keep p_qualified
       (p_seq blanks0 (p_seq (p_opt (p_seq (p_text ''('') (p_seq (p_many (\<lambda>c. c \<noteq> CHR ''('' \<and> c \<noteq> CHR '')''))
         (p_seq (p_text '')'') blanks0)))) (p_seq (p_text ''VALUES'') p_word_end))))"

definition p_update :: "string pattern" where
  "p_update = p_skip (p_words [''UPDATE'']) p_qualified"

definition p_delete :: "string pattern" where
  "p_delete = p_skip (p_words [''DELETE'', ''FROM'']) p_qualified"

definition p_copy_from :: "string pattern" where
  "p_copy_from = p_skip (p_words [''COPY'']) (p_keep p_qualified (p_seq blanks1 (p_seq (p_text ''FROM'') p_word_end)))"

definition p_rename :: "(string \<times> string) pattern" where
  "p_rename s =
     concat (map (\<lambda>(t, r). map (\<lambda>(to, rest). ((t, to), rest)) (p_skip blanks1 (p_skip (p_words [''RENAME'', ''TO'']) p_qualified) r))
       (p_skip (p_words [''ALTER'', ''TABLE'']) p_qualified s))"

definition p_create_table :: "string pattern" where
  "p_create_table = p_skip (p_words [''CREATE'', ''TABLE'']) (p_skip (p_if_exists [''IF'', ''NOT'', ''EXISTS'']) p_qualified)"

definition p_create_view :: "string pattern" where
  "p_create_view =
     p_skip (p_words [''CREATE'']) (p_skip (p_opt (p_words [''OR'', ''REPLACE''])) (p_skip (p_words [''VIEW'']) p_qualified))"

definition p_drop :: "string pattern" where
  "p_drop =
     p_skip (p_words [''DROP'']) (p_skip (p_seq (p_alt (p_text ''TABLE'') (p_text ''VIEW'')) blanks1)
       (p_skip (p_if_exists [''IF'', ''EXISTS'']) p_qualified))"

definition p_ctas :: "string pattern" where
  "p_ctas = p_keep p_create_table (p_seq blanks1 (p_seq (p_text ''AS'') p_word_end))"

definition read_words :: "string list" where
  "read_words = [''SELECT'', ''WITH'', ''SHOW'', ''EXPLAIN'', ''ANALYZE'', ''REFRESH'', ''SET'', ''RESET'', ''BEGIN'',
     ''COMMIT'', ''ROLLBACK'', ''DEALLOCATE'']"

definition p_read_only :: "string pattern" where
  "p_read_only s = concat (map (\<lambda>w. p_seq (p_text w) p_word_end s) read_words)"

definition classify :: "string \<Rightarrow> effect" where
  "classify sql =
     (let s = bare_statement sql in
      if s = [] then Effect READ [] None
      else case matches p_rename s of Some (t, to) \<Rightarrow> Effect RENAME [normalize t] (Some (normalize to)) | None \<Rightarrow>
      case matches p_create_view s of Some t \<Rightarrow> Effect CREATE_VIEW [normalize t] None | None \<Rightarrow>
      case matches p_ctas s of Some t \<Rightarrow> Effect WRITE [normalize (the (matches p_create_table s))] None | None \<Rightarrow>
      case matches p_create_table s of Some t \<Rightarrow> Effect CREATE_TABLE [normalize t] None | None \<Rightarrow>
      case matches p_drop s of Some t \<Rightarrow> Effect DROP [normalize t] None | None \<Rightarrow>
      case matches p_insert s of
        Some t \<Rightarrow> Effect (if matches p_insert_values s = None then WRITE else INSERT_VALUES) [normalize t] None | None \<Rightarrow>
      case matches p_update s of Some t \<Rightarrow> Effect WRITE [normalize t] None | None \<Rightarrow>
      case matches p_delete s of Some t \<Rightarrow> Effect WRITE [normalize t] None | None \<Rightarrow>
      case matches p_copy_from s of Some t \<Rightarrow> Effect WRITE [normalize t] None | None \<Rightarrow>
      if matches p_read_only s = None then Effect OPAQUE [] None else Effect READ [] None)"


section \<open>The fence\<close>

record fence =
  fence_tables :: "string set"
  fence_views :: "string set"
  dirty :: "string set"

definition new_fence :: fence where
  "new_fence = \<lparr>fence_tables = {}, fence_views = {}, dirty = {}\<rparr>"

definition refresh_sql :: "string \<Rightarrow> string" where
  "refresh_sql t = ''REFRESH TABLE '' @ t"

definition before :: "fence \<Rightarrow> string \<Rightarrow> string list" where
  "before f sql =
     (if \<not> may_read (classify sql) \<or> dirty f = {} then [] else map refresh_sql (sorted_list_of_set (dirty f)))"

definition after :: "fence \<Rightarrow> string \<Rightarrow> fence" where
  "after f sql =
     (let e = classify sql; targets = set (effect_targets e) in
      case effect_verb e of
        INSERT_VALUES \<Rightarrow> f\<lparr>fence_tables := fence_tables f \<union> (targets - fence_views f), dirty := dirty f \<union> (targets - fence_views f)\<rparr>
      | WRITE \<Rightarrow> f\<lparr>fence_tables := fence_tables f \<union> (targets - fence_views f), dirty := dirty f \<union> (targets - fence_views f)\<rparr>
      | RENAME \<Rightarrow> f\<lparr>dirty := dirty f - targets, fence_tables := (fence_tables f - targets) \<union> set_option (renamed_to e)\<rparr>
      | CREATE_TABLE \<Rightarrow> f\<lparr>fence_tables := fence_tables f \<union> targets\<rparr>
      | CREATE_VIEW \<Rightarrow> f\<lparr>fence_views := fence_views f \<union> targets, fence_tables := fence_tables f - targets\<rparr>
      | DROP \<Rightarrow> f\<lparr>fence_tables := fence_tables f - targets, fence_views := fence_views f - targets, dirty := dirty f - targets\<rparr>
      | OPAQUE \<Rightarrow> f\<lparr>dirty := dirty f \<union> fence_tables f\<rparr>
      | READ \<Rightarrow> f)"

definition flushed :: "fence \<Rightarrow> fence" where
  "flushed f = f\<lparr>dirty := {}\<rparr>"

definition paranoid_before :: "fence \<Rightarrow> string list" where
  "paranoid_before f = map refresh_sql (sorted_list_of_set (fence_tables f))"


section \<open>The connection\<close>

text \<open>What the server answers: done, undefined table (\<open>42P01\<close>), any other error.  The server is a parameter.\<close>

datatype reply = Done | Undefined | Failed

type_synonym sent = "string \<times> reply"
type_synonym 'w server = "string \<Rightarrow> 'w \<Rightarrow> reply \<times> 'w"

fun send_refreshes :: "'w server \<Rightarrow> string list \<Rightarrow> 'w \<Rightarrow> bool \<times> sent list \<times> 'w" where
  "send_refreshes server [] w = (True, [], w)"
| "send_refreshes server (s # ss) w =
     (case server s w of (r, w') \<Rightarrow>
        if r = Failed then (False, [(s, r)], w')
        else (case send_refreshes server ss w' of (ok, tr, w'') \<Rightarrow> (ok, (s, r) # tr, w'')))"

definition refreshes :: "fence \<Rightarrow> string \<Rightarrow> string list" where
  "refreshes f sql =
     (if may_read (classify sql) \<and> paranoid_before f \<noteq> [] then paranoid_before f else before f sql)"

definition run_fence :: "'w server \<Rightarrow> string \<Rightarrow> fence \<Rightarrow> 'w \<Rightarrow> bool \<times> fence \<times> sent list \<times> 'w" where
  "run_fence server sql f w =
     (case send_refreshes server (refreshes f sql) w of (ok, tr, w') \<Rightarrow>
        (ok, if ok \<and> refreshes f sql \<noteq> [] then flushed f else f, tr, w'))"

definition execute :: "'w server \<Rightarrow> string \<Rightarrow> fence \<Rightarrow> 'w \<Rightarrow> bool \<times> fence \<times> sent list \<times> 'w" where
  "execute server sql f w =
     (case run_fence server sql f w of (ok, f', tr, w') \<Rightarrow>
        if \<not> ok then (False, f', tr, w')
        else (case server sql w' of (r, w'') \<Rightarrow>
          if r = Done then (True, after f' sql, tr @ [(sql, r)], w'') else (False, f', tr @ [(sql, r)], w'')))"

text \<open>The statements of a client, who goes on after an error, and everything that was sent.\<close>

fun session :: "'w server \<Rightarrow> string list \<Rightarrow> fence \<Rightarrow> 'w \<Rightarrow> fence \<times> sent list \<times> 'w" where
  "session server [] f w = (f, [], w)"
| "session server (s # ss) f w =
     (case execute server s f w of (ok, f', tr, w') \<Rightarrow>
        (case session server ss f' w' of (f'', tr', w'') \<Rightarrow> (f'', tr @ tr', w'')))"


section \<open>What the server has not shown yet\<close>

text \<open>
  The specification looks at the trace of the connection alone: the tables that were created or written, and
  those with rows no reader sees yet.  A write hides its rows, a refresh of the table shows them (a table the server
  does not know has none), a dropped table has none, a renamed one takes them along, and a statement nobody
  understands may have written any table.
\<close>

fun sent_effect :: "sent \<Rightarrow> string set \<times> string set \<Rightarrow> string set \<times> string set" where
  "sent_effect (sql, r) (known, hidden) =
     (let hidden' = {t \<in> hidden. refresh_sql t \<noteq> sql}; e = classify sql; targets = set (effect_targets e) in
      if r = Failed then (known, hidden)
      else if r = Undefined then (known, hidden')
      else case effect_verb e of
        INSERT_VALUES \<Rightarrow> (known \<union> targets, hidden' \<union> targets)
      | WRITE \<Rightarrow> (known \<union> targets, hidden' \<union> targets)
      | RENAME \<Rightarrow> ((known - targets) \<union> set_option (renamed_to e),
          (hidden' - targets) \<union> (if hidden' \<inter> targets = {} then {} else set_option (renamed_to e)))
      | CREATE_TABLE \<Rightarrow> (known \<union> targets, hidden')
      | DROP \<Rightarrow> (known - targets, hidden' - targets)
      | OPAQUE \<Rightarrow> (known, hidden' \<union> known)
      | CREATE_VIEW \<Rightarrow> (known, hidden')
      | READ \<Rightarrow> (known, hidden'))"

definition seen_after :: "sent list \<Rightarrow> string set \<times> string set" where
  "seen_after tr = fold sent_effect tr ({}, {})"

definition hidden_after :: "sent list \<Rightarrow> string set" where
  "hidden_after tr = snd (seen_after tr)"

lemma seen_append: "seen_after (tr @ tr') = fold sent_effect tr' (seen_after tr)"
  by (simp add: seen_after_def)


section \<open>The fence covers what is hidden\<close>

text \<open>The fence knows of every table that was written, as a table or as a view, and its sets are finite.\<close>

definition covers :: "fence \<Rightarrow> string set \<times> string set \<Rightarrow> bool" where
  "covers f seen \<longleftrightarrow> fst seen \<subseteq> fence_tables f \<union> fence_views f \<and> snd seen \<subseteq> fence_tables f \<union> fence_views f
     \<and> finite (fence_tables f) \<and> finite (dirty f)"

lemma covers_new: "covers new_fence ({}, {})"
  by (simp add: covers_def new_fence_def)

lemma refresh_inj [simp]: "refresh_sql t = refresh_sql u \<longleftrightarrow> t = u"
  by (simp add: refresh_sql_def)

text \<open>A refresh is classified as a statement that only reads.\<close>

lemma rstrip_keep: "a \<noteq> [] \<Longrightarrow> \<not> p (last a) \<Longrightarrow> rstrip_chars p (a @ u) = a @ rstrip_chars p u"
  by (cases a rule: rev_cases) (auto simp: rstrip_chars_def dropWhile_append)

lemma rstrip_prefix: "\<exists>v. u = rstrip_chars p u @ v"
  by (metis append_Nil append_Nil2 rev_append rev_rev_ident rstrip_chars_def takeWhile_dropWhile_id)

lemma rstrip_head: "rstrip_chars p (c # u) = [] \<or> hd (rstrip_chars p (c # u)) = c"
  using rstrip_prefix [of "c # u" p] by (cases "rstrip_chars p (c # u)") auto

lemma bare_refresh: "\<exists>u. bare_statement (refresh_sql t) = ''REFRESH'' @ u \<and> (u = [] \<or> hd u = CHR '' '')"
proof -
  have noise: "strip_noise (refresh_sql t) = refresh_sql t"
    by (subst strip_noise.simps) (simp add: refresh_sql_def is_blank_def starts_with_def)
  have strip: "strip (''REFRESH'' @ u) = ''REFRESH'' @ rstrip_chars is_blank u" for u
    using rstrip_keep [of "''REFRESH''" is_blank u] by (simp add: strip_def rstrip_def is_blank_def)
  have semi: "rstrip_chars (\<lambda>c. c = CHR '';'') (''REFRESH'' @ u) = ''REFRESH'' @ rstrip_chars (\<lambda>c. c = CHR '';'') u" for u
    using rstrip_keep [of "''REFRESH''" "\<lambda>c. c = CHR '';''" u] by simp
  have blank: "u = [] \<or> hd u = CHR '' '' \<Longrightarrow> rstrip_chars p u = [] \<or> hd (rstrip_chars p u) = CHR '' ''" for p u
    using rstrip_head [of p "CHR '' ''" "tl u"] by (cases u) (auto simp: rstrip_chars_def)
  have words: "refresh_sql t = ''REFRESH'' @ '' TABLE '' @ t" by (simp add: refresh_sql_def)
  have "bare_statement (refresh_sql t) = ''REFRESH'' @ rstrip_chars is_blank (rstrip_chars (\<lambda>c. c = CHR '';'')
      (rstrip_chars is_blank ('' TABLE '' @ t)))"
    unfolding bare_statement_def noise by (simp only: words strip semi)
  moreover have "'' TABLE '' @ t = [] \<or> hd ('' TABLE '' @ t) = CHR '' ''" by simp
  ultimately show ?thesis using blank by blast
qed

lemmas pattern_defs =
  p_rename_def p_create_view_def p_ctas_def p_create_table_def p_drop_def p_insert_def p_update_def p_delete_def
  p_copy_from_def p_skip_def p_keep_def p_seq_def p_alt_def p_text_def matches_def

lemma lower_letters [simp]:
  "lower_char CHR ''R'' = CHR ''r''" "lower_char CHR ''E'' = CHR ''e''" "lower_char CHR ''F'' = CHR ''f''"
  "lower_char CHR ''S'' = CHR ''s''" "lower_char CHR ''H'' = CHR ''h''" "lower_char CHR ''A'' = CHR ''a''"
  "lower_char CHR ''C'' = CHR ''c''" "lower_char CHR ''D'' = CHR ''d''" "lower_char CHR ''I'' = CHR ''i''"
  "lower_char CHR ''U'' = CHR ''u''"
proof -
  have "map lower_char ''REFSHACDIU'' = ''refshacdiu''" by code_simp
  then show "lower_char CHR ''R'' = CHR ''r''" "lower_char CHR ''E'' = CHR ''e''" "lower_char CHR ''F'' = CHR ''f''"
    "lower_char CHR ''S'' = CHR ''s''" "lower_char CHR ''H'' = CHR ''h''" "lower_char CHR ''A'' = CHR ''a''"
    "lower_char CHR ''C'' = CHR ''c''" "lower_char CHR ''D'' = CHR ''d''" "lower_char CHR ''I'' = CHR ''i''"
    "lower_char CHR ''U'' = CHR ''u''" by simp_all
qed

lemma classify_refresh: "classify (refresh_sql t) = Effect READ [] None"
proof -
  obtain u where u: "bare_statement (refresh_sql t) = ''REFRESH'' @ u" "u = [] \<or> hd u = CHR '' ''"
    using bare_refresh by blast
  have none: "matches p_rename (''REFRESH'' @ u) = None" "matches p_create_view (''REFRESH'' @ u) = None"
    "matches p_ctas (''REFRESH'' @ u) = None" "matches p_create_table (''REFRESH'' @ u) = None"
    "matches p_drop (''REFRESH'' @ u) = None" "matches p_insert (''REFRESH'' @ u) = None"
    "matches p_update (''REFRESH'' @ u) = None" "matches p_delete (''REFRESH'' @ u) = None"
    "matches p_copy_from (''REFRESH'' @ u) = None"
    by (simp_all add: pattern_defs)
  have "p_word_end u \<noteq> []" using u(2) by (cases u) (auto simp: p_word_end_def word_char_def)
  then have "p_read_only (''REFRESH'' @ u) \<noteq> []"
    by (simp add: p_read_only_def read_words_def p_seq_def p_text_def)
  then have "matches p_read_only (''REFRESH'' @ u) \<noteq> None" by (auto simp: matches_def split: list.splits)
  then show ?thesis unfolding classify_def Let_def u(1) none by simp
qed

text \<open>Refreshing a list of tables, without an error other than an unknown table, shows them all.\<close>

lemma refresh_seen:
  "r \<noteq> Failed \<Longrightarrow> sent_effect (refresh_sql t, r) seen = (fst seen, snd seen - {t})"
  by (cases seen) (auto simp: Let_def classify_refresh)

lemma send_seen:
  "send_refreshes server (map refresh_sql ts) w = (ok, tr, w') \<Longrightarrow>
     fst (fold sent_effect tr seen) = fst seen \<and> snd (fold sent_effect tr seen) \<subseteq> snd seen
     \<and> (ok \<longrightarrow> snd (fold sent_effect tr seen) = snd seen - set ts)"
proof (induction ts arbitrary: w w' ok tr seen)
  case (Cons t ts)
  obtain r w1 where r: "server (refresh_sql t) w = (r, w1)" by (cases "server (refresh_sql t) w")
  show ?case
  proof (cases "r = Failed")
    case True
    with Cons.prems r show ?thesis by (cases seen) (auto simp: Let_def)
  next
    case False
    obtain ok' tr' w2 where rest: "send_refreshes server (map refresh_sql ts) w1 = (ok', tr', w2)"
      by (cases "send_refreshes server (map refresh_sql ts) w1") auto
    from Cons.IH [OF rest, of "(fst seen, snd seen - {t})"] Cons.prems r False rest show ?thesis
      by (auto simp del: sent_effect.simps simp: refresh_seen)
  qed
qed simp

lemma refreshes_map: "\<exists>ts. refreshes f sql = map refresh_sql ts"
  by (auto simp: refreshes_def paranoid_before_def before_def intro: exI [of _ "[]"])

text \<open>Before a statement that may read, every table the fence knows of has been refreshed.\<close>

lemma fence_run:
  assumes "run_fence server sql f w = (ok, f', tr, w')" "covers f seen"
  shows "covers f' (fold sent_effect tr seen)"
    "ok \<Longrightarrow> may_read (classify sql) \<Longrightarrow> snd (fold sent_effect tr seen) \<subseteq> fence_views f'"
proof -
  obtain ts where ts: "refreshes f sql = map refresh_sql ts" using refreshes_map by blast
  obtain w1 where sent: "send_refreshes server (map refresh_sql ts) w = (ok, tr, w1)"
    and f': "f' = (if ok \<and> refreshes f sql \<noteq> [] then flushed f else f)"
    using assms(1) by (auto simp: run_fence_def ts split: prod.splits)
  note seen = send_seen [OF sent, of seen]
  show "covers f' (fold sent_effect tr seen)" using seen assms(2) by (auto simp: covers_def f' flushed_def)
  assume ok: "ok" "may_read (classify sql)"
  show "snd (fold sent_effect tr seen) \<subseteq> fence_views f'"
  proof (cases "fence_tables f = {}")
    case True
    with assms(2) have "snd seen \<subseteq> fence_views f" by (simp add: covers_def)
    with seen show ?thesis by (auto simp: f' flushed_def)
  next
    case False
    with assms(2) have "refreshes f sql = map refresh_sql (sorted_list_of_set (fence_tables f))"
      using ok(2) by (simp add: refreshes_def paranoid_before_def covers_def)
    moreover have "inj refresh_sql" by (simp add: inj_def)
    ultimately have "ts = sorted_list_of_set (fence_tables f)" using ts by (simp add: inj_map_eq_map)
    with assms(2) have "set ts = fence_tables f" by (simp add: covers_def)
    with seen ok assms(2) show ?thesis by (auto simp: covers_def f' flushed_def)
  qed
qed

lemma covers_effect:
  assumes "covers f seen"
  shows "covers f (sent_effect (sql, Failed) seen)" "covers f (sent_effect (sql, Undefined) seen)"
    "covers (after f sql) (sent_effect (sql, Done) seen)"
proof -
  obtain known hidden where seen: "seen = (known, hidden)" by (cases seen)
  show "covers f (sent_effect (sql, Failed) seen)" using assms by (simp add: seen)
  show "covers f (sent_effect (sql, Undefined) seen)" using assms by (auto simp: seen covers_def Let_def)
  show "covers (after f sql) (sent_effect (sql, Done) seen)"
  proof (cases "effect_verb (classify sql)")
    case RENAME
    with assms show ?thesis by (auto simp: seen after_def covers_def Let_def split: if_splits)
  qed (use assms in \<open>auto simp: seen after_def covers_def Let_def\<close>)
qed

text \<open>The names a list of statements uses for tables, and for views.\<close>

definition table_names :: "string list \<Rightarrow> string set" where
  "table_names sqls = (\<Union>s \<in> set sqls. (let e = classify s in
     (if effect_verb e \<in> {INSERT_VALUES, WRITE, CREATE_TABLE} then set (effect_targets e) else {}) \<union> set_option (renamed_to e)))"

definition view_names :: "string list \<Rightarrow> string set" where
  "view_names sqls = (\<Union>s \<in> set sqls. if effect_verb (classify s) = CREATE_VIEW then set (effect_targets (classify s)) else {})"

definition within :: "string set \<Rightarrow> string set \<Rightarrow> fence \<Rightarrow> string set \<times> string set \<Rightarrow> bool" where
  "within T V f seen \<longleftrightarrow> fst seen \<union> snd seen \<subseteq> T \<and> fence_views f \<subseteq> V"

lemma within_effect:
  assumes "within T V f seen" "table_names [sql] \<subseteq> T" "view_names [sql] \<subseteq> V"
  shows "within T V f (sent_effect (sql, Failed) seen)" "within T V f (sent_effect (sql, Undefined) seen)"
    "within T V (after f sql) (sent_effect (sql, Done) seen)"
proof -
  obtain known hidden where seen: "seen = (known, hidden)" by (cases seen)
  show "within T V f (sent_effect (sql, Failed) seen)" using assms by (simp add: seen)
  show "within T V f (sent_effect (sql, Undefined) seen)" using assms by (auto simp: seen within_def Let_def)
  show "within T V (after f sql) (sent_effect (sql, Done) seen)"
    using assms by (cases "effect_verb (classify sql)")
      (auto simp: seen after_def within_def table_names_def view_names_def Let_def split: if_splits)
qed

lemma within_refreshed:
  assumes "run_fence server sql f w = (ok, f', tr, w')" "within T V f seen"
  shows "within T V f' (fold sent_effect tr seen)"
proof -
  obtain ts where ts: "refreshes f sql = map refresh_sql ts" using refreshes_map by blast
  obtain w1 where "send_refreshes server (map refresh_sql ts) w = (ok, tr, w1)" "fence_views f' = fence_views f"
    using assms(1) by (auto simp: run_fence_def ts flushed_def split: prod.splits)
  with send_seen [of server ts w ok tr w1 seen] assms(2) show ?thesis by (auto simp: within_def)
qed

lemma execute_invariant:
  assumes "execute server sql f w = (ok, f', tr, w')" "covers f seen" "within T V f seen"
    and "table_names [sql] \<subseteq> T" "view_names [sql] \<subseteq> V"
  shows "covers f' (fold sent_effect tr seen) \<and> within T V f' (fold sent_effect tr seen)"
proof -
  obtain b f1 tr1 w1 where run: "run_fence server sql f w = (b, f1, tr1, w1)" by (cases "run_fence server sql f w")
  note inv = fence_run(1) [OF run assms(2)] within_refreshed [OF run assms(3)]
  obtain r w2 where r: "server sql w1 = (r, w2)" by (cases "server sql w1")
  show ?thesis
  proof (cases b)
    case True
    with run r assms(1) have "tr = tr1 @ [(sql, r)]" "f' = (if r = Done then after f1 sql else f1)"
      by (auto simp: execute_def split: if_splits)
    then show ?thesis using covers_effect [OF inv(1), of sql] within_effect [OF inv(2) assms(4,5)]
      by (cases r) simp_all
  next
    case False
    with run assms(1) inv show ?thesis by (auto simp: execute_def)
  qed
qed

lemma session_invariant:
  "session server sqls f w = (f', tr, w') \<Longrightarrow> covers f seen \<Longrightarrow> within T V f seen \<Longrightarrow> table_names sqls \<subseteq> T \<Longrightarrow>
     view_names sqls \<subseteq> V \<Longrightarrow> covers f' (fold sent_effect tr seen) \<and> within T V f' (fold sent_effect tr seen)"
proof (induction sqls arbitrary: f w f' tr w' seen)
  case (Cons s sqls)
  obtain ok f1 tr1 w1 where one: "execute server s f w = (ok, f1, tr1, w1)" by (cases "execute server s f w")
  obtain f2 tr2 w2 where rest: "session server sqls f1 w1 = (f2, tr2, w2)" by (cases "session server sqls f1 w1")
  have names: "table_names [s] \<subseteq> T" "view_names [s] \<subseteq> V" "table_names sqls \<subseteq> T" "view_names sqls \<subseteq> V"
    using Cons.prems(4,5) by (auto simp: table_names_def view_names_def)
  note inv = execute_invariant [OF one Cons.prems(2,3) names(1,2)]
  have "f' = f2 \<and> tr = tr1 @ tr2" using Cons.prems(1) one rest by simp
  with Cons.IH [OF rest inv [THEN conjunct1] inv [THEN conjunct2] names(3,4)] show ?case by simp
qed simp

text \<open>After any session, a statement that may read finds no hidden row.\<close>

lemma fence_shows:
  assumes "session server sqls new_fence w = (f, tr, w1)" "run_fence server sql f w1 = (True, f', tr', w2)"
    and "may_read (classify sql)"
  shows "hidden_after (tr @ tr') \<subseteq> table_names sqls \<inter> view_names sqls"
proof -
  have "covers new_fence ({}, {})" "within (table_names sqls) (view_names sqls) new_fence ({}, {})"
    by (rule covers_new, simp add: within_def new_fence_def)
  from session_invariant [OF assms(1) this] have inv: "covers f (seen_after tr)"
    "within (table_names sqls) (view_names sqls) f (seen_after tr)" by (simp_all add: seen_after_def)
  have "snd (fold sent_effect tr' (seen_after tr)) \<subseteq> fence_views f'" by (rule fence_run(2) [OF assms(2) inv(1) TrueI assms(3)])
  with within_refreshed [OF assms(2) inv(2)] show ?thesis by (auto simp: hidden_after_def seen_append within_def)
qed


section \<open>Names that end in \<open>values\<close>\<close>

text \<open>
  The pattern for \<open>INSERT \<dots> VALUES\<close> may give back the end of a table's name: it then reads a statement that copies
  rows into a table whose name ends in \<open>values\<close> as one that only adds given rows.
\<close>

lemma p_seqI: "(a, r) \<in> set (f s) \<Longrightarrow> (b, t) \<in> set (g r) \<Longrightarrow> (a @ b, t) \<in> set (p_seq f g s)"
  by (force simp: p_seq_def)

lemma p_skipI: "(a, r) \<in> set (f s) \<Longrightarrow> x \<in> set (g r) \<Longrightarrow> x \<in> set (p_skip f g s)"
  by (force simp: p_skip_def)

lemma p_keepI: "(a, r) \<in> set (f s) \<Longrightarrow> (b, t) \<in> set (g r) \<Longrightarrow> (a, t) \<in> set (p_keep f g s)"
  by (force simp: p_keep_def)

lemma p_opt_none: "([], s) \<in> set (p_opt f s)"
  by (simp add: p_opt_def p_alt_def)

lemma matches_some: "x \<in> set (f s) \<Longrightarrow> \<exists>n. matches f s = Some n"
  by (cases "f s") (auto simp: matches_def split: prod.splits)

lemma p_textI: "lower v = lower w \<Longrightarrow> (v, t) \<in> set (p_text w (v @ t))"
  using map_eq_imp_length_eq [of lower_char v lower_char w] by (simp add: p_text_def lower_def)

lemma p_many_prefix: "list_all p a \<Longrightarrow> (a, r) \<in> set (p_many p (a @ r))"
proof (induction a)
  case Nil
  show ?case by (cases r) simp_all
qed force

lemma p_some_prefix: "list_all p a \<Longrightarrow> a \<noteq> [] \<Longrightarrow> (a, r) \<in> set (p_some p (a @ r))"
  using p_many_prefix [of p a r] by (simp add: p_some_def)

lemma p_identI: "ident_start c \<Longrightarrow> list_all ident_char cs \<Longrightarrow> (c # cs, r) \<in> set (p_ident (c # cs @ r))"
  using p_seqI [of "[c]" "cs @ r" "p_char ident_start" "c # cs @ r" cs r "p_many ident_char"] p_many_prefix [of ident_char cs r]
  by (simp add: p_ident_def p_alt_def p_char_def)

lemma p_qualifiedI: "(a, r) \<in> set (p_ident s) \<Longrightarrow> (a, r) \<in> set (p_qualified s)"
proof -
  assume "(a, r) \<in> set (p_ident s)"
  then have "([] @ a, r) \<in> set (p_qualified s)" unfolding p_qualified_def by (rule p_seqI [rotated]) (rule p_opt_none)
  then show ?thesis by simp
qed

lemma p_other_word: "lower_char x \<noteq> lower_char y \<Longrightarrow> p_text (x # w) (y # s) = []"
  by (simp add: p_text_def)

lemma insert_into: "(''INSERT INTO '', r) \<in> set (p_words [''INSERT'', ''INTO''] (''INSERT INTO '' @ r))"
proof -
  have blank: "('' '', t) \<in> set (blanks1 ('' '' @ t))" for t
    unfolding blanks1_def by (rule p_some_prefix) (simp_all add: is_blank_def)
  have "(''INSERT'' @ '' '' @ ''INTO'' @ '' '' @ [], r) \<in> set (p_words [''INSERT'', ''INTO''] (''INSERT'' @ '' '' @ ''INTO'' @ '' '' @ r))"
    unfolding p_words.simps
    by (rule p_seqI, rule p_textI, rule refl, rule p_seqI, rule blank, rule p_seqI, rule p_textI, rule refl, rule p_seqI, rule blank, simp)
  then show ?thesis by simp
qed

lemma rstrip_chars_keep: "a \<noteq> [] \<Longrightarrow> \<not> p (last a) \<Longrightarrow> rstrip_chars p (a @ t) = a @ rstrip_chars p t"
proof (induction t rule: rev_induct)
  case Nil
  then show ?case by (cases a rule: rev_cases) (simp_all add: rstrip_chars_def)
qed (simp_all add: rstrip_chars_def flip: append_assoc)

lemma rstrip_chars_head: "rstrip_chars p (c # t) = [] \<or> (\<exists>u. rstrip_chars p (c # t) = c # u)"
proof -
  have "\<exists>k. rstrip_chars p s = take k s" for s
  proof (induction s rule: rev_induct)
    case (snoc x xs)
    then obtain k where "rstrip_chars p xs = take k xs" by blast
    then have "rstrip_chars p (xs @ [x]) = take (if p x then min k (length xs) else Suc (length xs)) (xs @ [x])"
      by (simp add: min_def)
    then show ?case by blast
  qed simp
  then obtain k where "rstrip_chars p (c # t) = take k (c # t)" by blast
  then show ?thesis by (cases k) simp_all
qed

lemma bare_head:
  assumes "a = x # xs" "\<not> is_blank x" "x \<notin> set ''-/''" "\<not> is_blank (last a)" "last a \<noteq> CHR '';''"
  shows "bare_statement (a @ '' '' @ t) = a \<or> (\<exists>u. bare_statement (a @ '' '' @ t) = a @ CHR '' '' # u)"
proof -
  have kept: "rstrip_chars p (a @ u) = a @ rstrip_chars p u" if "p = is_blank \<or> p = (\<lambda>c. c = CHR '';'')" for p u
    using that assms by (intro rstrip_chars_keep) auto
  have front: "dropWhile is_blank (a @ u) = a @ u" for u using assms by simp
  have "strip_noise (a @ '' '' @ t) = a @ '' '' @ t"
    unfolding assms(1) append_Cons by (subst strip_noise.simps) (use assms(2,3) in \<open>simp add: starts_with_def\<close>)
  then have "bare_statement (a @ '' '' @ t) = a @ rstrip_chars is_blank (rstrip_chars (\<lambda>c. c = CHR '';'') (rstrip_chars is_blank (CHR '' '' # t)))"
    by (simp add: bare_statement_def strip_def rstrip_def kept front)
  moreover have "rstrip_chars p u = [] \<or> (\<exists>v. rstrip_chars p u = CHR '' '' # v)" if "u = [] \<or> (\<exists>v. u = CHR '' '' # v)" for p u
    using that by (elim disjE exE) (simp_all add: rstrip_chars_head)
  ultimately show ?thesis by (metis append_Nil2)
qed

lemma values_name:
  assumes "ident_start c" "list_all ident_char cs" "lower v = ''values''"
  shows "effect_verb (classify (''INSERT INTO '' @ c # cs @ v @ '' '' @ query)) = INSERT_VALUES"
proof -
  let ?a = "''INSERT INTO '' @ c # cs @ v"
  have v: "v \<noteq> []" "lower_char (last v) = CHR ''s''"
    using assms(3) by (cases v rule: rev_cases; auto simp: lower_def)+
  have "\<not> is_blank (last v)" "last v \<noteq> CHR '';''"
    using v(2) by (auto simp: is_blank_def lower_char_def)
  then have "bare_statement (?a @ '' '' @ query) = ?a \<or> (\<exists>u. bare_statement (?a @ '' '' @ query) = ?a @ CHR '' '' # u)"
    using v(1) by (intro bare_head [of ?a "CHR ''I''"]) (simp_all add: is_blank_def)
  then obtain t where bare: "bare_statement (?a @ '' '' @ query) = ?a @ t" and t: "t = [] \<or> (\<exists>u. t = CHR '' '' # u)"
    by (metis append_Nil2)
  let ?s = "''INSERT INTO '' @ c # cs @ v @ t"
  have name: "(c # cs, v @ t) \<in> set (p_qualified (c # cs @ v @ t))"
    by (intro p_qualifiedI p_identI [OF assms(1,2), of "v @ t"])
  have "lower v = lower ''VALUES''" unfolding assms(3) by code_simp
  from p_textI [OF this, of t] have word: "(v, t) \<in> set (p_text ''VALUES'' (v @ t))" .
  have stop: "([], t) \<in> set (p_word_end t)" using t by (auto simp: p_word_end_def word_char_def Let_def)
  have blank: "([], v @ t) \<in> set (blanks0 (v @ t))"
    unfolding blanks0_def using p_many_prefix [of is_blank "[]"] by simp
  have "(c # cs, t) \<in> set (p_insert_values ?s)"
    unfolding p_insert_values_def
    by (rule p_skipI, rule insert_into, rule p_keepI, rule name, rule p_seqI, rule blank, rule p_seqI, rule p_opt_none, rule p_seqI,
        rule word, rule stop)
  then have given: "matches p_insert_values ?s \<noteq> None" using matches_some by blast
  have "(c # cs, v @ t) \<in> set (p_insert ?s)" unfolding p_insert_def by (rule p_skipI, rule insert_into, rule name)
  then obtain n where insert: "matches p_insert ?s = Some n" using matches_some by blast
  have heads: "lower_char CHR ''I'' = CHR ''i''" "lower_char CHR ''A'' = CHR ''a''" "lower_char CHR ''C'' = CHR ''c''"
      "lower_char CHR ''D'' = CHR ''d''" by code_simp+
  have "p_rename ?s = []" "p_create_view ?s = []" "p_ctas ?s = []" "p_create_table ?s = []" "p_drop ?s = []"
    by (simp_all add: p_rename_def p_create_view_def p_ctas_def p_create_table_def p_drop_def p_skip_def p_keep_def p_seq_def
        p_other_word heads)
  then have none: "matches p_rename ?s = None" "matches p_create_view ?s = None" "matches p_ctas ?s = None"
      "matches p_create_table ?s = None" "matches p_drop ?s = None"
    by (simp_all only: matches_def list.case)
  have "bare_statement (''INSERT INTO '' @ c # cs @ v @ '' '' @ query) = ?s" "?s \<noteq> []" using bare by simp_all
  then show ?thesis unfolding classify_def Let_def
    by (simp only: none insert given option.case if_False effect.sel)
qed


section \<open>A server that answers everything\<close>

definition willing :: "unit server" where
  "willing sql w = (Done, w)"

text \<open>A write it has done is hidden until its table is refreshed.\<close>

lemma insert_session:
  "session willing [''INSERT INTO u SELECT 1''] new_fence () = (new_fence\<lparr>fence_tables := {''u''}, dirty := {''u''}\<rparr>, [(''INSERT INTO u SELECT 1'', Done)], ())"
proof -
  have "classify ''INSERT INTO u SELECT 1'' = Effect WRITE [''u''] None" by code_simp
  then show ?thesis
    by (simp add: execute_def run_fence_def refreshes_def paranoid_before_def before_def willing_def new_fence_def after_def Let_def)
qed

end
