(* ===== verification/Coa_Native_Sample.thy ===== *)
theory Coa_Native_Sample
  imports Coa_Native_Run Coa_Fence
begin

text \<open>
  Concrete inputs for the fence and for the builders of the dialects: a session with one hidden write, and a run of any
  accepting builder on the sample table, at the depth the factory calls it.
\<close>


lemma fence_example:
  "session willing [''INSERT INTO u SELECT 1''] new_fence () = (new_fence\<lparr>fence_tables := {''u''}, dirty := {''u''}\<rparr>, [(''INSERT INTO u SELECT 1'', Done)], ())"
  "run_fence willing ''SELECT a FROM u'' (new_fence\<lparr>fence_tables := {''u''}, dirty := {''u''}\<rparr>) ()
    = (True, new_fence\<lparr>fence_tables := {''u''}\<rparr>, [(''REFRESH TABLE u'', Done)], ())"
  "may_read (classify ''SELECT a FROM u'')" "table_names [''INSERT INTO u SELECT 1''] \<inter> view_names [''INSERT INTO u SELECT 1''] = {}"
proof -
  show "session willing [''INSERT INTO u SELECT 1''] new_fence () = (new_fence\<lparr>fence_tables := {''u''}, dirty := {''u''}\<rparr>, [(''INSERT INTO u SELECT 1'', Done)], ())"
    by (rule insert_session)
  have verbs: "classify ''SELECT a FROM u'' = Effect READ [] None" "classify ''INSERT INTO u SELECT 1'' = Effect WRITE [''u''] None" by code_simp+
  then show "may_read (classify ''SELECT a FROM u'')" "table_names [''INSERT INTO u SELECT 1''] \<inter> view_names [''INSERT INTO u SELECT 1''] = {}"
    by (simp_all add: may_read_def view_names_def)
  show "run_fence willing ''SELECT a FROM u'' (new_fence\<lparr>fence_tables := {''u''}, dirty := {''u''}\<rparr>) ()
    = (True, new_fence\<lparr>fence_tables := {''u''}\<rparr>, [(''REFRESH TABLE u'', Done)], ())"
    by (simp add: run_fence_def refreshes_def paranoid_before_def verbs may_read_def willing_def refresh_sql_def flushed_def new_fence_def)
qed

lemma sample_clear: "clear_names sample_env ''eq_name''" "base_unminted sample_env"
proof -
  have "hd c = CHR ''o''" if "c \<in> minted sample_env" for c
    using that by (auto simp: minted_def sample_simps orders_def)
  moreover have "get_sql_name (base_table sample_env) True = ''orders__base''" by (simp add: sample_simps orders_def get_sql_name_def)
  ultimately have "clear_name sample_env c" if "hd c \<noteq> CHR ''o''" for c
    unfolding clear_name_def using that by fastforce
  then show "clear_names sample_env ''eq_name''"
    by (simp add: clear_names_def native_suffixes_def only_def derived_def)
  show "base_unminted sample_env" by (rule sample_names)
qed

lemma sample_native:
  assumes "\<And>q. get_signature q = table_signature orders \<Longrightarrow> f q \<noteq> None"
    and "\<And>a body r s. materialized_name body = Some r \<Longrightarrow> \<exists>x s'. alter a sample_env body (Some nm) s = Inr (Some x, s')"
  shows "\<exists>x s'. native_build (Some c) (look f) alter (build_subtree PORTABLE_BUILDERS 7 sample_env) sample_env [ExposedNameConstraint nm]
    (start_state\<lparr>depth := 1\<rparr>) = Inr (Some x, s')"
  by (rule native_returned) (use assms in \<open>simp_all add: sample_always_builds sample_env_ok start_state_def\<close>)

end
