(* ===== verification/Coa_Postgres.thy ===== *)
theory Coa_Postgres
  imports Coa_Native_Forms Coa_Mysql
begin

text \<open>
  The builders only PostgreSQL has: \<open>dialects/postgres/ast.py\<close>, the materializing builders of \<open>builders.py\<close>, and the object
  visits of \<open>dialects/postgres/emitter.py\<close>.  Whether an access method takes the type of a column is not looked at.
  \<open>PostgresUnloggedTableBuilder\<close> is \<open>create_as\<close> with the portable class \<open>CreateUnloggedTable\<close>.
\<close>


section \<open>Objects\<close>

datatype postgres_index_method = BTREE | HASH | BRIN | GIN | GIST

fun index_method_sql :: "postgres_index_method \<Rightarrow> string" where
  "index_method_sql BTREE = ''btree''"
| "index_method_sql HASH = ''hash''"
| "index_method_sql BRIN = ''brin''"
| "index_method_sql GIN = ''gin''"
| "index_method_sql GIST = ''gist''"

datatype postgres_object =
    PostgresIndexObject string string string "string list" postgres_index_method string "string option" "string option" "string list"
  | PostgresPrimaryKeyObject string string "string list" string
  | PostgresMergeUpsertObject string string string "string list" string
  | PostgresGeneratedColumnObject string string "string list" string string string
  | PostgresLegacyInheritanceObject string string string "string list"
  | PostgresDomainColumnObject string string "string list" string string string
  | PostgresSecurityBarrierViewObject string eqnode
  | PostgresExtendedStatisticsObject string string string "string list" "string list"
  | PostgresPartitionedTableObject string string string "string list" string int
  | PostgresParallelToggleObject string string "string list"

text \<open>What a guard found in the query: the arguments of the \<open>build\<close> methods.\<close>

datatype postgres_spec =
    CreateIndex postgres_index_method string "string option" "string option" "string list" "string list"
  | CreatePrimaryKey string "string list"
  | MergeUpsert string "string list"
  | GeneratedColumn string string "string list"
  | LegacyInheritance "string list"
  | DomainColumn string string "string list"
  | SecurityBarrierView
  | ExtendedStatistics "string list" "string list"
  | PartitionedTable string int "string list"
  | ParallelToggle "string list"

definition minted_object :: "context_env \<Rightarrow> string \<Rightarrow> (string \<Rightarrow> 'o) \<Rightarrow> 'o gen" where
  "minted_object env label mk = gbind (mint env label) (\<lambda>c. greturn (mk c))"

fun postgres_alter :: "(postgres_spec, postgres_object) alter" where
  "postgres_alter (CreateIndex meth target ex pred incl cols) env body given =
     native_make env given body (\<lambda>nm ref. greturn (PostgresIndexObject nm ref (nm @ ''_idx'') cols meth target ex pred incl))"
| "postgres_alter (CreatePrimaryKey target cols) env body given =
     native_make env given body (\<lambda>nm ref. greturn (PostgresPrimaryKeyObject nm ref cols target))"
| "postgres_alter (MergeUpsert pk cols) env body given =
     native_make env given body (\<lambda>nm ref. minted_object env ''merge_src'' (\<lambda>src. PostgresMergeUpsertObject nm ref src cols pk))"
| "postgres_alter (GeneratedColumn target ty cols) env body given =
     native_make env given body (\<lambda>nm ref. greturn (PostgresGeneratedColumnObject nm ref cols target (target @ ''_gen'') ty))"
| "postgres_alter (LegacyInheritance cols) env body given =
     native_make env given body (\<lambda>nm ref. minted_object env ''parent'' (\<lambda>parent. PostgresLegacyInheritanceObject nm ref parent cols))"
| "postgres_alter (DomainColumn target ty cols) env body given =
     native_make env given body (\<lambda>nm ref. minted_object env ''domain'' (\<lambda>dname. PostgresDomainColumnObject nm ref cols target dname ty))"
| "postgres_alter SecurityBarrierView env body given = query_make env given body (\<lambda>nm. PostgresSecurityBarrierViewObject nm body)"
| "postgres_alter (ExtendedStatistics stat_cols cols) env body given =
     native_make env given body (\<lambda>nm ref. greturn (PostgresExtendedStatisticsObject nm ref (nm @ ''_st'') cols stat_cols))"
| "postgres_alter (PartitionedTable key n cols) env body given =
     native_make env given body (\<lambda>nm ref. greturn (PostgresPartitionedTableObject nm ref (nm @ ''_part'') cols key n))"
| "postgres_alter (ParallelToggle cols) env body given =
     native_make env given body (\<lambda>nm ref. greturn (PostgresParallelToggleObject nm ref cols))"


section \<open>Builders\<close>

datatype postgres_builder =
    PostgresBtreeIndexBuilder | PostgresHashIndexBuilder | PostgresBrinIndexBuilder | PostgresPartialIndexBuilder
  | PostgresExpressionIndexBuilder | PostgresCoveringIndexBuilder | PostgresPartialCoveringIndexBuilder
  | PostgresGinJsonbIndexBuilder | PostgresGistRangeIndexBuilder | PostgresPrimaryKeyMatBuilder | PostgresMergeUpsertBuilder
  | PostgresGeneratedColumnBuilder | PostgresLegacyInheritanceBuilder | PostgresDomainColumnBuilder
  | PostgresSecurityBarrierViewBuilder | PostgresExtendedStatisticsBuilder | PostgresPartitionedTableMatBuilder
  | PostgresParallelToggleMatBuilder

definition first_col_of_type :: "eqnode \<Rightarrow> type_kind \<Rightarrow> string option" where
  "first_col_of_type query k = map_option fst (find (\<lambda>(nm, ty). kind_of ty = k) (get_signature query))"

definition prefer_pk_or_first :: "string list \<Rightarrow> string" where
  "prefer_pk_or_first out_cols = (if PK_COLUMN \<in> set out_cols then PK_COLUMN else hd out_cols)"

definition included :: "string list \<Rightarrow> string list" where
  "included out_cols = filter (\<lambda>c. c \<noteq> prefer_pk_or_first out_cols) out_cols"

definition typed_or_named :: "eqnode \<Rightarrow> type_kind \<Rightarrow> string \<Rightarrow> string option" where
  "typed_or_named query k nm =
     (case first_col_of_type query k of Some c \<Rightarrow> Some c | None \<Rightarrow> if nm \<in> set (out_cols_of query) then Some nm else None)"

definition type_sql_of :: "sql_type \<Rightarrow> string" where
  "type_sql_of ty = (case postgres_type_sql ty of Inr s \<Rightarrow> s | Inl e \<Rightarrow> '''')"

lemma type_sql_of_sound: "postgres_type_sql ty = Inr (type_sql_of ty)"
  by (cases "kind_of ty") (simp_all add: postgres_type_sql_def type_sql_of_def)

definition first_payload :: "signature \<Rightarrow> (string \<times> string) option" where
  "first_payload sig = map_option (\<lambda>(nm, ty). (nm, type_sql_of ty)) (find (\<lambda>(nm, ty). nm \<noteq> PK_COLUMN) sig)"

definition stat_columns :: "string list \<Rightarrow> string list" where
  "stat_columns out_cols =
     (if PK_COLUMN \<in> set out_cols then [PK_COLUMN, hd (filter (\<lambda>c. c \<noteq> PK_COLUMN) out_cols)] else [out_cols ! 0, out_cols ! 1])"

fun postgres_guard :: "postgres_builder \<Rightarrow> eqnode \<Rightarrow> postgres_spec option" where
  "postgres_guard PostgresBtreeIndexBuilder query =
     (let out = out_cols_of query in if out = [] then None else Some (CreateIndex BTREE (prefer_pk_or_first out) None None [] out))"
| "postgres_guard PostgresHashIndexBuilder query =
     (let out = out_cols_of query in if out = [] then None else Some (CreateIndex HASH (prefer_pk_or_first out) None None [] out))"
| "postgres_guard PostgresBrinIndexBuilder query =
     (let out = out_cols_of query in if out = [] then None else Some (CreateIndex BRIN (prefer_pk_or_first out) None None [] out))"
| "postgres_guard PostgresPartialIndexBuilder query =
     (let out = out_cols_of query in
      if out = [] then None
      else map_option (\<lambda>c. CreateIndex BTREE (prefer_pk_or_first out) None (Some (c @ '' IS NOT NULL'')) [] out) (first_text_col query))"
| "postgres_guard PostgresExpressionIndexBuilder query =
     map_option (\<lambda>c. CreateIndex BTREE c (Some ''lower'') None [] (out_cols_of query)) (first_text_col query)"
| "postgres_guard PostgresCoveringIndexBuilder query =
     (let out = out_cols_of query in
      if length out < 2 \<or> included out = [] then None
      else Some (CreateIndex BTREE (prefer_pk_or_first out) None None (included out) out))"
| "postgres_guard PostgresPartialCoveringIndexBuilder query =
     (let out = out_cols_of query in
      if length out < 2 \<or> included out = [] then None
      else map_option (\<lambda>c. CreateIndex BTREE (prefer_pk_or_first out) None (Some (c @ '' IS NOT NULL'')) (included out) out) (first_text_col query))"
| "postgres_guard PostgresGinJsonbIndexBuilder query =
     map_option (\<lambda>c. CreateIndex GIN c None None [] (out_cols_of query)) (typed_or_named query JSONB ''c_json'')"
| "postgres_guard PostgresGistRangeIndexBuilder query =
     map_option (\<lambda>c. CreateIndex GIST c None None [] (out_cols_of query)) (typed_or_named query INT4RANGE ''c_range'')"
| "postgres_guard PostgresPrimaryKeyMatBuilder query =
     (let out = out_cols_of query in if PK_COLUMN \<in> set out then Some (CreatePrimaryKey PK_COLUMN out) else None)"
| "postgres_guard PostgresMergeUpsertBuilder query =
     (let out = out_cols_of query in if PK_COLUMN \<in> set out then Some (MergeUpsert PK_COLUMN out) else None)"
| "postgres_guard PostgresGeneratedColumnBuilder query =
     map_option (\<lambda>(c, ty). GeneratedColumn c ty (out_cols_of query)) (first_payload (get_signature query))"
| "postgres_guard PostgresLegacyInheritanceBuilder query =
     (let out = out_cols_of query in if out = [] then None else Some (LegacyInheritance out))"
| "postgres_guard PostgresDomainColumnBuilder query =
     map_option (\<lambda>(c, ty). DomainColumn c ty (out_cols_of query)) (first_payload (get_signature query))"
| "postgres_guard PostgresSecurityBarrierViewBuilder query = Some SecurityBarrierView"
| "postgres_guard PostgresExtendedStatisticsBuilder query =
     (let out = out_cols_of query in if length out < 2 then None else Some (ExtendedStatistics (stat_columns out) out))"
| "postgres_guard PostgresPartitionedTableMatBuilder query =
     (let out = out_cols_of query in if PK_COLUMN \<in> set out then Some (PartitionedTable PK_COLUMN 5 out) else None)"
| "postgres_guard PostgresParallelToggleMatBuilder query = Some (ParallelToggle (out_cols_of query))"

definition postgres_body :: "postgres_builder \<Rightarrow> create_class option" where
  "postgres_body b = (if b = PostgresSecurityBarrierViewBuilder then None else Some CreateTable)"


section \<open>The emitter\<close>

definition cast_sql :: "string \<Rightarrow> string \<Rightarrow> string" where
  "cast_sql c ty = ''CAST('' @ c @ '' AS '' @ ty @ '')''"

definition raw :: "string \<Rightarrow> expr" where
  "raw s = RawExpr s IntegerType"

definition instead :: "string \<Rightarrow> string \<Rightarrow> string \<Rightarrow> expr" where
  "instead target gen c = ColumnRef (if c = target then gen else c) IntegerType None"

definition retyped :: "string \<Rightarrow> string \<Rightarrow> string \<Rightarrow> expr" where
  "retyped target ty c = (if c = target then raw (c @ ''::'' @ ty) else col c IntegerType)"

fun postgres_visit :: "postgres_object \<Rightarrow> native_stmt list" where
  "postgres_visit (PostgresIndexObject nm ref ix cols meth target ex pred incl) =
     (let keyed = (case ex of Some f \<Rightarrow> ''('' @ f @ ''('' @ target @ ''))'' | None \<Rightarrow> target);
          include = (if incl = [] then '''' else '' INCLUDE ('' @ join_with '', '' incl @ '')'');
          where_sql = (case pred of Some p \<Rightarrow> '' WHERE '' @ p | None \<Rightarrow> '''')
      in [IndexOn False ix ref target ('' USING '' @ index_method_sql meth @ '' ('' @ keyed @ '')'' @ include @ where_sql),
          OnTable ''ANALYZE '' ref '''', expose nm cols ref])"
| "postgres_visit (PostgresPrimaryKeyObject nm ref cols target) = [AddKey ref target, expose nm cols ref]"
| "postgres_visit (PostgresMergeUpsertObject nm ref src cols pk) =
     (let rest = filter (\<lambda>c. c \<noteq> pk) cols in
      [copy_table ''TABLE'' src None ref, MergeSame ref src pk (if rest = [] then [pk] else rest), expose nm cols ref])"
| "postgres_visit (PostgresGeneratedColumnObject nm ref cols target gen ty) =
     [AddComputed ref gen ty (cast_sql target ty) (raw (cast_sql target ty)), view_of nm (map (read_as (instead target gen)) cols) ref]"
| "postgres_visit (PostgresLegacyInheritanceObject nm ref parent cols) =
     [LikeTable parent ref '''', Inherit ref parent, expose nm cols parent]"
| "postgres_visit (PostgresDomainColumnObject nm ref cols target dname ty) =
     [Setting (''CREATE DOMAIN '' @ dname @ '' AS '' @ ty), Retype ref target dname (cast_sql target ty) (raw (cast_sql target ty)),
      view_of nm (map (read_as (retyped target ty)) cols) ref]"
| "postgres_visit (PostgresSecurityBarrierViewObject nm query) =
     [QueryView ''CREATE VIEW '' nm '' WITH (security_barrier = true) AS '' query]"
| "postgres_visit (PostgresExtendedStatisticsObject nm ref st cols stat_cols) =
     [OnTable (''CREATE STATISTICS '' @ st @ '' (ndistinct, dependencies, mcv) ON '' @ join_with '', '' stat_cols @ '' FROM '') ref '''',
      OnTable ''ANALYZE '' ref '''', expose nm cols ref]"
| "postgres_visit (PostgresPartitionedTableObject nm ref parent cols key n) =
     [Partitioned parent ref key, PartitionOf (parent @ ''_lo'') parent None (Some n), PartitionOf (parent @ ''_hi'') parent (Some n) None,
      Fill parent cols ref, Setting (''ANALYZE '' @ parent), expose nm cols parent]"
| "postgres_visit (PostgresParallelToggleObject nm ref cols) =
     [Setting ''SET min_parallel_table_scan_size = 0'', Setting ''SET min_parallel_index_scan_size = 0'',
      Setting ''SET parallel_setup_cost = 0'', Setting ''SET parallel_tuple_cost = 0'',
      Setting ''SET max_parallel_workers_per_gather = 2'', Setting ''SET debug_parallel_query = on'', expose nm cols ref]"


section \<open>What the objects need\<close>

definition int_column :: "string list \<Rightarrow> string \<Rightarrow> row list \<Rightarrow> bool" where
  "int_column names key B \<longleftrightarrow>
     (case column_values names key B of None \<Rightarrow> False | Some vs \<Rightarrow> list_all (\<lambda>v. case v of SInt k \<Rightarrow> True | _ \<Rightarrow> False) vs)"

text \<open>A cast of a column to its own type gives its value, and the name of a generated column is free.\<close>

definition casts_keep :: "engine \<Rightarrow> table \<Rightarrow> row list \<Rightarrow> bool" where
  "casts_keep E t B \<longleftrightarrow>
     (case first_payload (table_signature t) of None \<Rightarrow> True
      | Some (c, ty) \<Rightarrow> gives E (column_names t) (raw (cast_sql c ty)) c B \<and> gives E (column_names t) (raw (c @ ''::'' @ ty)) c B
          \<and> c @ ''_gen'' \<notin> set (column_names t))"

fun postgres_suits :: "postgres_builder \<Rightarrow> engine \<Rightarrow> table \<Rightarrow> row list \<Rightarrow> bool" where
  "postgres_suits PostgresPrimaryKeyMatBuilder E t B = key_holds E (column_names t) PK_COLUMN B"
| "postgres_suits PostgresMergeUpsertBuilder E t B = int_key (column_names t) PK_COLUMN B"
| "postgres_suits PostgresGeneratedColumnBuilder E t B = casts_keep E t B"
| "postgres_suits PostgresDomainColumnBuilder E t B = casts_keep E t B"
| "postgres_suits PostgresPartitionedTableMatBuilder E t B = int_column (column_names t) PK_COLUMN B"
| "postgres_suits b E t B = True"


section \<open>What the objects show\<close>

lemma merge_shown:
  assumes "engine_ok E" "stores d b (column_names t) B" "fresh_in d [src, nm]" "table_ok t" "base_rows_ok t B" "int_key (column_names t) pk B"
  shows "\<exists>d'. exec_natives E (Suc f) (postgres_visit (PostgresMergeUpsertObject nm b src (column_names t) pk)) d = Some d'
    \<and> exposes E (objs d') (Suc (Suc j)) nm (column_names t) B"
proof -
  let ?names = "column_names t" and ?rest = "filter (\<lambda>c. c \<noteq> pk) (column_names t)"
  have fresh: "objs d src = None" "objs d nm = None" "nm \<noteq> src" using assms(3) by (auto simp: fresh_in_def)
  have apart: "b \<noteq> src" "b \<noteq> nm" using assms(2) fresh by (auto simp: stores_def)
  from copied_stores [OF assms(1) stores_exposes [OF assms(2)] fresh(1), where items = None and keyword = "''TABLE''"] obtain d1
    where d1: "exec_native E (Suc f) (copy_table ''TABLE'' src None b) d = Some d1" "stores d1 src ?names B" "\<forall>x. x \<noteq> src \<longrightarrow> objs d1 x = objs d x"
    by blast
  have pk: "pk \<in> set ?names" using assms(6) position_in by (auto simp: int_key_def column_values_def split: option.splits)
  have "stores d1 b ?names B" by (rule stores_same [OF assms(2)]) (use d1(3) apart in simp)
  then have "\<exists>d'. exec_native E (Suc f) (MergeSame b src pk (if ?rest = [] then [pk] else ?rest)) d1 = Some d' \<and> stores d' b ?names B
      \<and> (\<forall>x. x \<noteq> b \<longrightarrow> objs d' x = objs d1 x)"
    by (rule exec_merge [OF assms(1) _ d1(2) assms(6) table_ok_distinct [OF assms(4)]]) (use pk in auto)
  then obtain d2 where d2: "exec_native E (Suc f) (MergeSame b src pk (if ?rest = [] then [pk] else ?rest)) d1 = Some d2"
    "stores d2 b ?names B" "\<forall>x. x \<noteq> b \<longrightarrow> objs d2 x = objs d1 x" by blast
  have "exec_natives E (Suc f) [copy_table ''TABLE'' src None b, MergeSame b src pk (if ?rest = [] then [pk] else ?rest)] d = Some d2"
    using d1(1) d2(1) by (simp del: exec_native.simps)
  from then_exposed [OF this assms(1) stores_exposes [OF d2(2)] _ table_ok_distinct [OF assms(4)] length_rows [OF assms(5)], of nm]
  show ?thesis using d1(3) d2(3) fresh apart by (auto simp: Let_def simp del: exec_natives.simps exec_native.simps)
qed

lemma domain_shown:
  assumes "engine_ok E" "stores d b (column_names t) B" "objs d nm = None" "table_ok t" "base_rows_ok t B" "target \<in> set (column_names t)"
    and "gives E (column_names t) (raw (cast_sql target ty)) target B" "gives E (column_names t) (raw (target @ ''::'' @ ty)) target B"
  shows "\<exists>d'. exec_natives E (Suc f) (postgres_visit (PostgresDomainColumnObject nm b (column_names t) target dname ty)) d = Some d'
    \<and> exposes E (objs d') (Suc (Suc j)) nm (column_names t) B"
proof -
  let ?names = "column_names t"
  note lens = table_ok_distinct [OF assms(4)] length_rows [OF assms(5)]
  from exec_retype [OF assms(2) lens assms(6,7), of "Suc f" dname "cast_sql target ty"] obtain d1
    where d1: "exec_native E (Suc f) (Retype b target dname (cast_sql target ty) (raw (cast_sql target ty))) d = Some d1"
      "stores d1 b ?names B" "\<forall>x. x \<noteq> b \<longrightarrow> objs d1 x = objs d x" by blast
  have "objs d b \<noteq> None" using assms(2) by (auto simp: stores_def)
  with assms(3) have "nm \<noteq> b" by auto
  with assms(3) d1(3) have "objs d1 nm = None" by simp
  moreover have "scalar (retyped target ty c) \<and> gives E ?names (retyped target ty c) c B" for c
    using assms(8) gives_itself by (simp add: retyped_def raw_def col_def)
  ultimately have "\<exists>d'. exec_native E (Suc f) (view_of nm (map (read_as (retyped target ty)) ?names) b) d1 = Some d'
      \<and> exposes E (objs d') (Suc (Suc j)) nm ?names B"
    by (intro read_as_exposed [OF assms(1) stores_exposes [OF d1(2)] _ lens])
  then show ?thesis using d1(1) by (auto simp del: exec_native.simps(15))
qed

lemma inherit_shown:
  assumes "engine_ok E" "stores d b (column_names t) B" "fresh_in d [parent, only parent, nm]" "table_ok t" "base_rows_ok t B"
  shows "\<exists>d'. exec_natives E k (postgres_visit (PostgresLegacyInheritanceObject nm b parent (column_names t))) d = Some d'
    \<and> exposes E (objs d') (Suc (Suc (Suc j))) nm (column_names t) B"
proof -
  have "fresh_in d [parent, only parent]" using assms(3) by (simp add: fresh_in_def)
  from exec_inherit [OF assms(1,2) this, of k "''''" j] obtain d1
    where d1: "exec_natives E k [LikeTable parent b '''', Inherit b parent] d = Some d1"
      "exposes E (objs d1) (Suc (Suc j)) parent (column_names t) B" "\<forall>x. x \<notin> {parent, only parent} \<longrightarrow> objs d1 x = objs d x" by blast
  have "objs d1 nm = None" using assms(3) d1(3) by (auto simp: fresh_in_def)
  from then_exposed [OF d1(1) assms(1) d1(2) this table_ok_distinct [OF assms(4)] length_rows [OF assms(5)]] show ?thesis
    by (simp del: exec_natives.simps exec_native.simps)
qed

lemma int_columnD:
  assumes "int_column names key B"
  obtains k where "position names key = Some k" "\<forall>r \<in> set B. \<exists>i. r ! k = SInt i"
proof -
  from assms obtain k where k: "position names key = Some k"
      "list_all (\<lambda>v. case v of SInt i \<Rightarrow> True | _ \<Rightarrow> False) (map (\<lambda>r. r ! k) B)"
    by (auto simp: int_column_def column_values_def split: option.splits)
  have "\<exists>i. v = SInt i" if "case v of SInt i \<Rightarrow> True | _ \<Rightarrow> False" for v using that by (cases v) simp_all
  with k that show thesis by (fastforce simp: list_all_iff)
qed

lemma partition_shown:
  assumes "engine_ok E" "stores (native_start db) b (column_names t) B" "table_ok t" "base_rows_ok t B"
    and "fresh_in (native_start db) [p, only p, p @ ''_lo'', p @ ''_hi'', nm]" "int_column (column_names t) key B"
  shows "\<exists>d'. exec_natives E (Suc f) (postgres_visit (PostgresPartitionedTableObject nm b p (column_names t) key n)) (native_start db) = Some d'
    \<and> exposes E (objs d') (Suc (Suc (Suc j))) nm (column_names t) B"
proof -
  let ?ss = "[Partitioned p b key, PartitionOf (p @ ''_lo'') p None (Some n), PartitionOf (p @ ''_hi'') p (Some n) None, Fill p (column_names t) b]"
  note lens = table_ok_distinct [OF assms(3)] length_rows [OF assms(4)]
  obtain k where k: "position (column_names t) key = Some k" "\<forall>r \<in> set B. \<exists>i. r ! k = SInt i" by (rule int_columnD [OF assms(6)])
  have "fresh_in (native_start db) [p, only p, p @ ''_lo'', p @ ''_hi'']" using assms(5) by (simp add: fresh_in_def)
  from exec_partition [OF assms(1,2) this lens k, of f n j] obtain d1
    where d1: "exec_natives E (Suc f) ?ss (native_start db) = Some d1" "exposes E (objs d1) (Suc (Suc j)) p (column_names t) B"
      "\<forall>x. x \<notin> {p, only p, p @ ''_lo'', p @ ''_hi''} \<longrightarrow> objs d1 x = db x" by blast
  have new: "objs d1 nm = None" using assms(5) d1(3) by (auto simp: fresh_in_def native_start_def)
  have "exec_natives E (Suc f) (?ss @ [Setting (''ANALYZE '' @ p)]) (native_start db) = Some d1"
    by (rule exec_chain [OF d1(1)]) simp
  from then_exposed [OF this assms(1) d1(2) new lens] show ?thesis by (simp del: exec_natives.simps exec_native.simps)
qed

section \<open>The builders\<close>

text \<open>The object of a specification, given the names it took, and what it needs of the columns and rows of the table.\<close>

fun object_for :: "postgres_spec \<Rightarrow> string \<Rightarrow> string \<Rightarrow> string \<Rightarrow> eqnode \<Rightarrow> postgres_object" where
  "object_for (CreateIndex meth target ex pred incl cols) nm ref c body = PostgresIndexObject nm ref (nm @ ''_idx'') cols meth target ex pred incl"
| "object_for (CreatePrimaryKey target cols) nm ref c body = PostgresPrimaryKeyObject nm ref cols target"
| "object_for (MergeUpsert pk cols) nm ref c body = PostgresMergeUpsertObject nm ref c cols pk"
| "object_for (GeneratedColumn target ty cols) nm ref c body = PostgresGeneratedColumnObject nm ref cols target (target @ ''_gen'') ty"
| "object_for (LegacyInheritance cols) nm ref c body = PostgresLegacyInheritanceObject nm ref c cols"
| "object_for (DomainColumn target ty cols) nm ref c body = PostgresDomainColumnObject nm ref cols target c ty"
| "object_for SecurityBarrierView nm ref c body = PostgresSecurityBarrierViewObject nm body"
| "object_for (ExtendedStatistics stat_cols cols) nm ref c body = PostgresExtendedStatisticsObject nm ref (nm @ ''_st'') cols stat_cols"
| "object_for (PartitionedTable key n cols) nm ref c body = PostgresPartitionedTableObject nm ref (nm @ ''_part'') cols key n"
| "object_for (ParallelToggle cols) nm ref c body = PostgresParallelToggleObject nm ref cols"

fun fits :: "postgres_spec \<Rightarrow> engine \<Rightarrow> string list \<Rightarrow> row list \<Rightarrow> bool" where
  "fits (CreateIndex meth target ex pred incl cols) E names B \<longleftrightarrow> cols = names \<and> target \<in> set names"
| "fits (CreatePrimaryKey target cols) E names B \<longleftrightarrow> cols = names \<and> key_holds E names target B"
| "fits (MergeUpsert pk cols) E names B \<longleftrightarrow> cols = names \<and> int_key names pk B"
| "fits (GeneratedColumn target ty cols) E names B \<longleftrightarrow> cols = names \<and> target \<in> set names \<and> target @ ''_gen'' \<notin> set names
     \<and> gives E names (raw (cast_sql target ty)) target B"
| "fits (LegacyInheritance cols) E names B \<longleftrightarrow> cols = names"
| "fits (DomainColumn target ty cols) E names B \<longleftrightarrow> cols = names \<and> target \<in> set names
     \<and> gives E names (raw (cast_sql target ty)) target B \<and> gives E names (raw (target @ ''::'' @ ty)) target B"
| "fits SecurityBarrierView E names B \<longleftrightarrow> True"
| "fits (ExtendedStatistics stat_cols cols) E names B \<longleftrightarrow> cols = names"
| "fits (PartitionedTable key n cols) E names B \<longleftrightarrow> cols = names \<and> int_column names key B"
| "fits (ParallelToggle cols) E names B \<longleftrightarrow> cols = names"

lemma find_fst: "find P sig = Some p \<Longrightarrow> fst p \<in> set (map fst sig)"
  by (force simp: find_Some_iff in_set_conv_nth)

lemma typed_member: "first_col_of_type q k = Some c \<Longrightarrow> c \<in> set (out_cols_of q)"
  using find_fst [of _ "get_signature q"] by (auto simp: first_col_of_type_def out_cols_of_def)

lemma typed_or_named_member: "typed_or_named q k nm = Some c \<Longrightarrow> c \<in> set (out_cols_of q)"
  by (auto simp: typed_or_named_def dest: typed_member split: option.splits if_splits)

lemma preferred_member: "out \<noteq> [] \<Longrightarrow> prefer_pk_or_first out \<in> set out"
  by (simp add: prefer_pk_or_first_def)

lemma payload_member: "first_payload (get_signature q) = Some (c, ty) \<Longrightarrow> c \<in> set (out_cols_of q)"
  using find_fst [of _ "get_signature q"] by (fastforce simp: first_payload_def out_cols_of_def)

lemma guard_fits:
  assumes "postgres_guard b q = Some a" "get_signature q = table_signature t" "postgres_suits b E t B"
  shows "fits a E (column_names t) B" "a = SecurityBarrierView \<longleftrightarrow> postgres_body b = None"
proof -
  note cols = out_cols_signature [OF assms(2)]
  show "fits a E (column_names t) B"
    using assms(1,3) first_text_member [of q] typed_or_named_member [of q] preferred_member [of "column_names t"] payload_member [of q]
    by (cases b; fastforce simp: Let_def cols assms(2) casts_keep_def split: if_splits)
  show "a = SecurityBarrierView \<longleftrightarrow> postgres_body b = None"
    using assms(1) by (cases b) (auto simp: postgres_body_def Let_def split: if_splits)
qed

lemma minted_object_made: "minted_object env label mk s = Inr (y, s') \<Longrightarrow> \<exists>c. y = mk c \<and> c \<in> issued s' \<and> c \<notin> issued s \<and> c \<in> minted env"
  by (auto simp: minted_object_def gbind_def greturn_def split: sum.splits prod.splits dest!: mint_new)

definition fresh_label :: "postgres_spec \<Rightarrow> bool" where
  "fresh_label a \<longleftrightarrow> (case a of MergeUpsert pk cols \<Rightarrow> True | LegacyInheritance cols \<Rightarrow> True | _ \<Rightarrow> False)"

lemma postgres_altered:
  assumes "postgres_alter a env body (Some nm) s = Inr (Some x, s')" "nm \<noteq> []"
  shows "nn_body x = body \<and> (\<exists>ref c. nn_object x = object_for a nm ref c body \<and> (a \<noteq> SecurityBarrierView \<longrightarrow> materialized_name body = Some ref)
    \<and> (fresh_label a \<longrightarrow> c \<in> issued s' \<and> c \<notin> issued s \<and> c \<in> minted env))"
proof (cases a)
  case (MergeUpsert pk cols)
  from native_made [OF assms(1) [unfolded MergeUpsert postgres_alter.simps] assms(2)] show ?thesis
    by (fastforce simp: MergeUpsert dest!: minted_object_made)
next
  case (LegacyInheritance cols)
  from native_made [OF assms(1) [unfolded LegacyInheritance postgres_alter.simps] assms(2)] show ?thesis
    by (fastforce simp: LegacyInheritance dest!: minted_object_made)
next
  case (DomainColumn target ty cols)
  from native_made [OF assms(1) [unfolded DomainColumn postgres_alter.simps] assms(2)] show ?thesis
    by (fastforce simp: DomainColumn fresh_label_def dest!: minted_object_made)
next
  case SecurityBarrierView
  from query_made_step [OF assms(1) [unfolded SecurityBarrierView postgres_alter.simps] assms(2)] show ?thesis
    by (simp add: SecurityBarrierView fresh_label_def)
qed (use assms in \<open>auto simp: fresh_label_def dest: made_step\<close>)

lemma spec_shown:
  assumes "engine_ok E" "table_ok t" "base_rows_ok t B" "fits a E (column_names t) B" "a \<noteq> SecurityBarrierView"
    and "stores (native_start db) b (column_names t) B"
    and "fresh_in (native_start db) (concat (map creates (postgres_visit (object_for a nm b c body))))"
  shows "\<exists>d'. exec_natives E (Suc f) (postgres_visit (object_for a nm b c body)) (native_start db) = Some d'
    \<and> exposes E (objs d') (Suc (Suc (Suc j))) nm (column_names t) B"
proof -
  let ?names = "column_names t"
  note lens = table_ok_distinct [OF assms(2)] length_rows [OF assms(3)]
  note plain = body_exposed [OF assms(1,6) lens]
  show ?thesis
  proof (cases a)
    case (CreateIndex meth target ex pred incl cols)
    then have "objs (native_start db) nm = None" "cols = ?names" "target \<in> set ?names"
      using assms(4,7) by (auto simp: fresh_in_def expose_def view_of_def Let_def)
    moreover from this(3) have "exec_natives E (Suc f) [IndexOn False ix b target tail, OnTable pre b post] (native_start db) = Some (native_start db)"
      for ix tail pre post using exec_index [OF assms(6)] exec_on_table [OF assms(6)] by (simp del: exec_native.simps)
    note plain [OF this calculation(1)]
    ultimately show ?thesis by (simp add: CreateIndex Let_def del: exec_natives.simps exec_native.simps)
  next
    case (CreatePrimaryKey target cols)
    then have new: "objs (native_start db) nm = None" "cols = ?names" "key_holds E ?names target B"
      using assms(4,7) by (auto simp: fresh_in_def expose_def view_of_def)
    from exec_add_key [OF assms(6) new(3)] obtain d1
      where d1: "exec_native E (Suc f) (AddKey b target) (native_start db) = Some d1" "objs d1 = objs (native_start db)" by blast
    have "exec_natives E (Suc f) [AddKey b target] (native_start db) = Some d1" using d1(1) by simp
    from then_exposed [OF this assms(1) _ _ lens] stores_exposes [OF stores_same [OF assms(6), of d1]] d1(2) new(1)
    show ?thesis by (simp add: CreatePrimaryKey new(2) del: exec_natives.simps exec_native.simps)
  next
    case (MergeUpsert pk cols)
    then have "fresh_in (native_start db) [c, nm]" "cols = ?names" "int_key ?names pk B"
      using assms(4,7) by (auto simp: fresh_in_def expose_def view_of_def copy_table_def Let_def)
    from merge_shown [OF assms(1,6) this(1) assms(2,3) this(3)] this(2) show ?thesis
      by (simp add: MergeUpsert del: exec_natives.simps exec_native.simps postgres_visit.simps)
  next
    case (GeneratedColumn target ty cols)
    then have "objs (native_start db) nm = None" "cols = ?names" "target @ ''_gen'' \<notin> set ?names" "target \<in> set ?names"
        "gives E ?names (raw (cast_sql target ty)) target B"
      using assms(4,7) by (auto simp: fresh_in_def view_of_def)
    from computed_exposed [OF assms(1,6) this(1) lens this(3-5)] this(2) show ?thesis
      by (simp add: GeneratedColumn instead_def [abs_def] del: exec_natives.simps exec_native.simps)
  next
    case (LegacyInheritance cols)
    then have "fresh_in (native_start db) [c, only c, nm]" "cols = ?names"
      using assms(4,7) by (auto simp: fresh_in_def expose_def view_of_def)
    from inherit_shown [OF assms(1,6) this(1) assms(2,3)] this(2) show ?thesis
      by (simp add: LegacyInheritance del: exec_natives.simps exec_native.simps postgres_visit.simps)
  next
    case (DomainColumn target ty cols)
    then have "objs (native_start db) nm = None" "cols = ?names" "target \<in> set ?names"
        "gives E ?names (raw (cast_sql target ty)) target B" "gives E ?names (raw (target @ ''::'' @ ty)) target B"
      using assms(4,7) by (auto simp: fresh_in_def view_of_def)
    from domain_shown [OF assms(1,6) this(1) assms(2,3) this(3-5)] this(2) show ?thesis
      by (simp add: DomainColumn del: exec_natives.simps exec_native.simps postgres_visit.simps)
  next
    case (ExtendedStatistics stat_cols cols)
    then have "objs (native_start db) nm = None" "cols = ?names"
      using assms(4,7) by (auto simp: fresh_in_def expose_def view_of_def)
    moreover have "exec_natives E (Suc f) [OnTable pre1 b post1, OnTable pre b post] (native_start db) = Some (native_start db)"
      for pre1 post1 pre post using exec_on_table [OF assms(6)] by (simp del: exec_native.simps)
    note plain [OF this calculation(1)]
    ultimately show ?thesis by (simp add: ExtendedStatistics del: exec_natives.simps exec_native.simps)
  next
    case (PartitionedTable key n cols)
    then have "fresh_in (native_start db) [nm @ ''_part'', only (nm @ ''_part''), (nm @ ''_part'') @ ''_lo'', (nm @ ''_part'') @ ''_hi'', nm]"
        "cols = ?names" "int_column ?names key B"
      using assms(4,7) by (simp_all add: expose_def view_of_def)
    from partition_shown [OF assms(1,6,2,3) this(1,3)] this(2) show ?thesis
      by (simp add: PartitionedTable del: exec_natives.simps exec_native.simps postgres_visit.simps)
  next
    case (ParallelToggle cols)
    then have "objs (native_start db) nm = None" "cols = ?names"
      using assms(4,7) by (auto simp: fresh_in_def expose_def view_of_def)
    moreover have "exec_natives E (Suc f) (map Setting txts) (native_start db) = Some (native_start db)" for txts
      by (induction txts) simp_all
    note plain [OF this calculation(1), of "[t1, t2, t3, t4, t5, t6]" for t1 t2 t3 t4 t5 t6]
    ultimately show ?thesis by (simp add: ParallelToggle del: exec_natives.simps exec_native.simps)
  qed (use assms(5) in simp)
qed

lemma postgres_names:
  assumes "clear_names env nm" "fresh_label a \<longrightarrow> c \<in> issued s' \<and> c \<notin> issued s \<and> c \<in> minted env"
  shows "own_names env nm s s' (concat (map creates (postgres_visit (object_for a nm b c body))))"
proof -
  have own: "nm \<notin> minted env" "nm \<noteq> only c"
    using assms(1) by (auto simp: clear_names_def clear_name_def native_suffixes_def)
  have apart: "only (nm @ ''_part'') \<noteq> nm @ u" if "length u < 10" for u
  proof
    assume "only (nm @ ''_part'') = nm @ u"
    then have "length (only (nm @ ''_part'')) = length (nm @ u)" by (rule arg_cong)
    with that show False by (simp add: only_def)
  qed
  have "only (nm @ ''_part'') \<noteq> nm" "only (nm @ ''_part'') \<noteq> nm @ ''_part_lo''" "only (nm @ ''_part'') \<noteq> nm @ ''_part_hi''"
    using apart [of "[]"] apart [of "''_part_lo''"] apart [of "''_part_hi''"] by simp_all
  with own assms(2) show ?thesis
    by (cases a) (auto simp: own_names_def native_suffixes_def expose_def view_of_def copy_table_def fresh_label_def Let_def)
qed

interpretation postgres: native_builder "postgres_body b" "look (postgres_guard b)" postgres_alter postgres_visit "postgres_suits b" for b
proof
  show "quiet (look (postgres_guard b))" by simp
next
  fix a env body nm s x s'
  assume made: "postgres_alter a env body (Some nm) s = Inr (Some x, s')" and clear: "clear_names env nm"
  then have "nm \<noteq> []" by (simp add: clear_names_def)
  from postgres_altered [OF made this] obtain ref c where x: "nn_body x = body" "nn_object x = object_for a nm ref c body"
    "fresh_label a \<longrightarrow> c \<in> issued s' \<and> c \<notin> issued s \<and> c \<in> minted env" by blast
  from postgres_names [OF clear x(3), of ref body] x(1,2)
  show "nn_body x = body \<and> own_names env nm s s' (concat (map creates (postgres_visit (nn_object x))))" by simp
next
  fix q s0 a s1 t body env nm s x s' E B db f
  assume drawn: "look (postgres_guard b) q s0 = Inr (Some a, s1)" and sig: "get_signature q = table_signature t"
    and made: "postgres_alter a env body (Some nm) s = Inr (Some x, s')" "nm \<noteq> []"
    and ok: "engine_ok E" "table_ok t" "base_rows_ok t B" and suits: "postgres_suits b E t B"
    and holds: "body_holds E (native_start db) (Suc f) (postgres_body b) body (column_names t) B"
    and fresh: "fresh_in (native_start db) (concat (map creates (postgres_visit (nn_object x))))"
  from drawn have "postgres_guard b q = Some a" by (simp add: look_Some)
  note fit = guard_fits [OF this sig suits]
  from postgres_altered [OF made] obtain ref c where x: "nn_object x = object_for a nm ref c body"
    and ref: "a \<noteq> SecurityBarrierView \<longrightarrow> materialized_name body = Some ref" by blast
  show "\<exists>d'. exec_natives E (Suc f) (postgres_visit (nn_object x)) (native_start db) = Some d'
      \<and> exposes E (objs d') (Suc (Suc (Suc f))) nm (column_names t) B"
  proof (cases "a = SecurityBarrierView")
    case True
    have new: "objs (native_start db) nm = None" using fresh by (simp add: x True fresh_in_def)
    have "answers E (objs (native_start db)) (Suc f) body (column_names t) B"
      using holds fit(2) True by (simp add: body_holds_def)
    from query_view_exposed [OF this new, of "Suc f" "''CREATE VIEW ''" "'' WITH (security_barrier = true) AS ''"] show ?thesis
      using exposes_deeper by (fastforce simp: x True simp del: exec_native.simps)
  next
    case False
    then have "postgres_body b = Some CreateTable" using fit(2) by (auto simp: postgres_body_def split: if_splits)
    with holds ref False have "stores (native_start db) ref (column_names t) B" by (auto intro: body_table(1))
    from spec_shown [OF ok fit(1) False this fresh [unfolded x]] show ?thesis by (simp only: x)
  qed
qed

end
