(* ===== verification/Coa_Duckdb.thy ===== *)
theory Coa_Duckdb
  imports Coa_Native_Forms Coa_Mysql
begin

text \<open>
  The objects only DuckDB has: \<open>dialects/duckdb/ast.py\<close>, the materializing builders of \<open>builders.py\<close>, and the object
  visits of \<open>dialects/duckdb/emitter.py\<close>.  A table macro is a view named after its call; a table in another catalog or
  schema is one with a qualified name.
\<close>


section \<open>Objects\<close>

datatype duckdb_catalog_kind = SCHEMA | ADD_DROP_COLUMN | ENUM_ROUND_TRIP | CHECKPOINT

fun aux_label :: "duckdb_catalog_kind \<Rightarrow> string" where
  "aux_label SCHEMA = ''sch''"
| "aux_label ADD_DROP_COLUMN = ''altered''"
| "aux_label ENUM_ROUND_TRIP = ''enum''"
| "aux_label CHECKPOINT = ''ckpt''"

datatype duckdb_object =
    DuckDBMacroObject string string eqnode
  | DuckDBIndexObject string string string "string list" string bool
  | DuckDBAttachObject string string string string
  | DuckDBCatalogObject string string "string list" duckdb_catalog_kind string string string string

datatype duckdb_spec =
    MacroSpec
  | DuckIndexSpec string "string list" bool
  | AttachSpec
  | CatalogSpec duckdb_catalog_kind
  | EnumSpec string

definition catalog_object :: "string \<Rightarrow> string \<Rightarrow> eqnode \<Rightarrow> duckdb_catalog_kind \<Rightarrow> string \<Rightarrow> string \<Rightarrow> duckdb_object" where
  "catalog_object nm ref body k extra text_col =
     DuckDBCatalogObject nm ref (out_cols_of body) k (nm @ ''_'' @ aux_label k) (nm @ ''_tbl'') extra text_col"

fun duckdb_alter :: "(duckdb_spec, duckdb_object) alter" where
  "duckdb_alter MacroSpec env body given = query_make env given body (\<lambda>nm. DuckDBMacroObject nm (nm @ ''_macro'') body)"
| "duckdb_alter (DuckIndexSpec target cols unique) env body given =
     native_make env given body (\<lambda>nm ref. greturn (DuckDBIndexObject nm ref (nm @ ''_idx'') cols target unique))"
| "duckdb_alter AttachSpec env body given =
     native_make env given body (\<lambda>nm ref. greturn (DuckDBAttachObject nm ref (nm @ ''_att_db'') ''mirror''))"
| "duckdb_alter (CatalogSpec k) env body given =
     gbind (generate_column_name ''eq_dd_aux'') (\<lambda>extra.
     native_make env given body (\<lambda>nm ref. greturn (catalog_object nm ref body k extra '''')))"
| "duckdb_alter (EnumSpec text_col) env body given =
     native_make env given body (\<lambda>nm ref. greturn (catalog_object nm ref body ENUM_ROUND_TRIP '''' text_col))"


section \<open>Builders\<close>

datatype duckdb_builder =
    DuckDBCreateMacroBuilder | DuckDBCreateIndexBuilder | DuckDBUniqueIndexMatBuilder | DuckDBAttachedDatabaseBuilder
  | DuckDBSchemaQualifiedTableBuilder | DuckDBAddDropColumnTableBuilder | DuckDBCheckpointTableBuilder
  | DuckDBEnumTypeRoundTripBuilder

fun duckdb_guard :: "duckdb_builder \<Rightarrow> eqnode \<Rightarrow> duckdb_spec option" where
  "duckdb_guard DuckDBCreateMacroBuilder query = Some MacroSpec"
| "duckdb_guard DuckDBCreateIndexBuilder query =
     (case out_cols_of query of [] \<Rightarrow> None | c # cs \<Rightarrow> Some (DuckIndexSpec c (c # cs) False))"
| "duckdb_guard DuckDBUniqueIndexMatBuilder query =
     (if PK_COLUMN \<in> set (out_cols_of query) then Some (DuckIndexSpec PK_COLUMN (out_cols_of query) True) else None)"
| "duckdb_guard DuckDBAttachedDatabaseBuilder query = Some AttachSpec"
| "duckdb_guard DuckDBSchemaQualifiedTableBuilder query = Some (CatalogSpec SCHEMA)"
| "duckdb_guard DuckDBAddDropColumnTableBuilder query = Some (CatalogSpec ADD_DROP_COLUMN)"
| "duckdb_guard DuckDBCheckpointTableBuilder query = Some (CatalogSpec CHECKPOINT)"
| "duckdb_guard DuckDBEnumTypeRoundTripBuilder query = map_option EnumSpec (first_text_col query)"

fun duckdb_body :: "duckdb_builder \<Rightarrow> create_class option" where
  "duckdb_body DuckDBCreateMacroBuilder = None"
| "duckdb_body DuckDBCreateIndexBuilder = Some CreateTable"
| "duckdb_body DuckDBUniqueIndexMatBuilder = Some CreateTable"
| "duckdb_body b = Some CreateView"


section \<open>The emitter\<close>

definition enum_cast :: "string \<Rightarrow> string \<Rightarrow> expr" where
  "enum_cast aux c = RawExpr (''CAST(CAST('' @ c @ '' AS '' @ aux @ '') AS VARCHAR)'') IntegerType"

definition enum_read :: "string \<Rightarrow> string \<Rightarrow> string \<Rightarrow> expr" where
  "enum_read text_col aux c = (if c = text_col then enum_cast aux c else col c IntegerType)"

definition replace_table :: "string \<Rightarrow> string list \<Rightarrow> string \<Rightarrow> native_stmt" where
  "replace_table nm cols ref = copy_table ''OR REPLACE TABLE'' nm (Some (map out_item cols)) ref"

fun duckdb_visit :: "duckdb_object \<Rightarrow> native_stmt list" where
  "duckdb_visit (DuckDBMacroObject nm macro query) =
     [QueryView ''CREATE MACRO '' (macro @ ''()'') '' AS TABLE '' query, star_view nm (macro @ ''()'')]"
| "duckdb_visit (DuckDBIndexObject nm ref ix cols target unique) =
     [IndexOn unique ix ref target ('' ('' @ target @ '')''), expose nm cols ref]"
| "duckdb_visit (DuckDBAttachObject nm ref alias mirror) =
     [Setting (''ATTACH '' @ quoted '':memory:'' @ '' AS '' @ alias), copy_table ''TABLE'' (alias @ ''.'' @ mirror) None ref,
      star_view nm (alias @ ''.'' @ mirror)]"
| "duckdb_visit (DuckDBCatalogObject nm body cols k aux tbl extra text_col) =
     (case k of
        SCHEMA \<Rightarrow> [Setting (''CREATE SCHEMA '' @ aux), replace_table (aux @ ''.'' @ tbl) cols body, expose nm cols (aux @ ''.'' @ tbl)]
      | ADD_DROP_COLUMN \<Rightarrow>
          [replace_table tbl cols body, AddColumn tbl extra '' INTEGER DEFAULT 42'' (SInt 42), DropColumn tbl extra, expose nm cols tbl]
      | CHECKPOINT \<Rightarrow> [replace_table tbl cols body, Setting ''CHECKPOINT'', expose nm cols tbl]
      | ENUM_ROUND_TRIP \<Rightarrow>
          [Setting (''CREATE TYPE '' @ aux @ '' AS ENUM (SELECT DISTINCT '' @ text_col @ '' FROM '' @ body @ '' WHERE '' @ text_col @ '' IS NOT NULL)''),
           view_of nm (map (read_as (enum_read text_col aux)) cols) body])"


section \<open>What the objects need\<close>

text \<open>The added column is new, and a text goes through the enumeration of all texts unchanged, whatever its name.\<close>

definition eq_dd_free :: "string list \<Rightarrow> bool" where
  "eq_dd_free names \<longleftrightarrow> list_all (\<lambda>c. take 10 c \<noteq> ''eq_dd_aux_'') names"

fun duckdb_suits :: "duckdb_builder \<Rightarrow> engine \<Rightarrow> table \<Rightarrow> row list \<Rightarrow> bool" where
  "duckdb_suits DuckDBUniqueIndexMatBuilder E t B = unique_holds E (column_names t) PK_COLUMN B"
| "duckdb_suits DuckDBAddDropColumnTableBuilder E t B = eq_dd_free (column_names t)"
| "duckdb_suits DuckDBEnumTypeRoundTripBuilder E t B =
     (\<forall>c aux. c \<in> set (column_names t) \<longrightarrow> gives E (column_names t) (enum_cast aux c) c B)"
| "duckdb_suits b E t B = True"


section \<open>What the objects show\<close>

lemma macro_shown:
  assumes "engine_ok E" "answers E (objs d) (Suc f) q names B" "fresh_in d [m, nm]"
  shows "\<exists>d'. exec_natives E k [QueryView prefix m link q, star_view nm m] d = Some d' \<and> exposes E (objs d') (Suc (Suc (Suc f))) nm names B"
proof -
  have fresh: "objs d m = None" "objs d nm = None" "nm \<noteq> m" using assms(3) by (auto simp: fresh_in_def)
  from query_view_exposed [OF assms(2) fresh(1), of k "prefix" link] obtain d1
    where d1: "exec_native E k (QueryView prefix m link q) d = Some d1" "exposes E (objs d1) (Suc (Suc f)) m names B"
      "\<forall>x. x \<noteq> m \<longrightarrow> objs d1 x = objs d x" by blast
  have "objs d1 nm = None" using d1(3) fresh by simp
  from star_exposes [OF assms(1) d1(2) this, of k] show ?thesis using d1(1) by (auto simp del: exec_native.simps)
qed

text \<open>A copy, statements that leave its rows, and a view over the copy.\<close>

lemma copy_shown:
  assumes "engine_ok E" "table_ok t" "base_rows_ok t B" "exposes E (objs d) f b (column_names t) B" "fresh_in d [c, nm]"
    and items: "items = None \<or> items = Some (map out_item (column_names t))"
    and mids: "\<And>d1. stores d1 c (column_names t) B \<Longrightarrow>
      \<exists>d2. exec_natives E f mids d1 = Some d2 \<and> stores d2 c (column_names t) B \<and> (\<forall>x. x \<noteq> c \<longrightarrow> objs d2 x = objs d1 x)"
    and view: "view = star_view nm c \<or> view = expose nm (column_names t) c"
  shows "\<exists>d'. exec_natives E f ([copy_table keyword c items b] @ mids @ [view]) d = Some d' \<and> exposes E (objs d') (Suc (Suc j)) nm (column_names t) B"
proof -
  have fresh: "objs d c = None" "objs d nm = None" "nm \<noteq> c" using assms(5) by (auto simp: fresh_in_def)
  note lens = table_ok_distinct [OF assms(2)] length_rows [OF assms(3)]
  from copied_stores [OF assms(1,4) fresh(1), of items keyword] items lens obtain d1
    where d1: "exec_native E f (copy_table keyword c items b) d = Some d1" "stores d1 c (column_names t) B" "\<forall>x. x \<noteq> c \<longrightarrow> objs d1 x = objs d x"
    by blast
  from mids [OF d1(2)] obtain d2 where d2: "exec_natives E f mids d1 = Some d2" "stores d2 c (column_names t) B" "\<forall>x. x \<noteq> c \<longrightarrow> objs d2 x = objs d1 x"
    by blast
  have run: "exec_natives E f ([copy_table keyword c items b] @ mids) d = Some d2"
    using d1(1) d2(1) by (simp del: exec_native.simps)
  have new: "objs d2 nm = None" using d1(3) d2(3) fresh by simp
  from star_exposes [OF assms(1) stores_exposes [OF d2(2), where f = j] new, of f]
    exposes_view [OF assms(1) stores_exposes [OF d2(2), where f = j] new lens, of f] view
  obtain d3 where "exec_native E f view d2 = Some d3" "exposes E (objs d3) (Suc (Suc j)) nm (column_names t) B" by blast
  moreover from this(1) have "exec_natives E f [view] d2 = Some d3" by simp
  ultimately show ?thesis using exec_chain [OF run] by (auto simp del: exec_natives.simps)
qed

lemma add_drop:
  assumes "table_ok t" "base_rows_ok t B" "x \<notin> set (column_names t)" "stores d1 c (column_names t) B"
  shows "\<exists>d2. exec_natives E f [AddColumn c x txt v, DropColumn c x] d1 = Some d2 \<and> stores d2 c (column_names t) B
    \<and> (\<forall>y. y \<noteq> c \<longrightarrow> objs d2 y = objs d1 y)"
  by (rule exec_add_drop [OF assms(4,3) table_ok_distinct [OF assms(1)] length_rows [OF assms(2)]])

lemma extra_named: "generate_column_name ''eq_dd_aux'' s = Inr (x, s') \<Longrightarrow> take 10 x = ''eq_dd_aux_''"
  by (auto simp: generate_column_name_def generate_object_name_def gbind_def gread_def gmodify_def greturn_def)

lemma extra_new: "generate_column_name ''eq_dd_aux'' s = Inr (x, s') \<Longrightarrow> eq_dd_free names \<Longrightarrow> x \<notin> set names"
  using extra_named [of s x s'] by (auto simp: eq_dd_free_def list_all_iff)

text \<open>The object of a specification and what it needs.\<close>

fun duck_object_for :: "duckdb_spec \<Rightarrow> string \<Rightarrow> string \<Rightarrow> string \<Rightarrow> eqnode \<Rightarrow> duckdb_object" where
  "duck_object_for MacroSpec nm ref extra body = DuckDBMacroObject nm (nm @ ''_macro'') body"
| "duck_object_for (DuckIndexSpec target cols unique) nm ref extra body = DuckDBIndexObject nm ref (nm @ ''_idx'') cols target unique"
| "duck_object_for AttachSpec nm ref extra body = DuckDBAttachObject nm ref (nm @ ''_att_db'') ''mirror''"
| "duck_object_for (CatalogSpec k) nm ref extra body = catalog_object nm ref body k extra ''''"
| "duck_object_for (EnumSpec text_col) nm ref extra body = catalog_object nm ref body ENUM_ROUND_TRIP '''' text_col"

fun duck_fits :: "duckdb_spec \<Rightarrow> string \<Rightarrow> engine \<Rightarrow> string list \<Rightarrow> row list \<Rightarrow> bool" where
  "duck_fits MacroSpec extra E names B \<longleftrightarrow> True"
| "duck_fits (DuckIndexSpec target cols unique) extra E names B \<longleftrightarrow>
     cols = names \<and> target \<in> set names \<and> (unique \<longrightarrow> unique_holds E names target B)"
| "duck_fits AttachSpec extra E names B \<longleftrightarrow> True"
| "duck_fits (CatalogSpec k) extra E names B \<longleftrightarrow> k \<noteq> ENUM_ROUND_TRIP \<and> (k = ADD_DROP_COLUMN \<longrightarrow> extra \<notin> set names)"
| "duck_fits (EnumSpec text_col) extra E names B \<longleftrightarrow> (\<forall>aux. gives E names (enum_cast aux text_col) text_col B)"

lemma duckdb_altered:
  assumes "duckdb_alter a env body (Some nm) s = Inr (Some x, s')" "nm \<noteq> []"
  shows "nn_body x = body \<and> (\<exists>ref extra. nn_object x = duck_object_for a nm ref extra body \<and> (a \<noteq> MacroSpec \<longrightarrow> materialized_name body = Some ref)
    \<and> (\<forall>k. a = CatalogSpec k \<longrightarrow> (\<exists>s s'. generate_column_name ''eq_dd_aux'' s = Inr (extra, s'))))"
proof (cases a)
  case MacroSpec
  from query_made_step [OF assms(1) [unfolded MacroSpec duckdb_alter.simps] assms(2)] show ?thesis by (simp add: MacroSpec)
next
  case (CatalogSpec k)
  from assms(1) obtain extra s1 where e: "generate_column_name ''eq_dd_aux'' s = Inr (extra, s1)"
    and made: "native_make env (Some nm) body (\<lambda>nm ref. greturn (catalog_object nm ref body k extra '''')) s1 = Inr (Some x, s')"
    by (auto simp: CatalogSpec gbind_def split: sum.splits)
  from made_step [OF made assms(2)] e show ?thesis by (auto simp: CatalogSpec)
qed (use assms in \<open>auto dest: made_step\<close>)

lemma duck_guard_fits:
  assumes "duckdb_guard b q = Some a" "get_signature q = table_signature t" "duckdb_suits b E t B"
    and "\<forall>k. a = CatalogSpec k \<longrightarrow> (\<exists>s s'. generate_column_name ''eq_dd_aux'' s = Inr (extra, s'))"
  shows "duck_fits a extra E (column_names t) B"
    "duckdb_body b = (case a of MacroSpec \<Rightarrow> None | DuckIndexSpec target cols unique \<Rightarrow> Some CreateTable | _ \<Rightarrow> Some CreateView)"
proof -
  note cols = out_cols_signature [OF assms(2)]
  show "duck_fits a extra E (column_names t) B"
    using assms(1,3,4) first_text_member [of q] extra_new by (cases b; fastforce simp: cols split: if_splits list.splits)
  show "duckdb_body b = (case a of MacroSpec \<Rightarrow> None | DuckIndexSpec target cols unique \<Rightarrow> Some CreateTable | _ \<Rightarrow> Some CreateView)"
    using assms(1) by (cases b) (auto split: if_splits list.splits)
qed

lemma duck_spec_shown:
  assumes "engine_ok E" "table_ok t" "base_rows_ok t B" "get_signature body = table_signature t" "duck_fits a extra E (column_names t) B"
    and "a = MacroSpec \<Longrightarrow> answers E (objs (native_start db)) (Suc f) body (column_names t) B"
    and "a \<noteq> MacroSpec \<Longrightarrow> exposes E (objs (native_start db)) (Suc f) b (column_names t) B"
    and "\<And>target cols unique. a = DuckIndexSpec target cols unique \<Longrightarrow> stores (native_start db) b (column_names t) B"
    and fresh: "fresh_in (native_start db) (concat (map creates (duckdb_visit (duck_object_for a nm b extra body))))"
  shows "\<exists>d'. exec_natives E (Suc f) (duckdb_visit (duck_object_for a nm b extra body)) (native_start db) = Some d'
    \<and> exposes E (objs d') (Suc (Suc (Suc f))) nm (column_names t) B"
proof -
  let ?names = "column_names t" and ?d = "native_start db"
  note lens = table_ok_distinct [OF assms(2)] length_rows [OF assms(3)]
  note cols = out_cols_signature [OF assms(4)]
  show ?thesis
  proof (cases a)
    case MacroSpec
    have "fresh_in ?d [(nm @ ''_macro'') @ ''()'', nm]" using fresh by (simp add: MacroSpec star_view_def)
    from macro_shown [OF assms(1) assms(6) [OF MacroSpec] this] show ?thesis
      by (simp add: MacroSpec del: exec_natives.simps exec_native.simps)
  next
    case (DuckIndexSpec target cols' unique)
    note stored = assms(8) [OF DuckIndexSpec]
    have new: "objs ?d nm = None" "cols' = ?names" using fresh assms(5) by (auto simp: DuckIndexSpec fresh_in_def expose_def view_of_def)
    have "exec_native E (Suc f) (IndexOn unique ix b target tail) ?d = Some ?d" for ix tail
      using assms(5) exec_unique [OF stored] exec_index [OF stored] by (cases unique) (simp_all add: DuckIndexSpec del: exec_native.simps)
    then have "exec_natives E (Suc f) [IndexOn unique ix b target tail] ?d = Some ?d" for ix tail by simp
    from body_exposed [OF assms(1) stored lens this new(1)] show ?thesis
      by (simp add: DuckIndexSpec new(2) del: exec_natives.simps exec_native.simps)
  next
    case AttachSpec
    have "fresh_in ?d [(nm @ ''_att_db'') @ ''.'' @ ''mirror'', nm]" using fresh by (simp add: AttachSpec star_view_def copy_table_def)
    from copy_shown [OF assms(1-3) assms(7) this, where mids = "[]" and view = "star_view nm ((nm @ ''_att_db'') @ ''.'' @ ''mirror'')"
        and items = None and keyword = "''TABLE''"]
    show ?thesis by (simp add: AttachSpec del: exec_native.simps(1))
  next
    case (CatalogSpec k)
    note shown = copy_shown [OF assms(1-3) assms(7), where items = "Some (map out_item ?names)" and keyword = "''OR REPLACE TABLE''"]
    show ?thesis
    proof (cases k)
      case SCHEMA
      have "fresh_in ?d [(nm @ ''_sch'') @ ''.'' @ nm @ ''_tbl'', nm]"
        using fresh by (simp add: CatalogSpec SCHEMA catalog_object_def replace_table_def copy_table_def expose_def view_of_def)
      from shown [OF _ this, where mids = "[]" and view = "expose nm ?names ((nm @ ''_sch'') @ ''.'' @ nm @ ''_tbl'')"] show ?thesis
        by (simp add: CatalogSpec SCHEMA catalog_object_def replace_table_def cols del: exec_native.simps(1))
    next
      case ADD_DROP_COLUMN
      have "fresh_in ?d [nm @ ''_tbl'', nm]"
        using fresh by (simp add: CatalogSpec ADD_DROP_COLUMN catalog_object_def replace_table_def copy_table_def expose_def view_of_def)
      moreover have "extra \<notin> set ?names" using assms(5) by (simp add: CatalogSpec ADD_DROP_COLUMN)
      note add_drop [OF assms(2,3) this, of _ "nm @ ''_tbl''" E "Suc f" "'' INTEGER DEFAULT 42''" "SInt 42"]
      ultimately have "\<exists>d'. exec_natives E (Suc f) ([copy_table ''OR REPLACE TABLE'' (nm @ ''_tbl'') (Some (map out_item ?names)) b]
          @ [AddColumn (nm @ ''_tbl'') extra '' INTEGER DEFAULT 42'' (SInt 42), DropColumn (nm @ ''_tbl'') extra]
          @ [expose nm ?names (nm @ ''_tbl'')]) ?d = Some d' \<and> exposes E (objs d') (Suc (Suc (Suc f))) nm ?names B"
        by (intro shown) (simp_all add: CatalogSpec)
      then show ?thesis
        by (simp add: CatalogSpec ADD_DROP_COLUMN catalog_object_def replace_table_def cols del: exec_natives.simps exec_native.simps)
    next
      case CHECKPOINT
      have "fresh_in ?d [nm @ ''_tbl'', nm]"
        using fresh by (simp add: CatalogSpec CHECKPOINT catalog_object_def replace_table_def copy_table_def expose_def view_of_def)
      from shown [OF _ this, where mids = "[Setting ''CHECKPOINT'']" and view = "expose nm ?names (nm @ ''_tbl'')"] show ?thesis
        by (simp add: CatalogSpec CHECKPOINT catalog_object_def replace_table_def cols del: exec_native.simps(1))
    next
      case ENUM_ROUND_TRIP
      with assms(5) show ?thesis by (simp add: CatalogSpec)
    qed
  next
    case (EnumSpec text_col)
    have new: "objs ?d nm = None" using fresh by (simp add: EnumSpec catalog_object_def fresh_in_def view_of_def)
    have reads: "scalar (enum_read text_col aux c) \<and> gives E ?names (enum_read text_col aux c) c B" for aux c
      using assms(5) gives_itself by (simp add: EnumSpec enum_read_def enum_cast_def col_def)
    have "exposes E (objs ?d) (Suc f) b ?names B" by (rule assms(7)) (simp add: EnumSpec)
    then have "exposes E (objs ?d) (Suc (Suc f)) b ?names B" by (rule exposes_deeper)
    from read_as_exposed [OF assms(1) this new lens, of "enum_read text_col (nm @ ''_enum'')" "Suc f"] reads obtain d'
      where "exec_native E (Suc f) (view_of nm (map (read_as (enum_read text_col (nm @ ''_enum''))) ?names) b) ?d = Some d'"
        "exposes E (objs d') (Suc (Suc (Suc f))) nm ?names B" by blast
    then show ?thesis by (simp add: EnumSpec catalog_object_def cols del: exec_native.simps(1))
  qed
qed

lemma duck_names:
  assumes "clear_names env nm"
  shows "own_names env nm s s' (concat (map creates (duckdb_visit (duck_object_for a nm b extra body))))"
proof (cases a)
  case (CatalogSpec k)
  then show ?thesis
    by (cases k) (auto simp: own_names_def native_suffixes_def expose_def view_of_def replace_table_def copy_table_def catalog_object_def)
qed (auto simp: own_names_def native_suffixes_def expose_def view_of_def star_view_def copy_table_def catalog_object_def)

interpretation duckdb: native_builder "duckdb_body b" "look (duckdb_guard b)" duckdb_alter duckdb_visit "duckdb_suits b" for b
proof
  show "quiet (look (duckdb_guard b))" by simp
next
  fix a env body nm s x s'
  assume made: "duckdb_alter a env body (Some nm) s = Inr (Some x, s')" and clear: "clear_names env nm"
  then have "nm \<noteq> []" by (simp add: clear_names_def)
  from duckdb_altered [OF made this] obtain ref extra where x: "nn_body x = body" "nn_object x = duck_object_for a nm ref extra body" by blast
  from duck_names [OF clear] x show "nn_body x = body \<and> own_names env nm s s' (concat (map creates (duckdb_visit (nn_object x))))" by simp
next
  fix q s0 a s1 t body env nm s x s' E B db f
  assume drawn: "look (duckdb_guard b) q s0 = Inr (Some a, s1)" and sig: "get_signature q = table_signature t" "get_signature body = table_signature t"
    and made: "duckdb_alter a env body (Some nm) s = Inr (Some x, s')" "nm \<noteq> []"
    and ok: "engine_ok E" "table_ok t" "base_rows_ok t B" and suits: "duckdb_suits b E t B"
    and holds: "body_holds E (native_start db) (Suc f) (duckdb_body b) body (column_names t) B"
    and fresh: "fresh_in (native_start db) (concat (map creates (duckdb_visit (nn_object x))))"
  from drawn have guard: "duckdb_guard b q = Some a" by (simp add: look_Some)
  from duckdb_altered [OF made] obtain ref extra where x: "nn_object x = duck_object_for a nm ref extra body"
    and ref: "a \<noteq> MacroSpec \<longrightarrow> materialized_name body = Some ref"
    and extra: "\<forall>k. a = CatalogSpec k \<longrightarrow> (\<exists>s s'. generate_column_name ''eq_dd_aux'' s = Inr (extra, s'))" by blast
  note fit = duck_guard_fits [OF guard sig(1) suits extra]
  show "\<exists>d'. exec_natives E (Suc f) (duckdb_visit (nn_object x)) (native_start db) = Some d'
      \<and> exposes E (objs d') (Suc (Suc (Suc f))) nm (column_names t) B"
    unfolding x
  proof (rule duck_spec_shown [OF ok sig(2) fit(1)])
    show "answers E (objs (native_start db)) (Suc f) body (column_names t) B" if "a = MacroSpec"
      using holds fit(2) that by (simp add: body_holds_def)
    show "exposes E (objs (native_start db)) (Suc f) ref (column_names t) B" if "a \<noteq> MacroSpec"
      using holds fit(2) ref that by (cases a) (auto simp: body_holds_def)
    show "stores (native_start db) ref (column_names t) B" if "a = DuckIndexSpec target cols unique" for target cols unique
      using holds fit(2) ref that body_table(1) by simp
  qed (use fresh x in simp)
qed

end
