(* ===== verification/Coa_Sqlite.thy ===== *)
theory Coa_Sqlite
  imports Coa_Native_Forms Coa_Mysql
begin

text \<open>
  The objects only SQLite has: \<open>dialects/sqlite/ast.py\<close>, the materializing builders of \<open>builders.py\<close>, and the object visits
  of \<open>dialects/sqlite/emitter.py\<close>.  Some builders draw one of several spellings.  A typed copy takes the values of the
  columns it declares; \<open>NOT NULL\<close> and primary keys are checked.
\<close>


section \<open>Objects\<close>

datatype sqlite_object =
    SqliteIndexObject string string string "string list" string bool string
  | SqliteAttachObject string string string string "string list"
  | SqliteWithoutRowidObject string string string "string list" "decl list" string
  | SqliteGeneratedObject string string string "string list" "decl list" string string bool
  | SqliteStrictObject string string string "string list" "decl list"
  | SqliteExprIndexObject string string string string "string list" string
  | SqliteWithoutRowidIndexObject string string string string "string list" "decl list" string string
  | SqliteAnalyzeIndexObject string string string string "string list" string string

datatype sqlite_spec =
    SqlIndexSpec string "string list" bool string
  | SqlAttachSpec
  | WithoutRowidSpec "decl list" "string list" string
  | GeneratedSpec "decl list" "string list" string bool
  | StrictSpec "decl list" "string list"
  | ExprIndexSpec "string list" string
  | WithoutRowidIndexSpec "decl list" "string list" string string
  | AnalyzeIndexSpec string "string list" string

fun sqlite_object_of :: "sqlite_spec \<Rightarrow> eqnode \<Rightarrow> string \<Rightarrow> string \<Rightarrow> sqlite_object" where
  "sqlite_object_of (SqlIndexSpec target cols unique where_sql) body nm ref =
     SqliteIndexObject nm ref (nm @ ''_idx'') cols target unique where_sql"
| "sqlite_object_of SqlAttachSpec body nm ref = SqliteAttachObject nm ref (nm @ ''_att'') ''mirror'' (out_cols_of body)"
| "sqlite_object_of (WithoutRowidSpec defs cols pk) body nm ref = SqliteWithoutRowidObject nm ref (nm @ ''_wor'') cols defs pk"
| "sqlite_object_of (GeneratedSpec defs cols gen_of st) body nm ref =
     SqliteGeneratedObject nm ref (nm @ ''_gen'') cols defs ''eq_gen'' gen_of st"
| "sqlite_object_of (StrictSpec defs cols) body nm ref = SqliteStrictObject nm ref (nm @ ''_strict'') cols defs"
| "sqlite_object_of (ExprIndexSpec cols spelled) body nm ref =
     SqliteExprIndexObject nm ref (nm @ ''_eix'') (nm @ ''_eix_idx'') cols spelled"
| "sqlite_object_of (WithoutRowidIndexSpec defs cols pk index_col) body nm ref =
     SqliteWithoutRowidIndexObject nm ref (nm @ ''_wri'') (nm @ ''_wri_idx'') cols defs pk index_col"
| "sqlite_object_of (AnalyzeIndexSpec target cols where_sql) body nm ref =
     SqliteAnalyzeIndexObject nm ref ref (nm @ ''_an_idx'') cols target where_sql"

definition sqlite_alter :: "(sqlite_spec, sqlite_object) alter" where
  "sqlite_alter spec env body given = native_make env given body (\<lambda>nm ref. greturn (sqlite_object_of spec body nm ref))"


section \<open>Builders\<close>

datatype sqlite_builder =
    SqliteCreateIndexBuilder | SqliteUniqueIndexMatBuilder | SqlitePartialIndexBuilder | SqliteTruthyPartialIndexBuilder
  | SqliteConstantPartialIndexBuilder | SqliteAttachRoundTripBuilder | SqliteWithoutRowidTableBuilder
  | SqliteGeneratedColumnRoundTripBuilder | SqliteStoredGeneratedColumnRoundTripBuilder | SqliteStrictTableBuilder
  | SqliteExpressionIndexMatBuilder | SqliteWithoutRowidIndexedBuilder | SqliteAnalyzeIndexMatBuilder

definition column_decl :: "bool \<Rightarrow> string \<times> sql_type \<Rightarrow> decl" where
  "column_decl strict = (\<lambda>(nm, ty).
     let type_sql = (if strict \<and> sqlite_type ty = ''NUMERIC'' then ''REAL'' else sqlite_type ty)
     in if nm = PK_COLUMN then RequiredDecl nm type_sql else ColumnDecl nm type_sql)"

definition col_defs :: "bool \<Rightarrow> signature \<Rightarrow> decl list" where
  "col_defs strict sig = map (column_decl strict) sig"

definition PARTIAL_INDEX_PREDICATES :: "string list" where
  "PARTIAL_INDEX_PREDICATES = [''0'', ''1'', ''FALSE'', ''TRUE'']"

definition expr_index_spellings :: "string \<Rightarrow> string list" where
  "expr_index_spellings c = [''('' @ c @ '' + 0)'', ''(ABS('' @ c @ ''))'']"

definition analyze_index_predicates :: "string \<Rightarrow> string list" where
  "analyze_index_predicates c = [[], c, c @ '' IS NOT NULL'']"

text \<open>\<open>next(\<dots>)\<close> over the columns other than the key.\<close>

definition other_col :: "string list \<Rightarrow> string option" where
  "other_col cols = find (\<lambda>c. c \<noteq> PK_COLUMN) cols"

definition other_or_first :: "string list \<Rightarrow> string option" where
  "other_or_first cols = (case other_col cols of Some c \<Rightarrow> Some c | None \<Rightarrow> (if cols = [] then None else Some (hd cols)))"

definition number_type :: "sql_type \<Rightarrow> bool" where
  "number_type ty \<longleftrightarrow> is_numeric ty \<or> is_double ty"

definition truthy_col :: "signature \<Rightarrow> string option" where
  "truthy_col sig = map_option fst (find (\<lambda>(nm, ty). nm \<noteq> PK_COLUMN \<and> (is_varchar ty \<or> number_type ty)) sig)"

definition number_col :: "signature \<Rightarrow> string option" where
  "number_col sig =
     (case find (\<lambda>(nm, ty). number_type ty \<and> nm \<noteq> PK_COLUMN) sig of
        Some p \<Rightarrow> Some (fst p)
      | None \<Rightarrow> if PK_COLUMN \<in> set (map fst sig) then Some PK_COLUMN else None)"

text \<open>What a builder may make of a query: nothing when it declines, one specification, or the variants it draws from.\<close>

fun sqlite_specs :: "sqlite_builder \<Rightarrow> signature \<Rightarrow> sqlite_spec list" where
  "sqlite_specs SqliteCreateIndexBuilder sig =
     (case other_or_first (map fst sig) of None \<Rightarrow> [] | Some target \<Rightarrow> [SqlIndexSpec target (map fst sig) False []])"
| "sqlite_specs SqliteUniqueIndexMatBuilder sig =
     (if PK_COLUMN \<in> set (map fst sig) then [SqlIndexSpec PK_COLUMN (map fst sig) True []] else [])"
| "sqlite_specs SqlitePartialIndexBuilder sig =
     (case other_col (map fst sig) of None \<Rightarrow> []
      | Some c \<Rightarrow> [SqlIndexSpec (if PK_COLUMN \<in> set (map fst sig) then PK_COLUMN else c) (map fst sig) False (c @ '' IS NOT NULL'')])"
| "sqlite_specs SqliteTruthyPartialIndexBuilder sig =
     (case truthy_col sig of None \<Rightarrow> [] | Some c \<Rightarrow> [SqlIndexSpec c (map fst sig) False c])"
| "sqlite_specs SqliteConstantPartialIndexBuilder sig =
     (case other_or_first (map fst sig) of None \<Rightarrow> []
      | Some target \<Rightarrow> map (SqlIndexSpec target (map fst sig) False) PARTIAL_INDEX_PREDICATES)"
| "sqlite_specs SqliteAttachRoundTripBuilder sig = [SqlAttachSpec]"
| "sqlite_specs SqliteWithoutRowidTableBuilder sig =
     (if PK_COLUMN \<in> set (map fst sig) then [WithoutRowidSpec (col_defs False sig) (map fst sig) PK_COLUMN] else [])"
| "sqlite_specs SqliteGeneratedColumnRoundTripBuilder sig =
     (if PK_COLUMN \<in> set (map fst sig) then [GeneratedSpec (col_defs False sig) (map fst sig) PK_COLUMN False] else [])"
| "sqlite_specs SqliteStoredGeneratedColumnRoundTripBuilder sig =
     (if PK_COLUMN \<in> set (map fst sig) then [GeneratedSpec (col_defs False sig) (map fst sig) PK_COLUMN True] else [])"
| "sqlite_specs SqliteStrictTableBuilder sig =
     (if list_ex (\<lambda>(nm, ty). sqlite_type ty = ''NUMERIC'') sig then [] else [StrictSpec (col_defs True sig) (map fst sig)])"
| "sqlite_specs SqliteExpressionIndexMatBuilder sig =
     (case number_col sig of None \<Rightarrow> [] | Some c \<Rightarrow> map (ExprIndexSpec (map fst sig)) (expr_index_spellings c))"
| "sqlite_specs SqliteWithoutRowidIndexedBuilder sig =
     (case other_col (map fst sig) of None \<Rightarrow> []
      | Some c \<Rightarrow> if PK_COLUMN \<in> set (map fst sig) then [WithoutRowidIndexSpec (col_defs False sig) (map fst sig) PK_COLUMN c] else [])"
| "sqlite_specs SqliteAnalyzeIndexMatBuilder sig =
     (case other_or_first (map fst sig) of None \<Rightarrow> []
      | Some target \<Rightarrow> map (AnalyzeIndexSpec target (map fst sig)) (analyze_index_predicates target))"

fun draws_spelling :: "sqlite_builder \<Rightarrow> bool" where
  "draws_spelling SqliteConstantPartialIndexBuilder = True"
| "draws_spelling SqliteExpressionIndexMatBuilder = True"
| "draws_spelling SqliteAnalyzeIndexMatBuilder = True"
| "draws_spelling b = False"

definition sqlite_guard :: "sqlite_builder \<Rightarrow> sqlite_spec guard" where
  "sqlite_guard b =
     (if draws_spelling b then draw_variant (\<lambda>query. sqlite_specs b (get_signature query))
      else look (\<lambda>query. case sqlite_specs b (get_signature query) of [] \<Rightarrow> None | a # rest \<Rightarrow> Some a))"

fun sqlite_body :: "sqlite_builder \<Rightarrow> create_class option" where
  "sqlite_body SqliteAttachRoundTripBuilder = Some CreateView"
| "sqlite_body SqliteWithoutRowidTableBuilder = Some CreateView"
| "sqlite_body SqliteGeneratedColumnRoundTripBuilder = Some CreateView"
| "sqlite_body SqliteStoredGeneratedColumnRoundTripBuilder = Some CreateView"
| "sqlite_body SqliteStrictTableBuilder = Some CreateView"
| "sqlite_body SqliteWithoutRowidIndexedBuilder = Some CreateView"
| "sqlite_body b = Some CreateTable"


section \<open>The emitter\<close>

definition where_clause :: "string \<Rightarrow> string" where
  "where_clause w = (if w = [] then [] else '' WHERE '' @ w)"

definition attach_items :: "string list \<Rightarrow> proj_item list option" where
  "attach_items cols = (if cols = [] then None else Some (map out_item cols))"

fun sqlite_visit :: "sqlite_object \<Rightarrow> native_stmt list" where
  "sqlite_visit (SqliteIndexObject nm ref ix cols target unique where_sql) =
     [IndexOn unique ix ref target ('' ('' @ target @ '')'' @ where_clause where_sql), expose nm cols ref]"
| "sqlite_visit (SqliteAnalyzeIndexObject nm ref tbl ix cols target where_sql) =
     [IndexOn False ix ref target ('' ('' @ target @ '')'' @ where_clause where_sql), OnTable ''ANALYZE '' ref '''', expose nm cols ref]"
| "sqlite_visit (SqliteAttachObject nm ref alias mirror cols) =
     [Setting (''ATTACH DATABASE '' @ quoted '':memory:'' @ '' AS '' @ alias),
      copy_table ''TABLE'' (alias @ ''.'' @ mirror) (attach_items cols) ref,
      copy_table ''TABLE'' nm (attach_items cols) (alias @ ''.'' @ mirror), Detach alias mirror]"
| "sqlite_visit (SqliteWithoutRowidObject nm ref tbl cols defs pk) =
     [TypedTable tbl (defs @ [KeyDecl pk]) '' WITHOUT ROWID'', Fill tbl cols ref, expose nm cols tbl]"
| "sqlite_visit (SqliteGeneratedObject nm ref tbl cols defs gen gen_of st) =
     [TypedTable tbl (defs @ [ComputedDecl gen gen_of (col gen_of IntegerType) (if st then '' STORED'' else '' VIRTUAL'')]) '''',
      Fill tbl cols ref, expose nm cols tbl]"
| "sqlite_visit (SqliteStrictObject nm ref tbl cols defs) = [TypedTable tbl defs '' STRICT'', Fill tbl cols ref, expose nm cols tbl]"
| "sqlite_visit (SqliteExprIndexObject nm ref tbl ix cols spelled) =
     [OnTable (''CREATE INDEX '' @ ix @ '' ON '') ref ('' ('' @ spelled @ '')''), expose nm cols ref]"
| "sqlite_visit (SqliteWithoutRowidIndexObject nm ref tbl ix cols defs pk index_col) =
     [TypedTable tbl (defs @ [KeyDecl pk]) '' WITHOUT ROWID'', Fill tbl cols ref, IndexOn False ix tbl index_col ('' ('' @ index_col @ '')''),
      expose nm cols tbl]"


section \<open>What the objects need\<close>

fun sqlite_suits :: "sqlite_builder \<Rightarrow> engine \<Rightarrow> table \<Rightarrow> row list \<Rightarrow> bool" where
  "sqlite_suits SqliteUniqueIndexMatBuilder E t B = unique_holds E (column_names t) PK_COLUMN B"
| "sqlite_suits SqliteWithoutRowidTableBuilder E t B = key_holds E (column_names t) PK_COLUMN B"
| "sqlite_suits SqliteWithoutRowidIndexedBuilder E t B = key_holds E (column_names t) PK_COLUMN B"
| "sqlite_suits SqliteGeneratedColumnRoundTripBuilder E t B = (not_null (column_names t) PK_COLUMN B \<and> ''eq_gen'' \<notin> set (column_names t))"
| "sqlite_suits SqliteStoredGeneratedColumnRoundTripBuilder E t B = (not_null (column_names t) PK_COLUMN B \<and> ''eq_gen'' \<notin> set (column_names t))"
| "sqlite_suits SqliteStrictTableBuilder E t B = (PK_COLUMN \<in> set (column_names t) \<longrightarrow> not_null (column_names t) PK_COLUMN B)"
| "sqlite_suits b E t B = True"


section \<open>What the objects show\<close>

lemma column_decl_parts:
  "decl_column (column_decl strict p) = [fst p]" "decl_computed (column_decl strict p) = []" "decl_key (column_decl strict p) = []"
  "decl_required (column_decl strict p) = (if fst p = PK_COLUMN then [PK_COLUMN] else [])"
  by (cases p; simp add: column_decl_def Let_def)+

lemma col_defs_decls:
  "concat (map decl_column (col_defs strict sig)) = map fst sig" "concat (map decl_computed (col_defs strict sig)) = []"
  "concat (map decl_key (col_defs strict sig)) = []" "set (concat (map decl_required (col_defs strict sig))) = {PK_COLUMN} \<inter> set (map fst sig)"
  by (induction sig) (auto simp: col_defs_def column_decl_parts)

lemma signature_columns: "map fst (table_signature t) = column_names t"
  by (simp add: table_signature_def column_names_def o_def)

lemmas table_decls = col_defs_decls [where sig = "table_signature t" for t, unfolded signature_columns]

text \<open>A typed copy with a primary key, and one with a column computed from another.\<close>

lemma keyed_shown:
  assumes "engine_ok E" "table_ok t" "base_rows_ok t B" "exposes E (objs (native_start db)) (Suc f) b (column_names t) B"
    and "fresh_in (native_start db) [tbl, nm]" "key_holds E (column_names t) PK_COLUMN B"
    and "\<And>d1. stores d1 tbl (column_names t) B \<Longrightarrow> exec_natives E (Suc f) mids d1 = Some d1"
  shows "\<exists>d'. exec_natives E (Suc f) ([TypedTable tbl (col_defs False (table_signature t) @ [KeyDecl PK_COLUMN]) tail,
        Fill tbl (column_names t) b] @ mids @ [expose nm (column_names t) tbl]) (native_start db) = Some d'
    \<and> exposes E (objs d') (Suc (Suc j)) nm (column_names t) B"
proof (rule typed_child_exposed [OF assms(1,4,5)])
  show "part_key (native_start db) tbl = None" by (simp add: native_start_def)
  show "concat (map decl_column (col_defs False (table_signature t) @ [KeyDecl PK_COLUMN])) = column_names t"
    "concat (map decl_computed (col_defs False (table_signature t) @ [KeyDecl PK_COLUMN])) = []"
    "concat (map decl_key (col_defs False (table_signature t) @ [KeyDecl PK_COLUMN])) = [PK_COLUMN]"
    unfolding map_append concat_append table_decls by simp_all
  show "\<forall>c \<in> set (concat (map decl_required (col_defs False (table_signature t) @ [KeyDecl PK_COLUMN]))). not_null (column_names t) c B"
    using table_decls(4) [of False t] key_not_null [OF assms(6)] by simp
  show "\<forall>r \<in> set B. compute_row E (column_names t) [] r = Some (r @ [])" by (simp add: compute_none)
qed (use assms(6,7) table_ok_distinct [OF assms(2)] length_rows [OF assms(3)] in auto)

lemma generated_shown:
  assumes "engine_ok E" "table_ok t" "base_rows_ok t B" "exposes E (objs (native_start db)) (Suc f) b (column_names t) B"
    and "fresh_in (native_start db) [tbl, nm]" "not_null (column_names t) PK_COLUMN B" "gen \<notin> set (column_names t)"
  shows "\<exists>d'. exec_natives E (Suc f) [TypedTable tbl (col_defs False (table_signature t) @ [ComputedDecl gen src (col PK_COLUMN IntegerType) how]) tail,
        Fill tbl (column_names t) b, expose nm (column_names t) tbl] (native_start db) = Some d'
    \<and> exposes E (objs d') (Suc (Suc j)) nm (column_names t) B"
proof -
  let ?names = "column_names t" and ?decls = "col_defs False (table_signature t) @ [ComputedDecl gen src (col PK_COLUMN IntegerType) how]"
  have "PK_COLUMN \<in> set ?names" using assms(6) position_in by (auto simp: not_null_def column_values_def split: option.splits)
  then obtain k where k: "k < length ?names" "?names ! k = PK_COLUMN" by (auto simp: in_set_conv_nth)
  have evals: "eval_row E (plain_scope ?names) r (col PK_COLUMN IntegerType) = Some (r ! k)" for r
    using eval_out [OF table_ok_distinct [OF assms(2)] k(1)] k(2) by (simp add: col_def)
  have "\<exists>d'. exec_natives E (Suc f) ([TypedTable tbl ?decls tail, Fill tbl ?names b] @ [] @ [expose nm ?names tbl]) (native_start db) = Some d'
      \<and> exposes E (objs d') (Suc (Suc j)) nm ?names B"
  proof (rule typed_child_exposed [OF assms(1,4,5)])
    show "part_key (native_start db) tbl = None" by (simp add: native_start_def)
    show "concat (map decl_column ?decls) = ?names" "concat (map decl_computed ?decls) = [(gen, col PK_COLUMN IntegerType)]"
      "concat (map decl_key ?decls) = []"
      unfolding map_append concat_append table_decls by simp_all
    show "\<forall>c \<in> set (concat (map decl_required ?decls)). not_null ?names c B"
      using table_decls(4) [of False t] assms(6) by simp
    show "distinct (?names @ map fst [(gen, col PK_COLUMN IntegerType)])" using assms(7) table_ok_distinct [OF assms(2)] by simp
    show "\<forall>r \<in> set B. compute_row E ?names [(gen, col PK_COLUMN IntegerType)] r = Some (r @ [r ! k])"
      by (simp add: compute_row_def map_opt_def evals)
  qed (use length_rows [OF assms(3)] in auto)
  then show ?thesis by simp
qed

lemma strict_shown:
  assumes "engine_ok E" "table_ok t" "base_rows_ok t B" "exposes E (objs (native_start db)) (Suc f) b (column_names t) B"
    and "fresh_in (native_start db) [tbl, nm]" "PK_COLUMN \<in> set (column_names t) \<longrightarrow> not_null (column_names t) PK_COLUMN B"
  shows "\<exists>d'. exec_natives E (Suc f) [TypedTable tbl (col_defs True (table_signature t)) tail, Fill tbl (column_names t) b,
        expose nm (column_names t) tbl] (native_start db) = Some d'
    \<and> exposes E (objs d') (Suc (Suc j)) nm (column_names t) B"
proof -
  let ?names = "column_names t" and ?decls = "col_defs True (table_signature t)"
  have "\<exists>d'. exec_natives E (Suc f) ([TypedTable tbl ?decls tail, Fill tbl ?names b] @ [] @ [expose nm ?names tbl]) (native_start db) = Some d'
      \<and> exposes E (objs d') (Suc (Suc j)) nm ?names B"
  proof (rule typed_child_exposed [OF assms(1,4,5)])
    show "part_key (native_start db) tbl = None" by (simp add: native_start_def)
    show "\<forall>c \<in> set (concat (map decl_required ?decls)). not_null ?names c B"
      using table_decls(4) [of True t] assms(6) by auto
    show "\<forall>r \<in> set B. compute_row E ?names [] r = Some (r @ [])" by (simp add: compute_none)
  qed (use table_decls table_ok_distinct [OF assms(2)] length_rows [OF assms(3)] in auto)
  then show ?thesis by simp
qed

lemma attach_shown:
  assumes "engine_ok E" "table_ok t" "base_rows_ok t B" "exposes E (objs d) f b (column_names t) B"
    and "fresh_in d [alias @ ''.'' @ mirror, nm]" "f = Suc f0"
  shows "\<exists>d'. exec_natives E f (sqlite_visit (SqliteAttachObject nm b alias mirror (column_names t))) d = Some d'
    \<and> exposes E (objs d') (Suc j) nm (column_names t) B"
proof -
  let ?names = "column_names t" and ?m = "alias @ ''.'' @ mirror"
  have fresh: "objs d ?m = None" "objs d nm = None" "nm \<noteq> ?m" using assms(5) by (auto simp: fresh_in_def)
  have items: "attach_items ?names = None \<or> attach_items ?names = Some (map out_item ?names) \<and> distinct ?names \<and> (\<forall>r \<in> set B. length r = length ?names)"
    using table_ok_distinct [OF assms(2)] length_rows [OF assms(3)] by (simp add: attach_items_def)
  from copied_stores [OF assms(1,4) fresh(1) items, of "''TABLE''"] obtain d1
    where d1: "exec_native E f (copy_table ''TABLE'' ?m (attach_items ?names) b) d = Some d1" "stores d1 ?m ?names B" "\<forall>x. x \<noteq> ?m \<longrightarrow> objs d1 x = objs d x"
    by blast
  have "exposes E (objs d1) f ?m ?names B" unfolding assms(6) by (rule stores_exposes [OF d1(2)])
  moreover have "objs d1 nm = None" using d1(3) fresh by simp
  ultimately obtain d2 where d2: "exec_native E f (copy_table ''TABLE'' nm (attach_items ?names) ?m) d1 = Some d2" "stores d2 nm ?names B"
      "\<forall>x. x \<noteq> nm \<longrightarrow> objs d2 x = objs d1 x"
    using copied_stores [OF assms(1) _ _ items, of d1 f ?m nm "''TABLE''"] by blast
  have "objs d2 ?m \<noteq> None" using d1(2) d2(3) fresh(3) by (auto simp: stores_def)
  then have "exec_native E f (Detach alias mirror) d2 = Some (d2\<lparr>objs := (objs d2)(?m := None)\<rparr>)" by simp
  moreover have "stores (d2\<lparr>objs := (objs d2)(?m := None)\<rparr>) nm ?names B" using d2(2) fresh(3) by (simp add: stores_def)
  ultimately show ?thesis
    using d1(1) d2(1) stores_exposes by (fastforce simp del: exec_native.simps(1) exec_native.simps(21))
qed

text \<open>What a specification needs of the rows, and what its query is put under.\<close>

fun sqlite_fits :: "sqlite_spec \<Rightarrow> engine \<Rightarrow> table \<Rightarrow> row list \<Rightarrow> bool" where
  "sqlite_fits (SqlIndexSpec target cols unique w) E t B \<longleftrightarrow>
     cols = column_names t \<and> target \<in> set (column_names t) \<and> (unique \<longrightarrow> unique_holds E (column_names t) target B)"
| "sqlite_fits SqlAttachSpec E t B \<longleftrightarrow> True"
| "sqlite_fits (WithoutRowidSpec defs cols pk) E t B \<longleftrightarrow>
     defs = col_defs False (table_signature t) \<and> cols = column_names t \<and> pk = PK_COLUMN \<and> key_holds E (column_names t) PK_COLUMN B"
| "sqlite_fits (GeneratedSpec defs cols gen_of st) E t B \<longleftrightarrow>
     defs = col_defs False (table_signature t) \<and> cols = column_names t \<and> gen_of = PK_COLUMN
     \<and> not_null (column_names t) PK_COLUMN B \<and> ''eq_gen'' \<notin> set (column_names t)"
| "sqlite_fits (StrictSpec defs cols) E t B \<longleftrightarrow>
     defs = col_defs True (table_signature t) \<and> cols = column_names t
     \<and> (PK_COLUMN \<in> set (column_names t) \<longrightarrow> not_null (column_names t) PK_COLUMN B)"
| "sqlite_fits (ExprIndexSpec cols spelled) E t B \<longleftrightarrow> cols = column_names t"
| "sqlite_fits (WithoutRowidIndexSpec defs cols pk index_col) E t B \<longleftrightarrow>
     defs = col_defs False (table_signature t) \<and> cols = column_names t \<and> pk = PK_COLUMN \<and> index_col \<in> set (column_names t)
     \<and> key_holds E (column_names t) PK_COLUMN B"
| "sqlite_fits (AnalyzeIndexSpec target cols w) E t B \<longleftrightarrow> cols = column_names t \<and> target \<in> set (column_names t)"

definition over_table :: "sqlite_spec \<Rightarrow> bool" where
  "over_table a =
     (case a of SqlIndexSpec target cols unique w \<Rightarrow> True | ExprIndexSpec cols spelled \<Rightarrow> True
      | AnalyzeIndexSpec target cols w \<Rightarrow> True | _ \<Rightarrow> False)"

lemma col_members:
  "other_col cols = Some c \<Longrightarrow> c \<in> set cols" "other_or_first cols = Some c \<Longrightarrow> c \<in> set cols"
  "truthy_col sig = Some c \<Longrightarrow> c \<in> set (map fst sig)"
proof -
  show other: "other_col cols = Some c \<Longrightarrow> c \<in> set cols" for c
    by (auto simp: other_col_def find_Some_iff in_set_conv_nth)
  show "other_or_first cols = Some c \<Longrightarrow> c \<in> set cols"
    using other by (auto simp: other_or_first_def split: option.splits if_splits)
  show "truthy_col sig = Some c \<Longrightarrow> c \<in> set (map fst sig)"
    by (force simp: truthy_col_def find_Some_iff in_set_conv_nth)
qed

lemma specs_fit:
  assumes "a \<in> set (sqlite_specs b (table_signature t))" "sqlite_suits b E t B"
  shows "sqlite_fits a E t B" "sqlite_body b = Some (if over_table a then CreateTable else CreateView)"
proof -
  have names: "fst ` set (table_signature t) = set (column_names t)" using signature_columns [of t] by (metis set_map)
  show "sqlite_fits a E t B"
    using assms col_members(1,2) [of "column_names t"] col_members(3) [of "table_signature t", unfolded signature_columns]
    by (cases b) (auto simp: signature_columns names split: if_splits option.splits)
  show "sqlite_body b = Some (if over_table a then CreateTable else CreateView)"
    using assms(1) by (cases b) (auto simp: over_table_def split: if_splits option.splits)
qed

text \<open>What each object shows, over a stored query or over a view.\<close>

lemma index_spec_shown:
  assumes "engine_ok E" "table_ok t" "base_rows_ok t B" "stores (native_start db) b (column_names t) B"
    and "over_table a" "sqlite_fits a E t B" "objs (native_start db) nm = None"
  shows "\<exists>d'. exec_natives E (Suc f) (sqlite_visit (sqlite_object_of a body nm b)) (native_start db) = Some d'
    \<and> exposes E (objs d') (Suc (Suc (Suc f))) nm (column_names t) B"
proof -
  note lens = table_ok_distinct [OF assms(2)] length_rows [OF assms(3)]
  note stored = assms(4)
  note shown = body_exposed [OF assms(1) stored lens _ assms(7), where k = "Suc f" and f = "Suc f"]
  show ?thesis
  proof (cases a)
    case (SqlIndexSpec target cols unique w)
    have "exec_native E (Suc f) (IndexOn unique ix b target tail) (native_start db) = Some (native_start db)" for ix tail
      using assms(6) exec_unique [OF stored] exec_index [OF stored] by (cases unique) (simp_all add: SqlIndexSpec del: exec_native.simps)
    then have "exec_natives E (Suc f) [IndexOn unique ix b target tail] (native_start db) = Some (native_start db)" for ix tail by simp
    from shown [OF this] assms(6) show ?thesis by (simp add: SqlIndexSpec del: exec_natives.simps exec_native.simps)
  next
    case (ExprIndexSpec cols spelled)
    have "exec_natives E (Suc f) [OnTable prefix b suffix] (native_start db) = Some (native_start db)" for prefix suffix
      using exec_on_table [OF stored, of E "Suc f"] by (simp del: exec_native.simps)
    from shown [OF this] assms(6) show ?thesis by (simp add: ExprIndexSpec del: exec_natives.simps exec_native.simps)
  next
    case (AnalyzeIndexSpec target cols w)
    have "exec_natives E (Suc f) [IndexOn False ix b target tail, OnTable prefix b suffix] (native_start db) = Some (native_start db)" for ix tail prefix suffix
      using exec_on_table [OF stored, of E "Suc f"] exec_index [OF stored, of target E "Suc f"] assms(6)
      by (simp add: AnalyzeIndexSpec del: exec_native.simps)
    from shown [OF this] assms(6) show ?thesis by (simp add: AnalyzeIndexSpec del: exec_natives.simps exec_native.simps)
  qed (use assms(5) in \<open>simp_all add: over_table_def\<close>)
qed

lemma copy_spec_shown:
  assumes "engine_ok E" "table_ok t" "base_rows_ok t B" "exposes E (objs (native_start db)) (Suc f) b (column_names t) B"
    and "\<not> over_table a" "sqlite_fits a E t B" "out_cols_of body = column_names t"
    and fresh: "fresh_in (native_start db) (concat (map creates (sqlite_visit (sqlite_object_of a body nm b))))"
  shows "\<exists>d'. exec_natives E (Suc f) (sqlite_visit (sqlite_object_of a body nm b)) (native_start db) = Some d'
    \<and> exposes E (objs d') (Suc (Suc (Suc f))) nm (column_names t) B"
proof (cases a)
  case SqlAttachSpec
  have "fresh_in (native_start db) [(nm @ ''_att'') @ ''.'' @ ''mirror'', nm]" using fresh by (simp add: SqlAttachSpec copy_table_def)
  from attach_shown [OF assms(1-4) this refl] show ?thesis by (simp add: SqlAttachSpec assms(7) del: exec_natives.simps sqlite_visit.simps)
next
  case (WithoutRowidSpec defs cols pk)
  have "fresh_in (native_start db) [nm @ ''_wor'', nm]" using fresh by (simp add: WithoutRowidSpec expose_def view_of_def)
  from keyed_shown [OF assms(1-4) this, of "[]"] assms(6) show ?thesis by (simp add: WithoutRowidSpec del: exec_native.simps)
next
  case (GeneratedSpec defs cols gen_of st)
  have "fresh_in (native_start db) [nm @ ''_gen'', nm]" using fresh by (simp add: GeneratedSpec expose_def view_of_def)
  from generated_shown [OF assms(1-4) this] assms(6) show ?thesis by (simp add: GeneratedSpec del: exec_natives.simps exec_native.simps)
next
  case (StrictSpec defs cols)
  have "fresh_in (native_start db) [nm @ ''_strict'', nm]" using fresh by (simp add: StrictSpec expose_def view_of_def)
  from strict_shown [OF assms(1-4) this] assms(6) show ?thesis by (simp add: StrictSpec del: exec_natives.simps exec_native.simps)
next
  case (WithoutRowidIndexSpec defs cols pk index_col)
  have own: "fresh_in (native_start db) [nm @ ''_wri'', nm]" using fresh by (simp add: WithoutRowidIndexSpec expose_def view_of_def)
  have "exec_natives E (Suc f) [IndexOn False ix (nm @ ''_wri'') index_col tail] d1 = Some d1"
    if "stores d1 (nm @ ''_wri'') (column_names t) B" for ix tail d1
    using exec_index [OF that] assms(6) by (simp add: WithoutRowidIndexSpec del: exec_native.simps)
  from keyed_shown [OF assms(1-4) own _ this] assms(6) show ?thesis by (simp add: WithoutRowidIndexSpec del: exec_natives.simps exec_native.simps)
qed (use assms(5) in \<open>simp_all add: over_table_def\<close>)

lemma sqlite_names:
  "clear_names env nm \<Longrightarrow> own_names env nm s s' (concat (map creates (sqlite_visit (sqlite_object_of a body nm b))))"
  by (cases a) (auto simp: own_names_def native_suffixes_def expose_def view_of_def copy_table_def)

lemma sqlite_drawn:
  "sqlite_guard b q s = Inr (Some a, s') \<Longrightarrow> a \<in> set (sqlite_specs b (get_signature q))"
  by (auto simp: sqlite_guard_def look_Some dest: draw_variant_in split: if_splits list.splits)

interpretation sqlite: native_builder "sqlite_body b" "sqlite_guard b" sqlite_alter sqlite_visit "sqlite_suits b" for b
proof
  show "quiet (sqlite_guard b)" by (simp add: sqlite_guard_def)
next
  fix a env body nm s x s'
  assume made: "sqlite_alter a env body (Some nm) s = Inr (Some x, s')" and clear: "clear_names env nm"
  then have "nm \<noteq> []" by (simp add: clear_names_def)
  with made_step [OF made [unfolded sqlite_alter_def]] obtain r where "nn_body x = body" "nn_object x = sqlite_object_of a body nm r" by blast
  with sqlite_names [OF clear] show "nn_body x = body \<and> own_names env nm s s' (concat (map creates (sqlite_visit (nn_object x))))" by simp
next
  fix q s0 a s1 t body env nm s x s' E B db f
  assume drawn: "sqlite_guard b q s0 = Inr (Some a, s1)" and sig: "get_signature q = table_signature t" "get_signature body = table_signature t"
    and made: "sqlite_alter a env body (Some nm) s = Inr (Some x, s')" "nm \<noteq> []"
    and ok: "engine_ok E" "table_ok t" "base_rows_ok t B" and suits: "sqlite_suits b E t B"
    and holds: "body_holds E (native_start db) (Suc f) (sqlite_body b) body (column_names t) B"
    and fresh: "fresh_in (native_start db) (concat (map creates (sqlite_visit (nn_object x))))"
  note fit = specs_fit [OF sqlite_drawn [OF drawn, unfolded sig] suits]
  from made_step [OF made [unfolded sqlite_alter_def]] obtain r
    where x: "nn_object x = sqlite_object_of a body nm r" and r: "materialized_name body = Some r" by blast
  show "\<exists>d'. exec_natives E (Suc f) (sqlite_visit (nn_object x)) (native_start db) = Some d'
      \<and> exposes E (objs d') (Suc (Suc (Suc f))) nm (column_names t) B"
  proof (cases "over_table a")
    case True
    with holds fit(2) have "body_holds E (native_start db) (Suc f) (Some CreateTable) body (column_names t) B" by simp
    from body_table(1) [OF this r] have stored: "stores (native_start db) r (column_names t) B" .
    have "objs (native_start db) nm = None"
      using fresh True by (cases a) (auto simp: x over_table_def fresh_in_def expose_def view_of_def)
    from index_spec_shown [OF ok stored True fit(1) this] show ?thesis by (simp only: x)
  next
    case False
    with holds fit(2) have "body_holds E (native_start db) (Suc f) (Some CreateView) body (column_names t) B" by simp
    from body_view [OF this r] have "exposes E (objs (native_start db)) (Suc f) r (column_names t) B" .
    from copy_spec_shown [OF ok this False fit(1) out_cols_signature [OF sig(2)] fresh [unfolded x]] show ?thesis by (simp only: x)
  qed
qed

end
