(* ===== verification/Coa_Dialects.thy ===== *)
theory Coa_Dialects
  imports Coa_Postgres Coa_Duckdb Coa_Sqlite Coa_Native_Sample
begin

text \<open>
  The materializing builders of PostgreSQL, DuckDB and SQLite together: what any of them returns is a stored query with the
  statements of the object over it, and what each needs of the rows.  Concrete runs of one builder of each.
\<close>


section \<open>Any builder of the three\<close>

datatype dialect_builder = OfPostgres postgres_builder | OfDuckdb duckdb_builder | OfSqlite sqlite_builder

definition native_plan :: "('o \<Rightarrow> native_stmt list) \<Rightarrow> 'o native_node option gen \<Rightarrow> (eqnode \<times> native_stmt list) option gen" where
  "native_plan plan run = gbind run (\<lambda>r. greturn (map_option (\<lambda>x. (nn_body x, plan (nn_object x))) r))"

fun dialect_build :: "dialect_builder \<Rightarrow> request \<Rightarrow> context_env \<Rightarrow> constraint_set \<Rightarrow> (eqnode \<times> native_stmt list) option gen" where
  "dialect_build (OfPostgres b) sub env cs =
     native_plan postgres_visit (native_build (postgres_body b) (look (postgres_guard b)) postgres_alter sub env cs)"
| "dialect_build (OfDuckdb b) sub env cs =
     native_plan duckdb_visit (native_build (duckdb_body b) (look (duckdb_guard b)) duckdb_alter sub env cs)"
| "dialect_build (OfSqlite b) sub env cs =
     native_plan sqlite_visit (native_build (sqlite_body b) (sqlite_guard b) sqlite_alter sub env cs)"

fun dialect_suits :: "dialect_builder \<Rightarrow> engine \<Rightarrow> table \<Rightarrow> row list \<Rightarrow> bool" where
  "dialect_suits (OfPostgres b) = postgres_suits b"
| "dialect_suits (OfDuckdb b) = duckdb_suits b"
| "dialect_suits (OfSqlite b) = sqlite_suits b"

lemma native_planned:
  "native_plan plan run s = Inr (Some (body, stmts), s') \<longleftrightarrow>
     (\<exists>x. run s = Inr (Some x, s') \<and> body = nn_body x \<and> stmts = plan (nn_object x))"
  by (auto simp: native_plan_def gbind_def greturn_def split: sum.splits)

lemma dialect_run:
  assumes "env_ok env" "base_unminted env" "clear_names env nm" "engine_ok E" "base_rows_ok (base_table env) B"
    and "dialect_suits b E (base_table env) B"
    and "dialect_build b (build_subtree PORTABLE_BUILDERS fuel env) env [ExposedNameConstraint nm] s = Inr (Some (body, stmts), s')"
    and "height body \<le> Suc f"
  shows "\<exists>db d' rows. exec_tree E (Suc f) body (base_database (base_table env) B) = Some db
    \<and> exec_natives E (Suc f) stmts (native_start db) = Some d'
    \<and> read_relation E (objs d') (Suc (Suc (Suc f))) [] nm = Some (column_names (base_table env), rows) \<and> mset rows = mset B"
proof (cases b)
  case (OfPostgres p)
  with assms(7) obtain x where x: "native_build (postgres_body p) (look (postgres_guard p)) postgres_alter (build_subtree PORTABLE_BUILDERS fuel env)
      env [ExposedNameConstraint nm] s = Inr (Some x, s')" "body = nn_body x" "stmts = postgres_visit (nn_object x)"
    by (auto simp: native_planned)
  from postgres.native_run [OF assms(1-5) _ x(1)] assms(6,8) show ?thesis by (simp add: OfPostgres x(2,3))
next
  case (OfDuckdb p)
  with assms(7) obtain x where x: "native_build (duckdb_body p) (look (duckdb_guard p)) duckdb_alter (build_subtree PORTABLE_BUILDERS fuel env)
      env [ExposedNameConstraint nm] s = Inr (Some x, s')" "body = nn_body x" "stmts = duckdb_visit (nn_object x)"
    by (auto simp: native_planned)
  from duckdb.native_run [OF assms(1-5) _ x(1)] assms(6,8) show ?thesis by (simp add: OfDuckdb x(2,3))
next
  case (OfSqlite p)
  with assms(7) obtain x where x: "native_build (sqlite_body p) (sqlite_guard p) sqlite_alter (build_subtree PORTABLE_BUILDERS fuel env)
      env [ExposedNameConstraint nm] s = Inr (Some x, s')" "body = nn_body x" "stmts = sqlite_visit (nn_object x)"
    by (auto simp: native_planned)
  from sqlite.native_run [OF assms(1-5) _ x(1)] assms(6,8) show ?thesis by (simp add: OfSqlite x(2,3))
qed


section \<open>Concrete runs\<close>

lemma query_make_returns: "nm \<noteq> [] \<Longrightarrow> \<exists>x s'. query_make env (Some nm) body mk s = Inr (Some x, s')"
  by (simp add: query_make_def take_name_def gbind_def greturn_def new_id_step)

lemma minted_returns: "\<exists>x s'. minted_object env label mk s = Inr (x, s')"
  by (simp add: minted_object_def mint_def generate_object_name_def gbind_def gread_def gmodify_def greturn_def)

lemma alters_return:
  assumes "materialized_name body = Some r" "nm \<noteq> []"
  shows "\<exists>x s'. postgres_alter a env body (Some nm) s = Inr (Some x, s')"
    "\<exists>x s'. duckdb_alter b env body (Some nm) s = Inr (Some x, s')"
    "\<exists>x s'. sqlite_alter c env body (Some nm) s = Inr (Some x, s')"
proof -
  note made = native_make_returns [OF assms]
  show "\<exists>x s'. postgres_alter a env body (Some nm) s = Inr (Some x, s')"
    by (cases a) (simp_all add: made minted_returns query_make_returns assms(2) greturn_def)
  have "\<exists>y s1. generate_column_name ''eq_dd_aux'' s = Inr (y, s1)"
    by (simp add: generate_column_name_def generate_object_name_def gbind_def gread_def gmodify_def greturn_def)
  then obtain y s1 where column: "generate_column_name ''eq_dd_aux'' s = Inr (y, s1)" by blast
  show "\<exists>x s'. duckdb_alter b env body (Some nm) s = Inr (Some x, s')"
    by (cases b) (simp_all add: made query_make_returns assms(2) greturn_def gbind_def column)
  show "\<exists>x s'. sqlite_alter c env body (Some nm) s = Inr (Some x, s')"
    unfolding sqlite_alter_def by (rule made) (simp add: greturn_def)
qed

definition sample_dialects :: "dialect_builder list" where
  "sample_dialects = [OfPostgres PostgresLegacyInheritanceBuilder, OfDuckdb DuckDBSchemaQualifiedTableBuilder, OfSqlite SqliteAttachRoundTripBuilder]"

lemma dialects_returned:
  assumes "b \<in> set sample_dialects"
  shows "\<exists>body stmts s'. dialect_build b (build_subtree PORTABLE_BUILDERS 7 sample_env) sample_env [ExposedNameConstraint ''eq_name'']
    (start_state\<lparr>depth := 1\<rparr>) = Inr (Some (body, stmts), s')"
proof -
  have cols: "out_cols_of q = [''id'', ''note'']" if "get_signature q = table_signature orders" for q
    using out_cols_signature [OF that] by (simp add: orders_ok)
  have "\<exists>x s'. native_build (Some CreateTable) (look (postgres_guard PostgresLegacyInheritanceBuilder)) postgres_alter
      (build_subtree PORTABLE_BUILDERS 7 sample_env) sample_env [ExposedNameConstraint ''eq_name''] (start_state\<lparr>depth := 1\<rparr>) = Inr (Some x, s')"
    by (rule sample_native) (simp_all add: cols Let_def alters_return)
  moreover have "\<exists>x s'. native_build (Some CreateView) (look (duckdb_guard DuckDBSchemaQualifiedTableBuilder)) duckdb_alter
      (build_subtree PORTABLE_BUILDERS 7 sample_env) sample_env [ExposedNameConstraint ''eq_name''] (start_state\<lparr>depth := 1\<rparr>) = Inr (Some x, s')"
    by (rule sample_native) (simp_all add: alters_return)
  moreover have "\<exists>x s'. native_build (Some CreateView) (sqlite_guard SqliteAttachRoundTripBuilder) sqlite_alter
      (build_subtree PORTABLE_BUILDERS 7 sample_env) sample_env [ExposedNameConstraint ''eq_name''] (start_state\<lparr>depth := 1\<rparr>) = Inr (Some x, s')"
    unfolding sqlite_guard_def draws_spelling.simps if_False by (rule sample_native) (simp_all add: alters_return)
  ultimately show ?thesis using assms by (auto simp: sample_dialects_def native_planned postgres_body_def)
qed

end
