(* ===== verification/Spec2Isabelle.thy ===== *)
theory Spec2Isabelle
  imports Coa_Sample Coa_Budget Coa_Render_Laws Coa_Names Coa_Emit_Order Coa_Compare_Laws Coa_Verdict Coa_Schedule Coa_Families Coa_Sample_Campaign Coa_Typed_Text Coa_Runs
    Coa_Mysql Coa_Native_Forms Coa_Native_Sample Coa_Dialects
begin

text \<open>
  A verification library for \<open>coa\<close>, whose package \<open>eqgen\<close> generates, for a base table, another database
  object that holds the same rows by a longer way (views, joins, partitions, deletes followed by inserts), and
  reports any query on which the two differ as a bug of the engine.  The claim the tool stands on is that the
  generated object is row-equivalent; it is shown of the trees (\<open>generate_sound\<close>) and of the statements emitted for
  them (\<open>executed_forks_hold_base_rows\<close>).

  \<^bold>\<open>The parts of the program and where they are.\<close>
  \<^item> \<open>Coa_Prelude\<close>: decimal text, joining, counters, the error sum, the collections \<open>gspec_intros\<close> and \<open>wp\<close>.
  \<^item> \<open>Coa_Types\<close>: \<open>core/types.py\<close>, \<open>core/catalog.py\<close>.
  \<^item> \<open>Coa_Expr\<close>: the expression classes and helpers of \<open>ir/expr.py\<close>.  \<open>Coa_Render\<close>, \<open>Coa_Render_Laws\<close>:
    \<open>Spelling\<close> and the six shipped spellings (\<open>ir/render.py\<close>, \<open>dialects/*/emitter.py\<close>, \<open>dialects/*/types_sql.py\<close>).
  \<^item> \<open>Coa_Ast\<close>, \<open>Coa_Nodes\<close>: the node classes of \<open>equivalence/ast.py\<close> with their setup steps
    (\<open>objects.py\<close>, \<open>actions.py\<close>), signatures, class methods \<open>build\<close>.  A Python object is a constructor
    applied to its fields and to an identity drawn from the state, so that sharing is visible.
  \<^item> \<open>Coa_Constraints\<close>: \<open>equivalence/constraints.py\<close>, \<open>builder/constraint_set.py\<close>.
  \<^item> \<open>Coa_Gen\<close>, \<open>Coa_Names\<close>: the state of a run (\<open>builder/context.py\<close>, \<open>equivalence/context.py\<close>), the
    configuration and the draws (\<open>config/weighted.py\<close>).  A step maps the state to an error or to a value and a state.
  \<^item> \<open>Coa_Framework\<close>, \<open>Coa_Budget\<close>: routing, budgets, the weighted shuffle, the loop over builders, \<open>build_subtree\<close>
    (\<open>builder/*.py\<close>, \<open>equivalence/factory.py\<close>).
  \<^item> \<open>Coa_Rewrites\<close>, \<open>Coa_Rewrites_Keyed\<close>: the 45 portable builders of \<open>equivalence/builders/*.py\<close>, one definition per
    \<open>_build\<close>, and their registration.
  \<^item> \<open>Coa_Emitter\<close>, \<open>Coa_Emit_Order\<close>: \<open>equivalence/emitter.py\<close>.  \<open>Coa_Generator\<close>: \<open>equivalence/generator.py\<close>.
  \<^item> \<open>Coa_Compare\<close>, \<open>Coa_Compare_Laws\<close>, \<open>Coa_Numbers\<close>, \<open>Coa_Verdict\<close>: \<open>fuzz/database.py\<close>, \<open>fuzz/compare.py\<close>.
    \<open>Coa_Schedule\<close>: \<open>fuzz/schedule.py\<close>.
  \<^item> \<open>Coa_Text\<close>: Python's string methods.  \<open>Coa_Journal\<close>: the log of a round, \<open>Coa_Sampling\<close>, \<open>Coa_Cells\<close>,
    \<open>Coa_Awkward\<close>: the sampled tables, what a value of each column type is, and the rows (\<open>fuzz/journal.py\<close>).
  \<^item> \<open>Coa_Round\<close>, \<open>Coa_Worker\<close>, \<open>Coa_Protocol\<close>: \<open>fuzz/round.py\<close>, as one sequential function with the worker as the
    world it runs in, as the worker's own code over a database backend, and as two processes with a pipe.
  \<^item> \<open>Coa_Typed\<close>, \<open>Coa_Typed_Laws\<close>, \<open>Coa_Typed_Text\<close>: \<open>generators/typed_predicate\<close>, as a program in the state monad over
    a stream of dice, its typing and its text.
  \<^item> \<open>Coa_Native\<close>, \<open>Coa_Native_Laws\<close>, \<open>Coa_Native_Forms\<close>, \<open>Coa_Native_Run\<close>: the statements only one engine has, what they
    do, and a builder of the dialects over the factory (the \<open>_wrap\<close> methods of \<open>dialects/*/builders.py\<close>).
    \<open>Coa_Mysql\<close>, \<open>Coa_Postgres\<close>, \<open>Coa_Duckdb\<close>, \<open>Coa_Sqlite\<close>: \<open>ast.py\<close>, the object builders of \<open>builders.py\<close> and the object
    visits of \<open>emitter.py\<close> of these dialects; \<open>Coa_Dialects\<close>: the last three together.
  \<^item> \<open>Coa_Fence\<close>: \<open>dialects/cratedb/refresh.py\<close> and \<open>_CrateConnection\<close> of \<open>adapter.py\<close>.
  \<^item> \<open>Coa_Report\<close>: \<open>fuzz/report.py\<close>.  \<open>Coa_Campaign\<close>: the loop \<open>run_fuzz\<close> of \<open>fuzz/cli.py\<close>.
  \<^item> \<open>Coa_Sample\<close>, \<open>Coa_Sample_Campaign\<close>, \<open>Coa_Native_Sample\<close>: concrete inputs.  \<open>Coa_Families\<close>: more rewrites on them.

  \<^bold>\<open>The abstract specification.\<close>  \<open>Coa_Semantics\<close> gives every node the rows it evaluates to, over an engine that is
  a parameter (\<open>engine_ok\<close>: what the SQL standard and the manuals promise) and over any base rows; \<open>None\<close> is a
  query the engine would reject.  \<open>Coa_Contract\<close> states the contract \<open>post\<close> of a request and the interface a
  builder sees of the factory, the locale \<open>subtree_provider\<close>.  \<open>Coa_Steps\<close>, \<open>Coa_Clauses\<close>, \<open>Coa_Keyed\<close>,
  \<open>Coa_Children\<close>, \<open>Coa_Predicates\<close> hold the shared laws; \<open>Coa_Sound_*\<close> prove, inside the locale, that every builder
  meets the contract; \<open>Coa_Sound\<close> closes the recursion and interprets the locale on the factory itself.
  \<open>Coa_Generator_Sound\<close> carries this to \<open>generate\<close> and the forks, \<open>Coa_Liveness\<close> shows that a root is built.

  \<^bold>\<open>The statements.\<close>  \<open>Coa_Execute\<close> is a second, independent specification: a database of named tables, stored results
  and views on which setup steps run one after the other and a query reads names.  \<open>Coa_Realize\<close> shows that running
  the nodes of a well-built tree in emission order refines the rows of \<open>Coa_Semantics\<close> (an invariant of the database,
  kept by each kind of node); \<open>Coa_Frame\<close> is its frame rule.  \<open>Coa_Alloc\<close>, \<open>Coa_Alloc_Builders\<close>, \<open>Coa_Alloc_Factory\<close> show
  that every tree of the factory is well built: names tell objects apart and a table that is written to has one
  writer (a judgement on the pool of nodes a step has made, with the locale \<open>node_supplier\<close> interpreted on
  \<open>build_subtree\<close>).  \<open>Coa_Runs\<close> puts the three together for \<open>build_root\<close> and for the forks of a round.
  The locale \<open>sql_spelling\<close> (\<open>Coa_Render_Laws\<close>) is the contract a dialect's hooks keep, interpreted on the six spellings.

  \<^bold>\<open>The dialects.\<close>  A builder of a dialect stores the query it is given and makes an object over it whose statements only
  that engine has.  The locale \<open>native_builder\<close> (\<open>Coa_Native_Run\<close>) is its contract: what the builder and the emitter of the
  dialect promise, and in it the whole run, from the draw of the query to the rows under the exposed name; it is
  interpreted on the builders of MySQL, PostgreSQL, DuckDB and SQLite.  The stored query runs with the meaning of the portable
  tree; the renderers that respell some of it for one engine are not part of these runs.  What the engine promises of a physical object (a key is unique, a cast to its own type keeps a value) is the
  argument \<open>suits\<close>, one per builder.  The connection to CrateDB, whose readers do not see a write until the table is
  refreshed, is specified by its trace alone: \<open>hidden_after\<close> is what no reader sees yet, and the fence is shown to
  keep it empty before a statement that may read.

  \<^bold>\<open>Bounds.\<close>  \<open>build_subtree\<close> recurses on a fuel; it is entered one level deeper at each call and nothing is dispatched
  at \<open>max_depth\<close>, so any fuel above \<open>max_depth\<close> is enough (\<open>factory_terminates\<close>).  Reading a view recurses on a fuel too;
  the height of the tree is enough.  All other recursions are total.
  Randomness is two streams of draws in the state and the deadline a stream of clock answers; a theorem about
  every stream is one about every seed and every clock.

  \<^bold>\<open>Assumptions on what the code is given.\<close>  \<open>env_ok\<close>: the base columns are distinct and none starts with
  \<open>eq_\<close>, the weighted options have a positive weight, a big-table row count is at least 2, and a
  predicate plugin returns no blank text.  Base rows are typed (\<open>base_rows_ok\<close>).  A generated predicate and raw SQL
  text are uninterpreted functions of the row.  Counters of rows identify rows by equality, which stands for Python's
  \<open>==\<close> on the frozen rows; the tolerance arithmetic is exact where Python rounds.

  \<^bold>\<open>Not modelled.\<close>  Connections, server processes and the command line (the rest of \<open>fuzz/cli.py\<close>, \<open>sweep.py\<close>,
  the adapters and clusters); reading GCL files (\<open>config/*\<close>); the builders of ClickHouse, CrateDB and TiDB, the builders of
  the dialects that make queries instead of objects, and all of them below the root of a tree; the query renderers of single
  dialects (\<open>MySqlQueryRenderer\<close>, which lowers \<open>QUALIFY\<close> and full joins, and its like), and the meaning of engine options such
  as \<open>ENGINE=\<close> or \<open>STRICT\<close>, which are text; the query corpora and generators behind the plugin interface; debug records; the
  \<open>evaluation\<close> scripts.

  \<^bold>\<open>The properties below\<close> are about whole runs, the factory, single rewrites (one per family; more in
  \<open>Coa_Families\<close>), draws and requests, emitted SQL, comparing results, the schedule, the log, the two processes of a
  round, reports and the loop, sampled tables, and the dialects, in this order.
\<close>


section \<open>Generating an equivalent relation\<close>

text \<open>C1: run in the order they are emitted on a database that holds the base table, the statements of all forks
  succeed: no name is created twice, every table a statement reads or writes exists, and no statement of one fork
  spoils what another built.  Afterwards each requested name reads as a relation with the columns and the rows of
  the base table, on every engine, the base table is as before, and the statements run are those \<open>generate\<close>
  returned.\<close>

theorem executed_forks_hold_base_rows:
  assumes "env_ok env" "gr_builders g = PORTABLE_BUILDERS" "base_unminted env" "list_all (fresh_root env) exposed" "distinct exposed"
    and "engine_ok E" "base_rows_ok (base_table env) B" "generate_forks g fuel env seed exposed s = Inr (fk, s')"
    and "\<forall>x \<in> set (fk_forks fk). height (gd_root x) \<le> n"
  shows "\<exists>db. exec_trees E n (map gd_root (fk_forks fk)) (base_database (base_table env) B) = Some db
    \<and> db (get_sql_name (base_table env) True) = Some (TableObj (column_names (base_table env)) B)
    \<and> list_all (\<lambda>nm. \<exists>rows. read_relation E db n [] nm = Some (column_names (base_table env), rows) \<and> mset rows = mset B) exposed
    \<and> list_all (\<lambda>x. emit_nodes (gr_spelling g) (emission_order (gd_root x)) = Inr (gd_statements x)) (fk_forks fk)"
proof -
  have run: "fork_from g fuel env seed [] exposed s = Inr (fk, s')"
    using assms(8) by (simp add: generate_forks_def split: if_splits)
  have "holds_forks env B {} [] (base_database (base_table env) B)" by (rule holds_forks_base)
  from forks_beside [OF assms(1-3,6,7) run assms(4,5) _ _ this assms(9)] obtain db where
    db: "exec_trees E n (map gd_root (fk_forks fk)) (base_database (base_table env) B) = Some db"
      "base_database (base_table env) B \<subseteq>\<^sub>m db"
      "list_all (\<lambda>nm. \<exists>rows. read_relation E db n [] nm = Some (column_names (base_table env), rows) \<and> mset rows = mset B) exposed"
    by auto
  then have "db (get_sql_name (base_table env) True) = Some (TableObj (column_names (base_table env)) B)"
    by (simp add: base_database_def map_le_def)
  with db fork_statements [OF run] show ?thesis by blast
qed

theorem executed_forks_hold_base_rows_witness:
  "\<exists>fk s' n db. generate_forks portable_generator 7 sample_env 0 [''orders0'', ''orders1''] start_state = Inr (fk, s')
    \<and> exec_trees reference_engine n (map gd_root (fk_forks fk)) (base_database orders orders_rows) = Some db
    \<and> list_all (\<lambda>nm. \<exists>rows. read_relation reference_engine db n [] nm = Some ([''id'', ''note''], rows) \<and> mset rows = mset orders_rows)
        [''orders0'', ''orders1'']"
proof -
  obtain fk s' where fk: "generate_forks portable_generator 7 sample_env 0 [''orders0'', ''orders1''] start_state = Inr (fk, s')"
    using sample_forks by blast
  have "\<forall>x \<in> set (fk_forks fk). height (gd_root x) \<le> sum_list (map (\<lambda>x. height (gd_root x)) (fk_forks fk))"
    by (simp add: member_le_sum_list)
  from executed_forks_hold_base_rows [OF sample_env_ok _ sample_names(1) _ _ reference_ok _ fk this, of orders_rows]
  show ?thesis using fk by (simp add: orders_rows_ok orders_ok sample_names) blast
qed

text \<open>C2: whatever the draws, the seed and the state of the process, \<open>generate\<close> either fails (the root
  has no builder, the deadline passed, an expression has no spelling in the dialect) or returns a tree that
  holds the rows of the base table on every engine and for every rows, takes the requested name, has the
  columns of the base table, and comes with the statements the emitter makes of it.\<close>

theorem generate_sound:
  assumes "env_ok env" "root_name env given \<noteq> []" "gr_builders g = PORTABLE_BUILDERS"
  shows "case generate g fuel env seed given names s of
      Inl e \<Rightarrow> e = NothingBuilt \<or> (\<exists>x. e = BuildFailed x \<and> run_error 0 fuel env x) \<or> (\<exists>x. e = EmitFailed x)
    | Inr (x, s') \<Rightarrow> row_equivalent (base_table env) (gd_root x) \<and> exposed_of_generated x = Some (root_name env given)
        \<and> emit_equivalence (gr_spelling g) (gd_root x) = Inr (gd_statements x)"
  using build_root_cases [OF assms, of fuel seed names s]
  by (auto simp: generate_def ebind_def exposed_of_generated_def split: sum.splits prod.splits)

theorem generate_sound_witness:
  "case generate portable_generator 7 sample_env (Some 0) (Some ''orders'') None start_state of
      Inl e \<Rightarrow> e = NothingBuilt \<or> (\<exists>x. e = BuildFailed x \<and> run_error 0 7 sample_env x) \<or> (\<exists>x. e = EmitFailed x)
    | Inr (x, s') \<Rightarrow> row_equivalent orders (gd_root x) \<and> exposed_of_generated x = Some ''orders''
        \<and> emit_equivalence (gr_spelling portable_generator) (gd_root x) = Inr (gd_statements x)"
  by (rule generate_sound [of sample_env "Some ''orders''", unfolded sample_root_name, of _ 7 "Some 0" None start_state,
        unfolded sample_simps]) (simp_all add: sample_env_ok)

text \<open>C3: with the view, the \<open>SELECT *\<close> and the leaf builder enabled where they are needed, three levels,
  no limit on attempts and no deadline, a root is built, whatever the draws; it holds the base rows.\<close>

theorem generate_returns:
  assumes "always_builds (config env)" "env_ok env" "root_name env given \<noteq> []" "gr_builders g = PORTABLE_BUILDERS"
    and "max_depth (config env) < fuel" "\<And>t. \<not> deadline_passed env t"
  shows "\<exists>built s'. build_root g fuel env seed given names s = Inr (built, s') \<and> row_equivalent (base_table env) built"
proof -
  obtain built s' where "build_root g fuel env seed given names s = Inr (built, s')"
    using root_built [OF assms] by blast
  with build_root_cases [OF assms(2-4), of fuel seed names s] show ?thesis by simp
qed

theorem generate_returns_witness:
  "\<exists>built s'. build_root portable_generator 7 sample_env (Some 0) (Some ''orders'') None start_state = Inr (built, s')
     \<and> row_equivalent orders built"
  using generate_returns [of sample_env "Some ''orders''" portable_generator 7 "Some 0" None start_state]
  by (simp add: sample_always_builds sample_env_ok)

text \<open>C4: with more fuel than the configured depth the only failure of a build is the deadline, and only
  when it has passed: no assertion fails, no constraint is found violated, no draw is from an empty
  population, and the recursion ends.\<close>

theorem generate_only_times_out:
  assumes "env_ok env" "root_name env given \<noteq> []" "gr_builders g = PORTABLE_BUILDERS"
    and "max_depth (config env) < fuel" "generate g fuel env seed given names s = Inl (BuildFailed x)"
  shows "x = DeadlineExceeded \<and> (\<exists>t. deadline_passed env t)"
  using generate_cases [OF assms(1-3), of fuel seed names s] assms(4,5) by (auto simp: run_error_def)

theorem generate_only_times_out_witness:
  "DeadlineExceeded = DeadlineExceeded \<and> (\<exists>t. deadline_passed late_env t)"
proof (rule generate_only_times_out [of late_env "Some ''orders''" portable_generator "Suc 6" "Some 0" None start_state])
  show "generate portable_generator (Suc 6) late_env (Some 0) (Some ''orders'') None start_state = Inl (BuildFailed DeadlineExceeded)"
    by (simp add: generate_def build_root_def check_deadline_def gbind_def gread_def gmodify_def graise_def late_env_def
        ebind_def del: Suc_numeral)
qed (simp_all add: late_env_ok)

text \<open>C5: the forks of one run each hold the base rows, under the names asked for, in their order.\<close>

theorem forks_sound:
  assumes "env_ok env" "gr_builders g = PORTABLE_BUILDERS" "[] \<notin> set exposed"
  shows "case generate_forks g fuel env seed exposed s of
      Inl e \<Rightarrow> e = NoExposedNames \<longleftrightarrow> exposed = []
    | Inr (fk, s') \<Rightarrow> exposed \<noteq> [] \<and>
        list_all2 (\<lambda>nm x. row_equivalent (base_table env) (gd_root x) \<and> exposed_of_generated x = Some nm) exposed (fk_forks fk)"
  by (rule forks_from_env [OF assms])

theorem forks_sound_witness:
  "case generate_forks portable_generator 7 sample_env 0 [''orders0'', ''orders1''] start_state of
      Inl e \<Rightarrow> e = NoExposedNames \<longleftrightarrow> [''orders0'', ''orders1''] = []
    | Inr (fk, s') \<Rightarrow> [''orders0'', ''orders1''] \<noteq> [] \<and>
        list_all2 (\<lambda>nm x. row_equivalent orders (gd_root x) \<and> exposed_of_generated x = Some nm) [''orders0'', ''orders1''] (fk_forks fk)"
  by (rule forks_sound [of sample_env portable_generator, unfolded sample_simps]) (simp_all add: sample_env_ok)

text \<open>C6: with the builders of a minimal run enabled, no deadline and a spelling that spells every type and codec, all
  forks are built and emitted, whatever the draws.\<close>

theorem forks_return:
  assumes "always_builds (config env)" "env_ok env" "gr_builders g = PORTABLE_BUILDERS" "base_unminted env"
    and "max_depth (config env) < fuel" "\<And>t. \<not> deadline_passed env t" "total_spelling (gr_spelling g)"
    and "list_all (fresh_root env) exposed" "exposed \<noteq> []"
  shows "\<exists>fk s'. generate_forks g fuel env seed exposed s = Inr (fk, s') \<and> length (fk_forks fk) = length exposed"
proof -
  obtain fk s' where run: "fork_from g fuel env seed [] exposed s = Inr (fk, s')"
    using forks_returned [OF assms(1-7) assms(8)] by blast
  moreover have "[] \<notin> set exposed" using assms(8) by (auto simp: list_all_iff fresh_root_def)
  from fork_from_sound [OF assms(2,3) this run] have "length (fk_forks fk) = length exposed" by (simp add: list_all2_lengthD)
  ultimately show ?thesis using assms(9) by (simp add: generate_forks_def)
qed

theorem forks_return_witness:
  "\<exists>fk s'. generate_forks portable_generator 7 sample_env 0 [''orders0'', ''orders1''] start_state = Inr (fk, s')
     \<and> length (fk_forks fk) = length [''orders0'', ''orders1'']"
  by (rule forks_return) (simp_all add: sample_always_builds sample_env_ok sample_names portable_generator_def spellings_total)

text \<open>C7: the emitter fails on a tree of a run only with the error of an expression the dialect has no spelling for: a
  reference always has a name, a join that needs a condition has one, and what is rendered is a query.\<close>

theorem emission_fails_unspelled:
  assumes "env_ok env" "gr_builders g = PORTABLE_BUILDERS" "fresh_root env (root_name env given)" "base_unminted env"
  shows "case generate g fuel env seed given names s of
      Inl (EmitFailed x) \<Rightarrow> \<exists>e why. x = RenderFailed why \<and> expr_sql (gr_spelling g) e = Inl why
    | _ \<Rightarrow> True"
proof (cases "build_root g fuel env seed given names s")
  case (Inl e)
  then have "generate g fuel env seed given names s = Inl e" by (simp add: generate_def)
  moreover have "e \<noteq> EmitFailed x" for x
    using Inl by (auto simp: build_root_def split: sum.splits option.splits prod.splits)
  ultimately show ?thesis by (auto split: generate_error.split)
next
  case (Inr p)
  obtain built s' where p: "p = (built, s')" by (cases p)
  from generate_emits [OF assms Inr [unfolded p]] show ?thesis
    by (auto simp: generate_def Inr p only_render_def split: sum.split)
qed

theorem emission_fails_unspelled_witness:
  "case generate portable_generator 7 sample_env (Some 0) (Some ''orders0'') None start_state of
      Inl (EmitFailed x) \<Rightarrow> \<exists>e why. x = RenderFailed why \<and> expr_sql (gr_spelling portable_generator) e = Inl why
    | _ \<Rightarrow> True"
  by (rule emission_fails_unspelled) (simp_all add: sample_env_ok sample_names)


section \<open>The factory\<close>

text \<open>C8: every portable builder, asked for what it is routed, with the factory to ask for its children,
  returns nothing or a node of its own class that meets every constraint of the request and the contract
  \<open>post\<close>: signature, name, setup steps and, for every engine and every base rows, the rows the request asks
  for.\<close>

theorem portable_builders_serve:
  assumes "env_ok env" "request_ok (base_table env) cs" "b \<in> set PORTABLE_BUILDERS" "routes k (set (constraint_types cs)) b"
  shows "gspec d (run_error d fuel env) (b_build b (build_subtree PORTABLE_BUILDERS fuel env) env cs)
    (\<lambda>r. \<forall>n. r = Some n \<longrightarrow> class_of n = b_result b \<and> list_all (\<lambda>c. meets_constraint c n) cs \<and> post (base_table env) cs n)"
  by (rule factory.portable_routed [OF assms])

theorem portable_builders_serve_witness:
  "gspec 1 (run_error 1 7 sample_env) (b_build select_star_builder (build_subtree PORTABLE_BUILDERS 7 sample_env) sample_env [])
    (\<lambda>r. \<forall>n. r = Some n \<longrightarrow> class_of n = C_SelectQuery \<and> list_all (\<lambda>c. meets_constraint c n) [] \<and> post orders [] n)"
  using portable_builders_serve [OF sample_env_ok _ portable_members(2), of "[]" WantQuery 1 7]
  by (simp add: routes_def builder_of_def constraint_types_def query_class_def)

text \<open>C9: a request of the factory ends: with more fuel than the levels left below the configured depth, the
  recursion never runs out of it, whatever the request, the draws and the budgets.\<close>

theorem factory_terminates:
  assumes "env_ok env" "request_ok (base_table env) cs" "max_depth (config env) - depth s < fuel"
  shows "build_subtree PORTABLE_BUILDERS fuel env k cs s \<noteq> Inl OutOfFuel"
proof
  assume "build_subtree PORTABLE_BUILDERS fuel env k cs s = Inl OutOfFuel"
  with factory_serves [OF assms(1,2), of "depth s" fuel k] have "run_error (depth s) fuel env OutOfFuel"
    unfolding gspec_def by (elim allE [of _ s] impE) simp_all
  with assms(3) show False by (simp add: run_error_def)
qed

theorem factory_terminates_witness: "build_subtree PORTABLE_BUILDERS 7 sample_env WantQuery [] start_state \<noteq> Inl OutOfFuel"
  by (rule factory_terminates) (simp_all add: sample_env_ok)

text \<open>C10: what the factory returns has the requested class and the columns the request implies, with their
  types: those of the base table, with a tag or a key column appended, or those of the rewritten items.\<close>

theorem factory_typed:
  assumes "env_ok env" "request_ok (base_table env) cs"
    and "build_subtree PORTABLE_BUILDERS fuel env k cs s = Inr (Some n, s')"
  shows "is_instance n k \<and> get_signature n = expected_signature (base_table env) cs"
  using factory_result [OF assms] by (simp add: post_def)

theorem factory_typed_witness:
  "\<exists>n. is_instance n WantRelation \<and> get_signature n = table_signature orders"
proof -
  obtain n s' where "build_root portable_generator 7 sample_env (Some 0) (Some ''orders'') None start_state = Inr (n, s')"
    using root_built [of sample_env "Some ''orders''" portable_generator 7 "Some 0" None start_state] sample_always_builds sample_env_ok
    by auto
  then obtain t where "build_subtree PORTABLE_BUILDERS 7 sample_env WantRelation [ExposedNameConstraint ''orders''] t = Inr (Some n, s')"
    by (auto simp: build_root_def split: sum.splits option.splits)
  from factory_typed [OF sample_env_ok _ this] show ?thesis
    by (auto simp: expected_signature_def payload_defs get_optional_constraint_def)
qed

text \<open>C11: a request the budgets leave only leaves for (the last level, the node budget or the attempt budget
  used up) returns the base table or nothing.\<close>

theorem budget_leaves_leaves:
  assumes "leaf_only (config env) s" "build_subtree PORTABLE_BUILDERS fuel env k cs s = Inr (Some n, s')"
  shows "is_base n"
proof -
  obtain b where b: "b \<in> set PORTABLE_BUILDERS" "b_leaf b" "class_of n = b_result b"
    using leaf_at_budget [OF assms] by blast
  have "list_all (\<lambda>b. b_leaf b \<longrightarrow> b_result b = C_BaseTableSource) PORTABLE_BUILDERS"
    by (simp add: PORTABLE_BUILDERS_def create_builders_def query_builders_def expansion_builders_def leaf_builder_def builder_of_def)
  with b have "class_of n = C_BaseTableSource" by (auto simp: list_all_iff)
  then show ?thesis by (cases n) simp_all
qed

theorem budget_leaves_leaves_witness: "is_base (BaseTableSource 0 orders)"
proof -
  have "case build_subtree PORTABLE_BUILDERS 1 sample_env WantSource [] (start_state\<lparr>depth := 5\<rparr>) of
      Inr (Some n, s') \<Rightarrow> n = BaseTableSource 0 orders | _ \<Rightarrow> False"
    by code_simp
  then obtain s' where "build_subtree PORTABLE_BUILDERS 1 sample_env WantSource [] (start_state\<lparr>depth := 5\<rparr>)
      = Inr (Some (BaseTableSource 0 orders), s')"
    by (auto split: sum.splits option.splits)
  then show ?thesis by (rule budget_leaves_leaves [rotated]) (simp add: leaf_only_def)
qed


section \<open>The rewrites\<close>

text \<open>C12: the ternary partition (\<open>p\<close>, \<open>NOT p\<close>, \<open>p IS NULL\<close>) of the rows the request asks for, put together with \<open>UNION ALL\<close>, has exactly those rows, whatever three-valued verdict the engine gives the generated predicate.\<close>

theorem tlp_union_sound:
  assumes "env_ok env" "request_ok (base_table env) cs" "set (constraint_types cs) \<subseteq> {RowFilterC}"
  shows "gspec d (run_error d fuel env) (build_tlp_union (build_subtree PORTABLE_BUILDERS fuel env) env cs) (makes (base_table env) C_UnionAllQuery cs)"
  by (rule factory.tlp_spec [OF assms])

theorem tlp_union_sound_witness:
  "gspec 1 (run_error 1 7 sample_env) (build_tlp_union (build_subtree PORTABLE_BUILDERS 7 sample_env) sample_env [RowFilterConstraint (GeneratedPredicate ''id = 7'')])
    (makes orders C_UnionAllQuery [RowFilterConstraint (GeneratedPredicate ''id = 7'')])"
  by (rule tlp_union_sound [of sample_env, unfolded sample_simps]) (simp_all add: sample_env_ok constraint_types_def)

text \<open>C13: one branch per residue of a materialized row number: every row is in exactly one branch, for each of the moduli and whichever sign the engine gives \<open>MOD\<close>.\<close>

theorem rank_mod_union_sound:
  assumes "env_ok env"
  shows "gspec d (run_error d fuel env) (build_rank_mod_union (build_subtree PORTABLE_BUILDERS fuel env) env []) (makes (base_table env) C_UnionAllQuery [])"
  by (rule factory.rank_mod_spec [OF assms])

theorem rank_mod_union_sound_witness:
  "gspec 1 (run_error 1 7 sample_env) (build_rank_mod_union (build_subtree PORTABLE_BUILDERS 7 sample_env) sample_env [])
    (makes orders C_UnionAllQuery [])"
  by (rule rank_mod_union_sound [of sample_env, unfolded sample_simps]) (simp_all add: sample_env_ok constraint_types_def)

text \<open>C14: deleting the rows of a tagged copy that are not marked to keep, and projecting the tag away, leaves the base rows.\<close>

theorem tag_prune_sound:
  assumes "env_ok env" "request_ok (base_table env) cs" "set (constraint_types cs) \<subseteq> {ExposedNameC}"
  shows "gspec d (run_error d fuel env) (build_tag_prune_delete (build_subtree PORTABLE_BUILDERS fuel env) env cs) (makes (base_table env) C_TagPruneDeleteTable cs)"
  by (rule factory.tag_delete_spec [OF assms])

theorem tag_prune_sound_witness:
  "gspec 1 (run_error 1 7 sample_env) (build_tag_prune_delete (build_subtree PORTABLE_BUILDERS 7 sample_env) sample_env [ExposedNameConstraint ''orders''])
    (makes orders C_TagPruneDeleteTable [ExposedNameConstraint ''orders''])"
  by (rule tag_prune_sound [of sample_env, unfolded sample_simps]) (simp_all add: sample_env_ok constraint_types_def)

text \<open>C15: deleting the rows a predicate accepts and inserting those rows of the base table again restores the table.\<close>

theorem delete_reinsert_sound:
  assumes "env_ok env" "request_ok (base_table env) cs" "set (constraint_types cs) \<subseteq> {AcceptsDmlC, ExposedNameC}"
  shows "gspec d (run_error d fuel env) (build_delete_reinsert (build_subtree PORTABLE_BUILDERS fuel env) env cs) (makes (base_table env) C_DeleteReinsertTable cs)"
  by (rule factory.delete_reinsert_spec [OF assms])

theorem delete_reinsert_sound_witness:
  "gspec 1 (run_error 1 7 sample_env) (build_delete_reinsert (build_subtree PORTABLE_BUILDERS 7 sample_env) sample_env [ExposedNameConstraint ''orders''])
    (makes orders C_DeleteReinsertTable [ExposedNameConstraint ''orders''])"
  by (rule delete_reinsert_sound [of sample_env, unfolded sample_simps]) (simp_all add: sample_env_ok constraint_types_def)


section \<open>Draws and requests\<close>


section \<open>Emitted SQL\<close>

text \<open>C16: the statements of a tree are those of its nodes in a build order: each node once, however many
  readers it has, and after every node it reads.\<close>

theorem emission_in_build_order:
  assumes "same_identity n"
  shows "\<exists>order. build_order n order \<and> emit_equivalence sp n = emit_nodes sp order"
  using visit_order [OF assms] emit_visit by blast

theorem emission_in_build_order_witness:
  "\<exists>order. build_order (UnionAllQuery 1 [BaseTableSource 0 orders, BaseTableSource 0 orders]) order
     \<and> emit_equivalence postgres_spelling (UnionAllQuery 1 [BaseTableSource 0 orders, BaseTableSource 0 orders])
         = emit_nodes postgres_spelling order"
  by (rule emission_in_build_order)
    (simp add: same_identity_def nodes.simps [of "UnionAllQuery i bs" for i bs] nodes.simps [of "BaseTableSource i t" for i t])

text \<open>C17: for each of the six shipped SQL spellings, the text an operand is rendered to can be put
  next to any operator: its brackets match, and no blank, so no operator between blanks, is outside them.\<close>

theorem operand_text_closed:
  assumes "sp \<in> set shipped_spellings" "operand_sql sp e = Inr s" "clean e"
  shows "closed_text s"
  by (rule sql_spelling.operand_closed [OF shipped_contract [OF assms(1)] assms(2,3)])

theorem operand_text_closed_witness:
  "closed_text ''(a = 1)''"
  by (rule operand_text_closed [of postgres_spelling "Comparison ''='' (ColumnRef ''a'' IntegerType None) (IntLiteral 1)"])
    (simp add: shipped_spellings_def, code_simp, simp add: closed_text_def balanced_def)


section \<open>Comparing results\<close>

text \<open>C18: when two tallies of rows are reported equal, the rows can be paired off one to one, each with the
  same row or with a close one, and the number reported as reconciled is the number of pairs that are not the same.\<close>

theorem equal_means_paired:
  assumes "distinct (map fst base)" "distinct (map fst other)" "df_equal (compare_multisets close repr base other)"
  shows "\<exists>P. rows_of base = image_mset fst P \<and> rows_of other = image_mset snd P \<and> (\<forall>(b, r) \<in> set_mset P. b = r \<or> close b r)
    \<and> reconciled (compare_multisets close repr base other) = size (filter_mset (\<lambda>(b, r). b \<noteq> r) P)"
proof -
  obtain m e where "rows_of m = {#}" "rows_of e = {#}"
      "pairing close (rows_of base) (rows_of other) (rows_of m) (rows_of e) (reconciled (compare_multisets close repr base other))"
    using compare_pairing [OF assms(1,2)] assms(3) by metis
  then show ?thesis by (simp add: pairing_def)
qed

theorem equal_means_paired_witness:
  "\<exists>P. rows_of [(''1.0'', 2)] = image_mset fst P \<and> rows_of [(''1.00'', 2)] = image_mset snd P
    \<and> (\<forall>(b, r) \<in> set_mset P. b = r \<or> (\<lambda>x y. numeric_string x = numeric_string y) b r)
    \<and> reconciled (compare_multisets (\<lambda>x y. numeric_string x = numeric_string y) (\<lambda>x. x) [(''1.0'', 2)] [(''1.00'', 2)])
        = size (filter_mset (\<lambda>(b, r). b \<noteq> r) P)"
  by (rule equal_means_paired) (simp, simp, code_simp)

text \<open>C19: two tallies hold the same rows with the same multiplicities exactly when they are reported equal
  with nothing reconciled, whatever the tolerance; in particular a row lost or duplicated is seen.\<close>

theorem exact_iff_same_rows:
  assumes "distinct (map fst base)" "distinct (map fst other)"
  shows "df_equal (compare_multisets close repr base other) \<and> reconciled (compare_multisets close repr base other) = 0
    \<longleftrightarrow> rows_of base = rows_of other"
proof
  assume equal: "df_equal (compare_multisets close repr base other) \<and> reconciled (compare_multisets close repr base other) = 0"
  then obtain m e where "rows_of m = {#}" "rows_of e = {#}" "pairing close (rows_of base) (rows_of other) (rows_of m) (rows_of e) 0"
    using compare_pairing [OF assms] by metis
  then obtain P where P: "rows_of base = image_mset fst P" "rows_of other = image_mset snd P"
      "filter_mset (\<lambda>(b, r). b \<noteq> r) P = {#}" by (auto simp: pairing_def)
  from P(3) have "\<forall>p \<in> set_mset P. fst p = snd p" by (auto simp: filter_mset_eq_mempty_iff)
  then have "image_mset fst P = image_mset snd P" by (intro image_mset_cong) simp
  with P(1,2) show "rows_of base = rows_of other" by simp
qed (rule compare_same [OF assms])

theorem exact_iff_same_rows_witness:
  "df_equal (compare_multisets (\<lambda>_ _. True) (\<lambda>x. x) [(''a'', 1)] [(''a'', 2)])
      \<and> reconciled (compare_multisets (\<lambda>_ _. True) (\<lambda>x. x) [(''a'', 1)] [(''a'', 2)]) = 0
    \<longleftrightarrow> rows_of [(''a'', 1)] = rows_of [(''a'', 2)]"
  by (rule exact_iff_same_rows) simp_all

text \<open>C20: the greedy tolerance pass can report a difference although every row has a close partner: the
  first base row takes the partner the second one needed.\<close>

theorem greedy_pass_can_miss:
  "\<exists>base other P. rows_of base = image_mset fst P \<and> rows_of other = image_mset snd P
     \<and> set_mset P \<subseteq> {(b, r). rows_close b r} \<and> \<not> df_equal (compare_multisets rows_close (\<lambda>r. []) base other)"
proof -
  let ?row = "\<lambda>x. [NumCell TFloat (x / 10000)]"
  let ?base = "[(?row 0, 1), (?row 8, 1)]" and ?other = "[(?row 4, 1), (?row (- 4), 1)]"
  let ?P = "{#(?row 0, ?row (- 4)), (?row 8, ?row 4)#}"
  have "rows_of ?base = image_mset fst ?P \<and> rows_of ?other = image_mset snd ?P" by (simp add: rows_of_def)
  moreover have "set_mset ?P \<subseteq> {(b, r). rows_close b r}"
    by (simp add: rows_close_def values_close_def as_float_def is_bool_cell_def nan_sentinel_def is_close_def
        float_abs_tol_def float_rel_tol_def)
  moreover have "\<not> df_equal (compare_multisets rows_close (\<lambda>r. []) ?base ?other)" by code_simp
  ultimately show ?thesis by blast
qed


section \<open>Verdicts\<close>

text \<open>C21: the exposed objects of the two sides are found equal exactly when, under every exposed name (the
  table's own name when none is given), the rows and the declared column types agree.\<close>

theorem objects_agree_everywhere:
  "objects_equal (compare_env close repr base equivalent catalog exposed) \<longleftrightarrow>
     (\<forall>nm \<in> set (if exposed = [] then [get_sql_name catalog False] else exposed).
        df_equal (compare_multisets close repr (tally_rows (fst (base nm))) (tally_rows (fst (equivalent nm))))
        \<and> snd (base nm) = snd (equivalent nm))" (is "_ \<longleftrightarrow> (\<forall>nm \<in> set ?names. ?agree nm)")
proof -
  have one: "objects_equal (compare_objects close repr base equivalent nm) \<longleftrightarrow> ?agree nm" for nm
    by (simp add: compare_objects_def objects_equal_def types_agree_def)
  let ?cs = "map (compare_objects close repr base equivalent) ?names"
  have "?cs \<noteq> []" by simp
  show ?thesis
  proof (cases "filter (\<lambda>c. \<not> objects_equal c) ?cs")
    case Nil
    then have all: "\<forall>c \<in> set ?cs. objects_equal c" by (simp add: filter_empty_conv)
    with \<open>?cs \<noteq> []\<close> have "objects_equal (hd ?cs)" by (intro bspec [OF all] hd_in_set)
    with Nil all show ?thesis by (simp add: compare_env_def Let_def one)
  next
    case (Cons c cs)
    then have "c \<in> set (filter (\<lambda>c. \<not> objects_equal c) ?cs)" by simp
    then have "c \<in> set ?cs \<and> \<not> objects_equal c" unfolding set_filter by blast
    with Cons show ?thesis by (auto simp: compare_env_def Let_def one)
  qed
qed

theorem objects_agree_everywhere_witness:
  "objects_equal (compare_env (\<lambda>_ _. False) (\<lambda>x. x) (\<lambda>nm. ([''a'', ''b''], [''int''])) (\<lambda>nm. ([''b'', ''a''], [''int''])) orders []) \<longleftrightarrow>
     (\<forall>nm \<in> set (if [] = ([] :: string list) then [get_sql_name orders False] else []).
        df_equal (compare_multisets (\<lambda>_ _. False) (\<lambda>x. x) (tally_rows (fst ([''a'', ''b''], [''int'']))) (tally_rows (fst ([''b'', ''a''], [''int'']))))
        \<and> snd ([''a'', ''b''], [''int'']) = snd ([''b'', ''a''], [''int'']))"
  by (rule objects_agree_everywhere)


section \<open>Complexity and the time of a round\<close>

text \<open>C22: the complexity of a tree whose nodes are told apart by their identities counts every node once,
  however many readers it has, reports a depth of at most the longest path, and a score between 0 and 1.\<close>

theorem complexity_counts:
  assumes "same_identity n"
  shows "cx_nodes (measure_complexity n statements used) = card (nodes n)
    \<and> cx_depth (measure_complexity n statements used) \<le> height n
    \<and> 0 \<le> cx_score (measure_complexity n statements used) \<and> cx_score (measure_complexity n statements used) \<le> 1"
proof -
  have "snd (complexity_walk [(n, 1)] {} 0 0) = card (nodes n)"
    using walk_counts [OF assms, of "{}" "[(n, 1)]" "{}" 0 0] by simp
  moreover have "fst (complexity_walk [(n, 1)] {} 0 0) \<le> height n"
    using walk_depth [of "[(n, 1)]" "{}" 0 0] by simp
  ultimately show ?thesis
    by (cases "complexity_walk [(n, 1)] {} 0 0")
      (simp add: measure_complexity_def depth_cap_def node_cap_def stmt_cap_def le_max_iff_disj del: complexity_walk.simps)
qed

theorem complexity_counts_witness:
  "cx_nodes (measure_complexity (BaseTableSource 0 orders) 1 []) = card (nodes (BaseTableSource 0 orders))
    \<and> cx_depth (measure_complexity (BaseTableSource 0 orders) 1 []) \<le> height (BaseTableSource 0 orders)
    \<and> 0 \<le> cx_score (measure_complexity (BaseTableSource 0 orders) 1 []) \<and> cx_score (measure_complexity (BaseTableSource 0 orders) 1 []) \<le> 1"
  by (rule complexity_counts) (simp add: same_identity_def nodes.simps [of "BaseTableSource i t" for i t])

text \<open>C23: a scheduler that can be made gives every round a positive time between its bounds, the whole of it
  when the round has no complexity; with the default floor one can be made exactly when the cap is three
  seconds or more.\<close>

theorem round_time_in_bounds:
  "(case make_scheduler mx mn fl of
      None \<Rightarrow> mx \<le> 0 \<or> mn \<le> 0 \<or> mx < mn
    | Some s \<Rightarrow> 0 < mn \<and> seconds s None = mx
        \<and> mn \<le> seconds s (Some (measure_complexity n statements used)) \<and> seconds s (Some (measure_complexity n statements used)) \<le> mx)
   \<and> (make_scheduler mx (default_min_seconds mx) fl \<noteq> None \<longleftrightarrow> 3 \<le> mx)"
proof (intro conjI)
  let ?score = "cx_score (measure_complexity n statements used)"
  have score: "0 \<le> ?score" "?score \<le> 1"
    by (simp_all add: measure_complexity_def depth_cap_def node_cap_def stmt_cap_def le_max_iff_disj split: prod.splits)
  show "case make_scheduler mx mn fl of
      None \<Rightarrow> mx \<le> 0 \<or> mn \<le> 0 \<or> mx < mn
    | Some s \<Rightarrow> 0 < mn \<and> seconds s None = mx
        \<and> mn \<le> seconds s (Some (measure_complexity n statements used)) \<and> seconds s (Some (measure_complexity n statements used)) \<le> mx"
  proof (cases "make_scheduler mx mn fl")
    case (Some s)
    then have s: "s = \<lparr>max_seconds = mx, min_seconds = mn, flat = fl\<rparr>" "0 < mn" "mn \<le> mx"
      by (simp_all add: make_scheduler_def split: if_splits)
    have "0 \<le> (mx - mn) * ?score" "(mx - mn) * ?score \<le> (mx - mn) * 1"
      using score s(3) by (simp, intro mult_left_mono) simp_all
    with Some s show ?thesis by (simp add: seconds_def)
  qed (auto simp: make_scheduler_def split: if_splits)
  have "of_int \<lfloor>mx / 5\<rfloor> \<le> mx" if "3 \<le> mx"
  proof -
    have "of_int \<lfloor>mx / 5\<rfloor> \<le> mx / 5" by (rule of_int_floor_le)
    also have "\<dots> \<le> mx" using that by simp
    finally show ?thesis .
  qed
  then show "make_scheduler mx (default_min_seconds mx) fl \<noteq> None \<longleftrightarrow> 3 \<le> mx"
    by (auto simp: make_scheduler_def default_min_seconds_def)
qed


section \<open>The log\<close>

text \<open>C24: reading a log back gives what was logged: every query that was begun, in order, with the last verdict or
  note written after it; titled blocks and the header are skipped.\<close>

theorem journal_roundtrip:
  assumes "unbroken header" "list_all event_ok events"
  shows "parse_journal (journal_text header events) = replay events []
    \<and> queries_from_journal (journal_text header events) = concat (map (\<lambda>e. case e of Begin sql \<Rightarrow> [bare_query sql] | _ \<Rightarrow> []) events)"
proof -
  have "parse_journal (journal_text header events) = replay events []"
    using parse_prefix [OF assms, of "[]"] by (simp add: finish_parse_def)
  then show ?thesis by (simp add: queries_from_journal_def replay_queries)
qed

theorem journal_roundtrip_witness:
  "parse_journal (journal_text ''round 0'' [Begin ''SELECT id FROM orders;'', End ''PASS'', Begin ''SELECT 2''])
    = replay [Begin ''SELECT id FROM orders;'', End ''PASS'', Begin ''SELECT 2''] []"
proof -
  have "unbroken ''round 0''" "unbroken ''PASS''" "query_line (bare_query ''SELECT id FROM orders;'' @ '';'')"
      "query_line (bare_query ''SELECT 2'' @ '';'')"
    by code_simp+
  then show ?thesis
    using journal_roundtrip [of "''round 0''" "[Begin ''SELECT id FROM orders;'', End ''PASS'', Begin ''SELECT 2'']"] single_line
    by (simp del: replay.simps)
qed

text \<open>C25: a log cut off while a query was being written, after any number of characters, still gives every earlier query
  with its verdict, and then one more entry: the query as far as it was written, with no verdict.  It is not dropped, and
  nothing marks it as incomplete, although the reader is documented to stop at the last complete entry; only when no more
  than blanks were written there is no such entry.\<close>

theorem journal_cut_off:
  assumes "unbroken header" "list_all event_ok events" "query_ok sql"
  shows "parse_journal (journal_text header events @ take k (bare_query sql @ '';''))
    = replay events [] @ cut_entry (take k (bare_query sql @ '';''))"
  unfolding parse_prefix [OF assms(1,2)] by (rule cut_query [OF assms(3) refl])

theorem journal_cut_off_witness:
  "parse_journal (journal_text ''round 0'' [Begin ''DELETE FROM t'', End ''PASS''] @ take 13 (bare_query ''DELETE FROM t WHERE a = 1'' @ '';''))
    = replay [Begin ''DELETE FROM t'', End ''PASS''] [] @ [\<lparr>je_sql = ''DELETE FROM t'', je_annotation = None\<rparr>]"
proof -
  have "unbroken ''round 0''" "unbroken ''PASS''" "query_line (bare_query ''DELETE FROM t'' @ '';'')"
      "query_line (bare_query ''DELETE FROM t WHERE a = 1'' @ '';'')"
      "cut_entry (take 13 (bare_query ''DELETE FROM t WHERE a = 1'' @ '';'')) = [\<lparr>je_sql = ''DELETE FROM t'', je_annotation = None\<rparr>]"
    by code_simp+
  then show ?thesis
    using journal_cut_off [of "''round 0''" "[Begin ''DELETE FROM t'', End ''PASS'']" "''DELETE FROM t WHERE a = 1''" 13] single_line
    by (simp del: replay.simps)
qed

text \<open>C26: a driver's error message of two lines, written as the verdict on a query, breaks the replay whenever the second
  line looks like the start of a query: that line and the query logged after it come back as one query.  Two queries were
  logged there, and neither the text that comes back nor its second half alone is the one that was run; the queries before
  and after are not touched.\<close>

theorem broken_verdict_corrupts_replay:
  assumes "unbroken header" "list_all event_ok events" "list_all event_ok later" "query_ok sql" "query_ok following"
    and "unbroken message" "taken_for_query line"
    and "c = compare_one close repr sql (Fetched rows) (DriverError (message @ newline # line) None)"
  shows "queries_from_journal (journal_text header (events @ Begin sql # End (verdict repr c) # Begin following # later))
      = map je_sql (replay events []) @ [bare_query sql, line @ newline # bare_query following] @ map je_sql (replay later [])
    \<and> map je_sql (replay (events @ Begin sql # End (verdict repr c) # Begin following # later) [])
      = map je_sql (replay events []) @ [bare_query sql, bare_query following] @ map je_sql (replay later [])"
proof
  have said: "verdict repr c = (''ERROR (equivalent): '' @ message) @ newline # line"
    by (simp add: assms(8) compare_one_def verdict_def is_mismatch_def is_error_def optional_text_def or_text_def)
  have "unbroken (''ERROR (equivalent): '' @ message)" using assms(6) by (simp add: unbroken_def is_break_def)
  note broken = broken_note [OF assms(4,5) this assms(7)]
  have "journal_text header (events @ Begin sql # End (verdict repr c) # Begin following # later)
      = journal_text header events @ begin_text sql @ note_text (verdict repr c) @ begin_text following @ concat (map event_text later)"
    by (simp add: journal_text_def)
  then show "queries_from_journal (journal_text header (events @ Begin sql # End (verdict repr c) # Begin following # later))
      = map je_sql (replay events []) @ [bare_query sql, line @ newline # bare_query following] @ map je_sql (replay later [])"
    unfolding queries_from_journal_def said
    by (simp only: parse_prefix [OF assms(1,2)] broken parse_events [OF assms(3)]) (simp add: replay_queries)
  show "map je_sql (replay (events @ Begin sql # End (verdict repr c) # Begin following # later) [])
      = map je_sql (replay events []) @ [bare_query sql, bare_query following] @ map je_sql (replay later [])"
    by (simp add: replay_queries)
qed

theorem broken_verdict_corrupts_replay_witness:
  "let c = compare_one (=) (\<lambda>r. ''row'') ''SELECT a FROM t'' (Fetched [0 :: nat])
             (DriverError (''column a does not exist'' @ newline # ''LINE 1: SELECT a'') None)
   in queries_from_journal (journal_text [] ([] @ Begin ''SELECT a FROM t'' # End (verdict (\<lambda>r. ''row'') c) # Begin ''SELECT 3'' # [End ''PASS'']))
        = [''SELECT a FROM t'', ''LINE 1: SELECT a'' @ newline # ''SELECT 3'']"
proof -
  have "unbroken []" "unbroken ''PASS''" "unbroken ''column a does not exist''" "taken_for_query ''LINE 1: SELECT a''"
      "query_line (bare_query ''SELECT a FROM t'' @ '';'')" "query_line (bare_query ''SELECT 3'' @ '';'')"
      "bare_query ''SELECT a FROM t'' = ''SELECT a FROM t''" "bare_query ''SELECT 3'' = ''SELECT 3''" by code_simp+
  then show ?thesis
    using broken_verdict_corrupts_replay [where header = "[]" and events = "[]" and later = "[End ''PASS'']" and sql = "''SELECT a FROM t''"
        and following = "''SELECT 3''" and message = "''column a does not exist''" and line = "''LINE 1: SELECT a''"
        and close = "(=)" and repr = "\<lambda>r. ''row''" and rows = "[0 :: nat]", OF _ _ _ _ _ _ _ refl] single_line
    by (simp add: Let_def annotate_last_def)
qed


section \<open>The two processes of a round\<close>

text \<open>C27: whatever the order in which the two processes step, and whenever the worker dies: at most one query is on
  its way, being worked on or answered; the answers are to the first queries, in order; a query is in the log before it
  is sent; a crash is blamed on the query after the last one answered.\<close>

theorem session_one_in_flight:
  assumes "reachable wd close queries s"
  shows "length (ss_down s) + length (ss_up s) + (case ss_worker s of Working q \<Rightarrow> 1 | _ \<Rightarrow> 0) \<le> 1
    \<and> map qc_query (ss_results s) = take (length (ss_results s)) queries
    \<and> list_all (\<lambda>q. Begin q \<in> set (ss_events s)) (ss_down s)
    \<and> (case ss_crashed s of None \<Rightarrow> True | Some (q, why) \<Rightarrow> length (ss_results s) < length queries \<and> q = queries ! length (ss_results s))"
proof (cases "ss_crashed s")
  case None
  with reachable_ok [OF assms] show ?thesis
    by (cases "ss_flight s") (auto simp: session_ok_def in_flight_def split: worker.splits)
next
  case (Some p)
  then have "length (ss_results s) = length (map qc_query (ss_results s))" by simp
  with Some reachable_ok [OF assms] show ?thesis
    by (cases p) (auto simp: session_ok_def nth_append split: worker.splits option.splits)
qed

theorem session_one_in_flight_witness:
  "length (ss_results (session_start sample_queries :: cell list session)) = 0
    \<and> map qc_query (ss_results (session_start sample_queries :: cell list session)) = take 0 sample_queries"
  using session_one_in_flight [OF reachable.start [of sample_wording "\<lambda>a b. False" sample_queries]]
  by (simp add: session_start_def)

text \<open>C28: every session that ended is a run of the sequential loop: for some worker and some clock the loop gives the
  same answers, the same log, and blames the same query with the same note.\<close>

theorem session_refines_loop:
  assumes "reachable wd close queries s" "ss_over s"
  shows "\<exists>w deadline. let r = query_loop wd w True deadline queries 0
    in lr_results r = ss_results s \<and> lr_events r = ss_events s \<and>
       (case ss_crashed s of None \<Rightarrow> lr_crashed r = None \<and> lr_note r = None
        | Some (q, why) \<Rightarrow> lr_crashed r = Some q \<and> lr_note r = Some why)"
  using session_is_loop [OF reachable_ok [OF assms(1)] assms(2)] .

theorem session_refines_loop_witness:
  "\<exists>w deadline. lr_crashed (query_loop sample_wording w True deadline [''SELECT 1''] 0) = Some ''SELECT 1''"
proof -
  let ?s = "session_start [''SELECT 1''] :: cell list session"
  let ?dead = "?s\<lparr>ss_worker := Gone (KilledBy ''SIGSEGV'')\<rparr>"
  have "reachable sample_wording (\<lambda>a b. False) [''SELECT 1''] ?dead"
    by (rule reachable.step [OF reachable.start session_step.die]) (simp add: session_start_def)
  then have "reachable sample_wording (\<lambda>a b. False) [''SELECT 1'']
      (blame ''SELECT 1'' ''died'' (exit_text (KilledBy ''SIGSEGV'')) (?dead\<lparr>ss_todo := [], ss_events := ss_events ?dead @ [Begin ''SELECT 1'']\<rparr>))"
    by (rule reachable.step [OF _ session_step.broken_pipe]) (simp_all add: session_start_def)
  from session_refines_loop [OF this] show ?thesis by (simp add: blame_def Let_def del: query_loop.simps) blast
qed


section \<open>Reports and the loop\<close>

text \<open>C29: the report of a run accounts for everything: every round was counted, refused or discarded, and every query
  and crash of the counted rounds is a pass, a skip or a finding, once.\<close>

theorem report_accounts:
  assumes "\<And>n. answers_queries (cp_worker cp n)" "run_fuzz cp rounds = Inr st"
  shows "\<exists>os. length os = rounds \<and> outcomes_are cp 0 os \<and> (let r = fz_report st in
    rp_rounds r + rp_unbuildable r + rp_not_equivalent r = rounds \<and> rp_rounds r = length (filter kept_round os) \<and>
    rp_queries r = sum_list (map (\<lambda>o'. length (ro_results o')) (filter kept_round os)) \<and>
    rp_passed r + rp_skipped r + length (rp_findings r)
      = sum_list (map (\<lambda>o'. length (ro_results o') + crash_count o') (filter kept_round os)))"
proof -
  obtain os where os: "length os = rounds" "outcomes_are cp 0 os" "fz_report st = record_rounds empty_report os 0"
    using fuzz_outcomes [OF assms(2) [unfolded run_fuzz_def]] by (auto simp: fuzz_start_def)
  with accounts [OF outcomes_compared [OF assms(1) os(2)], of empty_report 0] show ?thesis
    by (intro exI [of _ os]) (simp add: Let_def empty_report_def)
qed

theorem report_accounts_witness:
  "\<exists>st os. run_fuzz sample_campaign 3 = Inr st \<and> length os = 3 \<and> outcomes_are sample_campaign 0 os
    \<and> rp_rounds (fz_report st) + rp_unbuildable (fz_report st) + rp_not_equivalent (fz_report st) = 3"
proof -
  obtain st where st: "run_fuzz sample_campaign 3 = Inr st" using sample_rounds by blast
  have "answers_queries (cp_worker sample_campaign n)" for n using sample_world_answers by (simp add: sample_campaign_def)
  from report_accounts [OF this st] st show ?thesis by (auto simp: Let_def)
qed

text \<open>C30: nothing is reported that did not happen: each finding is a crash or a reportable comparison of the round it
  names, and that round was neither refused when it was set up nor found to hold other rows than the base.\<close>

theorem findings_justified:
  assumes "run_fuzz cp rounds = Inr st"
  shows "\<exists>os. length os = rounds \<and> outcomes_are cp 0 os \<and> list_all (justified os) (rp_findings (fz_report st))"
proof -
  obtain os where os: "length os = rounds" "outcomes_are cp 0 os" "fz_report st = record_rounds empty_report os 0"
    using fuzz_outcomes [OF assms [unfolded run_fuzz_def]] by (auto simp: fuzz_start_def)
  with findings_from [of _ empty_report 0 os] show ?thesis
    by (intro exI [of _ os]) (auto simp: list_all_iff empty_report_def)
qed

theorem findings_justified_witness:
  "\<exists>st os. run_fuzz sample_campaign 3 = Inr st \<and> outcomes_are sample_campaign 0 os \<and> list_all (justified os) (rp_findings (fz_report st))"
  using sample_rounds findings_justified [of sample_campaign 3] by metis

text \<open>C31: a run writes one log for each round and one script for each finding it reports, and never the same file twice.\<close>

theorem every_finding_has_a_script:
  assumes "run_fuzz cp rounds = Inr st"
  shows "distinct (map fst (fz_files st)) \<and> length (fz_files st) = rounds + length (rp_findings (fz_report st))"
  using fuzz_files [OF assms [unfolded run_fuzz_def]] by (auto simp: fuzz_start_def empty_report_def)

theorem every_finding_has_a_script_witness:
  "\<exists>st. run_fuzz sample_campaign 3 = Inr st \<and> distinct (map fst (fz_files st))"
  using sample_rounds every_finding_has_a_script [of sample_campaign 3] by metis


section \<open>Sampled tables\<close>

text \<open>C33: the rows a sampled table is filled with, however many are asked for: at least three, under keys that are
  never repeated; beside the key the first row is all NULL and the last repeats the second; every value is one of
  its column's type: a Boolean, a whole number, a number of two decimals, a binary fraction, a day of the calendar, a
  timestamp, a JSON document, a UUID, a range or text, and the infinities only where they are asked for.  Where they
  are, the first \<open>DOUBLE\<close> column has the positive one in the second row and the negative one in the third, unless three
  rows or fewer are asked for: there the repeated row takes that place.\<close>

theorem sampled_rows_awkward:
  assumes "pool_ok pool" "sample_catalog pool nm mn mx rolls = Inr t"
  shows "let rows = sample_rows t n ai rolls' in
    length rows = max n 3 \<and> map hd rows = map (\<lambda>k. NumCell TInt (of_nat k)) [1..<Suc (max n 3)] \<and>
    tl (rows ! 0) = replicate (length (tab_columns t) - 1) NoneCell \<and> tl (last rows) = tl (rows ! 1) \<and>
    list_all (cells_ok ai (tab_columns t)) rows \<and>
    (case first_index (\<lambda>c. is_double (col_type c)) (tab_columns t) of
       Some d \<Rightarrow> \<not> ai \<or> rows ! 1 ! d = InfCell False True \<and> rows ! 2 ! d = InfCell False (n \<le> 3)
     | None \<Rightarrow> True)"
  using awkward_rows [OF assms] .

theorem sampled_rows_awkward_witness:
  "\<exists>t. sample_catalog (catalog_type_pool rich_spec) ''t'' 1 8 sample_rolls = Inr t
    \<and> map hd (sample_rows t 8 True sample_rolls) = map (\<lambda>k. NumCell TInt (of_nat k)) [1..<9]
    \<and> list_all (cells_ok True (tab_columns t)) (sample_rows t 8 True sample_rolls)"
proof -
  obtain t where t: "sample_catalog (catalog_type_pool rich_spec) ''t'' 1 8 sample_rolls = Inr t" using sampled_catalog by blast
  from sampled_rows_awkward [OF shipped_pools_ok(1) t, of 8 True sample_rolls] t show ?thesis
    by (auto simp: Let_def simp del: upt_Suc)
qed

text \<open>C34: a whole round with a sampled table: the catalog has distinct names that cannot meet a minted one, the
  engine stores typed rows, and the forks generated for the table hidden under its \<open>__base\<close> name each hold these rows.\<close>

theorem sampled_forks_sound:
  assumes "pool_ok pool" "sample_catalog pool nm mn mx rolls = Inr t" "store_ok store" "engine_ok E"
    and "config_ok (config env)" "\<And>src. the_predicate_source env = Some src \<Longrightarrow> source_ok (hidden_table t) src"
    and "gr_builders g = PORTABLE_BUILDERS" "[] \<notin> set exposed"
  shows "case generate_forks g fuel (env\<lparr>base_table := hidden_table t\<rparr>) seed exposed s of
      Inl e \<Rightarrow> e = NoExposedNames \<longleftrightarrow> exposed = []
    | Inr (fk, s') \<Rightarrow> list_all2 (\<lambda>name x. exposed_of_generated x = Some name \<and>
        (\<exists>rows. den E (map (stored_row store (hidden_table t)) (sample_rows t n ai rolls')) [] (gd_root x) = Some rows \<and>
           mset rows = mset (map (stored_row store (hidden_table t)) (sample_rows t n ai rolls')))) exposed (fk_forks fk)"
  by (rule sampled_forks [OF assms])

theorem sampled_forks_sound_witness:
  "\<exists>t. sample_catalog (catalog_type_pool rich_spec) ''t'' 1 8 sample_rolls = Inr t \<and>
    (case generate_forks portable_generator 7 (sample_env\<lparr>the_predicate_source := None, base_table := hidden_table t\<rparr>) 0 [''t''] start_state of
       Inl e \<Rightarrow> e \<noteq> NoExposedNames | Inr (fk, s') \<Rightarrow> length (fk_forks fk) = 1)"
proof -
  obtain t where t: "sample_catalog (catalog_type_pool rich_spec) ''t'' 1 8 sample_rolls = Inr t" using sampled_catalog by blast
  let ?env = "sample_env\<lparr>the_predicate_source := None\<rparr>"
  let ?rows = "map (stored_row sample_store (hidden_table t)) (sample_rows t 8 True sample_rolls)"
  have "case generate_forks portable_generator 7 (?env\<lparr>base_table := hidden_table t\<rparr>) 0 [''t''] start_state of
      Inl e \<Rightarrow> e = NoExposedNames \<longleftrightarrow> [''t''] = []
    | Inr (fk, s') \<Rightarrow> list_all2 (\<lambda>name x. exposed_of_generated x = Some name \<and>
        (\<exists>rows. den reference_engine ?rows [] (gd_root x) = Some rows \<and> mset rows = mset ?rows)) [''t''] (fk_forks fk)"
    by (rule sampled_forks_sound [OF shipped_pools_ok(1) t sample_store_ok reference_ok])
      (use sample_env_ok in \<open>simp_all add: env_ok_def\<close>)
  with t show ?thesis by (auto split: sum.splits dest!: list_all2_lengthD)
qed

section \<open>Typed predicates\<close>

text \<open>C35: whatever the dice, \<open>build_predicate\<close> gives a boolean tree that is well typed over the columns of the table: every
  comparison stays in one type family and is of a type with an order unless it is an equality, every call
  matches a signature of the dialect's catalog, and connectives nest at most two deep.  It gives none exactly for a
  table without columns.\<close>

theorem typed_predicate_well_typed:
  "case build_predicate t dice d of
     None \<Rightarrow> tab_columns t = []
   | Some e \<Rightarrow> tab_columns t \<noteq> [] \<and> well_typed d (tab_columns t) e \<and> is_boolean (tp_type e) \<and> connective_depth e \<le> max_predicate_depth"
  using build_typed [of t dice d] by (auto simp: build_predicate_def split: option.split)

text \<open>C36: the text of a predicate over plain column names is balanced in quotes and brackets and not blank, and each
  operand printed is in one piece: outside its own quotes and brackets it has no blank, so \<open>NOT\<close>, \<open>AND\<close> and \<open>OR\<close>
  around it cannot take a part of it.\<close>

theorem typed_predicate_text:
  assumes "plain_columns (tab_columns t)" "build_predicate t dice d = Some e"
  shows "typed_boolean_predicate d t dice = Some (print_expr d e) \<and> level (print_expr d e) \<and> nonblank (print_expr d e) \<and>
    list_all (\<lambda>x. tight (bracket_unless (is_atomic x) (print_expr d x))) (e # tp_operands e)"
  using build_typed [OF assms(2)] assms printed_tight [of d "tab_columns t" e] printed_nonblank [of d "tab_columns t" e]
    operands_tight [of d "tab_columns t" e]
  by (auto simp: typed_boolean_predicate_def)

theorem typed_predicate_text_witness:
  "\<exists>e. build_predicate orders \<lparr>dc_int = (\<lambda>n. n), dc_real = (\<lambda>n. 5 / 10), dc_at = 0\<rparr> TpMysql = Some e
     \<and> level (print_expr TpMysql e)"
proof -
  let ?dice = "\<lparr>dc_int = (\<lambda>n. n), dc_real = (\<lambda>n. 5 / 10), dc_at = 0\<rparr> :: dice"
  have columns: "tab_columns orders \<noteq> []" by (simp add: orders_def)
  have plain: "plain_columns (tab_columns orders)" by code_simp
  from columns have "\<exists>e. build_predicate orders ?dice TpMysql = Some e" by (simp add: build_predicate_def)
  then obtain e where e: "build_predicate orders ?dice TpMysql = Some e" by blast
  from typed_predicate_text [OF plain e] e show ?thesis by blast
qed

text \<open>C37: a whole round with a sampled table and typed predicates, of any dialect and any dice: nothing is asked of
  the plugin any more, and each fork holds the sampled rows.\<close>

theorem typed_forks_sound:
  assumes "pool_ok pool" "plain_pool pool" "sample_catalog pool nm mn mx rolls = Inr t" "store_ok store" "engine_ok E"
    and "config_ok (config env)" "the_predicate_source env = Some (typed_source d dice_of)"
    and "gr_builders g = PORTABLE_BUILDERS" "[] \<notin> set exposed"
  shows "case generate_forks g fuel (env\<lparr>base_table := hidden_table t\<rparr>) seed exposed s of
      Inl e \<Rightarrow> e = NoExposedNames \<longleftrightarrow> exposed = []
    | Inr (fk, s') \<Rightarrow> list_all2 (\<lambda>name x. exposed_of_generated x = Some name \<and>
        (\<exists>rows. den E (map (stored_row store (hidden_table t)) (sample_rows t n ai rolls')) [] (gd_root x) = Some rows \<and>
           mset rows = mset (map (stored_row store (hidden_table t)) (sample_rows t n ai rolls')))) exposed (fk_forks fk)"
proof (rule sampled_forks [OF assms(1,3-6) _ assms(8,9)])
  fix src
  assume "the_predicate_source env = Some src"
  with assms(7) show "source_ok (hidden_table t) src"
    using typed_source_ok [of "hidden_table t" d dice_of] sampled_columns_plain [OF assms(1-3)] by simp
qed

theorem typed_forks_sound_witness:
  "\<exists>t. sample_catalog (catalog_type_pool rich_spec) ''t'' 1 8 sample_rolls = Inr t \<and>
    (case generate_forks portable_generator 7
        (sample_env\<lparr>the_predicate_source := Some (typed_source TpMysql (\<lambda>n. \<lparr>dc_int = (\<lambda>k. n), dc_real = (\<lambda>k. 0), dc_at = 0\<rparr>)),
          base_table := hidden_table t\<rparr>) 0 [''t''] start_state of
       Inl e \<Rightarrow> e \<noteq> NoExposedNames | Inr (fk, s') \<Rightarrow> length (fk_forks fk) = 1)"
proof -
  obtain t where t: "sample_catalog (catalog_type_pool rich_spec) ''t'' 1 8 sample_rolls = Inr t" using sampled_catalog by blast
  let ?env = "sample_env\<lparr>the_predicate_source := Some (typed_source TpMysql (\<lambda>n. \<lparr>dc_int = (\<lambda>k. n), dc_real = (\<lambda>k. 0), dc_at = 0\<rparr>))\<rparr>"
  let ?rows = "map (stored_row sample_store (hidden_table t)) (sample_rows t 8 True sample_rolls)"
  have "case generate_forks portable_generator 7 (?env\<lparr>base_table := hidden_table t\<rparr>) 0 [''t''] start_state of
      Inl e \<Rightarrow> e = NoExposedNames \<longleftrightarrow> [''t''] = []
    | Inr (fk, s') \<Rightarrow> list_all2 (\<lambda>name x. exposed_of_generated x = Some name \<and>
        (\<exists>rows. den reference_engine ?rows [] (gd_root x) = Some rows \<and> mset rows = mset ?rows)) [''t''] (fk_forks fk)"
    by (rule typed_forks_sound [OF shipped_pools_ok(1) shipped_pools_plain(2) t sample_store_ok reference_ok])
      (use sample_env_ok in \<open>simp_all add: env_ok_def\<close>)
  with t show ?thesis by (auto split: sum.splits dest!: list_all2_lengthD)
qed


section \<open>One engine's own objects and connection\<close>

text \<open>C38: a builder only MySQL has (an index of four kinds, a typed copy, rows packed into JSON), at the root of a tree
  over whatever query the portable builders return: the statements of the stored query and then those of the object
  succeed on a database that holds the base table, no name is taken twice, and the exposed name reads as the columns and
  rows of the base table.  A unique index needs unique keys, and packing needs JSON functions that give back the
  values.\<close>

theorem mysql_natives_sound:
  assumes "env_ok env" "base_unminted env" "clear_names env nm" "engine_ok E" "base_rows_ok (base_table env) B"
    and "mysql_suits collation b E (base_table env) B"
    and "native_build (Some CreateTable) (look (mysql_guard b)) mysql_alter (build_subtree PORTABLE_BUILDERS fuel env) env
        [ExposedNameConstraint nm] s = Inr (Some x, s')" "height (nn_body x) \<le> Suc f"
  shows "\<exists>db d' rows. exec_tree E (Suc f) (nn_body x) (base_database (base_table env) B) = Some db
    \<and> exec_natives E (Suc f) (mysql_visit collation (nn_object x)) (native_start db) = Some d'
    \<and> read_relation E (objs d') (Suc (Suc (Suc f))) [] nm = Some (column_names (base_table env), rows) \<and> mset rows = mset B"
  by (rule mysql.native_run [OF assms])

theorem mysql_natives_sound_witness:
  "\<exists>x s' f db d' rows. native_build (Some CreateTable) (look (mysql_guard MySqlInnodbTableBuilder)) mysql_alter
        (build_subtree PORTABLE_BUILDERS 7 sample_env) sample_env [ExposedNameConstraint ''eq_name''] (start_state\<lparr>depth := 1\<rparr>) = Inr (Some x, s')
    \<and> exec_tree reference_engine (Suc f) (nn_body x) (base_database orders orders_rows) = Some db
    \<and> exec_natives reference_engine (Suc f) (mysql_visit ''utf8mb4_bin'' (nn_object x)) (native_start db) = Some d'
    \<and> read_relation reference_engine (objs d') (Suc (Suc (Suc f))) [] ''eq_name'' = Some ([''id'', ''note''], rows) \<and> mset rows = mset orders_rows"
proof -
  have "\<exists>x s'. native_build (Some CreateTable) (look (mysql_guard MySqlInnodbTableBuilder)) mysql_alter
        (build_subtree PORTABLE_BUILDERS 7 sample_env) sample_env [ExposedNameConstraint ''eq_name''] (start_state\<lparr>depth := 1\<rparr>) = Inr (Some x, s')"
  proof (rule sample_native)
    show "mysql_guard MySqlInnodbTableBuilder q \<noteq> None" if "get_signature q = table_signature orders" for q
      using that by (simp add: orders_ok)
    show "\<exists>x s'. mysql_alter a sample_env body (Some ''eq_name'') s = Inr (Some x, s')" if "materialized_name body = Some r" for a body r s
      unfolding mysql_alter_def by (rule native_make_returns [OF that]) (simp_all add: greturn_def)
  qed
  then obtain x s' where x: "native_build (Some CreateTable) (look (mysql_guard MySqlInnodbTableBuilder)) mysql_alter
        (build_subtree PORTABLE_BUILDERS 7 sample_env) sample_env [ExposedNameConstraint ''eq_name''] (start_state\<lparr>depth := 1\<rparr>) = Inr (Some x, s')" by blast
  from mysql_natives_sound [OF sample_env_ok sample_clear(2,1) reference_ok _ _ x, where B = orders_rows and f = "height (nn_body x)" and collation = "''utf8mb4_bin''"] x
  show ?thesis by (auto simp: orders_rows_ok orders_ok sample_simps)
qed



text \<open>C39: on a CrateDB connection, after any statements, whatever the server answered, a statement that may read is sent
  only when no table holds rows that readers do not see yet: every table written since was refreshed.  No name may be
  used for a table and for a view, and names are those the patterns see.\<close>

theorem fence_shows_all:
  assumes "session server sqls new_fence w = (f, tr, w1)" "run_fence server sql f w1 = (True, f', tr', w2)"
    and "may_read (classify sql)" "table_names sqls \<inter> view_names sqls = {}"
  shows "hidden_after (tr @ tr') = {}"
  using fence_shows [OF assms(1-3)] assms(4) by simp

theorem fence_shows_all_witness:
  "hidden_after ([(''INSERT INTO u SELECT 1'', Done)] @ [(''REFRESH TABLE u'', Done)]) = {}"
  by (rule fence_shows_all [OF fence_example])

text \<open>C40: the pattern for \<open>INSERT \<dots> VALUES\<close> also matches a statement that copies the rows of any query into a table whose
  name ends in \<open>values\<close>, in any case.  Whatever the fence remembers and whatever the server would answer, nothing is
  refreshed before it: the rows hidden before are still hidden when it reads.\<close>

theorem values_suffix_unfenced:
  assumes "ident_start c" "list_all ident_char cs" "lower v = ''values''"
    and "run_fence server (''INSERT INTO '' @ c # cs @ v @ '' '' @ query) f w = (ok, f', tr', w')"
  shows "ok \<and> f' = f \<and> tr' = [] \<and> w' = w \<and> hidden_after (tr @ tr') = hidden_after tr"
proof -
  have "\<not> may_read (classify (''INSERT INTO '' @ c # cs @ v @ '' '' @ query))"
    using values_name [OF assms(1-3)] by (simp only: may_read_def not_not)
  then have "refreshes f (''INSERT INTO '' @ c # cs @ v @ '' '' @ query) = []"
    unfolding refreshes_def before_def by (simp only: not_False_eq_True simp_thms if_True if_False)
  with assms(4) show ?thesis unfolding run_fence_def by simp
qed

theorem values_suffix_unfenced_witness:
  "case run_fence willing ''INSERT INTO myvalues SELECT a FROM u'' (new_fence\<lparr>fence_tables := {''u''}, dirty := {''u''}\<rparr>) ()
   of (ok, f', tr', w') \<Rightarrow> ok \<and> hidden_after ([(''INSERT INTO u SELECT 1'', Done)] @ tr') = {''u''}"
proof -
  let ?f = "new_fence\<lparr>fence_tables := {''u''}, dirty := {''u''}\<rparr>"
  obtain ok f' tr' w' where run: "run_fence willing ''INSERT INTO myvalues SELECT a FROM u'' ?f () = (ok, f', tr', w')"
    using prod_cases4 by blast
  have "ident_start CHR ''m''" "list_all ident_char ''y''" "lower ''values'' = ''values''" by code_simp+
  from values_suffix_unfenced [OF this, of willing "''SELECT a FROM u''" ?f "()" ok f' tr' w' "[(''INSERT INTO u SELECT 1'', Done)]"] run
  have "ok \<and> hidden_after ([(''INSERT INTO u SELECT 1'', Done)] @ tr') = hidden_after [(''INSERT INTO u SELECT 1'', Done)]" by simp
  moreover have "classify ''INSERT INTO u SELECT 1'' = Effect WRITE [''u''] None" by code_simp
  then have "hidden_after [(''INSERT INTO u SELECT 1'', Done)] = {''u''}" by (simp add: hidden_after_def seen_after_def)
  ultimately show ?thesis by (simp only: run prod.case)
qed


end
